(* ===== verification/Prelude.thy ===== *)
theory Prelude
  imports Main "HOL-Library.Word" "HOL-Library.Multiset"
begin

text \<open>
  The shared vocabulary of the development: machine integers, the status codes of the stack,
  OPC UA strings, the little-endian byte representation of integers
  (src/src/ua_types_encoding_binary.c, \<open>UA_encode16\<close> to \<open>UA_decode64\<close>) and the generic
  lemmas on words and lists that the component theories use.
  Collections: \<open>status_simps\<close> (the OR-combination of status codes), \<open>le_simps\<close>
  (byte representations).
\<close>

unbundle bit_operations_syntax

named_theorems status_simps "facts on status codes that are combined with OR"
named_theorems le_simps "facts on little-endian byte representations"

subsection \<open>Machine integers and status codes\<close>

type_synonym u8 = "8 word"
type_synonym u16 = "16 word"
type_synonym u32 = "32 word"
type_synonym u64 = "64 word"
type_synonym status = "32 word"

text \<open>The values of the status codes are those of src/tools/schema/StatusCode.csv.\<close>

abbreviation (input) GOOD :: status where "GOOD \<equiv> 0"
abbreviation (input) BADINTERNALERROR :: status where "BADINTERNALERROR \<equiv> 0x80020000"
abbreviation (input) BADOUTOFMEMORY :: status where "BADOUTOFMEMORY \<equiv> 0x80030000"
abbreviation (input) BADENCODINGERROR :: status where "BADENCODINGERROR \<equiv> 0x80060000"
abbreviation (input) BADDECODINGERROR :: status where "BADDECODINGERROR \<equiv> 0x80070000"
abbreviation (input) BADENCODINGLIMITSEXCEEDED :: status where "BADENCODINGLIMITSEXCEEDED \<equiv> 0x80080000"
abbreviation (input) BADRESPONSETOOLARGE :: status where "BADRESPONSETOOLARGE \<equiv> 0x80B90000"
abbreviation (input) BADCONNECTIONCLOSED :: status where "BADCONNECTIONCLOSED \<equiv> 0x80AE0000"
abbreviation (input) BADNOTIMPLEMENTED :: status where "BADNOTIMPLEMENTED \<equiv> 0x80400000"

lemma or_eq_zero_word [simp, status_simps]: "(a :: 'a::len word) OR b = 0 \<longleftrightarrow> a = 0 \<and> b = 0"
  by (auto simp: bit_eq_iff bit_simps)

subsection \<open>Strings\<close>

text \<open>
  A \<open>UA_String\<close> or \<open>UA_ByteString\<close> is a length and a data pointer. \<open>None\<close> is the null string
  (\<open>data == NULL\<close>), \<open>Some []\<close> the empty string (\<open>data == UA_EMPTY_ARRAY_SENTINEL\<close>), and
  \<open>Some bs\<close> with \<open>bs \<noteq> []\<close> a string with allocated data. The same representation serves every
  array of the program.
\<close>

type_synonym 'a uarray = "'a list option"
type_synonym ustring = "u8 uarray"

definition arr_list :: "'a uarray \<Rightarrow> 'a list" where
  "arr_list a = (case a of None \<Rightarrow> [] | Some xs \<Rightarrow> xs)"

definition arr_length :: "'a uarray \<Rightarrow> nat" where
  "arr_length a = length (arr_list a)"

lemma arr_list_simps [simp]: "arr_list None = []" "arr_list (Some xs) = xs"
  by (simp_all add: arr_list_def)

lemma arr_length_simps [simp]: "arr_length None = 0" "arr_length (Some xs) = length xs"
  by (simp_all add: arr_length_def)

lemma arr_length_0: "arr_length a = 0 \<longleftrightarrow> a = None \<or> a = Some []"
  by (cases a) auto

subsection \<open>Little-endian integers\<close>

text \<open>
  The byte order functions of src/src/ua_types_encoding_binary.c. On a little-endian machine the
  code copies the memory of the integer instead (\<open>UA_BINARY_OVERLAYABLE_INTEGER\<close>), which gives
  the same bytes.
\<close>

definition UA_encode16 :: "u16 \<Rightarrow> u8 list" where
  "UA_encode16 v = [ucast v, ucast (drop_bit 8 v)]"

definition UA_encode32 :: "u32 \<Rightarrow> u8 list" where
  "UA_encode32 v = [ucast v, ucast (drop_bit 8 v), ucast (drop_bit 16 v), ucast (drop_bit 24 v)]"

definition UA_encode64 :: "u64 \<Rightarrow> u8 list" where
  "UA_encode64 v =
     [ucast v, ucast (drop_bit 8 v), ucast (drop_bit 16 v), ucast (drop_bit 24 v),
      ucast (drop_bit 32 v), ucast (drop_bit 40 v), ucast (drop_bit 48 v), ucast (drop_bit 56 v)]"

text \<open>The decoders read a buffer of fixed length; other lengths do not occur.\<close>

fun UA_decode16 :: "u8 list \<Rightarrow> u16" where
  "UA_decode16 [b0, b1] = ucast b0 + push_bit 8 (ucast b1)"
| "UA_decode16 _ = 0"

fun UA_decode32 :: "u8 list \<Rightarrow> u32" where
  "UA_decode32 [b0, b1, b2, b3] =
     ucast b0 + push_bit 8 (ucast b1) + push_bit 16 (ucast b2) + push_bit 24 (ucast b3)"
| "UA_decode32 _ = 0"

fun UA_decode64 :: "u8 list \<Rightarrow> u64" where
  "UA_decode64 [b0, b1, b2, b3, b4, b5, b6, b7] =
     ucast b0 + push_bit 8 (ucast b1) + push_bit 16 (ucast b2) + push_bit 24 (ucast b3)
       + push_bit 32 (ucast b4) + push_bit 40 (ucast b5) + push_bit 48 (ucast b6)
       + push_bit 56 (ucast b7)"
| "UA_decode64 _ = 0"

text \<open>The reference representation, for any width: least significant byte first.\<close>

fun le_bytes :: "nat \<Rightarrow> 'a::len word \<Rightarrow> u8 list" where
  "le_bytes 0 v = []"
| "le_bytes (Suc n) v = ucast v # le_bytes n (drop_bit 8 v)"

fun le_word :: "u8 list \<Rightarrow> 'a::len word" where
  "le_word [] = 0"
| "le_word (b # bs) = ucast b + push_bit 8 (le_word bs)"

lemma length_le_bytes [simp]: "length (le_bytes n v) = n"
  by (induction n arbitrary: v) auto

lemma byte_add_or: "ucast (b :: u8) + push_bit 8 (y :: 'a::len word) = ucast b OR push_bit 8 y"
  by (rule disjunctive_add) (auto simp: bit_simps dest: bit_imp_le_length)

lemma le_word_le_bytes: "le_word (le_bytes n v) = take_bit (8 * n) (v :: 'a::len word)"
proof (induction n arbitrary: v)
  case 0
  show ?case by simp
next
  case (Suc n)
  have "ucast (ucast v :: u8) OR push_bit 8 (take_bit (8 * n) (drop_bit 8 v)) = take_bit (8 * Suc n) v"
    by (rule bit_word_eqI) (use le_Suc_ex in \<open>force simp: bit_simps\<close>)
  then show ?case
    using Suc by (simp add: byte_add_or)
qed

lemma UA_encode_le:
  "UA_encode16 v16 = le_bytes 2 v16"
  "UA_encode32 v32 = le_bytes 4 v32"
  "UA_encode64 v64 = le_bytes 8 v64"
  by (simp_all add: UA_encode16_def UA_encode32_def UA_encode64_def numeral_eq_Suc)

lemma UA_decode_le:
  "length bs = 2 \<Longrightarrow> UA_decode16 bs = le_word bs"
  "length bs = 4 \<Longrightarrow> UA_decode32 bs = le_word bs"
  "length bs = 8 \<Longrightarrow> UA_decode64 bs = le_word bs"
  by (auto simp: numeral_eq_Suc length_Suc_conv push_bit_add add.assoc)

lemma length_UA_encode [simp, le_simps]:
  "length (UA_encode16 v16) = 2" "length (UA_encode32 v32) = 4" "length (UA_encode64 v64) = 8"
  by (simp_all add: UA_encode_le)

lemma UA_decode_encode [simp, le_simps]:
  "UA_decode16 (UA_encode16 v16) = v16"
  "UA_decode32 (UA_encode32 v32) = v32"
  "UA_decode64 (UA_encode64 v64) = v64"
  by (simp_all add: UA_encode_le UA_decode_le le_word_le_bytes take_bit_word_eq_self)

end
