(* ===== verification/Binary_Basic.thy ===== *)
theory Binary_Basic
  imports Prelude
begin

text \<open>
  The encoding context and the builtin types without nested content of
  src/src/ua_types_encoding_binary.c: integers, arrays, strings, Guid, NodeId, ExpandedNodeId,
  QualifiedName and LocalizedText, with encoding, decoding and the size computation.

  The encoding context \<open>ectx\<close> holds the bytes between the start of the current buffer and
  \<open>ctx->pos\<close> (\<open>eout\<close>), the distance \<open>ctx->end - ctx->pos\<close> (\<open>eroom\<close>) and the recursion depth.
  The exchange callback of the caller (the chunking of a secure channel) is described by what it
  does in the run: \<open>escript\<close> is \<open>None\<close> for the NULL callback and otherwise the list of its
  answers, each a status and the room of the fresh buffer; \<open>esent\<close> collects the buffers it was
  given. A callback that has no answer left fails with \<open>BADCONNECTIONCLOSED\<close>. Every terminating
  run of the C code makes finitely many exchanges and so has such a list.
  The decoding context \<open>dctx\<close> is the input buffer with the position as an offset; \<open>ctx->end\<close> is
  its length. Every decoder returns the status, the decoded value (the initialised value where
  the code leaves the destination as it was) and the context. Allocations succeed.
\<close>

subsection \<open>Contexts\<close>

record ectx =
  eout :: "u8 list"
  eroom :: nat
  edepth :: nat
  esent :: "u8 list list"
  escript :: "(status \<times> nat) list option"

record dctx =
  dbuf :: "u8 list"
  dpos :: nat
  ddepth :: nat

type_synonym 'a encoder = "'a \<Rightarrow> ectx \<Rightarrow> status \<times> ectx"
type_synonym 'a decoder = "dctx \<Rightarrow> status \<times> 'a \<times> dctx"

definition UA_ENCODING_MAX_RECURSION :: nat where
  "UA_ENCODING_MAX_RECURSION = 20"

definition script_len :: "ectx \<Rightarrow> nat" where
  "script_len c = (case escript c of None \<Rightarrow> 0 | Some l \<Rightarrow> length l)"

definition exchangeBuffer :: "ectx \<Rightarrow> status \<times> ectx" where
  "exchangeBuffer c =
     (case escript c of
        None \<Rightarrow> (BADENCODINGERROR, c)
      | Some [] \<Rightarrow> (BADCONNECTIONCLOSED, c)
      | Some ((ret, room) # rest) \<Rightarrow>
          if ret = GOOD
          then (GOOD, c\<lparr>esent := esent c @ [eout c], eout := [], eroom := room, escript := Some rest\<rparr>)
          else (ret, c\<lparr>escript := Some rest\<rparr>))"

definition encodeWithExchangeBuffer :: "(ectx \<Rightarrow> status \<times> ectx) \<Rightarrow> ectx \<Rightarrow> status \<times> ectx" where
  "encodeWithExchangeBuffer encodeFunc c =
     (let (ret, c1) = encodeFunc c in
      if ret = BADENCODINGLIMITSEXCEEDED then
        (let (ret2, c2) = exchangeBuffer c1 in
         if ret2 \<noteq> GOOD then (ret2, c2)
         else (let (_, c3) = encodeFunc c2 in (GOOD, c3)))
      else (GOOD, c1))"

subsection \<open>Integers\<close>

text \<open>
  \<open>put\<close> is the common shape of the numeric encoders: the bounds check against \<open>ctx->end\<close>, the
  copy and the advance of \<open>ctx->pos\<close>. \<open>get\<close> is that of the decoders.
\<close>

definition put :: "u8 list \<Rightarrow> ectx \<Rightarrow> status \<times> ectx" where
  "put bs c =
     (if length bs > eroom c then (BADENCODINGLIMITSEXCEEDED, c)
      else (GOOD, c\<lparr>eout := eout c @ bs, eroom := eroom c - length bs\<rparr>))"

definition get :: "nat \<Rightarrow> (u8 list \<Rightarrow> 'a) \<Rightarrow> 'a \<Rightarrow> 'a decoder" where
  "get n f init c =
     (if dpos c + n > length (dbuf c) then (BADDECODINGERROR, init, c)
      else (GOOD, f (take n (drop (dpos c) (dbuf c))), c\<lparr>dpos := dpos c + n\<rparr>))"

definition Boolean_encodeBinary :: "bool encoder" where
  "Boolean_encodeBinary src = put [of_bool src]"

definition Boolean_decodeBinary :: "bool decoder" where
  "Boolean_decodeBinary = get 1 (\<lambda>bs. hd bs > 0) False"

definition Byte_encodeBinary :: "u8 encoder" where
  "Byte_encodeBinary src = put [src]"

definition Byte_decodeBinary :: "u8 decoder" where
  "Byte_decodeBinary = get 1 hd 0"

definition UInt16_encodeBinary :: "u16 encoder" where
  "UInt16_encodeBinary src = put (UA_encode16 src)"

definition UInt16_decodeBinary :: "u16 decoder" where
  "UInt16_decodeBinary = get 2 UA_decode16 0"

definition UInt32_encodeBinary :: "u32 encoder" where
  "UInt32_encodeBinary src = put (UA_encode32 src)"

definition UInt32_decodeBinary :: "u32 decoder" where
  "UInt32_decodeBinary = get 4 UA_decode32 0"

definition UInt64_encodeBinary :: "u64 encoder" where
  "UInt64_encodeBinary src = put (UA_encode64 src)"

definition UInt64_decodeBinary :: "u64 decoder" where
  "UInt64_decodeBinary = get 8 UA_decode64 0"

subsection \<open>Arrays\<close>

text \<open>
  Arrays of overlayable elements are copied from memory in pieces of whole elements; \<open>mem\<close> is the
  memory that is still to be written. The recursion is the \<open>while\<close> loop; it goes on only after a
  successful exchange, which uses up an answer of the callback.
\<close>

function Array_encodeBinaryOverlayable :: "u8 list \<Rightarrow> nat \<Rightarrow> ectx \<Rightarrow> status \<times> ectx" where
  "Array_encodeBinaryOverlayable mem elementMemSize c =
     (if eroom c < length mem then
        (let possibleMem = (eroom c div elementMemSize) * elementMemSize;
             c1 = c\<lparr>eout := eout c @ take possibleMem mem, eroom := eroom c - possibleMem\<rparr>;
             (ret, c2) = exchangeBuffer c1
         in if ret \<noteq> GOOD then (ret, c2)
            else Array_encodeBinaryOverlayable (drop possibleMem mem) elementMemSize c2)
      else (GOOD, c\<lparr>eout := eout c @ mem, eroom := eroom c - length mem\<rparr>))"
  by pat_completeness auto
termination
  by (relation "measure (\<lambda>(mem, n, c). script_len c)")
     (auto simp: exchangeBuffer_def script_len_def split: option.splits list.splits if_splits)

declare Array_encodeBinaryOverlayable.simps [simp del]

text \<open>
  Elements that are not overlayable are encoded one by one. When an element does not fit, the
  position goes back to the end of the last element, the buffer is exchanged and the same element
  is tried again. Each retry uses up an answer of the callback, so \<open>script_len\<close> bounds their
  number; \<open>retry_element\<close> counts them down.
\<close>

fun retry_element :: "nat \<Rightarrow> (ectx \<Rightarrow> status \<times> ectx) \<Rightarrow> ectx \<Rightarrow> status \<times> ectx" where
  "retry_element 0 encodeType c = (BADCONNECTIONCLOSED, c)"
| "retry_element (Suc n) encodeType c =
     (let (ret, c1) = encodeType c in
      if ret = BADENCODINGLIMITSEXCEEDED then
        (let (ret2, c2) = exchangeBuffer (c1\<lparr>eout := eout c, eroom := eroom c\<rparr>) in
         if ret2 \<noteq> GOOD then (ret2, c2) else retry_element n encodeType c2)
      else (ret, c1))"

fun Array_encodeBinaryComplex :: "'a encoder \<Rightarrow> 'a list \<Rightarrow> ectx \<Rightarrow> status \<times> ectx" where
  "Array_encodeBinaryComplex encodeType [] c = (GOOD, c)"
| "Array_encodeBinaryComplex encodeType (x # xs) c =
     (let (ret, c1) = retry_element (Suc (script_len c)) (encodeType x) c in
      if ret \<noteq> GOOD then (ret, c1) else Array_encodeBinaryComplex encodeType xs c1)"

definition UA_INT32_MAX :: nat where
  "UA_INT32_MAX = 2147483647"

text \<open>The length field: \<open>-1\<close> for the null array, the number of elements otherwise.\<close>

definition signed_length :: "'a uarray \<Rightarrow> u32" where
  "signed_length a = (case a of None \<Rightarrow> -1 | Some xs \<Rightarrow> of_nat (length xs))"

definition Array_encodeBinary ::
  "bool \<Rightarrow> nat \<Rightarrow> ('a \<Rightarrow> u8 list) \<Rightarrow> 'a encoder \<Rightarrow> 'a uarray \<Rightarrow> ectx \<Rightarrow> status \<times> ectx" where
  "Array_encodeBinary overlayable memSize memory encodeType src c =
     (if arr_length src > UA_INT32_MAX then (BADINTERNALERROR, c)
      else
        (let (ret, c1) = encodeWithExchangeBuffer (UInt32_encodeBinary (signed_length src)) c in
         if ret \<noteq> GOOD \<or> arr_length src = 0 then (ret, c1)
         else if \<not> overlayable then Array_encodeBinaryComplex encodeType (arr_list src) c1
         else Array_encodeBinaryOverlayable (concat (map memory (arr_list src))) memSize c1))"

text \<open>Decoding: \<open>read_elements\<close> reads the memory of an overlayable array back as elements.\<close>

fun read_elements :: "nat \<Rightarrow> (u8 list \<Rightarrow> 'a) \<Rightarrow> nat \<Rightarrow> u8 list \<Rightarrow> 'a list" where
  "read_elements memSize rd 0 bs = []"
| "read_elements memSize rd (Suc n) bs =
     rd (take memSize bs) # read_elements memSize rd n (drop memSize bs)"

fun decode_elements :: "'a decoder \<Rightarrow> nat \<Rightarrow> dctx \<Rightarrow> status \<times> 'a list \<times> dctx" where
  "decode_elements decodeType 0 c = (GOOD, [], c)"
| "decode_elements decodeType (Suc n) c =
     (let (ret, x, c1) = decodeType c in
      if ret \<noteq> GOOD then (ret, [], c1)
      else (let (ret2, xs, c2) = decode_elements decodeType n c1 in (ret2, x # xs, c2)))"

definition Array_decodeBinary ::
  "bool \<Rightarrow> nat \<Rightarrow> (u8 list \<Rightarrow> 'a) \<Rightarrow> 'a decoder \<Rightarrow> 'a uarray decoder" where
  "Array_decodeBinary overlayable memSize rd decodeType c =
     (let (ret, len, c1) = UInt32_decodeBinary c in
      if ret \<noteq> GOOD then (ret, None, c1)
      else if sint len \<le> 0 then (GOOD, if sint len < 0 then None else Some [], c1)
      else
        (let n = unat len in
         if dpos c1 + (memSize * n) div 32 > length (dbuf c1) then (BADDECODINGERROR, None, c1)
         else if overlayable then
           (if length (dbuf c1) < dpos c1 + memSize * n then (BADDECODINGERROR, None, c1)
            else (GOOD, Some (read_elements memSize rd n (drop (dpos c1) (dbuf c1))),
                  c1\<lparr>dpos := dpos c1 + memSize * n\<rparr>))
         else
           (let (ret2, xs, c2) = decode_elements decodeType n c1 in
            if ret2 \<noteq> GOOD then (ret2, None, c2) else (GOOD, Some xs, c2))))"

definition Array_calcSizeBinary :: "bool \<Rightarrow> nat \<Rightarrow> ('a \<Rightarrow> nat) \<Rightarrow> 'a uarray \<Rightarrow> nat" where
  "Array_calcSizeBinary overlayable memSize calcSize src =
     (if overlayable then 4 + memSize * arr_length src
      else 4 + sum_list (map calcSize (arr_list src)))"

subsection \<open>Strings and Guids\<close>

definition String_encodeBinary :: "ustring encoder" where
  "String_encodeBinary = Array_encodeBinary True 1 (\<lambda>b. [b]) Byte_encodeBinary"

definition String_decodeBinary :: "ustring decoder" where
  "String_decodeBinary = Array_decodeBinary True 1 hd Byte_decodeBinary"

definition String_calcSizeBinary :: "ustring \<Rightarrow> nat" where
  "String_calcSizeBinary src = 4 + arr_length src"

record guid =
  data1 :: u32
  data2 :: u16
  data3 :: u16
  data4 :: "u8 list"  \<comment> \<open>eight bytes\<close>

definition guid_ok :: "guid \<Rightarrow> bool" where
  "guid_ok g \<longleftrightarrow> length (data4 g) = 8"

definition Guid_init :: guid where
  "Guid_init = \<lparr>data1 = 0, data2 = 0, data3 = 0, data4 = replicate 8 0\<rparr>"

definition Guid_encodeBinary :: "guid encoder" where
  "Guid_encodeBinary src c =
     (let (r1, c1) = UInt32_encodeBinary (data1 src) c;
          (r2, c2) = UInt16_encodeBinary (data2 src) c1;
          (r3, c3) = UInt16_encodeBinary (data3 src) c2
      in if eroom c3 < 8 then (BADENCODINGLIMITSEXCEEDED, c3)
         else (r1 OR r2 OR r3, c3\<lparr>eout := eout c3 @ data4 src, eroom := eroom c3 - 8\<rparr>))"

definition Guid_decodeBinary :: "guid decoder" where
  "Guid_decodeBinary c =
     (let (r1, d1, c1) = UInt32_decodeBinary c;
          (r2, d2, c2) = UInt16_decodeBinary c1;
          (r3, d3, c3) = UInt16_decodeBinary c2
      in if dpos c3 + 8 > length (dbuf c3)
         then (BADDECODINGERROR, \<lparr>data1 = d1, data2 = d2, data3 = d3, data4 = replicate 8 0\<rparr>, c3)
         else (r1 OR r2 OR r3,
               \<lparr>data1 = d1, data2 = d2, data3 = d3, data4 = take 8 (drop (dpos c3) (dbuf c3))\<rparr>,
               c3\<lparr>dpos := dpos c3 + 8\<rparr>))"

subsection \<open>NodeId and ExpandedNodeId\<close>

datatype nident_t =
    Numeric u32
  | StringId ustring
  | GuidId guid
  | ByteStringId ustring

record nodeid =
  namespaceIndex :: u16
  nident :: nident_t

definition NodeId_init :: nodeid where
  "NodeId_init = \<lparr>namespaceIndex = 0, nident = Numeric 0\<rparr>"

text \<open>
  The encoding byte is prefilled with the ExpandedNodeId flags. An \<open>identifierType\<close> outside the
  enumeration (the \<open>default\<close> branches) has no counterpart in \<open>nident_t\<close>.
\<close>

definition NodeId_encodeBinaryWithEncodingMask :: "nodeid \<Rightarrow> u8 \<Rightarrow> ectx \<Rightarrow> status \<times> ectx" where
  "NodeId_encodeBinaryWithEncodingMask src encoding c =
     (case nident src of
        Numeric num \<Rightarrow>
          if num > 65535 \<or> namespaceIndex src > 255 then
            (let (r1, c1) = Byte_encodeBinary (encoding OR 2) c;
                 (r2, c2) = UInt16_encodeBinary (namespaceIndex src) c1;
                 (r3, c3) = UInt32_encodeBinary num c2
             in (r1 OR r2 OR r3, c3))
          else if num > 255 \<or> namespaceIndex src > 0 then
            (let (r1, c1) = Byte_encodeBinary (encoding OR 1) c;
                 (r2, c2) = Byte_encodeBinary (ucast (namespaceIndex src)) c1;
                 (r3, c3) = UInt16_encodeBinary (ucast num) c2
             in (r1 OR r2 OR r3, c3))
          else
            (let (r1, c1) = Byte_encodeBinary (encoding OR 0) c;
                 (r2, c2) = Byte_encodeBinary (ucast num) c1
             in (r1 OR r2, c2))
      | StringId s \<Rightarrow>
          (let (r1, c1) = Byte_encodeBinary (encoding OR 3) c;
               (r2, c2) = UInt16_encodeBinary (namespaceIndex src) c1
           in if r1 OR r2 \<noteq> GOOD then (r1 OR r2, c2) else String_encodeBinary s c2)
      | GuidId g \<Rightarrow>
          (let (r1, c1) = Byte_encodeBinary (encoding OR 4) c;
               (r2, c2) = UInt16_encodeBinary (namespaceIndex src) c1;
               (r3, c3) = Guid_encodeBinary g c2
           in (r1 OR r2 OR r3, c3))
      | ByteStringId s \<Rightarrow>
          (let (r1, c1) = Byte_encodeBinary (encoding OR 5) c;
               (r2, c2) = UInt16_encodeBinary (namespaceIndex src) c1
           in if r1 OR r2 \<noteq> GOOD then (r1 OR r2, c2) else String_encodeBinary s c2))"

definition NodeId_encodeBinary :: "nodeid encoder" where
  "NodeId_encodeBinary src = NodeId_encodeBinaryWithEncodingMask src 0"

text \<open>The mask removes the two ExpandedNodeId flags (\<open>0x40\<close> and \<open>0x80\<close>).\<close>

definition NodeId_decodeBinary :: "nodeid decoder" where
  "NodeId_decodeBinary c =
     (let (ret, encodingByte, c0) = Byte_decodeBinary c in
      if ret \<noteq> GOOD then (ret, NodeId_init, c0)
      else
        (let e = encodingByte AND 0x3F in
         if e = 0 then
           (let (r1, b, c1) = Byte_decodeBinary c0
            in (r1, \<lparr>namespaceIndex = 0, nident = Numeric (ucast b)\<rparr>, c1))
         else if e = 1 then
           (let (r1, b, c1) = Byte_decodeBinary c0; (r2, w, c2) = UInt16_decodeBinary c1
            in (r1 OR r2, \<lparr>namespaceIndex = ucast b, nident = Numeric (ucast w)\<rparr>, c2))
         else if e = 2 then
           (let (r1, n, c1) = UInt16_decodeBinary c0; (r2, w, c2) = UInt32_decodeBinary c1
            in (r1 OR r2, \<lparr>namespaceIndex = n, nident = Numeric w\<rparr>, c2))
         else if e = 3 then
           (let (r1, n, c1) = UInt16_decodeBinary c0; (r2, s, c2) = String_decodeBinary c1
            in (r1 OR r2, \<lparr>namespaceIndex = n, nident = StringId s\<rparr>, c2))
         else if e = 4 then
           (let (r1, n, c1) = UInt16_decodeBinary c0; (r2, g, c2) = Guid_decodeBinary c1
            in (r1 OR r2, \<lparr>namespaceIndex = n, nident = GuidId g\<rparr>, c2))
         else if e = 5 then
           (let (r1, n, c1) = UInt16_decodeBinary c0; (r2, s, c2) = String_decodeBinary c1
            in (r1 OR r2, \<lparr>namespaceIndex = n, nident = ByteStringId s\<rparr>, c2))
         else (BADINTERNALERROR, NodeId_init, c0)))"

definition NodeId_calcSizeBinary :: "nodeid \<Rightarrow> nat" where
  "NodeId_calcSizeBinary src =
     (case nident src of
        Numeric num \<Rightarrow>
          if num > 65535 \<or> namespaceIndex src > 255 then 1 + 6
          else if num > 255 \<or> namespaceIndex src > 0 then 1 + 3
          else 1 + 1
      | StringId s \<Rightarrow> 1 + 2 + String_calcSizeBinary s
      | GuidId _ \<Rightarrow> 1 + 18
      | ByteStringId s \<Rightarrow> 1 + 2 + String_calcSizeBinary s)"

record expandednodeid =
  nodeId :: nodeid
  namespaceUri :: ustring
  serverIndex :: u32

text \<open>\<open>data > UA_EMPTY_ARRAY_SENTINEL\<close>: the string has allocated data.\<close>

definition allocated :: "'a uarray \<Rightarrow> bool" where
  "allocated a \<longleftrightarrow> arr_length a > 0"

definition ExpandedNodeId_encodeBinary :: "expandednodeid encoder" where
  "ExpandedNodeId_encodeBinary src c =
     (let encoding = (if allocated (namespaceUri src) then 0x80 else 0)
                       OR (if serverIndex src > 0 then 0x40 else 0);
          (ret, c1) = NodeId_encodeBinaryWithEncodingMask (nodeId src) encoding c
      in if ret \<noteq> GOOD then (ret, c1)
         else
           (let (ret2, c2) = (if allocated (namespaceUri src)
                              then String_encodeBinary (namespaceUri src) c1 else (GOOD, c1))
            in if ret2 \<noteq> GOOD then (ret2, c2)
               else if serverIndex src > 0
               then encodeWithExchangeBuffer (UInt32_encodeBinary (serverIndex src)) c2
               else (ret2, c2)))"

definition ExpandedNodeId_decodeBinary :: "expandednodeid decoder" where
  "ExpandedNodeId_decodeBinary c =
     (if dpos c \<ge> length (dbuf c)
      then (BADDECODINGERROR, \<lparr>nodeId = NodeId_init, namespaceUri = None, serverIndex = 0\<rparr>, c)
      else
        (let encoding = dbuf c ! dpos c;
             (r1, nid, c1) = NodeId_decodeBinary c;
             (r2, nid2, uri, c2) =
               (if encoding AND 0x80 \<noteq> 0
                then (let (r, s, c') = String_decodeBinary c1
                      in (r, nid\<lparr>namespaceIndex := 0\<rparr>, s, c'))
                else (GOOD, nid, None, c1));
             (r3, srv, c3) =
               (if encoding AND 0x40 \<noteq> 0 then UInt32_decodeBinary c2 else (GOOD, 0, c2))
         in (r1 OR r2 OR r3, \<lparr>nodeId = nid2, namespaceUri = uri, serverIndex = srv\<rparr>, c3)))"

definition ExpandedNodeId_calcSizeBinary :: "expandednodeid \<Rightarrow> nat" where
  "ExpandedNodeId_calcSizeBinary src =
     NodeId_calcSizeBinary (nodeId src)
       + (if arr_length (namespaceUri src) > 0 then String_calcSizeBinary (namespaceUri src) else 0)
       + (if serverIndex src > 0 then 4 else 0)"

subsection \<open>QualifiedName and LocalizedText\<close>

record qualifiedname =
  qnamespaceIndex :: u16
  qname :: ustring

text \<open>Both operands of the C operator \<open>|\<close> are evaluated, whatever the first returns.\<close>

definition QualifiedName_encodeBinary :: "qualifiedname encoder" where
  "QualifiedName_encodeBinary src c =
     (let (r1, c1) = UInt16_encodeBinary (qnamespaceIndex src) c;
          (r2, c2) = String_encodeBinary (qname src) c1
      in (r1 OR r2, c2))"

definition QualifiedName_decodeBinary :: "qualifiedname decoder" where
  "QualifiedName_decodeBinary c =
     (let (r1, n, c1) = UInt16_decodeBinary c; (r2, s, c2) = String_decodeBinary c1
      in (r1 OR r2, \<lparr>qnamespaceIndex = n, qname = s\<rparr>, c2))"

definition QualifiedName_calcSizeBinary :: "qualifiedname \<Rightarrow> nat" where
  "QualifiedName_calcSizeBinary src = 2 + String_calcSizeBinary (qname src)"

record localizedtext =
  locale_ltext :: ustring
  ltext :: ustring

definition LocalizedText_encodeBinary :: "localizedtext encoder" where
  "LocalizedText_encodeBinary src c =
     (let encoding = (if locale_ltext src \<noteq> None then 1 else 0)
                       OR (if ltext src \<noteq> None then 2 else 0);
          (ret, c1) = Byte_encodeBinary encoding c
      in if ret \<noteq> GOOD then (ret, c1)
         else
           (let (r1, c2) = (if encoding AND 1 \<noteq> 0 then String_encodeBinary (locale_ltext src) c1
                            else (GOOD, c1));
                (r2, c3) = (if encoding AND 2 \<noteq> 0 then String_encodeBinary (ltext src) c2
                            else (GOOD, c2))
            in (r1 OR r2, c3)))"

definition LocalizedText_decodeBinary :: "localizedtext decoder" where
  "LocalizedText_decodeBinary c =
     (let (r0, encoding, c0) = Byte_decodeBinary c;
          (r1, l, c1) = (if encoding AND 1 \<noteq> 0 then String_decodeBinary c0 else (GOOD, None, c0));
          (r2, t, c2) = (if encoding AND 2 \<noteq> 0 then String_decodeBinary c1 else (GOOD, None, c1))
      in (r0 OR r1 OR r2, \<lparr>locale_ltext = l, ltext = t\<rparr>, c2))"

definition LocalizedText_calcSizeBinary :: "localizedtext \<Rightarrow> nat" where
  "LocalizedText_calcSizeBinary src =
     1 + (if locale_ltext src \<noteq> None then String_calcSizeBinary (locale_ltext src) else 0)
       + (if ltext src \<noteq> None then String_calcSizeBinary (ltext src) else 0)"

end
