(* ===== verification/Binary_Basic_Correct.thy ===== *)
theory Binary_Basic_Correct
  imports Binary_Basic
begin

text \<open>
  Correctness of the codecs of \<open>Binary_Basic\<close>. Each type has a reference encoding (\<open>string_bin\<close>,
  \<open>guid_bin\<close>, \<open>nodeid_bin\<close>, ...), a list of bytes. The locale \<open>binary_codec\<close> states what a codec
  promises: with enough room the encoder appends exactly the reference encoding, the decoder reads
  it back and stops behind it, and the size computation gives its length. Its clients are the array
  and structure codecs. The locale is interpreted for every builtin type here. The collection
  \<open>codec_simps\<close> drives the proofs.
\<close>

named_theorems codec_simps "how encoders and decoders act on a context"

subsection \<open>Writing and reading a context\<close>

definition emit :: "u8 list \<Rightarrow> ectx \<Rightarrow> ectx" where
  "emit bs c = c\<lparr>eout := eout c @ bs, eroom := eroom c - length bs\<rparr>"

definition skip :: "nat \<Rightarrow> dctx \<Rightarrow> dctx" where
  "skip n c = c\<lparr>dpos := dpos c + n\<rparr>"

text \<open>\<open>at c bs\<close>: the bytes at the position of \<open>c\<close> start with \<open>bs\<close>.\<close>

definition at :: "dctx \<Rightarrow> u8 list \<Rightarrow> bool" where
  "at c bs \<longleftrightarrow> (\<exists>rest. drop (dpos c) (dbuf c) = bs @ rest)"

lemma emit_sel [simp]:
  "eout (emit bs c) = eout c @ bs" "eroom (emit bs c) = eroom c - length bs"
  "edepth (emit bs c) = edepth c" "esent (emit bs c) = esent c" "escript (emit bs c) = escript c"
  by (simp_all add: emit_def)

lemma emit_emit [simp]: "emit b2 (emit b1 c) = emit (b1 @ b2) c"
  by (simp add: emit_def)

lemma emit_Nil [simp]: "emit [] c = c"
  by (simp add: emit_def)

lemma skip_sel [simp]:
  "dbuf (skip n c) = dbuf c" "dpos (skip n c) = dpos c + n" "ddepth (skip n c) = ddepth c"
  by (simp_all add: skip_def)

lemma skip_skip [simp]: "skip m (skip n c) = skip (n + m) c"
  by (simp add: skip_def add.assoc)

lemma skip_0 [simp]: "skip 0 c = c"
  by (simp add: skip_def)

lemma at_Nil [simp]: "at c []"
  by (simp add: at_def)

lemma at_append: "at c (a @ b) \<longleftrightarrow> at c a \<and> at (skip (length a) c) b"
proof
  assume "at c (a @ b)"
  then obtain rest where r: "drop (dpos c) (dbuf c) = a @ b @ rest"
    by (auto simp: at_def)
  have "drop (dpos c + length a) (dbuf c) = drop (length a) (drop (dpos c) (dbuf c))"
    by (simp add: add.commute)
  with r show "at c a \<and> at (skip (length a) c) b"
    by (auto simp: at_def)
next
  assume "at c a \<and> at (skip (length a) c) b"
  then obtain r1 r2 where r1: "drop (dpos c) (dbuf c) = a @ r1"
    and r2: "drop (dpos c + length a) (dbuf c) = b @ r2"
    by (auto simp: at_def)
  have "r1 = drop (length a) (drop (dpos c) (dbuf c))"
    using r1 by simp
  also have "\<dots> = b @ r2"
    using r2 by (simp add: add.commute)
  finally show "at c (a @ b)"
    using r1 by (auto simp: at_def)
qed

lemma at_Cons: "b \<noteq> [] \<Longrightarrow> at c (x # b) \<longleftrightarrow> at c [x] \<and> at (skip 1 c) b"
  using at_append [of c "[x]" b] by simp

lemma at_bound: "at c bs \<Longrightarrow> bs \<noteq> [] \<Longrightarrow> dpos c + length bs \<le> length (dbuf c)"
proof -
  assume "at c bs" "bs \<noteq> []"
  then obtain rest where r: "drop (dpos c) (dbuf c) = bs @ rest"
    by (auto simp: at_def)
  then have "length (dbuf c) - dpos c = length bs + length rest"
    by (metis length_append length_drop)
  with \<open>bs \<noteq> []\<close> show ?thesis
    by (cases bs) auto
qed

lemma at_full: "at \<lparr>dbuf = bs, dpos = 0, ddepth = d\<rparr> bs"
  by (simp add: at_def)

lemma put_emit [codec_simps]: "length bs \<le> eroom c \<Longrightarrow> put bs c = (GOOD, emit bs c)"
  by (simp add: put_def emit_def)

lemma put_full [codec_simps]: "eroom c < length bs \<Longrightarrow> put bs c = (BADENCODINGLIMITSEXCEEDED, c)"
  by (simp add: put_def)

lemma get_at: "at c bs \<Longrightarrow> bs \<noteq> [] \<Longrightarrow> n = length bs \<Longrightarrow> get n f i c = (GOOD, f bs, skip n c)"
  using at_bound [of c bs] by (auto simp: get_def at_def skip_def)

lemma get_result: "get n f i c = (r, x, c') \<Longrightarrow> dbuf c' = dbuf c \<and> ddepth c' = ddepth c \<and> dpos c \<le> dpos c'"
  by (auto simp: get_def split: if_splits)

lemma UA_encode_nonempty [simp]: "UA_encode16 v16 \<noteq> []" "UA_encode32 v32 \<noteq> []" "UA_encode64 v64 \<noteq> []"
  by (simp_all add: UA_encode16_def UA_encode32_def UA_encode64_def)

subsection \<open>What a codec promises\<close>

locale binary_codec =
  fixes enc :: "'a encoder" and dec :: "'a decoder" and size :: "'a \<Rightarrow> nat"
    and bin :: "'a \<Rightarrow> u8 list" and ok :: "'a \<Rightarrow> bool"
  assumes enc_fits: "ok x \<Longrightarrow> length (bin x) \<le> eroom c \<Longrightarrow> enc x c = (GOOD, emit (bin x) c)"
    and dec_at: "ok x \<Longrightarrow> at d (bin x) \<Longrightarrow> dec d = (GOOD, x, skip (length (bin x)) d)"
    and size_bin: "ok x \<Longrightarrow> size x = length (bin x)"
    and bin_nonempty: "ok x \<Longrightarrow> bin x \<noteq> []"
begin

text \<open>Encoding into a buffer of the computed size fills it, and decoding it gives the value back.\<close>

lemma roundtrip:
  assumes "ok x" and "eout c = []" and "eroom c = size x"
  shows "\<exists>c'. enc x c = (GOOD, c') \<and> eroom c' = 0 \<and>
    dec \<lparr>dbuf = eout c' @ rest, dpos = 0, ddepth = d\<rparr> =
      (GOOD, x, \<lparr>dbuf = eout c' @ rest, dpos = size x, ddepth = d\<rparr>)"
proof -
  have e: "enc x c = (GOOD, emit (bin x) c)"
    using assms by (intro enc_fits) (simp_all add: size_bin)
  have "at \<lparr>dbuf = bin x @ rest, dpos = 0, ddepth = d\<rparr> (bin x)"
    by (simp add: at_def)
  from dec_at [OF assms(1) this] e assms show ?thesis
    by (simp add: size_bin skip_def)
qed

lemma elements_fit:
  "list_all ok xs \<Longrightarrow> length (concat (map bin xs)) \<le> eroom c \<Longrightarrow>
   Array_encodeBinaryComplex enc xs c = (GOOD, emit (concat (map bin xs)) c)"
proof (induction xs arbitrary: c)
  case Nil
  then show ?case by simp
next
  case (Cons x xs)
  then have "enc x c = (GOOD, emit (bin x) c)"
    by (intro enc_fits) auto
  moreover have "Array_encodeBinaryComplex enc xs (emit (bin x) c)
      = (GOOD, emit (concat (map bin xs)) (emit (bin x) c))"
    using Cons.prems by (intro Cons.IH) auto
  ultimately show ?case
    by simp
qed

lemma elements_at:
  "list_all ok xs \<Longrightarrow> at c (concat (map bin xs)) \<Longrightarrow>
   decode_elements dec (length xs) c = (GOOD, xs, skip (length (concat (map bin xs))) c)"
proof (induction xs arbitrary: c)
  case Nil
  then show ?case by simp
next
  case (Cons x xs)
  then have "dec c = (GOOD, x, skip (length (bin x)) c)"
    by (intro dec_at) (auto simp: at_append)
  with Cons show ?case
    by (simp add: at_append)
qed

lemma elements_size: "list_all ok xs \<Longrightarrow> sum_list (map size xs) = length (concat (map bin xs))"
  by (induction xs) (auto simp: size_bin)

end

subsection \<open>Integers\<close>

definition byte_bin :: "u8 \<Rightarrow> u8 list" where "byte_bin v = [v]"
definition bool_bin :: "bool \<Rightarrow> u8 list" where "bool_bin b = [of_bool b]"

interpretation Boolean_codec:
  binary_codec Boolean_encodeBinary Boolean_decodeBinary "\<lambda>_. 1" bool_bin "\<lambda>_. True"
  by unfold_locales
     (auto simp: Boolean_encodeBinary_def Boolean_decodeBinary_def bool_bin_def put_emit get_at)

interpretation Byte_codec:
  binary_codec Byte_encodeBinary Byte_decodeBinary "\<lambda>_. 1" byte_bin "\<lambda>_. True"
  by unfold_locales
     (auto simp: Byte_encodeBinary_def Byte_decodeBinary_def byte_bin_def put_emit get_at)

interpretation UInt16_codec:
  binary_codec UInt16_encodeBinary UInt16_decodeBinary "\<lambda>_. 2" UA_encode16 "\<lambda>_. True"
  by unfold_locales
     (auto simp: UInt16_encodeBinary_def UInt16_decodeBinary_def put_emit get_at
           simp flip: length_0_conv)

interpretation UInt32_codec:
  binary_codec UInt32_encodeBinary UInt32_decodeBinary "\<lambda>_. 4" UA_encode32 "\<lambda>_. True"
  by unfold_locales
     (auto simp: UInt32_encodeBinary_def UInt32_decodeBinary_def put_emit get_at
           simp flip: length_0_conv)

interpretation UInt64_codec:
  binary_codec UInt64_encodeBinary UInt64_decodeBinary "\<lambda>_. 8" UA_encode64 "\<lambda>_. True"
  by unfold_locales
     (auto simp: UInt64_encodeBinary_def UInt64_decodeBinary_def put_emit get_at
           simp flip: length_0_conv)

lemma Byte_at: "at d [b] \<Longrightarrow> Byte_decodeBinary d = (GOOD, b, skip 1 d)"
  using Byte_codec.dec_at [of d b] by (simp add: byte_bin_def)

lemma UInt16_at: "at d (UA_encode16 v) \<Longrightarrow> UInt16_decodeBinary d = (GOOD, v, skip 2 d)"
  using UInt16_codec.dec_at [of d v] by simp

lemma UInt32_at: "at d (UA_encode32 v) \<Longrightarrow> UInt32_decodeBinary d = (GOOD, v, skip 4 d)"
  using UInt32_codec.dec_at [of d v] by simp

lemma UInt64_at: "at d (UA_encode64 v) \<Longrightarrow> UInt64_decodeBinary d = (GOOD, v, skip 8 d)"
  using UInt64_codec.dec_at [of d v] by simp

lemmas int_enc_fits = Boolean_codec.enc_fits Byte_codec.enc_fits UInt16_codec.enc_fits
  UInt32_codec.enc_fits UInt64_codec.enc_fits

subsection \<open>Arrays\<close>

definition array_bin :: "('a \<Rightarrow> u8 list) \<Rightarrow> 'a uarray \<Rightarrow> u8 list" where
  "array_bin bin a = UA_encode32 (signed_length a) @ concat (map bin (arr_list a))"

definition array_ok :: "('a \<Rightarrow> bool) \<Rightarrow> 'a uarray \<Rightarrow> bool" where
  "array_ok ok a \<longleftrightarrow> arr_length a \<le> UA_INT32_MAX \<and> list_all ok (arr_list a)"

lemma signed_length_sint:
  "length xs \<le> UA_INT32_MAX \<Longrightarrow> sint (signed_length (Some xs)) = int (length xs)"
  by (simp add: signed_length_def UA_INT32_MAX_def signed_of_nat signed_take_bit_int_eq_self)

lemma signed_length_unat:
  "length xs \<le> UA_INT32_MAX \<Longrightarrow> unat (signed_length (Some xs)) = length xs"
  by (simp add: signed_length_def UA_INT32_MAX_def unsigned_of_nat take_bit_nat_eq_self)

lemma signed_length_None: "sint (signed_length None) = -1"
  by (simp add: signed_length_def)

lemma encodeWithExchangeBuffer_fits:
  "f c = (GOOD, c') \<Longrightarrow> encodeWithExchangeBuffer f c = (GOOD, c')"
  by (simp add: encodeWithExchangeBuffer_def)

lemma Overlayable_fits:
  "length mem \<le> eroom c \<Longrightarrow> Array_encodeBinaryOverlayable mem n c = (GOOD, emit mem c)"
  by (subst Array_encodeBinaryOverlayable.simps) (simp add: emit_def)

lemma read_elements_concat:
  "(\<And>x. x \<in> set xs \<Longrightarrow> length (mem x) = m \<and> rd (mem x) = x) \<Longrightarrow>
   read_elements m rd (length xs) (concat (map mem xs) @ rest) = xs"
  by (induction xs) auto

lemma concat_const_length:
  "(\<And>x. x \<in> set xs \<Longrightarrow> length (mem x) = m) \<Longrightarrow> length (concat (map mem xs)) = m * length xs"
  by (induction xs) auto

text \<open>
  The array codec over any element codec. Non-overlayable arrays need that no element's memory is
  32 times larger than its encoding, which the code's early plausibility check of the length
  relies on.
\<close>

context binary_codec
begin

lemma array_fits:
  assumes "array_ok ok a" and "length (array_bin bin a) \<le> eroom c"
    and "\<And>x. overlayable \<Longrightarrow> ok x \<Longrightarrow> memory x = bin x"
  shows "Array_encodeBinary overlayable memSize memory enc a c = (GOOD, emit (array_bin bin a) c)"
proof -
  let ?l = "UA_encode32 (signed_length a)" and ?b = "concat (map bin (arr_list a))"
  have hd: "encodeWithExchangeBuffer (UInt32_encodeBinary (signed_length a)) c = (GOOD, emit ?l c)"
    using assms(2) by (intro encodeWithExchangeBuffer_fits UInt32_codec.enc_fits)
      (simp_all add: array_bin_def)
  have mem: "overlayable \<Longrightarrow> map memory (arr_list a) = map bin (arr_list a)"
    using assms(1,3) by (auto simp: array_ok_def list_all_iff)
  have "Array_encodeBinaryComplex enc (arr_list a) (emit ?l c) = (GOOD, emit ?b (emit ?l c))"
    using assms(1,2) by (intro elements_fit) (simp_all add: array_ok_def array_bin_def)
  moreover have "overlayable \<Longrightarrow> Array_encodeBinaryOverlayable (concat (map memory (arr_list a))) memSize (emit ?l c)
      = (GOOD, emit ?b (emit ?l c))"
    using assms(2) by (simp add: Overlayable_fits mem array_bin_def)
  ultimately show ?thesis
    using assms(1) hd
    by (auto simp: Array_encodeBinary_def array_ok_def array_bin_def arr_length_def)
qed

lemma array_at:
  assumes "array_ok ok a" and "at d (array_bin bin a)"
    and ov: "\<And>x. overlayable \<Longrightarrow> ok x \<Longrightarrow> length (bin x) = memSize \<and> rd (bin x) = x"
    and sz: "\<And>x. \<not> overlayable \<Longrightarrow> ok x \<Longrightarrow> memSize \<le> 32 * length (bin x)"
  shows "Array_decodeBinary overlayable memSize rd dec d = (GOOD, a, skip (length (array_bin bin a)) d)"
proof -
  have l: "UInt32_decodeBinary d = (GOOD, signed_length a, skip 4 d)"
    using assms(2) UInt32_at by (simp add: array_bin_def at_append)
  show ?thesis
  proof (cases a)
    case None
    then show ?thesis
      using l by (simp add: Array_decodeBinary_def array_bin_def signed_length_None)
  next
    case (Some xs)
    let ?b = "concat (map bin xs)"
    have n: "length xs \<le> UA_INT32_MAX" and okxs: "list_all ok xs"
      using assms(1) Some by (auto simp: array_ok_def)
    have b: "at (skip 4 d) ?b"
      using assms(2) Some by (simp add: array_bin_def at_append)
    show ?thesis
    proof (cases "xs = []")
      case True
      then show ?thesis
        using Some l n by (simp add: Array_decodeBinary_def array_bin_def signed_length_sint)
    next
      case False
      have "memSize * length xs \<le> 32 * length ?b"
        using okxs ov sz by (induction xs) (cases overlayable; force)+
      moreover have ne: "?b \<noteq> []"
        using False okxs bin_nonempty by (cases xs) auto
      moreover have bd: "dpos d + 4 + length ?b \<le> length (dbuf d)"
        using at_bound [OF b ne] by simp
      ultimately have chk: "dpos d + 4 + memSize * length xs div 32 \<le> length (dbuf d)"
        by linarith
      have elems: "decode_elements dec (length xs) (skip 4 d) = (GOOD, xs, skip (length ?b) (skip 4 d))"
        using okxs b by (rule elements_at)
      have ovl: "overlayable \<Longrightarrow> length ?b = memSize * length xs \<and>
          read_elements memSize rd (length xs) (drop (dpos d + 4) (dbuf d)) = xs"
      proof -
        assume o: overlayable
        obtain rest where r: "drop (dpos d + 4) (dbuf d) = ?b @ rest"
          using b by (auto simp: at_def)
        show "length ?b = memSize * length xs \<and>
          read_elements memSize rd (length xs) (drop (dpos d + 4) (dbuf d)) = xs"
          unfolding r using okxs ov [OF o]
          by (auto simp: list_all_iff intro!: concat_const_length read_elements_concat)
      qed
      show ?thesis
        using Some l n False chk elems ovl bd
        by (cases overlayable)
           (simp_all add: Array_decodeBinary_def array_bin_def signed_length_sint signed_length_unat
              Let_def skip_def add.assoc)
    qed
  qed
qed

lemma array_size:
  assumes "array_ok ok a" and "\<And>x. overlayable \<Longrightarrow> ok x \<Longrightarrow> length (bin x) = memSize"
  shows "Array_calcSizeBinary overlayable memSize size a = length (array_bin bin a)"
  using assms by (auto simp: Array_calcSizeBinary_def array_bin_def array_ok_def arr_length_def
      list_all_iff elements_size concat_const_length)

end

subsection \<open>Strings and Guids\<close>

definition string_bin :: "ustring \<Rightarrow> u8 list" where
  "string_bin = array_bin byte_bin"

definition string_ok :: "ustring \<Rightarrow> bool" where
  "string_ok s \<longleftrightarrow> arr_length s \<le> UA_INT32_MAX"

lemma string_ok_array: "string_ok s \<longleftrightarrow> array_ok (\<lambda>_. True) s"
  by (simp add: string_ok_def array_ok_def list_all_iff)

lemma string_bin_nonempty [simp]: "string_bin s \<noteq> []"
  by (simp add: string_bin_def array_bin_def)

lemma length_string_bin: "length (string_bin s) = 4 + arr_length s"
proof -
  have "length (concat (map byte_bin xs)) = length xs" for xs
    by (induction xs) (simp_all add: byte_bin_def)
  then show ?thesis by (simp add: string_bin_def array_bin_def arr_length_def)
qed

interpretation String_codec:
  binary_codec String_encodeBinary String_decodeBinary String_calcSizeBinary string_bin string_ok
proof
  fix x and c :: ectx assume "string_ok x" "length (string_bin x) \<le> eroom c"
  then show "String_encodeBinary x c = (GOOD, emit (string_bin x) c)"
    unfolding String_encodeBinary_def string_bin_def
    by (intro Byte_codec.array_fits) (simp_all add: string_ok_array byte_bin_def)
next
  fix x d assume "string_ok x" "at d (string_bin x)"
  then show "String_decodeBinary d = (GOOD, x, skip (length (string_bin x)) d)"
    unfolding String_decodeBinary_def string_bin_def
    by (intro Byte_codec.array_at) (simp_all add: string_ok_array byte_bin_def)
next
  fix x assume "string_ok x"
  show "String_calcSizeBinary x = length (string_bin x)"
    by (simp add: String_calcSizeBinary_def length_string_bin)
  show "string_bin x \<noteq> []"
    using length_string_bin [of x] by auto
qed

definition guid_bin :: "guid \<Rightarrow> u8 list" where
  "guid_bin g = UA_encode32 (data1 g) @ UA_encode16 (data2 g) @ UA_encode16 (data3 g) @ data4 g"

lemma guid_bin_nonempty [simp]: "guid_bin g \<noteq> []"
  by (simp add: guid_bin_def)

lemma length_guid_bin: "guid_ok g \<Longrightarrow> length (guid_bin g) = 16"
  by (simp add: guid_bin_def guid_ok_def)

interpretation Guid_codec:
  binary_codec Guid_encodeBinary Guid_decodeBinary "\<lambda>_. 16" guid_bin guid_ok
proof
  fix x and c :: ectx assume "guid_ok x" "length (guid_bin x) \<le> eroom c"
  then show "Guid_encodeBinary x c = (GOOD, emit (guid_bin x) c)"
    by (simp add: Guid_encodeBinary_def guid_bin_def guid_ok_def int_enc_fits emit_def)
next
  fix x d assume g: "guid_ok x" and a: "at d (guid_bin x)"
  have d4: "at (skip 8 d) (data4 x)"
    using a by (simp add: guid_bin_def at_append)
  have l: "data4 x \<noteq> []" "length (data4 x) = 8"
    using g by (auto simp: guid_ok_def)
  have "dpos d + 8 + 8 \<le> length (dbuf d)" "take 8 (drop (dpos d + 8) (dbuf d)) = data4 x"
    using at_bound [OF d4 l(1)] d4 l by (auto simp: at_def)
  then show "Guid_decodeBinary d = (GOOD, x, skip (length (guid_bin x)) d)"
    using a g UInt32_at [of d "data1 x"] UInt16_at [of "skip 4 d" "data2 x"]
      UInt16_at [of "skip 6 d" "data3 x"]
    by (simp add: Guid_decodeBinary_def guid_bin_def at_append guid_ok_def)
next
  fix x assume "guid_ok x"
  then show "16 = length (guid_bin x)" "guid_bin x \<noteq> []"
    using length_guid_bin [of x] by auto
qed

subsection \<open>NodeId and ExpandedNodeId\<close>

definition nodeid_mask_bin :: "nodeid \<Rightarrow> u8 \<Rightarrow> u8 list" where
  "nodeid_mask_bin n m =
     (case nident n of
        Numeric num \<Rightarrow>
          if num > 65535 \<or> namespaceIndex n > 255
          then (m OR 2) # UA_encode16 (namespaceIndex n) @ UA_encode32 num
          else if num > 255 \<or> namespaceIndex n > 0
          then (m OR 1) # ucast (namespaceIndex n) # UA_encode16 (ucast num)
          else [m, ucast num]
      | StringId s \<Rightarrow> (m OR 3) # UA_encode16 (namespaceIndex n) @ string_bin s
      | GuidId g \<Rightarrow> (m OR 4) # UA_encode16 (namespaceIndex n) @ guid_bin g
      | ByteStringId s \<Rightarrow> (m OR 5) # UA_encode16 (namespaceIndex n) @ string_bin s)"

definition nodeid_bin :: "nodeid \<Rightarrow> u8 list" where
  "nodeid_bin n = nodeid_mask_bin n 0"

definition nodeid_ok :: "nodeid \<Rightarrow> bool" where
  "nodeid_ok n \<longleftrightarrow>
     (case nident n of
        Numeric _ \<Rightarrow> True
      | StringId s \<Rightarrow> string_ok s
      | GuidId g \<Rightarrow> guid_ok g
      | ByteStringId s \<Rightarrow> string_ok s)"

lemma NodeId_mask_fits:
  assumes "nodeid_ok n" and "length (nodeid_mask_bin n m) \<le> eroom c"
  shows "NodeId_encodeBinaryWithEncodingMask n m c = (GOOD, emit (nodeid_mask_bin n m) c)"
  using assms
  by (auto simp: NodeId_encodeBinaryWithEncodingMask_def nodeid_mask_bin_def nodeid_ok_def Let_def
      int_enc_fits byte_bin_def String_codec.enc_fits Guid_codec.enc_fits split: nident_t.splits)

lemma ucast_roundtrip:
  "(n :: u16) \<le> 255 \<Longrightarrow> ucast (ucast n :: u8) = n"
  "(w :: u32) \<le> 65535 \<Longrightarrow> ucast (ucast w :: u16) = w"
  "(w :: u32) \<le> 255 \<Longrightarrow> ucast (ucast w :: u8) = w"
  by (simp_all add: word_le_nat_alt unsigned_ucast_eq word_unat_eq_iff unsigned_take_bit_eq take_bit_nat_eq_self)

lemma mask_or [simp]:
  "m AND 0x3F = 0 \<Longrightarrow> (m OR 1) AND 0x3F = (1 :: u8)"
  "m AND 0x3F = 0 \<Longrightarrow> (m OR 2) AND 0x3F = (2 :: u8)"
  "m AND 0x3F = 0 \<Longrightarrow> (m OR 3) AND 0x3F = (3 :: u8)"
  "m AND 0x3F = 0 \<Longrightarrow> (m OR 4) AND 0x3F = (4 :: u8)"
  "m AND 0x3F = 0 \<Longrightarrow> (m OR 5) AND 0x3F = (5 :: u8)"
  by (simp_all add: bit.conj_disj_distrib2)

lemma NodeId_mask_at:
  assumes ok: "nodeid_ok n" and a: "at d (nodeid_mask_bin n m)" and m: "m AND 0x3F = 0"
  shows "NodeId_decodeBinary d = (GOOD, n, skip (length (nodeid_mask_bin n m)) d)"
proof -
  have eta: "\<lparr>namespaceIndex = namespaceIndex n, nident = nident n\<rparr> = n"
    by simp
  show ?thesis
  proof (cases "nident n")
    case (Numeric num)
    consider "num > 65535 \<or> namespaceIndex n > 255"
      | "\<not> (num > 65535 \<or> namespaceIndex n > 255)" "num > 255 \<or> namespaceIndex n > 0"
      | "\<not> (num > 65535 \<or> namespaceIndex n > 255)" "\<not> (num > 255 \<or> namespaceIndex n > 0)"
      by blast
    then show ?thesis
    proof cases
      case 1
      then show ?thesis
        using a m Numeric Byte_at [of d "m OR 2"] UInt16_at [of "skip 1 d" "namespaceIndex n"]
          UInt32_at [of "skip (1 + 2) d" num] eta
        by (simp add: NodeId_decodeBinary_def nodeid_mask_bin_def at_Cons at_append)
    next
      case 2
      have bin: "nodeid_mask_bin n m = (m OR 1) # ucast (namespaceIndex n) # UA_encode16 (ucast num)"
        unfolding nodeid_mask_bin_def Numeric using 2 by simp
      have "num \<le> 65535" "namespaceIndex n \<le> 255"
        using 2(1) by (auto simp: not_less)
      then show ?thesis
        using a m Byte_at [of d "m OR 1"] Byte_at [of "skip 1 d" "ucast (namespaceIndex n)"]
          UInt16_at [of "skip (1 + 1) d" "ucast num"] eta Numeric
        by (simp add: NodeId_decodeBinary_def bin at_Cons ucast_roundtrip)
    next
      case 3
      have bin: "nodeid_mask_bin n m = [m, ucast num]"
        unfolding nodeid_mask_bin_def Numeric using 3 by simp
      have "num \<le> 255" "namespaceIndex n = 0"
        using 3(2) by (auto simp: not_less word_not_simps)
      then show ?thesis
        using a m Byte_at [of d m] Byte_at [of "skip 1 d" "ucast num"] eta Numeric
        by (simp add: NodeId_decodeBinary_def bin at_Cons ucast_roundtrip)
    qed
  next
    case (StringId s)
    then show ?thesis
      using a m ok Byte_at [of d "m OR 3"] UInt16_at [of "skip 1 d" "namespaceIndex n"]
        String_codec.dec_at [of s "skip (1 + 2) d"] eta
      by (simp add: NodeId_decodeBinary_def nodeid_mask_bin_def nodeid_ok_def at_Cons at_append)
  next
    case (GuidId g)
    then show ?thesis
      using a m ok Byte_at [of d "m OR 4"] UInt16_at [of "skip 1 d" "namespaceIndex n"]
        Guid_codec.dec_at [of g "skip (1 + 2) d"] eta
      by (simp add: NodeId_decodeBinary_def nodeid_mask_bin_def nodeid_ok_def at_Cons at_append)
  next
    case (ByteStringId s)
    then show ?thesis
      using a m ok Byte_at [of d "m OR 5"] UInt16_at [of "skip 1 d" "namespaceIndex n"]
        String_codec.dec_at [of s "skip (1 + 2) d"] eta
      by (simp add: NodeId_decodeBinary_def nodeid_mask_bin_def nodeid_ok_def at_Cons at_append)
  qed
qed

lemma NodeId_mask_size: "nodeid_ok n \<Longrightarrow> NodeId_calcSizeBinary n = length (nodeid_mask_bin n m)"
  by (auto simp: NodeId_calcSizeBinary_def nodeid_mask_bin_def nodeid_ok_def length_guid_bin
      String_codec.size_bin split: nident_t.splits)

lemma nodeid_mask_bin_nonempty: "nodeid_mask_bin n m \<noteq> []"
  by (simp add: nodeid_mask_bin_def split: nident_t.split)

interpretation NodeId_codec:
  binary_codec NodeId_encodeBinary NodeId_decodeBinary NodeId_calcSizeBinary nodeid_bin nodeid_ok
  by unfold_locales
     (auto simp: NodeId_encodeBinary_def nodeid_bin_def NodeId_mask_fits NodeId_mask_at
        NodeId_mask_size nodeid_mask_bin_nonempty)

definition expanded_mask :: "expandednodeid \<Rightarrow> u8" where
  "expanded_mask x = (if allocated (namespaceUri x) then 0x80 else 0) OR (if serverIndex x > 0 then 0x40 else 0)"

definition expandednodeid_bin :: "expandednodeid \<Rightarrow> u8 list" where
  "expandednodeid_bin x = nodeid_mask_bin (nodeId x) (expanded_mask x)
     @ (if allocated (namespaceUri x) then string_bin (namespaceUri x) else [])
     @ (if serverIndex x > 0 then UA_encode32 (serverIndex x) else [])"

text \<open>
  An ExpandedNodeId has either a namespace URI or a namespace index; an empty URI is the null
  string, since the encoding cannot tell them apart.
\<close>

definition expandednodeid_ok :: "expandednodeid \<Rightarrow> bool" where
  "expandednodeid_ok x \<longleftrightarrow> nodeid_ok (nodeId x) \<and> string_ok (namespaceUri x)
     \<and> namespaceUri x \<noteq> Some []
     \<and> (namespaceUri x \<noteq> None \<longrightarrow> namespaceIndex (nodeId x) = 0)"

lemma expanded_mask_bits:
  "expanded_mask x AND 0x3F = 0"
  "(nodeid_mask_bin n (expanded_mask x) ! 0) AND 0x80 = 0 \<longleftrightarrow> \<not> allocated (namespaceUri x)"
  "(nodeid_mask_bin n (expanded_mask x) ! 0) AND 0x40 = 0 \<longleftrightarrow> \<not> serverIndex x > 0"
  by (auto simp: expanded_mask_def nodeid_mask_bin_def bit.conj_disj_distrib2 split: nident_t.split)

lemma at_hd: "at d bs \<Longrightarrow> bs \<noteq> [] \<Longrightarrow> dpos d < length (dbuf d) \<and> dbuf d ! dpos d = bs ! 0"
proof -
  assume a: "at d bs" and ne: "bs \<noteq> []"
  obtain rest where r: "drop (dpos d) (dbuf d) = bs @ rest"
    using a by (auto simp: at_def)
  have b: "dpos d < length (dbuf d)"
    using at_bound [OF a ne] ne by (cases bs) auto
  then have "dbuf d ! dpos d = drop (dpos d) (dbuf d) ! 0"
    by simp
  with b r ne show ?thesis
    by (simp add: nth_append)
qed

lemma ExpandedNodeId_fits:
  "expandednodeid_ok x \<Longrightarrow> length (expandednodeid_bin x) \<le> eroom c \<Longrightarrow>
   ExpandedNodeId_encodeBinary x c = (GOOD, emit (expandednodeid_bin x) c)"
  by (auto simp: ExpandedNodeId_encodeBinary_def expandednodeid_bin_def expandednodeid_ok_def
      expanded_mask_def [symmetric] NodeId_mask_fits String_codec.enc_fits UInt32_codec.enc_fits
      encodeWithExchangeBuffer_fits)

lemma ExpandedNodeId_at:
  assumes ok: "expandednodeid_ok x" and a: "at d (expandednodeid_bin x)"
  shows "ExpandedNodeId_decodeBinary d = (GOOD, x, skip (length (expandednodeid_bin x)) d)"
proof -
  let ?n = "nodeid_mask_bin (nodeId x) (expanded_mask x)"
  let ?u = "if allocated (namespaceUri x) then string_bin (namespaceUri x) else []"
  have an: "at d ?n" and au: "at (skip (length ?n) d) ?u"
    and as: "serverIndex x > 0 \<Longrightarrow> at (skip (length ?n + length ?u) d) (UA_encode32 (serverIndex x))"
    using a by (auto simp: expandednodeid_bin_def at_append split: if_splits)
  have hd: "dpos d < length (dbuf d)" "dbuf d ! dpos d = ?n ! 0"
    using at_hd [OF an nodeid_mask_bin_nonempty] by simp_all
  have nid: "NodeId_decodeBinary d = (GOOD, nodeId x, skip (length ?n) d)"
    using ok an by (intro NodeId_mask_at) (simp_all add: expandednodeid_ok_def expanded_mask_bits)
  have uri: "allocated (namespaceUri x) \<Longrightarrow> String_decodeBinary (skip (length ?n) d)
      = (GOOD, namespaceUri x, skip (length ?n + length ?u) d)"
    using ok au String_codec.dec_at [of "namespaceUri x" "skip (length ?n) d"]
    by (simp add: expandednodeid_ok_def)
  have none: "\<not> allocated (namespaceUri x) \<Longrightarrow> namespaceUri x = None"
    using ok by (cases "namespaceUri x") (auto simp: expandednodeid_ok_def allocated_def)
  have ns: "allocated (namespaceUri x) \<Longrightarrow> (nodeId x)\<lparr>namespaceIndex := 0\<rparr> = nodeId x"
    using ok by (cases "namespaceUri x") (auto simp: expandednodeid_ok_def allocated_def)
  have srv: "\<not> serverIndex x > 0 \<Longrightarrow> serverIndex x = 0"
    by (simp add: word_gt_0)
  show ?thesis
  proof (cases "allocated (namespaceUri x)")
    case True
    then show ?thesis
      using hd nid uri ns srv as UInt32_at [of "skip (length ?n + length ?u) d" "serverIndex x"]
      by (cases "serverIndex x > 0")
         (simp_all add: ExpandedNodeId_decodeBinary_def expandednodeid_bin_def expanded_mask_bits add.assoc)
  next
    case False
    then show ?thesis
      using hd nid none srv as UInt32_at [of "skip (length ?n) d" "serverIndex x"]
      by (cases "serverIndex x > 0")
         (simp_all add: ExpandedNodeId_decodeBinary_def expandednodeid_bin_def expanded_mask_bits)
  qed
qed

interpretation ExpandedNodeId_codec:
  binary_codec ExpandedNodeId_encodeBinary ExpandedNodeId_decodeBinary ExpandedNodeId_calcSizeBinary
    expandednodeid_bin expandednodeid_ok
  by unfold_locales
     (auto simp: ExpandedNodeId_fits ExpandedNodeId_at ExpandedNodeId_calcSizeBinary_def
        expandednodeid_bin_def expandednodeid_ok_def nodeid_mask_bin_nonempty allocated_def
        NodeId_mask_size [where m = "expanded_mask x" for x] String_codec.size_bin)

subsection \<open>QualifiedName and LocalizedText\<close>

definition qualifiedname_bin :: "qualifiedname \<Rightarrow> u8 list" where
  "qualifiedname_bin q = UA_encode16 (qnamespaceIndex q) @ string_bin (qname q)"

definition qualifiedname_ok :: "qualifiedname \<Rightarrow> bool" where
  "qualifiedname_ok q \<longleftrightarrow> string_ok (qname q)"

interpretation QualifiedName_codec:
  binary_codec QualifiedName_encodeBinary QualifiedName_decodeBinary QualifiedName_calcSizeBinary
    qualifiedname_bin qualifiedname_ok
proof
  fix x and c :: ectx assume "qualifiedname_ok x" "length (qualifiedname_bin x) \<le> eroom c"
  then show "QualifiedName_encodeBinary x c = (GOOD, emit (qualifiedname_bin x) c)"
    by (simp add: QualifiedName_encodeBinary_def qualifiedname_bin_def qualifiedname_ok_def
        int_enc_fits String_codec.enc_fits)
next
  fix x d assume "qualifiedname_ok x" "at d (qualifiedname_bin x)"
  then show "QualifiedName_decodeBinary d = (GOOD, x, skip (length (qualifiedname_bin x)) d)"
    using UInt16_at [of d "qnamespaceIndex x"] String_codec.dec_at [of "qname x" "skip 2 d"]
    by (simp add: QualifiedName_decodeBinary_def qualifiedname_bin_def qualifiedname_ok_def at_append)
next
  fix x assume "qualifiedname_ok x"
  then show "QualifiedName_calcSizeBinary x = length (qualifiedname_bin x)" "qualifiedname_bin x \<noteq> []"
    by (simp_all add: QualifiedName_calcSizeBinary_def qualifiedname_bin_def qualifiedname_ok_def
        String_codec.size_bin)
qed

definition lt_mask :: "localizedtext \<Rightarrow> u8" where
  "lt_mask x = (if locale_ltext x \<noteq> None then 1 else 0) OR (if ltext x \<noteq> None then 2 else 0)"

definition localizedtext_bin :: "localizedtext \<Rightarrow> u8 list" where
  "localizedtext_bin x = lt_mask x #
     (if locale_ltext x \<noteq> None then string_bin (locale_ltext x) else [])
       @ (if ltext x \<noteq> None then string_bin (ltext x) else [])"

definition localizedtext_ok :: "localizedtext \<Rightarrow> bool" where
  "localizedtext_ok x \<longleftrightarrow> string_ok (locale_ltext x) \<and> string_ok (ltext x)"

interpretation LocalizedText_codec:
  binary_codec LocalizedText_encodeBinary LocalizedText_decodeBinary LocalizedText_calcSizeBinary
    localizedtext_bin localizedtext_ok
proof
  fix x and c :: ectx assume "localizedtext_ok x" "length (localizedtext_bin x) \<le> eroom c"
  then show "LocalizedText_encodeBinary x c = (GOOD, emit (localizedtext_bin x) c)"
    by (auto simp: LocalizedText_encodeBinary_def localizedtext_bin_def localizedtext_ok_def lt_mask_def
        int_enc_fits byte_bin_def String_codec.enc_fits)
next
  fix x d assume ok: "localizedtext_ok x" and a: "at d (localizedtext_bin x)"
  have m: "at d [lt_mask x]"
    and l: "locale_ltext x \<noteq> None \<Longrightarrow> at (skip 1 d) (string_bin (locale_ltext x))"
    and t: "ltext x \<noteq> None \<Longrightarrow> locale_ltext x \<noteq> None \<Longrightarrow>
       at (skip (1 + length (string_bin (locale_ltext x))) d) (string_bin (ltext x))"
    and t': "ltext x \<noteq> None \<Longrightarrow> locale_ltext x = None \<Longrightarrow> at (skip 1 d) (string_bin (ltext x))"
    using a by (auto simp: localizedtext_bin_def at_Cons at_append split: if_splits)
  show "LocalizedText_decodeBinary d = (GOOD, x, skip (length (localizedtext_bin x)) d)"
    using ok Byte_at [OF m] l t t' String_codec.dec_at [of "locale_ltext x" "skip 1 d"]
      String_codec.dec_at [of "ltext x" "skip 1 d"]
      String_codec.dec_at [of "ltext x" "skip (1 + length (string_bin (locale_ltext x))) d"]
    by (cases "locale_ltext x"; cases "ltext x")
       (simp_all add: LocalizedText_decodeBinary_def localizedtext_bin_def localizedtext_ok_def lt_mask_def)
next
  fix x assume "localizedtext_ok x"
  then show "LocalizedText_calcSizeBinary x = length (localizedtext_bin x)" "localizedtext_bin x \<noteq> []"
    by (simp_all add: LocalizedText_calcSizeBinary_def localizedtext_bin_def localizedtext_ok_def
        String_codec.size_bin)
qed

subsection \<open>Properties\<close>

text \<open>C19: A NodeId with any kind of identifier that is encoded into a buffer of exactly the size that
  \<open>NodeId_calcSizeBinary\<close> computes succeeds, fills the buffer, and decoding the bytes, whatever
  follows them, gives the same NodeId back and stops right behind them.\<close>

theorem NodeId_roundtrip:
  assumes "nodeid_ok n" and "eout c = []" and "eroom c = NodeId_calcSizeBinary n"
  shows "\<exists>c'. NodeId_encodeBinary n c = (GOOD, c') \<and> eroom c' = 0 \<and>
    NodeId_decodeBinary \<lparr>dbuf = eout c' @ rest, dpos = 0, ddepth = d\<rparr> =
      (GOOD, n, \<lparr>dbuf = eout c' @ rest, dpos = NodeId_calcSizeBinary n, ddepth = d\<rparr>)"
  using assms by (rule NodeId_codec.roundtrip)

theorem NodeId_roundtrip_witness:
  "\<exists>c'. NodeId_encodeBinary \<lparr>namespaceIndex = 300, nident = StringId (Some [72, 105])\<rparr>
       \<lparr>eout = [], eroom = 9, edepth = 0, esent = [], escript = None\<rparr> = (GOOD, c') \<and> eroom c' = 0 \<and>
    NodeId_decodeBinary \<lparr>dbuf = eout c' @ [7], dpos = 0, ddepth = 0\<rparr> =
      (GOOD, \<lparr>namespaceIndex = 300, nident = StringId (Some [72, 105])\<rparr>,
       \<lparr>dbuf = eout c' @ [7], dpos = 9, ddepth = 0\<rparr>)"
  using NodeId_roundtrip [of "\<lparr>namespaceIndex = 300, nident = StringId (Some [72, 105])\<rparr>"
      "\<lparr>eout = [], eroom = 9, edepth = 0, esent = [], escript = None\<rparr>" "[7]" 0]
  by (simp add: nodeid_ok_def string_ok_def UA_INT32_MAX_def NodeId_calcSizeBinary_def
      String_calcSizeBinary_def)

text \<open>The same round trip for ExpandedNodeIds, whose two flags and optional fields
  (namespace URI and server index) share the encoding byte with the inner NodeId.\<close>

theorem ExpandedNodeId_roundtrip:
  assumes "expandednodeid_ok x" and "eout c = []" and "eroom c = ExpandedNodeId_calcSizeBinary x"
  shows "\<exists>c'. ExpandedNodeId_encodeBinary x c = (GOOD, c') \<and> eroom c' = 0 \<and>
    ExpandedNodeId_decodeBinary \<lparr>dbuf = eout c' @ rest, dpos = 0, ddepth = d\<rparr> =
      (GOOD, x, \<lparr>dbuf = eout c' @ rest, dpos = ExpandedNodeId_calcSizeBinary x, ddepth = d\<rparr>)"
  using assms by (rule ExpandedNodeId_codec.roundtrip)

theorem ExpandedNodeId_roundtrip_witness:
  "\<exists>c'. ExpandedNodeId_encodeBinary
         \<lparr>nodeId = \<lparr>namespaceIndex = 0, nident = Numeric 70000\<rparr>, namespaceUri = Some [65], serverIndex = 5\<rparr>
       \<lparr>eout = [], eroom = 16, edepth = 0, esent = [], escript = None\<rparr> = (GOOD, c') \<and> eroom c' = 0 \<and>
    ExpandedNodeId_decodeBinary \<lparr>dbuf = eout c' @ [7], dpos = 0, ddepth = 0\<rparr> =
      (GOOD, \<lparr>nodeId = \<lparr>namespaceIndex = 0, nident = Numeric 70000\<rparr>, namespaceUri = Some [65], serverIndex = 5\<rparr>,
       \<lparr>dbuf = eout c' @ [7], dpos = 16, ddepth = 0\<rparr>)"
  using ExpandedNodeId_roundtrip [of
      "\<lparr>nodeId = \<lparr>namespaceIndex = 0, nident = Numeric 70000\<rparr>, namespaceUri = Some [65], serverIndex = 5\<rparr>"
      "\<lparr>eout = [], eroom = 16, edepth = 0, esent = [], escript = None\<rparr>" "[7]" 0]
  by (simp add: expandednodeid_ok_def nodeid_ok_def string_ok_def UA_INT32_MAX_def
      ExpandedNodeId_calcSizeBinary_def NodeId_calcSizeBinary_def String_calcSizeBinary_def)

end
