(* ===== verification/Connection.thy ===== *)
theory Connection
  imports Binary_Basic_Correct
begin

text \<open>
  Connections: src/src/ua_connection.c and the socket functions of src/plugins/ua_network_tcp.c that a
  connection points to. TCP delivers a stream of bytes in packets of any size. \<open>UA_Connection_processChunks\<close> cuts
  the stream into chunks by the length field of their headers and keeps the rest of a packet for the next one.

  The state is the record \<open>connection\<close> of src/include/ua_plugin_network.h. What the operating system answers is part of it:
  \<open>callocs\<close> are the results of allocations (an empty list means that memory is available) and \<open>sock\<close> what the calls of
  \<open>send\<close> do (an empty list: everything is accepted); \<open>wire\<close> collects the bytes that went into the socket. The function that
  handles a complete chunk is a parameter, as in the code; it works on the connection and on the application. \<open>channelPtr\<close> is
  the address of the attached channel.
\<close>

named_theorems connection_simps "unfolding of connection operations"

abbreviation (input) BADCOMMUNICATIONERROR :: status where "BADCOMMUNICATIONERROR \<equiv> 0x80050000"
abbreviation (input) BADSECURITYCHECKSFAILED :: status where "BADSECURITYCHECKSFAILED \<equiv> 0x80130000"
abbreviation (input) BADCERTIFICATEUNTRUSTED :: status where "BADCERTIFICATEUNTRUSTED \<equiv> 0x801A0000"
abbreviation (input) BADTCPMESSAGETYPEINVALID :: status where "BADTCPMESSAGETYPEINVALID \<equiv> 0x807E0000"
abbreviation (input) BADTCPMESSAGETOOLARGE :: status where "BADTCPMESSAGETOOLARGE \<equiv> 0x80800000"
abbreviation (input) GOODNONCRITICALTIMEOUT :: status where "GOODNONCRITICALTIMEOUT \<equiv> 0x00AA0000"

text \<open>The message and chunk types of the transport: three letters and one letter, little-endian.\<close>

abbreviation (input) MESSAGETYPE_ACK :: u32 where "MESSAGETYPE_ACK \<equiv> 0x4B4341"
abbreviation (input) MESSAGETYPE_HEL :: u32 where "MESSAGETYPE_HEL \<equiv> 0x4C4548"
abbreviation (input) MESSAGETYPE_MSG :: u32 where "MESSAGETYPE_MSG \<equiv> 0x47534D"
abbreviation (input) MESSAGETYPE_OPN :: u32 where "MESSAGETYPE_OPN \<equiv> 0x4E504F"
abbreviation (input) MESSAGETYPE_CLO :: u32 where "MESSAGETYPE_CLO \<equiv> 0x4F4C43"
abbreviation (input) MESSAGETYPE_ERR :: u32 where "MESSAGETYPE_ERR \<equiv> 0x525245"
abbreviation (input) CHUNKTYPE_FINAL :: u32 where "CHUNKTYPE_FINAL \<equiv> 0x46000000"
abbreviation (input) CHUNKTYPE_INTERMEDIATE :: u32 where "CHUNKTYPE_INTERMEDIATE \<equiv> 0x43000000"
abbreviation (input) CHUNKTYPE_ABORT :: u32 where "CHUNKTYPE_ABORT \<equiv> 0x41000000"

subsection \<open>The connection\<close>

record connection_config =
  protocolVersion :: u32
  sendBufferSize :: u32
  recvBufferSize :: u32
  maxMessageSize :: u32
  maxChunkCount :: u32

datatype connection_state = CONNECTION_CLOSED | CONNECTION_OPENING | CONNECTION_ESTABLISHED

text \<open>One call of \<open>send\<close>: it takes some bytes, is interrupted (or would block), or fails.\<close>

datatype send_answer = Sent nat | Interrupted | Failed

record connection =
  cstate :: connection_state
  localConf :: connection_config
  remoteConf :: connection_config
  channelPtr :: "nat option"
  incompleteMessage :: "u8 list"
  wire :: "u8 list"
  sock :: "send_answer list"
  callocs :: "bool list"

definition conn_alloc :: "connection \<Rightarrow> bool \<times> connection" where
  "conn_alloc c = (case callocs c of [] \<Rightarrow> (True, c) | b # bs \<Rightarrow> (b, c\<lparr>callocs := bs\<rparr>))"

definition UA_Connection_deleteMembers :: "connection \<Rightarrow> connection" where
  "UA_Connection_deleteMembers c = c\<lparr>incompleteMessage := []\<rparr>"

subsection \<open>The socket functions\<close>

text \<open>A send buffer is known by its length; its content is written by the caller before it is sent.\<close>

definition connection_getsendbuffer :: "nat \<Rightarrow> connection \<Rightarrow> status \<times> connection" where
  "connection_getsendbuffer n c =
     (if n > unat (recvBufferSize (remoteConf c)) then (BADCOMMUNICATIONERROR, c)
      else if n = 0 then (GOOD, c)
      else (case conn_alloc c of (ok, c1) \<Rightarrow> (if ok then GOOD else BADOUTOFMEMORY, c1)))"

definition connection_close :: "connection \<Rightarrow> connection" where
  "connection_close c = c\<lparr>cstate := CONNECTION_CLOSED\<rparr>"

text \<open>The loop over \<open>send\<close>: \<open>rest\<close> are the bytes from \<open>nWritten\<close> on.\<close>

fun write_loop :: "send_answer list \<Rightarrow> u8 list \<Rightarrow> connection \<Rightarrow> status \<times> connection" where
  "write_loop [] rest c = (GOOD, c\<lparr>wire := wire c @ rest, sock := []\<rparr>)"
| "write_loop (Interrupted # as) rest c = write_loop as rest c"
| "write_loop (Failed # as) rest c = (BADCONNECTIONCLOSED, connection_close (c\<lparr>sock := as\<rparr>))"
| "write_loop (Sent n # as) rest c =
     (let c1 = c\<lparr>wire := wire c @ take n rest\<rparr>
      in if n < length rest then write_loop as (drop n rest) c1 else (GOOD, c1\<lparr>sock := as\<rparr>))"

definition connection_write :: "u8 list \<Rightarrow> connection \<Rightarrow> status \<times> connection" where
  "connection_write buf c =
     (if cstate c = CONNECTION_CLOSED then (BADCONNECTIONCLOSED, c) else write_loop (sock c) buf c)"

subsection \<open>Error messages\<close>

record tcp_error =
  terror :: status
  treason :: ustring

definition hideErrors :: "tcp_error \<Rightarrow> tcp_error" where
  "hideErrors e =
     (if terror e = BADCERTIFICATEUNTRUSTED then e\<lparr>terror := BADSECURITYCHECKSFAILED, treason := None\<rparr> else e)"

text \<open>
  The header has the size of the error and its reason; both are encoded into the buffer of that size with the codec
  (\<open>UInt32_encodeBinary\<close>, \<open>String_encodeBinary\<close>), whose status is not looked at.
\<close>

definition UA_Connection_sendError :: "tcp_error \<Rightarrow> connection \<Rightarrow> connection" where
  "UA_Connection_sendError e0 c =
     (let e = hideErrors e0;
          messageSize = 8 + (4 + 4 + (word_of_nat (arr_length (treason e)) :: u32));
          (r, c1) = connection_getsendbuffer (unat messageSize) c
      in if r \<noteq> GOOD then c1
         else let b0 = \<lparr>eout = [], eroom = unat messageSize, edepth = 0, esent = [], escript = None\<rparr>;
                  (_, b1) = UInt32_encodeBinary (MESSAGETYPE_ERR + CHUNKTYPE_FINAL) b0;
                  (_, b2) = UInt32_encodeBinary messageSize b1;
                  (_, b3) = UInt32_encodeBinary (terror e) b2;
                  (_, b4) = String_encodeBinary (treason e) b3
              in snd (connection_write (take (unat messageSize) (eout b4)) c1))"

subsection \<open>Cutting the stream into chunks\<close>

text \<open>The function for complete chunks works on the connection and the application state.\<close>

type_synonym 'a chunk_callback = "u8 list \<Rightarrow> connection \<times> 'a \<Rightarrow> status \<times> connection \<times> 'a"

text \<open>The stored bytes are put before the new packet; if there is no memory, both are dropped.\<close>

definition prependIncompleteChunk :: "u8 list \<Rightarrow> connection \<Rightarrow> status \<times> u8 list \<times> connection" where
  "prependIncompleteChunk message c =
     (case conn_alloc c of
        (False, c1) \<Rightarrow> (BADOUTOFMEMORY, message, c1\<lparr>incompleteMessage := []\<rparr>)
      | (True, c1) \<Rightarrow> (GOOD, incompleteMessage c @ message, c1\<lparr>incompleteMessage := []\<rparr>))"

definition bufferIncompleteChunk :: "u8 list \<Rightarrow> connection \<Rightarrow> status \<times> connection" where
  "bufferIncompleteChunk bytes c =
     (case conn_alloc c of
        (False, c1) \<Rightarrow> (BADOUTOFMEMORY, c1\<lparr>incompleteMessage := []\<rparr>)
      | (True, c1) \<Rightarrow> (GOOD, c1\<lparr>incompleteMessage := bytes\<rparr>))"

definition known_type :: "u32 \<Rightarrow> bool" where
  "known_type t \<longleftrightarrow> t \<in> {MESSAGETYPE_MSG, MESSAGETYPE_ERR, MESSAGETYPE_OPN, MESSAGETYPE_HEL, MESSAGETYPE_ACK, MESSAGETYPE_CLO}"

text \<open>
  One round of the loop. The result is the status, whether the packet is done, the rest of the packet and the state. When
  an error is returned the loop ends, and the other results are not used. The result of \<open>bufferIncompleteChunk\<close> is ignored.
\<close>

definition processChunk :: "'a chunk_callback \<Rightarrow> u8 list \<Rightarrow> connection \<times> 'a \<Rightarrow> status \<times> bool \<times> u8 list \<times> connection \<times> 'a" where
  "processChunk cb pos w =
     (if length pos < 8
      then (GOOD, True, pos, (if length pos > 0 then snd (bufferIncompleteChunk pos (fst w)) else fst w), snd w)
      else let msgtype = ucast (pos ! 0) + push_bit 8 (ucast (pos ! 1)) + push_bit 16 (ucast (pos ! 2));
               isFinal = pos ! 3;
               chunk_length = UA_decode32 (take 4 (drop 4 pos))
           in if \<not> known_type msgtype then (BADTCPMESSAGETYPEINVALID, True, pos, w)
              else if isFinal \<notin> {0x43, 0x46, 0x41} then (BADTCPMESSAGETYPEINVALID, True, pos, w)
              else if chunk_length < 16 \<or> chunk_length > recvBufferSize (localConf (fst w))
              then (BADTCPMESSAGETOOLARGE, True, pos, w)
              else if unat chunk_length > length pos
              then (GOOD, True, pos, snd (bufferIncompleteChunk pos (fst w)), snd w)
              else let (r, w1) = cb (take (unat chunk_length) pos) w
                   in (r, False, drop (unat chunk_length) pos, w1))"

lemma processChunk_shorter:
  "processChunk cb pos w = (r, False, rest, w') \<Longrightarrow> length rest < length pos"
  by (auto simp: processChunk_def Let_def word_less_nat_alt split: if_splits prod.splits)

function processChunks_loop :: "'a chunk_callback \<Rightarrow> u8 list \<Rightarrow> connection \<times> 'a \<Rightarrow> status \<times> connection \<times> 'a" where
  "processChunks_loop cb pos w =
     (case processChunk cb pos w of
        (r, done, rest, w1) \<Rightarrow> if \<not> done \<and> r = GOOD then processChunks_loop cb rest w1 else (r, w1))"
  by pat_completeness auto
termination
  by (relation "measure (\<lambda>(cb, pos, w). length pos)") (auto dest: processChunk_shorter [OF sym])

declare processChunks_loop.simps [simp del]

definition UA_Connection_processChunks ::
  "'a chunk_callback \<Rightarrow> u8 list \<Rightarrow> connection \<times> 'a \<Rightarrow> status \<times> connection \<times> 'a" where
  "UA_Connection_processChunks cb packet w =
     (if length (incompleteMessage (fst w)) > 0
      then (case prependIncompleteChunk packet (fst w) of
              (r, message, c1) \<Rightarrow>
                if r \<noteq> GOOD then (r, c1, snd w) else processChunks_loop cb message (c1, snd w))
      else processChunks_loop cb packet w)"

subsection \<open>Waiting for a chunk\<close>

text \<open>The redirection that notes that a complete chunk was seen.\<close>

definition completeChunkTrampoline :: "'a chunk_callback \<Rightarrow> (bool \<times> 'a) chunk_callback" where
  "completeChunkTrampoline cb chunk w =
     (case w of (c, called, a) \<Rightarrow> case cb chunk (c, a) of (r, c1, a1) \<Rightarrow> (r, c1, True, a1))"

text \<open>
  Blocking receive. The list has what happens from outside: for each call of \<open>recv\<close> its status, the packet and the
  monotonic clock (in units of 100 ns) after the packet was processed. The result is \<open>None\<close> while the function waits, and
  otherwise the status, the timeouts that were given to \<open>recv\<close>, and the state.
\<close>

abbreviation (input) DATETIME_MSEC :: int where "DATETIME_MSEC \<equiv> 10000"

definition remaining_timeout :: "int \<Rightarrow> int \<Rightarrow> u32" where
  "remaining_timeout maxDate now = word_of_int ((maxDate - now + (DATETIME_MSEC - 1)) div DATETIME_MSEC)"

fun receive_blocking ::
  "'a chunk_callback \<Rightarrow> int \<Rightarrow> u32 \<Rightarrow> (status \<times> u8 list \<times> int) list \<Rightarrow> connection \<times> bool \<times> 'a
     \<Rightarrow> (status \<times> u32 list \<times> connection \<times> bool \<times> 'a) option" where
  "receive_blocking cb maxDate timeout [] w = None"
| "receive_blocking cb maxDate timeout ((r, packet, now) # evs) w =
     (if r \<noteq> GOOD then Some (r, [timeout], w)
      else case UA_Connection_processChunks (completeChunkTrampoline cb) packet w of
        (r1, w1) \<Rightarrow>
          if fst (snd w1) then Some (r1, [timeout], w1)
          else if now \<ge> maxDate then Some (GOODNONCRITICALTIMEOUT, [timeout], w1)
          else map_option (\<lambda>(r2, ts, w2). (r2, timeout # ts, w2))
                 (receive_blocking cb maxDate (remaining_timeout maxDate now) evs w1))"

definition UA_Connection_receiveChunksBlocking ::
  "'a chunk_callback \<Rightarrow> u32 \<Rightarrow> int \<Rightarrow> (status \<times> u8 list \<times> int) list \<Rightarrow> connection \<times> 'a
     \<Rightarrow> (status \<times> u32 list \<times> connection \<times> bool \<times> 'a) option" where
  "UA_Connection_receiveChunksBlocking cb timeout now evs w =
     receive_blocking cb (now + int (unat timeout) * DATETIME_MSEC) timeout evs (fst w, False, snd w)"

definition UA_Connection_receiveChunksNonBlocking ::
  "'a chunk_callback \<Rightarrow> status \<Rightarrow> u8 list \<Rightarrow> connection \<times> 'a \<Rightarrow> status \<times> connection \<times> bool \<times> 'a" where
  "UA_Connection_receiveChunksNonBlocking cb r packet w =
     (if r \<noteq> GOOD \<and> r \<noteq> GOODNONCRITICALTIMEOUT then (r, fst w, False, snd w)
      else UA_Connection_processChunks (completeChunkTrampoline cb) packet (fst w, False, snd w))"

end
