(* ===== verification/Types_Id.thy ===== *)
theory Types_Id
  imports Binary_Basic_Correct
begin

text \<open>
  Comparison and hashing of identifiers (src/src/ua_types.c): \<open>UA_String_equal\<close>, \<open>UA_Guid_equal\<close>,
  \<open>UA_QualifiedName_equal\<close>, \<open>UA_NodeId_equal\<close>, \<open>UA_ExpandedNodeId_equal\<close>, \<open>UA_NodeId_isNull\<close> and
  \<open>UA_NodeId_hash\<close>. The comparison does not distinguish the null string from the empty string;
  \<open>nodeid_key\<close> is the canonical representative, so that the comparison is equality of keys. The locale
  \<open>key_hash\<close> is what a hash table needs of the two functions. NodeIds that are passed as NULL
  pointers (the comparison is then false) have no counterpart.
\<close>

subsection \<open>Comparison\<close>

definition UA_String_equal :: "ustring \<Rightarrow> ustring \<Rightarrow> bool" where
  "UA_String_equal s1 s2 \<longleftrightarrow>
     (if arr_length s1 \<noteq> arr_length s2 then False else arr_list s1 = arr_list s2)"

text \<open>The memory of a Guid, as it is compared and hashed (little-endian, without padding).\<close>

definition guid_memory :: "guid \<Rightarrow> u8 list" where
  "guid_memory g = UA_encode32 (data1 g) @ UA_encode16 (data2 g) @ UA_encode16 (data3 g) @ data4 g"

definition UA_Guid_equal :: "guid \<Rightarrow> guid \<Rightarrow> bool" where
  "UA_Guid_equal g1 g2 \<longleftrightarrow> guid_memory g1 = guid_memory g2"

definition UA_QualifiedName_equal :: "qualifiedname option \<Rightarrow> qualifiedname option \<Rightarrow> bool" where
  "UA_QualifiedName_equal q1 q2 =
     (case (q1, q2) of
        (Some a, Some b) \<Rightarrow>
          if qnamespaceIndex a \<noteq> qnamespaceIndex b then False
          else if arr_length (qname a) \<noteq> arr_length (qname b) then False
          else arr_list (qname a) = arr_list (qname b)
      | _ \<Rightarrow> False)"

definition UA_NodeId_equal :: "nodeid \<Rightarrow> nodeid \<Rightarrow> bool" where
  "UA_NodeId_equal n1 n2 \<longleftrightarrow>
     (if namespaceIndex n1 \<noteq> namespaceIndex n2 then False
      else case (nident n1, nident n2) of
        (Numeric a, Numeric b) \<Rightarrow> a = b
      | (StringId a, StringId b) \<Rightarrow> UA_String_equal a b
      | (GuidId a, GuidId b) \<Rightarrow> UA_Guid_equal a b
      | (ByteStringId a, ByteStringId b) \<Rightarrow> UA_String_equal a b
      | _ \<Rightarrow> False)"

definition UA_ExpandedNodeId_equal :: "expandednodeid \<Rightarrow> expandednodeid \<Rightarrow> bool" where
  "UA_ExpandedNodeId_equal n1 n2 \<longleftrightarrow>
     (if serverIndex n1 \<noteq> serverIndex n2 then False
      else if \<not> UA_String_equal (namespaceUri n1) (namespaceUri n2) then False
      else UA_NodeId_equal (nodeId n1) (nodeId n2))"

definition UA_NodeId_isNull :: "nodeid \<Rightarrow> bool" where
  "UA_NodeId_isNull p \<longleftrightarrow>
     (if namespaceIndex p \<noteq> 0 then False
      else case nident p of
        Numeric n \<Rightarrow> n = 0
      | GuidId g \<Rightarrow> data1 g = 0 \<and> data2 g = 0 \<and> data3 g = 0 \<and> list_all (\<lambda>b. b = 0) (take 8 (data4 g))
      | StringId s \<Rightarrow> arr_length s = 0
      | ByteStringId s \<Rightarrow> arr_length s = 0)"

subsection \<open>Hashing\<close>

definition FNV_PRIME_32 :: u32 where "FNV_PRIME_32 = 16777619"

definition fnv32 :: "u32 \<Rightarrow> u8 list \<Rightarrow> u32" where
  "fnv32 fnv buf = fold (\<lambda>b f. (f XOR ucast b) * FNV_PRIME_32) buf fnv"

definition UA_NodeId_hash :: "nodeid \<Rightarrow> u32" where
  "UA_NodeId_hash n =
     (case nident n of
        Numeric num \<Rightarrow>
          ucast ((ucast (namespaceIndex n) + drop_bit 32 (ucast num * (2654435761 :: u64))) AND 4294967295)
      | StringId s \<Rightarrow> fnv32 (ucast (namespaceIndex n)) (arr_list s)
      | ByteStringId s \<Rightarrow> fnv32 (ucast (namespaceIndex n)) (arr_list s)
      | GuidId g \<Rightarrow> fnv32 (ucast (namespaceIndex n)) (guid_memory g))"

subsection \<open>Keys\<close>

definition nodeid_key :: "nodeid \<Rightarrow> nodeid" where
  "nodeid_key n = n\<lparr>nident :=
     (case nident n of
        StringId s \<Rightarrow> StringId (Some (arr_list s))
      | ByteStringId s \<Rightarrow> ByteStringId (Some (arr_list s))
      | i \<Rightarrow> i)\<rparr>"

lemma UA_String_equal_iff: "UA_String_equal s1 s2 \<longleftrightarrow> arr_list s1 = arr_list s2"
  by (auto simp: UA_String_equal_def arr_length_def)

lemma UA_encode_inject [simp]:
  "UA_encode16 a = UA_encode16 b \<longleftrightarrow> a = b" "UA_encode32 c = UA_encode32 d \<longleftrightarrow> c = d"
  using UA_decode_encode(1) UA_decode_encode(2) by (metis, metis)

lemma UA_Guid_equal_iff: "UA_Guid_equal g1 g2 \<longleftrightarrow> g1 = g2"
  by (auto simp: UA_Guid_equal_def guid_memory_def intro: guid.equality)

text \<open>A comparison and a hash function over keys: equal identifiers have equal keys and equal hashes.\<close>

locale key_hash =
  fixes equal :: "'k \<Rightarrow> 'k \<Rightarrow> bool" and hash :: "'k \<Rightarrow> u32" and key :: "'k \<Rightarrow> 'k"
  assumes equal_key: "equal a b \<longleftrightarrow> key a = key b"
    and hash_key: "hash (key a) = hash a"
begin

lemma equal_refl [simp]: "equal a a"
  by (simp add: equal_key)

lemma equal_sym: "equal a b \<longleftrightarrow> equal b a"
  by (auto simp: equal_key)

lemma equal_trans: "equal a b \<Longrightarrow> equal b c \<Longrightarrow> equal a c"
  by (simp add: equal_key)

lemma equal_hash: "equal a b \<Longrightarrow> hash a = hash b"
  using hash_key by (metis equal_key)

end

interpretation nodeid_hash: key_hash UA_NodeId_equal UA_NodeId_hash nodeid_key
proof
  fix a b
  show "UA_NodeId_equal a b \<longleftrightarrow> nodeid_key a = nodeid_key b"
    by (cases a; cases b)
       (auto simp: UA_NodeId_equal_def nodeid_key_def UA_String_equal_iff UA_Guid_equal_iff
         split: nident_t.splits)
  show "UA_NodeId_hash (nodeid_key a) = UA_NodeId_hash a"
    by (auto simp: UA_NodeId_hash_def nodeid_key_def split: nident_t.splits)
qed

subsection \<open>Properties\<close>

text \<open>C26: Comparing NodeIds is an equivalence relation that identifies exactly the NodeIds with the
  same encoding up to null and empty strings, and equal NodeIds have the same hash, which the hash map
  of the node store relies on.\<close>

theorem NodeId_equal_hash:
  "UA_NodeId_equal a a \<and> (UA_NodeId_equal a b \<longleftrightarrow> UA_NodeId_equal b a)
    \<and> (UA_NodeId_equal a b \<and> UA_NodeId_equal b c \<longrightarrow> UA_NodeId_equal a c)
    \<and> (UA_NodeId_equal a b \<longrightarrow> UA_NodeId_hash a = UA_NodeId_hash b)
    \<and> (UA_NodeId_equal a b \<longleftrightarrow> nodeid_key a = nodeid_key b)"
  using nodeid_hash.equal_refl nodeid_hash.equal_sym nodeid_hash.equal_trans nodeid_hash.equal_hash
    nodeid_hash.equal_key by blast

theorem NodeId_equal_hash_witness:
  "UA_NodeId_equal \<lparr>namespaceIndex = 1, nident = StringId None\<rparr> \<lparr>namespaceIndex = 1, nident = StringId (Some [])\<rparr>
   \<and> UA_NodeId_hash \<lparr>namespaceIndex = 1, nident = StringId None\<rparr>
     = UA_NodeId_hash \<lparr>namespaceIndex = 1, nident = StringId (Some [])\<rparr>"
  using NodeId_equal_hash [of "\<lparr>namespaceIndex = 1, nident = StringId None\<rparr>"
      "\<lparr>namespaceIndex = 1, nident = StringId (Some [])\<rparr>" "\<lparr>namespaceIndex = 1, nident = StringId None\<rparr>"]
  by (simp add: UA_NodeId_equal_def UA_String_equal_iff)

end
