(* ===== verification/Secure_Channel.thy ===== *)
theory Secure_Channel
  imports Connection Types_Id
begin

text \<open>
  The secure channel: src/src/ua_securechannel.c and ua_securechannel.h. Messages are cut into chunks; each chunk
  has a header with the channel and the token, a sequence header, and, depending on the security mode, padding, a signature and
  encryption. The receiver undoes this and puts the bodies of the chunks together by their request identifier.

  The cryptography comes from a security policy, a record of functions (src/include/ua_plugin_securitypolicy.h); their first
  argument is the channel context, which holds the keys. \<open>decrypt\<close> works in place: it gives the new content of the
  memory it was called on, and the length of the plain text in it. \<open>encrypt\<close> gives the bytes it writes.
  Sizes (\<open>size_t\<close>) are natural numbers; where the code subtracts beyond zero, divides by zero or accesses memory outside of its
  buffers, the result of the operation is \<open>None\<close>.

  A channel is attached to its connection (\<open>attached\<close>) or not (the pointer is NULL). The operations take both.
\<close>

abbreviation (input) BADSECURECHANNELIDINVALID :: status where "BADSECURECHANNELIDINVALID \<equiv> 0x80220000"
abbreviation (input) BADSECURITYMODEREJECTED :: status where "BADSECURITYMODEREJECTED \<equiv> 0x80540000"
abbreviation (input) BADSECURITYPOLICYREJECTED :: status where "BADSECURITYPOLICYREJECTED \<equiv> 0x80550000"
abbreviation (input) BADSECURECHANNELTOKENUNKNOWN :: status where "BADSECURECHANNELTOKENUNKNOWN \<equiv> 0x80870000"

subsection \<open>Security policies\<close>

record 'k crypto =
  verify :: "'k \<Rightarrow> u8 list \<Rightarrow> u8 list \<Rightarrow> status"
  sign :: "'k \<Rightarrow> u8 list \<Rightarrow> status \<times> u8 list"
  getLocalSignatureSize :: "'k \<Rightarrow> nat"
  getRemoteSignatureSize :: "'k \<Rightarrow> nat"
  signatureLocalKeyLength :: "'k \<Rightarrow> nat"
  signatureRemoteKeyLength :: "'k \<Rightarrow> nat"
  encrypt :: "'k \<Rightarrow> u8 list \<Rightarrow> status \<times> u8 list"
  decrypt :: "'k \<Rightarrow> u8 list \<Rightarrow> status \<times> u8 list \<times> nat"
  encryptionLocalKeyLength :: "'k \<Rightarrow> nat"
  encryptionRemoteKeyLength :: "'k \<Rightarrow> nat"
  getLocalBlockSize :: "'k \<Rightarrow> nat"
  getRemoteBlockSize :: "'k \<Rightarrow> nat"
  getRemotePlainTextBlockSize :: "'k \<Rightarrow> nat"

record 'k policy =
  policyUri :: ustring
  localCertificate :: ustring
  verifyCertificate :: "(ustring \<Rightarrow> status) option"
  makeCertificateThumbprint :: "ustring \<Rightarrow> status \<times> u8 list"
  compareCertificateThumbprint :: "ustring \<Rightarrow> status"
  asymmetricModule :: "'k crypto"
  symmetricModule :: "'k crypto"
  certificateSigningAlgorithm :: "'k crypto"
  generateKey :: "ustring \<Rightarrow> ustring \<Rightarrow> nat \<Rightarrow> status \<times> u8 list"
  secureChannelNonceLength :: nat
  newContext :: "ustring \<Rightarrow> status \<times> 'k"
  setLocalSymSigningKey :: "'k \<Rightarrow> u8 list \<Rightarrow> status \<times> 'k"
  setLocalSymEncryptingKey :: "'k \<Rightarrow> u8 list \<Rightarrow> status \<times> 'k"
  setLocalSymIv :: "'k \<Rightarrow> u8 list \<Rightarrow> status \<times> 'k"
  setRemoteSymSigningKey :: "'k \<Rightarrow> u8 list \<Rightarrow> status \<times> 'k"
  setRemoteSymEncryptingKey :: "'k \<Rightarrow> u8 list \<Rightarrow> status \<times> 'k"
  setRemoteSymIv :: "'k \<Rightarrow> u8 list \<Rightarrow> status \<times> 'k"

text \<open>"http://opcfoundation.org/UA/SecurityPolicy#None"\<close>

definition UA_SECURITY_POLICY_NONE_URI :: ustring where
  "UA_SECURITY_POLICY_NONE_URI = Some (map (word_of_nat \<circ> of_char) ''http://opcfoundation.org/UA/SecurityPolicy#None'')"

subsection \<open>The channel\<close>

datatype channel_state = SECURECHANNELSTATE_FRESH | SECURECHANNELSTATE_OPEN | SECURECHANNELSTATE_CLOSED

datatype security_mode = MODE_INVALID | MODE_NONE | MODE_SIGN | MODE_SIGNANDENCRYPT

record security_token =
  channelId :: u32
  tokenId :: u32
  createdAt :: int
  revisedLifetime :: u32

definition ChannelSecurityToken_init :: security_token where
  "ChannelSecurityToken_init = \<lparr>channelId = 0, tokenId = 0, createdAt = 0, revisedLifetime = 0\<rparr>"

text \<open>\<open>chunks\<close> is the list of entries with a request identifier and the bytes collected for it; \<open>sessions\<close> are the
  addresses of the sessions on the channel.\<close>

record 'k channel =
  state :: channel_state
  securityMode :: security_mode
  securityToken :: security_token
  nextSecurityToken :: security_token
  securityPolicy :: "'k policy"
  channelContext :: 'k
  chanConnection :: "nat option"
  remoteCertificate :: ustring
  remoteCertificateThumbprint :: "u8 list"
  remoteNonce :: ustring
  localNonce :: ustring
  receiveSequenceNumber :: u32
  sendSequenceNumber :: u32
  sessions :: "nat list"
  chunks :: "(u32 \<times> u8 list) list"
  challocs :: "bool list"

text \<open>The pointer \<open>chanConnection\<close> is the address of the connection that the channel is attached to.\<close>

abbreviation (input) attached :: "'k channel \<Rightarrow> bool" where "attached ch \<equiv> chanConnection ch \<noteq> None"

definition chan_alloc :: "'k channel \<Rightarrow> bool \<times> 'k channel" where
  "chan_alloc ch = (case challocs ch of [] \<Rightarrow> (True, ch) | b # bs \<Rightarrow> (b, ch\<lparr>challocs := bs\<rparr>))"

definition signed :: "'k channel \<Rightarrow> bool" where
  "signed ch \<longleftrightarrow> securityMode ch = MODE_SIGN \<or> securityMode ch = MODE_SIGNANDENCRYPT"

definition encrypted :: "'k channel \<Rightarrow> bool" where
  "encrypted ch \<longleftrightarrow> securityMode ch = MODE_SIGNANDENCRYPT"

text \<open>
  \<open>memset\<close> sets every field to zero; \<open>k0\<close> is the NULL context. The channel is not attached and the security mode is zero, which is
  the invalid mode. A failed initialisation leaves the channel as far as it got.
\<close>

definition UA_SecureChannel_init :: "'k policy \<Rightarrow> ustring \<Rightarrow> 'k \<Rightarrow> bool list \<Rightarrow> status \<times> 'k channel" where
  "UA_SecureChannel_init P cert k0 as =
     (let ch0 = \<lparr>state = SECURECHANNELSTATE_FRESH, securityMode = MODE_INVALID, securityToken = ChannelSecurityToken_init,
                 nextSecurityToken = ChannelSecurityToken_init, securityPolicy = P, channelContext = k0, chanConnection = None,
                 remoteCertificate = None, remoteCertificateThumbprint = replicate 20 0, remoteNonce = None,
                 localNonce = None, receiveSequenceNumber = 0, sendSequenceNumber = 0, sessions = [], chunks = [],
                 challocs = as\<rparr>;
          r1 = (case verifyCertificate P of Some f \<Rightarrow> f cert | None \<Rightarrow> GOOD)
      in if r1 \<noteq> GOOD then (r1, ch0)
         else case newContext P cert of
           (r2, k) \<Rightarrow>
             if r2 \<noteq> GOOD then (r2, ch0)
             else let ch1 = ch0\<lparr>channelContext := k\<rparr>;
                      (ok, ch2) = (if arr_length cert = 0 then (True, ch1) else chan_alloc ch1)
                  in if \<not> ok then (BADOUTOFMEMORY, ch2)
                     else case makeCertificateThumbprint P cert of
                       (r3, tp) \<Rightarrow> (r3, ch2\<lparr>remoteCertificate := cert, remoteCertificateThumbprint := tp\<rparr>))"

subsection \<open>Keys and tokens\<close>

text \<open>\<open>gen\<close> is the random generator of the policy: it fills a buffer of the given length.\<close>

definition UA_SecureChannel_generateLocalNonce :: "(nat \<Rightarrow> status \<times> u8 list) \<Rightarrow> 'k channel \<Rightarrow> status \<times> 'k channel" where
  "UA_SecureChannel_generateLocalNonce gen ch =
     (let n = secureChannelNonceLength (securityPolicy ch);
          (ok, ch1) = (if arr_length (localNonce ch) \<noteq> n
                       then (if n = 0 then (True, ch\<lparr>localNonce := None\<rparr>)
                             else (case chan_alloc ch of (b, c1) \<Rightarrow> (b, c1\<lparr>localNonce := None\<rparr>)))
                       else (True, ch))
      in if \<not> ok then (BADOUTOFMEMORY, ch1)
         else case gen n of
           (r, bs) \<Rightarrow> (r, ch1\<lparr>localNonce := (if n = 0 then localNonce ch1 else Some bs)\<rparr>))"

text \<open>The key material is cut into the signing key, the encryption key and the initialisation vector.\<close>

definition set_keys ::
  "('k \<Rightarrow> u8 list \<Rightarrow> status \<times> 'k) \<Rightarrow> ('k \<Rightarrow> u8 list \<Rightarrow> status \<times> 'k) \<Rightarrow> ('k \<Rightarrow> u8 list \<Rightarrow> status \<times> 'k)
     \<Rightarrow> nat \<Rightarrow> nat \<Rightarrow> nat \<Rightarrow> u8 list \<Rightarrow> 'k \<Rightarrow> status \<times> 'k" where
  "set_keys setSigning setEncrypting setIv signingKeyLength encryptionKeyLength blockSize buffer k0 =
     (let (r1, k1) = setSigning k0 (take signingKeyLength buffer);
          (r2, k2) = setEncrypting k1 (take encryptionKeyLength (drop signingKeyLength buffer));
          (r3, k3) = setIv k2 (take blockSize (drop (signingKeyLength + encryptionKeyLength) buffer))
      in (r1 OR r2 OR r3, k3))"

definition UA_SecureChannel_generateLocalKeys :: "'k channel \<Rightarrow> status \<times> 'k channel" where
  "UA_SecureChannel_generateLocalKeys ch =
     (let P = securityPolicy ch; m = symmetricModule P; k = channelContext ch;
          e = encryptionLocalKeyLength m k; b = getLocalBlockSize m k; s = signatureLocalKeyLength m k;
          (r, buffer) = generateKey P (remoteNonce ch) (localNonce ch) (b + s + e)
      in if r \<noteq> GOOD then (r, ch)
         else case set_keys (setLocalSymSigningKey P) (setLocalSymEncryptingKey P) (setLocalSymIv P) s e b buffer k of
           (r1, k1) \<Rightarrow> (r1, ch\<lparr>channelContext := k1\<rparr>))"

definition UA_SecureChannel_generateRemoteKeys :: "'k channel \<Rightarrow> status \<times> 'k channel" where
  "UA_SecureChannel_generateRemoteKeys ch =
     (let P = securityPolicy ch; m = symmetricModule P; k = channelContext ch;
          e = encryptionRemoteKeyLength m k; b = getRemoteBlockSize m k; s = signatureRemoteKeyLength m k;
          (r, buffer) = generateKey P (localNonce ch) (remoteNonce ch) (b + s + e)
      in if r \<noteq> GOOD then (r, ch)
         else case set_keys (setRemoteSymSigningKey P) (setRemoteSymEncryptingKey P) (setRemoteSymIv P) s e b buffer k of
           (r1, k1) \<Rightarrow> (r1, ch\<lparr>channelContext := k1\<rparr>))"

definition UA_SecureChannel_generateNewKeys :: "'k channel \<Rightarrow> status \<times> 'k channel" where
  "UA_SecureChannel_generateNewKeys ch =
     (case UA_SecureChannel_generateLocalKeys ch of
        (r, ch1) \<Rightarrow> if r \<noteq> GOOD then (r, ch1) else UA_SecureChannel_generateRemoteKeys ch1)"

text \<open>\<open>token\<close> reads the authentication token from the header of a session.\<close>

definition UA_SecureChannel_getSession :: "(nat \<Rightarrow> nodeid) \<Rightarrow> nodeid \<Rightarrow> 'k channel \<Rightarrow> nat option" where
  "UA_SecureChannel_getSession token authenticationToken ch = find (\<lambda>s. UA_NodeId_equal (token s) authenticationToken) (sessions ch)"

definition UA_SecureChannel_revolveTokens :: "'k channel \<Rightarrow> status \<times> 'k channel" where
  "UA_SecureChannel_revolveTokens ch =
     (if tokenId (nextSecurityToken ch) = 0 then (BADSECURECHANNELTOKENUNKNOWN, ch)
      else UA_SecureChannel_generateNewKeys
             (ch\<lparr>securityToken := nextSecurityToken ch, nextSecurityToken := ChannelSecurityToken_init\<rparr>))"

end
