(* ===== verification/Server_Channels.thy ===== *)
theory Server_Channels
  imports Secure_Channel "HOL-Library.Monad_Syntax"
begin

text \<open>
  The channels and sessions of a server: src/src/server/ua_securechannel_manager.c, ua_session_manager.c and the life cycle of
  a session in ua_session.c, with the delayed callbacks of ua_server_worker.c (without multithreading).

  Connections, channels and sessions are objects in memory that point to each other, so the state \<open>server\<close> is a heap: a partial map
  from addresses to objects for each of the three. An operation that follows a pointer to memory that was freed has the
  result \<open>None\<close>. The lists of the managers are lists of addresses. Channels and sessions are freed by delayed callbacks.

  The answers of the allocator are part of the state (\<open>sallocs\<close>; empty: memory is available); copying a structure is one allocation. The clocks
  are \<open>nowWall\<close> and \<open>nowMonotonic\<close> in units of 100 ns. Session timeouts are whole milliseconds.
\<close>

abbreviation (input) BADTOOMANYSESSIONS :: status where "BADTOOMANYSESSIONS \<equiv> 0x80560000"
abbreviation (input) BADSESSIONIDINVALID :: status where "BADSESSIONIDINVALID \<equiv> 0x80250000"

text \<open>\<open>schannel\<close> is the pointer to the channel in the header of the session.\<close>

record server_session =
  authenticationToken :: nodeid
  schannel :: "nat option"
  sessionId :: nodeid
  activated :: bool
  maxRequestMessageSize :: u32
  maxResponseMessageSize :: u32
  stimeout :: int
  validTill :: int
  serverNonce :: ustring
  sessionName :: ustring

datatype delayed_callback = RemoveChannel nat | RemoveSession nat

record server_limits =
  maxSecureChannels :: u16
  maxSecurityTokenLifetime :: u32
  maxSessions :: u16
  maxSessionTimeout :: int

record 'k server =
  limits :: server_limits
  conns :: "nat \<rightharpoonup> connection"
  chans :: "nat \<rightharpoonup> 'k channel"
  sess :: "nat \<rightharpoonup> server_session"
  cmChannels :: "nat list"
  currentChannelCount :: u32
  lastChannelId :: u32
  lastTokenId :: u32
  smSessions :: "nat list"
  currentSessionCount :: u32
  delayedCallbacks :: "delayed_callback list"
  freshAddr :: nat
  nowWall :: int
  nowMonotonic :: int
  sallocs :: "bool list"

definition set_conn :: "nat \<Rightarrow> connection \<Rightarrow> 'k server \<Rightarrow> 'k server" where
  "set_conn c cn sv = sv\<lparr>conns := (conns sv)(c \<mapsto> cn)\<rparr>"

definition set_chan :: "nat \<Rightarrow> 'k channel \<Rightarrow> 'k server \<Rightarrow> 'k server" where
  "set_chan a ch sv = sv\<lparr>chans := (chans sv)(a \<mapsto> ch)\<rparr>"

definition set_sess :: "nat \<Rightarrow> server_session \<Rightarrow> 'k server \<Rightarrow> 'k server" where
  "set_sess s se sv = sv\<lparr>sess := (sess sv)(s \<mapsto> se)\<rparr>"

definition salloc :: "'k server \<Rightarrow> bool \<times> 'k server" where
  "salloc sv = (case sallocs sv of [] \<Rightarrow> (True, sv) | b # bs \<Rightarrow> (b, sv\<lparr>sallocs := bs\<rparr>))"

text \<open>A new object gets an address that was never used before.\<close>

definition malloc :: "'k server \<Rightarrow> nat option \<times> 'k server" where
  "malloc sv = (case salloc sv of (ok, sv1) \<Rightarrow>
     if ok then (Some (freshAddr sv1), sv1\<lparr>freshAddr := freshAddr sv1 + 1\<rparr>) else (None, sv1))"

definition UA_Server_delayedCallback :: "delayed_callback \<Rightarrow> 'k server \<Rightarrow> status \<times> 'k server" where
  "UA_Server_delayedCallback d sv = (case salloc sv of (ok, sv1) \<Rightarrow>
     if \<not> ok then (BADOUTOFMEMORY, sv1) else (GOOD, sv1\<lparr>delayedCallbacks := d # delayedCallbacks sv1\<rparr>))"

subsection \<open>Connections and channels\<close>

definition UA_Connection_detachSecureChannel :: "nat \<Rightarrow> 'k server \<Rightarrow> 'k server option" where
  "UA_Connection_detachSecureChannel c sv = do {
     cn \<leftarrow> conns sv c;
     sv1 \<leftarrow> (case channelPtr cn of
               None \<Rightarrow> Some sv
             | Some a \<Rightarrow> do { ch \<leftarrow> chans sv a;
                              Some (if chanConnection ch = Some c then set_chan a (ch\<lparr>chanConnection := None\<rparr>) sv else sv) });
     Some (set_conn c (cn\<lparr>channelPtr := None\<rparr>) sv1) }"

definition UA_Connection_attachSecureChannel :: "nat \<Rightarrow> nat \<Rightarrow> 'k server \<Rightarrow> 'k server option" where
  "UA_Connection_attachSecureChannel c a sv = do {
     ch \<leftarrow> chans sv a;
     cn \<leftarrow> conns sv c;
     Some (if chanConnection ch = None
           then set_conn c (cn\<lparr>channelPtr := Some a\<rparr>) (set_chan a (ch\<lparr>chanConnection := Some c\<rparr>) sv) else sv) }"

definition UA_Server_removeConnection :: "nat \<Rightarrow> 'k server \<Rightarrow> 'k server option" where
  "UA_Server_removeConnection c sv = do {
     sv1 \<leftarrow> UA_Connection_detachSecureChannel c sv;
     Some (sv1\<lparr>conns := (conns sv1)(c := None)\<rparr>) }"

text \<open>Clean-up of a channel: its connection is closed and detached, its sessions lose their pointer to the channel, the chunks are freed.\<close>

fun unlink_sessions :: "nat list \<Rightarrow> 'k server \<Rightarrow> 'k server option" where
  "unlink_sessions [] sv = Some sv"
| "unlink_sessions (s # ss) sv = do { se \<leftarrow> sess sv s; unlink_sessions ss (set_sess s (se\<lparr>schannel := None\<rparr>) sv) }"

definition UA_SecureChannel_deleteMembersCleanup :: "nat \<Rightarrow> 'k server \<Rightarrow> 'k server option" where
  "UA_SecureChannel_deleteMembersCleanup a sv = do {
     ch \<leftarrow> chans sv a;
     let sv1 = set_chan a (ch\<lparr>remoteCertificate := None, localNonce := None, remoteNonce := None,
                              securityToken := ChannelSecurityToken_init, nextSecurityToken := ChannelSecurityToken_init\<rparr>) sv;
     sv2 \<leftarrow> (case chanConnection ch of
               None \<Rightarrow> Some sv1
             | Some c \<Rightarrow> do { cn \<leftarrow> conns sv1 c;
                              UA_Connection_detachSecureChannel c
                                (set_conn c (if cstate cn \<noteq> CONNECTION_CLOSED then connection_close cn else cn) sv1) });
     sv3 \<leftarrow> unlink_sessions (sessions ch) sv2;
     ch3 \<leftarrow> chans sv3 a;
     Some (set_chan a (ch3\<lparr>sessions := [], chunks := []\<rparr>) sv3) }"

subsection \<open>The channel manager\<close>

definition UA_SecureChannelManager_init :: "'k server \<Rightarrow> 'k server" where
  "UA_SecureChannelManager_init sv = sv\<lparr>cmChannels := [], lastChannelId := 1, lastTokenId := 1, currentChannelCount := 0\<rparr>"

definition removeSecureChannelCallback :: "nat \<Rightarrow> 'k server \<Rightarrow> 'k server option" where
  "removeSecureChannelCallback a sv = do {
     sv1 \<leftarrow> UA_SecureChannel_deleteMembersCleanup a sv;
     Some (sv1\<lparr>chans := (chans sv1)(a := None)\<rparr>) }"

fun delete_channels :: "nat list \<Rightarrow> 'k server \<Rightarrow> 'k server option" where
  "delete_channels [] sv = Some sv"
| "delete_channels (a # as) sv = do {
     sv1 \<leftarrow> removeSecureChannelCallback a (sv\<lparr>cmChannels := remove1 a (cmChannels sv)\<rparr>);
     delete_channels as sv1 }"

definition UA_SecureChannelManager_deleteMembers :: "'k server \<Rightarrow> 'k server option" where
  "UA_SecureChannelManager_deleteMembers sv = delete_channels (cmChannels sv) sv"

definition removeSecureChannel :: "nat \<Rightarrow> 'k server \<Rightarrow> status \<times> 'k server" where
  "removeSecureChannel a sv = (case UA_Server_delayedCallback (RemoveChannel a) sv of (r, sv1) \<Rightarrow>
     if r \<noteq> GOOD then (r, sv1)
     else (GOOD, sv1\<lparr>cmChannels := remove1 a (cmChannels sv1), currentChannelCount := currentChannelCount sv1 - 1\<rparr>))"

text \<open>The loop over the channels; the status of the removal and of the switch to the next token is ignored.\<close>

fun cleanup_channels :: "int \<Rightarrow> nat list \<Rightarrow> 'k server \<Rightarrow> 'k server option" where
  "cleanup_channels now [] sv = Some sv"
| "cleanup_channels now (a # as) sv = do {
     ch \<leftarrow> chans sv a;
     let timeout = createdAt (securityToken ch) + int (unat (revisedLifetime (securityToken ch))) * DATETIME_MSEC;
     cleanup_channels now as
       (if timeout < now \<or> chanConnection ch = None then snd (removeSecureChannel a sv)
        else if tokenId (nextSecurityToken ch) > 0 then set_chan a (snd (UA_SecureChannel_revolveTokens ch)) sv else sv) }"

definition UA_SecureChannelManager_cleanupTimedOut :: "int \<Rightarrow> 'k server \<Rightarrow> 'k server option" where
  "UA_SecureChannelManager_cleanupTimedOut now sv = cleanup_channels now (cmChannels sv) sv"

text \<open>The result is true also when the removal failed.\<close>

fun purge_first :: "nat list \<Rightarrow> 'k server \<Rightarrow> (bool \<times> 'k server) option" where
  "purge_first [] sv = Some (False, sv)"
| "purge_first (a # as) sv = do {
     ch \<leftarrow> chans sv a;
     if sessions ch = [] then Some (True, snd (removeSecureChannel a sv)) else purge_first as sv }"

definition purgeFirstChannelWithoutSession :: "'k server \<Rightarrow> (bool \<times> 'k server) option" where
  "purgeFirstChannelWithoutSession sv = purge_first (cmChannels sv) sv"

text \<open>\<open>P\<close> is the security policy of the endpoint, \<open>k0\<close> the NULL context and \<open>as\<close> the answers of the allocator for the new channel.\<close>

definition new_channel ::
  "nat \<Rightarrow> 'k policy \<Rightarrow> ustring \<Rightarrow> 'k \<Rightarrow> bool list \<Rightarrow> 'k server \<Rightarrow> (status \<times> 'k server) option" where
  "new_channel c P senderCertificate k0 as sv =
     (case malloc sv of
        (None, sv1) \<Rightarrow> Some (BADOUTOFMEMORY, sv1)
      | (Some a, sv1) \<Rightarrow>
          (case UA_SecureChannel_init P senderCertificate k0 as of
             (r, ch) \<Rightarrow>
               if r \<noteq> GOOD then Some (r, sv1)
               else do {
                 sv2 \<leftarrow> UA_Connection_attachSecureChannel c a
                   (set_chan a (ch\<lparr>securityToken := \<lparr>channelId = 0, tokenId = lastTokenId sv1, createdAt = nowWall sv1,
                                  revisedLifetime = maxSecurityTokenLifetime (limits sv1)\<rparr>\<rparr>)
                     (sv1\<lparr>lastTokenId := lastTokenId sv1 + 1, cmChannels := a # cmChannels sv1,
                          currentChannelCount := currentChannelCount sv1 + 1\<rparr>));
                 Some (GOOD, sv2) }))"

definition UA_SecureChannelManager_create ::
  "nat \<Rightarrow> 'k policy \<Rightarrow> ustring \<Rightarrow> 'k \<Rightarrow> bool list \<Rightarrow> 'k server \<Rightarrow> (status \<times> 'k server) option" where
  "UA_SecureChannelManager_create c P senderCertificate k0 as sv = do {
     cn \<leftarrow> conns sv c;
     if channelPtr cn \<noteq> None then Some (BADINTERNALERROR, sv)
     else do {
       (purged, sv1) \<leftarrow> (if currentChannelCount sv \<ge> ucast (maxSecureChannels (limits sv))
                          then purgeFirstChannelWithoutSession sv else Some (True, sv));
       if \<not> purged then Some (BADOUTOFMEMORY, sv1) else new_channel c P senderCertificate k0 as sv1 } }"

text \<open>The request to open or renew a channel, as far as it is used; \<open>requestType\<close> 0 is ISSUE and 1 is RENEW.\<close>

record open_request =
  requestType :: u32
  requestedMode :: security_mode
  requestedLifetime :: u32
  clientNonce :: ustring

text \<open>The response: the nonce of the server and the token.\<close>

type_synonym open_response = "ustring \<times> security_token"

text \<open>\<open>UA_ByteString_copy\<close>; without memory the copy is empty.\<close>

definition chan_copy :: "ustring \<Rightarrow> 'k channel \<Rightarrow> status \<times> ustring \<times> 'k channel" where
  "chan_copy s ch =
     (if arr_length s = 0 then (GOOD, s, ch)
      else case chan_alloc ch of (ok, ch1) \<Rightarrow> if ok then (GOOD, s, ch1) else (BADOUTOFMEMORY, None, ch1))"

definition revised_lifetime :: "u32 \<Rightarrow> u32 \<Rightarrow> u32" where
  "revised_lifetime maximum requested =
     (let l = (if requested > maximum then maximum else requested) in if l = 0 then maximum else l)"

definition UA_SecureChannelManager_open ::
  "(nat \<Rightarrow> status \<times> u8 list) \<Rightarrow> nat \<Rightarrow> open_request \<Rightarrow> 'k server \<Rightarrow> (status \<times> open_response option \<times> 'k server) option" where
  "UA_SecureChannelManager_open gen a request sv = do {
     ch \<leftarrow> chans sv a;
     if state ch \<noteq> SECURECHANNELSTATE_FRESH then Some (BADINTERNALERROR, None, sv)
     else if requestedMode request \<noteq> MODE_NONE \<and> UA_String_equal (policyUri (securityPolicy ch)) UA_SECURITY_POLICY_NONE_URI
     then Some (BADSECURITYMODEREJECTED, None, sv)
     else let ch1 = ch\<lparr>securityMode := requestedMode request,
                      securityToken := (securityToken ch)\<lparr>channelId := lastChannelId sv, createdAt := nowWall sv,
                        revisedLifetime := revised_lifetime (maxSecurityTokenLifetime (limits sv)) (requestedLifetime request)\<rparr>\<rparr>;
              (r1, nonce, ch2) = chan_copy (clientNonce request) ch1;
              (r2, ch3) = UA_SecureChannel_generateLocalNonce gen (ch2\<lparr>remoteNonce := nonce\<rparr>);
              (r3, ch4) = UA_SecureChannel_generateNewKeys ch3;
              sv1 = sv\<lparr>lastChannelId := lastChannelId sv + 1\<rparr>
          in if r1 OR r2 OR r3 \<noteq> GOOD then Some (r1 OR r2 OR r3, None, set_chan a ch4 sv1)
             else let (r4, serverNonce, ch5) = chan_copy (localNonce ch4) ch4
                  in if r4 \<noteq> GOOD then Some (r4, None, set_chan a ch5 sv1)
                     else Some (GOOD, Some (serverNonce, securityToken ch5), set_chan a (ch5\<lparr>state := SECURECHANNELSTATE_OPEN\<rparr>) sv1) }"

definition UA_SecureChannelManager_renew ::
  "(nat \<Rightarrow> status \<times> u8 list) \<Rightarrow> nat \<Rightarrow> open_request \<Rightarrow> 'k server \<Rightarrow> (status \<times> open_response option \<times> 'k server) option" where
  "UA_SecureChannelManager_renew gen a request sv = do {
     ch \<leftarrow> chans sv a;
     if state ch \<noteq> SECURECHANNELSTATE_OPEN then Some (BADINTERNALERROR, None, sv)
     else let issue = (tokenId (nextSecurityToken ch) = 0);
              ch1 = (if issue
                     then ch\<lparr>nextSecurityToken := \<lparr>channelId = channelId (securityToken ch), tokenId = lastTokenId sv, createdAt = nowWall sv,
                               revisedLifetime = revised_lifetime (maxSecurityTokenLifetime (limits sv)) (requestedLifetime request)\<rparr>\<rparr>
                     else ch);
              sv1 = (if issue then sv\<lparr>lastTokenId := lastTokenId sv + 1\<rparr> else sv);
              (r1, nonce, ch2) = chan_copy (clientNonce request) ch1;
              (r2, ch3) = UA_SecureChannel_generateLocalNonce gen (ch2\<lparr>remoteNonce := nonce\<rparr>)
          in if r1 OR r2 \<noteq> GOOD then Some (r1 OR r2, None, set_chan a ch3 sv1)
             else let (r4, serverNonce, ch4) = chan_copy (localNonce ch3) ch3
                  in if r4 \<noteq> GOOD then Some (r4, None, set_chan a ch4 sv1)
                     else Some (GOOD, Some (serverNonce, nextSecurityToken ch4),
                            set_chan a (ch4\<lparr>nextSecurityToken := (nextSecurityToken ch4)\<lparr>createdAt := nowMonotonic sv1\<rparr>\<rparr>) sv1) }"

text \<open>The first channel with the identifier.\<close>

fun find_channel :: "u32 \<Rightarrow> nat list \<Rightarrow> 'k server \<Rightarrow> nat option option" where
  "find_channel i [] sv = Some None"
| "find_channel i (a # as) sv = do {
     ch \<leftarrow> chans sv a;
     if channelId (securityToken ch) = i then Some (Some a) else find_channel i as sv }"

definition UA_SecureChannelManager_get :: "u32 \<Rightarrow> 'k server \<Rightarrow> nat option option" where
  "UA_SecureChannelManager_get i sv = find_channel i (cmChannels sv) sv"

definition UA_SecureChannelManager_close :: "u32 \<Rightarrow> 'k server \<Rightarrow> (status \<times> 'k server) option" where
  "UA_SecureChannelManager_close i sv = do {
     found \<leftarrow> find_channel i (cmChannels sv) sv;
     (case found of None \<Rightarrow> Some (BADINTERNALERROR, sv) | Some a \<Rightarrow> Some (removeSecureChannel a sv)) }"

subsection \<open>Sessions\<close>

abbreviation (input) UA_SESSION_NONCELENTH :: nat where "UA_SESSION_NONCELENTH \<equiv> 32"

definition UA_Session_init :: server_session where
  "UA_Session_init = \<lparr>authenticationToken = NodeId_init, schannel = None, sessionId = NodeId_init, activated = False,
     maxRequestMessageSize = 0, maxResponseMessageSize = 0, stimeout = 0, validTill = 0, serverNonce = None, sessionName = None\<rparr>"

definition UA_Session_attachToSecureChannel :: "nat \<Rightarrow> nat \<Rightarrow> 'k server \<Rightarrow> 'k server option" where
  "UA_Session_attachToSecureChannel s a sv = do {
     se \<leftarrow> sess sv s;
     ch \<leftarrow> chans sv a;
     Some (set_sess s (se\<lparr>schannel := Some a\<rparr>) (set_chan a (ch\<lparr>sessions := s # sessions ch\<rparr>) sv)) }"

definition UA_Session_detachFromSecureChannel :: "nat \<Rightarrow> 'k server \<Rightarrow> 'k server option" where
  "UA_Session_detachFromSecureChannel s sv = do {
     se \<leftarrow> sess sv s;
     (case schannel se of
        None \<Rightarrow> Some sv
      | Some a \<Rightarrow> do { ch \<leftarrow> chans sv a;
                       Some (set_sess s (se\<lparr>schannel := None\<rparr>) (set_chan a (ch\<lparr>sessions := remove1 s (sessions ch)\<rparr>) sv)) }) }"

definition UA_Session_generateNonce :: "(nat \<Rightarrow> status \<times> u8 list) \<Rightarrow> nat \<Rightarrow> 'k server \<Rightarrow> (status \<times> 'k server) option" where
  "UA_Session_generateNonce gen s sv = do {
     se \<leftarrow> sess sv s;
     (case schannel se of
        None \<Rightarrow> Some (BADINTERNALERROR, sv)
      | Some a \<Rightarrow> do {
          ch \<leftarrow> chans sv a;
          let (ok, sv1) = (if arr_length (serverNonce se) \<noteq> UA_SESSION_NONCELENTH then salloc sv else (True, sv));
          if \<not> ok then Some (BADOUTOFMEMORY, set_sess s (se\<lparr>serverNonce := None\<rparr>) sv1)
          else (case gen UA_SESSION_NONCELENTH of
                  (r, bs) \<Rightarrow> Some (r, set_sess s (se\<lparr>serverNonce := Some bs\<rparr>) sv1)) }) }"

definition UA_Session_updateLifetime :: "nat \<Rightarrow> 'k server \<Rightarrow> 'k server option" where
  "UA_Session_updateLifetime s sv = do {
     se \<leftarrow> sess sv s;
     Some (set_sess s (se\<lparr>validTill := nowMonotonic sv + stimeout se * DATETIME_MSEC\<rparr>) sv) }"

text \<open>The memory of a session is released; its subscriptions are the subject of the theory Subscription.\<close>

definition UA_Session_deleteMembersCleanup :: "nat \<Rightarrow> 'k server \<Rightarrow> 'k server option" where
  "UA_Session_deleteMembersCleanup s sv = do {
     sv1 \<leftarrow> UA_Session_detachFromSecureChannel s sv;
     se \<leftarrow> sess sv1 s;
     Some (set_sess s (se\<lparr>authenticationToken := NodeId_init, sessionId := NodeId_init, sessionName := None, serverNonce := None\<rparr>) sv1) }"

subsection \<open>The session manager\<close>

definition UA_SessionManager_init :: "'k server \<Rightarrow> 'k server" where
  "UA_SessionManager_init sv = sv\<lparr>smSessions := [], currentSessionCount := 0\<rparr>"

definition removeSessionCallback :: "nat \<Rightarrow> 'k server \<Rightarrow> 'k server option" where
  "removeSessionCallback s sv = do {
     sv1 \<leftarrow> UA_Session_deleteMembersCleanup s sv;
     Some (sv1\<lparr>sess := (sess sv1)(s := None)\<rparr>) }"

fun delete_sessions :: "nat list \<Rightarrow> 'k server \<Rightarrow> 'k server option" where
  "delete_sessions [] sv = Some sv"
| "delete_sessions (s # ss) sv = do {
     sv1 \<leftarrow> removeSessionCallback s (sv\<lparr>smSessions := remove1 s (smSessions sv)\<rparr>);
     delete_sessions ss sv1 }"

definition UA_SessionManager_deleteMembers :: "'k server \<Rightarrow> 'k server option" where
  "UA_SessionManager_deleteMembers sv = delete_sessions (smSessions sv) sv"

definition removeSession :: "nat \<Rightarrow> 'k server \<Rightarrow> (status \<times> 'k server) option" where
  "removeSession s sv = do {
     sv1 \<leftarrow> UA_Session_detachFromSecureChannel s sv;
     se \<leftarrow> sess sv1 s;
     (case UA_Server_delayedCallback (RemoveSession s) (set_sess s (se\<lparr>activated := False\<rparr>) sv1) of
        (r, sv2) \<Rightarrow>
          if r \<noteq> GOOD then Some (r, sv2)
          else Some (GOOD, sv2\<lparr>smSessions := remove1 s (smSessions sv2), currentSessionCount := currentSessionCount sv2 - 1\<rparr>)) }"

fun cleanup_sessions :: "int \<Rightarrow> nat list \<Rightarrow> 'k server \<Rightarrow> 'k server option" where
  "cleanup_sessions now [] sv = Some sv"
| "cleanup_sessions now (s # ss) sv = do {
     se \<leftarrow> sess sv s;
     if validTill se \<ge> now then cleanup_sessions now ss sv
     else do { (r, sv1) \<leftarrow> removeSession s sv; cleanup_sessions now ss sv1 } }"

definition UA_SessionManager_cleanupTimedOut :: "int \<Rightarrow> 'k server \<Rightarrow> 'k server option" where
  "UA_SessionManager_cleanupTimedOut now sv = cleanup_sessions now (smSessions sv) sv"

text \<open>The first session with a property; a session that has timed out is not returned, and the search ends with it.\<close>

fun find_session :: "(server_session \<Rightarrow> bool) \<Rightarrow> nat list \<Rightarrow> 'k server \<Rightarrow> nat option option" where
  "find_session p [] sv = Some None"
| "find_session p (s # ss) sv = do {
     se \<leftarrow> sess sv s;
     if \<not> p se then find_session p ss sv
     else if nowMonotonic sv > validTill se then Some None else Some (Some s) }"

definition UA_SessionManager_getSessionByToken :: "nodeid \<Rightarrow> 'k server \<Rightarrow> nat option option" where
  "UA_SessionManager_getSessionByToken token sv = find_session (\<lambda>se. UA_NodeId_equal (authenticationToken se) token) (smSessions sv) sv"

definition UA_SessionManager_getSessionById :: "nodeid \<Rightarrow> 'k server \<Rightarrow> nat option option" where
  "UA_SessionManager_getSessionById i sv = find_session (\<lambda>se. UA_NodeId_equal (sessionId se) i) (smSessions sv) sv"

text \<open>\<open>ids\<close> are the two random Guids; the requested timeout is \<open>None\<close> if it is not a number.\<close>

definition UA_SessionManager_createSession ::
  "guid \<times> guid \<Rightarrow> int option \<Rightarrow> 'k server \<Rightarrow> (status \<times> nat option \<times> 'k server) option" where
  "UA_SessionManager_createSession ids requestedSessionTimeout sv =
     (if currentSessionCount sv \<ge> ucast (maxSessions (limits sv)) then Some (BADTOOMANYSESSIONS, None, sv)
      else case malloc sv of
        (None, sv1) \<Rightarrow> Some (BADOUTOFMEMORY, None, sv1)
      | (Some s, sv1) \<Rightarrow> do {
          let maximum = maxSessionTimeout (limits sv1);
          let timeout = (case requestedSessionTimeout of None \<Rightarrow> maximum | Some t \<Rightarrow> if t \<le> maximum \<and> t > 0 then t else maximum);
          sv2 \<leftarrow> UA_Session_updateLifetime s
            (set_sess s (UA_Session_init\<lparr>sessionId := \<lparr>namespaceIndex = 1, nident = GuidId (fst ids)\<rparr>,
                           authenticationToken := \<lparr>namespaceIndex = 1, nident = GuidId (snd ids)\<rparr>, stimeout := timeout\<rparr>)
              (sv1\<lparr>currentSessionCount := currentSessionCount sv1 + 1\<rparr>));
          Some (GOOD, Some s, sv2\<lparr>smSessions := s # smSessions sv2\<rparr>) })"

fun find_token :: "nodeid \<Rightarrow> nat list \<Rightarrow> 'k server \<Rightarrow> nat option option" where
  "find_token token [] sv = Some None"
| "find_token token (s # ss) sv = do {
     se \<leftarrow> sess sv s;
     if UA_NodeId_equal (authenticationToken se) token then Some (Some s) else find_token token ss sv }"

definition UA_SessionManager_removeSession :: "nodeid \<Rightarrow> 'k server \<Rightarrow> (status \<times> 'k server) option" where
  "UA_SessionManager_removeSession token sv = do {
     found \<leftarrow> find_token token (smSessions sv) sv;
     (case found of None \<Rightarrow> Some (BADSESSIONIDINVALID, sv) | Some s \<Rightarrow> removeSession s sv) }"

subsection \<open>Delayed callbacks\<close>

definition run_callback :: "delayed_callback \<Rightarrow> 'k server \<Rightarrow> 'k server option" where
  "run_callback d sv = (case d of RemoveChannel a \<Rightarrow> removeSecureChannelCallback a sv | RemoveSession s \<Rightarrow> removeSessionCallback s sv)"

fun run_delayed :: "delayed_callback list \<Rightarrow> 'k server \<Rightarrow> 'k server option" where
  "run_delayed [] sv = Some sv"
| "run_delayed (d # ds) sv = do {
     sv1 \<leftarrow> run_callback d (sv\<lparr>delayedCallbacks := remove1 d (delayedCallbacks sv)\<rparr>);
     run_delayed ds sv1 }"

definition UA_Server_cleanupDelayedCallbacks :: "'k server \<Rightarrow> 'k server option" where
  "UA_Server_cleanupDelayedCallbacks sv = run_delayed (delayedCallbacks sv) sv"

text \<open>The periodic clean-up of the server.\<close>

definition UA_Server_cleanup :: "'k server \<Rightarrow> 'k server option" where
  "UA_Server_cleanup sv = do {
     sv1 \<leftarrow> UA_SessionManager_cleanupTimedOut (nowMonotonic sv) sv;
     UA_SecureChannelManager_cleanupTimedOut (nowMonotonic sv) sv1 }"

text \<open>Deleting the server: the part that concerns channels and sessions.\<close>

definition UA_Server_delete :: "'k server \<Rightarrow> 'k server option" where
  "UA_Server_delete sv = do {
     sv1 \<leftarrow> UA_SecureChannelManager_deleteMembers sv;
     sv2 \<leftarrow> UA_SessionManager_deleteMembers sv1;
     UA_Server_cleanupDelayedCallbacks sv2 }"

end
