(* ===== verification/Secure_Channel_Receive.thy ===== *)
theory Secure_Channel_Receive
  imports Secure_Channel
begin

text \<open>
  Receiving over a secure channel (src/src/ua_securechannel.c, "Assemble Complete Message" and "Process a received Chunk").
  The function for complete messages is a parameter, as in the code; it gets the message type, the request identifier and the bytes, and
  works on the channel and the application. A result \<open>None\<close> is an access outside of the memory of the chunk.
\<close>

type_synonym ('k, 's) message_callback = "u32 \<Rightarrow> u32 \<Rightarrow> u8 list \<Rightarrow> 'k channel \<times> 's \<Rightarrow> status \<times> 'k channel \<times> 's"

subsection \<open>Assembling messages\<close>

fun remove_first :: "u32 \<Rightarrow> (u32 \<times> u8 list) list \<Rightarrow> (u32 \<times> u8 list) list" where
  "remove_first i [] = []"
| "remove_first i ((j, bs) # es) = (if j = i then es else (j, bs) # remove_first i es)"

fun set_first :: "u32 \<Rightarrow> u8 list \<Rightarrow> (u32 \<times> u8 list) list \<Rightarrow> (u32 \<times> u8 list) list" where
  "set_first i x [] = []"
| "set_first i x ((j, bs) # es) = (if j = i then (j, x) # es else (j, bs) # set_first i x es)"

definition UA_SecureChannel_removeChunks :: "u32 \<Rightarrow> 'k channel \<Rightarrow> 'k channel" where
  "UA_SecureChannel_removeChunks requestId ch = ch\<lparr>chunks := remove_first requestId (chunks ch)\<rparr>"

text \<open>The bytes are appended to the first entry with the identifier. When there is no memory, its bytes are deleted and it stays in the list.\<close>

definition appendChunk :: "u32 \<Rightarrow> u8 list \<Rightarrow> u8 list \<Rightarrow> 'k channel \<Rightarrow> status \<times> 'k channel" where
  "appendChunk requestId old chunkBody ch =
     (case chan_alloc ch of
        (ok, ch1) \<Rightarrow>
          if \<not> ok then (BADOUTOFMEMORY, ch1\<lparr>chunks := set_first requestId [] (chunks ch1)\<rparr>)
          else (GOOD, ch1\<lparr>chunks := set_first requestId (old @ chunkBody) (chunks ch1)\<rparr>))"

definition UA_SecureChannel_appendChunk :: "u32 \<Rightarrow> u8 list \<Rightarrow> 'k channel \<Rightarrow> status \<times> 'k channel" where
  "UA_SecureChannel_appendChunk requestId chunkBody ch =
     (case map_of (chunks ch) requestId of
        Some old \<Rightarrow> appendChunk requestId old chunkBody ch
      | None \<Rightarrow>
          (case chan_alloc ch of
             (ok, ch1) \<Rightarrow>
               if \<not> ok then (BADOUTOFMEMORY, ch1)
               else appendChunk requestId [] chunkBody (ch1\<lparr>chunks := (requestId, []) # chunks ch1\<rparr>)))"

definition UA_SecureChannel_finalizeChunk ::
  "u32 \<Rightarrow> u8 list \<Rightarrow> u32 \<Rightarrow> ('k, 's) message_callback \<Rightarrow> 'k channel \<times> 's \<Rightarrow> status \<times> 'k channel \<times> 's" where
  "UA_SecureChannel_finalizeChunk requestId chunkBody messageType cb w =
     (case w of (ch, a) \<Rightarrow>
        case map_of (chunks ch) requestId of
          None \<Rightarrow> cb messageType requestId chunkBody (ch, a)
        | Some old \<Rightarrow>
            (case appendChunk requestId old chunkBody ch of
               (r, ch1) \<Rightarrow>
                 if r \<noteq> GOOD then (r, ch1, a)
                 else cb messageType requestId (old @ chunkBody)
                        (ch1\<lparr>chunks := remove_first requestId (chunks ch1)\<rparr>, a)))"

subsection \<open>Decryption\<close>

text \<open>
  \<open>decryptChunk m isOpn chunk offset ch\<close> gives the request identifier, the sequence number and the payload. The steps are those of the code:
  decryption in place, which can shorten the text (\<open>n\<close> is \<open>chunkSizeAfterDecryption\<close>); the size of the padding, read from the last
  bytes before the signature; the check of the sizes; the signature; the sequence header; and the second check of the sizes, which
  uses the length of the chunk before decryption.
\<close>

definition padding_size :: "'k crypto \<Rightarrow> bool \<Rightarrow> u8 list \<Rightarrow> nat \<Rightarrow> nat \<Rightarrow> 'k channel \<Rightarrow> nat option" where
  "padding_size m isOpn data n sigsize ch =
     (if encrypted ch \<or> (isOpn \<and> signed ch)
      then if n < sigsize + 1 then None
           else if encryptionRemoteKeyLength m (channelContext ch) > 2048
           then if n < sigsize + 2 then None
                else Some (unat (data ! (n - sigsize - 1)) * 256 + unat (data ! (n - sigsize - 2)) + 1 + 1)
           else Some (unat (data ! (n - sigsize - 1)) + 1)
      else Some 0)"

definition decryptChunk ::
  "'k crypto \<Rightarrow> bool \<Rightarrow> u8 list \<Rightarrow> nat \<Rightarrow> 'k channel \<Rightarrow> (status + u32 \<times> u32 \<times> u8 list) option" where
  "decryptChunk m isOpn chunk offset ch =
     (let k = channelContext ch;
          (r, region, plain) = (if encrypted ch \<or> isOpn then decrypt m k (drop offset chunk)
                                else (GOOD, drop offset chunk, length chunk - offset));
          data = take offset chunk @ region;
          n = length chunk - (length chunk - offset - plain)
      in if r \<noteq> GOOD then Some (Inl r)
         else let sigsize = (if signed ch \<or> isOpn then getRemoteSignatureSize m k else 0)
              in case (if signed ch \<or> isOpn then padding_size m isOpn data n sigsize ch else Some 0) of
                   None \<Rightarrow> None
                 | Some padding \<Rightarrow>
                     if (signed ch \<or> isOpn) \<and> offset + padding + sigsize \<ge> n then Some (Inl BADSECURITYCHECKSFAILED)
                     else let r1 = (if signed ch \<or> isOpn
                                    then verify m k (take (n - sigsize) data) (take sigsize (drop (n - sigsize) data))
                                    else GOOD)
                          in if r1 \<noteq> GOOD then Some (Inl r1)
                             else if offset + 8 > length data then Some (Inl BADDECODINGERROR)
                             else if offset + 8 + padding + sigsize \<ge> length data then Some (Inl BADSECURITYCHECKSFAILED)
                             else if n < offset + 8 + sigsize + padding then None
                             else Some (Inr (UA_decode32 (take 4 (drop (offset + 4) data)),
                                             UA_decode32 (take 4 (drop offset data)),
                                             take (n - (offset + 8) - sigsize - padding) (drop (offset + 8) data))))"

subsection \<open>Sequence numbers and headers\<close>

definition processSequenceNumberAsym :: "u32 \<Rightarrow> 'k channel \<Rightarrow> status \<times> 'k channel" where
  "processSequenceNumberAsym sequenceNumber ch = (GOOD, ch\<lparr>receiveSequenceNumber := sequenceNumber\<rparr>)"

definition processSequenceNumberSym :: "u32 \<Rightarrow> 'k channel \<Rightarrow> status \<times> 'k channel" where
  "processSequenceNumberSym sequenceNumber ch =
     (if sequenceNumber \<noteq> receiveSequenceNumber ch + 1 then
        (if receiveSequenceNumber ch + 1 > 4294966271 \<and> sequenceNumber < 1024
         then (GOOD, ch\<lparr>receiveSequenceNumber := sequenceNumber - 1 + 1\<rparr>)
         else (BADSECURITYCHECKSFAILED, ch))
      else (GOOD, ch\<lparr>receiveSequenceNumber := receiveSequenceNumber ch + 1\<rparr>))"

record asym_header =
  securityPolicyUri :: ustring
  senderCertificate :: ustring
  receiverCertificateThumbprint :: ustring

text \<open>The three strings, in this order, stopping at the first that fails.\<close>

definition AsymmetricAlgorithmSecurityHeader_decodeBinary :: "u8 list \<Rightarrow> nat \<Rightarrow> status \<times> asym_header \<times> nat" where
  "AsymmetricAlgorithmSecurityHeader_decodeBinary chunk offset =
     (let h0 = \<lparr>securityPolicyUri = None, senderCertificate = None, receiverCertificateThumbprint = None\<rparr>;
          (r1, s1, d1) = String_decodeBinary \<lparr>dbuf = chunk, dpos = offset, ddepth = 0\<rparr>
      in if r1 \<noteq> GOOD then (r1, h0, offset)
         else let (r2, s2, d2) = String_decodeBinary d1
              in if r2 \<noteq> GOOD then (r2, h0, offset)
                 else let (r3, s3, d3) = String_decodeBinary d2
                      in if r3 \<noteq> GOOD then (r3, h0, offset)
                         else (GOOD, \<lparr>securityPolicyUri = s1, senderCertificate = s2, receiverCertificateThumbprint = s3\<rparr>, dpos d3))"

definition checkAsymHeader :: "asym_header \<Rightarrow> 'k channel \<Rightarrow> status" where
  "checkAsymHeader h ch =
     (if \<not> UA_String_equal (policyUri (securityPolicy ch)) (securityPolicyUri h) then BADSECURITYPOLICYREJECTED
      else compareCertificateThumbprint (securityPolicy ch) (receiverCertificateThumbprint h))"

definition checkSymHeader :: "u32 \<Rightarrow> 'k channel \<Rightarrow> status \<times> 'k channel" where
  "checkSymHeader token ch =
     (if token \<noteq> tokenId (securityToken ch)
      then (if token \<noteq> tokenId (nextSecurityToken ch) then (BADSECURECHANNELTOKENUNKNOWN, ch)
            else UA_SecureChannel_revolveTokens ch)
      else (GOOD, ch))"

subsection \<open>A received chunk\<close>

text \<open>What happens with the payload of a chunk that passed all checks.\<close>

definition process_payload ::
  "u32 \<Rightarrow> u32 \<Rightarrow> u32 \<Rightarrow> u8 list \<Rightarrow> ('k, 's) message_callback \<Rightarrow> 'k channel \<times> 's \<Rightarrow> status \<times> 'k channel \<times> 's" where
  "process_payload messageType chunkType requestId payload cb w =
     (case w of (ch, a) \<Rightarrow>
        if chunkType = CHUNKTYPE_FINAL then UA_SecureChannel_finalizeChunk requestId payload messageType cb (ch, a)
        else if chunkType = CHUNKTYPE_INTERMEDIATE
        then (case UA_SecureChannel_appendChunk requestId payload ch of (r, ch1) \<Rightarrow> (r, ch1, a))
        else if chunkType = CHUNKTYPE_ABORT then (GOOD, UA_SecureChannel_removeChunks requestId ch, a)
        else (BADTCPMESSAGETYPEINVALID, ch, a))"

definition process_secured ::
  "'k crypto \<Rightarrow> bool \<Rightarrow> u32 \<Rightarrow> u32 \<Rightarrow> u8 list \<Rightarrow> nat \<Rightarrow> ('k, 's) message_callback \<Rightarrow> 'k channel \<times> 's
     \<Rightarrow> (status \<times> 'k channel \<times> 's) option" where
  "process_secured m isOpn messageType chunkType chunk offset cb w =
     (case decryptChunk m isOpn chunk offset (fst w) of
        None \<Rightarrow> None
      | Some (Inl r) \<Rightarrow> Some (r, w)
      | Some (Inr (requestId, sequenceNumber, payload)) \<Rightarrow>
          (case (if isOpn then processSequenceNumberAsym sequenceNumber (fst w)
                 else processSequenceNumberSym sequenceNumber (fst w)) of
             (r, ch1) \<Rightarrow>
               if r \<noteq> GOOD then Some (r, ch1, snd w)
               else Some (process_payload messageType chunkType requestId payload cb (ch1, snd w))))"

definition UA_SecureChannel_processChunk ::
  "('k, 's) message_callback \<Rightarrow> u8 list \<Rightarrow> 'k channel \<times> 's \<Rightarrow> (status \<times> 'k channel \<times> 's) option" where
  "UA_SecureChannel_processChunk cb chunk w =
     (case w of (ch, a) \<Rightarrow>
        if length chunk < 12 then Some (BADDECODINGERROR, w)
        else let messageTypeAndChunkType = UA_decode32 (take 4 chunk);
                 secureChannelId = UA_decode32 (take 4 (drop 8 chunk));
                 messageType = messageTypeAndChunkType AND 0x00ffffff;
                 chunkType = messageTypeAndChunkType AND 0xff000000
             in if secureChannelId \<noteq> channelId (securityToken ch) \<and> state ch \<noteq> SECURECHANNELSTATE_FRESH
                then Some (BADSECURECHANNELIDINVALID, w)
                else if messageType = MESSAGETYPE_ERR
                then (if chunkType \<noteq> CHUNKTYPE_FINAL then Some (BADTCPMESSAGETYPEINVALID, w)
                      else Some (cb messageType 0 (drop 12 chunk) (ch, a)))
                else if messageType = MESSAGETYPE_MSG \<or> messageType = MESSAGETYPE_CLO
                then (if length chunk < 16 then Some (BADDECODINGERROR, w)
                      else case checkSymHeader (UA_decode32 (take 4 (drop 12 chunk))) ch of
                        (r, ch1) \<Rightarrow>
                          if r \<noteq> GOOD then Some (r, ch1, a)
                          else process_secured (symmetricModule (securityPolicy ch1)) False messageType chunkType chunk 16 cb (ch1, a))
                else if messageType = MESSAGETYPE_OPN
                then (if chunkType \<noteq> CHUNKTYPE_FINAL then Some (BADTCPMESSAGETYPEINVALID, w)
                      else case AsymmetricAlgorithmSecurityHeader_decodeBinary chunk 12 of
                        (r, h, offset) \<Rightarrow>
                          if r \<noteq> GOOD then Some (r, w)
                          else let r1 = checkAsymHeader h ch
                               in if r1 \<noteq> GOOD then Some (r1, w)
                                  else process_secured (asymmetricModule (securityPolicy ch)) True messageType chunkType chunk offset cb (ch, a))
                else Some (BADTCPMESSAGETYPEINVALID, w))"

subsection \<open>Chunks of a connection\<close>

text \<open>
  The function that a connection with a channel calls for complete chunks (src/src/server/ua_server_binary.c). The
  message callback can use the connection. A channel that accessed memory outside of the chunk has no state any more.
\<close>

definition processCompleteChunk ::
  "('k, connection \<times> 's) message_callback \<Rightarrow> ('k channel \<times> 's) option chunk_callback" where
  "processCompleteChunk cb chunk w =
     (case w of
        (c, None) \<Rightarrow> (BADINTERNALERROR, c, None)
      | (c, Some (ch, a)) \<Rightarrow>
          (case UA_SecureChannel_processChunk cb chunk (ch, c, a) of
             None \<Rightarrow> (BADINTERNALERROR, c, None)
           | Some (r, ch1, c1, a1) \<Rightarrow> (r, c1, Some (ch1, a1))))"

end
