(* ===== verification/Server_Services.thy ===== *)
theory Server_Services
  imports Server_Channels Secure_Channel_Receive
begin

text \<open>
  The services that work on channels and sessions (src/src/server/ua_services_securechannel.c and ua_services_session.c), the greeting of a
  connection and the choice of the session for a request (src/src/server/ua_server_binary.c).

  Random numbers (\<open>gen\<close>), the answer of the access control and the cryptography of the policy are arguments. Allocations for parts of
  a response whose result is not looked at take no answer of the allocator.
\<close>

abbreviation (input) BADCERTIFICATEINVALID :: status where "BADCERTIFICATEINVALID \<equiv> 0x80120000"
abbreviation (input) BADNONCEINVALID :: status where "BADNONCEINVALID \<equiv> 0x80240000"
abbreviation (input) BADSESSIONNOTACTIVATED :: status where "BADSESSIONNOTACTIVATED \<equiv> 0x80270000"

subsection \<open>Greeting\<close>

record tcp_hello =
  helProtocolVersion :: u32
  helReceiveBufferSize :: u32
  helSendBufferSize :: u32
  helMaxMessageSize :: u32
  helMaxChunkCount :: u32

text \<open>Five integers and the endpoint URL, which is not used.\<close>

definition UA_TcpHelloMessage_decodeBinary :: "u8 list \<Rightarrow> nat \<Rightarrow> status + tcp_hello" where
  "UA_TcpHelloMessage_decodeBinary msg offset =
     (let d = \<lparr>dbuf = msg, dpos = offset, ddepth = 0\<rparr>;
          (r1, v1, d1) = UInt32_decodeBinary d in if r1 \<noteq> GOOD then Inl r1
      else let (r2, v2, d2) = UInt32_decodeBinary d1 in if r2 \<noteq> GOOD then Inl r2
      else let (r3, v3, d3) = UInt32_decodeBinary d2 in if r3 \<noteq> GOOD then Inl r3
      else let (r4, v4, d4) = UInt32_decodeBinary d3 in if r4 \<noteq> GOOD then Inl r4
      else let (r5, v5, d5) = UInt32_decodeBinary d4 in if r5 \<noteq> GOOD then Inl r5
      else let (r6, v6, d6) = String_decodeBinary d5 in if r6 \<noteq> GOOD then Inl r6
      else Inr \<lparr>helProtocolVersion = v1, helReceiveBufferSize = v2, helSendBufferSize = v3, helMaxMessageSize = v4,
                helMaxChunkCount = v5\<rparr>)"

definition ack_message :: "connection_config \<Rightarrow> u8 list" where
  "ack_message conf = UA_encode32 (MESSAGETYPE_ACK + CHUNKTYPE_FINAL) @ UA_encode32 28 @ UA_encode32 (protocolVersion conf)
     @ UA_encode32 (recvBufferSize conf) @ UA_encode32 (sendBufferSize conf) @ UA_encode32 (maxMessageSize conf)
     @ UA_encode32 (maxChunkCount conf)"

text \<open>The settings of the connection after the greeting: no side sends more than the other takes.\<close>

definition negotiate :: "tcp_hello \<Rightarrow> connection \<Rightarrow> connection" where
  "negotiate h cn =
     cn\<lparr>remoteConf := \<lparr>protocolVersion = helProtocolVersion h, sendBufferSize = helSendBufferSize h,
                        recvBufferSize = helReceiveBufferSize h, maxMessageSize = helMaxMessageSize h, maxChunkCount = helMaxChunkCount h\<rparr>,
        localConf := (localConf cn)\<lparr>sendBufferSize := min (sendBufferSize (localConf cn)) (helReceiveBufferSize h),
                                     recvBufferSize := min (recvBufferSize (localConf cn)) (helSendBufferSize h)\<rparr>\<rparr>"

definition processHEL :: "u8 list \<Rightarrow> nat \<Rightarrow> connection \<Rightarrow> status \<times> connection" where
  "processHEL msg offset cn =
     (case UA_TcpHelloMessage_decodeBinary msg offset of
        Inl r \<Rightarrow> (r, cn)
      | Inr h \<Rightarrow>
          let cn1 = negotiate h cn
          in if recvBufferSize (remoteConf cn1) = 0 then (BADINTERNALERROR, cn1)
             else let cn2 = cn1\<lparr>cstate := CONNECTION_ESTABLISHED\<rparr>;
                      (r, cn3) = connection_getsendbuffer (unat (sendBufferSize (localConf cn2))) cn2
                  in if r \<noteq> GOOD then (r, cn3)
                     else if unat (sendBufferSize (localConf cn3)) < 28 then (BADENCODINGERROR, cn3)
                     else connection_write (ack_message (localConf cn3)) cn3)"

subsection \<open>Channel services\<close>

definition Service_OpenSecureChannel ::
  "(nat \<Rightarrow> status \<times> u8 list) \<Rightarrow> nat \<Rightarrow> open_request \<Rightarrow> 'k server \<Rightarrow> (status \<times> open_response option \<times> 'k server) option" where
  "Service_OpenSecureChannel gen a request sv =
     (if requestType request = 1 then UA_SecureChannelManager_renew gen a request sv
      else if requestType request \<noteq> 0 then Some (BADINTERNALERROR, None, sv)
      else UA_SecureChannelManager_open gen a request sv)"

definition Service_CloseSecureChannel :: "nat \<Rightarrow> 'k server \<Rightarrow> 'k server option" where
  "Service_CloseSecureChannel a sv = do {
     ch \<leftarrow> chans sv a;
     (r, sv1) \<leftarrow> UA_SecureChannelManager_close (channelId (securityToken ch)) sv;
     Some sv1 }"

text \<open>
  An OPN message after decoding. The message is not a request to open a channel (\<open>Inl\<close>, with the status of the decoder, which is GOOD
  for a request of another type), or the service is called and the response is sent (with the status \<open>sent\<close>). When something fails, the channel is closed
  by its identifier.
\<close>

definition processOPN ::
  "(nat \<Rightarrow> status \<times> u8 list) \<Rightarrow> status \<Rightarrow> nat \<Rightarrow> status + open_request \<Rightarrow> 'k server \<Rightarrow> (status \<times> 'k server) option" where
  "processOPN gen sent a message sv =
     (case message of
        Inl r \<Rightarrow> do { sv1 \<leftarrow> Service_CloseSecureChannel a sv; Some (r, sv1) }
      | Inr request \<Rightarrow> do {
          (r, resp, sv1) \<leftarrow> Service_OpenSecureChannel gen a request sv;
          if r \<noteq> GOOD then do { sv2 \<leftarrow> Service_CloseSecureChannel a sv1; Some (r, sv2) }
          else if sent \<noteq> GOOD then do { sv2 \<leftarrow> Service_CloseSecureChannel a sv1; Some (sent, sv2) }
          else Some (GOOD, sv1) })"

subsection \<open>A chunk on a connection without a channel\<close>

text \<open>The first endpoint whose policy fits; \<open>endpoints\<close> are the policies of the endpoints.\<close>

definition createSecureChannel ::
  "'k policy list \<Rightarrow> 'k \<Rightarrow> bool list \<Rightarrow> nat \<Rightarrow> asym_header \<Rightarrow> 'k server \<Rightarrow> (status \<times> 'k server) option" where
  "createSecureChannel endpoints k0 as c asymHeader sv =
     (case find (\<lambda>P. UA_String_equal (securityPolicyUri asymHeader) (policyUri P)
                     \<and> compareCertificateThumbprint P (receiverCertificateThumbprint asymHeader) = GOOD) endpoints of
        None \<Rightarrow> Some (BADSECURITYPOLICYREJECTED, sv)
      | Some P \<Rightarrow> UA_SecureChannelManager_create c P (senderCertificate asymHeader) k0 as sv)"

text \<open>
  Only HEL and OPN are possible. The second result says that the chunk goes on to the new channel (\<open>UA_SecureChannel_processChunk\<close>).
\<close>

definition processCompleteChunkWithoutChannel ::
  "'k policy list \<Rightarrow> 'k \<Rightarrow> bool list \<Rightarrow> nat \<Rightarrow> u8 list \<Rightarrow> 'k server \<Rightarrow> (status \<times> bool \<times> 'k server) option" where
  "processCompleteChunkWithoutChannel endpoints k0 as c message sv = do {
     cn \<leftarrow> conns sv c;
     if length message < 8 then Some (BADDECODINGERROR, False, sv)
     else let messageType = UA_decode32 (take 4 message) AND 0x00ffffff
          in if messageType = MESSAGETYPE_HEL
             then (case processHEL message 8 cn of (r, cn1) \<Rightarrow> Some (r, False, set_conn c cn1 sv))
             else if messageType = MESSAGETYPE_OPN
             then (if cstate cn \<noteq> CONNECTION_ESTABLISHED then Some (BADCOMMUNICATIONERROR, False, sv)
                   else case AsymmetricAlgorithmSecurityHeader_decodeBinary message 12 of
                     (r, asymHeader, offset) \<Rightarrow>
                       if r \<noteq> GOOD then Some (r, False, sv)
                       else do {
                         (r1, sv1) \<leftarrow> createSecureChannel endpoints k0 as c asymHeader sv;
                         Some (r1, r1 = GOOD, sv1) })
             else Some (BADTCPMESSAGETYPEINVALID, False, sv) }"

subsection \<open>Session services\<close>

record create_request =
  clientCertificate :: ustring
  createNonce :: ustring
  requestedSessionTimeout :: "int option"
  requestMaxResponse :: u32
  requestSessionName :: ustring

text \<open>Several allocations; all of them are done.\<close>

fun salloc_all :: "nat \<Rightarrow> 'k server \<Rightarrow> bool \<times> 'k server" where
  "salloc_all 0 sv = (True, sv)"
| "salloc_all (Suc n) sv = (let (b, sv1) = salloc sv; (bs, sv2) = salloc_all n sv1 in (b \<and> bs, sv2))"

definition signCreateSessionResponse :: "nat \<Rightarrow> create_request \<Rightarrow> 'k server \<Rightarrow> (status \<times> u8 list \<times> 'k server) option" where
  "signCreateSessionResponse a request sv = do {
     ch \<leftarrow> chans sv a;
     if \<not> signed ch then Some (GOOD, [], sv)
     else case salloc_all 2 sv of
       (False, sv1) \<Rightarrow> Some (BADOUTOFMEMORY, [], sv1)
     | (True, sv1) \<Rightarrow>
         (case salloc sv1 of
            (False, sv2) \<Rightarrow> Some (BADOUTOFMEMORY, [], sv2)
          | (True, sv2) \<Rightarrow>
              (case sign (certificateSigningAlgorithm (securityPolicy ch)) (channelContext ch)
                      (arr_list (clientCertificate request) @ arr_list (createNonce request)) of
                 (r, s) \<Rightarrow> Some (r, s, sv2))) }"

text \<open>The checks before a session is created.\<close>

definition create_checks :: "create_request \<Rightarrow> 'k channel \<Rightarrow> status" where
  "create_checks request ch =
     (if chanConnection ch = None then BADINTERNALERROR
      else if signed ch \<and> \<not> UA_String_equal (clientCertificate request) (remoteCertificate ch) then BADCERTIFICATEINVALID
      else if channelId (securityToken ch) = 0 then BADSECURECHANNELIDINVALID
      else if \<not> UA_String_equal (policyUri (securityPolicy ch)) UA_SECURITY_POLICY_NONE_URI \<and> arr_length (createNonce request) < 32
      then BADNONCEINVALID else GOOD)"

text \<open>
  \<open>endpoints\<close> is the number of endpoints of the server, whose descriptions are copied. The status of copying the session name and the
  server certificate is overwritten by the status of generating the nonce.
\<close>

definition Service_CreateSession ::
  "(nat \<Rightarrow> status \<times> u8 list) \<Rightarrow> guid \<times> guid \<Rightarrow> nat \<Rightarrow> nat \<Rightarrow> create_request \<Rightarrow> 'k server \<Rightarrow> (status \<times> nat option \<times> 'k server) option" where
  "Service_CreateSession gen ids endpoints a request sv = do {
     ch \<leftarrow> chans sv a;
     let r0 = create_checks request ch;
     if r0 \<noteq> GOOD then Some (r0, None, sv)
     else case salloc_all (if endpoints = 0 then 0 else 1 + endpoints) sv of
       (False, sv1) \<Rightarrow> Some (BADOUTOFMEMORY, None, sv1)
     | (True, sv1) \<Rightarrow> do {
         (r1, created, sv2) \<leftarrow> UA_SessionManager_createSession ids (requestedSessionTimeout request) sv1;
         (case created of
            None \<Rightarrow> Some (r1, None, sv2)
          | Some s \<Rightarrow> do {
              sv3 \<leftarrow> UA_Session_attachToSecureChannel s a sv2;
              c \<leftarrow> chanConnection ch;
              cn \<leftarrow> conns sv3 c;
              let (named, sv4) = (if arr_length (requestSessionName request) = 0 then (True, sv3) else salloc sv3);
              se \<leftarrow> sess sv4 s;
              let sv5 = set_sess s (se\<lparr>maxResponseMessageSize := requestMaxResponse request,
                                       maxRequestMessageSize := maxMessageSize (localConf cn),
                                       sessionName := (if named then requestSessionName request else None)\<rparr>) sv4;
              (r2, sv6) \<leftarrow> UA_Session_generateNonce gen s sv5;
              let (copied, sv7) = salloc sv6;
              (r3, signature, sv8) \<leftarrow> signCreateSessionResponse a request sv7;
              let r = r2 OR (if copied then GOOD else BADOUTOFMEMORY) OR r3;
              if r \<noteq> GOOD then do {
                se8 \<leftarrow> sess sv8 s;
                (r4, sv9) \<leftarrow> UA_SessionManager_removeSession (authenticationToken se8) sv8;
                Some (r, None, sv9) }
              else Some (GOOD, Some s, sv8) }) } }"

definition checkSignature :: "nat \<Rightarrow> nat \<Rightarrow> u8 list \<Rightarrow> 'k server \<Rightarrow> (status \<times> 'k server) option" where
  "checkSignature a s signature sv = do {
     ch \<leftarrow> chans sv a;
     se \<leftarrow> sess sv s;
     if \<not> signed ch then Some (GOOD, sv)
     else case salloc sv of
       (False, sv1) \<Rightarrow> Some (BADOUTOFMEMORY, sv1)
     | (True, sv1) \<Rightarrow> Some (verify (certificateSigningAlgorithm (securityPolicy ch)) (channelContext ch)
                               (arr_list (localCertificate (securityPolicy ch)) @ arr_list (serverNonce se)) signature, sv1) }"

text \<open>\<open>access\<close> is the answer of the access control for the identity token of the user.\<close>

definition Service_ActivateSession ::
  "(nat \<Rightarrow> status \<times> u8 list) \<Rightarrow> status \<Rightarrow> nat \<Rightarrow> nat \<Rightarrow> u8 list \<Rightarrow> 'k server \<Rightarrow> (status \<times> 'k server) option" where
  "Service_ActivateSession gen access a s signature sv = do {
     se \<leftarrow> sess sv s;
     if validTill se < nowMonotonic sv then Some (BADSESSIONIDINVALID, sv)
     else do {
       (r1, sv1) \<leftarrow> checkSignature a s signature sv;
       if r1 \<noteq> GOOD then Some (r1, sv1)
       else if access \<noteq> GOOD then Some (access, sv1)
       else do {
         sv2 \<leftarrow> (if schannel se \<noteq> None \<and> schannel se \<noteq> Some a
                   then do { sv' \<leftarrow> UA_Session_detachFromSecureChannel s sv1; UA_Session_attachToSecureChannel s a sv' }
                   else Some sv1);
         se2 \<leftarrow> sess sv2 s;
         sv3 \<leftarrow> UA_Session_updateLifetime s (set_sess s (se2\<lparr>activated := True\<rparr>) sv2);
         (r3, sv4) \<leftarrow> UA_Session_generateNonce gen s sv3;
         let (copied, sv5) = salloc sv4;
         let r = r3 OR (if copied then GOOD else BADOUTOFMEMORY);
         if r \<noteq> GOOD then do {
           sv6 \<leftarrow> UA_Session_detachFromSecureChannel s sv5;
           se6 \<leftarrow> sess sv6 s;
           Some (r, set_sess s (se6\<lparr>activated := False\<rparr>) sv6) }
         else Some (GOOD, sv5) } } }"

definition Service_CloseSession :: "nat \<Rightarrow> 'k server \<Rightarrow> (status \<times> 'k server) option" where
  "Service_CloseSession s sv = do {
     se \<leftarrow> sess sv s;
     UA_SessionManager_removeSession (authenticationToken se) sv }"

subsection \<open>The session of a request\<close>

text \<open>A request of a client is answered with a fault, or processed in a session or without one.\<close>

datatype request_session = Fault status | Anonymous | InSession nat

definition token_of :: "'k server \<Rightarrow> nat \<Rightarrow> nodeid" where
  "token_of sv s = authenticationToken (the (sess sv s))"

definition request_session_of :: "nat \<Rightarrow> nodeid \<Rightarrow> 'k server \<Rightarrow> nat option option" where
  "request_session_of a token sv = do {
     ch \<leftarrow> chans sv a;
     if \<not> list_all (\<lambda>s. sess sv s \<noteq> None) (sessions ch) then None
     else case UA_SecureChannel_getSession (token_of sv) token ch of
       Some s \<Rightarrow> Some (Some s)
     | None \<Rightarrow> if UA_NodeId_isNull token then Some None else UA_SessionManager_getSessionByToken token sv }"

text \<open>ActivateSession only needs a session that exists.\<close>

definition process_activate ::
  "(nat \<Rightarrow> status \<times> u8 list) \<Rightarrow> status \<Rightarrow> nat \<Rightarrow> nodeid \<Rightarrow> u8 list \<Rightarrow> 'k server \<Rightarrow> (status \<times> 'k server) option" where
  "process_activate gen access a token signature sv = do {
     found \<leftarrow> request_session_of a token sv;
     (case found of
        None \<Rightarrow> Some (BADSESSIONIDINVALID, sv)
      | Some s \<Rightarrow> Service_ActivateSession gen access a s signature sv) }"

text \<open>Other services: the session has to be activated (else it is removed) and bound to the channel of the request.\<close>

definition process_request :: "bool \<Rightarrow> nat \<Rightarrow> nodeid \<Rightarrow> 'k server \<Rightarrow> (request_session \<times> 'k server) option" where
  "process_request sessionRequired a token sv = do {
     found \<leftarrow> request_session_of a token sv;
     (case found of
        None \<Rightarrow> if sessionRequired then Some (Fault BADSESSIONIDINVALID, sv) else Some (Anonymous, sv)
      | Some s \<Rightarrow> do {
          se \<leftarrow> sess sv s;
          if sessionRequired \<and> \<not> activated se
          then do { (r, sv1) \<leftarrow> UA_SessionManager_removeSession (authenticationToken se) sv; Some (Fault BADSESSIONNOTACTIVATED, sv1) }
          else if schannel se \<noteq> Some a then Some (Fault BADSESSIONNOTACTIVATED, sv)
          else do { sv1 \<leftarrow> UA_Session_updateLifetime s sv; Some (InSession s, sv1) } }) }"

end
