(* ===== verification/Server_Invariant.thy ===== *)
theory Server_Invariant
  imports Server_Services
begin

text \<open>
  The invariant of the objects of a server. \<open>linked\<close>: the pointers between connections and channels and between channels and sessions are mutual,
  so none of them dangles. \<open>counted\<close>: the objects in memory are exactly those in the lists of the managers and those
  that wait for their delayed callback, each once, and the counters are the lengths of the lists. Every operation keeps both and follows
  no pointer to freed memory.
\<close>

named_theorems server_frame "what the operations leave alone"

definition conn_of :: "'k server \<Rightarrow> nat \<Rightarrow> nat option" where
  "conn_of sv a = (case chans sv a of None \<Rightarrow> None | Some ch \<Rightarrow> chanConnection ch)"

definition chan_of :: "'k server \<Rightarrow> nat \<Rightarrow> nat option" where
  "chan_of sv c = (case conns sv c of None \<Rightarrow> None | Some cn \<Rightarrow> channelPtr cn)"

definition sessions_of :: "'k server \<Rightarrow> nat \<Rightarrow> nat list" where
  "sessions_of sv a = (case chans sv a of None \<Rightarrow> [] | Some ch \<Rightarrow> sessions ch)"

definition bound_to :: "'k server \<Rightarrow> nat \<Rightarrow> nat option" where
  "bound_to sv s = (case sess sv s of None \<Rightarrow> None | Some se \<Rightarrow> schannel se)"

text \<open>Mutual pointers, one to one, and one to many with a list on one side.\<close>

definition paired :: "('a \<rightharpoonup> 'b) \<Rightarrow> ('b \<rightharpoonup> 'a) \<Rightarrow> bool" where
  "paired f g \<longleftrightarrow> (\<forall>a c. f a = Some c \<longleftrightarrow> g c = Some a)"

definition grouped :: "('a \<Rightarrow> 'b list) \<Rightarrow> ('b \<rightharpoonup> 'a) \<Rightarrow> bool" where
  "grouped h b \<longleftrightarrow> (\<forall>a s. s \<in> set (h a) \<longleftrightarrow> b s = Some a) \<and> (\<forall>a. distinct (h a))"

lemma paired_iff: "paired f g \<Longrightarrow> f a = Some c \<longleftrightarrow> g c = Some a"
  by (simp add: paired_def)

lemma paired_detach:
  assumes "paired f g" "f a = Some c"
  shows "paired (f(a := None)) (g(c := None))"
  unfolding paired_def
proof (intro allI)
  fix x y
  have c: "g c = Some a" using assms paired_iff by metis
  have "(f(a := None)) x = Some y \<longleftrightarrow> x \<noteq> a \<and> f x = Some y" by simp
  also have "\<dots> \<longleftrightarrow> y \<noteq> c \<and> g y = Some x"
    using paired_iff [OF assms(1), of x y] assms(2) c by (metis option.inject)
  also have "\<dots> \<longleftrightarrow> (g(c := None)) y = Some x" by simp
  finally show "(f(a := None)) x = Some y \<longleftrightarrow> (g(c := None)) y = Some x" .
qed

lemma paired_attach:
  assumes "paired f g" "f a = None" "g c = None"
  shows "paired (f(a := Some c)) (g(c := Some a))"
  unfolding paired_def
proof (intro allI)
  fix x y
  show "(f(a := Some c)) x = Some y \<longleftrightarrow> (g(c := Some a)) y = Some x"
    using paired_iff [OF assms(1), of x y] assms(2,3) by auto
qed

lemma grouped_attach: "grouped h b \<Longrightarrow> b s = None \<Longrightarrow> grouped (h(a := s # h a)) (b(s := Some a))"
  by (auto simp: grouped_def)

lemma grouped_detach: "grouped h b \<Longrightarrow> b s = Some a \<Longrightarrow> grouped (h(a := remove1 s (h a))) (b(s := None))"
  by (auto simp: grouped_def)

lemma grouped_clear: "grouped h b \<Longrightarrow> grouped (h(a := [])) (\<lambda>s. if s \<in> set (h a) then None else b s)"
  by (auto simp: grouped_def)

definition linked :: "'k server \<Rightarrow> bool" where
  "linked sv \<longleftrightarrow> paired (conn_of sv) (chan_of sv) \<and> grouped (sessions_of sv) (bound_to sv)"

definition pending_channels :: "delayed_callback list \<Rightarrow> nat set" where
  "pending_channels ds = {a. RemoveChannel a \<in> set ds}"

definition pending_sessions :: "delayed_callback list \<Rightarrow> nat set" where
  "pending_sessions ds = {s. RemoveSession s \<in> set ds}"

lemma pending_simps [simp]:
  "pending_channels [] = {}" "pending_sessions [] = {}"
  "pending_channels (RemoveChannel a # ds) = insert a (pending_channels ds)" "pending_sessions (RemoveChannel a # ds) = pending_sessions ds"
  "pending_channels (RemoveSession s # ds) = pending_channels ds" "pending_sessions (RemoveSession s # ds) = insert s (pending_sessions ds)"
  by (auto simp: pending_channels_def pending_sessions_def)

lemma pending_remove:
  assumes "distinct ds"
  shows "pending_channels (remove1 (RemoveChannel a) ds) = pending_channels ds - {a}" "pending_sessions (remove1 (RemoveChannel a) ds) = pending_sessions ds"
    "pending_channels (remove1 (RemoveSession s) ds) = pending_channels ds" "pending_sessions (remove1 (RemoveSession s) ds) = pending_sessions ds - {s}"
  using assms by (auto simp: pending_channels_def pending_sessions_def)

text \<open>A list of a manager with its counter, the addresses that wait for their callback, and the objects in memory.\<close>

definition managed :: "nat list \<Rightarrow> u32 \<Rightarrow> nat set \<Rightarrow> nat set \<Rightarrow> nat \<Rightarrow> bool" where
  "managed xs n pending objects fresh \<longleftrightarrow> distinct xs \<and> n = word_of_nat (length xs) \<and> set xs \<inter> pending = {} \<and> objects = set xs \<union> pending
     \<and> (\<forall>x \<in> objects. x < fresh)"

lemma managed_remove: "managed xs n P D f \<Longrightarrow> x \<in> set xs \<Longrightarrow> managed (remove1 x xs) (n - 1) (insert x P) D f"
proof -
  assume m: "managed xs n P D f" and x: "x \<in> set xs"
  have "0 < length xs" using x by (cases xs) auto
  then have "length xs = Suc (length (remove1 x xs))" using x by (simp add: length_remove1)
  with m x show ?thesis by (auto simp: managed_def)
qed

lemma managed_free: "managed xs n P D f \<Longrightarrow> x \<in> P \<Longrightarrow> managed xs n (P - {x}) (D - {x}) f"
  by (auto simp: managed_def)

lemma managed_add: "managed xs n P D f \<Longrightarrow> managed (f # xs) (n + 1) P (insert f D) (f + 1)"
  by (auto simp: managed_def add.commute intro: less_SucI)

lemma managed_fresh: "managed xs n P D f \<Longrightarrow> f \<le> g \<Longrightarrow> managed xs n P D g"
  by (auto simp: managed_def intro: less_le_trans)

definition counted :: "'k server \<Rightarrow> bool" where
  "counted sv \<longleftrightarrow> distinct (delayedCallbacks sv)
     \<and> managed (cmChannels sv) (currentChannelCount sv) (pending_channels (delayedCallbacks sv)) (dom (chans sv)) (freshAddr sv)
     \<and> managed (smSessions sv) (currentSessionCount sv) (pending_sessions (delayedCallbacks sv)) (dom (sess sv)) (freshAddr sv)"

definition server_ok :: "'k server \<Rightarrow> bool" where
  "server_ok sv \<longleftrightarrow> linked sv \<and> counted sv"

text \<open>The links and the objects, as far as the invariant depends on them.\<close>

definition same_links :: "'k server \<Rightarrow> 'k server \<Rightarrow> bool" where
  "same_links sv sv' \<longleftrightarrow> conn_of sv' = conn_of sv \<and> chan_of sv' = chan_of sv \<and> sessions_of sv' = sessions_of sv \<and> bound_to sv' = bound_to sv"

definition same_objects :: "'k server \<Rightarrow> 'k server \<Rightarrow> bool" where
  "same_objects sv sv' \<longleftrightarrow> cmChannels sv' = cmChannels sv \<and> smSessions sv' = smSessions sv \<and> delayedCallbacks sv' = delayedCallbacks sv
     \<and> currentChannelCount sv' = currentChannelCount sv \<and> currentSessionCount sv' = currentSessionCount sv \<and> freshAddr sv' = freshAddr sv
     \<and> dom (chans sv') = dom (chans sv) \<and> dom (sess sv') = dom (sess sv)"

lemma linked_cong: "linked sv \<Longrightarrow> same_links sv sv' \<Longrightarrow> linked sv'"
  by (simp add: linked_def same_links_def)

lemma counted_cong: "counted sv \<Longrightarrow> same_objects sv sv' \<Longrightarrow> counted sv'"
  by (simp add: counted_def same_objects_def)

lemma same_links_refl [simp]: "same_links sv sv" by (simp add: same_links_def)
lemma same_objects_refl [simp]: "same_objects sv sv" by (simp add: same_objects_def)

lemma same_links_trans [trans]: "same_links a b \<Longrightarrow> same_links b c \<Longrightarrow> same_links a c" by (simp add: same_links_def)
lemma same_objects_trans [trans]: "same_objects a b \<Longrightarrow> same_objects b c \<Longrightarrow> same_objects a c" by (simp add: same_objects_def)

text \<open>An operation that keeps links and objects keeps the invariant.\<close>

definition quiet :: "'k server \<Rightarrow> 'k server \<Rightarrow> bool" where
  "quiet sv sv' \<longleftrightarrow> same_links sv sv' \<and> same_objects sv sv'"

lemma quiet_ok: "server_ok sv \<Longrightarrow> quiet sv sv' \<Longrightarrow> server_ok sv'"
  by (auto simp: server_ok_def quiet_def intro: linked_cong counted_cong)

lemma quiet_refl [simp]: "quiet sv sv" by (simp add: quiet_def)

lemma quiet_trans [trans]: "quiet a b \<Longrightarrow> quiet b c \<Longrightarrow> quiet a c"
  by (auto simp: quiet_def intro: same_links_trans same_objects_trans)

lemma quiet_salloc: "salloc sv = (b, sv') \<Longrightarrow> quiet sv sv'"
  by (auto simp: salloc_def quiet_def same_links_def same_objects_def conn_of_def chan_of_def sessions_of_def bound_to_def fun_eq_iff
      split: list.splits)

lemma quiet_salloc_all: "salloc_all n sv = (b, sv') \<Longrightarrow> quiet sv sv'"
proof (induction n arbitrary: sv b)
  case (Suc n)
  then show ?case
    by (auto simp: Let_def split: prod.splits intro: quiet_trans [OF quiet_salloc])
qed simp

lemma quiet_set_chan:
  assumes "chans sv a = Some ch" "chanConnection ch' = chanConnection ch" "sessions ch' = sessions ch"
  shows "quiet sv (set_chan a ch' sv)"
  using assms
  by (auto simp: quiet_def same_links_def same_objects_def conn_of_def chan_of_def sessions_of_def bound_to_def set_chan_def fun_eq_iff)

lemma quiet_set_sess:
  assumes "sess sv s = Some se" "schannel se' = schannel se"
  shows "quiet sv (set_sess s se' sv)"
  using assms
  by (auto simp: quiet_def same_links_def same_objects_def conn_of_def chan_of_def sessions_of_def bound_to_def set_sess_def fun_eq_iff)

lemma quiet_set_conn:
  assumes "conns sv c = Some cn" "channelPtr cn' = channelPtr cn"
  shows "quiet sv (set_conn c cn' sv)"
  using assms
  by (auto simp: quiet_def same_links_def same_objects_def conn_of_def chan_of_def sessions_of_def bound_to_def set_conn_def fun_eq_iff)

lemma quiet_counters:
  "quiet sv (sv\<lparr>lastChannelId := i\<rparr>)" "quiet sv (sv\<lparr>lastTokenId := i\<rparr>)"
  by (simp_all add: quiet_def same_links_def same_objects_def conn_of_def chan_of_def sessions_of_def bound_to_def fun_eq_iff)

subsection \<open>Results\<close>

text \<open>\<open>safely P x\<close>: the operation followed no dangling pointer and its result satisfies \<open>P\<close>.\<close>

definition safely :: "('a \<Rightarrow> bool) \<Rightarrow> 'a option \<Rightarrow> bool" where
  "safely P x \<longleftrightarrow> (\<exists>y. x = Some y \<and> P y)"

lemma safely_Some [simp]: "safely P (Some y) = P y" by (simp add: safely_def)
lemma safely_None [simp]: "\<not> safely P None" by (simp add: safely_def)

lemma safely_bind: "safely P x \<Longrightarrow> (\<And>y. P y \<Longrightarrow> safely Q (f y)) \<Longrightarrow> safely Q (x \<bind> f)"
  by (auto simp: safely_def)

lemma safely_mono: "safely P x \<Longrightarrow> (\<And>y. P y \<Longrightarrow> Q y) \<Longrightarrow> safely Q x"
  by (auto simp: safely_def)

lemma safely_if: "(b \<Longrightarrow> safely P x) \<Longrightarrow> (\<not> b \<Longrightarrow> safely P y) \<Longrightarrow> safely P (if b then x else y)" by simp

lemmas link_defs = conn_of_def chan_of_def sessions_of_def bound_to_def

subsection \<open>Connections and channels\<close>

text \<open>The functions of the links after an update.\<close>

lemma links_set_conn:
  "conn_of (set_conn c cn sv) = conn_of sv" "chan_of (set_conn c cn sv) = (chan_of sv)(c := channelPtr cn)"
  "sessions_of (set_conn c cn sv) = sessions_of sv" "bound_to (set_conn c cn sv) = bound_to sv"
  by (auto simp: link_defs set_conn_def fun_eq_iff)

lemma links_set_chan:
  "conn_of (set_chan a ch sv) = (conn_of sv)(a := chanConnection ch)" "chan_of (set_chan a ch sv) = chan_of sv"
  "sessions_of (set_chan a ch sv) = (sessions_of sv)(a := sessions ch)" "bound_to (set_chan a ch sv) = bound_to sv"
  by (auto simp: link_defs set_chan_def fun_eq_iff)

lemma links_set_sess:
  "conn_of (set_sess s se sv) = conn_of sv" "chan_of (set_sess s se sv) = chan_of sv"
  "sessions_of (set_sess s se sv) = sessions_of sv" "bound_to (set_sess s se sv) = (bound_to sv)(s := schannel se)"
  by (auto simp: link_defs set_sess_def fun_eq_iff)

lemmas links_set = links_set_conn links_set_chan links_set_sess

lemma same_objects_set:
  "conns sv c \<noteq> None \<Longrightarrow> same_objects sv (set_conn c cn sv)"
  "chans sv a \<noteq> None \<Longrightarrow> same_objects sv (set_chan a ch sv)"
  "sess sv s \<noteq> None \<Longrightarrow> same_objects sv (set_sess s se sv)"
  by (auto simp: same_objects_def set_conn_def set_chan_def set_sess_def)

lemma set_heap [simp]:
  "chans (set_chan a ch sv) = (chans sv)(a \<mapsto> ch)" "chans (set_conn c cn sv) = chans sv" "chans (set_sess s se sv) = chans sv"
  "conns (set_chan a ch sv) = conns sv" "conns (set_conn c cn sv) = (conns sv)(c \<mapsto> cn)" "conns (set_sess s se sv) = conns sv"
  "sess (set_chan a ch sv) = sess sv" "sess (set_conn c cn sv) = sess sv" "sess (set_sess s se sv) = (sess sv)(s \<mapsto> se)"
  by (simp_all add: set_conn_def set_chan_def set_sess_def)

lemma links_exist:
  "conn_of sv a = Some c \<Longrightarrow> \<exists>ch. chans sv a = Some ch \<and> chanConnection ch = Some c"
  "chan_of sv c = Some a \<Longrightarrow> \<exists>cn. conns sv c = Some cn \<and> channelPtr cn = Some a"
  "sessions_of sv a \<noteq> [] \<Longrightarrow> \<exists>ch. chans sv a = Some ch"
  "bound_to sv s = Some a \<Longrightarrow> \<exists>se. sess sv s = Some se \<and> schannel se = Some a"
  by (auto simp: link_defs split: option.splits)

text \<open>After detaching, neither side knows the other; the sessions stay.\<close>

definition detached :: "nat \<Rightarrow> 'k server \<Rightarrow> 'k server \<Rightarrow> bool" where
  "detached c sv sv' \<longleftrightarrow> linked sv' \<and> same_objects sv sv' \<and> sessions_of sv' = sessions_of sv \<and> bound_to sv' = bound_to sv
     \<and> chan_of sv' = (chan_of sv)(c := None) \<and> sess sv' = sess sv \<and> conns sv' c \<noteq> None"

lemma detach_connection:
  assumes "linked sv" "conns sv c = Some cn"
  shows "safely (detached c sv) (UA_Connection_detachSecureChannel c sv)"
proof (cases "channelPtr cn")
  case None
  then have "(chan_of sv)(c := None) = chan_of sv" using assms(2) by (auto simp: chan_of_def)
  with None assms show ?thesis
    by (simp add: UA_Connection_detachSecureChannel_def detached_def links_set linked_def same_objects_set)
next
  case (Some a)
  then have c: "chan_of sv c = Some a" using assms(2) by (simp add: chan_of_def)
  then have l: "conn_of sv a = Some c" using assms(1) by (simp add: linked_def paired_def)
  then obtain ch where ch: "chans sv a = Some ch" "chanConnection ch = Some c" using links_exist(1) by blast
  let ?sv = "set_conn c (cn\<lparr>channelPtr := None\<rparr>) (set_chan a (ch\<lparr>chanConnection := None\<rparr>) sv)"
  have "UA_Connection_detachSecureChannel c sv = Some ?sv"
    using assms(2) Some ch by (simp add: UA_Connection_detachSecureChannel_def)
  moreover have s: "(sessions_of sv)(a := sessions ch) = sessions_of sv" using ch by (auto simp: sessions_of_def)
  then have "linked ?sv"
    using assms(1) l by (simp add: linked_def links_set paired_detach)
  moreover have "same_objects sv ?sv"
    using ch assms(2) by (auto intro!: same_objects_trans [OF same_objects_set(2) same_objects_set(1)])
  ultimately show ?thesis
    using s by (simp add: detached_def links_set)
qed

lemma detached_conn_of:
  assumes "linked sv" "detached c sv sv'" "conn_of sv a = Some c"
  shows "conn_of sv' a = None"
proof (cases "conn_of sv' a")
  case (Some d)
  then have "chan_of sv' d = Some a" using assms(2) by (simp add: detached_def linked_def paired_def)
  then have "chan_of sv d = Some a" "d \<noteq> c" using assms(2) by (auto simp: detached_def split: if_splits)
  then show ?thesis using assms(1,3) paired_iff [of "conn_of sv" "chan_of sv" a d] by (simp add: linked_def)
qed simp

lemma attach_connection:
  assumes "linked sv" "conns sv c = Some cn" "channelPtr cn = None" "chans sv a = Some ch"
  shows "safely (\<lambda>sv'. linked sv' \<and> same_objects sv sv') (UA_Connection_attachSecureChannel c a sv)"
proof (cases "chanConnection ch")
  case None
  let ?sv = "set_conn c (cn\<lparr>channelPtr := Some a\<rparr>) (set_chan a (ch\<lparr>chanConnection := Some c\<rparr>) sv)"
  have "UA_Connection_attachSecureChannel c a sv = Some ?sv"
    using assms None by (simp add: UA_Connection_attachSecureChannel_def)
  moreover have l: "conn_of sv a = None" "chan_of sv c = None" "(sessions_of sv)(a := sessions ch) = sessions_of sv"
    using assms None by (auto simp: link_defs)
  then have "linked ?sv"
    using assms(1) by (simp add: linked_def links_set paired_attach)
  moreover have "same_objects sv ?sv"
    using assms by (auto intro!: same_objects_trans [OF same_objects_set(2) same_objects_set(1)])
  ultimately show ?thesis by simp
next
  case (Some d)
  then show ?thesis using assms by (simp add: UA_Connection_attachSecureChannel_def)
qed

text \<open>Removing the connection of the network layer.\<close>

lemma remove_connection:
  assumes "server_ok sv" "conns sv c = Some cn"
  shows "safely server_ok (UA_Server_removeConnection c sv)"
  unfolding UA_Server_removeConnection_def
proof (rule safely_bind [OF detach_connection [OF _ assms(2)]])
  show "linked sv" using assms(1) by (simp add: server_ok_def)
next
  fix sv1 assume d: "detached c sv sv1"
  let ?sv = "sv1\<lparr>conns := (conns sv1)(c := None)\<rparr>"
  have "chan_of sv1 c = None" using d by (simp add: detached_def)
  then have "same_links sv1 ?sv" by (auto simp: same_links_def link_defs fun_eq_iff)
  moreover have "same_objects sv ?sv" using d by (simp add: detached_def same_objects_def)
  ultimately show "safely server_ok (Some ?sv)"
    using assms(1) d by (auto simp: server_ok_def detached_def intro: linked_cong counted_cong)
qed

subsection \<open>Clean-up of channels\<close>

lemma unlink_sessions_run:
  assumes "set ss \<subseteq> dom (sess sv)"
  shows "safely (\<lambda>sv'. conn_of sv' = conn_of sv \<and> chan_of sv' = chan_of sv \<and> sessions_of sv' = sessions_of sv
    \<and> bound_to sv' = (\<lambda>s. if s \<in> set ss then None else bound_to sv s) \<and> same_objects sv sv' \<and> chans sv' = chans sv) (unlink_sessions ss sv)"
  using assms
proof (induction ss arbitrary: sv)
  case (Cons s ss)
  then obtain se where se: "sess sv s = Some se" by auto
  let ?sv = "set_sess s (se\<lparr>schannel := None\<rparr>) sv"
  have "set ss \<subseteq> dom (sess ?sv)" using Cons.prems by auto
  from Cons.IH [OF this] show ?case
    unfolding unlink_sessions.simps se Option.bind.bind_lunit
    by (rule safely_mono)
      (use se in \<open>auto simp: links_set fun_eq_iff intro: same_objects_trans [OF same_objects_set(3)]\<close>)
qed simp

text \<open>The connection of a channel is closed and detached; \<open>sv\<close> is the state with the members of the channel deleted.\<close>

definition unplugged :: "nat \<Rightarrow> 'k server \<Rightarrow> 'k server \<Rightarrow> bool" where
  "unplugged a sv sv' \<longleftrightarrow> linked sv' \<and> same_objects sv sv' \<and> conn_of sv' a = None \<and> sessions_of sv' = sessions_of sv \<and> bound_to sv' = bound_to sv"

lemma cleanup_connection:
  assumes "linked sv" "chans sv a = Some ch"
  shows "safely (unplugged a sv)
    (case chanConnection ch of None \<Rightarrow> Some sv
      | Some c \<Rightarrow> do { cn \<leftarrow> conns sv c;
                       UA_Connection_detachSecureChannel c (set_conn c (if cstate cn \<noteq> CONNECTION_CLOSED then connection_close cn else cn) sv) })"
proof (cases "chanConnection ch")
  case None
  with assms show ?thesis by (simp add: unplugged_def conn_of_def)
next
  case (Some c)
  then have c: "conn_of sv a = Some c" using assms(2) by (simp add: conn_of_def)
  then have "chan_of sv c = Some a" using assms(1) by (simp add: linked_def paired_def)
  then obtain cn where cn: "conns sv c = Some cn" using links_exist(2) by blast
  let ?cn = "if cstate cn \<noteq> CONNECTION_CLOSED then connection_close cn else cn"
  let ?sv2 = "set_conn c ?cn sv"
  have q2: "quiet sv ?sv2" by (rule quiet_set_conn [OF cn]) (simp add: connection_close_def)
  then have l2: "linked ?sv2" using assms(1) by (auto simp: quiet_def intro: linked_cong)
  have "safely (detached c ?sv2) (UA_Connection_detachSecureChannel c ?sv2)"
    by (rule detach_connection [OF l2]) simp
  then have "safely (unplugged a sv) (UA_Connection_detachSecureChannel c ?sv2)"
  proof (rule safely_mono)
    fix y assume d: "detached c ?sv2 y"
    have "conn_of ?sv2 a = Some c" using c q2 by (simp add: quiet_def same_links_def)
    from detached_conn_of [OF l2 d this] d q2 show "unplugged a sv y"
      by (auto simp: unplugged_def detached_def quiet_def same_links_def intro: same_objects_trans)
  qed
  with Some cn show ?thesis by simp
qed

lemma cleanup_session_links:
  assumes "unplugged a sv sv2" "chans sv a = Some ch"
  shows "safely (\<lambda>sv'. linked sv' \<and> same_objects sv sv' \<and> conn_of sv' a = None \<and> sessions_of sv' a = [])
    (unlink_sessions (sessions ch) sv2 \<bind> (\<lambda>sv3. chans sv3 a \<bind> (\<lambda>ch3. Some (set_chan a (ch3\<lparr>sessions := [], chunks := []\<rparr>) sv3))))"
proof -
  have ss: "sessions ch = sessions_of sv a" using assms(2) by (simp add: sessions_of_def)
  have "sess sv2 s \<noteq> None" if "s \<in> set (sessions ch)" for s
  proof -
    have "bound_to sv2 s = Some a" using that ss assms(1) by (auto simp: unplugged_def linked_def grouped_def)
    then show ?thesis using links_exist(4) by fastforce
  qed
  then have "set (sessions ch) \<subseteq> dom (sess sv2)" by auto
  then show ?thesis
  proof (rule safely_bind [OF unlink_sessions_run])
    fix sv3 assume sv3: "conn_of sv3 = conn_of sv2 \<and> chan_of sv3 = chan_of sv2 \<and> sessions_of sv3 = sessions_of sv2
      \<and> bound_to sv3 = (\<lambda>s. if s \<in> set (sessions ch) then None else bound_to sv2 s) \<and> same_objects sv2 sv3 \<and> chans sv3 = chans sv2"
    have "a \<in> dom (chans sv3)" using assms sv3 by (auto simp: unplugged_def same_objects_def)
    then obtain ch3 where ch3: "chans sv3 a = Some ch3" by auto
    then have c3: "chanConnection ch3 = None" using assms(1) sv3 by (simp add: unplugged_def conn_of_def)
    let ?sv4 = "set_chan a (ch3\<lparr>sessions := [], chunks := []\<rparr>) sv3"
    have "(conn_of sv2)(a := None) = conn_of sv2" using assms(1) by (auto simp: unplugged_def)
    moreover have "grouped ((sessions_of sv2)(a := [])) (\<lambda>s. if s \<in> set (sessions_of sv2 a) then None else bound_to sv2 s)"
      using assms(1) by (intro grouped_clear) (auto simp: unplugged_def linked_def)
    ultimately have "linked ?sv4"
      using assms(1) sv3 ss c3 by (simp add: unplugged_def linked_def links_set)
    moreover have "same_objects sv ?sv4"
      using assms(1) sv3 ch3 same_objects_set(2) [of sv3 a] unfolding unplugged_def by (metis option.distinct(1) same_objects_trans)
    ultimately show "safely (\<lambda>sv'. linked sv' \<and> same_objects sv sv' \<and> conn_of sv' a = None \<and> sessions_of sv' a = [])
      (chans sv3 a \<bind> (\<lambda>ch3. Some (set_chan a (ch3\<lparr>sessions := [], chunks := []\<rparr>) sv3)))"
      using ch3 c3 by (simp add: links_set)
  qed
qed

lemma channel_cleanup:
  assumes "linked sv" "chans sv a = Some ch"
  shows "safely (\<lambda>sv'. linked sv' \<and> same_objects sv sv' \<and> conn_of sv' a = None \<and> sessions_of sv' a = [])
    (UA_SecureChannel_deleteMembersCleanup a sv)"
proof -
  let ?ch = "ch\<lparr>remoteCertificate := None, localNonce := None, remoteNonce := None,
    securityToken := ChannelSecurityToken_init, nextSecurityToken := ChannelSecurityToken_init\<rparr>"
  let ?sv1 = "set_chan a ?ch sv"
  have q: "quiet sv ?sv1" using assms(2) by (intro quiet_set_chan) auto
  then have l1: "linked ?sv1" using assms(1) by (auto simp: quiet_def intro: linked_cong)
  have ch: "chans ?sv1 a = Some ?ch" "chanConnection ch = chanConnection ?ch" "sessions ch = sessions ?ch" by simp_all
  show ?thesis
    unfolding UA_SecureChannel_deleteMembersCleanup_def assms(2) Option.bind.bind_lunit Let_def ch(2,3)
    by (rule safely_bind [OF cleanup_connection [OF l1 ch(1)]], rule safely_mono [OF cleanup_session_links [OF _ ch(1)]])
      (use q in \<open>auto simp: quiet_def intro: same_objects_trans\<close>)
qed

subsection \<open>The channel manager\<close>

text \<open>The memory of a channel is freed by its delayed callback, or when the manager is deleted.\<close>

lemma free_channel:
  assumes "linked sv" "chans sv a = Some ch"
  shows "safely (\<lambda>sv'. linked sv' \<and> same_objects (sv\<lparr>chans := (chans sv)(a := None)\<rparr>) sv') (removeSecureChannelCallback a sv)"
  unfolding removeSecureChannelCallback_def
proof (rule safely_bind [OF channel_cleanup [OF assms]])
  fix sv1 assume sv1: "linked sv1 \<and> same_objects sv sv1 \<and> conn_of sv1 a = None \<and> sessions_of sv1 a = []"
  let ?sv = "sv1\<lparr>chans := (chans sv1)(a := None)\<rparr>"
  have "same_links sv1 ?sv" using sv1 by (auto simp: same_links_def link_defs fun_eq_iff)
  with sv1 show "safely (\<lambda>sv'. linked sv' \<and> same_objects (sv\<lparr>chans := (chans sv)(a := None)\<rparr>) sv') (Some ?sv)"
    by (auto simp: same_objects_def dom_def intro: linked_cong)
qed

lemma channel_callback:
  assumes "server_ok sv" "RemoveChannel a \<in> set (delayedCallbacks sv)"
  shows "safely (\<lambda>sv'. server_ok sv' \<and> delayedCallbacks sv' = remove1 (RemoveChannel a) (delayedCallbacks sv))
    (run_callback (RemoveChannel a) (sv\<lparr>delayedCallbacks := remove1 (RemoveChannel a) (delayedCallbacks sv)\<rparr>))"
proof -
  let ?sv = "sv\<lparr>delayedCallbacks := remove1 (RemoveChannel a) (delayedCallbacks sv)\<rparr>"
  have p: "a \<in> pending_channels (delayedCallbacks sv)" using assms(2) by (simp add: pending_channels_def)
  then obtain ch where ch: "chans ?sv a = Some ch" using assms(1) by (auto simp: server_ok_def counted_def managed_def)
  have l: "linked ?sv" using assms(1) linked_cong [of sv ?sv] by (simp add: server_ok_def same_links_def link_defs fun_eq_iff)
  have c: "counted (?sv\<lparr>chans := (chans ?sv)(a := None)\<rparr>)"
    using assms p by (auto simp: server_ok_def counted_def pending_remove intro: managed_free)
  show ?thesis
    unfolding run_callback_def delayed_callback.case
    by (rule safely_mono [OF free_channel [OF l ch]], rule conjI)
      (use c in \<open>auto simp: server_ok_def same_objects_def intro: counted_cong\<close>)
qed

lemma salloc_frame:
  "salloc sv = (b, sv') \<Longrightarrow> \<exists>as. sv' = sv\<lparr>sallocs := as\<rparr>"
  by (cases sv) (auto simp: salloc_def split: list.splits)

lemma remove_channel:
  assumes "server_ok sv" "a \<in> set (cmChannels sv)" "removeSecureChannel a sv = (r, sv')"
  shows "server_ok sv' \<and> set (cmChannels sv) - {a} \<subseteq> set (cmChannels sv') \<and> chans sv' = chans sv"
proof -
  obtain ok sv1 where s: "salloc sv = (ok, sv1)" by (cases "salloc sv")
  then have ok1: "server_ok sv1" using assms(1) quiet_ok quiet_salloc by blast
  have m: "cmChannels sv1 = cmChannels sv" "chans sv1 = chans sv" using salloc_frame [OF s] by auto
  show ?thesis
  proof (cases ok)
    case True
    let ?sv = "sv1\<lparr>delayedCallbacks := RemoveChannel a # delayedCallbacks sv1, cmChannels := remove1 a (cmChannels sv1),
      currentChannelCount := currentChannelCount sv1 - 1\<rparr>"
    have r: "sv' = ?sv" using assms(3) s True by (simp add: removeSecureChannel_def UA_Server_delayedCallback_def)
    have "linked ?sv" using ok1 linked_cong [of sv1 ?sv] by (simp add: server_ok_def same_links_def link_defs fun_eq_iff)
    moreover have "a \<notin> pending_channels (delayedCallbacks sv1)"
      using ok1 assms(2) m by (auto simp: server_ok_def counted_def managed_def)
    then have "RemoveChannel a \<notin> set (delayedCallbacks sv1)" by (simp add: pending_channels_def)
    then have "counted ?sv"
      using ok1 assms(2) m by (simp add: server_ok_def counted_def managed_remove)
    moreover have "set (cmChannels sv) - {a} \<subseteq> set (remove1 a (cmChannels sv))" by (auto, metis in_set_remove1)
    ultimately show ?thesis using r m by (simp add: server_ok_def)
  next
    case False
    then have "sv' = sv1" using assms(3) s by (simp add: removeSecureChannel_def UA_Server_delayedCallback_def)
    with ok1 m show ?thesis by auto
  qed
qed

lemma revolve_links:
  "chanConnection (snd (UA_SecureChannel_revolveTokens ch)) = chanConnection ch" "sessions (snd (UA_SecureChannel_revolveTokens ch)) = sessions ch"
  by (auto simp: UA_SecureChannel_revolveTokens_def UA_SecureChannel_generateNewKeys_def UA_SecureChannel_generateLocalKeys_def
      UA_SecureChannel_generateRemoteKeys_def Let_def split: prod.splits)

lemma listed_channel: "server_ok sv \<Longrightarrow> a \<in> set (cmChannels sv) \<Longrightarrow> \<exists>ch. chans sv a = Some ch"
  by (auto simp: server_ok_def counted_def managed_def)

lemma cleanup_channels_ok:
  assumes "server_ok sv" "set as \<subseteq> set (cmChannels sv)" "distinct as"
  shows "safely server_ok (cleanup_channels now as sv)"
  using assms
proof (induction now as sv rule: cleanup_channels.induct)
  case (2 now a as sv)
  then obtain ch where ch: "chans sv a = Some ch" using listed_channel by fastforce
  let ?next = "if createdAt (securityToken ch) + int (unat (revisedLifetime (securityToken ch))) * DATETIME_MSEC < now \<or> chanConnection ch = None
      then snd (removeSecureChannel a sv)
      else if tokenId (nextSecurityToken ch) > 0 then set_chan a (snd (UA_SecureChannel_revolveTokens ch)) sv else sv"
  have q: "quiet sv (set_chan a (snd (UA_SecureChannel_revolveTokens ch)) sv)"
    using ch by (rule quiet_set_chan) (rule revolve_links)+
  have "server_ok (set_chan a (snd (UA_SecureChannel_revolveTokens ch)) sv)" "cmChannels (set_chan a (snd (UA_SecureChannel_revolveTokens ch)) sv) = cmChannels sv"
    using quiet_ok [OF "2.prems"(1) q] by (simp_all add: set_chan_def)
  moreover have "server_ok (snd (removeSecureChannel a sv))" "set (cmChannels sv) - {a} \<subseteq> set (cmChannels (snd (removeSecureChannel a sv)))"
    using remove_channel [OF "2.prems"(1), of a] "2.prems"(2) by (auto simp: prod_eq_iff)
  ultimately have n: "server_ok ?next" "set as \<subseteq> set (cmChannels ?next)"
    using "2.prems" by auto
  show ?case
    using "2.IH" [OF ch refl n] "2.prems"(3) ch by simp
qed simp

lemma purge_ok:
  assumes "server_ok sv" "set as \<subseteq> set (cmChannels sv)"
  shows "safely (\<lambda>(b, sv'). server_ok sv' \<and> conns sv' = conns sv) (purge_first as sv)"
  using assms
proof (induction as)
  case (Cons a as)
  then obtain ch where ch: "chans sv a = Some ch" using listed_channel by fastforce
  obtain r sv' where r: "removeSecureChannel a sv = (r, sv')" by (cases "removeSecureChannel a sv")
  then have "conns sv' = conns sv"
    by (auto simp: removeSecureChannel_def UA_Server_delayedCallback_def salloc_def split: list.splits prod.splits if_splits)
  with Cons ch remove_channel [OF Cons.prems(1) _ r] r show ?case by auto
qed simp

text \<open>A new object: a channel or a session that is linked to nothing.\<close>

lemma malloc_frame:
  assumes "malloc sv = (x, sv')"
  shows "(x = None \<and> quiet sv sv') \<or> (\<exists>as. x = Some (freshAddr sv) \<and> sv' = sv\<lparr>sallocs := as, freshAddr := freshAddr sv + 1\<rparr>)"
proof -
  obtain ok sv1 where s: "salloc sv = (ok, sv1)" by (cases "salloc sv")
  then show ?thesis
    using assms quiet_salloc [OF s] salloc_frame [OF s] by (cases ok) (auto simp: malloc_def)
qed

lemma fresh_unused:
  assumes "counted sv"
  shows "chans sv (freshAddr sv) = None" "sess sv (freshAddr sv) = None"
proof -
  have "freshAddr sv \<notin> dom (chans sv)" "freshAddr sv \<notin> dom (sess sv)"
    using assms unfolding counted_def managed_def by (meson less_irrefl)+
  then show "chans sv (freshAddr sv) = None" "sess sv (freshAddr sv) = None" by auto
qed

lemma unlinked_set_chan:
  assumes "chans sv a = None" "chanConnection ch = None" "sessions ch = []"
  shows "same_links sv (set_chan a ch sv)"
  using assms by (auto simp: same_links_def links_set) (auto simp: link_defs fun_eq_iff)

lemma init_links:
  "UA_SecureChannel_init P cert k0 as = (r, ch) \<Longrightarrow> chanConnection ch = None \<and> sessions ch = []"
  by (auto simp: UA_SecureChannel_init_def Let_def chan_alloc_def split: option.splits prod.splits if_splits list.splits)

lemma add_channel:
  assumes "server_ok sv" "chanConnection ch = None" "sessions ch = []"
  shows "server_ok (set_chan (freshAddr sv) ch (sv\<lparr>sallocs := as, freshAddr := freshAddr sv + 1, lastTokenId := t,
    cmChannels := freshAddr sv # cmChannels sv, currentChannelCount := currentChannelCount sv + 1\<rparr>))" (is "server_ok ?sv")
proof -
  have "same_links sv ?sv"
    using fresh_unused [of sv] assms by (auto simp: server_ok_def same_links_def link_defs set_chan_def fun_eq_iff)
  moreover have "counted ?sv"
    using assms(1) managed_add managed_fresh [of _ _ _ _ "freshAddr sv" "Suc (freshAddr sv)"]
    by (auto simp: server_ok_def counted_def set_chan_def)
  ultimately show ?thesis using assms(1) linked_cong by (auto simp: server_ok_def)
qed

lemma unused_address_ok:
  "server_ok sv \<Longrightarrow> server_ok (sv\<lparr>sallocs := as, freshAddr := freshAddr sv + 1\<rparr>)"
  using managed_fresh [of _ _ _ _ "freshAddr sv" "Suc (freshAddr sv)"]
  by (auto simp: server_ok_def counted_def intro: linked_cong [of sv] simp: same_links_def link_defs fun_eq_iff)

lemma new_channel_ok:
  assumes "server_ok sv" "conns sv c = Some cn" "channelPtr cn = None"
  shows "safely (\<lambda>(r, sv'). server_ok sv') (new_channel c P cert k0 as sv)"
proof -
  obtain x sv1 where m: "malloc sv = (x, sv1)" by (cases "malloc sv")
  obtain r ch where i: "UA_SecureChannel_init P cert k0 as = (r, ch)" by (cases "UA_SecureChannel_init P cert k0 as")
  consider "x = None" "quiet sv sv1"
    | as where "x = Some (freshAddr sv)" "sv1 = sv\<lparr>sallocs := as, freshAddr := freshAddr sv + 1\<rparr>"
    using malloc_frame [OF m] by blast
  then show ?thesis
  proof cases
    case 1
    with m quiet_ok [OF assms(1)] show ?thesis by (simp add: new_channel_def)
  next
    case (2 as)
    let ?ch = "ch\<lparr>securityToken := \<lparr>channelId = 0, tokenId = lastTokenId sv, createdAt = nowWall sv,
        revisedLifetime = maxSecurityTokenLifetime (limits sv)\<rparr>\<rparr>"
    let ?sv = "set_chan (freshAddr sv) ?ch (sv\<lparr>sallocs := as, freshAddr := freshAddr sv + 1, lastTokenId := lastTokenId sv + 1,
      cmChannels := freshAddr sv # cmChannels sv, currentChannelCount := currentChannelCount sv + 1\<rparr>)"
    have ok: "server_ok ?sv" using init_links [OF i] by (intro add_channel [OF assms(1)]) auto
    have "safely (\<lambda>sv'. linked sv' \<and> same_objects ?sv sv') (UA_Connection_attachSecureChannel c (freshAddr sv) ?sv)"
      by (rule attach_connection [of _ _ cn]) (use ok assms(2,3) in \<open>auto simp: server_ok_def\<close>)
    then have "safely server_ok (UA_Connection_attachSecureChannel c (freshAddr sv) ?sv)"
      by (rule safely_mono) (use ok in \<open>auto simp: server_ok_def intro: counted_cong\<close>)
    with m 2 i unused_address_ok [OF assms(1), of as] show ?thesis
      by (auto simp: new_channel_def intro!: safely_bind)
  qed
qed

lemma create_channel_ok:
  assumes "server_ok sv" "conns sv c = Some cn"
  shows "safely (\<lambda>(r, sv'). server_ok sv') (UA_SecureChannelManager_create c P cert k0 as sv)"
proof (cases "channelPtr cn")
  case None
  have purge: "safely (\<lambda>(b, sv'). server_ok sv' \<and> conns sv' = conns sv)
      (if currentChannelCount sv \<ge> ucast (maxSecureChannels (limits sv)) then purgeFirstChannelWithoutSession sv else Some (True, sv))"
    using purge_ok [OF assms(1) order_refl] assms(1) by (simp add: purgeFirstChannelWithoutSession_def)
  have "safely (\<lambda>(r, sv'). server_ok sv') (if \<not> b then Some (BADOUTOFMEMORY, sv1) else new_channel c P cert k0 as sv1)"
    if "server_ok sv1 \<and> conns sv1 = conns sv" for b sv1
    using that new_channel_ok [of sv1 c cn P cert k0 as] assms(2) None by simp
  then have "safely (\<lambda>(r, sv'). server_ok sv')
      ((if currentChannelCount sv \<ge> ucast (maxSecureChannels (limits sv)) then purgeFirstChannelWithoutSession sv else Some (True, sv))
        \<bind> (\<lambda>(purged, sv1). if \<not> purged then Some (BADOUTOFMEMORY, sv1) else new_channel c P cert k0 as sv1))"
    by (intro safely_bind [OF purge]) (auto simp del: if_split)
  with assms(2) None show ?thesis
    by (simp add: UA_SecureChannelManager_create_def)
next
  case (Some a)
  then show ?thesis using assms by (simp add: UA_SecureChannelManager_create_def)
qed

text \<open>The operations on the keys and nonces of a channel leave its links alone.\<close>

definition same_ends :: "'k channel \<Rightarrow> 'k channel \<Rightarrow> bool" where
  "same_ends ch ch' \<longleftrightarrow> chanConnection ch' = chanConnection ch \<and> sessions ch' = sessions ch"

lemma same_ends_ops:
  "chan_alloc ch = (b, ch') \<Longrightarrow> same_ends ch ch'"
  "chan_copy s ch = (r, s', ch') \<Longrightarrow> same_ends ch ch'"
  "UA_SecureChannel_generateLocalNonce gen ch = (r, ch') \<Longrightarrow> same_ends ch ch'"
  "UA_SecureChannel_generateNewKeys ch = (r, ch') \<Longrightarrow> same_ends ch ch'"
  by (auto simp: same_ends_def chan_alloc_def chan_copy_def UA_SecureChannel_generateLocalNonce_def UA_SecureChannel_generateNewKeys_def
      UA_SecureChannel_generateLocalKeys_def UA_SecureChannel_generateRemoteKeys_def Let_def split: if_splits list.splits prod.splits)

lemma set_chan_ok:
  assumes "server_ok sv" "chans sv a = Some ch" "same_ends ch ch'"
  shows "server_ok (set_chan a ch' (sv\<lparr>lastChannelId := i\<rparr>))" "server_ok (set_chan a ch' (sv\<lparr>lastTokenId := i\<rparr>))" "server_ok (set_chan a ch' sv)"
  using assms quiet_set_chan [of "sv\<lparr>lastChannelId := i\<rparr>" a ch ch'] quiet_set_chan [of "sv\<lparr>lastTokenId := i\<rparr>" a ch ch']
    quiet_set_chan [of sv a ch ch'] quiet_counters [of sv i]
  by (auto simp: same_ends_def intro: quiet_ok)

lemma open_ok:
  assumes "server_ok sv" "chans sv a = Some ch"
  shows "safely (\<lambda>(r, resp, sv'). server_ok sv' \<and> chans sv' a \<noteq> None) (UA_SecureChannelManager_open gen a request sv)"
proof -
  define ch1 where "ch1 = ch\<lparr>securityMode := requestedMode request,
    securityToken := (securityToken ch)\<lparr>channelId := lastChannelId sv, createdAt := nowWall sv,
      revisedLifetime := revised_lifetime (maxSecurityTokenLifetime (limits sv)) (requestedLifetime request)\<rparr>\<rparr>"
  obtain r1 nonce ch2 where e2: "chan_copy (clientNonce request) ch1 = (r1, nonce, ch2)" by (metis prod_cases3)
  obtain r2 ch3 where e3: "UA_SecureChannel_generateLocalNonce gen (ch2\<lparr>remoteNonce := nonce\<rparr>) = (r2, ch3)" by fastforce
  obtain r3 ch4 where e4: "UA_SecureChannel_generateNewKeys ch3 = (r3, ch4)" by fastforce
  obtain r4 sn ch5 where e5: "chan_copy (localNonce ch4) ch4 = (r4, sn, ch5)" by (metis prod_cases3)
  have "same_ends ch ch4" "same_ends ch ch5" "same_ends ch (ch5\<lparr>state := SECURECHANNELSTATE_OPEN\<rparr>)"
    using same_ends_ops(2) [OF e2] same_ends_ops(3) [OF e3] same_ends_ops(4) [OF e4] same_ends_ops(2) [OF e5]
    by (simp_all add: same_ends_def ch1_def)
  note ok = this [THEN set_chan_ok(1) [OF assms]]
  show ?thesis
    unfolding UA_SecureChannelManager_open_def assms(2) Option.bind.bind_lunit ch1_def [symmetric] Let_def e2 e3 e4 e5 prod.case
    using ok assms by simp
qed

lemma renew_ok:
  assumes "server_ok sv" "chans sv a = Some ch"
  shows "safely (\<lambda>(r, resp, sv'). server_ok sv' \<and> chans sv' a \<noteq> None) (UA_SecureChannelManager_renew gen a request sv)"
proof -
  let ?issue = "tokenId (nextSecurityToken ch) = 0"
  define ch1 where "ch1 = (if ?issue
     then ch\<lparr>nextSecurityToken := \<lparr>channelId = channelId (securityToken ch), tokenId = lastTokenId sv, createdAt = nowWall sv,
               revisedLifetime = revised_lifetime (maxSecurityTokenLifetime (limits sv)) (requestedLifetime request)\<rparr>\<rparr> else ch)"
  obtain r1 nonce ch2 where e2: "chan_copy (clientNonce request) ch1 = (r1, nonce, ch2)" by (metis prod_cases3)
  obtain r2 ch3 where e3: "UA_SecureChannel_generateLocalNonce gen (ch2\<lparr>remoteNonce := nonce\<rparr>) = (r2, ch3)" by fastforce
  obtain r4 sn ch5 where e5: "chan_copy (localNonce ch3) ch3 = (r4, sn, ch5)" by (metis prod_cases3)
  have "same_ends ch ch3" "same_ends ch ch5" "same_ends ch (ch5\<lparr>nextSecurityToken := t\<rparr>)" for t
    using same_ends_ops(2) [OF e2] same_ends_ops(3) [OF e3] same_ends_ops(2) [OF e5]
    by (simp_all add: same_ends_def ch1_def)
  note ok = this [THEN set_chan_ok(2) [OF assms]] this [THEN set_chan_ok(3) [OF assms]]
  show ?thesis
    unfolding UA_SecureChannelManager_renew_def assms(2) Option.bind.bind_lunit Let_def ch1_def [symmetric] e2 e3 e5 prod.case
    using ok assms by (simp split: if_split)
qed

lemma find_channel_ok:
  assumes "server_ok sv" "set as \<subseteq> set (cmChannels sv)"
  shows "safely (\<lambda>x. \<forall>a. x = Some a \<longrightarrow> a \<in> set as \<and> channelId (securityToken (the (chans sv a))) = i) (find_channel i as sv)"
  using assms
proof (induction as)
  case (Cons a as)
  then obtain ch where "chans sv a = Some ch" using listed_channel by fastforce
  with Cons show ?case by (auto simp: safely_def)
qed simp

lemma close_ok:
  assumes "server_ok sv"
  shows "safely (\<lambda>(r, sv'). server_ok sv' \<and> chans sv' = chans sv) (UA_SecureChannelManager_close i sv)"
  unfolding UA_SecureChannelManager_close_def
proof (rule safely_bind [OF find_channel_ok [OF assms order_refl]])
  fix x assume x: "\<forall>a. x = Some a \<longrightarrow> a \<in> set (cmChannels sv) \<and> channelId (securityToken (the (chans sv a))) = i"
  show "safely (\<lambda>(r, sv'). server_ok sv' \<and> chans sv' = chans sv)
    (case x of None \<Rightarrow> Some (BADINTERNALERROR, sv) | Some a \<Rightarrow> Some (removeSecureChannel a sv))"
    using x assms remove_channel [OF assms] by (cases x) (auto split: prod.split)
qed

end
