(* ===== verification/Server_Sessions.thy ===== *)
theory Server_Sessions
  imports Server_Invariant
begin

text \<open>
  The operations on sessions, the delayed callbacks and the services keep the invariant of the server and follow no dangling pointer.
\<close>

subsection \<open>Links of sessions\<close>

lemma attach_session:
  assumes "linked sv" "sess sv s = Some se" "schannel se = None" "chans sv a = Some ch"
  shows "safely (\<lambda>sv'. linked sv' \<and> same_objects sv sv' \<and> conns sv' = conns sv) (UA_Session_attachToSecureChannel s a sv)"
proof -
  let ?sv = "set_sess s (se\<lparr>schannel := Some a\<rparr>) (set_chan a (ch\<lparr>sessions := s # sessions ch\<rparr>) sv)"
  have l: "(conn_of sv)(a := chanConnection ch) = conn_of sv" "sessions_of sv a = sessions ch" "bound_to sv s = None"
    using assms by (auto simp: link_defs)
  have "linked ?sv"
    using assms(1) l grouped_attach [of "sessions_of sv" "bound_to sv" s a] by (simp add: linked_def links_set)
  moreover have "same_objects sv ?sv"
    using assms by (auto intro!: same_objects_trans [OF same_objects_set(2) same_objects_set(3)])
  ultimately show ?thesis
    using assms by (simp add: UA_Session_attachToSecureChannel_def)
qed

text \<open>After detaching, the session is bound to no channel; its other members stay.\<close>

lemma detach_session:
  assumes "linked sv" "sess sv s = Some se"
  shows "safely (\<lambda>sv'. linked sv' \<and> same_objects sv sv' \<and> sess sv' s = Some (se\<lparr>schannel := None\<rparr>) \<and> conns sv' = conns sv)
    (UA_Session_detachFromSecureChannel s sv)"
proof (cases "schannel se")
  case None
  then have "se\<lparr>schannel := None\<rparr> = se" by simp
  with None assms show ?thesis by (simp add: UA_Session_detachFromSecureChannel_def)
next
  case (Some a)
  then have b: "bound_to sv s = Some a" using assms(2) by (simp add: bound_to_def)
  then have "s \<in> set (sessions_of sv a)" using assms(1) by (auto simp: linked_def grouped_def)
  then obtain ch where ch: "chans sv a = Some ch" using links_exist(3) by (metis empty_iff empty_set)
  let ?sv = "set_sess s (se\<lparr>schannel := None\<rparr>) (set_chan a (ch\<lparr>sessions := remove1 s (sessions ch)\<rparr>) sv)"
  have l: "(conn_of sv)(a := chanConnection ch) = conn_of sv" "sessions_of sv a = sessions ch"
    using ch by (auto simp: link_defs)
  have "linked ?sv"
    using assms(1) l b grouped_detach [of "sessions_of sv" "bound_to sv" s a] by (simp add: linked_def links_set)
  moreover have "same_objects sv ?sv"
    using assms ch by (auto intro!: same_objects_trans [OF same_objects_set(2) same_objects_set(3)])
  ultimately show ?thesis
    using assms Some ch by (simp add: UA_Session_detachFromSecureChannel_def)
qed

lemma generate_nonce:
  assumes "server_ok sv" "sess sv s = Some se"
  shows "safely (\<lambda>(r, sv'). server_ok sv' \<and> quiet sv sv' \<and> conns sv' = conns sv \<and> chans sv' = chans sv
      \<and> (\<exists>n. sess sv' s = Some (se\<lparr>serverNonce := n\<rparr>))) (UA_Session_generateNonce gen s sv)"
proof (cases "schannel se")
  case None
  have "\<exists>n. se = se\<lparr>serverNonce := n\<rparr>" by (rule exI [of _ "serverNonce se"]) simp
  with None assms show ?thesis by (simp add: UA_Session_generateNonce_def)
next
  case (Some a)
  then have "bound_to sv s = Some a" using assms(2) by (simp add: bound_to_def)
  then have "s \<in> set (sessions_of sv a)" using assms(1) by (auto simp: server_ok_def linked_def grouped_def)
  then obtain ch where ch: "chans sv a = Some ch" using links_exist(3) by (metis empty_iff empty_set)
  define x where "x = (if arr_length (serverNonce se) \<noteq> UA_SESSION_NONCELENTH then salloc sv else (True, sv))"
  obtain ok sv1 where x1: "x = (ok, sv1)" by (cases x)
  have "quiet sv sv1 \<and> sess sv1 = sess sv \<and> conns sv1 = conns sv \<and> chans sv1 = chans sv"
  proof (cases "arr_length (serverNonce se) \<noteq> UA_SESSION_NONCELENTH")
    case True
    then have "salloc sv = (ok, sv1)" using x1 by (simp add: x_def)
    with quiet_salloc salloc_frame show ?thesis by fastforce
  next
    case False
    then show ?thesis using x1 by (simp add: x_def)
  qed
  then have q: "quiet sv sv1" "sess sv1 = sess sv" "conns sv1 = conns sv" "chans sv1 = chans sv" by simp_all
  have "quiet sv1 (set_sess s (se\<lparr>serverNonce := n\<rparr>) sv1)" for n
    using assms(2) q(2) by (intro quiet_set_sess [of sv1 s se]) auto
  then have n: "quiet sv (set_sess s (se\<lparr>serverNonce := n\<rparr>) sv1)" for n
    using q(1) quiet_trans by blast
  show ?thesis
    unfolding UA_Session_generateNonce_def assms(2) Option.bind.bind_lunit Some option.case ch x_def [symmetric] x1 Let_def prod.case
    using n quiet_ok [OF assms(1) n] q by (auto split: prod.split)
qed

lemma update_lifetime:
  assumes "server_ok sv" "sess sv s = Some se"
  shows "safely (\<lambda>sv'. server_ok sv' \<and> conns sv' = conns sv \<and> chans sv' = chans sv
      \<and> sess sv' = (sess sv)(s \<mapsto> se\<lparr>validTill := nowMonotonic sv + stimeout se * DATETIME_MSEC\<rparr>)) (UA_Session_updateLifetime s sv)"
  using assms quiet_ok [OF assms(1) quiet_set_sess [OF assms(2)]] by (simp add: UA_Session_updateLifetime_def)

subsection \<open>The session manager\<close>

lemma listed_session: "server_ok sv \<Longrightarrow> s \<in> set (smSessions sv) \<Longrightarrow> \<exists>se. sess sv s = Some se"
  by (auto simp: server_ok_def counted_def managed_def)

lemma queue_session_removal:
  assumes "server_ok sv" "s \<in> set (smSessions sv)"
  shows "safely (\<lambda>(r, sv'). server_ok sv' \<and> set (smSessions sv) - {s} \<subseteq> set (smSessions sv') \<and> dom (sess sv') = dom (sess sv))
    (case UA_Server_delayedCallback (RemoveSession s) sv of
      (r, sv1) \<Rightarrow> if r \<noteq> GOOD then Some (r, sv1)
         else Some (GOOD, sv1\<lparr>smSessions := remove1 s (smSessions sv1), currentSessionCount := currentSessionCount sv1 - 1\<rparr>))"
proof -
  obtain ok sv1 where s: "salloc sv = (ok, sv1)" by (cases "salloc sv")
  then have ok1: "server_ok sv1" using assms(1) quiet_ok quiet_salloc by blast
  have f: "smSessions sv1 = smSessions sv" "dom (sess sv1) = dom (sess sv)" using salloc_frame [OF s] by auto
  let ?sv = "sv1\<lparr>delayedCallbacks := RemoveSession s # delayedCallbacks sv1, smSessions := remove1 s (smSessions sv1),
    currentSessionCount := currentSessionCount sv1 - 1\<rparr>"
  have "linked ?sv" using ok1 linked_cong [of sv1 ?sv] by (simp add: server_ok_def same_links_def link_defs fun_eq_iff)
  moreover have "s \<notin> pending_sessions (delayedCallbacks sv1)"
    using ok1 assms(2) f by (auto simp: server_ok_def counted_def managed_def)
  then have "RemoveSession s \<notin> set (delayedCallbacks sv1)" by (simp add: pending_sessions_def)
  then have "counted ?sv" using ok1 assms(2) f by (simp add: server_ok_def counted_def managed_remove)
  moreover have "set (smSessions sv) - {s} \<subseteq> set (remove1 s (smSessions sv))" by (auto, metis in_set_remove1)
  ultimately show ?thesis
    using s ok1 f by (auto simp: UA_Server_delayedCallback_def server_ok_def)
qed

lemma remove_session:
  assumes "server_ok sv" "s \<in> set (smSessions sv)"
  shows "safely (\<lambda>(r, sv'). server_ok sv' \<and> set (smSessions sv) - {s} \<subseteq> set (smSessions sv') \<and> dom (sess sv') = dom (sess sv)) (removeSession s sv)"
proof -
  obtain se where se: "sess sv s = Some se" using listed_session [OF assms] by blast
  have l: "linked sv" using assms(1) by (simp add: server_ok_def)
  show ?thesis
    unfolding removeSession_def
  proof (rule safely_bind [OF detach_session [OF l se]])
    fix sv1 assume sv1: "linked sv1 \<and> same_objects sv sv1 \<and> sess sv1 s = Some (se\<lparr>schannel := None\<rparr>) \<and> conns sv1 = conns sv"
    then have ok1: "server_ok sv1" using assms(1) by (auto simp: server_ok_def intro: counted_cong)
    let ?sv2 = "set_sess s (se\<lparr>schannel := None, activated := False\<rparr>) sv1"
    have q: "quiet sv1 ?sv2" using sv1 by (intro quiet_set_sess) auto
    have ok2: "server_ok ?sv2" by (rule quiet_ok [OF ok1 q])
    have "smSessions ?sv2 = smSessions sv" "dom (sess ?sv2) = dom (sess sv)"
      using sv1 q by (auto simp: quiet_def same_objects_def)
    with queue_session_removal [OF ok2, of s] assms(2) sv1
    show "safely (\<lambda>(r, sv'). server_ok sv' \<and> set (smSessions sv) - {s} \<subseteq> set (smSessions sv') \<and> dom (sess sv') = dom (sess sv))
      (sess sv1 s \<bind> (\<lambda>se. case UA_Server_delayedCallback (RemoveSession s) (set_sess s (se\<lparr>activated := False\<rparr>) sv1) of
        (r, sv2) \<Rightarrow> if r \<noteq> GOOD then Some (r, sv2)
          else Some (GOOD, sv2\<lparr>smSessions := remove1 s (smSessions sv2), currentSessionCount := currentSessionCount sv2 - 1\<rparr>)))"
      by simp
  qed
qed

lemma cleanup_sessions_ok:
  assumes "server_ok sv" "set ss \<subseteq> set (smSessions sv)" "distinct ss"
  shows "safely server_ok (cleanup_sessions now ss sv)"
  using assms
proof (induction now ss sv rule: cleanup_sessions.induct)
  case (2 now s ss sv)
  then obtain se where se: "sess sv s = Some se" using listed_session by fastforce
  show ?case
  proof (cases "validTill se \<ge> now")
    case True
    then show ?thesis using 2 se by simp
  next
    case False
    have s: "s \<in> set (smSessions sv)" using "2.prems"(2) by simp
    from remove_session [OF "2.prems"(1) s] obtain r sv1 where
      r: "removeSession s sv = Some (r, sv1)" "server_ok sv1" "set (smSessions sv) - {s} \<subseteq> set (smSessions sv1)"
      by (auto simp: safely_def)
    have "safely server_ok (cleanup_sessions now ss sv1)"
      by (rule "2.IH"(2) [OF se False r(1) refl r(2)]) (use r(3) "2.prems" in auto)
    then show ?thesis using se False r by simp
  qed
qed simp

lemma free_session:
  assumes "linked sv" "sess sv s = Some se"
  shows "safely (\<lambda>sv'. linked sv' \<and> same_objects (sv\<lparr>sess := (sess sv)(s := None)\<rparr>) sv') (removeSessionCallback s sv)"
  unfolding removeSessionCallback_def UA_Session_deleteMembersCleanup_def Option.bind_assoc
proof (rule safely_bind [OF detach_session [OF assms]])
  fix sv1 assume sv1: "linked sv1 \<and> same_objects sv sv1 \<and> sess sv1 s = Some (se\<lparr>schannel := None\<rparr>) \<and> conns sv1 = conns sv"
  let ?sv2 = "\<lambda>se. set_sess s se sv1"
  have "same_links sv1 (?sv2 se'\<lparr>sess := (sess (?sv2 se'))(s := None)\<rparr>)" for se'
    using sv1 by (auto simp: same_links_def link_defs fun_eq_iff set_sess_def)
  then have "linked (?sv2 se'\<lparr>sess := (sess (?sv2 se'))(s := None)\<rparr>)" for se'
    using sv1 linked_cong by blast
  moreover have "same_objects (sv\<lparr>sess := (sess sv)(s := None)\<rparr>) (?sv2 se'\<lparr>sess := (sess (?sv2 se'))(s := None)\<rparr>)" for se'
    using sv1 by (auto simp: same_objects_def set_sess_def)
  ultimately show "safely (\<lambda>sv'. linked sv' \<and> same_objects (sv\<lparr>sess := (sess sv)(s := None)\<rparr>) sv')
    (sess sv1 s \<bind> (\<lambda>se. Some (set_sess s (se\<lparr>authenticationToken := NodeId_init, sessionId := NodeId_init, sessionName := None, serverNonce := None\<rparr>) sv1)
      \<bind> (\<lambda>sv1. Some (sv1\<lparr>sess := (sess sv1)(s := None)\<rparr>))))"
    using sv1 by simp
qed

lemma session_callback:
  assumes "server_ok sv" "RemoveSession s \<in> set (delayedCallbacks sv)"
  shows "safely (\<lambda>sv'. server_ok sv' \<and> delayedCallbacks sv' = remove1 (RemoveSession s) (delayedCallbacks sv))
    (run_callback (RemoveSession s) (sv\<lparr>delayedCallbacks := remove1 (RemoveSession s) (delayedCallbacks sv)\<rparr>))"
proof -
  let ?sv = "sv\<lparr>delayedCallbacks := remove1 (RemoveSession s) (delayedCallbacks sv)\<rparr>"
  have p: "s \<in> pending_sessions (delayedCallbacks sv)" using assms(2) by (simp add: pending_sessions_def)
  then obtain se where se: "sess ?sv s = Some se" using assms(1) by (auto simp: server_ok_def counted_def managed_def)
  have l: "linked ?sv" using assms(1) linked_cong [of sv ?sv] by (simp add: server_ok_def same_links_def link_defs fun_eq_iff)
  have c: "counted (?sv\<lparr>sess := (sess ?sv)(s := None)\<rparr>)"
    using assms p by (auto simp: server_ok_def counted_def pending_remove intro: managed_free)
  show ?thesis
    unfolding run_callback_def delayed_callback.case
    by (rule safely_mono [OF free_session [OF l se]], rule conjI)
      (use c in \<open>auto simp: server_ok_def same_objects_def intro: counted_cong\<close>)
qed

subsection \<open>Delayed callbacks\<close>

lemma callback_ok:
  assumes "server_ok sv" "d \<in> set (delayedCallbacks sv)"
  shows "safely (\<lambda>sv'. server_ok sv' \<and> delayedCallbacks sv' = remove1 d (delayedCallbacks sv))
    (run_callback d (sv\<lparr>delayedCallbacks := remove1 d (delayedCallbacks sv)\<rparr>))"
proof (cases d)
  case (RemoveChannel a)
  with assms channel_callback show ?thesis by blast
next
  case (RemoveSession s)
  with assms session_callback show ?thesis by blast
qed

lemma run_delayed_ok:
  assumes "server_ok sv" "delayedCallbacks sv = ds"
  shows "safely (\<lambda>sv'. server_ok sv' \<and> delayedCallbacks sv' = []) (run_delayed ds sv)"
  using assms
proof (induction ds arbitrary: sv)
  case (Cons d ds)
  from Cons.prems have "d \<in> set (delayedCallbacks sv)" by simp
  from callback_ok [OF Cons.prems(1) this] show ?case
    unfolding run_delayed.simps by (rule safely_bind) (use Cons in simp)
qed simp

end
