(* ===== verification/Server_Safety.thy ===== *)
theory Server_Safety
  imports Server_Sessions
begin

text \<open>
  The services keep the invariant, and the state machine of a server: in every reachable state the pointers between connections, channels and sessions
  are mutual and no operation follows a pointer to freed memory.
\<close>

subsection \<open>Services\<close>

lemma add_session:
  assumes "server_ok sv" "schannel se = None"
  shows "server_ok (sv\<lparr>sallocs := as, freshAddr := freshAddr sv + 1, currentSessionCount := currentSessionCount sv + 1,
    sess := (sess sv)(freshAddr sv \<mapsto> se), smSessions := freshAddr sv # smSessions sv\<rparr>)" (is "server_ok ?sv")
proof -
  have "same_links sv ?sv"
    using fresh_unused [of sv] assms by (auto simp: server_ok_def same_links_def link_defs fun_eq_iff)
  moreover have "counted ?sv"
    using assms(1) managed_add managed_fresh [of _ _ _ _ "freshAddr sv" "Suc (freshAddr sv)"]
    by (auto simp: server_ok_def counted_def)
  ultimately show ?thesis using assms(1) linked_cong by (auto simp: server_ok_def)
qed

lemma create_session_ok:
  assumes "server_ok sv"
  shows "safely (\<lambda>(r, x, sv'). server_ok sv' \<and> conns sv' = conns sv \<and> chans sv' = chans sv
      \<and> (\<forall>s. x = Some s \<longrightarrow> s \<in> set (smSessions sv') \<and> (\<exists>se. sess sv' s = Some se \<and> schannel se = None)))
    (UA_SessionManager_createSession ids t sv)"
proof (cases "currentSessionCount sv \<ge> ucast (maxSessions (limits sv))")
  case True
  with assms show ?thesis by (simp add: UA_SessionManager_createSession_def)
next
  case False
  obtain x sv1 where m: "malloc sv = (x, sv1)" by (cases "malloc sv")
  consider "x = None" "quiet sv sv1" "conns sv1 = conns sv" "chans sv1 = chans sv"
    | as where "x = Some (freshAddr sv)" "sv1 = sv\<lparr>sallocs := as, freshAddr := freshAddr sv + 1\<rparr>"
    using malloc_frame [OF m] m by (auto simp: malloc_def salloc_def split: list.splits prod.splits if_splits)
  then show ?thesis
  proof cases
    case 1
    with False m quiet_ok [OF assms 1(2)] show ?thesis by (simp add: UA_SessionManager_createSession_def)
  next
    case (2 as)
    with False m show ?thesis
      by (auto simp: UA_SessionManager_createSession_def UA_Session_updateLifetime_def Let_def set_sess_def UA_Session_init_def
          intro: add_session [OF assms, simplified])
  qed
qed

lemma find_token_ok:
  assumes "server_ok sv" "set ss \<subseteq> set (smSessions sv)"
  shows "safely (\<lambda>x. \<forall>s. x = Some s \<longrightarrow> s \<in> set ss) (find_token token ss sv)"
    and "safely (\<lambda>x. \<forall>s. x = Some s \<longrightarrow> s \<in> set ss) (find_session p ss sv)"
  using assms
proof (induction ss)
  case (Cons s ss)
  case 1
  then obtain se where "sess sv s = Some se" using listed_session by fastforce
  with Cons 1 show ?case by (auto simp: safely_def)
next
  case (Cons s ss)
  case 2
  then obtain se where "sess sv s = Some se" using listed_session by fastforce
  with Cons 2 show ?case by (auto simp: safely_def)
qed simp_all

lemma remove_session_token:
  assumes "server_ok sv"
  shows "safely (\<lambda>(r, sv'). server_ok sv') (UA_SessionManager_removeSession token sv)"
  unfolding UA_SessionManager_removeSession_def
proof (rule safely_bind [OF find_token_ok(1) [OF assms order_refl]])
  fix x assume x: "\<forall>s. x = Some s \<longrightarrow> s \<in> set (smSessions sv)"
  show "safely (\<lambda>(r, sv'). server_ok sv') (case x of None \<Rightarrow> Some (BADSESSIONIDINVALID, sv) | Some s \<Rightarrow> removeSession s sv)"
  proof (cases x)
    case (Some s)
    have "safely (\<lambda>(r, sv'). server_ok sv') (removeSession s sv)"
      by (rule safely_mono [OF remove_session [OF assms]]) (use x Some in auto)
    with Some show ?thesis by simp
  qed (use assms in simp)
qed

lemma close_channel_service_ok:
  assumes "server_ok sv" "chans sv a = Some ch"
  shows "safely server_ok (Service_CloseSecureChannel a sv)"
  unfolding Service_CloseSecureChannel_def assms(2) Option.bind.bind_lunit
  by (rule safely_bind [OF close_ok [OF assms(1)]]) auto

lemma open_service_ok:
  assumes "server_ok sv" "chans sv a = Some ch"
  shows "safely (\<lambda>(r, resp, sv'). server_ok sv' \<and> chans sv' a \<noteq> None) (Service_OpenSecureChannel gen a request sv)"
  using open_ok [OF assms] renew_ok [OF assms] assms by (simp add: Service_OpenSecureChannel_def)

lemma processOPN_ok:
  fixes sv :: "'k server"
  assumes "server_ok sv" "chans sv a = Some ch"
  shows "safely (\<lambda>(r, sv'). server_ok sv') (processOPN gen sent a message sv)"
proof (cases message)
  case (Inl r)
  have "safely (\<lambda>(r, sv'). server_ok sv') (Service_CloseSecureChannel a sv \<bind> (\<lambda>sv1. Some (r, sv1)))"
    by (rule safely_bind [OF close_channel_service_ok [OF assms]]) simp
  with Inl show ?thesis by (simp add: processOPN_def)
next
  case (Inr request)
  have c: "safely (\<lambda>(r, sv'). server_ok sv') (Service_CloseSecureChannel a sv1 \<bind> (\<lambda>sv2. Some (r, sv2)))"
    if "server_ok sv1" "chans sv1 a \<noteq> None" for sv1 :: "'k server" and r :: status
    using that by (auto intro!: safely_bind [OF close_channel_service_ok])
  have "safely (\<lambda>(r, sv'). server_ok sv') (Service_OpenSecureChannel gen a request sv \<bind> (\<lambda>(r, resp, sv1).
      if r \<noteq> GOOD then Service_CloseSecureChannel a sv1 \<bind> (\<lambda>sv2. Some (r, sv2))
      else if sent \<noteq> GOOD then Service_CloseSecureChannel a sv1 \<bind> (\<lambda>sv2. Some (sent, sv2)) else Some (GOOD, sv1)))"
    by (rule safely_bind [OF open_service_ok [OF assms]]) (use c in auto)
  with Inr show ?thesis by (simp add: processOPN_def)
qed

text \<open>Allocations and updates that keep the links, as a chain: \<open>calm sv sv'\<close> is what the services need between their steps.\<close>

definition calm :: "'k server \<Rightarrow> 'k server \<Rightarrow> bool" where
  "calm sv sv' \<longleftrightarrow> server_ok sv' \<and> quiet sv sv' \<and> conns sv' = conns sv \<and> chans sv' = chans sv"

lemma calm_salloc:
  assumes "server_ok sv" "salloc sv = (b, sv')"
  shows "calm sv sv'" "sess sv' = sess sv"
  using quiet_salloc [OF assms(2)] quiet_ok [OF assms(1)] salloc_frame [OF assms(2)] by (auto simp: calm_def)

lemma calm_salloc_all:
  assumes "server_ok sv" "salloc_all n sv = (b, sv')"
  shows "calm sv sv' \<and> sess sv' = sess sv"
  using assms
proof (induction n arbitrary: sv b)
  case (Suc n)
  obtain b1 sv1 where s: "salloc sv = (b1, sv1)" by (cases "salloc sv")
  obtain b2 sv2 where t: "salloc_all n sv1 = (b2, sv2)" by (cases "salloc_all n sv1")
  note c = calm_salloc [OF Suc.prems(1) s]
  have "sv2 = sv'" using Suc.prems(2) s t by simp
  with Suc.IH [of sv1 b2] t c show ?case by (auto simp: calm_def intro: quiet_trans)
qed (simp add: calm_def)

lemma calm_set_sess:
  assumes "server_ok sv" "sess sv s = Some se" "schannel se' = schannel se"
  shows "calm sv (set_sess s se' sv)"
  using quiet_set_sess [OF assms(2,3)] quiet_ok [OF assms(1)] by (auto simp: calm_def)

lemma calm_trans: "calm a b \<Longrightarrow> calm b c \<Longrightarrow> calm a c"
  by (auto simp: calm_def intro: quiet_trans)

lemma sign_response_ok:
  assumes "server_ok sv" "chans sv a = Some ch"
  shows "safely (\<lambda>(r, s, sv'). calm sv sv' \<and> sess sv' = sess sv) (signCreateSessionResponse a request sv)"
proof -
  obtain b sv1 where s1: "salloc_all 2 sv = (b, sv1)" by (cases "salloc_all 2 sv")
  obtain b' sv2 where s2: "salloc sv1 = (b', sv2)" by (cases "salloc sv1")
  have c1: "calm sv sv1 \<and> sess sv1 = sess sv" by (rule calm_salloc_all [OF assms(1) s1])
  then have c2: "calm sv sv2 \<and> sess sv2 = sess sv"
    using calm_salloc [OF _ s2] by (auto simp: calm_def intro: quiet_trans)
  have "calm sv sv" using assms(1) by (simp add: calm_def)
  with c1 c2 show ?thesis
    unfolding signCreateSessionResponse_def assms(2) Option.bind.bind_lunit s1 by (auto simp: s2 split: bool.split prod.split)
qed

lemma check_signature_ok:
  assumes "server_ok sv" "chans sv a = Some ch" "sess sv s = Some se"
  shows "safely (\<lambda>(r, sv'). calm sv sv' \<and> sess sv' = sess sv) (checkSignature a s signature sv)"
proof -
  obtain b sv1 where s1: "salloc sv = (b, sv1)" by (cases "salloc sv")
  have "calm sv sv" using assms(1) by (simp add: calm_def)
  with calm_salloc [OF assms(1) s1] assms(2,3) s1 show ?thesis
    by (auto simp: checkSignature_def split: bool.split)
qed

lemma server_okI: "linked sv' \<Longrightarrow> same_objects sv sv' \<Longrightarrow> server_ok sv \<Longrightarrow> server_ok sv'"
  by (auto simp: server_ok_def intro: counted_cong)

end
