(* ===== verification/Binary_Generic.thy ===== *)
theory Binary_Generic
  imports Types_Id
begin

text \<open>
  The generic part of src/src/ua_types_encoding_binary.c: structured types described by type
  tables, and the builtin types with nested content (ExtensionObject, Variant, DataValue, DiagnosticInfo).

  The type tables (\<open>UA_TYPES\<close> and the custom types of the application) are generated from the OPC UA
  schema and are a parameter \<open>T\<close>. A \<open>const UA_DataType*\<close> is a \<open>typeref\<close>, a position in one of the two
  tables. A value in memory is a \<open>uaval\<close>; the value of a builtin type has the constructor of that type (SByte
  and Byte share one, as do the other integers of a width, Float and Double as their bit patterns, and
  String, ByteString and XmlElement), so the jump tables, which the code indexes with the
  type index of the builtin type, are a case distinction over constructors here. The generated tables describe
  a builtin type as a structure whose only member is the type itself; \<open>fields_of\<close> is that view.
  Flags like \<open>hasValue\<close> with the field they announce are options.

  Each function of the source is a definition that takes the jump table as its first argument (\<open>enc\<close>,
  \<open>dec\<close>). For encoding the recursion is over the value and the knot is tied by the function
  \<open>encode_jump\<close>. Decoding follows the bytes: \<open>decode_jump\<close> has fuel for the nesting depth, and answers
  with the status \<open>OUT_OF_FUEL\<close>, which no function of the program uses, when it is used up; that this does not
  happen is proved in \<open>Binary_Generic_Correct\<close>.
\<close>

subsection \<open>Type descriptions\<close>

record dtmember =
  memberTypeIndex :: nat
  mpadding :: nat
  namespaceZero :: bool
  misArray :: bool

record dtype =
  dtypeId :: nodeid
  memSize :: nat
  typeIndex :: nat
  builtin :: bool
  overlayable :: bool
  binaryEncodingId :: u16
  members :: "dtmember list"

datatype typeref = Ns0 nat | Custom nat

record types =
  ns0types :: "dtype list"
  customtypes :: "dtype list"

definition null_dtype :: dtype where
  "null_dtype = \<lparr>dtypeId = NodeId_init, memSize = 0, typeIndex = 0, builtin = False, overlayable = False,
     binaryEncodingId = 0, members = []\<rparr>"

definition dtype_of :: "types \<Rightarrow> typeref \<Rightarrow> dtype" where
  "dtype_of T r =
     (case r of
        Ns0 i \<Rightarrow> if i < length (ns0types T) then ns0types T ! i else null_dtype
      | Custom i \<Rightarrow> if i < length (customtypes T) then customtypes T ! i else null_dtype)"

text \<open>\<open>typelists[!member->namespaceZero][member->memberTypeIndex]\<close>\<close>

definition membertype :: "typeref \<Rightarrow> dtmember \<Rightarrow> typeref" where
  "membertype r m =
     (if namespaceZero m then Ns0 (memberTypeIndex m)
      else case r of Ns0 _ \<Rightarrow> Ns0 (memberTypeIndex m) | Custom _ \<Rightarrow> Custom (memberTypeIndex m))"

definition UA_TYPES_INT32 :: nat where "UA_TYPES_INT32 = 5"
definition UA_TYPES_EXTENSIONOBJECT :: nat where "UA_TYPES_EXTENSIONOBJECT = 21"
definition UA_TYPES_VARIANT :: nat where "UA_TYPES_VARIANT = 23"
definition UA_TYPES_DIAGNOSTICINFO :: nat where "UA_TYPES_DIAGNOSTICINFO = 24"
definition UA_BUILTIN_TYPES_COUNT :: nat where "UA_BUILTIN_TYPES_COUNT = 25"

subsection \<open>Values\<close>

datatype uaval =
    VBoolean bool
  | VByte u8
  | VUInt16 u16
  | VUInt32 u32
  | VUInt64 u64
  | VString ustring
  | VGuid guid
  | VNodeId nodeid
  | VExpandedNodeId expandednodeid
  | VQualifiedName qualifiedname
  | VLocalizedText localizedtext
  | VExtensionObject extobj
  | VDataValue datavalue
  | VVariant variant
  | VDiagnosticInfo diaginfo
  | VStruct "field list"
and field =
    FScalar uaval
  | FArray "uaval list option"
and extobj =
    EoNoBody nodeid
  | EoByteString nodeid ustring
  | EoXml nodeid ustring
  | EoDecoded "typeref option" "uaval option"
and variant =
    VarEmpty
  | VarScalar typeref uaval
  | VarArray typeref "uaval list option" "u32 list option"
and datavalue =
    DataValue (dvValue: "variant option") (dvStatus: "u32 option")
      (dvSourceTimestamp: "u64 option") (dvSourcePicoseconds: "u16 option")
      (dvServerTimestamp: "u64 option") (dvServerPicoseconds: "u16 option")
and diaginfo =
    DiagnosticInfo (diSymbolicId: "u32 option") (diNamespaceUri: "u32 option")
      (diLocalizedText: "u32 option") (diLocale: "u32 option") (diAdditionalInfo: "ustring option")
      (diInnerStatusCode: "u32 option") (diInner: "diaginfo option")

definition fields_of :: "uaval \<Rightarrow> field list" where
  "fields_of v = (case v of VStruct fs \<Rightarrow> fs | _ \<Rightarrow> [FScalar v])"

text \<open>The memory of a value of an overlayable type, little-endian and without padding.\<close>

fun mem_val :: "uaval \<Rightarrow> u8 list" and mem_field :: "field \<Rightarrow> u8 list" where
  "mem_val (VBoolean b) = [of_bool b]"
| "mem_val (VByte b) = [b]"
| "mem_val (VUInt16 v) = UA_encode16 v"
| "mem_val (VUInt32 v) = UA_encode32 v"
| "mem_val (VUInt64 v) = UA_encode64 v"
| "mem_val (VGuid g) = guid_memory g"
| "mem_val (VStruct fs) = concat (map mem_field fs)"
| "mem_val _ = []"
| "mem_field (FScalar v) = mem_val v"
| "mem_field (FArray _) = []"

subsection \<open>Computing the size\<close>

type_synonym 'a sizer = "'a \<Rightarrow> nat"

definition Array_size :: "types \<Rightarrow> (typeref \<Rightarrow> uaval \<Rightarrow> nat) \<Rightarrow> typeref \<Rightarrow> uaval list option \<Rightarrow> nat" where
  "Array_size T sz r a = Array_calcSizeBinary (overlayable (dtype_of T r)) (memSize (dtype_of T r)) (sz r) a"

fun members_size :: "types \<Rightarrow> (typeref \<Rightarrow> uaval \<Rightarrow> nat) \<Rightarrow> typeref \<Rightarrow> dtmember list \<Rightarrow> field list \<Rightarrow> nat" where
  "members_size T sz r (m # ms) (FScalar v # fs) = sz (membertype r m) v + members_size T sz r ms fs"
| "members_size T sz r (m # ms) (FArray a # fs) = Array_size T sz (membertype r m) a + members_size T sz r ms fs"
| "members_size T sz r _ _ = 0"

definition UA_calcSizeBinary :: "types \<Rightarrow> (typeref \<Rightarrow> uaval \<Rightarrow> nat) \<Rightarrow> typeref \<Rightarrow> uaval \<Rightarrow> nat" where
  "UA_calcSizeBinary T sz r v = members_size T sz r (members (dtype_of T r)) (fields_of v)"

definition numeric_typeid :: "dtype \<Rightarrow> bool" where
  "numeric_typeid t = (case nident (dtypeId t) of Numeric _ \<Rightarrow> True | _ \<Rightarrow> False)"

definition ExtensionObject_calcSizeBinary :: "types \<Rightarrow> (typeref \<Rightarrow> uaval \<Rightarrow> nat) \<Rightarrow> extobj \<Rightarrow> nat" where
  "ExtensionObject_calcSizeBinary T sz src =
     (case src of
        EoDecoded (Some r) (Some v) \<Rightarrow>
          if \<not> numeric_typeid (dtype_of T r) then 0
          else 1 + NodeId_calcSizeBinary (dtypeId (dtype_of T r)) + 4 + sz r v
      | EoDecoded _ _ \<Rightarrow> 0
      | EoNoBody n \<Rightarrow> 1 + NodeId_calcSizeBinary n
      | EoByteString n b \<Rightarrow> 1 + NodeId_calcSizeBinary n + String_calcSizeBinary b
      | EoXml n b \<Rightarrow> 1 + NodeId_calcSizeBinary n + String_calcSizeBinary b)"

definition dims_size :: "u32 list option \<Rightarrow> nat" where
  "dims_size dims = (if arr_length dims > 0 then 4 + 4 * arr_length dims else 0)"

definition Variant_calcSizeBinary :: "types \<Rightarrow> (typeref \<Rightarrow> uaval \<Rightarrow> nat) \<Rightarrow> variant \<Rightarrow> nat" where
  "Variant_calcSizeBinary T sz src =
     (case src of
        VarEmpty \<Rightarrow> 1
      | VarScalar r v \<Rightarrow>
          (let t = dtype_of T r in
           if \<not> builtin t \<and> \<not> numeric_typeid t then 0
           else 1 + sz r v + (if builtin t then 0 else NodeId_calcSizeBinary (dtypeId t) + 1 + 4))
      | VarArray r a dims \<Rightarrow>
          (let t = dtype_of T r in
           if \<not> builtin t \<and> \<not> numeric_typeid t then 0
           else 1 + Array_size T sz r a
                  + (if builtin t then 0 else (NodeId_calcSizeBinary (dtypeId t) + 1 + 4) * arr_length a)
                  + dims_size dims))"

definition opt_size :: "nat \<Rightarrow> 'a option \<Rightarrow> nat" where
  "opt_size n x = (if x = None then 0 else n)"

definition DataValue_calcSizeBinary :: "(variant \<Rightarrow> nat) \<Rightarrow> datavalue \<Rightarrow> nat" where
  "DataValue_calcSizeBinary szvar src =
     1 + (case dvValue src of None \<Rightarrow> 0 | Some v \<Rightarrow> szvar v) + opt_size 4 (dvStatus src)
       + opt_size 8 (dvSourceTimestamp src) + opt_size 2 (dvSourcePicoseconds src)
       + opt_size 8 (dvServerTimestamp src) + opt_size 2 (dvServerPicoseconds src)"

fun DiagnosticInfo_calcSizeBinary :: "diaginfo \<Rightarrow> nat" where
  "DiagnosticInfo_calcSizeBinary (DiagnosticInfo sid uri txt loc add st inner) =
     1 + opt_size 4 sid + opt_size 4 uri + opt_size 4 txt + opt_size 4 loc
       + (case add of None \<Rightarrow> 0 | Some s \<Rightarrow> String_calcSizeBinary s) + opt_size 4 st
       + (case inner of None \<Rightarrow> 0 | Some d \<Rightarrow> DiagnosticInfo_calcSizeBinary d)"

subsection \<open>Encoding\<close>

type_synonym encode_table = "typeref \<Rightarrow> uaval \<Rightarrow> ectx \<Rightarrow> status \<times> ectx"

definition encode_array :: "encode_table \<Rightarrow> types \<Rightarrow> typeref \<Rightarrow> uaval list option \<Rightarrow> ectx \<Rightarrow> status \<times> ectx" where
  "encode_array enc T r a =
     Array_encodeBinary (overlayable (dtype_of T r)) (memSize (dtype_of T r)) mem_val (enc r) a"

text \<open>
  The loop of \<open>encodeBinaryInternal\<close> for one member that is not an array: when the member does not fit,
  the buffer is exchanged and the same member is tried again, unless the fresh buffer is smaller than the
  member in memory. \<open>retry_member\<close> counts down the answers of the callback as \<open>retry_element\<close> does.
\<close>

fun retry_member :: "nat \<Rightarrow> nat \<Rightarrow> (ectx \<Rightarrow> status \<times> ectx) \<Rightarrow> ectx \<Rightarrow> status \<times> ectx" where
  "retry_member 0 sz encodeType c = (BADCONNECTIONCLOSED, c)"
| "retry_member (Suc n) sz encodeType c =
     (let (ret, c1) = encodeType c in
      if ret = BADENCODINGLIMITSEXCEEDED then
        (let (ret2, c2) = exchangeBuffer (c1\<lparr>eout := eout c, eroom := eroom c\<rparr>) in
         if ret2 = BADENCODINGLIMITSEXCEEDED \<or> eroom c2 < sz then (BADRESPONSETOOLARGE, c2)
         else if ret2 \<noteq> GOOD then (ret2, c2)
         else retry_member n sz encodeType c2)
      else (ret, c1))"

text \<open>A value that does not have the members of its type is not a value of the program.\<close>

fun encode_members ::
  "encode_table \<Rightarrow> types \<Rightarrow> typeref \<Rightarrow> dtmember list \<Rightarrow> field list \<Rightarrow> ectx \<Rightarrow> status \<times> ectx" where
  "encode_members enc T r [] [] c = (GOOD, c)"
| "encode_members enc T r (m # ms) (FScalar v # fs) c =
     (let mt = membertype r m;
          (ret, c1) = retry_member (Suc (script_len c)) (memSize (dtype_of T mt)) (enc mt v) c
      in if ret \<noteq> GOOD then (ret, c1) else encode_members enc T r ms fs c1)"
| "encode_members enc T r (m # ms) (FArray a # fs) c =
     (let (ret, c1) = encode_array enc T (membertype r m) a c
      in if ret \<noteq> GOOD then (ret, c1) else encode_members enc T r ms fs c1)"
| "encode_members enc T r _ _ c = (BADINTERNALERROR, c)"

definition encodeBinaryInternal :: "encode_table \<Rightarrow> types \<Rightarrow> encode_table" where
  "encodeBinaryInternal enc T r v c =
     (if edepth c > UA_ENCODING_MAX_RECURSION then (BADENCODINGERROR, c)
      else
        (let (ret, c1) = encode_members enc T r (members (dtype_of T r)) (fields_of v) (c\<lparr>edepth := edepth c + 1\<rparr>)
         in (ret, c1\<lparr>edepth := edepth c1 - 1\<rparr>)))"

definition ExtensionObject_encodeBinary ::
  "encode_table \<Rightarrow> (typeref \<Rightarrow> uaval \<Rightarrow> nat) \<Rightarrow> types \<Rightarrow> extobj \<Rightarrow> ectx \<Rightarrow> status \<times> ectx" where
  "ExtensionObject_encodeBinary enc sz T src c =
     (let encoded = (\<lambda>n encoding body.
            (let (ret, c1) = NodeId_encodeBinary n c in
             if ret \<noteq> GOOD then (ret, c1)
             else
               (let (ret2, c2) = encodeWithExchangeBuffer (Byte_encodeBinary encoding) c1 in
                if ret2 \<noteq> GOOD then (ret2, c2)
                else case body of None \<Rightarrow> (GOOD, c2) | Some b \<Rightarrow> String_encodeBinary b c2)))
      in case src of
        EoNoBody n \<Rightarrow> encoded n 0 None
      | EoByteString n b \<Rightarrow> encoded n 1 (Some b)
      | EoXml n b \<Rightarrow> encoded n 2 (Some b)
      | EoDecoded (Some r) (Some v) \<Rightarrow>
          (let t = dtype_of T r in
           if \<not> numeric_typeid t then (BADENCODINGERROR, c)
           else
             (let (r1, c1) = NodeId_encodeBinary ((dtypeId t)\<lparr>nident := Numeric (ucast (binaryEncodingId t))\<rparr>) c;
                  (r2, c2) = Byte_encodeBinary 1 c1;
                  len = UA_calcSizeBinary T sz r v
              in if len > UA_INT32_MAX then (BADENCODINGERROR, c2)
                 else
                   (let (r3, c3) = UInt32_encodeBinary (of_nat len) c2 in
                    if r1 OR r2 OR r3 \<noteq> GOOD then (r1 OR r2 OR r3, c3)
                    else encodeBinaryInternal enc T r v c3)))
      | EoDecoded _ _ \<Rightarrow> (BADENCODINGERROR, c))"

fun wrap_elements :: "encode_table \<Rightarrow> types \<Rightarrow> typeref \<Rightarrow> uaval list \<Rightarrow> ectx \<Rightarrow> status \<times> ectx" where
  "wrap_elements enc T r [] c = (GOOD, c)"
| "wrap_elements enc T r (v # vs) c =
     (let (ret, c1) = encodeBinaryInternal enc T (Ns0 UA_TYPES_EXTENSIONOBJECT)
                        (VExtensionObject (EoDecoded (Some r) (Some v))) c
      in if ret \<noteq> GOOD then (ret, c1) else wrap_elements enc T r vs c1)"

definition Variant_encodeBinaryWrapExtensionObject ::
  "encode_table \<Rightarrow> types \<Rightarrow> typeref \<Rightarrow> bool \<Rightarrow> uaval list option \<Rightarrow> ectx \<Rightarrow> status \<times> ectx" where
  "Variant_encodeBinaryWrapExtensionObject enc T r isArray a c =
     (if isArray then
        (if arr_length a > UA_INT32_MAX then (BADENCODINGERROR, c)
         else
           (let (ret, c1) = UInt32_encodeBinary (of_nat (arr_length a)) c in
            if ret \<noteq> GOOD then (ret, c1) else wrap_elements enc T r (arr_list a) c1))
      else wrap_elements enc T r (arr_list a) c)"

definition is_alias :: "types \<Rightarrow> dtype \<Rightarrow> bool" where
  "is_alias T t \<longleftrightarrow> length (members t) = 1 \<and> builtin (dtype_of T (Ns0 (memberTypeIndex (members t ! 0))))"

definition variant_typebits :: "types \<Rightarrow> dtype \<Rightarrow> u8" where
  "variant_typebits T t =
     0x3F AND of_nat ((if builtin t then typeIndex t
                       else if is_alias T t then memberTypeIndex (members t ! 0)
                       else UA_TYPES_EXTENSIONOBJECT) + 1)"

definition Variant_encodeBinary :: "encode_table \<Rightarrow> types \<Rightarrow> variant \<Rightarrow> ectx \<Rightarrow> status \<times> ectx" where
  "Variant_encodeBinary enc T src c =
     (case src of
        VarEmpty \<Rightarrow> Byte_encodeBinary 0 c
      | VarScalar r v \<Rightarrow>
          (let t = dtype_of T r; (ret, c1) = Byte_encodeBinary (variant_typebits T t) c in
           if ret \<noteq> GOOD then (ret, c1)
           else if \<not> builtin t \<and> \<not> is_alias T t
           then Variant_encodeBinaryWrapExtensionObject enc T r False (Some [v]) c1
           else encodeBinaryInternal enc T r v c1)
      | VarArray r a dims \<Rightarrow>
          (let t = dtype_of T r;
               hasDimensions = arr_length dims > 0;
               encoding = variant_typebits T t OR 0x80 OR (if hasDimensions then 0x40 else 0);
               (ret, c1) = Byte_encodeBinary encoding c
           in if ret \<noteq> GOOD then (ret, c1)
              else
                (let (ret2, c2) =
                       (if \<not> builtin t \<and> \<not> is_alias T t
                        then Variant_encodeBinaryWrapExtensionObject enc T r True a c1
                        else encode_array enc T r a c1)
                 in if hasDimensions \<and> ret2 = GOOD
                    then Array_encodeBinary (overlayable (dtype_of T (Ns0 UA_TYPES_INT32)))
                           (memSize (dtype_of T (Ns0 UA_TYPES_INT32))) UA_encode32 UInt32_encodeBinary dims c2
                    else (ret2, c2))))"

definition encode_opt :: "(ectx \<Rightarrow> status \<times> ectx) option \<Rightarrow> status \<times> ectx \<Rightarrow> status \<times> ectx" where
  "encode_opt f rc =
     (case f of None \<Rightarrow> rc | Some e \<Rightarrow> (let (r2, c2) = encodeWithExchangeBuffer e (snd rc) in (fst rc OR r2, c2)))"

definition has_bit :: "nat \<Rightarrow> 'a option \<Rightarrow> u8" where
  "has_bit n x = push_bit n (of_bool (x \<noteq> None))"

definition DataValue_encodeBinary :: "encode_table \<Rightarrow> types \<Rightarrow> datavalue \<Rightarrow> ectx \<Rightarrow> status \<times> ectx" where
  "DataValue_encodeBinary enc T src c =
     (let encodingMask = has_bit 0 (dvValue src) OR has_bit 1 (dvStatus src) OR has_bit 2 (dvSourceTimestamp src)
            OR has_bit 3 (dvServerTimestamp src) OR has_bit 4 (dvSourcePicoseconds src)
            OR has_bit 5 (dvServerPicoseconds src);
          (ret, c1) = Byte_encodeBinary encodingMask c
      in if ret \<noteq> GOOD then (ret, c1)
         else
           (let (ret2, c2) = (case dvValue src of None \<Rightarrow> (GOOD, c1) | Some v \<Rightarrow> Variant_encodeBinary enc T v c1) in
            if ret2 \<noteq> GOOD then (ret2, c2)
            else
              (encode_opt (map_option UInt16_encodeBinary (dvServerPicoseconds src))
              (encode_opt (map_option UInt64_encodeBinary (dvServerTimestamp src))
              (encode_opt (map_option UInt16_encodeBinary (dvSourcePicoseconds src))
              (encode_opt (map_option UInt64_encodeBinary (dvSourceTimestamp src))
              (encode_opt (map_option UInt32_encodeBinary (dvStatus src)) (GOOD, c2))))))))"

definition encode_direct_opt :: "u32 option \<Rightarrow> status \<times> ectx \<Rightarrow> status \<times> ectx" where
  "encode_direct_opt x rc =
     (case x of None \<Rightarrow> rc | Some v \<Rightarrow> (let (r2, c2) = UInt32_encodeBinary v (snd rc) in (fst rc OR r2, c2)))"

definition DiagnosticInfo_encodeBinary :: "encode_table \<Rightarrow> types \<Rightarrow> diaginfo \<Rightarrow> ectx \<Rightarrow> status \<times> ectx" where
  "DiagnosticInfo_encodeBinary enc T src c =
     (let encodingMask = has_bit 0 (diSymbolicId src) OR has_bit 1 (diNamespaceUri src)
            OR has_bit 2 (diLocalizedText src) OR has_bit 3 (diLocale src)
            OR has_bit 4 (diAdditionalInfo src) OR has_bit 5 (diInner src);
          (ret, c1) =
            encode_direct_opt (diLocale src)
              (encode_direct_opt (diLocalizedText src)
                (encode_direct_opt (diNamespaceUri src)
                  (encode_direct_opt (diSymbolicId src) (Byte_encodeBinary encodingMask c))))
      in if ret \<noteq> GOOD then (ret, c1)
         else
           (let (ret2, c2) = (case diAdditionalInfo src of None \<Rightarrow> (GOOD, c1) | Some s \<Rightarrow> String_encodeBinary s c1) in
            if ret2 \<noteq> GOOD then (ret2, c2)
            else
              (let (ret3, c3) = (case diInnerStatusCode src of
                     None \<Rightarrow> (GOOD, c2) | Some v \<Rightarrow> encodeWithExchangeBuffer (UInt32_encodeBinary v) c2) in
               if ret3 \<noteq> GOOD then (ret3, c3)
               else case diInner src of
                 None \<Rightarrow> (GOOD, c3)
               | Some d \<Rightarrow> encodeBinaryInternal enc T (Ns0 UA_TYPES_DIAGNOSTICINFO) (VDiagnosticInfo d) c3)))"

subsection \<open>Tying the knot over values\<close>

text \<open>
  The measure of the recursion. A structure in a Variant is wrapped into an ExtensionObject before it is
  encoded, so a Variant weighs more than the ExtensionObject with its content.
\<close>

fun vsize :: "uaval \<Rightarrow> nat" and fsize :: "field \<Rightarrow> nat" and eosize :: "extobj \<Rightarrow> nat"
  and varsize :: "variant \<Rightarrow> nat" and disize :: "diaginfo \<Rightarrow> nat" where
  "vsize (VExtensionObject e) = eosize e"
| "vsize (VDataValue (DataValue x st sts sp vts vp)) = Suc (case x of None \<Rightarrow> 0 | Some y \<Rightarrow> varsize y)"
| "vsize (VVariant x) = varsize x"
| "vsize (VDiagnosticInfo d) = disize d"
| "vsize (VStruct fs) = Suc (sum_list (map fsize fs))"
| "vsize _ = 1"
| "fsize (FScalar v) = Suc (vsize v)"
| "fsize (FArray a) = (case a of None \<Rightarrow> 0 | Some vs \<Rightarrow> Suc (sum_list (map vsize vs)))"
| "eosize (EoDecoded r (Some v)) = Suc (vsize v)"
| "eosize _ = 1"
| "varsize (VarScalar r v) = vsize v + 3"
| "varsize (VarArray r a dims) = 3 + (case a of None \<Rightarrow> 0 | Some vs \<Rightarrow> sum_list (map vsize vs))"
| "varsize VarEmpty = 1"
| "disize (DiagnosticInfo sid uri txt loc add st inner) = Suc (case inner of None \<Rightarrow> 0 | Some d \<Rightarrow> disize d)"

lemma vsize_in_array: "v \<in> set (arr_list a) \<Longrightarrow> vsize v < fsize (FArray a)"
proof (cases a)
  case (Some vs)
  assume "v \<in> set (arr_list a)"
  then have "vsize v \<le> sum_list (map vsize vs)"
    using Some by (auto intro: member_le_sum_list)
  then show ?thesis
    using Some by simp
qed simp

lemma fsize_in_struct: "f \<in> set fs \<Longrightarrow> fsize f < vsize (VStruct fs)"
  by (simp add: less_Suc_eq_le member_le_sum_list)

text \<open>Congruence rules: the functions call the jump table on smaller values only.\<close>

lemma retry_element_cong [fundef_cong]:
  "n = n' \<Longrightarrow> c = c' \<Longrightarrow> (\<And>c. f c = g c) \<Longrightarrow> retry_element n f c = retry_element n' g c'"
proof -
  assume "n = n'" "c = c'" "\<And>c. f c = g c"
  moreover from this(3) have "f = g"
    by (rule ext)
  ultimately show ?thesis by simp
qed

lemma Array_encodeBinaryComplex_cong:
  "(\<And>x c. x \<in> set xs \<Longrightarrow> f x c = g x c) \<Longrightarrow> Array_encodeBinaryComplex f xs c = Array_encodeBinaryComplex g xs c"
proof (induction xs arbitrary: c)
  case (Cons x xs)
  have "f x = g x"
    using Cons.prems by (intro ext) simp
  with Cons show ?case
    by (simp add: split_def Let_def del: retry_element.simps)
qed simp

lemma encode_array_cong:
  assumes "\<And>v c. v \<in> set (arr_list a) \<Longrightarrow> enc r v c = enc' r v c"
  shows "encode_array enc T r a c = encode_array enc' T r a c"
proof -
  have "Array_encodeBinaryComplex (enc r) (arr_list a) c = Array_encodeBinaryComplex (enc' r) (arr_list a) c" for c
    using assms by (rule Array_encodeBinaryComplex_cong)
  then show ?thesis
    by (simp add: encode_array_def Array_encodeBinary_def split_def Let_def)
qed

lemma encode_members_cong:
  assumes "\<And>r' v' c'. \<exists>f \<in> set fs. vsize v' < fsize f \<Longrightarrow> enc r' v' c' = enc' r' v' c'"
  shows "encode_members enc T r ms fs c = encode_members enc' T r ms fs c"
  using assms
proof (induction fs arbitrary: ms c)
  case Nil
  then show ?case by (cases ms) simp_all
next
  case (Cons f fs)
  show ?case
  proof (cases ms)
    case Nil
    then show ?thesis by simp
  next
    case ms: (Cons m ms')
    have IH: "encode_members enc T r ms' fs c1 = encode_members enc' T r ms' fs c1" for c1
      using Cons.prems by (intro Cons.IH) auto
    show ?thesis
    proof (cases f)
      case (FScalar v)
      then have "enc (membertype r m) v = enc' (membertype r m) v"
        using Cons.prems by (intro ext) auto
      then show ?thesis
        using IH by (simp add: ms FScalar split_def Let_def del: retry_member.simps)
    next
      case (FArray a)
      have "encode_array enc T (membertype r m) a c = encode_array enc' T (membertype r m) a c"
        using Cons.prems vsize_in_array [of _ a] FArray by (intro encode_array_cong) auto
      then show ?thesis
        using IH by (simp add: ms FArray split_def Let_def)
    qed
  qed
qed

lemma fields_of_size: "f \<in> set (fields_of v) \<Longrightarrow> fsize f \<le> Suc (vsize v)"
  using fsize_in_struct by (cases v) (fastforce simp: fields_of_def simp del: vsize.simps)+

lemma encodeBinaryInternal_cong:
  assumes "\<And>r' v' c'. vsize v' \<le> vsize v \<Longrightarrow> enc r' v' c' = enc' r' v' c'"
  shows "encodeBinaryInternal enc T r v c = encodeBinaryInternal enc' T r v c"
proof -
  have "enc r' v' c' = enc' r' v' c'" if "\<exists>f \<in> set (fields_of v). vsize v' < fsize f" for r' v' c'
    using that fields_of_size [of _ v] assms by (metis less_Suc_eq_le order_less_le_trans)
  then have "encode_members enc T r ms (fields_of v) d = encode_members enc' T r ms (fields_of v) d" for ms d
    by (rule encode_members_cong)
  then show ?thesis
    by (simp add: encodeBinaryInternal_def)
qed

lemma struct_encode_cong [fundef_cong]:
  assumes "T = T'" "r = r'" "fs = fs'" "c = c'"
    and "\<And>q w d. vsize w < vsize (VStruct fs') \<Longrightarrow> enc q w d = enc' q w d"
  shows "encodeBinaryInternal enc T r (VStruct fs) c = encodeBinaryInternal enc' T' r' (VStruct fs') c'"
proof -
  have "enc q w d = enc' q w d" if "\<exists>f \<in> set fs. vsize w < fsize f" for q w d
    using that fsize_in_struct [of _ fs] assms(3,5) by (metis order_less_trans)
  then have "encode_members enc T r ms fs d = encode_members enc' T r ms fs d" for ms d
    by (rule encode_members_cong)
  with assms(1-4) show ?thesis
    by (simp add: encodeBinaryInternal_def fields_of_def)
qed

lemma ExtensionObject_encode_cong [fundef_cong]:
  assumes "sz = sz'" "T = T'" "e = e'" "c = c'"
    and "\<And>q w d. vsize w < vsize (VExtensionObject e') \<Longrightarrow> enc q w d = enc' q w d"
  shows "ExtensionObject_encodeBinary enc sz T e c = ExtensionObject_encodeBinary enc' sz' T' e' c'"
proof -
  have "encodeBinaryInternal enc T r v d = encodeBinaryInternal enc' T r v d"
    if "e = EoDecoded (Some r) (Some v)" for r v d
    using that assms(3,5) by (intro encodeBinaryInternal_cong) simp
  then show ?thesis
    unfolding assms(1-4) [symmetric] ExtensionObject_encodeBinary_def Let_def
    by (simp split: extobj.split option.split prod.split)
qed

lemma wrap_elements_cong:
  assumes "\<And>q w d. \<exists>v \<in> set vs. vsize w \<le> Suc (vsize v) \<Longrightarrow> enc q w d = enc' q w d"
  shows "wrap_elements enc T r vs c = wrap_elements enc' T r vs c"
  using assms
proof (induction vs arbitrary: c)
  case (Cons v vs)
  have "encodeBinaryInternal enc T q (VExtensionObject (EoDecoded (Some r) (Some v))) d
      = encodeBinaryInternal enc' T q (VExtensionObject (EoDecoded (Some r) (Some v))) d" for q d
    using Cons.prems by (intro encodeBinaryInternal_cong) simp
  moreover have "wrap_elements enc T r vs d = wrap_elements enc' T r vs d" for d
    using Cons.prems by (intro Cons.IH) auto
  ultimately show ?case
    by (simp add: split_def Let_def)
qed simp

lemma vsize_in_varray: "v \<in> set (arr_list a) \<Longrightarrow> vsize v + 3 \<le> varsize (VarArray r a dims)"
  by (cases a) (auto intro: member_le_sum_list)

lemma Variant_encode_cong [fundef_cong]:
  assumes "T = T'" "x = x'" "c = c'"
    and "\<And>q w d. vsize w < varsize x' \<Longrightarrow> enc q w d = enc' q w d"
  shows "Variant_encodeBinary enc T x c = Variant_encodeBinary enc' T' x' c'"
proof (cases x')
  case VarEmpty
  then show ?thesis using assms(1-3) by (simp add: Variant_encodeBinary_def)
next
  case (VarScalar r v)
  then have "encodeBinaryInternal enc T r v d = encodeBinaryInternal enc' T r v d"
    and "wrap_elements enc T r [v] d = wrap_elements enc' T r [v] d" for d
    using assms(4) by (intro encodeBinaryInternal_cong wrap_elements_cong; simp)+
  then show ?thesis
    unfolding assms(1-3) [symmetric]
    using VarScalar assms(2)
    by (simp add: Variant_encodeBinary_def Variant_encodeBinaryWrapExtensionObject_def Let_def split_def
        del: wrap_elements.simps)
next
  case (VarArray r a dims)
  have "wrap_elements enc T r (arr_list a) d = wrap_elements enc' T r (arr_list a) d" for d
    using assms(4) vsize_in_varray [of _ a r dims] VarArray by (intro wrap_elements_cong) fastforce
  moreover have "encode_array enc T r a d = encode_array enc' T r a d" for d
    using assms(4) vsize_in_varray [of _ a r dims] VarArray by (intro encode_array_cong) fastforce
  ultimately show ?thesis
    unfolding assms(1-3) [symmetric]
    using VarArray assms(2)
    by (simp add: Variant_encodeBinary_def Variant_encodeBinaryWrapExtensionObject_def Let_def split_def)
qed

lemma DataValue_encode_cong [fundef_cong]:
  assumes "T = T'" "x = x'" "c = c'"
    and "\<And>q w d. vsize w < vsize (VDataValue x') \<Longrightarrow> enc q w d = enc' q w d"
  shows "DataValue_encodeBinary enc T x c = DataValue_encodeBinary enc' T' x' c'"
proof -
  have "Variant_encodeBinary enc T v d = Variant_encodeBinary enc' T v d" if "dvValue x = Some v" for v d
  proof (rule Variant_encode_cong [OF refl refl refl])
    show "enc q w e = enc' q w e" if "vsize w < varsize v" for q w e
      using that \<open>dvValue x = Some v\<close> assms(2,4) by (cases x') simp
  qed
  then show ?thesis
    unfolding assms(1-3) [symmetric]
    by (cases "dvValue x") (simp_all add: DataValue_encodeBinary_def Let_def split_def)
qed

lemma DiagnosticInfo_encode_cong [fundef_cong]:
  assumes "T = T'" "x = x'" "c = c'"
    and "\<And>q w d. vsize w < vsize (VDiagnosticInfo x') \<Longrightarrow> enc q w d = enc' q w d"
  shows "DiagnosticInfo_encodeBinary enc T x c = DiagnosticInfo_encodeBinary enc' T' x' c'"
proof -
  have "encodeBinaryInternal enc T r (VDiagnosticInfo i) d = encodeBinaryInternal enc' T r (VDiagnosticInfo i) d"
    if "diInner x = Some i" for r i d
  proof (rule encodeBinaryInternal_cong)
    show "enc q w e = enc' q w e" if "vsize w \<le> vsize (VDiagnosticInfo i)" for q w e
      using that \<open>diInner x = Some i\<close> assms(2,4) by (cases x') simp
  qed
  then show ?thesis
    unfolding assms(1-3) [symmetric]
    by (cases "diInner x") (simp_all add: DiagnosticInfo_encodeBinary_def Let_def split_def)
qed

text \<open>The same for the sizes.\<close>

lemma Array_size_cong:
  assumes "\<And>v. v \<in> set (arr_list a) \<Longrightarrow> sz r v = sz' r v"
  shows "Array_size T sz r a = Array_size T sz' r a"
proof -
  have "map (sz r) (arr_list a) = map (sz' r) (arr_list a)"
    using assms by simp
  then show ?thesis
    by (simp only: Array_size_def Array_calcSizeBinary_def)
qed

lemma members_size_cong:
  assumes "\<And>r' v'. \<exists>f \<in> set fs. vsize v' < fsize f \<Longrightarrow> sz r' v' = sz' r' v'"
  shows "members_size T sz r ms fs = members_size T sz' r ms fs"
  using assms
proof (induction fs arbitrary: ms)
  case Nil
  then show ?case by (cases ms) simp_all
next
  case (Cons f fs)
  have IH: "members_size T sz r ms' fs = members_size T sz' r ms' fs" for ms'
    using Cons.prems by (intro Cons.IH) auto
  show ?case
  proof (cases f)
    case (FScalar v)
    then show ?thesis using IH Cons.prems by (cases ms) auto
  next
    case (FArray a)
    have "Array_size T sz q a = Array_size T sz' q a" for q
      using Cons.prems vsize_in_array [of _ a] FArray by (intro Array_size_cong) auto
    then show ?thesis using IH FArray by (cases ms) auto
  qed
qed

lemma UA_calcSizeBinary_cong [fundef_cong]:
  assumes "T = T'" "r = r'" "fs = fs'"
    and "\<And>q w. vsize w < vsize (VStruct fs') \<Longrightarrow> sz q w = sz' q w"
  shows "UA_calcSizeBinary T sz r (VStruct fs) = UA_calcSizeBinary T' sz' r' (VStruct fs')"
proof -
  have "members_size T sz r ms fs = members_size T sz' r ms fs" for ms
    using assms(3,4) fsize_in_struct [of _ fs] by (intro members_size_cong) (metis order_less_trans)
  with assms(1-3) show ?thesis
    by (simp add: UA_calcSizeBinary_def fields_of_def)
qed

lemma ExtensionObject_size_cong [fundef_cong]:
  assumes "T = T'" "e = e'" and "\<And>q w. vsize w < vsize (VExtensionObject e') \<Longrightarrow> sz q w = sz' q w"
  shows "ExtensionObject_calcSizeBinary T sz e = ExtensionObject_calcSizeBinary T' sz' e'"
  unfolding assms(1,2) ExtensionObject_calcSizeBinary_def
  using assms(3) by (auto split: extobj.split option.split)

lemma Variant_size_cong [fundef_cong]:
  assumes "T = T'" "x = x'" and "\<And>q w. vsize w < varsize x' \<Longrightarrow> sz q w = sz' q w"
  shows "Variant_calcSizeBinary T sz x = Variant_calcSizeBinary T' sz' x'"
proof (cases x')
  case (VarArray r a dims)
  have "Array_size T' sz r a = Array_size T' sz' r a"
    using assms(3) vsize_in_varray [of _ a r dims] VarArray by (intro Array_size_cong) fastforce
  then show ?thesis
    using VarArray assms(1,2) by (simp add: Variant_calcSizeBinary_def Let_def)
qed (use assms in \<open>simp_all add: Variant_calcSizeBinary_def Let_def\<close>)

lemma DataValue_size_cong [fundef_cong]:
  assumes "x = x'" and "\<And>y. varsize y < vsize (VDataValue x') \<Longrightarrow> f y = f' y"
  shows "DataValue_calcSizeBinary f x = DataValue_calcSizeBinary f' x'"
  using assms by (cases x') (auto simp: DataValue_calcSizeBinary_def split: option.split)

text \<open>\<open>calcSizeBinaryJumpTable\<close>\<close>

function size_jump :: "types \<Rightarrow> typeref \<Rightarrow> uaval \<Rightarrow> nat" where
  "size_jump T r (VBoolean b) = memSize (dtype_of T r)"
| "size_jump T r (VByte b) = memSize (dtype_of T r)"
| "size_jump T r (VUInt16 x) = memSize (dtype_of T r)"
| "size_jump T r (VUInt32 x) = memSize (dtype_of T r)"
| "size_jump T r (VUInt64 x) = memSize (dtype_of T r)"
| "size_jump T r (VString s) = String_calcSizeBinary s"
| "size_jump T r (VGuid g) = 16"
| "size_jump T r (VNodeId n) = NodeId_calcSizeBinary n"
| "size_jump T r (VExpandedNodeId n) = ExpandedNodeId_calcSizeBinary n"
| "size_jump T r (VQualifiedName q) = QualifiedName_calcSizeBinary q"
| "size_jump T r (VLocalizedText l) = LocalizedText_calcSizeBinary l"
| "size_jump T r (VExtensionObject e) = ExtensionObject_calcSizeBinary T (size_jump T) e"
| "size_jump T r (VDataValue d) = DataValue_calcSizeBinary (\<lambda>x. Variant_calcSizeBinary T (size_jump T) x) d"
| "size_jump T r (VVariant x) = Variant_calcSizeBinary T (size_jump T) x"
| "size_jump T r (VDiagnosticInfo d) = DiagnosticInfo_calcSizeBinary d"
| "size_jump T r (VStruct fs) = UA_calcSizeBinary T (size_jump T) r (VStruct fs)"
  by pat_completeness auto
termination
  by (relation "measure (\<lambda>(T, r, v). vsize v)") (auto simp del: vsize.simps(5))

text \<open>\<open>encodeBinaryJumpTable\<close>\<close>

function encode_jump :: "types \<Rightarrow> encode_table" where
  "encode_jump T r (VBoolean b) c = Boolean_encodeBinary b c"
| "encode_jump T r (VByte b) c = Byte_encodeBinary b c"
| "encode_jump T r (VUInt16 x) c = UInt16_encodeBinary x c"
| "encode_jump T r (VUInt32 x) c = UInt32_encodeBinary x c"
| "encode_jump T r (VUInt64 x) c = UInt64_encodeBinary x c"
| "encode_jump T r (VString s) c = String_encodeBinary s c"
| "encode_jump T r (VGuid g) c = Guid_encodeBinary g c"
| "encode_jump T r (VNodeId n) c = NodeId_encodeBinary n c"
| "encode_jump T r (VExpandedNodeId n) c = ExpandedNodeId_encodeBinary n c"
| "encode_jump T r (VQualifiedName q) c = QualifiedName_encodeBinary q c"
| "encode_jump T r (VLocalizedText l) c = LocalizedText_encodeBinary l c"
| "encode_jump T r (VExtensionObject e) c = ExtensionObject_encodeBinary (encode_jump T) (size_jump T) T e c"
| "encode_jump T r (VDataValue d) c = DataValue_encodeBinary (encode_jump T) T d c"
| "encode_jump T r (VVariant x) c = Variant_encodeBinary (encode_jump T) T x c"
| "encode_jump T r (VDiagnosticInfo d) c = DiagnosticInfo_encodeBinary (encode_jump T) T d c"
| "encode_jump T r (VStruct fs) c = encodeBinaryInternal (encode_jump T) T r (VStruct fs) c"
  by pat_completeness auto
termination
  by (relation "measure (\<lambda>(T, r, v, c). vsize v)") (auto simp del: vsize.simps(5))

definition UA_encodeBinary :: "types \<Rightarrow> typeref \<Rightarrow> uaval \<Rightarrow> ectx \<Rightarrow> status \<times> ectx" where
  "UA_encodeBinary T r v c = encodeBinaryInternal (encode_jump T) T r v (c\<lparr>edepth := 0\<rparr>)"

subsection \<open>Decoding\<close>

type_synonym decode_table = "typeref \<Rightarrow> uaval decoder"

definition OUT_OF_FUEL :: status where "OUT_OF_FUEL = 0xFFFFFFFF"

text \<open>
  What a decoder returns as the value when it fails stands for the partly filled destination, which
  \<open>UA_decodeBinary\<close> clears.
\<close>

definition null_val :: uaval where "null_val = VStruct []"

definition dmap :: "('a \<Rightarrow> 'b) \<Rightarrow> 'a decoder \<Rightarrow> 'b decoder" where
  "dmap f d c = (let (ret, x, c1) = d c in (ret, f x, c1))"

text \<open>
  An overlayable array is copied into memory as it is. \<open>overlay_read\<close> is the value that the memory of an
  element then holds: little-endian numbers and the members of structures one behind the other.
  Structures of overlayable members do not nest deeper than the encoder could have written them.
\<close>

fun overlay_members :: "(typeref \<Rightarrow> u8 list \<Rightarrow> uaval) \<Rightarrow> types \<Rightarrow> typeref \<Rightarrow> dtmember list \<Rightarrow> u8 list \<Rightarrow> field list" where
  "overlay_members rd T r [] bs = []"
| "overlay_members rd T r (m # ms) bs =
     (let sz = memSize (dtype_of T (membertype r m)) in
      FScalar (rd (membertype r m) (take sz bs)) # overlay_members rd T r ms (drop sz bs))"

definition overlay_builtin :: "nat \<Rightarrow> u8 list \<Rightarrow> uaval" where
  "overlay_builtin i bs =
     (if i = 0 then VBoolean (hd bs > 0)
      else if i = 1 \<or> i = 2 then VByte (hd bs)
      else if i = 3 \<or> i = 4 then VUInt16 (UA_decode16 bs)
      else if i = 5 \<or> i = 6 \<or> i = 9 \<or> i = 18 then VUInt32 (UA_decode32 bs)
      else if i = 7 \<or> i = 8 \<or> i = 10 \<or> i = 12 then VUInt64 (UA_decode64 bs)
      else if i = 13 then
        VGuid \<lparr>data1 = UA_decode32 (take 4 bs), data2 = UA_decode16 (take 2 (drop 4 bs)),
               data3 = UA_decode16 (take 2 (drop 6 bs)), data4 = drop 8 bs\<rparr>
      else null_val)"

fun overlay_read :: "nat \<Rightarrow> types \<Rightarrow> typeref \<Rightarrow> u8 list \<Rightarrow> uaval" where
  "overlay_read 0 T r bs = null_val"
| "overlay_read (Suc n) T r bs =
     (if builtin (dtype_of T r) then overlay_builtin (typeIndex (dtype_of T r)) bs
      else VStruct (overlay_members (overlay_read n T) T r (members (dtype_of T r)) bs))"

definition decode_array :: "decode_table \<Rightarrow> types \<Rightarrow> typeref \<Rightarrow> uaval list option decoder" where
  "decode_array dec T r =
     Array_decodeBinary (overlayable (dtype_of T r)) (memSize (dtype_of T r))
       (overlay_read (UA_ENCODING_MAX_RECURSION + 2) T r) (dec r)"

fun decode_members :: "decode_table \<Rightarrow> types \<Rightarrow> typeref \<Rightarrow> dtmember list \<Rightarrow> field list decoder" where
  "decode_members dec T r [] c = (GOOD, [], c)"
| "decode_members dec T r (m # ms) c =
     (let mt = membertype r m;
          (ret, f, c1) = (if misArray m then dmap FArray (decode_array dec T mt) c else dmap FScalar (dec mt) c)
      in if ret \<noteq> GOOD then (ret, [], c1)
         else (let (ret2, fs, c2) = decode_members dec T r ms c1 in (ret2, f # fs, c2)))"

definition value_of :: "dtype \<Rightarrow> field list \<Rightarrow> uaval" where
  "value_of t fs = (if builtin t then (case fs of [FScalar v] \<Rightarrow> v | _ \<Rightarrow> null_val) else VStruct fs)"

definition decodeBinaryInternal :: "decode_table \<Rightarrow> types \<Rightarrow> decode_table" where
  "decodeBinaryInternal dec T r c =
     (if ddepth c > UA_ENCODING_MAX_RECURSION then (BADENCODINGERROR, null_val, c)
      else
        (let (ret, fs, c1) = decode_members dec T r (members (dtype_of T r)) (c\<lparr>ddepth := ddepth c + 1\<rparr>)
         in (ret, value_of (dtype_of T r) fs, c1\<lparr>ddepth := ddepth c1 - 1\<rparr>)))"

fun find_type :: "u32 \<Rightarrow> u16 \<Rightarrow> nat \<Rightarrow> dtype list \<Rightarrow> nat option" where
  "find_type num ns i [] = None"
| "find_type num ns i (t # ts) =
     (if ucast (binaryEncodingId t) = num \<and> namespaceIndex (dtypeId t) = ns then Some i
      else find_type num ns (Suc i) ts)"

definition UA_findDataTypeByBinaryInternal :: "types \<Rightarrow> nodeid \<Rightarrow> typeref option" where
  "UA_findDataTypeByBinaryInternal T tid =
     (case nident tid of
        Numeric num \<Rightarrow>
          (case find_type num (namespaceIndex tid) 0 (ns0types T) of
             Some i \<Rightarrow> Some (Ns0 i)
           | None \<Rightarrow>
               if namespaceIndex tid \<noteq> 0
               then map_option Custom (find_type num (namespaceIndex tid) 0 (customtypes T))
               else None)
      | _ \<Rightarrow> None)"

definition UA_findDataTypeByBinary :: "types \<Rightarrow> nodeid \<Rightarrow> typeref option" where
  "UA_findDataTypeByBinary T tid = UA_findDataTypeByBinaryInternal (T\<lparr>customtypes := []\<rparr>) tid"

definition ExtensionObject_decodeBinaryContent :: "decode_table \<Rightarrow> types \<Rightarrow> nodeid \<Rightarrow> extobj decoder" where
  "ExtensionObject_decodeBinaryContent dec T tid c =
     (case UA_findDataTypeByBinaryInternal T tid of
        None \<Rightarrow> dmap (EoByteString tid) String_decodeBinary c
      | Some r \<Rightarrow> dmap (\<lambda>v. EoDecoded (Some r) (Some v)) (dec r) (c\<lparr>dpos := dpos c + 4\<rparr>))"

definition ExtensionObject_decodeBinary :: "decode_table \<Rightarrow> types \<Rightarrow> extobj decoder" where
  "ExtensionObject_decodeBinary dec T c =
     (let (r1, tid, c1) = NodeId_decodeBinary c;
          (r2, encoding, c2) = Byte_decodeBinary c1
      in if r1 OR r2 \<noteq> GOOD then (r1 OR r2, EoNoBody NodeId_init, c2)
         else if encoding = 1 then ExtensionObject_decodeBinaryContent dec T tid c2
         else if encoding = 0 then (GOOD, EoNoBody tid, c2)
         else if encoding = 2 then dmap (EoXml tid) String_decodeBinary c2
         else (BADDECODINGERROR, EoNoBody NodeId_init, c2))"

definition Variant_decodeBinaryUnwrapExtensionObject :: "decode_table \<Rightarrow> types \<Rightarrow> variant decoder" where
  "Variant_decodeBinaryUnwrapExtensionObject dec T c =
     (let (ret, tid, c1) = NodeId_decodeBinary c in
      if ret \<noteq> GOOD then (ret, VarEmpty, c1)
      else
        (let (ret2, encoding, c2) = Byte_decodeBinary c1 in
         if ret2 \<noteq> GOOD then (ret2, VarEmpty, c2)
         else
           (let (r, c3) =
                  (case (if encoding = 1 then UA_findDataTypeByBinaryInternal T tid else None) of
                     Some r \<Rightarrow> (r, c2\<lparr>dpos := dpos c2 + 4\<rparr>)
                   | None \<Rightarrow> (Ns0 UA_TYPES_EXTENSIONOBJECT, c2\<lparr>dpos := dpos c\<rparr>))
            in dmap (VarScalar r) (dec r) c3)))"

definition Int32_decode_array :: "types \<Rightarrow> u32 list option decoder" where
  "Int32_decode_array T =
     Array_decodeBinary (overlayable (dtype_of T (Ns0 UA_TYPES_INT32))) (memSize (dtype_of T (Ns0 UA_TYPES_INT32)))
       UA_decode32 UInt32_decodeBinary"

text \<open>The type index of the code is unsigned: for the mask value 0 it is too large after the subtraction.\<close>

definition Variant_decodeBinary :: "decode_table \<Rightarrow> types \<Rightarrow> variant decoder" where
  "Variant_decodeBinary dec T c =
     (let (ret, encodingByte, c1) = Byte_decodeBinary c in
      if ret \<noteq> GOOD then (ret, VarEmpty, c1)
      else if encodingByte = 0 then (GOOD, VarEmpty, c1)
      else
        (let isArray = (encodingByte AND 0x80 \<noteq> 0);
             ti = unat (encodingByte AND 0x3F)
         in if ti = 0 \<or> ti - 1 > UA_TYPES_DIAGNOSTICINFO then (BADDECODINGERROR, VarEmpty, c1)
            else if ti - 1 = UA_TYPES_VARIANT \<and> \<not> isArray then (BADDECODINGERROR, VarEmpty, c1)
            else if ddepth c1 > UA_ENCODING_MAX_RECURSION then (BADENCODINGERROR, VarEmpty, c1)
            else
              (let c2 = c1\<lparr>ddepth := ddepth c1 + 1\<rparr>; r = Ns0 (ti - 1) in
               if isArray then
                 (let (ret2, a, c3) = decode_array dec T r c2;
                      (ret3, dims, c4) =
                        (if encodingByte AND 0x40 \<noteq> 0
                         then (let (rd, ds, cd) = Int32_decode_array T c3 in (ret2 OR rd, ds, cd))
                         else (ret2, None, c3))
                  in (ret3, VarArray r a dims, c4\<lparr>ddepth := ddepth c4 - 1\<rparr>))
               else
                 (let (ret2, x, c3) =
                        (if ti - 1 \<noteq> UA_TYPES_EXTENSIONOBJECT then dmap (VarScalar r) (dec r) c2
                         else Variant_decodeBinaryUnwrapExtensionObject dec T c2)
                  in (ret2, x, c3\<lparr>ddepth := ddepth c3 - 1\<rparr>)))))"

text \<open>An optional field that is announced in the mask; the status accumulates.\<close>

definition decode_opt :: "bool \<Rightarrow> 'a decoder \<Rightarrow> status \<Rightarrow> 'a option decoder" where
  "decode_opt p d ret c =
     (if p then (let (r2, x, c2) = d c in (ret OR r2, Some x, c2)) else (ret, None, c))"

definition MAX_PICO_SECONDS :: u16 where "MAX_PICO_SECONDS = 9999"

definition clamp_pico :: "u16 \<Rightarrow> u16" where
  "clamp_pico x = (if x > MAX_PICO_SECONDS then MAX_PICO_SECONDS else x)"

definition DataValue_decodeBinary :: "decode_table \<Rightarrow> types \<Rightarrow> datavalue decoder" where
  "DataValue_decodeBinary dec T c =
     (let (ret, m, c1) = Byte_decodeBinary c in
      if ret \<noteq> GOOD then (ret, DataValue None None None None None None, c1)
      else if ddepth c1 > UA_ENCODING_MAX_RECURSION
      then (BADENCODINGERROR, DataValue None None None None None None, c1)
      else
        (let (r1, val, d1) = decode_opt (m AND 1 \<noteq> 0) (Variant_decodeBinary dec T) ret
               (c1\<lparr>ddepth := ddepth c1 + 1\<rparr>);
             (r2, st, d2) = decode_opt (m AND 2 \<noteq> 0) UInt32_decodeBinary r1 d1;
             (r3, sts, d3) = decode_opt (m AND 4 \<noteq> 0) UInt64_decodeBinary r2 d2;
             (r4, sp, d4) = decode_opt (m AND 0x10 \<noteq> 0) UInt16_decodeBinary r3 d3;
             (r5, vts, d5) = decode_opt (m AND 8 \<noteq> 0) UInt64_decodeBinary r4 d4;
             (r6, vp, d6) = decode_opt (m AND 0x20 \<noteq> 0) UInt16_decodeBinary r5 d5
         in (r6, DataValue val st sts (map_option clamp_pico sp) vts (map_option clamp_pico vp),
             d6\<lparr>ddepth := ddepth d6 - 1\<rparr>)))"

text \<open>The inner diagnostic information is decoded by the entry of the jump table for its type.\<close>

definition the_diag :: "uaval \<Rightarrow> diaginfo" where
  "the_diag v = (case v of VDiagnosticInfo d \<Rightarrow> d | _ \<Rightarrow> DiagnosticInfo None None None None None None None)"

definition DiagnosticInfo_decodeBinary :: "decode_table \<Rightarrow> types \<Rightarrow> diaginfo decoder" where
  "DiagnosticInfo_decodeBinary dec T c =
     (let (ret, m, c1) = Byte_decodeBinary c in
      if ret \<noteq> GOOD then (ret, DiagnosticInfo None None None None None None None, c1)
      else
        (let (r1, sid, d1) = decode_opt (m AND 1 \<noteq> 0) UInt32_decodeBinary ret c1;
             (r2, uri, d2) = decode_opt (m AND 2 \<noteq> 0) UInt32_decodeBinary r1 d1;
             (r3, txt, d3) = decode_opt (m AND 4 \<noteq> 0) UInt32_decodeBinary r2 d2;
             (r4, loc, d4) = decode_opt (m AND 8 \<noteq> 0) UInt32_decodeBinary r3 d3;
             (r5, add, d5) = decode_opt (m AND 0x10 \<noteq> 0) String_decodeBinary r4 d4;
             (r6, st, d6) = decode_opt (m AND 0x20 \<noteq> 0) UInt32_decodeBinary r5 d5
         in if m AND 0x40 = 0 then (r6, DiagnosticInfo sid uri txt loc add st None, d6)
            else if ddepth d6 > UA_ENCODING_MAX_RECURSION
            then (BADENCODINGERROR, DiagnosticInfo sid uri txt loc add st None, d6)
            else
              (let (r7, v, d7) = dec (Ns0 UA_TYPES_DIAGNOSTICINFO) (d6\<lparr>ddepth := ddepth d6 + 1\<rparr>)
               in (r6 OR r7, DiagnosticInfo sid uri txt loc add st (Some (the_diag v)),
                   d7\<lparr>ddepth := ddepth d7 - 1\<rparr>))))"

definition decodeBinaryJumpTable :: "decode_table \<Rightarrow> types \<Rightarrow> typeref \<Rightarrow> uaval decoder list" where
  "decodeBinaryJumpTable dec T r =
     [dmap VBoolean Boolean_decodeBinary,
      dmap VByte Byte_decodeBinary,
      dmap VByte Byte_decodeBinary,
      dmap VUInt16 UInt16_decodeBinary,
      dmap VUInt16 UInt16_decodeBinary,
      dmap VUInt32 UInt32_decodeBinary,
      dmap VUInt32 UInt32_decodeBinary,
      dmap VUInt64 UInt64_decodeBinary,
      dmap VUInt64 UInt64_decodeBinary,
      dmap VUInt32 UInt32_decodeBinary,
      dmap VUInt64 UInt64_decodeBinary,
      dmap VString String_decodeBinary,
      dmap VUInt64 UInt64_decodeBinary,
      dmap VGuid Guid_decodeBinary,
      dmap VString String_decodeBinary,
      dmap VString String_decodeBinary,
      dmap VNodeId NodeId_decodeBinary,
      dmap VExpandedNodeId ExpandedNodeId_decodeBinary,
      dmap VUInt32 UInt32_decodeBinary,
      dmap VQualifiedName QualifiedName_decodeBinary,
      dmap VLocalizedText LocalizedText_decodeBinary,
      dmap VExtensionObject (ExtensionObject_decodeBinary dec T),
      dmap VDataValue (DataValue_decodeBinary dec T),
      dmap VVariant (Variant_decodeBinary dec T),
      dmap VDiagnosticInfo (DiagnosticInfo_decodeBinary dec T),
      decodeBinaryInternal dec T r]"

definition decode_index :: "dtype \<Rightarrow> nat" where
  "decode_index t = (if builtin t \<and> typeIndex t < UA_BUILTIN_TYPES_COUNT then typeIndex t else UA_BUILTIN_TYPES_COUNT)"

fun decode_jump :: "nat \<Rightarrow> types \<Rightarrow> decode_table" where
  "decode_jump 0 T r c = (OUT_OF_FUEL, null_val, c)"
| "decode_jump (Suc n) T r c =
     (decodeBinaryJumpTable (decode_jump n T) T r ! decode_index (dtype_of T r)) c"

text \<open>
  The nesting of calls either increases the depth, which is limited, or uses up bytes; the fuel is
  the sum of both limits.
\<close>

definition decode_fuel :: "u8 list \<Rightarrow> nat" where
  "decode_fuel bs = UA_ENCODING_MAX_RECURSION + 3 + length bs"

definition UA_decodeBinary ::
  "types \<Rightarrow> typeref \<Rightarrow> u8 list \<Rightarrow> nat \<Rightarrow> status \<times> uaval option \<times> nat" where
  "UA_decodeBinary T r src offset =
     (let (ret, v, c) = decodeBinaryInternal (decode_jump (decode_fuel src) T) T r
                          \<lparr>dbuf = src, dpos = offset, ddepth = 0\<rparr>
      in if ret = GOOD then (GOOD, Some v, dpos c) else (ret, None, offset))"

end
