(* ===== verification/Secure_Channel_Send.thy ===== *)
theory Secure_Channel_Send
  imports Secure_Channel Binary_Generic
begin

text \<open>
  Sending over a secure channel (src/src/ua_securechannel.c, "Send Asymmetric Message" and "Send Symmetric Message").
  The message context \<open>mcontext\<close> is \<open>UA_MessageContext\<close>: \<open>bufLength\<close> is the length of the message buffer (0 when there is none),
  \<open>body\<close> the bytes from the end of the headers to \<open>buf_pos\<close>, and \<open>bufEnd\<close> the offset of \<open>buf_end\<close>, which can lie before the buffer.
  The operations are functions on the message context, the channel and the connection.
\<close>

record mcontext =
  mcRequestId :: u32
  mcMessageType :: u32
  chunksSoFar :: u16
  messageSizeSoFar :: nat
  bufLength :: nat
  body :: "u8 list"
  bufEnd :: int
  final :: bool

type_synonym 'k sending = "mcontext \<times> 'k channel \<times> connection"

abbreviation (input) SECURE_CONVERSATION_MESSAGE_HEADER_LENGTH :: nat where "SECURE_CONVERSATION_MESSAGE_HEADER_LENGTH \<equiv> 12"
abbreviation (input) SECURE_MESSAGE_HEADER_LENGTH :: nat where "SECURE_MESSAGE_HEADER_LENGTH \<equiv> 24"
abbreviation (input) SEQUENCE_HEADER_LENGTH :: nat where "SEQUENCE_HEADER_LENGTH \<equiv> 8"
abbreviation (input) SECUREMH_AND_SYMALGH_LENGTH :: nat where "SECUREMH_AND_SYMALGH_LENGTH \<equiv> 16"

subsection \<open>Symmetric messages\<close>

definition local_sigsize :: "'k channel \<Rightarrow> nat" where
  "local_sigsize ch = getLocalSignatureSize (symmetricModule (securityPolicy ch)) (channelContext ch)"

text \<open>The padding: its total size, and the bytes for the size and the extra size. A block size of zero is a division by zero.\<close>

definition calculatePaddingSym :: "'k channel \<Rightarrow> nat \<Rightarrow> (u16 \<times> u8 \<times> u8) option" where
  "calculatePaddingSym ch bytesToWrite =
     (let blockSize = getLocalBlockSize (symmetricModule (securityPolicy ch)) (channelContext ch);
          padding = word_of_nat (blockSize - (bytesToWrite + local_sigsize ch + 1) mod blockSize) :: u16
      in if blockSize = 0 then None else Some (padding, ucast padding, ucast (drop_bit 8 padding)))"

definition setBufPos :: "'k channel \<Rightarrow> mcontext \<Rightarrow> mcontext" where
  "setBufPos ch mc =
     mc\<lparr>body := [],
        bufEnd := int (bufLength mc) - (if signed ch then int (local_sigsize ch) else 0)
                    - (if encrypted ch then 2 else 0)\<rparr>"

definition releaseSendBuffer :: "mcontext \<Rightarrow> mcontext" where
  "releaseSendBuffer mc = mc\<lparr>bufLength := 0\<rparr>"

text \<open>The padding bytes; the loop over \<open>i <= totalPaddingSize\<close> with a 16 bit counter does not end for the largest size.\<close>

definition padding_bytes :: "'k channel \<Rightarrow> nat \<Rightarrow> u8 list option" where
  "padding_bytes ch bodyLength =
     (if \<not> encrypted ch then Some []
      else case calculatePaddingSym ch (bodyLength + SEQUENCE_HEADER_LENGTH) of
        None \<Rightarrow> None
      | Some (totalPaddingSize, paddingSize, extra) \<Rightarrow>
          if totalPaddingSize = - 1 then None
          else Some (replicate (unat totalPaddingSize + 1) paddingSize @ (if extra > 0 then [extra] else [])))"

definition too_large :: "connection \<Rightarrow> mcontext \<Rightarrow> bool" where
  "too_large c mc \<longleftrightarrow>
     (messageSizeSoFar mc > unat (maxMessageSize (remoteConf c)) \<and> maxMessageSize (remoteConf c) \<noteq> 0)
       \<or> (ucast (chunksSoFar mc) > maxChunkCount (remoteConf c) \<and> maxChunkCount (remoteConf c) \<noteq> 0)"

definition symmetric_headers :: "mcontext \<Rightarrow> 'k channel \<Rightarrow> nat \<Rightarrow> u8 list" where
  "symmetric_headers mc ch total_length =
     UA_encode32 (mcMessageType mc + (if final mc then CHUNKTYPE_FINAL else CHUNKTYPE_INTERMEDIATE))
       @ UA_encode32 (word_of_nat total_length) @ UA_encode32 (channelId (securityToken ch))
       @ UA_encode32 (tokenId (securityToken ch))
       @ UA_encode32 (sendSequenceNumber ch) @ UA_encode32 (mcRequestId mc)"

text \<open>Signing and encrypting a chunk with the given body and padding: the status of both (combined with OR) and the bytes.\<close>

definition total_length :: "'k channel \<Rightarrow> nat \<Rightarrow> nat \<Rightarrow> nat" where
  "total_length ch bodyLength padLength =
     SECURE_MESSAGE_HEADER_LENGTH + bodyLength + padLength + (if signed ch then local_sigsize ch else 0)"

definition secure_chunk :: "mcontext \<Rightarrow> 'k channel \<Rightarrow> u8 list \<Rightarrow> status \<times> u8 list" where
  "secure_chunk mc ch pad =
     (let m = symmetricModule (securityPolicy ch); k = channelContext ch;
          dataToSign = symmetric_headers mc ch (total_length ch (length (body mc)) (length pad)) @ body mc @ pad;
          (r1, signature) = (if signed ch then sign m k dataToSign else (GOOD, []));
          buf = dataToSign @ signature;
          (r2, bs) = (if encrypted ch then encrypt m k (drop SECUREMH_AND_SYMALGH_LENGTH buf)
                      else (GOOD, drop SECUREMH_AND_SYMALGH_LENGTH buf))
      in (r1 OR r2, take SECUREMH_AND_SYMALGH_LENGTH buf @ bs))"

text \<open>
  The chunk is built in the message buffer. Padding and signature are written behind the body without a check of the room;
  if they do not fit, memory behind the buffer is overwritten (\<open>None\<close>). The headers are encoded with the room up to
  \<open>buf_end\<close>. The parts of the status are combined with OR.
\<close>

definition sendSymmetricChunk :: "'k sending \<Rightarrow> (status \<times> 'k sending) option" where
  "sendSymmetricChunk s =
     (case s of (mc, ch, c) \<Rightarrow>
        if \<not> attached ch then Some (BADINTERNALERROR, s)
        else
          let mc1 = mc\<lparr>messageSizeSoFar := messageSizeSoFar mc + length (body mc), chunksSoFar := chunksSoFar mc + 1\<rparr>
          in if too_large c mc1 then Some (BADRESPONSETOOLARGE, releaseSendBuffer mc1, ch, c)
          else case padding_bytes ch (length (body mc)) of
            None \<Rightarrow> None
          | Some pad \<Rightarrow>
              if total_length ch (length (body mc)) (length pad) > bufLength mc then None
              else
                let ch1 = ch\<lparr>sendSequenceNumber := sendSequenceNumber ch + 1\<rparr>;
                    r0 = (if int SECURE_MESSAGE_HEADER_LENGTH \<le> bufEnd mc then GOOD else BADENCODINGERROR);
                    (r1, buf) = secure_chunk mc ch1 pad
                in if r0 OR r1 \<noteq> GOOD then Some (r0 OR r1, releaseSendBuffer mc1, ch1, c)
                   else case connection_write buf c of (r, c1) \<Rightarrow> Some (r, releaseSendBuffer mc1, ch1, c1))"

definition getSendBuffer :: "'k sending \<Rightarrow> status \<times> 'k sending" where
  "getSendBuffer s =
     (case s of (mc, ch, c) \<Rightarrow>
        case connection_getsendbuffer (unat (sendBufferSize (localConf c))) c of
          (r, c1) \<Rightarrow> if r \<noteq> GOOD then (r, mc, ch, c1)
                     else (GOOD, setBufPos ch (mc\<lparr>bufLength := unat (sendBufferSize (localConf c))\<rparr>), ch, c1))"

text \<open>The exchange callback of the encoder: \<open>bs\<close> is the body of the full buffer.\<close>

definition sendSymmetricEncodingCallback :: "u8 list \<Rightarrow> 'k sending \<Rightarrow> (status \<times> 'k sending) option" where
  "sendSymmetricEncodingCallback bs s =
     (case s of (mc, ch, c) \<Rightarrow>
        case sendSymmetricChunk (mc\<lparr>body := bs\<rparr>, ch, c) of
          None \<Rightarrow> None
        | Some (r, s1) \<Rightarrow> if r \<noteq> GOOD then Some (r, s1) else Some (getSendBuffer s1))"

definition UA_MessageContext_begin :: "u32 \<Rightarrow> u32 \<Rightarrow> 'k channel \<times> connection \<Rightarrow> status \<times> 'k sending" where
  "UA_MessageContext_begin requestId messageType w =
     (case w of (ch, c) \<Rightarrow>
        let mc = \<lparr>mcRequestId = requestId, mcMessageType = messageType, chunksSoFar = 0, messageSizeSoFar = 0,
                  bufLength = 0, body = [], bufEnd = 0, final = False\<rparr>
        in if \<not> attached ch then (BADINTERNALERROR, mc, w)
           else if messageType \<noteq> MESSAGETYPE_MSG \<and> messageType \<noteq> MESSAGETYPE_CLO then (BADINTERNALERROR, mc, w)
           else if unat (sendBufferSize (localConf c)) \<le> SECURE_MESSAGE_HEADER_LENGTH then (BADRESPONSETOOLARGE, mc, w)
           else getSendBuffer (mc, ch, c))"

fun send_buffers :: "u8 list list \<Rightarrow> 'k sending \<Rightarrow> (status \<times> 'k sending) option" where
  "send_buffers [] s = Some (GOOD, s)"
| "send_buffers (b # bs) s =
     (case sendSymmetricEncodingCallback b s of
        None \<Rightarrow> None
      | Some (r, s1) \<Rightarrow> if r \<noteq> GOOD then Some (r, s1) else send_buffers bs s1)"

text \<open>
  Encoding into the message context. \<open>enc\<close> is the encoder (\<open>UA_encodeBinary\<close> for the content), run on the
  current buffer with \<open>k\<close> fresh buffers at hand. The buffers that it gives to the callback (\<open>esent\<close>) are sent in turn; the encoder
  returns the status of the first callback that fails. What is left in the buffer is the body that is not sent yet. The encoders need an end that
  does not lie before the start.
\<close>

definition fresh_room :: "'k channel \<Rightarrow> connection \<Rightarrow> nat" where
  "fresh_room ch c =
     nat (int (unat (sendBufferSize (localConf c))) - (if signed ch then int (local_sigsize ch) else 0)
       - (if encrypted ch then 2 else 0) - int SECURE_MESSAGE_HEADER_LENGTH)"

definition UA_MessageContext_encode ::
  "nat \<Rightarrow> (ectx \<Rightarrow> status \<times> ectx) \<Rightarrow> 'k sending \<Rightarrow> (status \<times> 'k sending) option" where
  "UA_MessageContext_encode k enc s =
     (case s of (mc, ch, c) \<Rightarrow>
        if bufEnd mc < int SECURE_MESSAGE_HEADER_LENGTH + int (length (body mc)) then None
        else let (r, e) = enc \<lparr>eout = body mc, eroom = nat (bufEnd mc - int SECURE_MESSAGE_HEADER_LENGTH - int (length (body mc))),
                               edepth = 0, esent = [], escript = Some (replicate k (GOOD, fresh_room ch c))\<rparr>
             in case send_buffers (esent e) s of
                  None \<Rightarrow> None
                | Some (r1, mc1, ch1, c1) \<Rightarrow>
                    if r1 \<noteq> GOOD then Some (r1, releaseSendBuffer mc1, ch1, c1)
                    else if r \<noteq> GOOD then Some (r, releaseSendBuffer mc1, ch1, c1)
                    else Some (GOOD, mc1\<lparr>body := eout e\<rparr>, ch1, c1))"

definition UA_MessageContext_finish :: "'k sending \<Rightarrow> (status \<times> 'k sending) option" where
  "UA_MessageContext_finish s = (case s of (mc, ch, c) \<Rightarrow> sendSymmetricChunk (mc\<lparr>final := True\<rparr>, ch, c))"

definition UA_MessageContext_abort :: "'k sending \<Rightarrow> 'k sending" where
  "UA_MessageContext_abort s = (case s of (mc, ch, c) \<Rightarrow> (releaseSendBuffer mc, ch, c))"

definition UA_TYPES_NODEID :: nat where "UA_TYPES_NODEID = 16"

text \<open>The payload is a value of the type \<open>t\<close> of the type table \<open>T\<close>; the identifier of its encoding is sent first.\<close>

definition UA_SecureChannel_sendSymmetricMessage ::
  "types \<Rightarrow> nat \<Rightarrow> u32 \<Rightarrow> u32 \<Rightarrow> uaval \<Rightarrow> typeref \<Rightarrow> 'k channel \<times> connection \<Rightarrow> (status \<times> 'k channel \<times> connection) option" where
  "UA_SecureChannel_sendSymmetricMessage T k requestId messageType payload t w =
     (if attached (fst w) \<and> cstate (snd w) = CONNECTION_CLOSED then Some (BADCONNECTIONCLOSED, w)
      else case UA_MessageContext_begin requestId messageType w of
        (r, s) \<Rightarrow>
          if r \<noteq> GOOD then Some (r, snd s)
          else let typeId = \<lparr>namespaceIndex = 0, nident = Numeric (ucast (binaryEncodingId (dtype_of T t)))\<rparr>
               in case UA_MessageContext_encode k (UA_encodeBinary T (Ns0 UA_TYPES_NODEID) (VNodeId typeId)) s of
                    None \<Rightarrow> None
                  | Some (r1, s1) \<Rightarrow>
                      if r1 \<noteq> GOOD then Some (r1, snd s1)
                      else case UA_MessageContext_encode k (UA_encodeBinary T t payload) s1 of
                        None \<Rightarrow> None
                      | Some (r2, s2) \<Rightarrow>
                          if r2 \<noteq> GOOD then Some (r2, snd s2)
                          else map_option (\<lambda>(r3, s3). (r3, snd s3)) (UA_MessageContext_finish s2))"

subsection \<open>Asymmetric messages\<close>

definition UA_SecurityPolicy_getRemoteAsymEncryptionBufferLengthOverhead :: "'k channel \<Rightarrow> nat \<Rightarrow> nat" where
  "UA_SecurityPolicy_getRemoteAsymEncryptionBufferLengthOverhead ch maxEncryptionLength =
     (let m = asymmetricModule (securityPolicy ch);
          plainTextBlockSize = getRemotePlainTextBlockSize m (channelContext ch);
          encryptedBlockSize = getRemoteBlockSize m (channelContext ch)
      in if maxEncryptionLength = 0 then 0
         else if plainTextBlockSize = 0 then 0
         else (maxEncryptionLength div plainTextBlockSize) * (encryptedBlockSize - plainTextBlockSize))"

text \<open>The padding bytes of an OPN message: the size byte once more than the size, and the extra size for keys of more than 2048 bits.\<close>

definition calculatePaddingAsym :: "'k channel \<Rightarrow> nat \<Rightarrow> (u16 \<times> u8 \<times> u8) option" where
  "calculatePaddingAsym ch bytesToWrite =
     (let m = asymmetricModule (securityPolicy ch); k = channelContext ch;
          plainTextBlockSize = getRemotePlainTextBlockSize m k;
          paddingBytes = (if encryptionRemoteKeyLength m k > 2048 then 2 else 1);
          padding = plainTextBlockSize - (bytesToWrite + getLocalSignatureSize m k + paddingBytes) mod plainTextBlockSize
      in if plainTextBlockSize = 0 then None
         else Some (word_of_nat padding, word_of_nat padding, word_of_nat (padding div 256)))"

definition asym_padding_bytes :: "'k channel \<Rightarrow> nat \<Rightarrow> u8 list option" where
  "asym_padding_bytes ch bodyLength =
     (if \<not> signed ch then Some []
      else case calculatePaddingAsym ch (bodyLength + SEQUENCE_HEADER_LENGTH) of
        None \<Rightarrow> None
      | Some (totalPaddingSize, paddingSize, extra) \<Rightarrow>
          if totalPaddingSize = - 1 then None
          else Some (replicate (unat totalPaddingSize + 1) paddingSize
            @ (if encryptionRemoteKeyLength (asymmetricModule (securityPolicy ch)) (channelContext ch) > 2048
               then [extra] else [])))"

definition calculateAsymAlgSecurityHeaderLength :: "'k channel \<Rightarrow> nat" where
  "calculateAsymAlgSecurityHeaderLength ch =
     12 + arr_length (policyUri (securityPolicy ch))
       + (if signed ch then 20 + arr_length (localCertificate (securityPolicy ch)) else 0)"

text \<open>The offsets of the start and the end for the payload in a buffer of length \<open>n\<close>. In the signed modes the buffer has to hold the headers, or
  else the size that can be encrypted is a negative number taken as \<open>size_t\<close>.\<close>

definition hideBytesAsym :: "'k channel \<Rightarrow> nat \<Rightarrow> (nat \<times> int) option" where
  "hideBytesAsym ch n =
     (let start = SECURE_CONVERSATION_MESSAGE_HEADER_LENGTH + SEQUENCE_HEADER_LENGTH + calculateAsymAlgSecurityHeaderLength ch;
          potentialEncryptionMaxSize = n - start + SEQUENCE_HEADER_LENGTH
      in if \<not> signed ch then Some (start, int n)
         else if n < start then None
         else Some (start, int n - int (getLocalSignatureSize (asymmetricModule (securityPolicy ch)) (channelContext ch)) - 2
                - int (UA_SecurityPolicy_getRemoteAsymEncryptionBufferLengthOverhead ch potentialEncryptionMaxSize)))"

text \<open>The headers of an OPN message. They fit into the buffer, since the payload was encoded behind them.\<close>

definition asymmetric_headers :: "u32 \<Rightarrow> 'k channel \<Rightarrow> u32 \<Rightarrow> u8 list" where
  "asymmetric_headers requestId ch messageSize =
     UA_encode32 (MESSAGETYPE_OPN + CHUNKTYPE_FINAL) @ UA_encode32 messageSize @ UA_encode32 (channelId (securityToken ch))
       @ string_bin (policyUri (securityPolicy ch))
       @ string_bin (if signed ch then localCertificate (securityPolicy ch) else None)
       @ string_bin (if signed ch then Some (remoteCertificateThumbprint ch) else None)
       @ UA_encode32 (sendSequenceNumber ch) @ UA_encode32 requestId"

definition UA_SecureChannel_sendAsymmetricOPNMessage ::
  "types \<Rightarrow> u32 \<Rightarrow> uaval \<Rightarrow> typeref \<Rightarrow> 'k channel \<times> connection \<Rightarrow> (status \<times> 'k channel \<times> connection) option" where
  "UA_SecureChannel_sendAsymmetricOPNMessage T requestId content t w =
     (case w of (ch, c) \<Rightarrow>
        if securityMode ch = MODE_INVALID then Some (BADSECURITYMODEREJECTED, w)
        else if \<not> attached ch then Some (BADINTERNALERROR, w)
        else case connection_getsendbuffer (unat (sendBufferSize (localConf c))) c of
          (r, c1) \<Rightarrow>
            if r \<noteq> GOOD then Some (r, ch, c1)
            else let n = unat (sendBufferSize (localConf c)) in
              case hideBytesAsym ch n of
                None \<Rightarrow> None
              | Some (start, end0) \<Rightarrow>
                  let typeId = \<lparr>namespaceIndex = 0, nident = Numeric (ucast (binaryEncodingId (dtype_of T t)))\<rparr>;
                      e0 = \<lparr>eout = [], eroom = nat (end0 - int start), edepth = 0, esent = [], escript = None\<rparr>;
                      (r1, e1) = UA_encodeBinary T (Ns0 UA_TYPES_NODEID) (VNodeId typeId) e0;
                      (r2, e2) = UA_encodeBinary T t content e1
                  in if r1 OR r2 \<noteq> GOOD then Some (r1 OR r2, ch, c1)
                     else case asym_padding_bytes ch (length (eout e2)) of
                       None \<Rightarrow> None
                     | Some pad \<Rightarrow>
                         let m = asymmetricModule (securityPolicy ch); k = channelContext ch;
                             sigsize = (if signed ch then getLocalSignatureSize m k else 0);
                             unencrypted_length = SECURE_CONVERSATION_MESSAGE_HEADER_LENGTH
                               + calculateAsymAlgSecurityHeaderLength ch;
                             totalLength = start + length (eout e2) + length pad + sigsize;
                             messageSize = word_of_nat (totalLength
                               + UA_SecurityPolicy_getRemoteAsymEncryptionBufferLengthOverhead ch
                                   (totalLength - unencrypted_length)) :: u32;
                             ch1 = ch\<lparr>sendSequenceNumber := sendSequenceNumber ch + 1\<rparr>;
                             dataToSign = asymmetric_headers requestId ch1 messageSize @ eout e2 @ pad
                         in if totalLength > n then None
                            else if \<not> signed ch
                            then map_option (\<lambda>(r, c2). (r, ch1, c2)) (Some (connection_write (take (unat messageSize) dataToSign) c1))
                            else case sign m k dataToSign of
                              (r3, signature) \<Rightarrow>
                                if r3 \<noteq> GOOD then Some (r3, ch1, c1)
                                else case encrypt m k (drop unencrypted_length (dataToSign @ signature)) of
                                  (r4, bs) \<Rightarrow>
                                    if unencrypted_length + length bs > n then None
                                    else if r4 \<noteq> GOOD then Some (r4, ch1, c1)
                                    else map_option (\<lambda>(r, c2). (r, ch1, c2))
                                      (Some (connection_write (take (unat messageSize) (take unencrypted_length dataToSign @ bs)) c1)))"

end
