(* ===== verification/Connection_Correct.thy ===== *)
theory Connection_Correct
  imports Connection
begin

text \<open>
  What the connection layer does with the stream: writing to the socket, cutting into chunks and
  waiting for a chunk. The locale \<open>chunk_handler\<close> is what the loop relies on in the function for complete
  chunks: it leaves the stored bytes alone. \<open>memory_handler\<close> adds that memory stays available.
\<close>

subsection \<open>Writing\<close>

lemma write_loop_good:
  "write_loop as rest c = (GOOD, c') \<Longrightarrow> wire c' = wire c @ rest \<and> cstate c' = cstate c"
proof (induction as rest c rule: write_loop.induct)
  case (4 n as rest c)
  show ?case
  proof (cases "n < length rest")
    case True
    then show ?thesis
      using "4.IH" [OF refl] "4.prems" by (simp add: Let_def)
  next
    case False
    with "4.prems" show ?thesis by auto
  qed
qed (auto simp: connection_close_def)

lemma write_loop_bad:
  "write_loop as rest c = (r, c') \<Longrightarrow> r \<noteq> GOOD \<Longrightarrow>
     r = BADCONNECTIONCLOSED \<and> cstate c' = CONNECTION_CLOSED \<and> (\<exists>n. wire c' = wire c @ take n rest \<and> n \<le> length rest)"
proof (induction as rest c rule: write_loop.induct)
  case (3 as rest c)
  then show ?case by (auto simp: connection_close_def intro!: exI [of _ 0])
next
  case (4 n as rest c)
  then have n: "n < length rest" by (auto simp: Let_def split: if_splits)
  with "4.IH" [OF refl] "4.prems" obtain k where k: "r = BADCONNECTIONCLOSED" "cstate c' = CONNECTION_CLOSED"
    "wire c' = wire c @ take n rest @ take k (drop n rest)" "k \<le> length (drop n rest)"
    by (auto simp: Let_def)
  moreover from n k(4) have "n + k \<le> length rest" by simp
  ultimately show ?case
    by (auto simp: take_add [symmetric] intro!: exI [of _ "n + k"])
qed auto

lemma connection_write_good:
  "connection_write buf c = (GOOD, c') \<Longrightarrow> wire c' = wire c @ buf \<and> cstate c' = cstate c"
  by (auto simp: connection_write_def dest: write_loop_good split: if_splits)

lemma write_loop_frame:
  "write_loop as rest c = (r, c') \<Longrightarrow>
     localConf c' = localConf c \<and> remoteConf c' = remoteConf c \<and> incompleteMessage c' = incompleteMessage c
       \<and> callocs c' = callocs c"
  by (induction as rest c rule: write_loop.induct)
     (auto simp: connection_close_def Let_def split: if_splits)

lemma connection_write_frame:
  "connection_write buf c = (r, c') \<Longrightarrow>
     localConf c' = localConf c \<and> remoteConf c' = remoteConf c \<and> incompleteMessage c' = incompleteMessage c
       \<and> callocs c' = callocs c"
  by (auto simp: connection_write_def dest: write_loop_frame split: if_splits)

lemma conn_alloc_frame:
  "conn_alloc c = (b, c') \<Longrightarrow> \<exists>as. c' = c\<lparr>callocs := as\<rparr>"
  by (cases c) (auto simp: conn_alloc_def split: list.splits)

lemma conn_alloc_ok [simp]: "callocs c = [] \<Longrightarrow> conn_alloc c = (True, c)"
  by (simp add: conn_alloc_def)

subsection \<open>One chunk\<close>

text \<open>The first eight bytes decide how a chunk is handled. \<open>header_check\<close> is the status of the checks of the header.\<close>

definition header_check :: "u8 list \<Rightarrow> u32 \<Rightarrow> status" where
  "header_check pos n =
     (if \<not> known_type (ucast (pos ! 0) + push_bit 8 (ucast (pos ! 1)) + push_bit 16 (ucast (pos ! 2)))
         \<or> pos ! 3 \<notin> {0x43, 0x46, 0x41} then BADTCPMESSAGETYPEINVALID
      else if UA_decode32 (take 4 (drop 4 pos)) < 16 \<or> UA_decode32 (take 4 (drop 4 pos)) > n
      then BADTCPMESSAGETOOLARGE else GOOD)"

definition chunk_size :: "u8 list \<Rightarrow> nat" where
  "chunk_size pos = unat (UA_decode32 (take 4 (drop 4 pos)))"

lemma header_append:
  assumes "8 \<le> length pos"
  shows "header_check (pos @ b) n = header_check pos n" "chunk_size (pos @ b) = chunk_size pos"
proof -
  have "pos \<noteq> []" using assms by auto
  with assms show "header_check (pos @ b) n = header_check pos n" "chunk_size (pos @ b) = chunk_size pos"
    by (simp_all add: header_check_def chunk_size_def nth_append)
qed

lemma header_check_size: "header_check pos n = GOOD \<Longrightarrow> 16 \<le> chunk_size pos \<and> chunk_size pos \<le> unat n"
  by (auto simp: header_check_def chunk_size_def word_less_nat_alt not_less split: if_splits)

lemma processChunk_short:
  "length pos < 8 \<Longrightarrow> processChunk cb pos w =
     (GOOD, True, pos, (if pos \<noteq> [] then snd (bufferIncompleteChunk pos (fst w)) else fst w), snd w)"
  by (simp add: processChunk_def)

lemma processChunk_long:
  "8 \<le> length pos \<Longrightarrow> processChunk cb pos w =
     (let r = header_check pos (recvBufferSize (localConf (fst w))) in
      if r \<noteq> GOOD then (r, True, pos, w)
      else if chunk_size pos > length pos then (GOOD, True, pos, snd (bufferIncompleteChunk pos (fst w)), snd w)
      else case cb (take (chunk_size pos) pos) w of (r, w1) \<Rightarrow> (r, False, drop (chunk_size pos) pos, w1))"
  by (simp add: processChunk_def header_check_def chunk_size_def Let_def)

lemma processChunk_cases [consumes 0, case_names short bad incomplete chunk]:
  obtains "length pos < 8"
    "processChunk cb pos w = (GOOD, True, pos, (if pos \<noteq> [] then snd (bufferIncompleteChunk pos (fst w)) else fst w), snd w)"
  | "8 \<le> length pos" "header_check pos (recvBufferSize (localConf (fst w))) \<noteq> GOOD"
    "processChunk cb pos w = (header_check pos (recvBufferSize (localConf (fst w))), True, pos, w)"
  | "8 \<le> length pos" "header_check pos (recvBufferSize (localConf (fst w))) = GOOD" "length pos < chunk_size pos"
    "processChunk cb pos w = (GOOD, True, pos, snd (bufferIncompleteChunk pos (fst w)), snd w)"
  | r w1 where "8 \<le> length pos" "header_check pos (recvBufferSize (localConf (fst w))) = GOOD"
    "chunk_size pos \<le> length pos" "cb (take (chunk_size pos) pos) w = (r, w1)"
    "processChunk cb pos w = (r, False, drop (chunk_size pos) pos, w1)"
proof (cases "length pos < 8")
  case True
  then show ?thesis using that(1) processChunk_short by blast
next
  case False
  then have l: "8 \<le> length pos" by simp
  obtain r w1 where "cb (take (chunk_size pos) pos) w = (r, w1)" by (cases "cb (take (chunk_size pos) pos) w")
  with that(2-4) [OF l] processChunk_long [OF l, of cb w] show ?thesis
    by (auto simp: Let_def not_less split: if_splits)
qed

subsection \<open>Handlers that leave the stored bytes alone\<close>

text \<open>The stored bytes are less than a chunk: they never exceed the receive buffer.\<close>

definition stored_ok :: "connection \<Rightarrow> bool" where
  "stored_ok c \<longleftrightarrow> length (incompleteMessage c) < max 8 (unat (recvBufferSize (localConf c)))"

lemma buffer_ok:
  assumes "length bytes < max 8 (unat (recvBufferSize (localConf c)))"
  shows "stored_ok (snd (bufferIncompleteChunk bytes c))"
  using assms
  by (auto simp: bufferIncompleteChunk_def stored_ok_def dest!: conn_alloc_frame split: prod.splits bool.splits)

lemma stored_ok_empty: "incompleteMessage c = [] \<Longrightarrow> stored_ok c"
  by (simp add: stored_ok_def)

locale chunk_handler =
  fixes cb :: "'a chunk_callback"
  assumes keeps_empty:
    "incompleteMessage c = [] \<Longrightarrow> cb chunk (c, a) = (r, c', a') \<Longrightarrow> incompleteMessage c' = []"
begin

lemma keeps_empty':
  "incompleteMessage (fst w) = [] \<Longrightarrow> cb chunk w = (r, w') \<Longrightarrow> incompleteMessage (fst w') = []"
  by (cases w; cases w') (auto dest: keeps_empty)

lemma loop_stored_ok:
  "incompleteMessage (fst w) = [] \<Longrightarrow> processChunks_loop cb pos w = (r, w') \<Longrightarrow> stored_ok (fst w')"
proof (induction "length pos" arbitrary: pos w rule: less_induct)
  case less
  note step = processChunks_loop.simps [of cb pos w]
  show ?case
  proof (cases rule: processChunk_cases [where pos = pos and cb = cb and w = w])
    case short
    then have "length pos < max 8 (unat (recvBufferSize (localConf (fst w))))" by simp
    with short less.prems step show ?thesis
      by (cases "pos = []") (auto simp: buffer_ok stored_ok_empty)
  next
    case bad
    with less.prems step show ?thesis
      by (auto intro!: stored_ok_empty)
  next
    case incomplete
    then have "length pos < max 8 (unat (recvBufferSize (localConf (fst w))))"
      using header_check_size [of pos] by (fastforce simp: less_max_iff_disj)
    with incomplete less.prems step show ?thesis
      by (auto intro!: buffer_ok)
  next
    case (chunk r1 w1)
    have e: "incompleteMessage (fst w1) = []"
      by (rule keeps_empty' [OF less.prems(1) chunk(4)])
    show ?thesis
    proof (cases "r1 = GOOD")
      case True
      with chunk less.prems(2) step have "processChunks_loop cb (drop (chunk_size pos) pos) w1 = (r, w')" by simp
      moreover have "length (drop (chunk_size pos) pos) < length pos"
        using processChunk_shorter [OF chunk(5)] .
      ultimately show ?thesis using less.hyps e by blast
    next
      case False
      with chunk less.prems(2) step e show ?thesis by (auto intro!: stored_ok_empty)
    qed
  qed
qed

lemma processChunks_stored_ok:
  "UA_Connection_processChunks cb packet w = (r, w') \<Longrightarrow> stored_ok (fst w')"
  by (auto simp: UA_Connection_processChunks_def prependIncompleteChunk_def stored_ok_empty
      split: if_splits prod.splits bool.splits intro: loop_stored_ok [rotated])

end

subsection \<open>Packets\<close>

text \<open>
  \<open>receive_packets\<close> is the caller: it processes one packet after the other and stops (closes the connection) at the first error.
\<close>

fun receive_packets :: "'a chunk_callback \<Rightarrow> u8 list list \<Rightarrow> connection \<times> 'a \<Rightarrow> status \<times> connection \<times> 'a" where
  "receive_packets cb [] w = (GOOD, w)"
| "receive_packets cb (p # ps) w =
     (case UA_Connection_processChunks cb p w of
        (r, w1) \<Rightarrow> if r = GOOD then receive_packets cb ps w1 else (r, w1))"

locale memory_handler = chunk_handler cb for cb :: "'a chunk_callback" +
  assumes keeps_memory:
    "callocs c = [] \<Longrightarrow> cb chunk (c, a) = (r, c', a') \<Longrightarrow> callocs c' = []"
begin

lemma keeps_memory':
  "callocs (fst w) = [] \<Longrightarrow> cb chunk w = (r, w') \<Longrightarrow> callocs (fst w') = []"
  by (cases w; cases w') (auto dest: keeps_memory)

lemma resume:
  assumes "incompleteMessage (fst w) = []" and "callocs (fst w) = []" and "a \<noteq> []"
  shows "UA_Connection_processChunks cb b (snd (bufferIncompleteChunk a (fst w)), snd w) = processChunks_loop cb (a @ b) w"
  using assms
  by (cases w; cases "fst w")
     (simp add: bufferIncompleteChunk_def UA_Connection_processChunks_def prependIncompleteChunk_def)

lemma loop_append:
  "incompleteMessage (fst w) = [] \<Longrightarrow> callocs (fst w) = [] \<Longrightarrow>
     processChunks_loop cb (a @ b) w =
       (case processChunks_loop cb a w of
          (r, w1) \<Rightarrow> if r = GOOD then UA_Connection_processChunks cb b w1 else (r, w1))"
proof (induction "length a" arbitrary: a w rule: less_induct)
  case less
  note step = processChunks_loop.simps [of cb a w]
  show ?case
  proof (cases rule: processChunk_cases [where pos = a and cb = cb and w = w])
    case short
    with less.prems step show ?thesis
      by (cases "a = []") (auto simp: resume, simp add: UA_Connection_processChunks_def)
  next
    case bad
    with step processChunks_loop.simps [of cb "a @ b" w] show ?thesis
      by (auto simp: processChunk_long header_append Let_def)
  next
    case incomplete
    then have "a \<noteq> []" by auto
    with incomplete less.prems step show ?thesis by (simp add: resume)
  next
    case (chunk r1 w1)
    then have ab: "processChunk cb (a @ b) w = (r1, False, drop (chunk_size a) a @ b, w1)"
      by (simp add: processChunk_long header_append)
    show ?thesis
    proof (cases "r1 = GOOD")
      case True
      have "length (drop (chunk_size a) a) < length a"
        using processChunk_shorter [OF chunk(5)] .
      from less.hyps [OF this keeps_empty' [OF less.prems(1) chunk(4)] keeps_memory' [OF less.prems(2) chunk(4)]]
      show ?thesis
        using True chunk step ab processChunks_loop.simps [of cb "a @ b" w] by simp
    next
      case False
      with chunk step ab processChunks_loop.simps [of cb "a @ b" w] show ?thesis by simp
    qed
  qed
qed

lemma loop_memory:
  "callocs (fst w) = [] \<Longrightarrow> processChunks_loop cb pos w = (r, w') \<Longrightarrow> callocs (fst w') = []"
proof (induction "length pos" arbitrary: pos w rule: less_induct)
  case less
  note step = processChunks_loop.simps [of cb pos w]
  show ?case
  proof (cases rule: processChunk_cases [where pos = pos and cb = cb and w = w])
    case (chunk r1 w1)
    with less.hyps [OF processChunk_shorter [OF chunk(5)]] keeps_memory' [OF less.prems(1) chunk(4)] less.prems step
    show ?thesis by (cases "r1 = GOOD") auto
  qed (use less.prems step in \<open>auto simp: bufferIncompleteChunk_def split: if_splits\<close>)
qed

lemma processChunks_append:
  assumes "callocs (fst w) = []"
  shows "UA_Connection_processChunks cb (p @ q) w =
     (case UA_Connection_processChunks cb p w of
        (r, w1) \<Rightarrow> if r = GOOD then UA_Connection_processChunks cb q w1 else (r, w1))"
proof (cases "incompleteMessage (fst w) = []")
  case True
  then show ?thesis
    using assms loop_append [of w p q] by (simp add: UA_Connection_processChunks_def)
next
  case False
  let ?w = "((fst w)\<lparr>incompleteMessage := []\<rparr>, snd w)"
  have "UA_Connection_processChunks cb x w = processChunks_loop cb (incompleteMessage (fst w) @ x) ?w" for x
    using False assms by (simp add: UA_Connection_processChunks_def prependIncompleteChunk_def)
  then show ?thesis
    using loop_append [of ?w "incompleteMessage (fst w) @ p" q] assms by simp
qed

lemma processChunks_memory:
  "callocs (fst w) = [] \<Longrightarrow> UA_Connection_processChunks cb p w = (r, w') \<Longrightarrow> callocs (fst w') = []"
  by (auto simp: UA_Connection_processChunks_def prependIncompleteChunk_def split: if_splits
      intro: loop_memory [rotated])

theorem packets_concat:
  assumes "callocs (fst w) = []"
  shows "receive_packets cb (p # ps) w = UA_Connection_processChunks cb (concat (p # ps)) w"
  using assms
proof (induction ps arbitrary: p w)
  case Nil
  then show ?case by (auto split: prod.splits)
next
  case (Cons q ps)
  obtain r w1 where w1: "UA_Connection_processChunks cb p w = (r, w1)" by (cases "UA_Connection_processChunks cb p w")
  show ?case
    using Cons.IH [of w1 q] processChunks_append [OF Cons.prems, of p "concat (q # ps)"] w1
      processChunks_memory [OF Cons.prems w1]
    by simp
qed

end

subsection \<open>Waiting\<close>

lemma remaining_timeout_bounds:
  assumes "now < maxDate" and "maxDate - now \<le> int (unat timeout) * DATETIME_MSEC"
  shows "1 \<le> remaining_timeout maxDate now" "remaining_timeout maxDate now \<le> timeout"
    "int (unat (remaining_timeout maxDate now)) * DATETIME_MSEC < maxDate - now + DATETIME_MSEC"
    "maxDate - now \<le> int (unat (remaining_timeout maxDate now)) * DATETIME_MSEC"
proof -
  let ?q = "(maxDate - now + 9999) div 10000"
  have q: "1 \<le> ?q" "?q \<le> int (unat timeout)" "?q * 10000 < maxDate - now + 10000" "maxDate - now \<le> ?q * 10000"
    using assms by auto
  then have u: "int (unat (word_of_int ?q :: u32)) = ?q"
    using unsigned_less [of timeout, where ?'a = int] by (simp add: unsigned_of_int take_bit_int_eq_self)
  show "1 \<le> remaining_timeout maxDate now" "remaining_timeout maxDate now \<le> timeout"
    "int (unat (remaining_timeout maxDate now)) * DATETIME_MSEC < maxDate - now + DATETIME_MSEC"
    "maxDate - now \<le> int (unat (remaining_timeout maxDate now)) * DATETIME_MSEC"
    using q u by (auto simp: remaining_timeout_def word_le_def)
qed

text \<open>\<open>clock ev\<close> is the time after the event; each call of \<open>recv\<close> starts at the clock of the event before.\<close>

abbreviation (input) clock :: "status \<times> u8 list \<times> int \<Rightarrow> int" where "clock ev \<equiv> snd (snd ev)"

lemma receive_blocking_timeouts:
  assumes "receive_blocking cb maxDate timeout evs w = Some (r, ts, w')"
    and "maxDate - now \<le> int (unat timeout) * DATETIME_MSEC"
    and "int (unat timeout) * DATETIME_MSEC < maxDate - now + DATETIME_MSEC"
    and "1 \<le> timeout" and "sorted (now # map clock evs)"
  shows "\<forall>(t, s)\<in>set (zip ts (now # map clock evs)).
     1 \<le> t \<and> t \<le> timeout \<and> s + int (unat t) * DATETIME_MSEC < maxDate + DATETIME_MSEC"
  using assms
proof (induction cb maxDate timeout evs w arbitrary: now r ts w' rule: receive_blocking.induct)
  case (2 cb maxDate timeout r0 packet now1 evs w)
  obtain r1 w1 where w1: "UA_Connection_processChunks (completeChunkTrampoline cb) packet w = (r1, w1)"
    by (cases "UA_Connection_processChunks (completeChunkTrampoline cb) packet w")
  show ?case
  proof (cases "r0 = GOOD \<and> \<not> fst (snd w1) \<and> now1 < maxDate")
    case True
    let ?t = "remaining_timeout maxDate now1"
    from True 2(2) w1 obtain ts2 where ts2: "ts = timeout # ts2" "receive_blocking cb maxDate ?t evs w1 = Some (r, ts2, w')"
      by auto
    from 2(3,6) have d: "maxDate - now1 \<le> int (unat timeout) * DATETIME_MSEC" by simp
    note b = remaining_timeout_bounds [OF _ d]
    have "\<forall>(t, s)\<in>set (zip ts2 (now1 # map clock evs)).
        1 \<le> t \<and> t \<le> ?t \<and> s + int (unat t) * DATETIME_MSEC < maxDate + DATETIME_MSEC"
    proof (rule "2.IH" [OF _ w1 [symmetric] _ _ ts2(2)])
      show "sorted (now1 # map clock evs)" using 2(6) by simp
    qed (use True b in auto)
    with ts2(1) 2(4,5) b(2) True show ?thesis by fastforce
  next
    case False
    then have "ts = [timeout]" using 2(2) w1 by (auto split: if_splits)
    then show ?thesis using 2(4,5) by auto
  qed
qed simp

lemma receive_blocking_drops_bad_header:
  assumes "8 \<le> length packet" "header_check packet (recvBufferSize (localConf (fst w))) \<noteq> GOOD"
    and "incompleteMessage (fst w) = []" and "\<not> fst (snd w)" and "now < maxDate"
  shows "receive_blocking cb maxDate timeout ((GOOD, packet, now) # evs) w
    = map_option (\<lambda>(r, ts, w'). (r, timeout # ts, w')) (receive_blocking cb maxDate (remaining_timeout maxDate now) evs w)"
proof -
  have "processChunks_loop (completeChunkTrampoline cb) packet w = (header_check packet (recvBufferSize (localConf (fst w))), w)"
    using assms(1,2) by (simp add: processChunks_loop.simps processChunk_long)
  then show ?thesis
    using assms(3-5) by (simp add: UA_Connection_processChunks_def)
qed

lemma buffer_without_memory:
  assumes "incompleteMessage (fst w) = []" "0 < length packet" "length packet < 8" "callocs (fst w) = False # as"
  shows "UA_Connection_processChunks cb packet w = (GOOD, (fst w)\<lparr>callocs := as\<rparr>, snd w)"
  using assms
  by (cases w; cases "fst w")
     (simp add: UA_Connection_processChunks_def processChunks_loop.simps processChunk_short bufferIncompleteChunk_def conn_alloc_def)

end
