(* ===== verification/Secure_Channel_Correct.thy ===== *)
theory Secure_Channel_Correct
  imports Secure_Channel_Send Secure_Channel_Receive Connection_Correct
begin

text \<open>
  What is sent over a channel is received: every chunk that the sender builds passes the checks of a receiver
  that is in step with it, and its body reaches the assembly. The laws of the cryptography are the locale \<open>crypto_pair\<close>: the receiver can
  verify and decrypt what the sender signs and encrypts.
\<close>

subsection \<open>The laws of the cryptography\<close>

locale crypto_pair =
  fixes mS :: "'k crypto" and kS :: 'k and mR :: "'r crypto" and kR :: 'r
  assumes sign_verify:
      "\<exists>s. sign mS kS d = (GOOD, s) \<and> length s = getLocalSignatureSize mS kS \<and> verify mR kR d s = GOOD"
    and signature_size: "getRemoteSignatureSize mR kR = getLocalSignatureSize mS kS"
    and encrypt_decrypt:
      "getLocalBlockSize mS kS dvd length d \<Longrightarrow>
         \<exists>e. encrypt mS kS d = (GOOD, e) \<and> length e = length d \<and> decrypt mR kR e = (GOOD, d, length d)"

text \<open>Sender and receiver agree on mode, token and sequence number; with encryption, the padding fits into one byte.\<close>

definition in_step :: "'k channel \<Rightarrow> 'r channel \<Rightarrow> bool" where
  "in_step ch rch \<longleftrightarrow>
     securityMode rch = securityMode ch
     \<and> channelId (securityToken rch) = channelId (securityToken ch) \<and> tokenId (securityToken rch) = tokenId (securityToken ch)
     \<and> receiveSequenceNumber rch = sendSequenceNumber ch
     \<and> (encrypted ch \<longrightarrow>
          0 < getLocalBlockSize (symmetricModule (securityPolicy ch)) (channelContext ch)
          \<and> getLocalBlockSize (symmetricModule (securityPolicy ch)) (channelContext ch) \<le> 255
          \<and> encryptionRemoteKeyLength (symmetricModule (securityPolicy rch)) (channelContext rch) \<le> 2048)"

subsection \<open>Padding\<close>

lemma padding_sum_dvd:
  fixes b :: nat
  assumes "0 < b"
  shows "b dvd n + (b - n mod b)"
proof -
  have "n + (b - n mod b) = n - n mod b + b"
    using assms mod_le_divisor [of b n] mod_less_eq_dividend [of n b] by linarith
  then show ?thesis
    by (simp add: minus_mod_eq_mult_div)
qed

lemma small_padding:
  assumes "p \<le> 255"
  shows "unat (word_of_nat p :: u16) = p" "(word_of_nat p :: u16) \<noteq> - 1"
    "drop_bit 8 (word_of_nat p :: u16) = 0" "ucast (word_of_nat p :: u16) = (word_of_nat p :: u8)"
    "unat (word_of_nat p :: u8) = p"
proof -
  show u: "unat (word_of_nat p :: u16) = p"
    using assms by (simp add: unsigned_of_nat take_bit_nat_eq_self)
  then show "(word_of_nat p :: u16) \<noteq> - 1"
    using assms by (auto simp: word_unat_eq_iff unsigned_minus_1_eq_mask mask_eq_exp_minus_1)
  have "unat (word_of_nat p div 256 :: u16) = p div 256"
    by (simp add: unat_div_distrib u)
  then show "drop_bit 8 (word_of_nat p :: u16) = 0"
    using assms by (simp add: word_unat_eq_iff drop_bit_eq_div)
  show v: "unat (word_of_nat p :: u8) = p"
    using assms by (simp add: unsigned_of_nat take_bit_nat_eq_self)
  have "unat (ucast (word_of_nat p :: u16) :: u8) = p"
    using u assms by (simp add: unsigned_ucast_eq take_bit_nat_eq_self)
  with v show "ucast (word_of_nat p :: u16) = (word_of_nat p :: u8)"
    by (simp add: word_unat_eq_iff)
qed

lemma padding_bytes_encrypted:
  assumes "encrypted ch" and "getLocalBlockSize (symmetricModule (securityPolicy ch)) (channelContext ch) = b"
    and "0 < b" "b \<le> 255"
  obtains p where "padding_bytes ch n = Some (replicate (p + 1) (word_of_nat p))" "p \<le> 255"
    "b dvd n + 8 + (p + 1) + local_sigsize ch"
proof -
  define p where "p = b - (n + 8 + local_sigsize ch + 1) mod b"
  have p: "p \<le> 255" using assms(4) by (simp add: p_def)
  have "calculatePaddingSym ch (n + 8) = Some (word_of_nat p, word_of_nat p, 0)"
    unfolding calculatePaddingSym_def Let_def assms(2) p_def [symmetric]
    using small_padding [OF p] assms(3) by simp
  then have "padding_bytes ch n = Some (replicate (p + 1) (word_of_nat p))"
    using assms(1) small_padding [OF p] by (simp add: padding_bytes_def)
  moreover have "b dvd n + 8 + (p + 1) + local_sigsize ch"
    using padding_sum_dvd [OF assms(3), of "n + 8 + local_sigsize ch + 1"] by (simp add: p_def add_ac)
  ultimately show thesis using that p by blast
qed

subsection \<open>One chunk\<close>

lemma length_symmetric_headers [simp]: "length (symmetric_headers mc ch n) = 24"
  by (simp add: symmetric_headers_def)

lemma header_fields:
  "take 4 (symmetric_headers mc ch n) = UA_encode32 (mcMessageType mc + (if final mc then CHUNKTYPE_FINAL else CHUNKTYPE_INTERMEDIATE))"
  "take 4 (drop 4 (symmetric_headers mc ch n)) = UA_encode32 (word_of_nat n)"
  "take 4 (drop 8 (symmetric_headers mc ch n)) = UA_encode32 (channelId (securityToken ch))"
  "take 4 (drop 12 (symmetric_headers mc ch n)) = UA_encode32 (tokenId (securityToken ch))"
  "take 4 (drop 16 (symmetric_headers mc ch n)) = UA_encode32 (sendSequenceNumber ch)"
  "take 4 (drop 20 (symmetric_headers mc ch n)) = UA_encode32 (mcRequestId mc)"
  by (simp_all add: symmetric_headers_def)

lemma message_and_chunk_type:
  assumes "t = MESSAGETYPE_MSG \<or> t = MESSAGETYPE_CLO"
  shows "(t + (if f then CHUNKTYPE_FINAL else CHUNKTYPE_INTERMEDIATE)) AND 0x00ffffff = t"
    "(t + (if f then CHUNKTYPE_FINAL else CHUNKTYPE_INTERMEDIATE)) AND 0xff000000 = (if f then CHUNKTYPE_FINAL else CHUNKTYPE_INTERMEDIATE)"
  using assms by auto

text \<open>What the receiver sees after decryption: the data that was signed, and the signature.\<close>

definition plain_chunk :: "mcontext \<Rightarrow> 'k channel \<Rightarrow> u8 list \<Rightarrow> u8 list \<Rightarrow> u8 list" where
  "plain_chunk mc ch pad s = symmetric_headers mc ch (total_length ch (length (body mc)) (length pad)) @ body mc @ pad @ s"

lemma plain_chunk_fields:
  "take 4 (plain_chunk mc ch pad s) = UA_encode32 (mcMessageType mc + (if final mc then CHUNKTYPE_FINAL else CHUNKTYPE_INTERMEDIATE))"
  "take 4 (drop 4 (plain_chunk mc ch pad s)) = UA_encode32 (word_of_nat (total_length ch (length (body mc)) (length pad)))"
  "take 4 (drop 8 (plain_chunk mc ch pad s)) = UA_encode32 (channelId (securityToken ch))"
  "take 4 (drop 12 (plain_chunk mc ch pad s)) = UA_encode32 (tokenId (securityToken ch))"
  "take 4 (drop 16 (plain_chunk mc ch pad s)) = UA_encode32 (sendSequenceNumber ch)"
  "take 4 (drop 20 (plain_chunk mc ch pad s)) = UA_encode32 (mcRequestId mc)"
  by (simp_all add: plain_chunk_def header_fields)

lemma plain_chunk_parts:
  "length (plain_chunk mc ch pad s) = 24 + length (body mc) + length pad + length s"
  "drop 24 (plain_chunk mc ch pad s) = body mc @ pad @ s"
  "take (24 + length (body mc) + length pad) (plain_chunk mc ch pad s) @ s = plain_chunk mc ch pad s"
  "drop (24 + length (body mc) + length pad) (plain_chunk mc ch pad s) = s"
  by (simp_all add: plain_chunk_def)

lemma plain_chunk_padding:
  "pad = replicate (p + 1) x \<Longrightarrow> plain_chunk mc ch pad s ! (24 + length (body mc) + p) = x"
  by (simp add: plain_chunk_def nth_append del: replicate_Suc)

context crypto_pair
begin

text \<open>The chunk on the wire: the headers up to the token in plain text, then the rest, which the receiver can decrypt and verify.\<close>

lemma secure_chunk_ok:
  assumes "symmetricModule (securityPolicy ch) = mS" "channelContext ch = kS"
    and pad: "encrypted ch \<Longrightarrow> getLocalBlockSize mS kS dvd 8 + length (body mc) + length pad + getLocalSignatureSize mS kS"
  obtains s e where "secure_chunk mc ch pad = (GOOD, take 16 (plain_chunk mc ch pad s) @ e)"
    "length (plain_chunk mc ch pad s) = total_length ch (length (body mc)) (length pad)"
    "length e = length (plain_chunk mc ch pad s) - 16"
    "\<not> signed ch \<Longrightarrow> s = []" "signed ch \<Longrightarrow> length s = getLocalSignatureSize mS kS"
    "signed ch \<Longrightarrow> verify mR kR (take (24 + length (body mc) + length pad) (plain_chunk mc ch pad s)) s = GOOD"
    "\<not> encrypted ch \<Longrightarrow> e = drop 16 (plain_chunk mc ch pad s)"
    "encrypted ch \<Longrightarrow> decrypt mR kR e = (GOOD, drop 16 (plain_chunk mc ch pad s), length (plain_chunk mc ch pad s) - 16)"
proof -
  let ?d = "symmetric_headers mc ch (total_length ch (length (body mc)) (length pad)) @ body mc @ pad"
  obtain s where s: "(if signed ch then sign mS kS ?d else (GOOD, [])) = (GOOD, s)"
    "\<not> signed ch \<Longrightarrow> s = []" "signed ch \<Longrightarrow> length s = getLocalSignatureSize mS kS"
    "signed ch \<Longrightarrow> verify mR kR ?d s = GOOD"
    using sign_verify [of ?d] by (cases "signed ch") auto
  let ?D = "plain_chunk mc ch pad s"
  have D: "?d @ s = ?D" by (simp add: plain_chunk_def)
  have len: "length ?D = total_length ch (length (body mc)) (length pad)"
    using s(2,3) assms by (simp add: plain_chunk_parts total_length_def local_sigsize_def)
  have "encrypted ch \<Longrightarrow> signed ch" by (simp add: encrypted_def signed_def)
  then have "encrypted ch \<Longrightarrow> getLocalBlockSize mS kS dvd length (drop 16 ?D)"
    using pad s(3) by (simp add: plain_chunk_parts add_ac)
  then obtain e where e: "(if encrypted ch then encrypt mS kS (drop 16 ?D) else (GOOD, drop 16 ?D)) = (GOOD, e)"
    "length e = length ?D - 16" "\<not> encrypted ch \<Longrightarrow> e = drop 16 ?D"
    "encrypted ch \<Longrightarrow> decrypt mR kR e = (GOOD, drop 16 ?D, length ?D - 16)"
    using encrypt_decrypt [of "drop 16 ?D"] by (cases "encrypted ch") auto
  show thesis
  proof (rule that [of s e])
    show "secure_chunk mc ch pad = (GOOD, take 16 ?D @ e)"
      unfolding secure_chunk_def Let_def assms(1,2) s(1) prod.case D e(1) by simp
    show "signed ch \<Longrightarrow> verify mR kR (take (24 + length (body mc) + length pad) ?D) s = GOOD"
      using s(4) by (simp add: plain_chunk_def)
  qed (use len e s in auto)
qed

lemma decryptChunk_ok:
  assumes rch: "symmetricModule (securityPolicy rch) = mR" "channelContext rch = kR"
    and mode: "signed rch = signed ch" "encrypted rch = encrypted ch"
    and key: "encrypted ch \<Longrightarrow> encryptionRemoteKeyLength mR kR \<le> 2048"
    and pad: "\<not> encrypted ch \<Longrightarrow> pad = []" "encrypted ch \<Longrightarrow> pad = replicate (p + 1) (word_of_nat p) \<and> p \<le> 255"
    and body: "body mc \<noteq> []"
    and e: "length e = length (plain_chunk mc ch pad s) - 16"
      "\<not> signed ch \<Longrightarrow> s = []" "signed ch \<Longrightarrow> length s = getLocalSignatureSize mS kS"
      "signed ch \<Longrightarrow> verify mR kR (take (24 + length (body mc) + length pad) (plain_chunk mc ch pad s)) s = GOOD"
      "\<not> encrypted ch \<Longrightarrow> e = drop 16 (plain_chunk mc ch pad s)"
      "encrypted ch \<Longrightarrow> decrypt mR kR e = (GOOD, drop 16 (plain_chunk mc ch pad s), length (plain_chunk mc ch pad s) - 16)"
  shows "decryptChunk mR False (take 16 (plain_chunk mc ch pad s) @ e) 16 rch
    = Some (Inr (mcRequestId mc, sendSequenceNumber ch, body mc))"
proof -
  let ?D = "plain_chunk mc ch pad s"
  let ?n = "24 + length (body mc) + length pad + length s"
  have n: "length ?D = ?n" by (rule plain_chunk_parts)
  have sig: "(if signed rch then getRemoteSignatureSize mR kR else 0) = length s"
    using e(2,3) signature_size mode by auto
  have dec: "(if encrypted rch then decrypt mR kR e else (GOOD, e, length e)) = (GOOD, drop 16 ?D, length e)"
    using e(1,5,6) mode by auto
  have p: "(if signed rch then padding_size mR False ?D ?n (length s) rch else Some 0) = Some (length pad)"
  proof (cases "encrypted ch")
    case True
    then have "signed ch" by (simp add: encrypted_def signed_def)
    moreover have "?D ! (?n - length s - 1) = word_of_nat p"
      using pad(2) [OF True] plain_chunk_padding [of pad p "word_of_nat p" mc ch s] by (simp add: add.assoc)
    ultimately show ?thesis
      using True mode key pad(2) rch small_padding(5) [of p] by (simp add: padding_size_def)
  next
    case False
    then show ?thesis using mode pad(1) by (simp add: padding_size_def)
  qed
  have b: "0 < length (body mc)" using body by simp
  have parts: "length (take 16 ?D @ e) = ?n" "take 16 (take 16 ?D @ e) = take 16 ?D" "drop 16 (take 16 ?D @ e) = e"
    "take 16 ?D @ drop 16 ?D = ?D" "?n - 16 = length e" "length ?D = ?n"
    using e(1) n by auto
  have v: "(if signed rch then verify mR kR (take (?n - length s) ?D) (take (length s) (drop (?n - length s) ?D)) else GOOD) = GOOD"
    using e(4) mode by (simp add: plain_chunk_parts(4) [unfolded add.assoc] add.assoc)
  show ?thesis
    unfolding decryptChunk_def Let_def rch simp_thms parts dec prod.case sig diff_self_eq_0 diff_zero p option.case v
    using b by (simp add: plain_chunk_parts(2) plain_chunk_fields)
qed

lemma pad_shape:
  assumes ch: "symmetricModule (securityPolicy ch) = mS" "channelContext ch = kS"
    and step: "in_step ch rch" and pad: "padding_bytes ch n = Some pad"
  obtains p where "\<not> encrypted ch \<Longrightarrow> pad = []" "encrypted ch \<Longrightarrow> pad = replicate (p + 1) (word_of_nat p) \<and> p \<le> 255"
    "encrypted ch \<Longrightarrow> getLocalBlockSize mS kS dvd 8 + n + length pad + getLocalSignatureSize mS kS"
proof (cases "encrypted ch")
  case True
  with step have b: "0 < getLocalBlockSize (symmetricModule (securityPolicy ch)) (channelContext ch)"
    "getLocalBlockSize (symmetricModule (securityPolicy ch)) (channelContext ch) \<le> 255"
    by (simp_all add: in_step_def)
  obtain p where p: "padding_bytes ch n = Some (replicate (p + 1) (word_of_nat p))" "p \<le> 255"
    "getLocalBlockSize (symmetricModule (securityPolicy ch)) (channelContext ch) dvd n + 8 + (p + 1) + local_sigsize ch"
    by (rule padding_bytes_encrypted [OF True refl b, of n])
  have "pad = replicate (p + 1) (word_of_nat p)" using pad p(1) by simp
  moreover from this p(3) have "getLocalBlockSize mS kS dvd 8 + n + length pad + getLocalSignatureSize mS kS"
    using ch by (simp add: local_sigsize_def add_ac)
  ultimately show thesis using that [of p] p(2) True by blast
next
  case False
  with pad that show thesis by (auto simp: padding_bytes_def)
qed

lemma chunk_received:
  assumes ch: "symmetricModule (securityPolicy ch) = mS" "channelContext ch = kS"
    and rch: "symmetricModule (securityPolicy rch) = mR" "channelContext rch = kR"
    and step: "in_step ch rch" and body: "body mc \<noteq> []"
    and type: "mcMessageType mc = MESSAGETYPE_MSG \<or> mcMessageType mc = MESSAGETYPE_CLO"
    and pad: "padding_bytes ch (length (body mc)) = Some pad"
  obtains buf where "secure_chunk mc (ch\<lparr>sendSequenceNumber := sendSequenceNumber ch + 1\<rparr>) pad = (GOOD, buf)"
    "length buf = total_length ch (length (body mc)) (length pad)"
    "take 4 buf = UA_encode32 (mcMessageType mc + (if final mc then CHUNKTYPE_FINAL else CHUNKTYPE_INTERMEDIATE))"
    "take 4 (drop 4 buf) = UA_encode32 (word_of_nat (total_length ch (length (body mc)) (length pad)))"
    "\<And>cb a. UA_SecureChannel_processChunk cb buf (rch, a) =
        Some (process_payload (mcMessageType mc) (if final mc then CHUNKTYPE_FINAL else CHUNKTYPE_INTERMEDIATE) (mcRequestId mc) (body mc) cb
          (rch\<lparr>receiveSequenceNumber := sendSequenceNumber ch + 1\<rparr>, a))"
proof -
  define ch1 where "ch1 = ch\<lparr>sendSequenceNumber := sendSequenceNumber ch + 1\<rparr>"
  have ch1: "symmetricModule (securityPolicy ch1) = mS" "channelContext ch1 = kS"
    "signed ch1 = signed ch" "encrypted ch1 = encrypted ch" "sendSequenceNumber ch1 = sendSequenceNumber ch + 1"
    "total_length ch1 = total_length ch" "securityToken ch1 = securityToken ch" "local_sigsize ch1 = local_sigsize ch"
    using ch by (simp_all add: ch1_def signed_def encrypted_def total_length_def local_sigsize_def fun_eq_iff)
  obtain p where p: "\<not> encrypted ch \<Longrightarrow> pad = []" "encrypted ch \<Longrightarrow> pad = replicate (p + 1) (word_of_nat p) \<and> p \<le> 255"
    "encrypted ch \<Longrightarrow> getLocalBlockSize mS kS dvd 8 + length (body mc) + length pad + getLocalSignatureSize mS kS"
    using pad_shape [OF ch step pad] by blast
  obtain s e where e: "secure_chunk mc ch1 pad = (GOOD, take 16 (plain_chunk mc ch1 pad s) @ e)"
    "length (plain_chunk mc ch1 pad s) = total_length ch1 (length (body mc)) (length pad)"
    "length e = length (plain_chunk mc ch1 pad s) - 16"
    "\<not> signed ch1 \<Longrightarrow> s = []" "signed ch1 \<Longrightarrow> length s = getLocalSignatureSize mS kS"
    "signed ch1 \<Longrightarrow> verify mR kR (take (24 + length (body mc) + length pad) (plain_chunk mc ch1 pad s)) s = GOOD"
    "\<not> encrypted ch1 \<Longrightarrow> e = drop 16 (plain_chunk mc ch1 pad s)"
    "encrypted ch1 \<Longrightarrow> decrypt mR kR e = (GOOD, drop 16 (plain_chunk mc ch1 pad s), length (plain_chunk mc ch1 pad s) - 16)"
    using secure_chunk_ok [OF ch1(1,2)] p(3) ch1(4) by blast
  define buf where "buf = take 16 (plain_chunk mc ch1 pad s) @ e"
  have len: "length buf = total_length ch (length (body mc)) (length pad)" "24 \<le> length (plain_chunk mc ch1 pad s)"
    using e(2,3) ch1(6) by (auto simp: buf_def total_length_def)
  have mode: "signed rch = signed ch1" "encrypted rch = encrypted ch1"
    using step ch1 by (auto simp: in_step_def signed_def encrypted_def)
  have dec: "decryptChunk mR False buf 16 rch = Some (Inr (mcRequestId mc, sendSequenceNumber ch1, body mc))"
    unfolding buf_def
    by (rule decryptChunk_ok [OF rch mode _ _ _ body e(3-8)])
       (use step ch1 rch p in \<open>auto simp: in_step_def\<close>)
  have hd: "take 4 (drop k buf) = take 4 (drop k (plain_chunk mc ch1 pad s))" if "k + 4 \<le> 16" for k
    using that len(2) by (simp add: buf_def take_drop)
  note f = hd [of 0, simplified] hd [of 4] hd [of 8] hd [of 12]
  show thesis
  proof (rule that [of buf])
    show "secure_chunk mc (ch\<lparr>sendSequenceNumber := sendSequenceNumber ch + 1\<rparr>) pad = (GOOD, buf)"
      using e(1) by (simp add: ch1_def buf_def)
    show "length buf = total_length ch (length (body mc)) (length pad)" by (fact len)
    show "take 4 buf = UA_encode32 (mcMessageType mc + (if final mc then CHUNKTYPE_FINAL else CHUNKTYPE_INTERMEDIATE))"
      "take 4 (drop 4 buf) = UA_encode32 (word_of_nat (total_length ch (length (body mc)) (length pad)))"
      using f ch1(6) by (simp_all add: plain_chunk_fields)
    show "UA_SecureChannel_processChunk cb buf (rch, a) =
        Some (process_payload (mcMessageType mc) (if final mc then CHUNKTYPE_FINAL else CHUNKTYPE_INTERMEDIATE) (mcRequestId mc) (body mc) cb
          (rch\<lparr>receiveSequenceNumber := sendSequenceNumber ch + 1\<rparr>, a))" for cb a
    proof -
      have "24 \<le> length buf" using len e(2) ch1(6) by simp
      moreover have "processSequenceNumberSym (sendSequenceNumber ch1) rch
          = (GOOD, rch\<lparr>receiveSequenceNumber := sendSequenceNumber ch + 1\<rparr>)"
        using step ch1(5) by (simp add: processSequenceNumberSym_def in_step_def)
      moreover have "checkSymHeader (tokenId (securityToken ch1)) rch = (GOOD, rch)"
        using step ch1(7) by (simp add: checkSymHeader_def in_step_def)
      moreover have "channelId (securityToken rch) = channelId (securityToken ch1)"
        using step ch1(7) by (simp add: in_step_def)
      moreover note message_and_chunk_type [OF type, of "final mc"]
      ultimately show ?thesis
        using type f dec rch
        by (elim disjE) (simp_all add: UA_SecureChannel_processChunk_def process_secured_def plain_chunk_fields)
    qed
  qed
qed

end

end
