(* ===== verification/Binary_Chunking.thy ===== *)
theory Binary_Chunking
  imports Binary_Basic_Correct
begin

text \<open>
  Chunking: when the end of the buffer is reached, the encoders of
  src/src/ua_types_encoding_binary.c send the buffer with the exchange callback and go on in a fresh
  one. This theory shows that the bytes sent over all buffers (\<open>stream\<close>) are the reference encoding
  wherever the buffer ends fall, and states the discipline that the comment "Chunking" of the source
  asks for: an encoder that can return \<open>BADENCODINGLIMITSEXCEEDED\<close> does so only before it has
  exchanged a buffer (\<open>chunk_retry\<close>), so that its caller can go back and try again.
  \<open>QualifiedName_encodeBinary\<close> breaks it.

  The callback is assumed to work: its answers are good, each fresh buffer has room for \<open>N\<close> bytes
  (\<open>good_script\<close>), and there are enough of them for the length of the encoding.
\<close>

definition stream :: "ectx \<Rightarrow> u8 list" where
  "stream c = concat (esent c) @ eout c"

definition good_script :: "nat \<Rightarrow> ectx \<Rightarrow> bool" where
  "good_script N c \<longleftrightarrow> (case escript c of None \<Rightarrow> False | Some l \<Rightarrow> list_all (\<lambda>(s, r). s = GOOD \<and> N \<le> r) l)"

text \<open>No empty buffer is sent, and an empty buffer has room for \<open>N\<close> bytes.\<close>

definition live :: "nat \<Rightarrow> ectx \<Rightarrow> bool" where
  "live N c \<longleftrightarrow> list_all (\<lambda>b. b \<noteq> []) (esent c) \<and> (eout c = [] \<longrightarrow> N \<le> eroom c)"

text \<open>No buffer has more than \<open>M\<close> bytes.\<close>

definition within :: "nat \<Rightarrow> ectx \<Rightarrow> bool" where
  "within M c \<longleftrightarrow> list_all (\<lambda>b. length b \<le> M) (esent c) \<and> length (eout c) + eroom c \<le> M
     \<and> (case escript c of None \<Rightarrow> True | Some l \<Rightarrow> list_all (\<lambda>(s, r). r \<le> M) l)"

text \<open>\<open>extends N k c bs c'\<close>: from \<open>c\<close> to \<open>c'\<close> the bytes \<open>bs\<close> were written with at most \<open>k\<close> exchanges.\<close>

definition extends :: "nat \<Rightarrow> nat \<Rightarrow> ectx \<Rightarrow> u8 list \<Rightarrow> ectx \<Rightarrow> bool" where
  "extends N k c bs c' \<longleftrightarrow>
     stream c' = stream c @ bs \<and> good_script N c' \<and> script_len c \<le> script_len c' + k
       \<and> edepth c' = edepth c \<and> (live N c \<longrightarrow> live N c') \<and> (\<forall>M. within M c \<longrightarrow> within M c')"

text \<open>\<open>writes\<close> is what a whole encoder does: when it has content, some of it is in the current buffer.\<close>

definition writes :: "nat \<Rightarrow> nat \<Rightarrow> ectx \<Rightarrow> u8 list \<Rightarrow> ectx \<Rightarrow> bool" where
  "writes N k c bs c' \<longleftrightarrow> extends N k c bs c' \<and> (if bs = [] then eout c' = eout c else eout c' \<noteq> [])"

definition unsent :: "ectx \<Rightarrow> ectx \<Rightarrow> bool" where
  "unsent c c' \<longleftrightarrow> esent c' = esent c \<and> escript c' = escript c \<and> edepth c' = edepth c"

definition chunk_safe :: "nat \<Rightarrow> (ectx \<Rightarrow> status \<times> ectx) \<Rightarrow> u8 list \<Rightarrow> bool" where
  "chunk_safe N enc bs \<longleftrightarrow>
     (\<forall>c. good_script N c \<and> 2 * length bs \<le> script_len c \<longrightarrow>
        (\<exists>c'. enc c = (GOOD, c') \<and> writes N (2 * length bs) c bs c'))"

definition chunk_retry :: "nat \<Rightarrow> (ectx \<Rightarrow> status \<times> ectx) \<Rightarrow> u8 list \<Rightarrow> bool" where
  "chunk_retry N enc bs \<longleftrightarrow> bs \<noteq> [] \<and>
     (\<forall>c. good_script N c \<and> 2 * length bs \<le> script_len c + 1 \<longrightarrow>
        (\<exists>c'. enc c = (GOOD, c') \<and> writes N (2 * length bs - 1) c bs c')
        \<or> (eroom c < N \<and> (\<exists>c'. enc c = (BADENCODINGLIMITSEXCEEDED, c') \<and> unsent c c')))"

definition direct :: "(ectx \<Rightarrow> status \<times> ectx) \<Rightarrow> u8 list \<Rightarrow> bool" where
  "direct enc bs \<longleftrightarrow>
     (\<forall>c. (length bs \<le> eroom c \<longrightarrow> enc c = (GOOD, emit bs c))
        \<and> (eroom c < length bs \<longrightarrow> (\<exists>c'. enc c = (BADENCODINGLIMITSEXCEEDED, c') \<and> unsent c c')))"

subsection \<open>The exchange of the buffer\<close>

lemma stream_emit [simp]: "stream (emit bs c) = stream c @ bs"
  by (simp add: stream_def)

lemma script_len_emit [simp]: "script_len (emit bs c) = script_len c"
  by (simp add: script_len_def)

lemma good_script_emit [simp]: "good_script N (emit bs c) = good_script N c"
  by (simp add: good_script_def)

lemma live_emit: "live N c \<Longrightarrow> live N (emit bs c)"
  by (cases bs) (auto simp: live_def emit_def)

lemma within_emit: "within M c \<Longrightarrow> length bs \<le> eroom c \<Longrightarrow> within M (emit bs c)"
  by (simp add: within_def emit_def)

lemma exchangeBuffer_good:
  assumes "good_script N c" and "0 < script_len c" and "eroom c < N \<or> eout c \<noteq> []"
  obtains c' where "exchangeBuffer c = (GOOD, c')" "extends N 1 c [] c'" "N \<le> eroom c'"
    "script_len c = script_len c' + 1" "eout c' = []"
proof -
  obtain s r l where e: "escript c = Some ((s, r) # l)"
    using assms by (cases "escript c") (auto simp: good_script_def script_len_def neq_Nil_conv)
  let ?c = "c\<lparr>esent := esent c @ [eout c], eout := [], eroom := r, escript := Some l\<rparr>"
  show thesis
  proof (rule that [of ?c])
    show "exchangeBuffer c = (GOOD, ?c)"
      using assms e by (simp add: exchangeBuffer_def good_script_def)
    show "extends N 1 c [] ?c" "N \<le> eroom ?c" "script_len c = script_len ?c + 1" "eout ?c = []"
      using assms e by (auto simp: extends_def good_script_def script_len_def stream_def live_def within_def)
  qed
qed

lemma chunk_safeE:
  assumes "chunk_safe N e bs" and "good_script N c" and "2 * length bs \<le> script_len c"
  obtains c' where "e c = (GOOD, c')" "writes N (2 * length bs) c bs c'"
  using assms by (auto simp: chunk_safe_def)

lemma extends_trans:
  "extends N k c a c1 \<Longrightarrow> extends N l c1 b c2 \<Longrightarrow> k + l \<le> m \<Longrightarrow> extends N m c (a @ b) c2"
  by (auto simp: extends_def)

lemma writes_trans:
  "writes N k c a c1 \<Longrightarrow> writes N l c1 b c2 \<Longrightarrow> k + l \<le> m \<Longrightarrow> writes N m c (a @ b) c2"
  using extends_trans [of N k c a c1 l b c2 m] by (auto simp: writes_def split: if_splits)

lemma extends_writes:
  "extends N k c a c1 \<Longrightarrow> writes N l c1 b c2 \<Longrightarrow> b \<noteq> [] \<Longrightarrow> k + l \<le> m \<Longrightarrow> writes N m c (a @ b) c2"
  by (auto simp: writes_def intro: extends_trans)

lemma writes_mono: "writes N k c a c1 \<Longrightarrow> k \<le> m \<Longrightarrow> writes N m c a c1"
  by (auto simp: writes_def extends_def)

lemma writes_emit: "good_script N c \<Longrightarrow> length bs \<le> eroom c \<Longrightarrow> writes N 0 c bs (emit bs c)"
  by (simp add: writes_def extends_def live_emit within_emit)

lemma extends_emit: "good_script N c \<Longrightarrow> length bs \<le> eroom c \<Longrightarrow> extends N 0 c bs (emit bs c)"
  using writes_emit by (simp add: writes_def)

lemma writes_script: "writes N k c a c1 \<Longrightarrow> good_script N c1 \<and> script_len c \<le> script_len c1 + k"
  by (simp add: writes_def extends_def)

lemma writes_stream: "writes N k c bs c' \<Longrightarrow> stream c' = stream c @ bs"
  by (simp add: writes_def extends_def)

lemma extends_script: "extends N k c a c1 \<Longrightarrow> good_script N c1 \<and> script_len c \<le> script_len c1 + k"
  by (simp add: extends_def)

subsection \<open>Sequences of numeric fields\<close>

lemma direct_fullE:
  assumes "direct e bs" and "eroom c < length bs"
  obtains c' where "e c = (BADENCODINGLIMITSEXCEEDED, c')" "unsent c c'"
  using assms by (auto simp: direct_def)

lemma direct_put: "direct (put bs) bs"
  by (auto simp: direct_def put_emit put_full unsent_def)

lemma direct_OR:
  assumes "direct e1 b1" and "direct e2 b2"
  shows "direct (\<lambda>c. let (r1, c1) = e1 c; (r2, c2) = e2 c1 in (r1 OR r2, c2)) (b1 @ b2)"
  unfolding direct_def
proof (intro allI conjI impI)
  fix c :: ectx assume "length (b1 @ b2) \<le> eroom c"
  then have "e1 c = (GOOD, emit b1 c)" "e2 (emit b1 c) = (GOOD, emit b2 (emit b1 c))"
    using assms by (auto simp: direct_def)
  then show "(let (r1, c1) = e1 c; (r2, c2) = e2 c1 in (r1 OR r2, c2)) = (GOOD, emit (b1 @ b2) c)"
    by simp
next
  fix c :: ectx assume l: "eroom c < length (b1 @ b2)"
  show "\<exists>c'. (let (r1, c1) = e1 c; (r2, c2) = e2 c1 in (r1 OR r2, c2))
      = (BADENCODINGLIMITSEXCEEDED, c') \<and> unsent c c'"
  proof (cases "length b1 \<le> eroom c")
    case True
    then have "e1 c = (GOOD, emit b1 c)" "eroom (emit b1 c) < length b2"
      using assms(1) l by (auto simp: direct_def)
    moreover from this(2) obtain c' where "e2 (emit b1 c) = (BADENCODINGLIMITSEXCEEDED, c')"
      "unsent (emit b1 c) c'"
      by (blast intro: direct_fullE [OF assms(2)])
    ultimately show ?thesis
      by (simp add: unsent_def)
  next
    case False
    then obtain c1 where c1: "e1 c = (BADENCODINGLIMITSEXCEEDED, c1)" "unsent c c1"
      using assms(1) by (auto simp: direct_def not_le)
    show ?thesis
    proof (cases "length b2 \<le> eroom c1")
      case True
      then have "e2 c1 = (GOOD, emit b2 c1)"
        using assms(2) by (simp add: direct_def)
      with c1 show ?thesis
        by (simp add: unsent_def)
    next
      case False
      then obtain c2 where "e2 c1 = (BADENCODINGLIMITSEXCEEDED, c2)" "unsent c1 c2"
        by (auto simp: not_le intro: direct_fullE [OF assms(2)])
      with c1 show ?thesis
        by (simp add: unsent_def)
    qed
  qed
qed

lemma direct_chunk_retry:
  assumes "direct e bs" and "bs \<noteq> []" and "length bs \<le> N"
  shows "chunk_retry N e bs"
  unfolding chunk_retry_def
proof (intro conjI allI impI)
  fix c :: ectx assume g: "good_script N c \<and> 2 * length bs \<le> script_len c + 1"
  show "(\<exists>c'. e c = (GOOD, c') \<and> writes N (2 * length bs - 1) c bs c')
      \<or> (eroom c < N \<and> (\<exists>c'. e c = (BADENCODINGLIMITSEXCEEDED, c') \<and> unsent c c'))"
  proof (cases "length bs \<le> eroom c")
    case True
    then have "e c = (GOOD, emit bs c)"
      using assms(1) by (simp add: direct_def)
    then show ?thesis
      using g True by (auto intro: writes_mono [OF writes_emit])
  next
    case False
    then show ?thesis
      using assms(1,3) by (auto simp: direct_def not_le)
  qed
qed (rule assms(2))

text \<open>A part that may ask for a retry, followed by content that handles the buffer ends itself.\<close>

lemma chunk_retry_then:
  assumes "chunk_retry N e1 b1" and "chunk_safe N e2 b2"
    and enc: "\<And>c. enc c = (let (r, c1) = e1 c in if r \<noteq> GOOD then (r, c1) else e2 c1)"
  shows "chunk_retry N enc (b1 @ b2)"
  unfolding chunk_retry_def
proof (intro conjI allI impI)
  show "b1 @ b2 \<noteq> []"
    using assms(1) by (simp add: chunk_retry_def)
  fix c :: ectx assume g: "good_script N c \<and> 2 * length (b1 @ b2) \<le> script_len c + 1"
  then have g1: "good_script N c \<and> 2 * length b1 \<le> script_len c + 1"
    by simp
  have b1: "1 \<le> length b1"
    using assms(1) by (simp add: chunk_retry_def Suc_le_eq)
  from g1 assms(1) consider c1 where "e1 c = (GOOD, c1)" "writes N (2 * length b1 - 1) c b1 c1"
    | c1 where "eroom c < N" "e1 c = (BADENCODINGLIMITSEXCEEDED, c1)" "unsent c c1"
    by (auto simp: chunk_retry_def)
  then show "(\<exists>c'. enc c = (GOOD, c') \<and> writes N (2 * length (b1 @ b2) - 1) c (b1 @ b2) c')
      \<or> (eroom c < N \<and> (\<exists>c'. enc c = (BADENCODINGLIMITSEXCEEDED, c') \<and> unsent c c'))"
  proof cases
    case 1
    have "2 * length b2 \<le> script_len c1"
      using writes_script [OF 1(2)] g b1 by (simp, linarith)
    then obtain c2 where "e2 c1 = (GOOD, c2)" "writes N (2 * length b2) c1 b2 c2"
      using writes_script [OF 1(2)] by (auto elim!: chunk_safeE [OF assms(2), of c1])
    moreover have "2 * length b1 - 1 + 2 * length b2 \<le> 2 * length (b1 @ b2) - 1"
      using b1 by simp
    ultimately show ?thesis
      using 1 by (auto simp: enc intro: writes_trans)
  next
    case 2
    then show ?thesis
      by (simp add: enc)
  qed
qed

lemma chunk_safe_Nil: "chunk_safe N (\<lambda>c. (GOOD, c)) []"
  by (simp add: chunk_safe_def writes_def extends_def)

lemma chunk_safe_OR:
  assumes "chunk_safe N e1 b1" and "chunk_safe N e2 b2"
  shows "chunk_safe N (\<lambda>c. let (r1, c1) = e1 c; (r2, c2) = e2 c1 in (r1 OR r2, c2)) (b1 @ b2)"
  unfolding chunk_safe_def
proof (intro allI impI)
  fix c :: ectx assume g: "good_script N c \<and> 2 * length (b1 @ b2) \<le> script_len c"
  then obtain c1 where c1: "e1 c = (GOOD, c1)" "writes N (2 * length b1) c b1 c1"
    using assms(1) by (auto simp: chunk_safe_def)
  have "2 * length b2 \<le> script_len c1"
    using writes_script [OF c1(2)] g by simp
  with assms(2) obtain c2 where "e2 c1 = (GOOD, c2)" "writes N (2 * length b2) c1 b2 c2"
    using writes_script [OF c1(2)] by (blast elim: chunk_safeE)
  with c1 show "\<exists>c'. (let (r1, c1) = e1 c; (r2, c2) = e2 c1 in (r1 OR r2, c2)) = (GOOD, c') \<and>
      writes N (2 * length (b1 @ b2)) c (b1 @ b2) c'"
    by (auto intro!: writes_trans [OF c1(2)])
qed

subsection \<open>Trying an element again in a fresh buffer\<close>

lemma extends_reset:
  assumes "unsent c c1" and "good_script N c" and "0 < script_len c" and "eroom c < N"
  obtains c2 where "exchangeBuffer (c1\<lparr>eout := eout c, eroom := eroom c\<rparr>) = (GOOD, c2)"
    "extends N 1 c [] c2" "N \<le> eroom c2" "script_len c = script_len c2 + 1"
proof -
  let ?c = "c1\<lparr>eout := eout c, eroom := eroom c\<rparr>"
  have "?c = c"
    using assms(1) by (simp add: unsent_def)
  then show thesis
    using exchangeBuffer_good [OF assms(2,3)] assms(4) that by metis
qed

lemma retry_element_safe:
  assumes "chunk_retry N e bs"
  shows "chunk_safe N (\<lambda>c. retry_element (Suc (script_len c)) e c) bs"
  unfolding chunk_safe_def
proof (intro allI impI)
  fix c :: ectx assume g: "good_script N c \<and> 2 * length bs \<le> script_len c"
  have ne: "0 < length bs"
    using assms by (simp add: chunk_retry_def)
  show "\<exists>c'. retry_element (Suc (script_len c)) e c = (GOOD, c') \<and> writes N (2 * length bs) c bs c'"
  proof (cases "fst (e c) = BADENCODINGLIMITSEXCEEDED")
    case False
    then obtain c' where "e c = (GOOD, c')" "writes N (2 * length bs - 1) c bs c'"
      using assms g by (force simp: chunk_retry_def)
    then show ?thesis
      by (auto intro: writes_mono)
  next
    case True
    then obtain c1 where c1: "e c = (BADENCODINGLIMITSEXCEEDED, c1)" "unsent c c1" and r: "eroom c < N"
      using assms g by (force simp: chunk_retry_def)
    have pos: "0 < script_len c"
      using g ne by linarith
    obtain c2 where c2: "exchangeBuffer (c1\<lparr>eout := eout c, eroom := eroom c\<rparr>) = (GOOD, c2)"
      "extends N 1 c [] c2" "N \<le> eroom c2" "script_len c = script_len c2 + 1"
      using extends_reset [OF c1(2)] g pos r by blast
    then obtain c3 where "e c2 = (GOOD, c3)" "writes N (2 * length bs - 1) c2 bs c3"
      using assms g by (force simp: chunk_retry_def dest: extends_script)
    then show ?thesis
      using c1 c2 ne extends_writes [OF c2(2), of "2 * length bs - 1" bs c3 "2 * length bs"]
      by (auto simp: Let_def)
  qed
qed

text \<open>An element that asks for a retry, or one that handles the buffer ends itself.\<close>

definition chunk_elem :: "nat \<Rightarrow> (ectx \<Rightarrow> status \<times> ectx) \<Rightarrow> u8 list \<Rightarrow> bool" where
  "chunk_elem N e bs \<longleftrightarrow> chunk_retry N e bs \<or> chunk_safe N e bs"

lemma retry_element_elem:
  assumes "chunk_elem N e bs"
  shows "chunk_safe N (\<lambda>c. retry_element (Suc (script_len c)) e c) bs"
proof (cases "chunk_retry N e bs")
  case False
  with assms have "chunk_safe N e bs" by (simp add: chunk_elem_def)
  then show ?thesis by (force simp: chunk_safe_def)
qed (rule retry_element_safe)

lemma elements_safe:
  assumes "\<And>x. x \<in> set xs \<Longrightarrow> chunk_elem N (enc x) (bin x)"
  shows "chunk_safe N (Array_encodeBinaryComplex enc xs) (concat (map bin xs))"
  using assms
proof (induction xs)
  case Nil
  then show ?case
    by (simp add: chunk_safe_def writes_def extends_def)
next
  case (Cons x xs)
  note x = retry_element_elem [OF Cons.prems [OF list.set_intros(1)]]
  have xs: "chunk_safe N (Array_encodeBinaryComplex enc xs) (concat (map bin xs))"
    using Cons by simp
  show ?case
    unfolding chunk_safe_def
  proof (intro allI impI)
    fix c :: ectx assume g: "good_script N c \<and> 2 * length (concat (map bin (x # xs))) \<le> script_len c"
    then obtain c1 where c1: "retry_element (Suc (script_len c)) (enc x) c = (GOOD, c1)"
      "writes N (2 * length (bin x)) c (bin x) c1"
      by (auto intro: chunk_safeE [OF x, of c])
    have "2 * length (concat (map bin xs)) \<le> script_len c1"
      using g writes_script [OF c1(2)] by simp
    then obtain c2 where "Array_encodeBinaryComplex enc xs c1 = (GOOD, c2)"
      "writes N (2 * length (concat (map bin xs))) c1 (concat (map bin xs)) c2"
      using writes_script [OF c1(2)] by (auto intro: chunk_safeE [OF xs, of c1])
    with c1 show "\<exists>c'. Array_encodeBinaryComplex enc (x # xs) c = (GOOD, c') \<and>
      writes N (2 * length (concat (map bin (x # xs)))) c (concat (map bin (x # xs))) c'"
      by (auto intro!: writes_trans [OF c1(2)] simp del: retry_element.simps)
  qed
qed

lemma exchange_safe:
  assumes "bs \<noteq> []" and "length bs \<le> N"
  shows "chunk_safe N (encodeWithExchangeBuffer (put bs)) bs"
  unfolding chunk_safe_def
proof (intro allI impI)
  fix c :: ectx assume g: "good_script N c \<and> 2 * length bs \<le> script_len c"
  show "\<exists>c'. encodeWithExchangeBuffer (put bs) c = (GOOD, c') \<and> writes N (2 * length bs) c bs c'"
  proof (cases "length bs \<le> eroom c")
    case True
    then show ?thesis
      using g by (auto simp: encodeWithExchangeBuffer_def put_emit intro: writes_mono [OF writes_emit])
  next
    case False
    have pos: "0 < length bs"
      using assms(1) by simp
    then have "0 < script_len c"
      using g by linarith
    then obtain c2 where c2: "exchangeBuffer c = (GOOD, c2)" "extends N 1 c [] c2" "N \<le> eroom c2"
      using g exchangeBuffer_good [of N c] False assms(2) by (metis order.strict_trans2 not_le)
    moreover have "put bs c2 = (GOOD, emit bs c2)"
      using c2(3) assms(2) by (simp add: put_emit)
    moreover have "writes N (2 * length bs) c ([] @ bs) (emit bs c2)"
      using pos extends_script [OF c2(2)] c2(3) assms(2)
      by (intro extends_writes [OF c2(2) writes_emit]) (simp_all add: Suc_le_eq)
    ultimately show ?thesis
      using False by (simp add: encodeWithExchangeBuffer_def put_full)
  qed
qed

subsection \<open>Arrays and strings\<close>

text \<open>
  Overlayable arrays. At most one exchange goes by without progress, namely when the first buffer
  has no room for an element.
\<close>

lemma Overlayable_safe_aux:
  assumes "0 < m" and "m \<le> N" and "good_script N c"
    and "length mem \<le> script_len c + (if m \<le> eroom c then 1 else 0)"
  shows "\<exists>c'. Array_encodeBinaryOverlayable mem m c = (GOOD, c') \<and>
    writes N (length mem + (if m \<le> eroom c then 0 else 1)) c mem c'"
  using assms
proof (induction mem m c rule: Array_encodeBinaryOverlayable.induct)
  case (1 mem m c)
  show ?case
  proof (cases "eroom c < length mem")
    case False
    then show ?thesis
      using "1.prems" Overlayable_fits [of mem c m] by (auto intro: writes_mono [OF writes_emit])
  next
    case True
    define p where "p = (eroom c div m) * m"
    define c1 where "c1 = c\<lparr>eout := eout c @ take p mem, eroom := eroom c - p\<rparr>"
    have p: "p \<le> eroom c" "m \<le> eroom c \<Longrightarrow> 0 < p"
      using "1.prems"(1) by (simp_all add: p_def div_greater_zero_iff)
    have c1: "c1 = emit (take p mem) c"
      using p True by (simp add: c1_def emit_def)
    have pos: "0 < script_len c1"
      using "1.prems"(4) True "1.prems"(1) by (auto simp: c1 split: if_splits)
    have full: "eroom c1 < N \<or> eout c1 \<noteq> []"
      using p True "1.prems"(2) by (cases "m \<le> eroom c") (auto simp: c1_def)
    have "good_script N c1"
      using "1.prems"(3) by (simp add: c1)
    then obtain c2 where c2: "exchangeBuffer c1 = (GOOD, c2)" "extends N 1 c1 [] c2" "N \<le> eroom c2"
      "script_len c1 = script_len c2 + 1"
      using pos exchangeBuffer_good [of N c1] full by blast
    have room: "m \<le> eroom c2"
      using c2(3) "1.prems"(2) by simp
    have "\<exists>c'. Array_encodeBinaryOverlayable (drop p mem) m c2 = (GOOD, c') \<and>
        writes N (length (drop p mem) + (if m \<le> eroom c2 then 0 else 1)) c2 (drop p mem) c'"
    proof (rule "1.IH" [OF True p_def c1_def refl c2(1) [symmetric]])
      show "length (drop p mem) \<le> script_len c2 + (if m \<le> eroom c2 then 1 else 0)"
        using "1.prems"(4) c2(4) room p by (auto simp: c1 split: if_splits)
    qed (use "1.prems" c2 in \<open>auto dest: extends_script\<close>)
    then obtain c3 where c3: "Array_encodeBinaryOverlayable (drop p mem) m c2 = (GOOD, c3)"
      "writes N (length (drop p mem)) c2 (drop p mem) c3"
      using room by auto
    have "extends N (0 + 1) c (take p mem @ []) c2"
      using extends_trans [OF extends_emit [OF "1.prems"(3)] c2(2) [unfolded c1], of 1] p(1) by simp
    then have "writes N (length mem + (if m \<le> eroom c then 0 else 1)) c (take p mem @ drop p mem) c3"
      using c3(2) p(2) True p(1) by (intro extends_writes [of N 1]) auto
    moreover have "Array_encodeBinaryOverlayable mem m c = Array_encodeBinaryOverlayable (drop p mem) m c2"
      using True c2(1) by (subst Array_encodeBinaryOverlayable.simps)
        (simp add: p_def [symmetric] c1_def [symmetric] Let_def)
    ultimately show ?thesis
      using c3(1) by simp
  qed
qed

lemma Overlayable_safe:
  assumes "0 < m" and "m \<le> N"
  shows "chunk_safe N (Array_encodeBinaryOverlayable mem m) mem"
  unfolding chunk_safe_def
proof (intro allI impI)
  fix c :: ectx assume g: "good_script N c \<and> 2 * length mem \<le> script_len c"
  show "\<exists>c'. Array_encodeBinaryOverlayable mem m c = (GOOD, c') \<and> writes N (2 * length mem) c mem c'"
  proof (cases "mem = []")
    case True
    then show ?thesis
      using g Overlayable_fits [of mem c m] by (simp add: writes_def extends_def)
  next
    case False
    then have "length mem + 1 \<le> 2 * length mem"
      by (simp add: Suc_le_eq)
    then show ?thesis
      using assms g Overlayable_safe_aux [of m N c mem] by (auto split: if_splits elim!: writes_mono)
  qed
qed

text \<open>The array codec, over elements of either kind.\<close>

lemma array_safe:
  assumes "arr_length a \<le> UA_INT32_MAX" and "4 \<le> N"
    and ov: "overlayable \<Longrightarrow> 0 < memSize \<and> memSize \<le> N \<and> (\<forall>x \<in> set (arr_list a). memory x = bin x)"
    and el: "\<And>x. \<not> overlayable \<Longrightarrow> x \<in> set (arr_list a) \<Longrightarrow> chunk_elem N (enc x) (bin x)"
  shows "chunk_safe N (Array_encodeBinary overlayable memSize memory enc a) (array_bin bin a)"
  unfolding chunk_safe_def
proof (intro allI impI)
  fix c :: ectx
  let ?l = "UA_encode32 (signed_length a)" and ?b = "concat (map bin (arr_list a))"
  assume g: "good_script N c \<and> 2 * length (array_bin bin a) \<le> script_len c"
  have "chunk_safe N (encodeWithExchangeBuffer (put ?l)) ?l"
    using assms(2) by (intro exchange_safe) simp_all
  moreover have "2 * length ?l \<le> script_len c"
    using g by (simp add: array_bin_def)
  ultimately obtain c1 where c1: "encodeWithExchangeBuffer (UInt32_encodeBinary (signed_length a)) c = (GOOD, c1)"
    "writes N 8 c ?l c1"
    using g by (auto elim!: chunk_safeE simp: UInt32_encodeBinary_def)
  have s1: "good_script N c1" "2 * length ?b \<le> script_len c1"
    using writes_script [OF c1(2)] g by (simp_all add: array_bin_def)
  have rest: "\<exists>c2. (if overlayable then Array_encodeBinaryOverlayable (concat (map memory (arr_list a))) memSize c1
              else Array_encodeBinaryComplex enc (arr_list a) c1) = (GOOD, c2)
          \<and> writes N (2 * length ?b) c1 ?b c2"
  proof (cases overlayable)
    case False
    then show ?thesis
      using s1 el elements_safe [of "arr_list a" N enc bin] by (auto elim!: chunk_safeE)
  next
    case True
    have "map memory (arr_list a) = map bin (arr_list a)"
      using True ov by simp
    then have mem: "concat (map memory (arr_list a)) = ?b"
      by (rule arg_cong)
    show ?thesis
      unfolding mem using True ov s1 Overlayable_safe [of memSize N ?b] by (auto elim!: chunk_safeE)
  qed
  show "\<exists>c'. Array_encodeBinary overlayable memSize memory enc a c = (GOOD, c') \<and>
      writes N (2 * length (array_bin bin a)) c (array_bin bin a) c'"
  proof (cases "arr_length a = 0")
    case True
    then have "arr_list a = []"
      by (simp add: arr_length_def)
    then show ?thesis
      using True assms(1) c1 by (simp add: Array_encodeBinary_def array_bin_def)
  next
    case False
    obtain c2 where c2: "(if overlayable then Array_encodeBinaryOverlayable (concat (map memory (arr_list a))) memSize c1
              else Array_encodeBinaryComplex enc (arr_list a) c1) = (GOOD, c2)"
      "writes N (2 * length ?b) c1 ?b c2"
      using rest by blast
    have "writes N (2 * length (array_bin bin a)) c (array_bin bin a) c2"
      using writes_trans [OF c1(2) c2(2)] by (simp add: array_bin_def)
    with False c2(1) assms(1) c1(1) show ?thesis
      by (cases overlayable) (simp_all add: Array_encodeBinary_def)
  qed
qed

subsection \<open>The builtin types\<close>

lemma String_safe: "string_ok s \<Longrightarrow> 4 \<le> N \<Longrightarrow> chunk_safe N (String_encodeBinary s) (string_bin s)"
  unfolding String_encodeBinary_def string_bin_def
  by (rule array_safe) (simp_all add: string_ok_def byte_bin_def)

lemma direct_ints:
  "direct (Byte_encodeBinary b) [b]" "direct (UInt16_encodeBinary w) (UA_encode16 w)"
  "direct (UInt32_encodeBinary v) (UA_encode32 v)" "direct (UInt64_encodeBinary q) (UA_encode64 q)"
  by (simp_all add: Byte_encodeBinary_def UInt16_encodeBinary_def UInt32_encodeBinary_def
      UInt64_encodeBinary_def direct_put)

lemma direct_OR3:
  assumes "direct e1 b1" and "direct e2 b2" and "direct e3 b3"
  shows "direct (\<lambda>c. let (r1, c1) = e1 c; (r2, c2) = e2 c1; (r3, c3) = e3 c2 in (r1 OR r2 OR r3, c3))
    (b1 @ b2 @ b3)"
  using direct_OR [OF assms(1) direct_OR [OF assms(2,3)]] by (simp add: split_def Let_def)

lemma direct_Guid: "guid_ok g \<Longrightarrow> direct (Guid_encodeBinary g) (guid_bin g)"
  unfolding direct_def
proof (intro allI conjI impI)
  fix c :: ectx assume g: "guid_ok g" and "eroom c < length (guid_bin g)"
  then have "eroom c < 16"
    by (simp add: length_guid_bin)
  then show "\<exists>c'. Guid_encodeBinary g c = (BADENCODINGLIMITSEXCEEDED, c') \<and> unsent c c'"
    by (simp add: Guid_encodeBinary_def UInt16_encodeBinary_def UInt32_encodeBinary_def put_def unsent_def)
       (auto intro: exI [of _ c])
qed (simp add: Guid_codec.enc_fits)

lemma NodeId_mask_retry:
  assumes ok: "nodeid_ok n" and N: "19 \<le> N"
  shows "chunk_retry N (NodeId_encodeBinaryWithEncodingMask n m) (nodeid_mask_bin n m)"
proof -
  note d2 = direct_OR [OF direct_ints(1) direct_ints(2)]
  have str: "chunk_retry N (\<lambda>c. let (r1, c1) = Byte_encodeBinary b c;
        (r2, c2) = UInt16_encodeBinary (namespaceIndex n) c1
      in if r1 OR r2 \<noteq> GOOD then (r1 OR r2, c2) else String_encodeBinary s c2)
      (b # UA_encode16 (namespaceIndex n) @ string_bin s)" if "string_ok s" for b s
    using chunk_retry_then [OF direct_chunk_retry [OF d2 [of b "namespaceIndex n"]] String_safe [OF that]] N
    by (simp add: split_def Let_def)
  show ?thesis
  proof (cases "nident n")
    case (Numeric num)
    show ?thesis
      unfolding NodeId_encodeBinaryWithEncodingMask_def nodeid_mask_bin_def Numeric
      using N
        direct_chunk_retry [OF direct_OR3 [OF direct_ints(1,2,3)], of "m OR 2" "namespaceIndex n" num N]
        direct_chunk_retry [OF direct_OR3 [OF direct_ints(1,1,2)], of "m OR 1" "ucast (namespaceIndex n)" "ucast num" N]
        direct_chunk_retry [OF direct_OR [OF direct_ints(1,1)], of "m" "ucast num" N]
      by simp
  next
    case (StringId s)
    then show ?thesis
      unfolding NodeId_encodeBinaryWithEncodingMask_def nodeid_mask_bin_def
      using str ok by (simp add: nodeid_ok_def)
  next
    case (GuidId g)
    then have "guid_ok g"
      using ok by (simp add: nodeid_ok_def)
    from direct_chunk_retry [OF direct_OR3 [OF direct_ints(1,2) direct_Guid [OF this]],
        of "m OR 4" "namespaceIndex n" N] N show ?thesis
      unfolding NodeId_encodeBinaryWithEncodingMask_def nodeid_mask_bin_def
      by (simp add: GuidId length_guid_bin \<open>guid_ok g\<close>)
  next
    case (ByteStringId s)
    then show ?thesis
      unfolding NodeId_encodeBinaryWithEncodingMask_def nodeid_mask_bin_def
      using str ok by (simp add: nodeid_ok_def)
  qed
qed

lemma NodeId_retry: "nodeid_ok n \<Longrightarrow> 19 \<le> N \<Longrightarrow> chunk_retry N (NodeId_encodeBinary n) (nodeid_bin n)"
  using NodeId_mask_retry [of n N 0] by (simp add: NodeId_encodeBinary_def nodeid_bin_def)

lemma chunk_safe_if:
  "(b \<Longrightarrow> chunk_safe N e bs) \<Longrightarrow>
   chunk_safe N (\<lambda>c. if b then e c else (GOOD, c)) (if b then bs else [])"
  by (cases b) (simp_all add: chunk_safe_Nil)

text \<open>Two safe parts, where an error of the first ends the encoding.\<close>

lemma chunk_safe_then:
  assumes "chunk_safe N e1 b1" and "chunk_safe N e2 b2"
    and enc: "\<And>c. enc c = (let (r, c1) = e1 c in if r \<noteq> GOOD then (r, c1) else e2 c1)"
  shows "chunk_safe N enc (b1 @ b2)"
  unfolding chunk_safe_def
proof (intro allI impI)
  fix c :: ectx assume g: "good_script N c \<and> 2 * length (b1 @ b2) \<le> script_len c"
  then obtain c1 where c1: "e1 c = (GOOD, c1)" "writes N (2 * length b1) c b1 c1"
    using assms(1) by (auto simp: chunk_safe_def)
  have "2 * length b2 \<le> script_len c1"
    using writes_script [OF c1(2)] g by simp
  with assms(2) obtain c2 where "e2 c1 = (GOOD, c2)" "writes N (2 * length b2) c1 b2 c2"
    using writes_script [OF c1(2)] by (blast elim: chunk_safeE)
  with c1 show "\<exists>c'. enc c = (GOOD, c') \<and> writes N (2 * length (b1 @ b2)) c (b1 @ b2) c'"
    by (auto simp: enc intro!: writes_trans [OF c1(2)])
qed

lemma ExpandedNodeId_retry:
  assumes ok: "expandednodeid_ok x" and N: "19 \<le> N"
  shows "chunk_retry N (ExpandedNodeId_encodeBinary x) (expandednodeid_bin x)"
proof -
  let ?uri = "\<lambda>c. if allocated (namespaceUri x) then String_encodeBinary (namespaceUri x) c else (GOOD, c)"
    and ?srv = "\<lambda>c. if serverIndex x > 0 then encodeWithExchangeBuffer (UInt32_encodeBinary (serverIndex x)) c
                    else (GOOD, c)"
  have "chunk_safe N ?uri (if allocated (namespaceUri x) then string_bin (namespaceUri x) else [])"
    using ok N by (intro chunk_safe_if String_safe) (simp_all add: expandednodeid_ok_def)
  moreover have "chunk_safe N ?srv (if serverIndex x > 0 then UA_encode32 (serverIndex x) else [])"
    using N unfolding UInt32_encodeBinary_def by (intro chunk_safe_if exchange_safe) simp_all
  ultimately have t: "chunk_safe N (\<lambda>c. let (r, c1) = ?uri c in if r \<noteq> GOOD then (r, c1) else ?srv c1)
      ((if allocated (namespaceUri x) then string_bin (namespaceUri x) else [])
        @ (if serverIndex x > 0 then UA_encode32 (serverIndex x) else []))"
    by (rule chunk_safe_then) simp
  have h: "chunk_retry N (NodeId_encodeBinaryWithEncodingMask (nodeId x) (expanded_mask x))
      (nodeid_mask_bin (nodeId x) (expanded_mask x))"
    using ok N by (intro NodeId_mask_retry) (simp_all add: expandednodeid_ok_def)
  show ?thesis
    unfolding expandednodeid_bin_def
    by (rule chunk_retry_then [OF h t])
       (auto simp: ExpandedNodeId_encodeBinary_def expanded_mask_def split_def Let_def)
qed

lemma LocalizedText_retry:
  assumes ok: "localizedtext_ok x" and N: "4 \<le> N"
  shows "chunk_retry N (LocalizedText_encodeBinary x) (localizedtext_bin x)"
proof -
  let ?e = "\<lambda>s c. if s \<noteq> None then String_encodeBinary s c else (GOOD, c)"
  have "chunk_safe N (?e s) (if s \<noteq> None then string_bin s else [])" if "string_ok s" for s
    using N that by (intro chunk_safe_if String_safe)
  then have t: "chunk_safe N (\<lambda>c. let (r1, c1) = ?e (locale_ltext x) c; (r2, c2) = ?e (ltext x) c1 in (r1 OR r2, c2))
     ((if locale_ltext x \<noteq> None then string_bin (locale_ltext x) else [])
       @ (if ltext x \<noteq> None then string_bin (ltext x) else []))"
    using ok by (intro chunk_safe_OR) (simp_all add: localizedtext_ok_def)
  have h: "chunk_retry N (Byte_encodeBinary (lt_mask x)) [lt_mask x]"
    using N by (intro direct_chunk_retry direct_ints) simp_all
  have "chunk_retry N (LocalizedText_encodeBinary x) ([lt_mask x] @
     (if locale_ltext x \<noteq> None then string_bin (locale_ltext x) else [])
       @ (if ltext x \<noteq> None then string_bin (ltext x) else []))"
    by (rule chunk_retry_then [OF h t])
       (auto simp: LocalizedText_encodeBinary_def lt_mask_def split_def Let_def)
  then show ?thesis
    by (simp add: localizedtext_bin_def)
qed

subsection \<open>Properties\<close>

text \<open>A string is sent correctly however the buffers end: with a callback that keeps handing
  out buffers of at least four bytes, encoding succeeds and the concatenation of all sent buffers and
  the current one is what was there before followed by the reference encoding of the string.\<close>

theorem String_chunked:
  assumes "string_ok s" and "4 \<le> N" and "good_script N c" and "2 * length (string_bin s) \<le> script_len c"
  shows "\<exists>c'. String_encodeBinary s c = (GOOD, c') \<and> stream c' = stream c @ string_bin s"
  using String_safe [OF assms(1,2)] assms(3,4) by (auto simp: writes_def extends_def elim!: chunk_safeE)

theorem String_chunked_witness:
  "\<exists>c'. String_encodeBinary (Some [1, 2, 3, 4, 5, 6])
      \<lparr>eout = [9], eroom = 2, edepth = 0, esent = [], escript = Some (replicate 20 (GOOD, 4))\<rparr> = (GOOD, c')
    \<and> stream c' = 9 # string_bin (Some [1, 2, 3, 4, 5, 6])"
  using String_chunked [of "Some [1, 2, 3, 4, 5, 6]" 4
      "\<lparr>eout = [9], eroom = 2, edepth = 0, esent = [], escript = Some (replicate 20 (GOOD, 4))\<rparr>"]
  by (simp add: string_ok_def UA_INT32_MAX_def good_script_def script_len_def list_all_iff length_string_bin
      stream_def)

text \<open>An ExpandedNodeId keeps the chunking discipline of the source: either it is encoded
  correctly over as many buffers as needed, or it asks for a retry with
  \<open>BADENCODINGLIMITSEXCEEDED\<close> and then no buffer has been exchanged yet. On a buffer of at least
  19 bytes it never asks for a retry.\<close>

theorem ExpandedNodeId_chunked:
  assumes "expandednodeid_ok x" and "19 \<le> N" and "good_script N c"
    and "2 * length (expandednodeid_bin x) \<le> script_len c + 1"
  shows "(\<exists>c'. ExpandedNodeId_encodeBinary x c = (GOOD, c') \<and> stream c' = stream c @ expandednodeid_bin x)
    \<or> (\<exists>c'. eroom c < N \<and> ExpandedNodeId_encodeBinary x c = (BADENCODINGLIMITSEXCEEDED, c')
          \<and> esent c' = esent c \<and> escript c' = escript c)"
proof -
  from ExpandedNodeId_retry [OF assms(1,2)] assms(3,4)
  have "(\<exists>c'. ExpandedNodeId_encodeBinary x c = (GOOD, c') \<and> writes N (2 * length (expandednodeid_bin x) - 1) c (expandednodeid_bin x) c')
      \<or> (eroom c < N \<and> (\<exists>c'. ExpandedNodeId_encodeBinary x c = (BADENCODINGLIMITSEXCEEDED, c') \<and> unsent c c'))"
    unfolding chunk_retry_def by blast
  then show ?thesis
    by (auto simp: unsent_def dest: writes_stream)
qed

theorem ExpandedNodeId_chunked_witness:
  "let x = \<lparr>nodeId = \<lparr>namespaceIndex = 0, nident = Numeric 7\<rparr>, namespaceUri = Some [1, 2, 3], serverIndex = 5\<rparr>;
       c = \<lparr>eout = [], eroom = 3, edepth = 0, esent = [], escript = Some (replicate 30 (GOOD, 20))\<rparr>
   in (\<exists>c'. ExpandedNodeId_encodeBinary x c = (GOOD, c') \<and> stream c' = stream c @ expandednodeid_bin x)
    \<or> (\<exists>c'. eroom c < 20 \<and> ExpandedNodeId_encodeBinary x c = (BADENCODINGLIMITSEXCEEDED, c')
          \<and> esent c' = esent c \<and> escript c' = escript c)"
  unfolding Let_def
  by (rule ExpandedNodeId_chunked)
     (simp_all add: expandednodeid_ok_def nodeid_ok_def string_ok_def UA_INT32_MAX_def good_script_def list_all_iff
        script_len_def expandednodeid_bin_def nodeid_mask_bin_def length_string_bin allocated_def)


end
