(* ===== verification/Binary_Generic_Correct.thy ===== *)
theory Binary_Generic_Correct
  imports Binary_Generic
begin

text \<open>
  Round trip of the generic codec of \<open>Binary_Generic\<close>: encoding a value into a buffer of the computed
  size fills it, and decoding the bytes gives the value back. The relation \<open>codes T k r v v'\<close> describes the
  values \<open>v\<close> of the type \<open>r\<close> that can be encoded within \<open>k\<close> levels of nesting, and the value \<open>v'\<close> that is
  decoded: it differs from \<open>v\<close> where the wire format cannot tell them apart (a structure in a scalar
  Variant comes back unwrapped, the structures in an array come back as ExtensionObjects, and picoseconds are
  limited). \<open>types_ok\<close> is what the generator of the type tables provides.
\<close>

subsection \<open>Writing and reading within a limit of the depth\<close>

definition fits :: "nat \<Rightarrow> (ectx \<Rightarrow> status \<times> ectx) \<Rightarrow> u8 list \<Rightarrow> bool" where
  "fits k e bs \<longleftrightarrow>
     (\<forall>c. edepth c + k \<le> Suc UA_ENCODING_MAX_RECURSION \<longrightarrow> length bs \<le> eroom c \<longrightarrow> e c = (GOOD, emit bs c))"

definition reads :: "nat \<Rightarrow> 'a decoder \<Rightarrow> u8 list \<Rightarrow> 'a \<Rightarrow> bool" where
  "reads k d bs x \<longleftrightarrow>
     (\<forall>c. ddepth c + k \<le> Suc UA_ENCODING_MAX_RECURSION \<longrightarrow> at c bs \<longrightarrow> d c = (GOOD, x, skip (length bs) c))"

lemma fitsD: "fits k e bs \<Longrightarrow> edepth c + k \<le> Suc UA_ENCODING_MAX_RECURSION \<Longrightarrow> length bs \<le> eroom c \<Longrightarrow>
    e c = (GOOD, emit bs c)"
  by (simp add: fits_def)

lemma readsD: "reads k d bs x \<Longrightarrow> ddepth c + k \<le> Suc UA_ENCODING_MAX_RECURSION \<Longrightarrow> at c bs \<Longrightarrow>
    d c = (GOOD, x, skip (length bs) c)"
  by (simp add: reads_def)

lemma fits_mono: "fits k e bs \<Longrightarrow> k \<le> l \<Longrightarrow> fits l e bs"
  by (simp add: fits_def)

lemma reads_mono: "reads k d bs x \<Longrightarrow> k \<le> l \<Longrightarrow> reads l d bs x"
  by (simp add: reads_def)

lemma reads_dmap: "reads k d bs x \<Longrightarrow> reads k (dmap f d) bs (f x)"
  by (simp add: reads_def dmap_def)

lemma reads_dmapD:
  assumes "reads k (dmap f d) bs (f x)" "inj f"
  shows "reads k d bs x"
  unfolding reads_def
proof (intro allI impI)
  fix c :: dctx
  assume "ddepth c + k \<le> Suc UA_ENCODING_MAX_RECURSION" "at c bs"
  then have "dmap f d c = (GOOD, f x, skip (length bs) c)"
    using assms(1) by (simp add: reads_def)
  then show "d c = (GOOD, x, skip (length bs) c)"
    using assms(2) by (cases "d c") (auto simp: dmap_def inj_eq)
qed

context binary_codec
begin

lemma fits_basic: "ok x \<Longrightarrow> fits k (enc x) (bin x)"
  by (simp add: fits_def enc_fits)

lemma reads_basic: "ok x \<Longrightarrow> reads k dec (bin x) x"
  by (simp add: reads_def dec_at)

end

lemma elements_fits:
  "list_all2 (\<lambda>v bs. fits k (e v) bs) vs bss \<Longrightarrow> fits k (Array_encodeBinaryComplex e vs) (concat bss)"
proof (induction vs bss rule: list_all2_induct)
  case Nil
  then show ?case by (simp add: fits_def)
next
  case (Cons v vs bs bss)
  then show ?case by (simp add: fits_def)
qed

lemma elements_reads:
  "list_all2 (\<lambda>bs x. reads k d bs x) bss xs \<Longrightarrow> reads k (decode_elements d (length xs)) (concat bss) xs"
proof (induction bss xs rule: list_all2_induct)
  case Nil
  then show ?case by (simp add: reads_def)
next
  case (Cons bs bss x xs)
  then show ?case by (simp add: reads_def at_append)
qed

definition array_code :: "'a list option \<Rightarrow> u8 list list \<Rightarrow> u8 list" where
  "array_code a bss = UA_encode32 (signed_length a) @ concat bss"

lemma array_code_fits:
  assumes "list_all2 (\<lambda>v bs. fits k (e v) bs) (arr_list a) bss" and "arr_length a \<le> UA_INT32_MAX"
    and "ov \<Longrightarrow> bss = map mem (arr_list a)"
  shows "fits k (Array_encodeBinary ov m mem e a) (array_code a bss)"
  unfolding fits_def
proof (intro allI impI)
  fix c :: ectx
  assume c: "edepth c + k \<le> Suc UA_ENCODING_MAX_RECURSION" "length (array_code a bss) \<le> eroom c"
  let ?l = "UA_encode32 (signed_length a)"
  have hd: "encodeWithExchangeBuffer (UInt32_encodeBinary (signed_length a)) c = (GOOD, emit ?l c)"
    using c by (intro encodeWithExchangeBuffer_fits UInt32_codec.enc_fits) (simp_all add: array_code_def)
  have els: "Array_encodeBinaryComplex e (arr_list a) (emit ?l c) = (GOOD, emit (concat bss) (emit ?l c))"
    using c by (intro fitsD [OF elements_fits [OF assms(1)]]) (simp_all add: array_code_def)
  have ovl: "ov \<Longrightarrow> Array_encodeBinaryOverlayable (concat (map mem (arr_list a))) m (emit ?l c)
      = (GOOD, emit (concat bss) (emit ?l c))"
    using c assms(3) by (simp add: Overlayable_fits array_code_def)
  have "arr_length a = 0 \<Longrightarrow> bss = []"
    using assms(1) by (cases a) (auto simp: arr_length_def)
  with hd els ovl assms(2) show "Array_encodeBinary ov m mem e a c = (GOOD, emit (array_code a bss) c)"
    by (auto simp: Array_encodeBinary_def array_code_def)
qed

lemma array_code_reads:
  assumes "list_all2 (\<lambda>bs x. reads k d bs x) bss (arr_list a')" and "arr_length a' \<le> UA_INT32_MAX"
    and len: "signed_length a = signed_length a'"
    and ov: "ov \<Longrightarrow> list_all2 (\<lambda>bs x. length bs = m \<and> rd bs = x) bss (arr_list a')"
    and chk: "m * arr_length a' \<le> 32 * length (concat bss)"
  shows "reads k (Array_decodeBinary ov m rd d) (array_code a bss) a'"
  unfolding reads_def
proof (intro allI impI)
  fix c :: dctx
  assume c: "ddepth c + k \<le> Suc UA_ENCODING_MAX_RECURSION" "at c (array_code a bss)"
  then have l: "UInt32_decodeBinary c = (GOOD, signed_length a', skip 4 c)" and b: "at (skip 4 c) (concat bss)"
    using UInt32_at [of c "signed_length a'"] len by (auto simp: array_code_def at_append)
  have l4: "dpos c + 4 \<le> length (dbuf c)"
    using c(2) at_bound [of c "UA_encode32 (signed_length a)"] by (auto simp: array_code_def at_append)
  show "Array_decodeBinary ov m rd d c = (GOOD, a', skip (length (array_code a bss)) c)"
  proof (cases a')
    case None
    then show ?thesis
      using l assms(1) by (simp add: Array_decodeBinary_def array_code_def signed_length_None)
  next
    case (Some xs)
    let ?b = "concat bss"
    show ?thesis
    proof (cases "xs = []")
      case True
      then show ?thesis
        using Some l assms(1,2) by (simp add: Array_decodeBinary_def array_code_def signed_length_sint)
    next
      case False
      have bd: "dpos c + 4 + length ?b \<le> length (dbuf c)"
        using at_bound [OF b] l4 by (cases "?b = []") (auto simp del: concat_eq_Nil_conv)
      then have "dpos c + 4 + m * length xs div 32 \<le> length (dbuf c)"
        using chk Some by (simp add: arr_length_def)
      moreover have "decode_elements d (length xs) (skip 4 c) = (GOOD, xs, skip (length ?b) (skip 4 c))"
        using readsD [OF elements_reads [OF assms(1)] _ b] c(1) Some by simp
      moreover have "length ?b = m * length xs \<and>
          read_elements m rd (length xs) (drop (dpos c + 4) (dbuf c)) = xs" if ov
      proof -
        obtain rest where r: "drop (dpos c + 4) (dbuf c) = ?b @ rest"
          using b by (auto simp: at_def)
        have "list_all2 (\<lambda>bs x. length bs = m \<and> rd bs = x) bss xs"
          using ov [OF that] Some by simp
        then have "length ?b = m * length xs \<and> read_elements m rd (length xs) (?b @ rest) = xs"
          by (induction bss xs rule: list_all2_induct) auto
        then show ?thesis using r by simp
      qed
      ultimately show ?thesis
        using Some l assms(2) False bd
        by (cases ov)
           (simp_all add: Array_decodeBinary_def array_code_def signed_length_sint signed_length_unat
              Let_def skip_def add.assoc)
    qed
  qed
qed

subsection \<open>Encodable values\<close>

definition fixed_size :: "nat \<Rightarrow> nat option" where
  "fixed_size i =
     (if i \<in> {0, 1, 2} then Some 1 else if i \<in> {3, 4} then Some 2
      else if i \<in> {5, 6, 9, 18} then Some 4 else if i \<in> {7, 8, 10, 12} then Some 8
      else if i = 13 then Some 16 else None)"

text \<open>
  The type tables: the first 25 types are the builtin types in the order of the jump tables, whose
  single member is the type itself, and no other type is builtin. Only types of fixed size are
  overlayable: a builtin type with the size of its encoding and a structure without padding.
\<close>

definition builtin_ok :: "nat \<Rightarrow> dtype \<Rightarrow> bool" where
  "builtin_ok i t \<longleftrightarrow> builtin t \<and> typeIndex t = i
     \<and> members t = [\<lparr>memberTypeIndex = i, mpadding = 0, namespaceZero = True, misArray = False\<rparr>]
     \<and> (case fixed_size i of Some n \<Rightarrow> memSize t = n | None \<Rightarrow> \<not> overlayable t)"

definition struct_ok :: "types \<Rightarrow> typeref \<Rightarrow> bool" where
  "struct_ok T r \<longleftrightarrow> \<not> builtin (dtype_of T r) \<and>
     (overlayable (dtype_of T r) \<longrightarrow>
        (\<forall>m \<in> set (members (dtype_of T r)). \<not> misArray m \<and> overlayable (dtype_of T (membertype r m)))
        \<and> memSize (dtype_of T r) = (\<Sum>m \<leftarrow> members (dtype_of T r). memSize (dtype_of T (membertype r m))))"

definition types_ok :: "types \<Rightarrow> bool" where
  "types_ok T \<longleftrightarrow> UA_BUILTIN_TYPES_COUNT \<le> length (ns0types T)
     \<and> (\<forall>i < length (ns0types T). if i < UA_BUILTIN_TYPES_COUNT then builtin_ok i (ns0types T ! i) else struct_ok T (Ns0 i))
     \<and> (\<forall>i < length (customtypes T). struct_ok T (Custom i))"

fun basic_ok :: "nat \<Rightarrow> uaval \<Rightarrow> bool" where
  "basic_ok i (VBoolean b) \<longleftrightarrow> i = 0"
| "basic_ok i (VByte b) \<longleftrightarrow> i \<in> {1, 2}"
| "basic_ok i (VUInt16 b) \<longleftrightarrow> i \<in> {3, 4}"
| "basic_ok i (VUInt32 b) \<longleftrightarrow> i \<in> {5, 6, 9, 18}"
| "basic_ok i (VUInt64 b) \<longleftrightarrow> i \<in> {7, 8, 10, 12}"
| "basic_ok i (VString s) \<longleftrightarrow> i \<in> {11, 14, 15} \<and> string_ok s"
| "basic_ok i (VGuid g) \<longleftrightarrow> i = 13 \<and> guid_ok g"
| "basic_ok i (VNodeId n) \<longleftrightarrow> i = 16 \<and> nodeid_ok n"
| "basic_ok i (VExpandedNodeId n) \<longleftrightarrow> i = 17 \<and> expandednodeid_ok n"
| "basic_ok i (VQualifiedName q) \<longleftrightarrow> i = 19 \<and> qualifiedname_ok q"
| "basic_ok i (VLocalizedText l) \<longleftrightarrow> i = 20 \<and> localizedtext_ok l"
| "basic_ok i _ \<longleftrightarrow> False"

definition encoding_id :: "dtype \<Rightarrow> nodeid" where
  "encoding_id t = (dtypeId t)\<lparr>nident := Numeric (ucast (binaryEncodingId t))\<rparr>"

text \<open>
  A structure that can be put into an ExtensionObject: the decoder finds its type by the identifier of
  the binary encoding, and this identifier is as long as that of the type, which the size is computed from.
\<close>

definition wrappable :: "types \<Rightarrow> typeref \<Rightarrow> uaval \<Rightarrow> bool" where
  "wrappable T r v \<longleftrightarrow> \<not> builtin (dtype_of T r) \<and> numeric_typeid (dtype_of T r)
     \<and> UA_findDataTypeByBinaryInternal T (encoding_id (dtype_of T r)) = Some r
     \<and> NodeId_calcSizeBinary (dtypeId (dtype_of T r)) = NodeId_calcSizeBinary (encoding_id (dtype_of T r))
     \<and> size_jump T r v \<le> UA_INT32_MAX"

definition dims_ok :: "u32 list option \<Rightarrow> bool" where
  "dims_ok dims \<longleftrightarrow> dims \<noteq> Some [] \<and> arr_length dims \<le> UA_INT32_MAX"

text \<open>The plausibility check of the array decoder: memory of the elements against the bytes on the wire.\<close>

definition array_plausible :: "types \<Rightarrow> typeref \<Rightarrow> uaval list \<Rightarrow> bool" where
  "array_plausible T r vs \<longleftrightarrow> length vs \<le> UA_INT32_MAX
     \<and> memSize (dtype_of T r) * length vs \<le> 32 * sum_list (map (size_jump T r) vs)"

definition wrap :: "typeref \<Rightarrow> uaval \<Rightarrow> uaval" where
  "wrap r v = VExtensionObject (EoDecoded (Some r) (Some v))"

inductive codes :: "types \<Rightarrow> nat \<Rightarrow> typeref \<Rightarrow> uaval \<Rightarrow> uaval \<Rightarrow> bool"
  and lcodes :: "types \<Rightarrow> nat \<Rightarrow> typeref \<Rightarrow> uaval list \<Rightarrow> uaval list \<Rightarrow> bool"
  and mcodes :: "types \<Rightarrow> nat \<Rightarrow> typeref \<Rightarrow> dtmember list \<Rightarrow> field list \<Rightarrow> field list \<Rightarrow> bool" for T
where
  basic: "basic_ok i v \<Longrightarrow> codes T k (Ns0 i) v v"
| struct: "\<not> builtin (dtype_of T r) \<Longrightarrow> mcodes T k r (members (dtype_of T r)) fs fs' \<Longrightarrow>
    codes T (Suc k) r (VStruct fs) (VStruct fs')"
| eo_nobody: "nodeid_ok n \<Longrightarrow> codes T k (Ns0 21) (VExtensionObject (EoNoBody n)) (VExtensionObject (EoNoBody n))"
| eo_bytes: "nodeid_ok n \<Longrightarrow> string_ok b \<Longrightarrow> UA_findDataTypeByBinaryInternal T n = None \<Longrightarrow>
    codes T k (Ns0 21) (VExtensionObject (EoByteString n b)) (VExtensionObject (EoByteString n b))"
| eo_xml: "nodeid_ok n \<Longrightarrow> string_ok b \<Longrightarrow>
    codes T k (Ns0 21) (VExtensionObject (EoXml n b)) (VExtensionObject (EoXml n b))"
| eo_decoded: "codes T k r v v' \<Longrightarrow> wrappable T r v \<Longrightarrow> codes T (Suc k) (Ns0 21) (wrap r v) (wrap r v')"
| var_empty: "codes T k (Ns0 23) (VVariant VarEmpty) (VVariant VarEmpty)"
| var_scalar: "codes T k (Ns0 i) v v' \<Longrightarrow> i \<notin> {21, 23} \<Longrightarrow> i < UA_BUILTIN_TYPES_COUNT \<Longrightarrow>
    codes T (Suc k) (Ns0 23) (VVariant (VarScalar (Ns0 i) v)) (VVariant (VarScalar (Ns0 i) v'))"
| var_struct: "codes T k r v v' \<Longrightarrow> wrappable T r v \<Longrightarrow> \<not> is_alias T (dtype_of T r) \<Longrightarrow>
    codes T (Suc (Suc k)) (Ns0 23) (VVariant (VarScalar r v)) (VVariant (VarScalar r v'))"
| var_null: "i < UA_BUILTIN_TYPES_COUNT \<Longrightarrow> dims_ok dims \<Longrightarrow>
    codes T (Suc k) (Ns0 23) (VVariant (VarArray (Ns0 i) None dims)) (VVariant (VarArray (Ns0 i) None dims))"
| var_array: "lcodes T k (Ns0 i) vs vs' \<Longrightarrow> array_plausible T (Ns0 i) vs \<Longrightarrow> i < UA_BUILTIN_TYPES_COUNT \<Longrightarrow>
    dims_ok dims \<Longrightarrow>
    codes T (Suc k) (Ns0 23) (VVariant (VarArray (Ns0 i) (Some vs) dims)) (VVariant (VarArray (Ns0 i) (Some vs') dims))"
| var_structs: "lcodes T k r vs vs' \<Longrightarrow> array_plausible T (Ns0 21) (map (wrap r) vs) \<Longrightarrow>
    list_all (wrappable T r) vs \<Longrightarrow> \<not> builtin (dtype_of T r) \<Longrightarrow> \<not> is_alias T (dtype_of T r) \<Longrightarrow>
    numeric_typeid (dtype_of T r) \<Longrightarrow> dims_ok dims \<Longrightarrow>
    codes T (Suc (Suc k)) (Ns0 23) (VVariant (VarArray r (Some vs) dims))
      (VVariant (VarArray (Ns0 21) (Some (map (wrap r) vs')) dims))"
| dv_none: "codes T (Suc k) (Ns0 22) (VDataValue (DataValue None st sts sp vts vp))
    (VDataValue (DataValue None st sts (map_option clamp_pico sp) vts (map_option clamp_pico vp)))"
| dv_some: "codes T k (Ns0 23) (VVariant x) (VVariant x') \<Longrightarrow>
    codes T (Suc k) (Ns0 22) (VDataValue (DataValue (Some x) st sts sp vts vp))
      (VDataValue (DataValue (Some x') st sts (map_option clamp_pico sp) vts (map_option clamp_pico vp)))"
| diag: "pred_option string_ok add \<Longrightarrow>
    codes T k (Ns0 24) (VDiagnosticInfo (DiagnosticInfo sid uri txt loc add None None))
      (VDiagnosticInfo (DiagnosticInfo sid uri txt loc add None None))"
| lnil: "lcodes T k r [] []"
| lcons: "codes T k r v v' \<Longrightarrow> lcodes T k r vs vs' \<Longrightarrow> lcodes T k r (v # vs) (v' # vs')"
| mnil: "mcodes T k r [] [] []"
| mscalar: "\<not> misArray m \<Longrightarrow> codes T k (membertype r m) v v' \<Longrightarrow> mcodes T k r ms fs fs' \<Longrightarrow>
    mcodes T k r (m # ms) (FScalar v # fs) (FScalar v' # fs')"
| mnull: "misArray m \<Longrightarrow> mcodes T k r ms fs fs' \<Longrightarrow>
    mcodes T k r (m # ms) (FArray None # fs) (FArray None # fs')"
| marray: "misArray m \<Longrightarrow> lcodes T k (membertype r m) vs vs' \<Longrightarrow> array_plausible T (membertype r m) vs \<Longrightarrow>
    mcodes T k r ms fs fs' \<Longrightarrow> mcodes T k r (m # ms) (FArray (Some vs) # fs) (FArray (Some vs') # fs')"

subsection \<open>Correctness of the encoding of a value\<close>

definition ecode :: "types \<Rightarrow> nat \<Rightarrow> typeref \<Rightarrow> uaval \<Rightarrow> u8 list \<Rightarrow> bool" where
  "ecode T k r v bs \<longleftrightarrow> length bs = size_jump T r v \<and> fits k (encode_jump T r v) bs
     \<and> (overlayable (dtype_of T r) \<longrightarrow> mem_val v = bs \<and> length bs = memSize (dtype_of T r))"

definition dcode :: "types \<Rightarrow> nat \<Rightarrow> typeref \<Rightarrow> u8 list \<Rightarrow> uaval \<Rightarrow> bool" where
  "dcode T k r bs v \<longleftrightarrow> (\<forall>n. k < n \<longrightarrow> reads k (decode_jump n T r) bs v)
     \<and> (overlayable (dtype_of T r) \<longrightarrow> (\<forall>n. k < n \<longrightarrow> overlay_read n T r bs = v))"

lemma builtin_entry:
  assumes "types_ok T" "i < UA_BUILTIN_TYPES_COUNT"
  shows "builtin_ok i (dtype_of T (Ns0 i))" "decode_index (dtype_of T (Ns0 i)) = i"
proof -
  have "i < length (ns0types T)" "builtin_ok i (ns0types T ! i)"
    using assms by (auto simp: types_ok_def)
  then show "builtin_ok i (dtype_of T (Ns0 i))" "decode_index (dtype_of T (Ns0 i)) = i"
    using assms(2) by (simp_all add: dtype_of_def builtin_ok_def decode_index_def)
qed

lemma dcode_jump:
  assumes "\<And>n. k \<le> n \<Longrightarrow> reads k (decodeBinaryJumpTable (decode_jump n T) T r ! decode_index (dtype_of T r)) bs v"
    and "overlayable (dtype_of T r) \<Longrightarrow> \<forall>n. k < n \<longrightarrow> overlay_read n T r bs = v"
  shows "dcode T k r bs v"
  unfolding dcode_def
proof (intro conjI assms(2) impI allI)
  fix n assume "k < n"
  then obtain m where "n = Suc m" "k \<le> m"
    by (cases n) auto
  then show "reads k (decode_jump n T r) bs v"
    using assms(1) [of m] by (simp add: reads_def)
qed (use assms(2) in blast)

lemma dcode_builtin:
  assumes "types_ok T" "i < UA_BUILTIN_TYPES_COUNT"
    and "\<And>n. k \<le> n \<Longrightarrow> reads k (decodeBinaryJumpTable (decode_jump n T) T (Ns0 i) ! i) bs v"
    and "fixed_size i \<noteq> None \<Longrightarrow> overlay_builtin i bs = v"
  shows "dcode T k (Ns0 i) bs v"
proof (rule dcode_jump)
  note e = builtin_entry [OF assms(1,2)]
  show "reads k (decodeBinaryJumpTable (decode_jump n T) T (Ns0 i) ! decode_index (dtype_of T (Ns0 i))) bs v"
    if "k \<le> n" for n
    using assms(3) [OF that] e(2) by simp
  show "\<forall>n. k < n \<longrightarrow> overlay_read n T (Ns0 i) bs = v" if ov: "overlayable (dtype_of T (Ns0 i))"
  proof (intro allI impI)
    fix n assume "k < n"
    then show "overlay_read n T (Ns0 i) bs = v"
      using e(1) ov assms(4) by (cases n) (auto simp: builtin_ok_def split: option.splits)
  qed
qed

lemma ecode_varsize:
  assumes "types_ok T" "i < UA_BUILTIN_TYPES_COUNT" "fixed_size i = None"
    and "length bs = size_jump T (Ns0 i) v" "fits k (encode_jump T (Ns0 i) v) bs"
  shows "ecode T k (Ns0 i) v bs"
  using assms builtin_entry(1) [OF assms(1,2)] by (simp add: ecode_def builtin_ok_def)

lemma ecode_fixed:
  assumes "types_ok T" "i < UA_BUILTIN_TYPES_COUNT" "fixed_size i = Some (length bs)"
    and "size_jump T (Ns0 i) v = memSize (dtype_of T (Ns0 i)) \<or> size_jump T (Ns0 i) v = length bs"
    and "fits k (encode_jump T (Ns0 i) v) bs" "mem_val v = bs"
  shows "ecode T k (Ns0 i) v bs"
  using assms builtin_entry(1) [OF assms(1,2)] by (auto simp: ecode_def builtin_ok_def)

lemmas jump_simps = decodeBinaryJumpTable_def UA_BUILTIN_TYPES_COUNT_def fixed_size_def

definition basic_bin :: "uaval \<Rightarrow> u8 list" where
  "basic_bin v = (case v of
       VBoolean b \<Rightarrow> bool_bin b | VByte b \<Rightarrow> byte_bin b | VUInt16 x \<Rightarrow> UA_encode16 x
     | VUInt32 x \<Rightarrow> UA_encode32 x | VUInt64 x \<Rightarrow> UA_encode64 x | VString s \<Rightarrow> string_bin s
     | VGuid g \<Rightarrow> guid_bin g | VNodeId n \<Rightarrow> nodeid_bin n | VExpandedNodeId n \<Rightarrow> expandednodeid_bin n
     | VQualifiedName q \<Rightarrow> qualifiedname_bin q | VLocalizedText l \<Rightarrow> localizedtext_bin l | _ \<Rightarrow> [])"

lemma encode_jump_eta [simp]:
  "encode_jump T r (VBoolean b) = Boolean_encodeBinary b"
  "encode_jump T r (VByte y) = Byte_encodeBinary y"
  "encode_jump T r (VUInt16 x16) = UInt16_encodeBinary x16"
  "encode_jump T r (VUInt32 x32) = UInt32_encodeBinary x32"
  "encode_jump T r (VUInt64 x64) = UInt64_encodeBinary x64"
  "encode_jump T r (VString s) = String_encodeBinary s"
  "encode_jump T r (VGuid g) = Guid_encodeBinary g"
  "encode_jump T r (VNodeId n) = NodeId_encodeBinary n"
  "encode_jump T r (VExpandedNodeId e) = ExpandedNodeId_encodeBinary e"
  "encode_jump T r (VQualifiedName q) = QualifiedName_encodeBinary q"
  "encode_jump T r (VLocalizedText l) = LocalizedText_encodeBinary l"
  by (rule ext, simp)+

lemma basic_fits: "basic_ok i v \<Longrightarrow> fits k (encode_jump T r v) (basic_bin v)"
  by (cases v)
     (auto simp: basic_bin_def intro: Boolean_codec.fits_basic Byte_codec.fits_basic UInt16_codec.fits_basic
       UInt32_codec.fits_basic UInt64_codec.fits_basic String_codec.fits_basic Guid_codec.fits_basic
       NodeId_codec.fits_basic ExpandedNodeId_codec.fits_basic QualifiedName_codec.fits_basic
       LocalizedText_codec.fits_basic)

lemmas basic_reads = Boolean_codec.reads_basic Byte_codec.reads_basic UInt16_codec.reads_basic
  UInt32_codec.reads_basic UInt64_codec.reads_basic String_codec.reads_basic Guid_codec.reads_basic
  NodeId_codec.reads_basic ExpandedNodeId_codec.reads_basic QualifiedName_codec.reads_basic
  LocalizedText_codec.reads_basic

lemma guid_memory_bin: "guid_memory g = guid_bin g"
  by (simp add: guid_memory_def guid_bin_def)

lemma basic_index: "basic_ok i v \<Longrightarrow> i < UA_BUILTIN_TYPES_COUNT"
  by (cases v) (auto simp: UA_BUILTIN_TYPES_COUNT_def)

lemma fixed_size_None [simp]:
  "fixed_size 11 = None" "fixed_size 14 = None" "fixed_size 15 = None" "fixed_size 16 = None"
  "fixed_size 17 = None" "fixed_size 19 = None" "fixed_size 20 = None"
  by (simp_all add: fixed_size_def)

lemma basic_dcode:
  assumes "types_ok T" "basic_ok i v"
  shows "dcode T k (Ns0 i) (basic_bin v) v"
proof (intro dcode_builtin [OF assms(1)] basic_index [OF assms(2)])
  fix n
  show "reads k (decodeBinaryJumpTable (decode_jump n T) T (Ns0 i) ! i) (basic_bin v) v"
    using assms(2)
    by (cases v) (auto simp: jump_simps basic_bin_def simp del: decode_jump.simps intro!: reads_dmap basic_reads)
next
  show "overlay_builtin i (basic_bin v) = v" if "fixed_size i \<noteq> None"
    using assms(2) that
    by (cases v) (auto simp: basic_bin_def overlay_builtin_def bool_bin_def byte_bin_def guid_bin_def guid_ok_def)
qed

lemma basic_ecode:
  assumes "types_ok T" "basic_ok i v"
  shows "ecode T k (Ns0 i) v (basic_bin v)"
proof (cases "fixed_size i")
  case None
  then have "length (basic_bin v) = size_jump T (Ns0 i) v"
    using assms(2)
    by (cases v) (auto simp: basic_bin_def fixed_size_def String_codec.size_bin NodeId_codec.size_bin
        ExpandedNodeId_codec.size_bin QualifiedName_codec.size_bin LocalizedText_codec.size_bin)
  then show ?thesis
    using assms None basic_index basic_fits by (blast intro: ecode_varsize)
next
  case (Some n)
  have "fixed_size i = Some (length (basic_bin v))" "mem_val v = basic_bin v"
    "size_jump T (Ns0 i) v = memSize (dtype_of T (Ns0 i)) \<or> size_jump T (Ns0 i) v = length (basic_bin v)"
    using Some assms(2)
    by (cases v; auto simp: basic_bin_def fixed_size_def bool_bin_def byte_bin_def length_guid_bin
         guid_memory_bin split: if_splits)+
  then show ?thesis
    using assms basic_index basic_fits by (blast intro: ecode_fixed)
qed

subsection \<open>Arrays and members\<close>

declare decode_jump.simps [simp del] overlay_read.simps [simp del]

definition lcode :: "types \<Rightarrow> nat \<Rightarrow> typeref \<Rightarrow> uaval list \<Rightarrow> u8 list list \<Rightarrow> uaval list \<Rightarrow> bool" where
  "lcode T k r vs bss vs' \<longleftrightarrow> list_all2 (ecode T k r) vs bss \<and> list_all2 (dcode T k r) bss vs'"

definition acode :: "types \<Rightarrow> nat \<Rightarrow> typeref \<Rightarrow> uaval list option \<Rightarrow> u8 list \<Rightarrow> uaval list option \<Rightarrow> bool" where
  "acode T k r a bs a' \<longleftrightarrow> fits k (encode_array (encode_jump T) T r a) bs
     \<and> length bs = Array_size T (size_jump T) r a
     \<and> (\<forall>n. k < n \<longrightarrow> reads k (decode_array (decode_jump n T) T r) bs a')"

lemma acode_null: "acode T k r None (array_code (None :: uaval list option) []) None"
  unfolding acode_def encode_array_def decode_array_def
  by (intro conjI allI impI array_code_fits array_code_reads)
     (simp_all add: array_code_def Array_size_def Array_calcSizeBinary_def arr_length_def)

lemma lcode_sizes: "list_all2 (ecode T k r) vs bss \<Longrightarrow>
    sum_list (map (size_jump T r) vs) = length (concat bss)
    \<and> (overlayable (dtype_of T r) \<longrightarrow> bss = map mem_val vs \<and> length (concat bss) = memSize (dtype_of T r) * length vs)"
  by (induction vs bss rule: list_all2_induct) (auto simp: ecode_def)

lemma acode_list:
  assumes "lcode T k r vs bss vs'" and "array_plausible T r vs"
  shows "acode T k r (Some vs) (array_code (Some vs) bss) (Some vs')"
proof -
  let ?t = "dtype_of T r"
  have e: "list_all2 (ecode T k r) vs bss" and d: "list_all2 (dcode T k r) bss vs'"
    using assms(1) by (simp_all add: lcode_def)
  have len: "length vs' = length vs"
    using e d by (simp add: list_all2_lengthD)
  note sz = lcode_sizes [OF e]
  have "fits k (encode_array (encode_jump T) T r (Some vs)) (array_code (Some vs) bss)"
    unfolding encode_array_def using assms(2) sz e
    by (intro array_code_fits) (auto simp: array_plausible_def arr_length_def ecode_def elim: list_all2_mono)
  moreover have "length (array_code (Some vs) bss) = Array_size T (size_jump T) r (Some vs)"
    using sz by (auto simp: array_code_def Array_size_def Array_calcSizeBinary_def arr_length_def)
  moreover have "reads k (decode_array (decode_jump n T) T r) (array_code (Some vs) bss) (Some vs')" if "k < n" for n
  proof (cases "k \<le> Suc UA_ENCODING_MAX_RECURSION")
    case True
    have "list_all2 (\<lambda>bs x. length bs = memSize ?t \<and> overlay_read (UA_ENCODING_MAX_RECURSION + 2) T r bs = x) bss vs'"
      if "overlayable ?t"
      using e d that True by (auto simp: list_all2_conv_all_nth ecode_def dcode_def)
    moreover have "list_all2 (\<lambda>bs. reads k (decode_jump n T r) bs) bss vs'"
      using d that by (auto simp: dcode_def elim: list_all2_mono)
    ultimately show ?thesis
      unfolding decode_array_def using assms(2) len sz
      by (intro array_code_reads) (auto simp: array_plausible_def arr_length_def signed_length_def)
  next
    case False
    then show ?thesis by (simp add: reads_def)
  qed
  ultimately show ?thesis by (simp add: acode_def)
qed

definition mcode :: "types \<Rightarrow> nat \<Rightarrow> typeref \<Rightarrow> dtmember list \<Rightarrow> field list \<Rightarrow> u8 list \<Rightarrow> field list \<Rightarrow> bool" where
  "mcode T k r ms fs bs fs' \<longleftrightarrow> fits k (encode_members (encode_jump T) T r ms fs) bs
     \<and> length bs = members_size T (size_jump T) r ms fs
     \<and> (\<forall>n. k < n \<longrightarrow> reads k (decode_members (decode_jump n T) T r ms) bs fs')
     \<and> ((\<forall>m \<in> set ms. \<not> misArray m \<and> overlayable (dtype_of T (membertype r m))) \<longrightarrow>
          concat (map mem_field fs) = bs \<and> length bs = (\<Sum>m \<leftarrow> ms. memSize (dtype_of T (membertype r m)))
          \<and> (\<forall>n. k < n \<longrightarrow> overlay_members (overlay_read n T) T r ms bs = fs'))"

lemma mcode_Nil: "mcode T k r [] [] [] []"
  by (simp add: mcode_def fits_def reads_def)

lemma mcode_scalar:
  assumes "\<not> misArray m" "ecode T k (membertype r m) v b1" "dcode T k (membertype r m) b1 v'"
    and "mcode T k r ms fs b2 fs'"
  shows "mcode T k r (m # ms) (FScalar v # fs) (b1 @ b2) (FScalar v' # fs')"
proof -
  have "fits k (encode_members (encode_jump T) T r (m # ms) (FScalar v # fs)) (b1 @ b2)"
    using assms(2,4) by (simp add: fits_def ecode_def mcode_def)
  moreover have "reads k (decode_members (decode_jump n T) T r (m # ms)) (b1 @ b2) (FScalar v' # fs')"
    if "k < n" for n
    using assms(1,3,4) that by (simp add: reads_def dcode_def mcode_def dmap_def at_append)
  ultimately show ?thesis
    using assms(2,3,4) by (auto simp: mcode_def ecode_def dcode_def)
qed

lemma mcode_array:
  assumes "misArray m" "acode T k (membertype r m) a b1 a'" and "mcode T k r ms fs b2 fs'"
  shows "mcode T k r (m # ms) (FArray a # fs) (b1 @ b2) (FArray a' # fs')"
proof -
  have "fits k (encode_members (encode_jump T) T r (m # ms) (FArray a # fs)) (b1 @ b2)"
    using assms(2,3) by (simp add: fits_def acode_def mcode_def)
  moreover have "reads k (decode_members (decode_jump n T) T r (m # ms)) (b1 @ b2) (FArray a' # fs')"
    if "k < n" for n
    using assms that by (simp add: reads_def acode_def mcode_def dmap_def at_append)
  ultimately show ?thesis
    using assms by (auto simp: mcode_def acode_def)
qed

text \<open>The frame of \<open>encodeBinaryInternal\<close> and \<open>decodeBinaryInternal\<close>: one level of depth.\<close>

lemma fits_internal:
  assumes "fits k (encode_members enc T r (members (dtype_of T r)) (fields_of v)) bs"
  shows "fits (Suc k) (encodeBinaryInternal enc T r v) bs"
  unfolding fits_def
proof (intro allI impI)
  fix c :: ectx
  assume "edepth c + Suc k \<le> Suc UA_ENCODING_MAX_RECURSION" "length bs \<le> eroom c"
  then show "encodeBinaryInternal enc T r v c = (GOOD, emit bs c)"
    using fitsD [OF assms, of "c\<lparr>edepth := Suc (edepth c)\<rparr>"]
    by (simp add: encodeBinaryInternal_def emit_def)
qed

lemma reads_internal:
  assumes "reads k (decode_members dec T r (members (dtype_of T r))) bs fs"
  shows "reads (Suc k) (decodeBinaryInternal dec T r) bs (value_of (dtype_of T r) fs)"
  unfolding reads_def
proof (intro allI impI)
  fix c :: dctx
  assume "ddepth c + Suc k \<le> Suc UA_ENCODING_MAX_RECURSION" "at c bs"
  then show "decodeBinaryInternal dec T r c = (GOOD, value_of (dtype_of T r) fs, skip (length bs) c)"
    using readsD [OF assms, of "c\<lparr>ddepth := Suc (ddepth c)\<rparr>"]
    by (simp add: decodeBinaryInternal_def skip_def at_def)
qed

subsection \<open>Structures and ExtensionObjects\<close>

text \<open>\<open>vcode\<close> is what the induction shows of every encodable value.\<close>

definition vcode :: "types \<Rightarrow> nat \<Rightarrow> typeref \<Rightarrow> uaval \<Rightarrow> u8 list \<Rightarrow> uaval \<Rightarrow> bool" where
  "vcode T k r v bs v' \<longleftrightarrow> ecode T k r v bs \<and> dcode T k r bs v'"

lemma vcodeD:
  assumes "vcode T k r v bs v'"
  shows "length bs = size_jump T r v" "fits k (encode_jump T r v) bs"
    "k < n \<Longrightarrow> reads k (decode_jump n T r) bs v'"
  using assms by (simp_all add: vcode_def ecode_def dcode_def)

lemma vcode_varsize:
  assumes "types_ok T" "i < UA_BUILTIN_TYPES_COUNT" "fixed_size i = None"
    and "length bs = size_jump T (Ns0 i) v" "fits k (encode_jump T (Ns0 i) v) bs"
    and "\<And>n. k \<le> n \<Longrightarrow> reads k (decodeBinaryJumpTable (decode_jump n T) T (Ns0 i) ! i) bs v'"
  shows "vcode T k (Ns0 i) v bs v'"
  unfolding vcode_def using assms by (intro conjI ecode_varsize dcode_builtin) simp_all

lemma struct_entry:
  assumes "types_ok T" "\<not> builtin (dtype_of T r)"
  shows "struct_ok T r"
proof (cases r)
  case (Ns0 i)
  show ?thesis
  proof (cases "i < length (ns0types T)")
    case True
    then have "if i < UA_BUILTIN_TYPES_COUNT then builtin_ok i (ns0types T ! i) else struct_ok T (Ns0 i)"
      using assms(1) by (auto simp: types_ok_def)
    then show ?thesis
      using True assms(2) Ns0 by (auto simp: dtype_of_def builtin_ok_def split: if_splits)
  next
    case False
    then show ?thesis by (simp add: struct_ok_def dtype_of_def null_dtype_def Ns0)
  qed
next
  case (Custom i)
  then show ?thesis
    using assms by (cases "i < length (customtypes T)")
      (auto simp: types_ok_def struct_ok_def dtype_of_def null_dtype_def)
qed

lemma vcode_struct:
  assumes "types_ok T" "\<not> builtin (dtype_of T r)" "mcode T k r (members (dtype_of T r)) fs bs fs'"
  shows "vcode T (Suc k) r (VStruct fs) bs (VStruct fs')"
proof -
  have f: "fits k (encode_members (encode_jump T) T r (members (dtype_of T r)) (fields_of (VStruct fs))) bs"
    and l: "length bs = members_size T (size_jump T) r (members (dtype_of T r)) fs"
    and rd: "\<And>n. k < n \<Longrightarrow> reads k (decode_members (decode_jump n T) T r (members (dtype_of T r))) bs fs'"
    using assms(3) by (simp_all add: mcode_def fields_of_def)
  have "fits (Suc k) (encode_jump T r (VStruct fs)) bs"
    using fits_internal [OF f] by (simp add: fits_def)
  moreover have "overlayable (dtype_of T r) \<longrightarrow> mem_val (VStruct fs) = bs \<and> length bs = memSize (dtype_of T r)"
    using struct_entry [OF assms(1,2)] assms(3) by (auto simp: struct_ok_def mcode_def)
  ultimately have "ecode T (Suc k) r (VStruct fs) bs"
    using l by (simp add: ecode_def UA_calcSizeBinary_def fields_of_def)
  moreover have "dcode T (Suc k) r bs (VStruct fs')"
  proof (rule dcode_jump)
    fix n assume "Suc k \<le> n"
    then have "reads k (decode_members (decode_jump n T) T r (members (dtype_of T r))) bs fs'"
      by (intro rd) simp
    then show "reads (Suc k) (decodeBinaryJumpTable (decode_jump n T) T r ! decode_index (dtype_of T r)) bs (VStruct fs')"
      using reads_internal [of k "decode_jump n T" T r bs fs'] assms(2)
      by (simp add: decode_index_def jump_simps value_of_def)
  next
    show "\<forall>n. Suc k < n \<longrightarrow> overlay_read n T r bs = VStruct fs'" if "overlayable (dtype_of T r)"
    proof (intro allI impI)
      fix n assume "Suc k < n"
      then show "overlay_read n T r bs = VStruct fs'"
        using struct_entry [OF assms(1,2)] assms(2,3) that by (cases n) (auto simp: struct_ok_def mcode_def overlay_read.simps)
    qed
  qed
  ultimately show ?thesis by (simp add: vcode_def)
qed

lemma codec_fits: "nodeid_ok n \<Longrightarrow> length (nodeid_bin n) \<le> eroom c \<Longrightarrow> NodeId_encodeBinary n c = (GOOD, emit (nodeid_bin n) c)"
  "1 \<le> eroom c \<Longrightarrow> Byte_encodeBinary b c = (GOOD, emit [b] c)"
  "4 \<le> eroom c \<Longrightarrow> UInt32_encodeBinary x c = (GOOD, emit (UA_encode32 x) c)"
  "string_ok s \<Longrightarrow> length (string_bin s) \<le> eroom c \<Longrightarrow> String_encodeBinary s c = (GOOD, emit (string_bin s) c)"
  using NodeId_codec.enc_fits Byte_codec.enc_fits [of b c] UInt32_codec.enc_fits [of x c] String_codec.enc_fits
  by (simp_all add: byte_bin_def)

lemma codec_at: "at d (nodeid_bin n) \<Longrightarrow> nodeid_ok n \<Longrightarrow> NodeId_decodeBinary d = (GOOD, n, skip (length (nodeid_bin n)) d)"
  "at d (string_bin s) \<Longrightarrow> string_ok s \<Longrightarrow> String_decodeBinary d = (GOOD, s, skip (length (string_bin s)) d)"
  using NodeId_codec.dec_at String_codec.dec_at by simp_all

lemma eo_index: "21 < UA_BUILTIN_TYPES_COUNT" "fixed_size 21 = None"
  by (simp_all add: UA_BUILTIN_TYPES_COUNT_def fixed_size_def)

lemma vcode_eo_nobody:
  assumes "types_ok T" "nodeid_ok n"
  shows "vcode T k (Ns0 21) (VExtensionObject (EoNoBody n)) (nodeid_bin n @ [0]) (VExtensionObject (EoNoBody n))"
  by (rule vcode_varsize [OF assms(1) eo_index])
     (auto simp: fits_def reads_def jump_simps dmap_def ExtensionObject_encodeBinary_def ExtensionObject_decodeBinary_def
       ExtensionObject_calcSizeBinary_def NodeId_codec.size_bin assms(2) codec_fits codec_at at_append Byte_at
       encodeWithExchangeBuffer_fits Let_def)

lemma vcode_eo_bytes:
  assumes "types_ok T" "nodeid_ok n" "string_ok b" "UA_findDataTypeByBinaryInternal T n = None"
  shows "vcode T k (Ns0 21) (VExtensionObject (EoByteString n b)) (nodeid_bin n @ [1] @ string_bin b)
    (VExtensionObject (EoByteString n b))"
  by (rule vcode_varsize [OF assms(1) eo_index])
     (auto simp: fits_def reads_def jump_simps dmap_def ExtensionObject_encodeBinary_def ExtensionObject_decodeBinary_def
       ExtensionObject_decodeBinaryContent_def ExtensionObject_calcSizeBinary_def NodeId_codec.size_bin
       String_codec.size_bin assms(2-) codec_fits codec_at at_append at_Cons Byte_at encodeWithExchangeBuffer_fits Let_def)

lemma vcode_eo_xml:
  assumes "types_ok T" "nodeid_ok n" "string_ok b"
  shows "vcode T k (Ns0 21) (VExtensionObject (EoXml n b)) (nodeid_bin n @ [2] @ string_bin b)
    (VExtensionObject (EoXml n b))"
  by (rule vcode_varsize [OF assms(1) eo_index])
     (auto simp: fits_def reads_def jump_simps dmap_def ExtensionObject_encodeBinary_def ExtensionObject_decodeBinary_def
       ExtensionObject_calcSizeBinary_def NodeId_codec.size_bin String_codec.size_bin assms(2-) codec_fits codec_at
       at_append at_Cons Byte_at encodeWithExchangeBuffer_fits Let_def)

text \<open>A structure in an ExtensionObject: identifier, encoding byte, length and content.\<close>

definition wrap_code :: "types \<Rightarrow> typeref \<Rightarrow> u8 list \<Rightarrow> u8 list" where
  "wrap_code T r bs = nodeid_bin (encoding_id (dtype_of T r)) @ [1] @ UA_encode32 (of_nat (length bs)) @ bs"

lemma encoding_id_ok [simp]: "nodeid_ok (encoding_id t)"
  by (simp add: nodeid_ok_def encoding_id_def)

lemma size_struct: "UA_calcSizeBinary T (size_jump T) r (VStruct fs) = size_jump T r (VStruct fs)"
  by simp

lemma wrap_fits:
  assumes "vcode T k r (VStruct fs) bs v'" "wrappable T r (VStruct fs)"
  shows "fits k (encode_jump T q (wrap r (VStruct fs))) (wrap_code T r bs)"
  unfolding fits_def
proof (intro allI impI)
  fix c :: ectx
  let ?id = "nodeid_bin (encoding_id (dtype_of T r))"
  let ?c = "emit (?id @ [1] @ UA_encode32 (of_nat (length bs))) c"
  assume c: "edepth c + k \<le> Suc UA_ENCODING_MAX_RECURSION" "length (wrap_code T r bs) \<le> eroom c"
  have "encode_jump T r (VStruct fs) ?c = (GOOD, emit bs ?c)"
    using c by (intro fitsD [OF vcodeD(2) [OF assms(1)]]) (simp_all add: wrap_code_def)
  moreover have "length bs = size_jump T r (VStruct fs)"
    using vcodeD(1) [OF assms(1)] .
  ultimately show "encode_jump T q (wrap r (VStruct fs)) c = (GOOD, emit (wrap_code T r bs) c)"
    using c assms(2)
    by (simp add: wrap_def wrap_code_def ExtensionObject_encodeBinary_def wrappable_def codec_fits Let_def
        encoding_id_def [symmetric] del: size_jump.simps encode_jump.simps(16) add: size_struct encode_jump.simps(16) [symmetric])
qed

lemma wrap_head:
  assumes "at c (wrap_code T r bs)"
  shows "NodeId_decodeBinary c = (GOOD, encoding_id (dtype_of T r), skip (length (nodeid_bin (encoding_id (dtype_of T r)))) c)"
    "Byte_decodeBinary (skip (length (nodeid_bin (encoding_id (dtype_of T r)))) c)
       = (GOOD, 1, skip (length (nodeid_bin (encoding_id (dtype_of T r))) + 1) c)"
    "at (skip (length (nodeid_bin (encoding_id (dtype_of T r))) + 5) c) bs"
  using assms by (auto simp: wrap_code_def at_append at_Cons codec_at Byte_at add.commute)

lemma wrap_reads:
  assumes "reads k (dec r) bs v'" "wrappable T r v"
  shows "reads k (dmap VExtensionObject (ExtensionObject_decodeBinary dec T)) (wrap_code T r bs) (wrap r v')"
  unfolding reads_def
proof (intro allI impI)
  fix c :: dctx
  let ?n = "length (nodeid_bin (encoding_id (dtype_of T r)))"
  assume c: "ddepth c + k \<le> Suc UA_ENCODING_MAX_RECURSION" "at c (wrap_code T r bs)"
  then have "dec r (skip (?n + 5) c) = (GOOD, v', skip (length bs) (skip (?n + 5) c))"
    by (intro readsD [OF assms(1)] wrap_head(3)) simp_all
  then have "dec r ((skip (Suc ?n) c)\<lparr>dpos := 5 + (dpos c + ?n)\<rparr>) = (GOOD, v', skip (?n + (5 + length bs)) c)"
    by (simp add: skip_def ac_simps)
  then show "dmap VExtensionObject (ExtensionObject_decodeBinary dec T) c
      = (GOOD, wrap r v', skip (length (wrap_code T r bs)) c)"
    using wrap_head [OF c(2)] assms(2)
    by (simp add: dmap_def ExtensionObject_decodeBinary_def ExtensionObject_decodeBinaryContent_def
        wrappable_def wrap_def wrap_code_def)
qed

lemma wrap_size:
  assumes "vcode T k r (VStruct fs) bs v'" "wrappable T r (VStruct fs)"
  shows "length (wrap_code T r bs) = size_jump T q (wrap r (VStruct fs))"
  using assms(2) vcodeD(1) [OF assms(1)]
  by (simp add: wrap_code_def wrap_def ExtensionObject_calcSizeBinary_def wrappable_def NodeId_codec.size_bin)

lemma vcode_wrap:
  assumes "types_ok T" "vcode T k r (VStruct fs) bs v'" "wrappable T r (VStruct fs)"
  shows "vcode T (Suc k) (Ns0 21) (wrap r (VStruct fs)) (wrap_code T r bs) (wrap r v')"
proof (rule vcode_varsize [OF assms(1) eo_index])
  show "length (wrap_code T r bs) = size_jump T (Ns0 21) (wrap r (VStruct fs))"
    using assms(2,3) by (rule wrap_size)
  show "fits (Suc k) (encode_jump T (Ns0 21) (wrap r (VStruct fs))) (wrap_code T r bs)"
    using wrap_fits [OF assms(2,3)] by (rule fits_mono) simp
  show "reads (Suc k) (decodeBinaryJumpTable (decode_jump n T) T (Ns0 21) ! 21) (wrap_code T r bs) (wrap r v')"
    if "Suc k \<le> n" for n
  proof -
    have "reads k (decode_jump n T r) bs v'"
      using vcodeD(3) [OF assms(2)] that by simp
    from reads_mono [OF wrap_reads [where dec = "decode_jump n T" and r = r, OF this assms(3)], of "Suc k"] show ?thesis
      by (simp add: jump_simps)
  qed
qed

subsection \<open>Variants\<close>

text \<open>A builtin type as a structure with itself as the only member.\<close>

lemma fits_builtin_internal:
  assumes "types_ok T" "i < UA_BUILTIN_TYPES_COUNT" "fields_of v = [FScalar v]"
    and "fits k (encode_jump T (Ns0 i) v) bs"
  shows "fits (Suc k) (encodeBinaryInternal (encode_jump T) T (Ns0 i) v) bs"
proof (rule fits_internal)
  show "fits k (encode_members (encode_jump T) T (Ns0 i) (members (dtype_of T (Ns0 i))) (fields_of v)) bs"
    using builtin_entry(1) [OF assms(1,2)] assms(3,4)
    by (simp add: builtin_ok_def fits_def membertype_def)
qed

lemma less_25: "i < UA_BUILTIN_TYPES_COUNT \<Longrightarrow> i \<in> {0, 1, 2, 3, 4, 5, 6, 7, 8, 9, 10, 11, 12, 13, 14, 15, 16, 17,
    18, 19, 20, 21, 22, 23, 24}"
  by (simp add: UA_BUILTIN_TYPES_COUNT_def) presburger

definition typebits :: "nat \<Rightarrow> u8" where
  "typebits i = 0x3F AND of_nat (i + 1)"

lemma typebits_scalar:
  assumes "i < UA_BUILTIN_TYPES_COUNT"
  shows "typebits i \<noteq> 0 \<and> typebits i AND 0x80 = 0 \<and> unat (typebits i AND 0x3F) = Suc i"
  using less_25 [OF assms] by (elim insertE) (simp_all add: typebits_def)

lemma typebits_array:
  assumes "i < UA_BUILTIN_TYPES_COUNT" "d \<in> {0, 0x40}"
  shows "typebits i OR 0x80 OR d \<noteq> 0 \<and> (typebits i OR 0x80 OR d) AND 0x80 \<noteq> 0
    \<and> unat ((typebits i OR 0x80 OR d) AND 0x3F) = Suc i
    \<and> ((typebits i OR 0x80 OR d) AND 0x40 = 0 \<longleftrightarrow> d = 0)"
  using less_25 [OF assms(1)] assms(2) by (elim insertE) (simp_all add: typebits_def)

lemma variant_typebits_builtin:
  assumes "types_ok T" "i < UA_BUILTIN_TYPES_COUNT"
  shows "variant_typebits T (dtype_of T (Ns0 i)) = typebits i" "builtin (dtype_of T (Ns0 i))"
  using builtin_entry(1) [OF assms] by (simp_all add: variant_typebits_def builtin_ok_def typebits_def)

lemma var_index: "23 < UA_BUILTIN_TYPES_COUNT" "fixed_size 23 = None"
  by (simp_all add: UA_BUILTIN_TYPES_COUNT_def fixed_size_def)

lemma vcode_var_empty:
  assumes "types_ok T"
  shows "vcode T k (Ns0 23) (VVariant VarEmpty) [0] (VVariant VarEmpty)"
  by (rule vcode_varsize [OF assms var_index])
     (auto simp: fits_def reads_def jump_simps dmap_def Variant_encodeBinary_def Variant_decodeBinary_def
       Variant_calcSizeBinary_def codec_fits Byte_at)

lemma vcode_var_scalar:
  assumes T: "types_ok T" and i: "i < UA_BUILTIN_TYPES_COUNT" "i \<notin> {21, 23}" and f: "fields_of v = [FScalar v]"
    and v: "vcode T k (Ns0 i) v bs v'"
  shows "vcode T (Suc k) (Ns0 23) (VVariant (VarScalar (Ns0 i) v)) (typebits i # bs) (VVariant (VarScalar (Ns0 i) v'))"
proof (rule vcode_varsize [OF T var_index])
  show "length (typebits i # bs) = size_jump T (Ns0 23) (VVariant (VarScalar (Ns0 i) v))"
    using variant_typebits_builtin [OF T i(1)] vcodeD(1) [OF v] by (simp add: Variant_calcSizeBinary_def)
  show "fits (Suc k) (encode_jump T (Ns0 23) (VVariant (VarScalar (Ns0 i) v))) (typebits i # bs)"
    using fits_builtin_internal [OF T i(1) f vcodeD(2) [OF v]] variant_typebits_builtin [OF T i(1)]
    by (auto simp: fits_def Variant_encodeBinary_def codec_fits)
  show "reads (Suc k) (decodeBinaryJumpTable (decode_jump n T) T (Ns0 23) ! 23) (typebits i # bs)
      (VVariant (VarScalar (Ns0 i) v'))" if "Suc k \<le> n" for n
    unfolding reads_def
  proof (intro allI impI)
    fix c :: dctx
    let ?c = "(skip 1 c)\<lparr>ddepth := Suc (ddepth c)\<rparr>"
    assume c: "ddepth c + Suc k \<le> Suc UA_ENCODING_MAX_RECURSION" "at c (typebits i # bs)"
    then have a: "at c [typebits i]" "at ?c bs"
      using at_append [of c "[typebits i]" bs] by (auto simp: at_def)
    have "decode_jump n T (Ns0 i) ?c = (GOOD, v', skip (length bs) ?c)"
      using c that a(2) by (intro readsD [OF vcodeD(3) [OF v]]) auto
    then show "(decodeBinaryJumpTable (decode_jump n T) T (Ns0 23) ! 23) c
        = (GOOD, VVariant (VarScalar (Ns0 i) v'), skip (length (typebits i # bs)) c)"
      using c(1) a(1) typebits_scalar [OF i(1)] i
      by (auto simp: jump_simps dmap_def Variant_decodeBinary_def Byte_at Let_def skip_def
          UA_TYPES_DIAGNOSTICINFO_def UA_TYPES_VARIANT_def UA_TYPES_EXTENSIONOBJECT_def)
  qed
qed

text \<open>The content of a Variant is decoded one level deeper.\<close>

lemma variant_content:
  assumes "at c (b # bs)" "ddepth c + Suc k \<le> Suc UA_ENCODING_MAX_RECURSION"
  shows "Byte_decodeBinary c = (GOOD, b, skip 1 c)" "at ((skip 1 c)\<lparr>ddepth := Suc (ddepth c)\<rparr>) bs"
    "ddepth ((skip 1 c)\<lparr>ddepth := Suc (ddepth c)\<rparr>) + k \<le> Suc UA_ENCODING_MAX_RECURSION"
  using assms at_append [of c "[b]" bs] Byte_at [of c b] by (auto simp: at_def)

lemma typebits_eo: "i = 21 \<Longrightarrow> typebits i = 22"
  by (simp add: typebits_def)

lemma variant_typebits_struct:
  "\<not> builtin t \<Longrightarrow> \<not> is_alias T t \<Longrightarrow> variant_typebits T t = typebits 21"
  by (simp add: variant_typebits_def typebits_def UA_TYPES_EXTENSIONOBJECT_def)

lemma unwrap_reads:
  assumes "reads k (dec r) bs v'" "wrappable T r v"
  shows "reads k (Variant_decodeBinaryUnwrapExtensionObject dec T) (wrap_code T r bs) (VarScalar r v')"
  unfolding reads_def
proof (intro allI impI)
  fix c :: dctx
  let ?n = "length (nodeid_bin (encoding_id (dtype_of T r)))"
  assume c: "ddepth c + k \<le> Suc UA_ENCODING_MAX_RECURSION" "at c (wrap_code T r bs)"
  then have "dec r (skip (?n + 5) c) = (GOOD, v', skip (length bs) (skip (?n + 5) c))"
    by (intro readsD [OF assms(1)] wrap_head(3)) simp_all
  then have "dec r ((skip (Suc ?n) c)\<lparr>dpos := 5 + (dpos c + ?n)\<rparr>) = (GOOD, v', skip (?n + (5 + length bs)) c)"
    by (simp add: skip_def ac_simps)
  then show "Variant_decodeBinaryUnwrapExtensionObject dec T c
      = (GOOD, VarScalar r v', skip (length (wrap_code T r bs)) c)"
    using wrap_head [OF c(2)] assms(2)
    by (simp add: dmap_def Variant_decodeBinaryUnwrapExtensionObject_def wrappable_def wrap_code_def)
qed

lemma vcode_var_struct:
  assumes T: "types_ok T" and w: "wrappable T r (VStruct fs)" "\<not> is_alias T (dtype_of T r)"
    and v: "vcode T k r (VStruct fs) bs v'"
  shows "vcode T (Suc (Suc k)) (Ns0 23) (VVariant (VarScalar r (VStruct fs))) (typebits 21 # wrap_code T r bs)
    (VVariant (VarScalar r v'))"
proof (rule vcode_varsize [OF T var_index])
  have nb: "\<not> builtin (dtype_of T r)"
    using w(1) by (simp add: wrappable_def)
  show "length (typebits 21 # wrap_code T r bs) = size_jump T (Ns0 23) (VVariant (VarScalar r (VStruct fs)))"
    using w(1) vcodeD(1) [OF v]
    by (simp add: Variant_calcSizeBinary_def wrap_code_def wrappable_def NodeId_codec.size_bin)
  have "fits (Suc k) (encodeBinaryInternal (encode_jump T) T (Ns0 21) (wrap r (VStruct fs))) (wrap_code T r bs)"
    using wrap_fits [OF v w(1)]
    by (intro fits_builtin_internal [OF T eo_index(1)]) (simp_all add: wrap_def fields_of_def)
  then show "fits (Suc (Suc k)) (encode_jump T (Ns0 23) (VVariant (VarScalar r (VStruct fs)))) (typebits 21 # wrap_code T r bs)"
    using variant_typebits_struct [OF nb w(2)] nb w(2)
    by (simp add: fits_def Variant_encodeBinary_def Variant_encodeBinaryWrapExtensionObject_def codec_fits
        wrap_def UA_TYPES_EXTENSIONOBJECT_def)
  show "reads (Suc (Suc k)) (decodeBinaryJumpTable (decode_jump n T) T (Ns0 23) ! 23) (typebits 21 # wrap_code T r bs)
      (VVariant (VarScalar r v'))" if "Suc (Suc k) \<le> n" for n
    unfolding reads_def
  proof (intro allI impI)
    fix c :: dctx
    let ?c = "(skip 1 c)\<lparr>ddepth := Suc (ddepth c)\<rparr>"
    assume c: "ddepth c + Suc (Suc k) \<le> Suc UA_ENCODING_MAX_RECURSION" "at c (typebits 21 # wrap_code T r bs)"
    note vc = variant_content [OF c(2,1)]
    have "reads k (decode_jump n T r) bs v'"
      using vcodeD(3) [OF v] that by simp
    note rd = reads_mono [OF unwrap_reads [where dec = "decode_jump n T" and r = r, OF this w(1)], of "Suc k"]
    have "Variant_decodeBinaryUnwrapExtensionObject (decode_jump n T) T ?c
        = (GOOD, VarScalar r v', skip (length (wrap_code T r bs)) ?c)"
      using vc by (intro readsD [OF rd]) simp_all
    then show "(decodeBinaryJumpTable (decode_jump n T) T (Ns0 23) ! 23) c
        = (GOOD, VVariant (VarScalar r v'), skip (length (typebits 21 # wrap_code T r bs)) c)"
      using c(1) vc(1) typebits_scalar [OF eo_index(1)]
      by (auto simp: jump_simps dmap_def Variant_decodeBinary_def Let_def skip_def
          UA_TYPES_DIAGNOSTICINFO_def UA_TYPES_VARIANT_def UA_TYPES_EXTENSIONOBJECT_def)
  qed
qed

subsection \<open>Arrays in Variants\<close>

definition dims_code :: "u32 list option \<Rightarrow> u8 list" where
  "dims_code dims = (if arr_length dims > 0 then array_code dims (map UA_encode32 (arr_list dims)) else [])"

lemma int32_entry: "types_ok T \<Longrightarrow> memSize (dtype_of T (Ns0 UA_TYPES_INT32)) = 4"
  using builtin_entry(1) [of T 5] by (simp add: builtin_ok_def fixed_size_def UA_TYPES_INT32_def UA_BUILTIN_TYPES_COUNT_def)

lemma length_ints: "length (concat (map UA_encode32 ds)) = 4 * length ds"
  by (induction ds) auto

lemma dims_fits:
  assumes "types_ok T" "arr_length dims \<le> UA_INT32_MAX"
  shows "fits k (Array_encodeBinary (overlayable (dtype_of T (Ns0 UA_TYPES_INT32)))
    (memSize (dtype_of T (Ns0 UA_TYPES_INT32))) UA_encode32 UInt32_encodeBinary dims)
    (array_code dims (map UA_encode32 (arr_list dims)))"
  using assms(2) UInt32_codec.fits_basic
  by (intro array_code_fits) (simp_all add: list_all2_map2 list_all2_same)

lemma dims_reads:
  assumes "types_ok T" "arr_length dims \<le> UA_INT32_MAX"
  shows "reads k (Int32_decode_array T) (array_code dims (map UA_encode32 (arr_list dims))) dims"
  unfolding Int32_decode_array_def
  using assms UInt32_codec.reads_basic
  by (intro array_code_reads)
     (simp_all add: list_all2_map1 list_all2_same int32_entry length_ints arr_length_def)

definition array_bits :: "nat \<Rightarrow> u32 list option \<Rightarrow> u8" where
  "array_bits i dims = typebits i OR 0x80 OR (if arr_length dims > 0 then 0x40 else 0)"

lemma array_bits_fields:
  assumes "i < UA_BUILTIN_TYPES_COUNT"
  shows "array_bits i dims \<noteq> 0 \<and> array_bits i dims AND 0x80 \<noteq> 0 \<and> unat (array_bits i dims AND 0x3F) = Suc i
    \<and> (array_bits i dims AND 0x40 = 0 \<longleftrightarrow> arr_length dims = 0)"
  using typebits_array [OF assms, of "if arr_length dims > 0 then 0x40 else 0"]
  by (auto simp: array_bits_def split: if_splits)

lemma variant_array_fits:
  assumes "types_ok T" "dims_ok dims" "variant_typebits T (dtype_of T r) = typebits i"
    and "fits k (if \<not> builtin (dtype_of T r) \<and> \<not> is_alias T (dtype_of T r)
                 then Variant_encodeBinaryWrapExtensionObject enc T r True a else encode_array enc T r a) bs"
  shows "fits k (Variant_encodeBinary enc T (VarArray r a dims)) (array_bits i dims # bs @ dims_code dims)"
  unfolding fits_def
proof (intro allI impI)
  fix c :: ectx
  let ?t = "dtype_of T r" and ?b = "array_bits i dims"
  assume c: "edepth c + k \<le> Suc UA_ENCODING_MAX_RECURSION" "length (?b # bs @ dims_code dims) \<le> eroom c"
  have b: "Byte_encodeBinary ?b c = (GOOD, emit [?b] c)"
    using c(2) by (intro codec_fits(2)) simp
  have ct: "(if \<not> builtin ?t \<and> \<not> is_alias T ?t then Variant_encodeBinaryWrapExtensionObject enc T r True a
      else encode_array enc T r a) (emit [?b] c) = (GOOD, emit (?b # bs) c)"
    using fitsD [OF assms(4), of "emit [?b] c"] c by simp
  have d: "arr_length dims > 0 \<Longrightarrow> Array_encodeBinary (overlayable (dtype_of T (Ns0 UA_TYPES_INT32)))
      (memSize (dtype_of T (Ns0 UA_TYPES_INT32))) UA_encode32 UInt32_encodeBinary dims (emit (?b # bs) c)
      = (GOOD, emit (?b # bs @ dims_code dims) c)"
    using fitsD [OF dims_fits [OF assms(1)], of dims "emit (?b # bs) c" k] c assms(2)
    by (simp add: dims_ok_def dims_code_def)
  show "Variant_encodeBinary enc T (VarArray r a dims) c = (GOOD, emit (?b # bs @ dims_code dims) c)"
    using b ct d unfolding Variant_encodeBinary_def
    by (auto simp: Let_def assms(3) array_bits_def [symmetric] dims_code_def split: if_splits)
qed

lemma variant_array_reads:
  assumes "types_ok T" "dims_ok dims" "i < UA_BUILTIN_TYPES_COUNT" "reads k (decode_array dec T (Ns0 i)) bs a"
  shows "reads (Suc k) (Variant_decodeBinary dec T) (array_bits i dims # bs @ dims_code dims) (VarArray (Ns0 i) a dims)"
  unfolding reads_def
proof (intro allI impI)
  fix c :: dctx
  let ?c = "(skip 1 c)\<lparr>ddepth := Suc (ddepth c)\<rparr>" and ?b = "array_bits i dims"
  assume c: "ddepth c + Suc k \<le> Suc UA_ENCODING_MAX_RECURSION" "at c (?b # bs @ dims_code dims)"
  note vc = variant_content [OF c(2,1)]
  have ct: "decode_array dec T (Ns0 i) ?c = (GOOD, a, skip (length bs) ?c)" and dm: "at (skip (length bs) ?c) (dims_code dims)"
    using vc by (auto simp: at_append intro!: readsD [OF assms(4)])
  have d: "arr_length dims > 0 \<Longrightarrow> Int32_decode_array T (skip (length bs) ?c)
      = (GOOD, dims, skip (length (dims_code dims)) (skip (length bs) ?c))"
    using readsD [OF dims_reads [OF assms(1)], of dims _ k] dm vc(3) assms(2) by (simp add: dims_ok_def dims_code_def)
  have nodim: "arr_length dims = 0 \<Longrightarrow> dims = None"
    using assms(2) by (cases dims) (auto simp: dims_ok_def arr_length_def)
  show "Variant_decodeBinary dec T c = (GOOD, VarArray (Ns0 i) a dims, skip (length (?b # bs @ dims_code dims)) c)"
  proof (cases "arr_length dims = 0")
    case True
    then show ?thesis
      using c(1) vc(1) ct nodim array_bits_fields [OF assms(3), of dims] assms(3)
      by (simp add: Variant_decodeBinary_def Let_def skip_def UA_TYPES_DIAGNOSTICINFO_def UA_TYPES_VARIANT_def
          UA_BUILTIN_TYPES_COUNT_def dims_code_def)
  next
    case False
    then show ?thesis
      using c(1) vc(1) ct d array_bits_fields [OF assms(3), of dims] assms(3)
      by (simp add: Variant_decodeBinary_def Let_def skip_def UA_TYPES_DIAGNOSTICINFO_def UA_TYPES_VARIANT_def
          UA_BUILTIN_TYPES_COUNT_def)
  qed
qed

lemma length_dims_code: "length (dims_code dims) = dims_size dims"
  by (simp add: dims_code_def dims_size_def array_code_def length_ints arr_length_def)

lemma vcode_var_array:
  assumes T: "types_ok T" and i: "i < UA_BUILTIN_TYPES_COUNT" and d: "dims_ok dims" and a: "acode T k (Ns0 i) a bs a'"
  shows "vcode T (Suc k) (Ns0 23) (VVariant (VarArray (Ns0 i) a dims)) (array_bits i dims # bs @ dims_code dims)
    (VVariant (VarArray (Ns0 i) a' dims))"
proof (rule vcode_varsize [OF T var_index])
  note tb = variant_typebits_builtin [OF T i]
  show "length (array_bits i dims # bs @ dims_code dims) = size_jump T (Ns0 23) (VVariant (VarArray (Ns0 i) a dims))"
    using a tb(2) by (simp add: acode_def Variant_calcSizeBinary_def length_dims_code)
  have "fits k (Variant_encodeBinary (encode_jump T) T (VarArray (Ns0 i) a dims)) (array_bits i dims # bs @ dims_code dims)"
    using a tb by (intro variant_array_fits [OF T d]) (simp_all add: acode_def)
  then show "fits (Suc k) (encode_jump T (Ns0 23) (VVariant (VarArray (Ns0 i) a dims))) (array_bits i dims # bs @ dims_code dims)"
    by (simp add: fits_def)
  show "reads (Suc k) (decodeBinaryJumpTable (decode_jump n T) T (Ns0 23) ! 23) (array_bits i dims # bs @ dims_code dims)
      (VVariant (VarArray (Ns0 i) a' dims))" if "Suc k \<le> n" for n
  proof -
    have "reads k (decode_array (decode_jump n T) T (Ns0 i)) bs a'"
      using a that by (simp add: acode_def)
    from reads_dmap [OF variant_array_reads [OF T d i this]] show ?thesis
      by (simp add: jump_simps)
  qed
qed

text \<open>The structures of an array are encoded as ExtensionObjects and come back as these.\<close>

lemma wrap_elements_fits:
  assumes "types_ok T" "list_all2 (ecode T k (Ns0 21)) (map (wrap r) vs) bss"
  shows "fits (Suc k) (wrap_elements (encode_jump T) T r vs) (concat bss)"
  using assms(2)
proof (induction vs arbitrary: bss)
  case Nil
  then show ?case by (simp add: fits_def)
next
  case (Cons v vs)
  then obtain b bss' where b: "bss = b # bss'" "ecode T k (Ns0 21) (wrap r v) b"
    "list_all2 (ecode T k (Ns0 21)) (map (wrap r) vs) bss'"
    by (auto simp: list_all2_Cons1)
  have "fits (Suc k) (encodeBinaryInternal (encode_jump T) T (Ns0 21) (wrap r v)) b"
    using b(2) by (intro fits_builtin_internal [OF assms(1) eo_index(1)]) (simp_all add: ecode_def wrap_def fields_of_def)
  with Cons.IH [OF b(3)] b(1) show ?case
    by (simp add: fits_def wrap_def UA_TYPES_EXTENSIONOBJECT_def)
qed

lemma vcode_var_structs:
  assumes T: "types_ok T" and d: "dims_ok dims" and l: "lcode T k (Ns0 21) (map (wrap r) vs) bss es"
    and pl: "array_plausible T (Ns0 21) (map (wrap r) vs)" and w: "list_all (wrappable T r) vs"
    and t: "\<not> builtin (dtype_of T r)" "\<not> is_alias T (dtype_of T r)" "numeric_typeid (dtype_of T r)"
    and ov: "overlayable (dtype_of T r) \<Longrightarrow> list_all (\<lambda>v. size_jump T r v = memSize (dtype_of T r)) vs"
  shows "vcode T (Suc k) (Ns0 23) (VVariant (VarArray r (Some vs) dims))
    (array_bits 21 dims # array_code (Some vs) bss @ dims_code dims) (VVariant (VarArray (Ns0 21) (Some es) dims))"
proof (rule vcode_varsize [OF T var_index])
  have e: "list_all2 (ecode T k (Ns0 21)) (map (wrap r) vs) bss"
    using l by (simp add: lcode_def)
  have "size_jump T (Ns0 21) (wrap r v) = 5 + NodeId_calcSizeBinary (dtypeId (dtype_of T r)) + size_jump T r v" for v
    using t(3) by (simp add: wrap_def ExtensionObject_calcSizeBinary_def)
  then have "sum_list (map (size_jump T (Ns0 21)) (map (wrap r) vs))
      = (NodeId_calcSizeBinary (dtypeId (dtype_of T r)) + 1 + 4) * length vs + sum_list (map (size_jump T r) vs)"
    by (induction vs) (simp_all add: algebra_simps)
  moreover have "overlayable (dtype_of T r) \<Longrightarrow> sum_list (map (size_jump T r) vs) = memSize (dtype_of T r) * length vs"
    using ov by (induction vs) auto
  ultimately show "length (array_bits 21 dims # array_code (Some vs) bss @ dims_code dims)
      = size_jump T (Ns0 23) (VVariant (VarArray r (Some vs) dims))"
    using conjunct1 [OF lcode_sizes [OF e]] t length_dims_code [of dims]
    by (auto simp: Variant_calcSizeBinary_def array_code_def Array_size_def Array_calcSizeBinary_def arr_length_def Let_def)
  have len: "length vs \<le> UA_INT32_MAX"
    using pl by (simp add: array_plausible_def)
  have "fits (Suc k) (Variant_encodeBinaryWrapExtensionObject (encode_jump T) T r True (Some vs)) (array_code (Some vs) bss)"
    using wrap_elements_fits [OF T e] len
    by (simp add: fits_def Variant_encodeBinaryWrapExtensionObject_def codec_fits array_code_def signed_length_def arr_length_def)
  then have "fits (Suc k) (Variant_encodeBinary (encode_jump T) T (VarArray r (Some vs) dims))
      (array_bits 21 dims # array_code (Some vs) bss @ dims_code dims)"
    using t by (intro variant_array_fits [OF T d]) (simp_all add: variant_typebits_struct)
  then show "fits (Suc k) (encode_jump T (Ns0 23) (VVariant (VarArray r (Some vs) dims)))
      (array_bits 21 dims # array_code (Some vs) bss @ dims_code dims)"
    by (simp add: fits_def)
  have ac: "array_code (Some vs) bss = array_code (Some (map (wrap r) vs)) bss"
    by (simp add: array_code_def signed_length_def)
  show "reads (Suc k) (decodeBinaryJumpTable (decode_jump n T) T (Ns0 23) ! 23)
      (array_bits 21 dims # array_code (Some vs) bss @ dims_code dims) (VVariant (VarArray (Ns0 21) (Some es) dims))"
    if "Suc k \<le> n" for n
  proof -
    have "reads k (decode_array (decode_jump n T) T (Ns0 21)) (array_code (Some vs) bss) (Some es)"
      using acode_list [OF l pl] that ac by (simp add: acode_def)
    from reads_dmap [OF variant_array_reads [OF T d eo_index(1) this]] show ?thesis
      by (simp add: jump_simps)
  qed
qed

subsection \<open>DataValues and diagnostic information\<close>

definition opt_bin :: "('a \<Rightarrow> u8 list) \<Rightarrow> 'a option \<Rightarrow> u8 list" where
  "opt_bin f x = (case x of None \<Rightarrow> [] | Some y \<Rightarrow> f y)"

context binary_codec
begin

lemma encode_opt_fits:
  "pred_option ok x \<Longrightarrow> length (opt_bin bin x) \<le> eroom c \<Longrightarrow>
   encode_opt (map_option enc x) (GOOD, c) = (GOOD, emit (opt_bin bin x) c)"
  by (cases x) (auto simp: encode_opt_def opt_bin_def enc_fits encodeWithExchangeBuffer_fits)

lemma decode_opt_at:
  "at c (opt_bin bin x) \<Longrightarrow> pred_option ok x \<Longrightarrow>
   decode_opt (x \<noteq> None) dec GOOD c = (GOOD, x, skip (length (opt_bin bin x)) c)"
  by (cases x) (auto simp: decode_opt_def opt_bin_def dec_at)

end

lemma encode_direct_opt_fits:
  "length (opt_bin UA_encode32 x) \<le> eroom c \<Longrightarrow> encode_direct_opt x (GOOD, c) = (GOOD, emit (opt_bin UA_encode32 x) c)"
  by (cases x) (auto simp: encode_direct_opt_def opt_bin_def codec_fits)

lemma mask_bits:
  fixes m :: u8
  assumes "m = has_bit 0 a OR has_bit 1 b OR has_bit 2 c OR has_bit 3 d OR has_bit 4 e OR has_bit 5 f"
  shows "m AND 1 \<noteq> 0 \<longleftrightarrow> a \<noteq> None" "m AND 2 \<noteq> 0 \<longleftrightarrow> b \<noteq> None" "m AND 4 \<noteq> 0 \<longleftrightarrow> c \<noteq> None"
    "m AND 8 \<noteq> 0 \<longleftrightarrow> d \<noteq> None" "m AND 0x10 \<noteq> 0 \<longleftrightarrow> e \<noteq> None" "m AND 0x20 \<noteq> 0 \<longleftrightarrow> f \<noteq> None" "m AND 0x40 = 0"
  unfolding assms by (cases a; cases b; cases c; cases d; cases e; cases f; simp add: has_bit_def)+

definition dv_tail :: "u32 option \<Rightarrow> u64 option \<Rightarrow> u16 option \<Rightarrow> u64 option \<Rightarrow> u16 option \<Rightarrow> u8 list" where
  "dv_tail st sts sp vts vp = opt_bin UA_encode32 st @ opt_bin UA_encode64 sts @ opt_bin UA_encode16 sp
     @ opt_bin UA_encode64 vts @ opt_bin UA_encode16 vp"

definition dv_mask :: "'a option \<Rightarrow> u32 option \<Rightarrow> u64 option \<Rightarrow> u16 option \<Rightarrow> u64 option \<Rightarrow> u16 option \<Rightarrow> u8" where
  "dv_mask x st sts sp vts vp = has_bit 0 x OR has_bit 1 st OR has_bit 2 sts OR has_bit 3 vts OR has_bit 4 sp OR has_bit 5 vp"

lemma dv_fits:
  assumes "case x of None \<Rightarrow> bs = [] | Some y \<Rightarrow> fits k (Variant_encodeBinary enc T y) bs"
  shows "fits k (DataValue_encodeBinary enc T (DataValue x st sts sp vts vp))
    (dv_mask x st sts sp vts vp # bs @ dv_tail st sts sp vts vp)"
  unfolding fits_def
proof (intro allI impI)
  fix c :: ectx
  let ?m = "dv_mask x st sts sp vts vp"
  assume c: "edepth c + k \<le> Suc UA_ENCODING_MAX_RECURSION" "length (?m # bs @ dv_tail st sts sp vts vp) \<le> eroom c"
  have b: "Byte_encodeBinary ?m c = (GOOD, emit [?m] c)"
    using c(2) by (intro codec_fits(2)) simp
  have v: "(case x of None \<Rightarrow> (GOOD, emit [?m] c) | Some v \<Rightarrow> Variant_encodeBinary enc T v (emit [?m] c))
      = (GOOD, emit (?m # bs) c)"
    using assms c by (cases x) (auto simp: fits_def)
  have t: "length (dv_tail st sts sp vts vp) \<le> eroom (emit (?m # bs) c)"
    using c(2) by simp
  show "DataValue_encodeBinary enc T (DataValue x st sts sp vts vp) c
      = (GOOD, emit (?m # bs @ dv_tail st sts sp vts vp) c)"
    unfolding DataValue_encodeBinary_def datavalue.sel dv_mask_def [symmetric] Let_def
    using b v t
    by (simp add: UInt32_codec.encode_opt_fits UInt64_codec.encode_opt_fits UInt16_codec.encode_opt_fits dv_tail_def
        option.pred_True)
qed

lemma dv_reads:
  assumes "case x of None \<Rightarrow> bs = [] \<and> x' = None | Some _ \<Rightarrow> (\<exists>y'. x' = Some y' \<and> reads k (Variant_decodeBinary dec T) bs y')"
  shows "reads (Suc k) (DataValue_decodeBinary dec T) (dv_mask x st sts sp vts vp # bs @ dv_tail st sts sp vts vp)
    (DataValue x' st sts (map_option clamp_pico sp) vts (map_option clamp_pico vp))"
  unfolding reads_def
proof (intro allI impI)
  fix c :: dctx
  let ?m = "dv_mask x st sts sp vts vp" and ?c = "(skip 1 c)\<lparr>ddepth := Suc (ddepth c)\<rparr>"
  assume c: "ddepth c + Suc k \<le> Suc UA_ENCODING_MAX_RECURSION" "at c (?m # bs @ dv_tail st sts sp vts vp)"
  note vc = variant_content [OF c(2,1)]
  let ?d = "skip (length bs) ?c"
  have v: "decode_opt (x \<noteq> None) (Variant_decodeBinary dec T) GOOD ?c = (GOOD, x', ?d)"
    using assms vc by (cases x) (auto simp: decode_opt_def reads_def at_append)
  have t: "at ?d (opt_bin UA_encode32 st)" "at (skip (length (opt_bin UA_encode32 st)) ?d) (opt_bin UA_encode64 sts @ opt_bin UA_encode16 sp
     @ opt_bin UA_encode64 vts @ opt_bin UA_encode16 vp)"
    using vc(2) by (simp_all only: at_append dv_tail_def)
  note m = mask_bits [OF dv_mask_def [of x st sts sp vts vp]]
  show "DataValue_decodeBinary dec T c = (GOOD, DataValue x' st sts (map_option clamp_pico sp) vts (map_option clamp_pico vp),
      skip (length (?m # bs @ dv_tail st sts sp vts vp)) c)"
    using vc(1) v t c(1)
    by (simp add: DataValue_decodeBinary_def m at_append UInt32_codec.decode_opt_at UInt64_codec.decode_opt_at
        UInt16_codec.decode_opt_at dv_tail_def option.pred_True
        del: not_None_eq)
qed

lemma dv_index: "22 < UA_BUILTIN_TYPES_COUNT" "fixed_size 22 = None"
  by (simp_all add: UA_BUILTIN_TYPES_COUNT_def fixed_size_def)

lemma opt_size_bin: "opt_size 4 st + opt_size 8 sts + opt_size 2 sp + opt_size 8 vts + opt_size 2 vp
    = length (dv_tail st sts sp vts vp)"
  by (auto simp: opt_size_def dv_tail_def opt_bin_def split: option.splits)

lemma vcode_datavalue:
  assumes T: "types_ok T"
    and x: "case x of None \<Rightarrow> bs = [] \<and> x' = None
            | Some y \<Rightarrow> (\<exists>y'. x' = Some y' \<and> vcode T k (Ns0 23) (VVariant y) bs (VVariant y'))"
  shows "vcode T (Suc k) (Ns0 22) (VDataValue (DataValue x st sts sp vts vp))
    (dv_mask x st sts sp vts vp # bs @ dv_tail st sts sp vts vp)
    (VDataValue (DataValue x' st sts (map_option clamp_pico sp) vts (map_option clamp_pico vp)))"
proof (rule vcode_varsize [OF T dv_index])
  have e: "case x of None \<Rightarrow> bs = [] | Some y \<Rightarrow> fits k (Variant_encodeBinary (encode_jump T) T y) bs"
    using x by (auto simp: fits_def dest: vcodeD(2) split: option.splits)
  have sz: "length bs = (case x of None \<Rightarrow> 0 | Some y \<Rightarrow> Variant_calcSizeBinary T (size_jump T) y)"
    using x by (auto dest: vcodeD(1) split: option.splits)
  show "length (dv_mask x st sts sp vts vp # bs @ dv_tail st sts sp vts vp)
      = size_jump T (Ns0 22) (VDataValue (DataValue x st sts sp vts vp))"
    using sz opt_size_bin [of st sts sp vts vp] by (simp add: DataValue_calcSizeBinary_def)
  show "fits (Suc k) (encode_jump T (Ns0 22) (VDataValue (DataValue x st sts sp vts vp)))
      (dv_mask x st sts sp vts vp # bs @ dv_tail st sts sp vts vp)"
    using fits_mono [OF dv_fits [OF e], of "Suc k"] by (simp add: fits_def)
  show "reads (Suc k) (decodeBinaryJumpTable (decode_jump n T) T (Ns0 22) ! 22)
      (dv_mask x st sts sp vts vp # bs @ dv_tail st sts sp vts vp)
      (VDataValue (DataValue x' st sts (map_option clamp_pico sp) vts (map_option clamp_pico vp)))"
    if "Suc k \<le> n" for n
  proof -
    have "reads k (Variant_decodeBinary (decode_jump n T) T) bs y'" if "x = Some y" "x' = Some y'" for y y'
    proof -
      have "vcode T k (Ns0 23) (VVariant y) bs (VVariant y')"
        using x that by simp
      then have "reads k (decode_jump (Suc n) T (Ns0 23)) bs (VVariant y')"
        using vcodeD(3) \<open>Suc k \<le> n\<close> by simp
      moreover have "decode_jump (Suc n) T (Ns0 23) = dmap VVariant (Variant_decodeBinary (decode_jump n T) T)"
        using builtin_entry(2) [OF T var_index(1)] by (intro ext) (simp add: decode_jump.simps jump_simps)
      ultimately show ?thesis
        by (auto intro: reads_dmapD [of _ VVariant] simp: inj_def)
    qed
    then have "case x of None \<Rightarrow> bs = [] \<and> x' = None
        | Some _ \<Rightarrow> (\<exists>y'. x' = Some y' \<and> reads k (Variant_decodeBinary (decode_jump n T) T) bs y')"
      using x by (auto split: option.splits)
    from reads_dmap [OF dv_reads [OF this]] show ?thesis
      by (simp add: jump_simps)
  qed
qed

definition diag_mask ::
  "u32 option \<Rightarrow> u32 option \<Rightarrow> u32 option \<Rightarrow> u32 option \<Rightarrow> ustring option \<Rightarrow> diaginfo option \<Rightarrow> u8" where
  "diag_mask sid uri txt loc add inner =
     has_bit 0 sid OR has_bit 1 uri OR has_bit 2 txt OR has_bit 3 loc OR has_bit 4 add OR has_bit 5 inner"

definition diag_code :: "u32 option \<Rightarrow> u32 option \<Rightarrow> u32 option \<Rightarrow> u32 option \<Rightarrow> ustring option \<Rightarrow> u8 list" where
  "diag_code sid uri txt loc add =
     diag_mask sid uri txt loc add None # opt_bin UA_encode32 sid @ opt_bin UA_encode32 uri @ opt_bin UA_encode32 txt
     @ opt_bin UA_encode32 loc @ opt_bin string_bin add"

lemma diag_index: "24 < UA_BUILTIN_TYPES_COUNT" "fixed_size 24 = None"
  by (simp_all add: UA_BUILTIN_TYPES_COUNT_def fixed_size_def)

lemma vcode_diag:
  assumes T: "types_ok T" and add: "pred_option string_ok add"
  shows "vcode T k (Ns0 24) (VDiagnosticInfo (DiagnosticInfo sid uri txt loc add None None))
    (diag_code sid uri txt loc add) (VDiagnosticInfo (DiagnosticInfo sid uri txt loc add None None))"
proof (rule vcode_varsize [OF T diag_index])
  show "length (diag_code sid uri txt loc add)
      = size_jump T (Ns0 24) (VDiagnosticInfo (DiagnosticInfo sid uri txt loc add None None))"
    using add by (auto simp: diag_code_def opt_size_def opt_bin_def String_codec.size_bin split: option.splits)
  let ?m = "diag_mask sid uri txt loc add None"
  let ?nums = "opt_bin UA_encode32 sid @ opt_bin UA_encode32 uri @ opt_bin UA_encode32 txt @ opt_bin UA_encode32 loc"
  show "fits k (encode_jump T (Ns0 24) (VDiagnosticInfo (DiagnosticInfo sid uri txt loc add None None)))
      (diag_code sid uri txt loc add)"
    unfolding fits_def
  proof (intro allI impI)
    fix c :: ectx
    assume c: "length (diag_code sid uri txt loc add) \<le> eroom c"
    have b: "Byte_encodeBinary ?m c = (GOOD, emit [?m] c)"
      using c by (intro codec_fits(2)) (simp add: diag_code_def)
    have "length ?nums + length (opt_bin string_bin add) \<le> eroom (emit [?m] c)"
      using c by (simp add: diag_code_def)
    then have n: "encode_direct_opt loc (encode_direct_opt txt (encode_direct_opt uri (encode_direct_opt sid
        (GOOD, emit [?m] c)))) = (GOOD, emit (?m # ?nums) c)"
      by (simp add: encode_direct_opt_fits)
    have s: "(case add of None \<Rightarrow> (GOOD, emit (?m # ?nums) c) | Some s \<Rightarrow> String_encodeBinary s (emit (?m # ?nums) c))
        = (GOOD, emit (diag_code sid uri txt loc add) c)"
      using c add by (cases add) (auto simp: diag_code_def opt_bin_def codec_fits)
    show "encode_jump T (Ns0 24) (VDiagnosticInfo (DiagnosticInfo sid uri txt loc add None None)) c
        = (GOOD, emit (diag_code sid uri txt loc add) c)"
      unfolding encode_jump.simps DiagnosticInfo_encodeBinary_def diaginfo.sel diag_mask_def [symmetric] Let_def b n using s by simp
  qed
  show "reads k (decodeBinaryJumpTable (decode_jump n T) T (Ns0 24) ! 24) (diag_code sid uri txt loc add)
      (VDiagnosticInfo (DiagnosticInfo sid uri txt loc add None None))" for n
    unfolding reads_def
  proof (intro allI impI)
    fix c :: dctx
    assume c: "at c (diag_code sid uri txt loc add)"
    then have "at c [?m]" and a2: "at (skip 1 c) (?nums @ opt_bin string_bin add)"
      using at_append [of c "[?m]" "?nums @ opt_bin string_bin add"] by (simp_all add: diag_code_def)
    then have a1: "Byte_decodeBinary c = (GOOD, ?m, skip 1 c)"
      by (simp add: Byte_at)
    note a = a1 a2
    note m = mask_bits [OF diag_mask_def [of sid uri "txt" loc "add" None]]
    show "(decodeBinaryJumpTable (decode_jump n T) T (Ns0 24) ! 24) c
        = (GOOD, VDiagnosticInfo (DiagnosticInfo sid uri txt loc add None None), skip (length (diag_code sid uri txt loc add)) c)"
      using a add
      by (simp add: jump_simps dmap_def DiagnosticInfo_decodeBinary_def m at_append UInt32_codec.decode_opt_at
          String_codec.decode_opt_at option.pred_True diag_code_def del: not_None_eq One_nat_def)
         (simp add: decode_opt_def)
  qed
qed

subsection \<open>The round trip\<close>

lemma codes_struct:
  assumes "codes T k r v v'" "types_ok T" "\<not> builtin (dtype_of T r)"
  obtains fs where "v = VStruct fs"
proof -
  have b: "builtin (dtype_of T (Ns0 i))" if "i < UA_BUILTIN_TYPES_COUNT" for i
    using builtin_entry(1) [OF assms(2) that] by (simp add: builtin_ok_def)
  show thesis
    using assms(1,3) that b basic_index b [OF eo_index(1)] b [OF var_index(1)] b [OF dv_index(1)] b [OF diag_index(1)]
    by cases auto
qed

lemma builtin_ref:
  assumes "types_ok T" "builtin (dtype_of T r)"
  obtains i where "r = Ns0 i" "i < UA_BUILTIN_TYPES_COUNT"
proof (cases r)
  case (Ns0 i)
  have "i < length (ns0types T)"
    using assms(2) Ns0 by (auto simp: dtype_of_def null_dtype_def split: if_splits)
  then have "if i < UA_BUILTIN_TYPES_COUNT then builtin_ok i (ns0types T ! i) else struct_ok T (Ns0 i)"
    using assms(1) by (auto simp: types_ok_def)
  then show thesis
    using assms(2) Ns0 that by (auto simp: struct_ok_def split: if_splits)
next
  case (Custom i)
  then have "i < length (customtypes T)"
    using assms(2) by (auto simp: dtype_of_def null_dtype_def split: if_splits)
  then have "struct_ok T (Custom i)"
    using assms(1) by (auto simp: types_ok_def)
  then show thesis
    using assms(2) Custom by (simp add: struct_ok_def)
qed

lemma codes_scalar:
  assumes "codes T k (Ns0 i) v v'" "types_ok T" "i < UA_BUILTIN_TYPES_COUNT"
  shows "fields_of v = [FScalar v]"
proof -
  have "builtin (dtype_of T (Ns0 i))"
    using builtin_entry(1) [OF assms(2,3)] by (simp add: builtin_ok_def)
  with assms(1) show ?thesis
    by cases (auto simp: fields_of_def wrap_def split: uaval.splits)
qed

lemma lcodes_structs:
  assumes "lcodes T k r vs vs'" "types_ok T" "\<not> builtin (dtype_of T r)"
  shows "list_all (\<lambda>v. \<exists>fs. v = VStruct fs) vs"
  using assms(1)
proof (induction vs arbitrary: vs')
  case (Cons v vs)
  from Cons.prems show ?case
    by cases (use assms(2,3) Cons.IH codes_struct in fastforce)
qed simp

lemma lcode_wrap:
  assumes "types_ok T" "lcode T k r vs bss vs'" "list_all (wrappable T r) vs" "list_all (\<lambda>v. \<exists>fs. v = VStruct fs) vs"
  shows "lcode T (Suc k) (Ns0 21) (map (wrap r) vs) (map (wrap_code T r) bss) (map (wrap r) vs')"
proof -
  have "vcode T (Suc k) (Ns0 21) (wrap r (vs ! j)) (wrap_code T r (bss ! j)) (wrap r (vs' ! j))"
    if "j < length vs" for j
  proof -
    obtain fs where "vs ! j = VStruct fs"
      using assms(4) \<open>j < length vs\<close> by (auto simp: list_all_length)
    moreover have "vcode T k r (vs ! j) (bss ! j) (vs' ! j)" "wrappable T r (vs ! j)"
      using assms(2,3) that by (auto simp: lcode_def vcode_def list_all2_conv_all_nth list_all_length)
    ultimately show ?thesis
      using vcode_wrap [OF assms(1)] by simp
  qed
  then show ?thesis
    using assms(2) by (auto simp: lcode_def vcode_def list_all2_conv_all_nth)
qed

lemma codes_vcode:
  "codes T k r v v' \<Longrightarrow> types_ok T \<Longrightarrow> \<exists>bs. vcode T k r v bs v'"
  "lcodes T k r vs vs' \<Longrightarrow> types_ok T \<Longrightarrow> \<exists>bss. lcode T k r vs bss vs'"
  "mcodes T k r ms fs fs' \<Longrightarrow> types_ok T \<Longrightarrow> \<exists>bs. mcode T k r ms fs bs fs'"
proof (induction rule: codes_lcodes_mcodes.inducts)
  case (basic i v k)
  then show ?case using basic_ecode basic_dcode unfolding vcode_def by blast
next
  case (struct r k fs fs')
  then show ?case using vcode_struct by blast
next
  case (eo_nobody n k)
  then show ?case using vcode_eo_nobody by blast
next
  case (eo_bytes n b k)
  then show ?case using vcode_eo_bytes by blast
next
  case (eo_xml n b k)
  then show ?case using vcode_eo_xml by blast
next
  case (eo_decoded k r v v')
  then obtain fs where "v = VStruct fs"
    using codes_struct [OF eo_decoded(1)] by (auto simp: wrappable_def)
  then show ?case using eo_decoded vcode_wrap by blast
next
  case (var_empty k)
  then show ?case using vcode_var_empty by blast
next
  case (var_scalar k i v v')
  then show ?case using vcode_var_scalar codes_scalar by blast
next
  case (var_struct k r v v')
  then obtain fs where "v = VStruct fs"
    using codes_struct [OF var_struct(1)] by (auto simp: wrappable_def)
  then show ?case using var_struct vcode_var_struct by blast
next
  case (var_null i dims k)
  then show ?case using vcode_var_array [OF _ _ _ acode_null] by blast
next
  case (var_array k i vs vs' dims)
  then show ?case using vcode_var_array acode_list by blast
next
  case (var_structs k r vs vs' dims)
  then obtain bss where bss: "lcode T k r vs bss vs'"
    by blast
  have l: "lcode T (Suc k) (Ns0 21) (map (wrap r) vs) (map (wrap_code T r) bss) (map (wrap r) vs')"
    using var_structs lcodes_structs by (intro lcode_wrap [OF _ bss]) blast+
  have "overlayable (dtype_of T r) \<Longrightarrow> list_all (\<lambda>v. size_jump T r v = memSize (dtype_of T r)) vs"
    using bss by (auto simp: lcode_def list_all2_conv_all_nth list_all_length ecode_def)
  then show ?case
    using var_structs vcode_var_structs [OF _ _ l] by blast
next
  case (dv_none k st sts sp vts vp)
  then show ?case using vcode_datavalue [where x = None and bs = "[]" and x' = None] by (simp, blast)
next
  case (dv_some k x x' st sts sp vts vp)
  then obtain bs where "vcode T k (Ns0 23) (VVariant x) bs (VVariant x')"
    by blast
  then show ?case
    using vcode_datavalue [where x = "Some x" and bs = bs and x' = "Some x'"] dv_some.prems by (simp, blast)
next
  case (diag "add" k sid uri "txt" loc)
  then show ?case using vcode_diag by blast
next
  case (lnil k r)
  then show ?case by (auto simp: lcode_def)
next
  case (lcons k r v v' vs vs')
  then obtain b bss where "vcode T k r v b v'" "lcode T k r vs bss vs'"
    by blast
  then have "lcode T k r (v # vs) (b # bss) (v' # vs')"
    by (simp add: lcode_def vcode_def)
  then show ?case by blast
next
  case (mnil k r)
  then show ?case using mcode_Nil by blast
next
  case (mscalar m k r v v' ms fs fs')
  then show ?case using mcode_scalar by (metis vcode_def)
next
  case (mnull m k r ms fs fs')
  then show ?case using mcode_array acode_null by blast
next
  case (marray m k r vs vs' ms fs fs')
  then show ?case using mcode_array acode_list by blast
qed

text \<open>The interface functions, for structures and for builtin types.\<close>

lemma codes_internal:
  assumes T: "types_ok T" and v: "codes T k r v v'"
  obtains bs where "length bs = UA_calcSizeBinary T (size_jump T) r v"
    "fits (Suc k) (encodeBinaryInternal (encode_jump T) T r v) bs"
    "\<And>n. Suc k < n \<Longrightarrow> reads (Suc k) (decodeBinaryInternal (decode_jump n T) T r) bs v'"
proof -
  obtain bs where bs: "vcode T k r v bs v'"
    using codes_vcode(1) [OF v T] by blast
  show thesis
  proof (cases "builtin (dtype_of T r)")
    case False
    then obtain fs where fs: "v = VStruct fs"
      using codes_struct [OF v T] by blast
    have "fits (Suc k) (encodeBinaryInternal (encode_jump T) T r v) bs"
      using vcodeD(2) [OF bs] by (simp add: fs fits_def)
    moreover have "reads (Suc k) (decodeBinaryInternal (decode_jump n T) T r) bs v'" if "Suc k < n" for n
      using vcodeD(3) [OF bs, of "Suc n"] that False
      by (simp add: reads_def decode_jump.simps decode_index_def jump_simps)
    ultimately show thesis
      using vcodeD(1) [OF bs] fs by (intro that [of bs]) simp_all
  next
    case True
    then obtain i where i: "r = Ns0 i" "i < UA_BUILTIN_TYPES_COUNT"
      using builtin_ref [OF T] by blast
    note e = builtin_entry(1) [OF T i(2)]
    have m: "members (dtype_of T r) = [\<lparr>memberTypeIndex = i, mpadding = 0, namespaceZero = True, misArray = False\<rparr>]"
      using e i(1) by (simp add: builtin_ok_def)
    have f: "fields_of v = [FScalar v]"
      using codes_scalar v T i by blast
    have "reads (Suc k) (decodeBinaryInternal (decode_jump n T) T r) bs (value_of (dtype_of T r) [FScalar v'])"
      if "Suc k < n" for n
      using vcodeD(3) [OF bs, of n] that m i(1)
      by (intro reads_internal) (simp add: reads_def dmap_def membertype_def)
    moreover have "value_of (dtype_of T r) [FScalar v'] = v'"
      using True by (simp add: value_of_def)
    moreover have "length bs = UA_calcSizeBinary T (size_jump T) r v"
      using vcodeD(1) [OF bs] m f i(1) by (simp add: UA_calcSizeBinary_def membertype_def)
    ultimately show thesis
      using fits_builtin_internal [OF T i(2) f] vcodeD(2) [OF bs] i(1) by (intro that [of bs]) simp_all
  qed
qed

lemma UA_encode_decode:
  assumes "types_ok T" "codes T k r v v'" "k \<le> UA_ENCODING_MAX_RECURSION"
    and "eout c = []" "eroom c = UA_calcSizeBinary T (size_jump T) r v"
  shows "\<exists>c'. UA_encodeBinary T r v c = (GOOD, c') \<and> eroom c' = 0 \<and> length (eout c') = eroom c \<and>
    UA_decodeBinary T r (eout c' @ rest) 0 = (GOOD, Some v', eroom c)"
proof -
  obtain bs where bs: "length bs = UA_calcSizeBinary T (size_jump T) r v"
    and f: "fits (Suc k) (encodeBinaryInternal (encode_jump T) T r v) bs"
    and d: "\<And>n. Suc k < n \<Longrightarrow> reads (Suc k) (decodeBinaryInternal (decode_jump n T) T r) bs v'"
    using codes_internal [OF assms(1,2)] by blast
  have "UA_encodeBinary T r v c = (GOOD, emit bs (c\<lparr>edepth := 0\<rparr>))"
    unfolding UA_encodeBinary_def using assms bs by (intro fitsD [OF f]) simp_all
  moreover have "decodeBinaryInternal (decode_jump (decode_fuel (bs @ rest)) T) T r \<lparr>dbuf = bs @ rest, dpos = 0, ddepth = 0\<rparr>
      = (GOOD, v', skip (length bs) \<lparr>dbuf = bs @ rest, dpos = 0, ddepth = 0\<rparr>)"
    using assms(3) by (intro readsD [OF d]) (auto simp: decode_fuel_def at_def)
  ultimately show ?thesis
    using assms(4,5) bs by (simp add: UA_decodeBinary_def)
qed

subsection \<open>Properties\<close>


text \<open>
  The witness is a structure of a number, an array of strings and a Variant that holds an array of structures
  of the same type, which is decoded as an array of ExtensionObjects.
\<close>

definition demo_sizes :: "nat list" where
  "demo_sizes = [1, 1, 1, 2, 2, 4, 4, 8, 8, 4, 8, 16, 8, 16, 16, 16, 24, 48, 4, 24, 32, 48, 96, 48, 72]"

definition demo_builtin :: "nat \<Rightarrow> dtype" where
  "demo_builtin i = \<lparr>dtypeId = \<lparr>namespaceIndex = 0, nident = Numeric (of_nat i + 1)\<rparr>, memSize = demo_sizes ! i,
     typeIndex = i, builtin = True, overlayable = (fixed_size i \<noteq> None), binaryEncodingId = 0,
     members = [\<lparr>memberTypeIndex = i, mpadding = 0, namespaceZero = True, misArray = False\<rparr>]\<rparr>"

definition demo_struct :: dtype where
  "demo_struct = \<lparr>dtypeId = \<lparr>namespaceIndex = 0, nident = Numeric 300\<rparr>, memSize = 72,
     typeIndex = 25, builtin = False, overlayable = False, binaryEncodingId = 301,
     members = [\<lparr>memberTypeIndex = 6, mpadding = 0, namespaceZero = True, misArray = False\<rparr>,
                \<lparr>memberTypeIndex = 11, mpadding = 4, namespaceZero = True, misArray = True\<rparr>,
                \<lparr>memberTypeIndex = 23, mpadding = 0, namespaceZero = True, misArray = False\<rparr>]\<rparr>"

definition demo_types :: types where
  "demo_types = \<lparr>ns0types = map demo_builtin [0..<25] @ [demo_struct], customtypes = []\<rparr>"

definition demo_value :: "variant \<Rightarrow> uaval" where
  "demo_value x = VStruct [FScalar (VUInt32 7), FArray (Some [VString (Some [65, 66])]), FScalar (VVariant x)]"

lemma demo_types_ok: "types_ok demo_types"
  unfolding types_ok_def
proof (intro conjI allI impI)
  fix i assume i: "i < length (ns0types demo_types)"
  show "if i < UA_BUILTIN_TYPES_COUNT then builtin_ok i (ns0types demo_types ! i) else struct_ok demo_types (Ns0 i)"
  proof (cases "i < UA_BUILTIN_TYPES_COUNT")
    case True
    then have "builtin_ok i (demo_builtin i)"
      using less_25 [OF True] by (elim insertE) (simp_all add: builtin_ok_def demo_builtin_def demo_sizes_def fixed_size_def)
    then show ?thesis
      using True by (simp add: demo_types_def nth_append UA_BUILTIN_TYPES_COUNT_def)
  next
    case False
    then show ?thesis
      using i by (simp add: demo_types_def UA_BUILTIN_TYPES_COUNT_def struct_ok_def dtype_of_def nth_append demo_struct_def)
  qed
qed (simp_all add: demo_types_def UA_BUILTIN_TYPES_COUNT_def)

lemma demo_dtype: "dtype_of demo_types (Ns0 25) = demo_struct" "i < 25 \<Longrightarrow> dtype_of demo_types (Ns0 i) = demo_builtin i"
  by (simp_all add: dtype_of_def demo_types_def nth_append)

lemma demo_size: "size_jump demo_types (Ns0 25) (demo_value x) = 14 + Variant_calcSizeBinary demo_types (size_jump demo_types) x"
  by (simp add: demo_value_def UA_calcSizeBinary_def demo_dtype fields_of_def demo_struct_def membertype_def
      Array_size_def Array_calcSizeBinary_def demo_builtin_def demo_sizes_def fixed_size_def String_calcSizeBinary_def
      arr_length_def)

lemma demo_codes:
  assumes "codes demo_types k (Ns0 23) (VVariant x) (VVariant x')"
  shows "codes demo_types (Suc k) (Ns0 25) (demo_value x) (demo_value x')"
  unfolding demo_value_def
proof (intro struct)
  show "mcodes demo_types k (Ns0 25) (members (dtype_of demo_types (Ns0 25)))
      [FScalar (VUInt32 7), FArray (Some [VString (Some [65, 66])]), FScalar (VVariant x)]
      [FScalar (VUInt32 7), FArray (Some [VString (Some [65, 66])]), FScalar (VVariant x')]"
    unfolding demo_dtype(1) demo_struct_def dtype.simps
    using assms
    by (intro mscalar marray mnil lcons lnil)
       (simp_all add: membertype_def basic string_ok_def arr_length_def UA_INT32_MAX_def array_plausible_def
         demo_dtype demo_builtin_def demo_sizes_def String_calcSizeBinary_def)
qed (simp add: demo_dtype demo_struct_def)

lemma demo_wrappable: "wrappable demo_types (Ns0 25) (demo_value VarEmpty)"
proof -
  have "UA_findDataTypeByBinaryInternal demo_types (encoding_id demo_struct) = Some (Ns0 25)"
    by (simp add: UA_findDataTypeByBinaryInternal_def encoding_id_def demo_struct_def demo_types_def upt_rec demo_builtin_def)
  then show ?thesis
    by (simp add: wrappable_def demo_dtype demo_size Variant_calcSizeBinary_def UA_INT32_MAX_def
        NodeId_calcSizeBinary_def encoding_id_def demo_struct_def numeric_typeid_def)
qed

lemma demo_nested:
  "codes demo_types 4 (Ns0 25) (demo_value (VarArray (Ns0 25) (Some [demo_value VarEmpty]) None))
     (demo_value (VarArray (Ns0 21) (Some [wrap (Ns0 25) (demo_value VarEmpty)]) None))"
proof -
  have l: "lcodes demo_types 1 (Ns0 25) [demo_value VarEmpty] [demo_value VarEmpty]"
    using demo_codes [OF var_empty, of 0] by (simp add: lcons lnil)
  have "codes demo_types (Suc (Suc 1)) (Ns0 23) (VVariant (VarArray (Ns0 25) (Some [demo_value VarEmpty]) None))
     (VVariant (VarArray (Ns0 21) (Some (map (wrap (Ns0 25)) [demo_value VarEmpty])) None))"
    using demo_wrappable
    by (intro var_structs [OF l])
       (simp_all add: array_plausible_def UA_INT32_MAX_def wrap_def ExtensionObject_calcSizeBinary_def demo_size demo_dtype
         demo_builtin_def demo_sizes_def demo_struct_def numeric_typeid_def is_alias_def dims_ok_def arr_length_def)
  from demo_codes [OF this] show ?thesis
    by (simp add: eval_nat_numeral)
qed


end
