(* ===== verification/Binary_Generic_Chunking.thy ===== *)
theory Binary_Generic_Chunking
  imports Binary_Chunking Binary_Generic_Correct
begin

text \<open>
  Chunking of structures. \<open>encodeBinaryInternal\<close> encodes the members one after the other and tries a member again in
  a fresh buffer when it does not fit. For structures of builtin types (without QualifiedName, which breaks the discipline,
  and the types with nested content), arrays of them, and nested structures, the bytes sent over all buffers are
  the reference encoding, wherever the buffer ends fall, and no buffer is empty.
\<close>

subsection \<open>Encoders at a given depth\<close>

definition chunk_at :: "nat \<Rightarrow> nat \<Rightarrow> (ectx \<Rightarrow> status \<times> ectx) \<Rightarrow> u8 list \<Rightarrow> bool" where
  "chunk_at d N enc bs \<longleftrightarrow>
     (\<forall>c. edepth c = d \<and> good_script N c \<and> 2 * length bs \<le> script_len c \<longrightarrow>
        (\<exists>c'. enc c = (GOOD, c') \<and> writes N (2 * length bs) c bs c'))"

lemma chunk_safe_at: "chunk_safe N enc bs \<Longrightarrow> chunk_at d N enc bs"
  by (simp add: chunk_safe_def chunk_at_def)

lemma chunk_atE:
  assumes "chunk_at d N e bs" and "edepth c = d" and "good_script N c" and "2 * length bs \<le> script_len c"
  obtains c' where "e c = (GOOD, c')" "writes N (2 * length bs) c bs c'"
  using assms by (auto simp: chunk_at_def)

lemma writes_depth: "writes N k c bs c' \<Longrightarrow> edepth c' = edepth c"
  by (simp add: writes_def extends_def)

lemma chunk_at_then:
  assumes "chunk_at d N e1 b1" and "chunk_at d N e2 b2"
    and enc: "\<And>c. enc c = (let (r, c1) = e1 c in if r \<noteq> GOOD then (r, c1) else e2 c1)"
  shows "chunk_at d N enc (b1 @ b2)"
  unfolding chunk_at_def
proof (intro allI impI)
  fix c :: ectx assume g: "edepth c = d \<and> good_script N c \<and> 2 * length (b1 @ b2) \<le> script_len c"
  then obtain c1 where c1: "e1 c = (GOOD, c1)" "writes N (2 * length b1) c b1 c1"
    using assms(1) by (auto simp: chunk_at_def)
  have "2 * length b2 \<le> script_len c1" "good_script N c1" "edepth c1 = d"
    using writes_script [OF c1(2)] writes_depth [OF c1(2)] g by simp_all
  then obtain c2 where "e2 c1 = (GOOD, c2)" "writes N (2 * length b2) c1 b2 c2"
    using assms(2) by (auto simp: chunk_at_def)
  with c1 show "\<exists>c'. enc c = (GOOD, c') \<and> writes N (2 * length (b1 @ b2)) c (b1 @ b2) c'"
    by (auto simp: enc intro!: writes_trans [OF c1(2)])
qed

subsection \<open>Members\<close>

text \<open>A member either keeps the retry discipline or handles the buffer ends itself.\<close>

lemma retry_member_retry:
  assumes "chunk_retry N e bs" and "sz \<le> N"
  shows "chunk_safe N (\<lambda>c. retry_member (Suc (script_len c)) sz e c) bs"
  unfolding chunk_safe_def
proof (intro allI impI)
  fix c :: ectx assume g: "good_script N c \<and> 2 * length bs \<le> script_len c"
  have ne: "0 < length bs"
    using assms by (simp add: chunk_retry_def)
  from g have g1: "good_script N c \<and> 2 * length bs \<le> script_len c + 1" by simp
  with assms(1) consider c' where "e c = (GOOD, c')" "writes N (2 * length bs - 1) c bs c'"
    | c1 where "eroom c < N" "e c = (BADENCODINGLIMITSEXCEEDED, c1)" "unsent c c1"
    unfolding chunk_retry_def by blast
  then show "\<exists>c'. retry_member (Suc (script_len c)) sz e c = (GOOD, c') \<and> writes N (2 * length bs) c bs c'"
  proof cases
    case 1
    then show ?thesis by (auto intro: writes_mono)
  next
    case 2
    have "0 < script_len c" using g ne by linarith
    then obtain c2 where c2: "exchangeBuffer (c1\<lparr>eout := eout c, eroom := eroom c\<rparr>) = (GOOD, c2)"
      "extends N 1 c [] c2" "N \<le> eroom c2" "script_len c = script_len c2 + 1"
      using extends_reset [OF 2(3)] g 2(1) by blast
    have "good_script N c2 \<and> 2 * length bs \<le> script_len c2 + 1"
      using extends_script [OF c2(2)] c2(4) g by simp
    then obtain c3 where "e c2 = (GOOD, c3)" "writes N (2 * length bs - 1) c2 bs c3"
      using assms(1) c2(3) unfolding chunk_retry_def by force
    moreover from this have "writes N (2 * length bs) c ([] @ bs) c3"
      using ne by (intro extends_writes [OF c2(2)]) auto
    ultimately show ?thesis
      using 2 c2 assms(2) by (simp add: Let_def)
  qed
qed

lemma retry_member_at:
  assumes "chunk_at d N e bs"
  shows "chunk_at d N (\<lambda>c. retry_member (Suc (script_len c)) sz e c) bs"
  unfolding chunk_at_def
proof (intro allI impI)
  fix c :: ectx assume "edepth c = d \<and> good_script N c \<and> 2 * length bs \<le> script_len c"
  then obtain c' where "e c = (GOOD, c')" "writes N (2 * length bs) c bs c'"
    using assms by (auto simp: chunk_at_def)
  then show "\<exists>c'. retry_member (Suc (script_len c)) sz e c = (GOOD, c') \<and> writes N (2 * length bs) c bs c'"
    by auto
qed

text \<open>The builtin types without nested content, except QualifiedName.\<close>

definition chunk_basic :: "nat \<Rightarrow> uaval \<Rightarrow> bool" where
  "chunk_basic i v \<longleftrightarrow> basic_ok i v \<and> (\<forall>q. v \<noteq> VQualifiedName q)"

lemma length_small_bins [simp]: "length (bool_bin b) = 1" "length (byte_bin x) = 1" "bool_bin b \<noteq> []" "byte_bin x \<noteq> []"
  by (simp_all add: bool_bin_def byte_bin_def)

lemma direct_all:
  "direct (Boolean_encodeBinary b) (bool_bin b)" "direct (Byte_encodeBinary x) (byte_bin x)"
  "direct (UInt16_encodeBinary x16) (UA_encode16 x16)" "direct (UInt32_encodeBinary x32) (UA_encode32 x32)"
  "direct (UInt64_encodeBinary x64) (UA_encode64 x64)"
  by (simp_all add: direct_put Boolean_encodeBinary_def Byte_encodeBinary_def UInt16_encodeBinary_def
      UInt32_encodeBinary_def UInt64_encodeBinary_def bool_bin_def byte_bin_def)

lemma basic_chunk:
  assumes "chunk_basic i v" and "19 \<le> N"
  shows "chunk_elem N (encode_jump T r v) (basic_bin v)"
  using assms
  by (cases v)
     (auto simp: chunk_elem_def chunk_basic_def basic_bin_def length_guid_bin intro!: direct_chunk_retry direct_all direct_Guid
       String_safe NodeId_retry ExpandedNodeId_retry LocalizedText_retry)

subsection \<open>Structures\<close>

text \<open>The reference encoding of a structure: its members one after the other.\<close>

fun struct_bin :: "uaval \<Rightarrow> u8 list" and field_bin :: "field \<Rightarrow> u8 list" where
  "struct_bin (VStruct fs) = concat (map field_bin fs)"
| "struct_bin v = basic_bin v"
| "field_bin (FScalar v) = struct_bin v"
| "field_bin (FArray a) = array_bin basic_bin a"

text \<open>
  \<open>chunkable T N d r v\<close>: the value \<open>v\<close> of the type \<open>r\<close> at depth \<open>d\<close> consists of builtin types without nested content, arrays of
  them and such structures, and every member that is not an array is in memory at most as large as a buffer.
\<close>

inductive chunkable :: "types \<Rightarrow> nat \<Rightarrow> nat \<Rightarrow> typeref \<Rightarrow> uaval \<Rightarrow> bool"
  and chunkable_fields :: "types \<Rightarrow> nat \<Rightarrow> nat \<Rightarrow> typeref \<Rightarrow> dtmember list \<Rightarrow> field list \<Rightarrow> bool"
  for T :: types and N :: nat where
  basic: "chunk_basic i v \<Longrightarrow> chunkable T N d (Ns0 i) v"
| struct: "d \<le> UA_ENCODING_MAX_RECURSION \<Longrightarrow> chunkable_fields T N (Suc d) r (members (dtype_of T r)) fs
    \<Longrightarrow> chunkable T N d r (VStruct fs)"
| none: "chunkable_fields T N d r [] []"
| scalar: "chunkable T N d (membertype r m) v \<Longrightarrow> memSize (dtype_of T (membertype r m)) \<le> N
    \<Longrightarrow> chunkable_fields T N d r ms fs \<Longrightarrow> chunkable_fields T N d r (m # ms) (FScalar v # fs)"
| array: "membertype r m = Ns0 i \<Longrightarrow> i < UA_BUILTIN_TYPES_COUNT \<Longrightarrow> arr_length a \<le> UA_INT32_MAX \<Longrightarrow> (\<forall>x \<in> set (arr_list a). chunk_basic i x)
    \<Longrightarrow> memSize (dtype_of T (Ns0 i)) \<le> N
    \<Longrightarrow> chunkable_fields T N d r ms fs \<Longrightarrow> chunkable_fields T N d r (m # ms) (FArray a # fs)"

lemma overlay_basic:
  assumes "types_ok T" "overlayable (dtype_of T (Ns0 i))" "i < UA_BUILTIN_TYPES_COUNT"
  shows "0 < memSize (dtype_of T (Ns0 i))" "basic_ok i x \<Longrightarrow> mem_val x = basic_bin x"
proof -
  obtain n where n: "fixed_size i = Some n" "memSize (dtype_of T (Ns0 i)) = n"
    using builtin_entry(1) [OF assms(1,3)] assms(2)
    by (auto simp: builtin_ok_def split: option.splits)
  then show "0 < memSize (dtype_of T (Ns0 i))"
    by (auto simp: fixed_size_def split: if_splits)
  show "mem_val x = basic_bin x" if "basic_ok i x"
    using n(1) that
    by (cases x) (auto simp: basic_bin_def fixed_size_def guid_memory_bin bool_bin_def byte_bin_def split: if_splits)
qed

lemma encode_array_safe:
  assumes "types_ok T" "19 \<le> N" "i < UA_BUILTIN_TYPES_COUNT" "arr_length a \<le> UA_INT32_MAX"
    "\<forall>x \<in> set (arr_list a). chunk_basic i x" "memSize (dtype_of T (Ns0 i)) \<le> N"
  shows "chunk_safe N (encode_array (encode_jump T) T (Ns0 i) a) (array_bin basic_bin a)"
  unfolding encode_array_def
proof (rule array_safe)
  assume o: "overlayable (dtype_of T (Ns0 i))"
  show "0 < memSize (dtype_of T (Ns0 i)) \<and> memSize (dtype_of T (Ns0 i)) \<le> N
      \<and> (\<forall>x\<in>set (arr_list a). mem_val x = basic_bin x)"
    using overlay_basic [OF assms(1) o assms(3)] assms(5,6) by (auto simp: chunk_basic_def)
qed (use assms basic_chunk in auto)

lemma ectx_edepth [simp]:
  "good_script N (c\<lparr>edepth := d\<rparr>) = good_script N c" "script_len (c\<lparr>edepth := d\<rparr>) = script_len c"
  "stream (c\<lparr>edepth := d\<rparr>) = stream c" "live N (c\<lparr>edepth := d\<rparr>) = live N c" "within M (c\<lparr>edepth := d\<rparr>) = within M c"
  by (simp_all add: good_script_def script_len_def stream_def live_def within_def)

lemma writes_edepth:
  "writes N k (c\<lparr>edepth := d\<rparr>) bs c1 \<Longrightarrow> writes N k c bs (c1\<lparr>edepth := edepth c\<rparr>)"
  by (simp add: writes_def extends_def)

text \<open>The members of a structure at depth \<open>d + 1\<close> give the structure at depth \<open>d\<close>.\<close>

lemma internal_at:
  assumes "chunk_at (Suc d) N (encode_members enc T r (members (dtype_of T r)) (fields_of v)) bs"
    and "d \<le> UA_ENCODING_MAX_RECURSION"
  shows "chunk_at d N (encodeBinaryInternal enc T r v) bs"
  unfolding chunk_at_def
proof (intro allI impI)
  fix c :: ectx assume g: "edepth c = d \<and> good_script N c \<and> 2 * length bs \<le> script_len c"
  then obtain c1 where c1: "encode_members enc T r (members (dtype_of T r)) (fields_of v) (c\<lparr>edepth := Suc d\<rparr>) = (GOOD, c1)"
    "writes N (2 * length bs) (c\<lparr>edepth := Suc d\<rparr>) bs c1"
    using assms(1) [unfolded chunk_at_def, rule_format, of "c\<lparr>edepth := Suc d\<rparr>"] by auto
  then have "edepth c1 - 1 = edepth c"
    using writes_depth [OF c1(2)] g by simp
  with c1 writes_edepth [OF c1(2)] g assms(2)
  show "\<exists>c'. encodeBinaryInternal enc T r v c = (GOOD, c') \<and> writes N (2 * length bs) c bs c'"
    by (simp add: encodeBinaryInternal_def)
qed

lemma chunkable_at:
  assumes "types_ok T" "19 \<le> N"
  shows "chunkable T N d r v \<Longrightarrow>
      chunk_retry N (encode_jump T r v) (struct_bin v) \<or> chunk_at d N (encode_jump T r v) (struct_bin v)"
    and "chunkable_fields T N d r ms fs \<Longrightarrow> chunk_at d N (encode_members (encode_jump T) T r ms fs) (concat (map field_bin fs))"
proof (induction rule: chunkable_chunkable_fields.inducts)
  case (basic i v d)
  then have "struct_bin v = basic_bin v" by (cases v) (auto simp: chunk_basic_def)
  with basic_chunk [OF basic assms(2), of T "Ns0 i"] chunk_safe_at show ?case
    by (auto simp: chunk_elem_def)
next
  case (struct d r fs)
  have "encode_jump T r (VStruct fs) = encodeBinaryInternal (encode_jump T) T r (VStruct fs)"
    by (rule ext) simp
  then show ?case
    using internal_at [of d N "encode_jump T" T r "VStruct fs"] struct by (simp add: fields_of_def)
next
  case (none d r)
  then show ?case
    by (auto simp: chunk_at_def writes_def extends_def)
next
  case (scalar d r m v ms fs)
  have "chunk_at d N (\<lambda>c. retry_member (Suc (script_len c)) (memSize (dtype_of T (membertype r m)))
      (encode_jump T (membertype r m) v) c) (struct_bin v)"
    using scalar retry_member_at retry_member_retry chunk_safe_at by blast
  from chunk_at_then [OF this scalar(5)] show ?case
    by (simp add: Let_def split_def del: retry_member.simps)
next
  case (array r m i a d ms fs)
  have "chunk_at d N (encode_array (encode_jump T) T (Ns0 i) a) (array_bin basic_bin a)"
    using array assms by (intro chunk_safe_at encode_array_safe) auto
  from chunk_at_then [OF this array(7)] show ?case
    using array by (simp add: Let_def split_def)
qed

text \<open>The interface function, for a structure or a builtin type.\<close>

lemma UA_encodeBinary_at:
  assumes "types_ok T" "19 \<le> N" "chunkable_fields T N 1 r (members (dtype_of T r)) (fields_of v)"
  shows "chunk_at 0 N (UA_encodeBinary T r v) (concat (map field_bin (fields_of v)))"
proof -
  have "chunk_at 0 N (encodeBinaryInternal (encode_jump T) T r v) (concat (map field_bin (fields_of v)))"
    using chunkable_at(2) [OF assms] by (intro internal_at) simp_all
  moreover have "UA_encodeBinary T r v c = encodeBinaryInternal (encode_jump T) T r v c" if "edepth c = 0" for c :: ectx
    using that by (cases c) (simp add: UA_encodeBinary_def)
  ultimately show ?thesis
    by (simp add: chunk_at_def)
qed

lemma builtin_fields:
  assumes "types_ok T" "chunk_basic i v" "memSize (dtype_of T (Ns0 i)) \<le> N"
  shows "chunkable_fields T N 1 (Ns0 i) (members (dtype_of T (Ns0 i))) (fields_of v)"
proof -
  have i: "i < UA_BUILTIN_TYPES_COUNT" using assms(2) basic_index by (auto simp: chunk_basic_def)
  then have m: "members (dtype_of T (Ns0 i)) = [\<lparr>memberTypeIndex = i, mpadding = 0, namespaceZero = True, misArray = False\<rparr>]"
    using builtin_entry(1) [OF assms(1)] by (simp add: builtin_ok_def)
  have "fields_of v = [FScalar v]"
    using assms(2) by (cases v) (auto simp: chunk_basic_def fields_of_def)
  then show ?thesis
    using assms m by (auto simp: membertype_def intro!: chunkable_chunkable_fields.intros)
qed

subsection \<open>Properties\<close>



end
