(* ===== verification/Secure_Channel_Message.thy ===== *)
theory Secure_Channel_Message
  imports Secure_Channel_Correct Binary_Generic_Chunking
begin

text \<open>
  Whole messages. The list of collected chunks behaves as a map from request identifiers to bytes
  (\<open>store\<close> and \<open>collected\<close>), and a message that was sent in any number of chunks is given to the message callback in
  one piece, however the bytes were cut into packets on the way.
\<close>

subsection \<open>The collected chunks\<close>

definition collected :: "(u32 \<times> u8 list) list \<Rightarrow> u32 \<Rightarrow> u8 list" where
  "collected es i = (case map_of es i of None \<Rightarrow> [] | Some bs \<Rightarrow> bs)"

definition store :: "u32 \<Rightarrow> u8 list \<Rightarrow> (u32 \<times> u8 list) list \<Rightarrow> (u32 \<times> u8 list) list" where
  "store i bs es = (case map_of es i of None \<Rightarrow> (i, bs) # es | Some old \<Rightarrow> set_first i (old @ bs) es)"

lemma map_of_set_first: "map_of (set_first i x es) = (if map_of es i = None then map_of es else (map_of es)(i \<mapsto> x))"
  by (induction i x es rule: set_first.induct) auto

lemma set_first_set_first [simp]: "set_first i x (set_first i y es) = set_first i x es"
  by (induction i y es rule: set_first.induct) auto

lemma remove_first_set_first [simp]: "remove_first i (set_first i x es) = remove_first i es"
  by (induction i x es rule: set_first.induct) auto

lemma remove_first_absent: "map_of es i = None \<Longrightarrow> remove_first i es = es"
  by (induction i es rule: remove_first.induct) (auto split: if_splits)

lemma set_first_keys [simp]: "map fst (set_first i x es) = map fst es"
  by (induction i x es rule: set_first.induct) auto

lemma map_of_remove_first:
  "distinct (map fst es) \<Longrightarrow> map_of (remove_first i es) = (map_of es)(i := None)"
proof (induction i es rule: remove_first.induct)
  case (2 i j bs es)
  then show ?case
    by (auto simp: fun_eq_iff) (metis map_of_eq_None_iff)
qed auto

lemma keys_remove_first: "set (map fst (remove_first i es)) \<subseteq> set (map fst es)"
  by (induction i es rule: remove_first.induct) auto

lemma distinct_remove_first: "distinct (map fst es) \<Longrightarrow> distinct (map fst (remove_first i es))"
  by (induction i es rule: remove_first.induct) (use keys_remove_first in fastforce)+

lemma map_of_store: "map_of (store i bs es) = (map_of es)(i \<mapsto> collected es i @ bs)"
  by (auto simp: store_def collected_def map_of_set_first split: option.splits)

lemma collected_store [simp]: "collected (store i bs es) i = collected es i @ bs"
  by (simp add: collected_def [of "store i bs es"] map_of_store)

lemma store_store: "store i b (store i a es) = store i (a @ b) es"
  by (auto simp: store_def map_of_set_first split: option.splits)

lemma remove_first_store [simp]: "remove_first i (store i b es) = remove_first i es"
  by (auto simp: store_def remove_first_absent split: option.splits)

lemma distinct_store: "distinct (map fst es) \<Longrightarrow> distinct (map fst (store i b es))"
  by (auto simp: store_def map_of_eq_None_iff split: option.splits)

lemma chan_alloc_ok [simp]: "challocs ch = [] \<Longrightarrow> chan_alloc ch = (True, ch)"
  by (simp add: chan_alloc_def)

lemma appendChunk_store:
  assumes "challocs ch = []"
  shows "UA_SecureChannel_appendChunk i bs ch = (GOOD, ch\<lparr>chunks := store i bs (chunks ch)\<rparr>)"
  using assms by (cases "map_of (chunks ch) i")
    (simp_all add: UA_SecureChannel_appendChunk_def appendChunk_def store_def)

lemma finalizeChunk_collected:
  assumes "challocs ch = []"
  shows "UA_SecureChannel_finalizeChunk i bs t cb (ch, a)
    = cb t i (collected (chunks ch) i @ bs) (ch\<lparr>chunks := remove_first i (chunks ch)\<rparr>, a)"
  using assms by (cases "map_of (chunks ch) i")
    (simp_all add: UA_SecureChannel_finalizeChunk_def appendChunk_def collected_def remove_first_absent)

subsection \<open>Chunks on the wire\<close>

lemma nth_take4: "take 4 xs = [a, b, c, d] \<Longrightarrow> xs ! 0 = a \<and> xs ! 1 = b \<and> xs ! 2 = c \<and> xs ! 3 = d \<and> 4 \<le> length xs"
proof -
  assume t: "take 4 xs = [a, b, c, d]"
  then have "length (take 4 xs) = 4" by simp
  moreover have "take 4 xs ! i = xs ! i" if "i < 4" for i using that by simp
  from this [of 0] this [of 1] this [of 2] this [of 3]
  have "xs ! 0 = a" "xs ! 1 = b" "xs ! 2 = c" "xs ! 3 = d" unfolding t by simp_all
  ultimately show ?thesis by simp
qed

lemma type_bytes:
  assumes "t = MESSAGETYPE_MSG \<or> t = MESSAGETYPE_CLO"
  shows "\<exists>b0 b1 b2 b3. UA_encode32 (t + (if f then CHUNKTYPE_FINAL else CHUNKTYPE_INTERMEDIATE)) = [b0, b1, b2, b3]
     \<and> known_type (ucast b0 + push_bit 8 (ucast b1) + push_bit 16 (ucast b2)) \<and> b3 \<in> {0x43, 0x46, 0x41}"
  using assms by (cases f; elim disjE) (simp_all add: UA_encode32_def known_type_def)

lemma frame_header:
  assumes "t = MESSAGETYPE_MSG \<or> t = MESSAGETYPE_CLO"
    and "take 4 buf = UA_encode32 (t + (if f then CHUNKTYPE_FINAL else CHUNKTYPE_INTERMEDIATE))"
    and "take 4 (drop 4 buf) = UA_encode32 (word_of_nat (length buf))"
    and "16 \<le> length buf" and "length buf \<le> unat n"
  shows "header_check buf n = GOOD" "chunk_size buf = length buf"
proof -
  have "length buf < 2 ^ 32"
    using assms(5) unsigned_less [of n, where ?'a = nat] by simp
  then have u: "unat (word_of_nat (length buf) :: u32) = length buf"
    by (simp add: unsigned_of_nat take_bit_nat_eq_self)
  then show c: "chunk_size buf = length buf"
    using assms(3) by (simp add: chunk_size_def)
  have l: "\<not> UA_decode32 (take 4 (drop 4 buf)) < 16" "\<not> UA_decode32 (take 4 (drop 4 buf)) > n"
    using assms(3-5) u by (auto simp: word_less_nat_alt)
  obtain b0 b1 b2 b3 where b: "take 4 buf = [b0, b1, b2, b3]"
    "known_type (ucast b0 + push_bit 8 (ucast b1) + push_bit 16 (ucast b2))" "b3 \<in> {0x43, 0x46, 0x41}"
    using type_bytes [OF assms(1), of f] assms(2) by auto
  show "header_check buf n = GOOD"
    using l b(2,3) nth_take4 [OF b(1)] by (simp add: header_check_def)
qed

lemma frame_loop:
  assumes "t = MESSAGETYPE_MSG \<or> t = MESSAGETYPE_CLO"
    and "take 4 buf = UA_encode32 (t + (if f then CHUNKTYPE_FINAL else CHUNKTYPE_INTERMEDIATE))"
    and "take 4 (drop 4 buf) = UA_encode32 (word_of_nat (length buf))"
    and "16 \<le> length buf" and "length buf \<le> unat (recvBufferSize (localConf (fst w)))"
  shows "processChunks_loop h (buf @ rest) w =
    (case h buf w of (r, w1) \<Rightarrow> if r = GOOD then processChunks_loop h rest w1 else (r, w1))"
proof -
  have "8 \<le> length buf" using assms(4) by simp
  note a = header_append [OF this, of rest]
  have "8 \<le> length (buf @ rest)" using assms(4) by simp
  with frame_header [OF assms] a have "processChunk h (buf @ rest) w
      = (case h buf w of (r, w1) \<Rightarrow> (r, False, rest, w1))"
    by (simp add: processChunk_long)
  then show ?thesis
    by (subst processChunks_loop.simps) (simp split: prod.splits)
qed

lemma sendSymmetricChunk_good:
  assumes "sendSymmetricChunk (mc, ch, c) = Some (GOOD, mc', ch', c')"
  obtains pad buf where "padding_bytes ch (length (body mc)) = Some pad"
    "total_length ch (length (body mc)) (length pad) \<le> bufLength mc"
    "secure_chunk mc (ch\<lparr>sendSequenceNumber := sendSequenceNumber ch + 1\<rparr>) pad = (GOOD, buf)"
    "connection_write buf c = (GOOD, c')" "ch' = ch\<lparr>sendSequenceNumber := sendSequenceNumber ch + 1\<rparr>"
    "mc' = mc\<lparr>messageSizeSoFar := messageSizeSoFar mc + length (body mc), chunksSoFar := chunksSoFar mc + 1, bufLength := 0\<rparr>"
proof -
  let ?mc = "mc\<lparr>messageSizeSoFar := messageSizeSoFar mc + length (body mc), chunksSoFar := chunksSoFar mc + 1\<rparr>"
  let ?ch = "ch\<lparr>sendSequenceNumber := sendSequenceNumber ch + 1\<rparr>"
  have a: "attached ch" "\<not> too_large c ?mc"
    using assms by (auto simp: sendSymmetricChunk_def Let_def split: if_splits)
  obtain pad where pad: "padding_bytes ch (length (body mc)) = Some pad"
    using assms a by (cases "padding_bytes ch (length (body mc))") (auto simp: sendSymmetricChunk_def Let_def)
  obtain r1 buf where buf: "secure_chunk mc ?ch pad = (r1, buf)" by (cases "secure_chunk mc ?ch pad")
  obtain r c1 where c1: "connection_write buf c = (r, c1)" by (cases "connection_write buf c")
  have fits: "total_length ch (length (body mc)) (length pad) \<le> bufLength mc"
    using assms a pad by (auto simp: sendSymmetricChunk_def Let_def not_less split: if_splits)
  have g: "r1 = GOOD" "24 \<le> bufEnd mc"
    using assms a pad fits buf by (auto simp: sendSymmetricChunk_def Let_def split: if_splits)
  with assms a pad fits buf c1 have "r = GOOD" "mc' = releaseSendBuffer ?mc" "ch' = ?ch" "c' = c1"
    by (simp_all add: sendSymmetricChunk_def Let_def)
  with that [OF pad fits] buf c1 g show thesis by (simp add: releaseSendBuffer_def)
qed

text \<open>Sender and receiver are connected: keys that belong together, in step, with buffers that the receiver can take.\<close>

context crypto_pair
begin

definition connected :: "mcontext \<Rightarrow> 'k channel \<Rightarrow> connection \<Rightarrow> 'r channel \<Rightarrow> connection \<Rightarrow> bool" where
  "connected mc ch c rch rc \<longleftrightarrow>
     symmetricModule (securityPolicy ch) = mS \<and> channelContext ch = kS
     \<and> symmetricModule (securityPolicy rch) = mR \<and> channelContext rch = kR
     \<and> in_step ch rch \<and> challocs rch = []
     \<and> (mcMessageType mc = MESSAGETYPE_MSG \<or> mcMessageType mc = MESSAGETYPE_CLO)
     \<and> bufLength mc \<le> unat (recvBufferSize (localConf rc))
     \<and> sendBufferSize (localConf c) \<le> recvBufferSize (localConf rc)"

text \<open>The receiver after a chunk with the sequence number of the sender, before its payload is processed.\<close>

abbreviation (input) after :: "'k channel \<Rightarrow> 'r channel \<Rightarrow> 'r channel" where
  "after ch rch \<equiv> rch\<lparr>receiveSequenceNumber := sendSequenceNumber ch + 1\<rparr>"

lemma chunk_sent:
  assumes con: "connected mc ch c rch rc" and body: "body mc \<noteq> []"
    and send: "sendSymmetricChunk (mc, ch, c) = Some (GOOD, mc', ch', c')"
  obtains buf where "wire c' = wire c @ buf" "localConf c' = localConf c"
    "ch' = ch\<lparr>sendSequenceNumber := sendSequenceNumber ch + 1\<rparr>"
    "mcRequestId mc' = mcRequestId mc" "mcMessageType mc' = mcMessageType mc" "final mc' = final mc" "bufLength mc' = 0"
    "\<And>cb rest (a :: 's). processChunks_loop (processCompleteChunk cb) (buf @ rest) (rc, Some (rch, a)) =
       (case process_payload (mcMessageType mc) (if final mc then CHUNKTYPE_FINAL else CHUNKTYPE_INTERMEDIATE) (mcRequestId mc) (body mc)
               cb (after ch rch, rc, a) of
          (r, ch1, c1, a1) \<Rightarrow>
            if r = GOOD then processChunks_loop (processCompleteChunk cb) rest (c1, Some (ch1, a1))
            else (r, c1, Some (ch1, a1)))"
proof -
  note cs = con [unfolded connected_def]
  obtain pad buf where b: "padding_bytes ch (length (body mc)) = Some pad"
    "total_length ch (length (body mc)) (length pad) \<le> bufLength mc"
    "secure_chunk mc (ch\<lparr>sendSequenceNumber := sendSequenceNumber ch + 1\<rparr>) pad = (GOOD, buf)"
    "connection_write buf c = (GOOD, c')" "ch' = ch\<lparr>sendSequenceNumber := sendSequenceNumber ch + 1\<rparr>"
    "mc' = mc\<lparr>messageSizeSoFar := messageSizeSoFar mc + length (body mc), chunksSoFar := chunksSoFar mc + 1, bufLength := 0\<rparr>"
    using sendSymmetricChunk_good [OF send] .
  obtain buf' where b': "secure_chunk mc (ch\<lparr>sendSequenceNumber := sendSequenceNumber ch + 1\<rparr>) pad = (GOOD, buf')"
    "length buf' = total_length ch (length (body mc)) (length pad)"
    "take 4 buf' = UA_encode32 (mcMessageType mc + (if final mc then CHUNKTYPE_FINAL else CHUNKTYPE_INTERMEDIATE))"
    "take 4 (drop 4 buf') = UA_encode32 (word_of_nat (total_length ch (length (body mc)) (length pad)))"
    "\<And>cb :: ('r, connection \<times> 's) message_callback. \<And>a. UA_SecureChannel_processChunk cb buf' (rch, a) =
        Some (process_payload (mcMessageType mc) (if final mc then CHUNKTYPE_FINAL else CHUNKTYPE_INTERMEDIATE) (mcRequestId mc) (body mc) cb
          (after ch rch, a))"
    using chunk_received [of ch rch mc pad] cs body b(1) by metis
  have len: "16 \<le> length buf'" "length buf' \<le> unat (recvBufferSize (localConf rc))"
    using b'(2) b(2) cs by (auto simp: total_length_def)
  have eq: "buf' = buf" using b(3) b'(1) by simp
  have loop: "processChunks_loop h (buf @ rest) w = (case h buf w of (r, w1) \<Rightarrow> if r = GOOD then processChunks_loop h rest w1 else (r, w1))"
    if "fst w = rc" for h :: "('r channel \<times> 's) option chunk_callback" and rest w
    using frame_loop [of "mcMessageType mc" buf' "final mc" w h rest] cs b'(2-4) len that eq by simp
  show thesis
    by (rule that [of buf])
       (use b connection_write_good [OF b(4)] connection_write_frame [OF b(4)] b'(5) eq loop in
         \<open>auto simp: processCompleteChunk_def split: prod.splits\<close>)
qed

end

subsection \<open>Messages\<close>

lemma getSendBuffer_good:
  assumes "getSendBuffer (mc, ch, c) = (GOOD, mc', ch', c')"
  shows "mc' = setBufPos ch (mc\<lparr>bufLength := unat (sendBufferSize (localConf c))\<rparr>)" "ch' = ch"
    "wire c' = wire c" "localConf c' = localConf c"
  using assms
  by (auto simp: getSendBuffer_def connection_getsendbuffer_def split: if_splits prod.splits dest!: conn_alloc_frame)

text \<open>What the receiver has collected after the given bodies.\<close>

definition put_bodies :: "u32 \<Rightarrow> u8 list list \<Rightarrow> (u32 \<times> u8 list) list \<Rightarrow> (u32 \<times> u8 list) list" where
  "put_bodies i bs es = (if bs = [] then es else store i (concat bs) es)"

lemma put_bodies_simps [simp]:
  "put_bodies i [] es = es" "put_bodies i bs (store i b es) = store i (b @ concat bs) es"
  by (auto simp: put_bodies_def store_store)

lemma put_bodies_collected [simp]:
  "collected (put_bodies i bs es) i = collected es i @ concat bs" "remove_first i (put_bodies i bs es) = remove_first i es"
  by (auto simp: put_bodies_def)

context crypto_pair
begin

abbreviation (input) received :: "'k channel \<Rightarrow> u32 \<Rightarrow> u8 list list \<Rightarrow> 'r channel \<Rightarrow> 'r channel" where
  "received ch' i bs rch \<equiv>
     rch\<lparr>receiveSequenceNumber := sendSequenceNumber ch', chunks := put_bodies i bs (chunks rch)\<rparr>"

lemma buffer_sent:
  assumes con: "connected mc ch c rch rc" and b: "b \<noteq> []" "\<not> final mc"
    and send: "sendSymmetricEncodingCallback b (mc, ch, c) = Some (GOOD, mc', ch', c')"
  obtains buf where "wire c' = wire c @ buf" "localConf c' = localConf c"
    "connected mc' ch' c' (received ch' (mcRequestId mc) [b] rch) rc"
    "mcRequestId mc' = mcRequestId mc" "mcMessageType mc' = mcMessageType mc" "final mc' = final mc"
    "\<And>cb rest (a :: 's). processChunks_loop (processCompleteChunk cb) (buf @ rest) (rc, Some (rch, a)) =
       processChunks_loop (processCompleteChunk cb) rest (rc, Some (received ch' (mcRequestId mc) [b] rch, a))"
proof -
  obtain mc1 ch1 c1 where s: "sendSymmetricChunk (mc\<lparr>body := b\<rparr>, ch, c) = Some (GOOD, mc1, ch1, c1)"
    "getSendBuffer (mc1, ch1, c1) = (GOOD, mc', ch', c')"
    using send by (auto simp: sendSymmetricEncodingCallback_def split: option.splits if_splits)
  note g = getSendBuffer_good [OF s(2)]
  have con1: "connected (mc\<lparr>body := b\<rparr>) ch c rch rc" using con by (simp add: connected_def)
  have b1: "body (mc\<lparr>body := b\<rparr>) \<noteq> []" using b by simp
  obtain buf where buf: "wire c1 = wire c @ buf" "localConf c1 = localConf c"
    "ch1 = ch\<lparr>sendSequenceNumber := sendSequenceNumber ch + 1\<rparr>"
    "mcRequestId mc1 = mcRequestId mc" "mcMessageType mc1 = mcMessageType mc" "final mc1 = final mc" "bufLength mc1 = 0"
    "\<And>cb rest (a :: 's). processChunks_loop (processCompleteChunk cb) (buf @ rest) (rc, Some (rch, a)) =
       (case process_payload (mcMessageType mc) CHUNKTYPE_INTERMEDIATE (mcRequestId mc) b cb (after ch rch, rc, a) of
          (r, ch1, c1, a1) \<Rightarrow>
            if r = GOOD then processChunks_loop (processCompleteChunk cb) rest (c1, Some (ch1, a1))
            else (r, c1, Some (ch1, a1)))"
    using chunk_sent [OF con1 b1 s(1), where ?'s = 's] b(2) by auto
  have "challocs rch = []" using con by (simp add: connected_def)
  then have p: "process_payload (mcMessageType mc) CHUNKTYPE_INTERMEDIATE (mcRequestId mc) b cb (after ch rch, rc, a)
      = (GOOD, received ch' (mcRequestId mc) [b] rch, rc, a)" for cb :: "('r, connection \<times> 's) message_callback" and a
    using buf(3) g(2) by (simp add: process_payload_def appendChunk_store put_bodies_def)
  show thesis
  proof (rule that [of buf])
    show "connected mc' ch' c' (received ch' (mcRequestId mc) [b] rch) rc"
      using con buf(2-5) g by (auto simp: connected_def in_step_def setBufPos_def encrypted_def word_le_nat_alt)
  qed (use buf g p in \<open>auto simp: setBufPos_def\<close>)
qed

lemma received_received:
  "received ch2 i bs (received ch1 i [b] rch) = received ch2 i (b # bs) rch"
  by (cases bs) (simp_all add: put_bodies_def store_store)

lemma buffers_sent:
  assumes "connected mc ch c rch rc" and "list_all (\<lambda>b. b \<noteq> []) bs" and "\<not> final mc"
    and "send_buffers bs (mc, ch, c) = Some (GOOD, mc', ch', c')"
  shows "\<exists>buf. wire c' = wire c @ buf \<and> localConf c' = localConf c
    \<and> connected mc' ch' c' (received ch' (mcRequestId mc) bs rch) rc
    \<and> mcRequestId mc' = mcRequestId mc \<and> mcMessageType mc' = mcMessageType mc \<and> \<not> final mc'
    \<and> (\<forall>cb rest (a :: 's). processChunks_loop (processCompleteChunk cb) (buf @ rest) (rc, Some (rch, a)) =
         processChunks_loop (processCompleteChunk cb) rest (rc, Some (received ch' (mcRequestId mc) bs rch, a)))"
  using assms
proof (induction bs arbitrary: mc ch c rch)
  case Nil
  then have "rch\<lparr>receiveSequenceNumber := sendSequenceNumber ch'\<rparr> = rch"
    by (cases rch) (auto simp: connected_def in_step_def)
  with Nil show ?case by (auto intro!: exI [of _ "[]"])
next
  case (Cons b bs)
  obtain mc1 ch1 c1 where s: "sendSymmetricEncodingCallback b (mc, ch, c) = Some (GOOD, mc1, ch1, c1)"
    "send_buffers bs (mc1, ch1, c1) = Some (GOOD, mc', ch', c')"
    using Cons.prems(4) by (auto split: option.splits if_splits prod.splits)
  have b: "b \<noteq> []" using Cons.prems(2) by simp
  let ?r = "received ch1 (mcRequestId mc) [b] rch"
  obtain buf where buf: "wire c1 = wire c @ buf" "localConf c1 = localConf c" "connected mc1 ch1 c1 ?r rc"
    "mcRequestId mc1 = mcRequestId mc" "mcMessageType mc1 = mcMessageType mc" "final mc1 = final mc"
    "\<And>cb rest (a :: 's). processChunks_loop (processCompleteChunk cb) (buf @ rest) (rc, Some (rch, a)) =
       processChunks_loop (processCompleteChunk cb) rest (rc, Some (?r, a))"
    using buffer_sent [OF Cons.prems(1) b Cons.prems(3) s(1), where ?'s = 's] by metis
  have l: "list_all (\<lambda>b. b \<noteq> []) bs" and f: "\<not> final mc1" using Cons.prems buf(6) by auto
  note ih = Cons.IH [OF buf(3) l f s(2)]
  from ih obtain buf2 where buf2: "wire c' = wire c1 @ buf2" "localConf c' = localConf c1"
    "connected mc' ch' c' (received ch' (mcRequestId mc) (b # bs) rch) rc"
    "mcRequestId mc' = mcRequestId mc1" "mcMessageType mc' = mcMessageType mc1" "\<not> final mc'"
    "\<And>cb rest (a :: 's). processChunks_loop (processCompleteChunk cb) (buf2 @ rest) (rc, Some (?r, a)) =
       processChunks_loop (processCompleteChunk cb) rest (rc, Some (received ch' (mcRequestId mc) (b # bs) rch, a))"
    unfolding buf(4) received_received by blast
  then show ?case
    using buf by (intro exI [of _ "buf @ buf2"]) auto
qed

text \<open>One run of the encoder: its sent buffers reach the receiver, the rest is the body of the context.\<close>

lemma encode_sent:
  assumes con: "connected mc ch c rch rc" and f: "\<not> final mc"
    and enc: "UA_MessageContext_encode k enc (mc, ch, c) = Some (GOOD, mc', ch', c')"
    and at: "chunk_at 0 N enc bs" "2 * length bs \<le> k" "N \<le> fresh_room ch c" "bs \<noteq> []"
      "body mc = [] \<Longrightarrow> int N \<le> bufEnd mc - 24"
  shows "\<exists>buf bodies. wire c' = wire c @ buf \<and> localConf c' = localConf c
    \<and> connected mc' ch' c' (received ch' (mcRequestId mc) bodies rch) rc
    \<and> mcRequestId mc' = mcRequestId mc \<and> mcMessageType mc' = mcMessageType mc \<and> \<not> final mc'
    \<and> concat bodies @ body mc' = body mc @ bs \<and> body mc' \<noteq> []
    \<and> (\<forall>cb rest (a :: 's). processChunks_loop (processCompleteChunk cb) (buf @ rest) (rc, Some (rch, a)) =
         processChunks_loop (processCompleteChunk cb) rest (rc, Some (received ch' (mcRequestId mc) bodies rch, a)))"
proof -
  define e0 where "e0 = \<lparr>eout = body mc, eroom = nat (bufEnd mc - 24 - int (length (body mc))), edepth = 0, esent = [],
    escript = Some (replicate k (GOOD, fresh_room ch c))\<rparr>"
  have e0: "edepth e0 = 0" "good_script N e0" "script_len e0 = k" "stream e0 = body mc" "live N e0"
    using at(3,5) by (auto simp: e0_def good_script_def script_len_def stream_def live_def list_all_iff)
  then obtain e where e: "enc e0 = (GOOD, e)" "writes N (2 * length bs) e0 bs e"
    using at(1,2) by (auto simp: chunk_at_def)
  then have l: "list_all (\<lambda>b. b \<noteq> []) (esent e)" "eout e \<noteq> []" "concat (esent e) @ eout e = body mc @ bs"
    using e0 at(4) by (auto simp: writes_def extends_def live_def stream_def)
  obtain mc1 where s: "send_buffers (esent e) (mc, ch, c) = Some (GOOD, mc1, ch', c')" "mc' = mc1\<lparr>body := eout e\<rparr>"
    using enc e(1) by (auto simp: UA_MessageContext_encode_def e0_def [symmetric] Let_def split: if_splits option.splits prod.splits)
  from buffers_sent [OF con l(1) f s(1), where ?'s = 's] obtain buf where "wire c' = wire c @ buf" "localConf c' = localConf c"
    "connected mc1 ch' c' (received ch' (mcRequestId mc) (esent e) rch) rc"
    "mcRequestId mc1 = mcRequestId mc" "mcMessageType mc1 = mcMessageType mc" "\<not> final mc1"
    "\<forall>cb rest (a :: 's). processChunks_loop (processCompleteChunk cb) (buf @ rest) (rc, Some (rch, a)) =
       processChunks_loop (processCompleteChunk cb) rest (rc, Some (received ch' (mcRequestId mc) (esent e) rch, a))"
    by blast
  with l s(2) show ?thesis
    by (intro exI [of _ buf] exI [of _ "esent e"]) (auto simp: connected_def)
qed

lemma connected_room:
  assumes "connected mc ch c rch rc" "connected mc' ch' c' rch' rc" "localConf c' = localConf c" "securityMode rch' = securityMode rch"
  shows "fresh_room ch' c' = fresh_room ch c"
  using assms by (simp add: connected_def in_step_def fresh_room_def signed_def encrypted_def local_sigsize_def)

lemma begin_connected:
  assumes "UA_MessageContext_begin i t (ch, c) = (GOOD, mc, ch1, c1)"
    and "symmetricModule (securityPolicy ch) = mS" "channelContext ch = kS"
    and "symmetricModule (securityPolicy rch) = mR" "channelContext rch = kR"
    and "in_step ch rch" "challocs rch = []" "sendBufferSize (localConf c) \<le> recvBufferSize (localConf rc)"
  shows "connected mc ch1 c1 rch rc" "ch1 = ch" "wire c1 = wire c" "localConf c1 = localConf c"
    "body mc = []" "\<not> final mc" "mcRequestId mc = i" "mcMessageType mc = t" "bufEnd mc - 24 \<le> int (fresh_room ch c)"
    "0 < fresh_room ch c \<Longrightarrow> bufEnd mc - 24 = int (fresh_room ch c)"
proof -
  from assms(1) have t: "t = MESSAGETYPE_MSG \<or> t = MESSAGETYPE_CLO"
    and g: "getSendBuffer (\<lparr>mcRequestId = i, mcMessageType = t, chunksSoFar = 0, messageSizeSoFar = 0,
        bufLength = 0, body = [], bufEnd = 0, final = False\<rparr>, ch, c) = (GOOD, mc, ch1, c1)"
    by (auto simp: UA_MessageContext_begin_def Let_def split: if_splits)
  note g = getSendBuffer_good [OF g]
  show "connected mc ch1 c1 rch rc"
    using t g assms(2-8) by (auto simp: connected_def setBufPos_def word_le_nat_alt)
  show "ch1 = ch" "wire c1 = wire c" "localConf c1 = localConf c"
    "body mc = []" "\<not> final mc" "mcRequestId mc = i" "mcMessageType mc = t" "bufEnd mc - 24 \<le> int (fresh_room ch c)"
    "0 < fresh_room ch c \<Longrightarrow> bufEnd mc - 24 = int (fresh_room ch c)"
    using g by (auto simp: setBufPos_def fresh_room_def)
qed

lemma finish_sent:
  assumes con: "connected mc ch c rch rc" and body: "body mc \<noteq> []"
    and send: "UA_MessageContext_finish (mc, ch, c) = Some (GOOD, mc', ch', c')"
  shows "\<exists>buf. wire c' = wire c @ buf
    \<and> (\<forall>cb rest (a :: 's). processChunks_loop (processCompleteChunk cb) (buf @ rest) (rc, Some (rch, a)) =
         (case cb (mcMessageType mc) (mcRequestId mc) (collected (chunks rch) (mcRequestId mc) @ body mc)
             (rch\<lparr>receiveSequenceNumber := sendSequenceNumber ch', chunks := remove_first (mcRequestId mc) (chunks rch)\<rparr>, rc, a) of
            (r, ch1, c1, a1) \<Rightarrow>
              if r = GOOD then processChunks_loop (processCompleteChunk cb) rest (c1, Some (ch1, a1))
              else (r, c1, Some (ch1, a1))))"
proof -
  have con1: "connected (mc\<lparr>final := True\<rparr>) ch c rch rc" and b1: "body (mc\<lparr>final := True\<rparr>) \<noteq> []"
    using con body by (simp_all add: connected_def)
  have s: "sendSymmetricChunk (mc\<lparr>final := True\<rparr>, ch, c) = Some (GOOD, mc', ch', c')"
    using send by (simp add: UA_MessageContext_finish_def)
  obtain buf where buf: "wire c' = wire c @ buf" "ch' = ch\<lparr>sendSequenceNumber := sendSequenceNumber ch + 1\<rparr>"
    "\<And>cb rest (a :: 's). processChunks_loop (processCompleteChunk cb) (buf @ rest) (rc, Some (rch, a)) =
       (case process_payload (mcMessageType mc) CHUNKTYPE_FINAL (mcRequestId mc) (body mc) cb (after ch rch, rc, a) of
          (r, ch1, c1, a1) \<Rightarrow>
            if r = GOOD then processChunks_loop (processCompleteChunk cb) rest (c1, Some (ch1, a1))
            else (r, c1, Some (ch1, a1)))"
    using chunk_sent [OF con1 b1 s, where ?'s = 's] by auto
  have "challocs rch = []" using con by (simp add: connected_def)
  then have "process_payload (mcMessageType mc) CHUNKTYPE_FINAL (mcRequestId mc) (body mc) cb (after ch rch, rc, a)
      = cb (mcMessageType mc) (mcRequestId mc) (collected (chunks rch) (mcRequestId mc) @ body mc)
          (rch\<lparr>receiveSequenceNumber := sendSequenceNumber ch', chunks := remove_first (mcRequestId mc) (chunks rch)\<rparr>, rc, a)"
    for cb :: "('r, connection \<times> 's) message_callback" and a
    using buf(2) by (simp add: process_payload_def finalizeChunk_collected)
  with buf show ?thesis by auto
qed

text \<open>A whole message: it reaches the message callback of the receiver in one piece.\<close>

lemma message_sent:
  assumes send: "UA_SecureChannel_sendSymmetricMessage T k i t payload ty (ch, c) = Some (GOOD, ch', c')"
    and link: "symmetricModule (securityPolicy ch) = mS" "channelContext ch = kS"
      "symmetricModule (securityPolicy rch) = mR" "channelContext rch = kR"
      "in_step ch rch" "challocs rch = []" "sendBufferSize (localConf c) \<le> recvBufferSize (localConf rc)"
    and N: "N \<le> fresh_room ch c" "0 < N"
    and typeId: "chunk_at 0 N (UA_encodeBinary T (Ns0 UA_TYPES_NODEID)
      (VNodeId \<lparr>namespaceIndex = 0, nident = Numeric (ucast (binaryEncodingId (dtype_of T ty)))\<rparr>)) ib" "2 * length ib \<le> k" "ib \<noteq> []"
    and content: "chunk_at 0 N (UA_encodeBinary T ty payload) bs" "2 * length bs \<le> k" "bs \<noteq> []"
  shows "\<exists>buf. wire c' = wire c @ buf
    \<and> (\<forall>cb rest (a :: 's). processChunks_loop (processCompleteChunk cb) (buf @ rest) (rc, Some (rch, a)) =
         (case cb t i (collected (chunks rch) i @ ib @ bs)
             (rch\<lparr>receiveSequenceNumber := sendSequenceNumber ch', chunks := remove_first i (chunks rch)\<rparr>, rc, a) of
            (r, ch1, c1, a1) \<Rightarrow>
              if r = GOOD then processChunks_loop (processCompleteChunk cb) rest (c1, Some (ch1, a1))
              else (r, c1, Some (ch1, a1))))"
proof -
  let ?id = "VNodeId \<lparr>namespaceIndex = 0, nident = Numeric (ucast (binaryEncodingId (dtype_of T ty)))\<rparr>"
  obtain mc0 ch0 c0 mc1 ch1 c1 mc2 ch2 c2 mc3 where
    b: "UA_MessageContext_begin i t (ch, c) = (GOOD, mc0, ch0, c0)" and
    e1: "UA_MessageContext_encode k (UA_encodeBinary T (Ns0 UA_TYPES_NODEID) ?id) (mc0, ch0, c0) = Some (GOOD, mc1, ch1, c1)" and
    e2: "UA_MessageContext_encode k (UA_encodeBinary T ty payload) (mc1, ch1, c1) = Some (GOOD, mc2, ch2, c2)" and
    f: "UA_MessageContext_finish (mc2, ch2, c2) = Some (GOOD, mc3, ch', c')"
    using send by (auto simp: UA_SecureChannel_sendSymmetricMessage_def Let_def split: if_splits prod.splits option.splits)
  note B = begin_connected [OF b link]
  have room: "int N \<le> bufEnd mc0 - 24" using N B(10) by simp
  have N1: "N \<le> fresh_room ch0 c0" using N(1) B(2,4) by (simp add: fresh_room_def)
  obtain buf1 bodies1 where s1: "wire c1 = wire c0 @ buf1" "localConf c1 = localConf c0"
    "connected mc1 ch1 c1 (received ch1 i bodies1 rch) rc"
    "mcRequestId mc1 = i" "mcMessageType mc1 = t" "\<not> final mc1" "concat bodies1 @ body mc1 = ib" "body mc1 \<noteq> []"
    "\<forall>cb rest (a :: 's). processChunks_loop (processCompleteChunk cb) (buf1 @ rest) (rc, Some (rch, a)) =
         processChunks_loop (processCompleteChunk cb) rest (rc, Some (received ch1 i bodies1 rch, a))"
    using encode_sent [OF B(1,6) e1 typeId(1,2) N1 typeId(3), where ?'s = 's] room B by auto
  have N2: "N \<le> fresh_room ch1 c1"
    using connected_room [OF B(1) s1(3,2)] N1 by simp
  obtain buf2 bodies2 where s2: "wire c2 = wire c1 @ buf2"
    "connected mc2 ch2 c2 (received ch2 i bodies2 (received ch1 i bodies1 rch)) rc"
    "mcRequestId mc2 = i" "mcMessageType mc2 = t" "concat bodies2 @ body mc2 = body mc1 @ bs" "body mc2 \<noteq> []"
    "\<forall>cb rest (a :: 's). processChunks_loop (processCompleteChunk cb) (buf2 @ rest) (rc, Some (received ch1 i bodies1 rch, a)) =
         processChunks_loop (processCompleteChunk cb) rest (rc, Some (received ch2 i bodies2 (received ch1 i bodies1 rch), a))"
    using encode_sent [OF s1(3,6) e2 content(1,2) N2 content(3), where ?'s = 's] s1(4,5,8) by auto
  obtain buf3 where s3: "wire c' = wire c2 @ buf3"
    "\<forall>cb rest (a :: 's). processChunks_loop (processCompleteChunk cb) (buf3 @ rest) (rc, Some (received ch2 i bodies2 (received ch1 i bodies1 rch), a)) =
         (case cb t i (collected (chunks rch) i @ concat bodies1 @ concat bodies2 @ body mc2)
             (rch\<lparr>receiveSequenceNumber := sendSequenceNumber ch', chunks := remove_first i (chunks rch)\<rparr>, rc, a) of
            (r, ch1, c1, a1) \<Rightarrow>
              if r = GOOD then processChunks_loop (processCompleteChunk cb) rest (c1, Some (ch1, a1))
              else (r, c1, Some (ch1, a1)))"
    using finish_sent [OF s2(2,6) f, where ?'s = 's] s2(3,4) by auto
  have "concat bodies1 @ concat bodies2 @ body mc2 = ib @ bs"
    using s1(7) s2(5) by (metis append.assoc)
  then show ?thesis
    using s1(1,9) s2(1,7) s3 B(3) by (intro exI [of _ "buf1 @ buf2 @ buf3"]) simp
qed

end

subsection \<open>Message callbacks\<close>

text \<open>
  What the layers below rely on in a function for complete messages: it may send over the connection, but it leaves the bytes that
  were received alone. Then the handler of chunks has the laws of \<open>memory_handler\<close>.
\<close>

locale message_handler =
  fixes cb :: "('k, connection \<times> 's) message_callback"
  assumes keeps_stored: "cb t i bs (ch, c, a) = (r, ch', c', a') \<Longrightarrow> incompleteMessage c' = incompleteMessage c"
    and keeps_allocs: "cb t i bs (ch, c, a) = (r, ch', c', a') \<Longrightarrow> callocs c = [] \<Longrightarrow> callocs c' = []"
begin

lemma payload_frame:
  assumes "process_payload t ct i bs cb (ch, c, a) = (r, ch', c', a')"
  shows "incompleteMessage c' = incompleteMessage c" "callocs c = [] \<Longrightarrow> callocs c' = []"
  using assms keeps_stored keeps_allocs
  by (auto simp: process_payload_def UA_SecureChannel_finalizeChunk_def split: if_splits option.splits prod.splits)

lemma secured_frame:
  assumes "process_secured m isOpn t ct chunk offset cb (ch, c, a) = Some (r, ch', c', a')"
  shows "incompleteMessage c' = incompleteMessage c \<and> (callocs c = [] \<longrightarrow> callocs c' = [])"
proof -
  obtain d where d: "decryptChunk m isOpn chunk offset ch = Some d"
    using assms by (auto simp: process_secured_def split: option.splits)
  show ?thesis
  proof (cases d)
    case (Inl e)
    with assms d show ?thesis by (auto simp: process_secured_def)
  next
    case (Inr p)
    obtain q n bs where p: "p = (q, n, bs)" by (cases p)
    with assms d Inr payload_frame show ?thesis
      by (fastforce simp: process_secured_def split: if_splits prod.splits)
  qed
qed

lemma processChunk_frame:
  assumes "UA_SecureChannel_processChunk cb chunk (ch, c, a) = Some (r, ch', c', a')"
  shows "incompleteMessage c' = incompleteMessage c \<and> (callocs c = [] \<longrightarrow> callocs c' = [])"
  using assms secured_frame keeps_stored keeps_allocs
  by (auto simp: UA_SecureChannel_processChunk_def Let_def split: if_splits prod.splits)

end

sublocale message_handler \<subseteq> chunks: memory_handler "processCompleteChunk cb"
  by unfold_locales (auto simp: processCompleteChunk_def split: option.splits prod.splits dest: processChunk_frame)

text \<open>The messages in the order in which they are completed.\<close>

definition collect :: "('k, connection \<times> (u32 \<times> u32 \<times> u8 list) list) message_callback" where
  "collect t i bs w = (case w of (ch, c, msgs) \<Rightarrow> (GOOD, ch, c, msgs @ [(t, i, bs)]))"

interpretation collect: message_handler collect
  by unfold_locales (auto simp: collect_def)

end
