(* ===== verification/Security_Policy_None.thy ===== *)
theory Security_Policy_None
  imports Secure_Channel_Correct
begin

text \<open>
  The security policy "None" (src/plugins/ua_securitypolicy_none.c): nothing is signed or encrypted, all lengths are zero. It
  satisfies the laws \<open>crypto_pair\<close>. Its channel context is unused, so the unit type. The other
  policies of the program call the mbedTLS library, which is not part of the sources; they are instances of the record
  \<open>policy\<close> that are not written out.
\<close>

definition verify_none :: "unit \<Rightarrow> u8 list \<Rightarrow> u8 list \<Rightarrow> status" where
  "verify_none k message signature = GOOD"

definition sign_none :: "unit \<Rightarrow> u8 list \<Rightarrow> status \<times> u8 list" where
  "sign_none k message = (GOOD, [])"

definition length_none :: "unit \<Rightarrow> nat" where
  "length_none k = 0"

definition encrypt_none :: "unit \<Rightarrow> u8 list \<Rightarrow> status \<times> u8 list" where
  "encrypt_none k data = (GOOD, data)"

definition decrypt_none :: "unit \<Rightarrow> u8 list \<Rightarrow> status \<times> u8 list \<times> nat" where
  "decrypt_none k data = (GOOD, data, length data)"

definition makeThumbprint_none :: "ustring \<Rightarrow> status \<times> u8 list" where
  "makeThumbprint_none certificate = (GOOD, replicate 20 0)"

definition compareThumbprint_none :: "ustring \<Rightarrow> status" where
  "compareThumbprint_none certificateThumbprint = GOOD"

text \<open>The output buffer is left as it is; its length is zero.\<close>

definition generateKey_none :: "ustring \<Rightarrow> ustring \<Rightarrow> nat \<Rightarrow> status \<times> u8 list" where
  "generateKey_none secret seed n = (GOOD, [])"

text \<open>The nonce takes four bytes of each random number, and of a last one the rest (\<open>rands\<close> are the numbers of the generator).\<close>

fun nonce_bytes :: "u32 list \<Rightarrow> nat \<Rightarrow> u8 list" where
  "nonce_bytes [] n = replicate n 0"
| "nonce_bytes (r # rs) n = (if 3 < n then UA_encode32 r @ nonce_bytes rs (n - 4) else take n (UA_encode32 r))"

definition generateNonce_none :: "u32 list \<Rightarrow> nat \<Rightarrow> status \<times> u8 list" where
  "generateNonce_none rands n = (GOOD, nonce_bytes rands n)"

lemma length_nonce_bytes: "length (nonce_bytes rands n) = n"
  by (induction rands n rule: nonce_bytes.induct) (auto simp: not_less)

definition newContext_none :: "ustring \<Rightarrow> status \<times> unit" where
  "newContext_none certificate = (GOOD, ())"

definition setContextValue_none :: "unit \<Rightarrow> u8 list \<Rightarrow> status \<times> unit" where
  "setContextValue_none k key = (GOOD, k)"

definition crypto_none :: "unit crypto" where
  "crypto_none =
     \<lparr>verify = verify_none, sign = sign_none, getLocalSignatureSize = length_none, getRemoteSignatureSize = length_none,
      signatureLocalKeyLength = length_none, signatureRemoteKeyLength = length_none,
      encrypt = encrypt_none, decrypt = decrypt_none,
      encryptionLocalKeyLength = length_none, encryptionRemoteKeyLength = length_none,
      getLocalBlockSize = length_none, getRemoteBlockSize = length_none, getRemotePlainTextBlockSize = length_none\<rparr>"

definition UA_SecurityPolicy_None :: "(ustring \<Rightarrow> status) option \<Rightarrow> ustring \<Rightarrow> unit policy" where
  "UA_SecurityPolicy_None certificateVerification certificate =
     \<lparr>policyUri = UA_SECURITY_POLICY_NONE_URI, localCertificate = certificate,
      verifyCertificate = certificateVerification,
      makeCertificateThumbprint = makeThumbprint_none, compareCertificateThumbprint = compareThumbprint_none,
      asymmetricModule = crypto_none, symmetricModule = crypto_none, certificateSigningAlgorithm = crypto_none,
      generateKey = generateKey_none, secureChannelNonceLength = 0, newContext = newContext_none,
      setLocalSymSigningKey = setContextValue_none, setLocalSymEncryptingKey = setContextValue_none,
      setLocalSymIv = setContextValue_none, setRemoteSymSigningKey = setContextValue_none,
      setRemoteSymEncryptingKey = setContextValue_none, setRemoteSymIv = setContextValue_none\<rparr>"

lemmas none_defs = crypto_none_def verify_none_def sign_none_def length_none_def encrypt_none_def decrypt_none_def

lemma crypto_none_simps [simp]:
  "getLocalSignatureSize crypto_none k = 0" "getRemoteSignatureSize crypto_none k = 0" "getLocalBlockSize crypto_none k = 0"
  "symmetricModule (UA_SecurityPolicy_None v cert) = crypto_none" "asymmetricModule (UA_SecurityPolicy_None v cert) = crypto_none"
  by (simp_all add: none_defs UA_SecurityPolicy_None_def)

interpretation none: crypto_pair crypto_none k crypto_none k' for k k'
  by unfold_locales (simp_all add: none_defs)

text \<open>With this policy new keys change nothing, so that a token can always be renewed.\<close>

lemma generateNewKeys_none:
  "securityPolicy ch = UA_SecurityPolicy_None v cert \<Longrightarrow> UA_SecureChannel_generateNewKeys ch = (GOOD, ch)"
  by (simp add: UA_SecureChannel_generateNewKeys_def UA_SecureChannel_generateLocalKeys_def
      UA_SecureChannel_generateRemoteKeys_def UA_SecurityPolicy_None_def generateKey_none_def set_keys_def
      setContextValue_none_def Let_def)

end
