(* ===== verification/Secure_Channel_Progress.thy ===== *)
theory Secure_Channel_Progress
  imports Secure_Channel_Message Security_Policy_None
begin

text \<open>
  Sending succeeds: on an open connection with memory, without message limits and in the modes without encryption, every
  message is sent. In the encrypting mode this does not hold, since the room for the padding is not kept free
  (\<open>full_chunk_overflows\<close>).
\<close>

definition open_conn :: "connection \<Rightarrow> bool" where
  "open_conn c \<longleftrightarrow> cstate c \<noteq> CONNECTION_CLOSED \<and> sock c = [] \<and> callocs c = []
     \<and> maxMessageSize (remoteConf c) = 0 \<and> maxChunkCount (remoteConf c) = 0
     \<and> sendBufferSize (localConf c) \<le> recvBufferSize (remoteConf c)"

lemma open_write:
  "open_conn c \<Longrightarrow> connection_write buf c = (GOOD, c\<lparr>wire := wire c @ buf\<rparr>)"
  by (cases c) (simp add: open_conn_def connection_write_def)

lemma open_getSendBuffer:
  "open_conn c \<Longrightarrow> getSendBuffer (mc, ch, c) = (GOOD, setBufPos ch (mc\<lparr>bufLength := unat (sendBufferSize (localConf c))\<rparr>), ch, c)"
  by (simp add: open_conn_def getSendBuffer_def connection_getsendbuffer_def word_le_nat_alt not_less)

lemma open_wire: "open_conn (c\<lparr>wire := w\<rparr>) = open_conn c"
  by (simp add: open_conn_def)

text \<open>A sender whose buffer can take a body of the fresh room.\<close>

definition ready :: "mcontext \<Rightarrow> 'k channel \<Rightarrow> connection \<Rightarrow> bool" where
  "ready mc ch c \<longleftrightarrow> open_conn c \<and> attached ch \<and> \<not> encrypted ch
     \<and> bufEnd mc = int (fresh_room ch c) + 24
     \<and> bufLength mc = unat (sendBufferSize (localConf c))
     \<and> unat (sendBufferSize (localConf c)) = fresh_room ch c + 24 + (if signed ch then local_sigsize ch else 0)"

lemma sequence_frame [simp]:
  "fresh_room (ch\<lparr>sendSequenceNumber := n\<rparr>) (c\<lparr>wire := w\<rparr>) = fresh_room ch c"
  "local_sigsize (ch\<lparr>sendSequenceNumber := n\<rparr>) = local_sigsize ch"
  "Secure_Channel.signed (ch\<lparr>sendSequenceNumber := n\<rparr>) = Secure_Channel.signed ch"
  "encrypted (ch\<lparr>sendSequenceNumber := n\<rparr>) = encrypted ch"
  by (simp_all add: fresh_room_def signed_def encrypted_def local_sigsize_def)

lemma fresh_room_size:
  assumes "0 < fresh_room ch c" "\<not> encrypted ch"
  shows "unat (sendBufferSize (localConf c)) = fresh_room ch c + 24 + (if signed ch then local_sigsize ch else 0)"
proof -
  define x where "x = unat (sendBufferSize (localConf c))"
  show ?thesis
    using assms unfolding fresh_room_def x_def [symmetric] by auto
qed

context crypto_pair
begin

lemma chunk_goes:
  assumes r: "ready mc ch c" and m: "symmetricModule (securityPolicy ch) = mS" "channelContext ch = kS"
    and b: "length (body mc) \<le> fresh_room ch c"
  shows "\<exists>buf. sendSymmetricChunk (mc, ch, c) = Some (GOOD,
    mc\<lparr>messageSizeSoFar := messageSizeSoFar mc + length (body mc), chunksSoFar := chunksSoFar mc + 1, bufLength := 0\<rparr>,
    ch\<lparr>sendSequenceNumber := sendSequenceNumber ch + 1\<rparr>, c\<lparr>wire := wire c @ buf\<rparr>)"
proof -
  let ?ch = "ch\<lparr>sendSequenceNumber := sendSequenceNumber ch + 1\<rparr>"
  have e: "\<not> encrypted ?ch" "encrypted ?ch \<Longrightarrow> P" for P
    using r by (simp_all add: ready_def encrypted_def)
  have m1: "symmetricModule (securityPolicy ?ch) = mS" "channelContext ?ch = kS" using m by simp_all
  obtain buf where buf: "secure_chunk mc ?ch [] = (GOOD, buf)"
    using secure_chunk_ok [OF m1 e(2), of mc "[]"] by metis
  have "total_length ch (length (body mc)) 0 \<le> bufLength mc"
    using r b by (simp add: ready_def total_length_def)
  moreover have "padding_bytes ch (length (body mc)) = Some []"
    using r by (simp add: ready_def padding_bytes_def)
  moreover have "\<not> too_large c mc1" for mc1
    using r by (simp add: ready_def open_conn_def too_large_def)
  moreover have "connection_write buf c = (GOOD, c\<lparr>wire := wire c @ buf\<rparr>)" "24 \<le> bufEnd mc" "attached ch"
    using r open_write by (auto simp: ready_def)
  ultimately show ?thesis
    using buf by (intro exI [of _ buf]) (simp add: sendSymmetricChunk_def releaseSendBuffer_def)
qed

lemma ready_next:
  assumes "ready mc ch c" and "ch1 = ch\<lparr>sendSequenceNumber := n\<rparr>"
  shows "ready (setBufPos ch1 (mc1\<lparr>bufLength := unat (sendBufferSize (localConf c))\<rparr>)) ch1 (c\<lparr>wire := w\<rparr>)"
  using assms
  by (simp add: ready_def open_wire setBufPos_def)

lemma buffers_go:
  assumes "ready mc ch c" and "symmetricModule (securityPolicy ch) = mS" "channelContext ch = kS"
    and "list_all (\<lambda>b. length b \<le> fresh_room ch c) bs"
  shows "\<exists>mc' n w. send_buffers bs (mc, ch, c) = Some (GOOD, mc', ch\<lparr>sendSequenceNumber := n\<rparr>, c\<lparr>wire := w\<rparr>)
    \<and> ready mc' (ch\<lparr>sendSequenceNumber := n\<rparr>) (c\<lparr>wire := w\<rparr>)"
  using assms
proof (induction bs arbitrary: mc ch c)
  case Nil
  then show ?case
    by (intro exI [of _ mc] exI [of _ "sendSequenceNumber ch"] exI [of _ "wire c"]) simp
next
  case (Cons b bs)
  let ?ch = "ch\<lparr>sendSequenceNumber := sendSequenceNumber ch + 1\<rparr>"
  have "ready (mc\<lparr>body := b\<rparr>) ch c" using Cons.prems(1) by (simp add: ready_def)
  from chunk_goes [OF this Cons.prems(2,3)] Cons.prems(4) obtain buf mc1 where
    s: "sendSymmetricChunk (mc\<lparr>body := b\<rparr>, ch, c) = Some (GOOD, mc1, ?ch, c\<lparr>wire := wire c @ buf\<rparr>)"
    by auto
  let ?c = "c\<lparr>wire := wire c @ buf\<rparr>"
  let ?mc = "setBufPos ?ch (mc1\<lparr>bufLength := unat (sendBufferSize (localConf c))\<rparr>)"
  have g: "getSendBuffer (mc1, ?ch, ?c) = (GOOD, ?mc, ?ch, ?c)"
    using Cons.prems(1) open_getSendBuffer [of ?c mc1 ?ch] by (simp add: ready_def open_wire)
  have r: "ready ?mc ?ch ?c" by (rule ready_next [OF Cons.prems(1) refl])
  from Cons.IH [OF r] Cons.prems(2-4) obtain mc' n w where
    "send_buffers bs (?mc, ?ch, ?c) = Some (GOOD, mc', ?ch\<lparr>sendSequenceNumber := n\<rparr>, ?c\<lparr>wire := w\<rparr>)"
    "ready mc' (?ch\<lparr>sendSequenceNumber := n\<rparr>) (?c\<lparr>wire := w\<rparr>)"
    by auto
  then show ?case
    using s g by (intro exI [of _ mc'] exI [of _ n] exI [of _ w]) (simp add: sendSymmetricEncodingCallback_def)
qed

lemma encode_goes:
  assumes r: "ready mc ch c" and m: "symmetricModule (securityPolicy ch) = mS" "channelContext ch = kS"
    and b: "length (body mc) \<le> fresh_room ch c"
    and at: "chunk_at 0 N enc bs" "2 * length bs \<le> k" "N \<le> fresh_room ch c"
  shows "\<exists>mc' n w. UA_MessageContext_encode k enc (mc, ch, c) = Some (GOOD, mc', ch\<lparr>sendSequenceNumber := n\<rparr>, c\<lparr>wire := w\<rparr>)
    \<and> ready mc' (ch\<lparr>sendSequenceNumber := n\<rparr>) (c\<lparr>wire := w\<rparr>) \<and> length (body mc') \<le> fresh_room ch c"
proof -
  define e0 where "e0 = \<lparr>eout = body mc, eroom = nat (bufEnd mc - 24 - int (length (body mc))), edepth = 0, esent = [],
    escript = Some (replicate k (GOOD, fresh_room ch c))\<rparr>"
  have e0: "edepth e0 = 0" "good_script N e0" "script_len e0 = k" "within (fresh_room ch c) e0"
    using at(3) r b by (auto simp: e0_def good_script_def script_len_def within_def list_all_iff ready_def)
  then obtain e where e: "enc e0 = (GOOD, e)" "writes N (2 * length bs) e0 bs e"
    using at(1,2) by (auto simp: chunk_at_def)
  then have l: "list_all (\<lambda>b. length b \<le> fresh_room ch c) (esent e)" "length (eout e) \<le> fresh_room ch c"
    using e0(4) by (auto simp: writes_def extends_def within_def)
  from buffers_go [OF r m l(1)] obtain mc' n w where
    s: "send_buffers (esent e) (mc, ch, c) = Some (GOOD, mc', ch\<lparr>sendSequenceNumber := n\<rparr>, c\<lparr>wire := w\<rparr>)"
    "ready mc' (ch\<lparr>sendSequenceNumber := n\<rparr>) (c\<lparr>wire := w\<rparr>)"
    by blast
  have "\<not> bufEnd mc < 24 + int (length (body mc))" using r b by (simp add: ready_def)
  then have "UA_MessageContext_encode k enc (mc, ch, c)
      = Some (GOOD, mc'\<lparr>body := eout e\<rparr>, ch\<lparr>sendSequenceNumber := n\<rparr>, c\<lparr>wire := w\<rparr>)"
    using e(1) s(1) by (simp add: UA_MessageContext_encode_def e0_def)
  with s(2) l(2) show ?thesis
    by (intro exI [of _ "mc'\<lparr>body := eout e\<rparr>"] exI [of _ n] exI [of _ w]) (simp add: ready_def)
qed

lemma message_goes:
  assumes c: "open_conn c" "attached ch" "\<not> encrypted ch"
    and m: "symmetricModule (securityPolicy ch) = mS" "channelContext ch = kS"
    and t: "t = MESSAGETYPE_MSG \<or> t = MESSAGETYPE_CLO"
    and N: "N \<le> fresh_room ch c" "0 < N"
    and id: "chunk_at 0 N (UA_encodeBinary T (Ns0 UA_TYPES_NODEID)
      (VNodeId \<lparr>namespaceIndex = 0, nident = Numeric (ucast (binaryEncodingId (dtype_of T ty)))\<rparr>)) ib" "2 * length ib \<le> k"
    and content: "chunk_at 0 N (UA_encodeBinary T ty payload) bs" "2 * length bs \<le> k"
  shows "\<exists>ch' c'. UA_SecureChannel_sendSymmetricMessage T k i t payload ty (ch, c) = Some (GOOD, ch', c')"
proof -
  let ?mc = "setBufPos ch \<lparr>mcRequestId = i, mcMessageType = t, chunksSoFar = 0, messageSizeSoFar = 0,
      bufLength = unat (sendBufferSize (localConf c)), body = [], bufEnd = 0, final = False\<rparr>"
  have room: "0 < fresh_room ch c" using N by simp
  then have size: "unat (sendBufferSize (localConf c)) = fresh_room ch c + 24 + (if signed ch then local_sigsize ch else 0)"
    using c(3) by (rule fresh_room_size)
  then have b: "UA_MessageContext_begin i t (ch, c) = (GOOD, ?mc, ch, c)"
    using c t room open_getSendBuffer [OF c(1), where ch = ch] by (auto simp: UA_MessageContext_begin_def Let_def)
  have r: "ready ?mc ch c" "length (body ?mc) \<le> fresh_room ch c"
    using c size by (simp_all add: ready_def setBufPos_def uint_nat)
  from encode_goes [OF r(1) m r(2) id N(1)] obtain mc1 n1 w1 where
    e1: "UA_MessageContext_encode k (UA_encodeBinary T (Ns0 UA_TYPES_NODEID)
      (VNodeId \<lparr>namespaceIndex = 0, nident = Numeric (ucast (binaryEncodingId (dtype_of T ty)))\<rparr>)) (?mc, ch, c)
        = Some (GOOD, mc1, ch\<lparr>sendSequenceNumber := n1\<rparr>, c\<lparr>wire := w1\<rparr>)" and
    r1: "ready mc1 (ch\<lparr>sendSequenceNumber := n1\<rparr>) (c\<lparr>wire := w1\<rparr>)" "length (body mc1) \<le> fresh_room ch c"
    by blast
  from encode_goes [OF r1(1) _ _ _ content] m r1(2) N(1) obtain mc2 n2 w2 where
    e2: "UA_MessageContext_encode k (UA_encodeBinary T ty payload) (mc1, ch\<lparr>sendSequenceNumber := n1\<rparr>, c\<lparr>wire := w1\<rparr>)
        = Some (GOOD, mc2, ch\<lparr>sendSequenceNumber := n2\<rparr>, c\<lparr>wire := w2\<rparr>)" and
    r2: "ready mc2 (ch\<lparr>sendSequenceNumber := n2\<rparr>) (c\<lparr>wire := w2\<rparr>)" "length (body mc2) \<le> fresh_room ch c"
    by fastforce
  have r3: "ready (mc2\<lparr>final := True\<rparr>) (ch\<lparr>sendSequenceNumber := n2\<rparr>) (c\<lparr>wire := w2\<rparr>)"
    using r2(1) by (simp add: ready_def)
  obtain mc3 ch' c' where f3: "UA_MessageContext_finish (mc2, ch\<lparr>sendSequenceNumber := n2\<rparr>, c\<lparr>wire := w2\<rparr>) = Some (GOOD, mc3, ch', c')"
    using chunk_goes [OF r3] m r2(2) by (auto simp: UA_MessageContext_finish_def)
  have "cstate c \<noteq> CONNECTION_CLOSED" using c(1) by (simp add: open_conn_def)
  then show ?thesis
    using b e1 e2 f3 by (simp add: UA_SecureChannel_sendSymmetricMessage_def)
qed

end

end
