(* ===== verification/Binary_Safety.thy ===== *)
theory Binary_Safety
  imports Binary_Basic_Correct
begin

text \<open>
  Memory safety of the decoders of \<open>Binary_Basic\<close> on arbitrary input: whatever the bytes are and
  whether the decoder succeeds or fails, the position moves forward only and never behind the end of
  the buffer. The locale \<open>safe_decoder\<close> states it for one decoder; the array decoder is its client.
\<close>

definition advances :: "dctx \<Rightarrow> dctx \<Rightarrow> bool" where
  "advances c c' \<longleftrightarrow> dbuf c' = dbuf c \<and> ddepth c' = ddepth c \<and> dpos c \<le> dpos c'
     \<and> (dpos c \<le> length (dbuf c) \<longrightarrow> dpos c' \<le> length (dbuf c))"

lemma advances_refl [simp]: "advances c c"
  by (simp add: advances_def)

lemma advances_trans [trans]: "advances a b \<Longrightarrow> advances b c \<Longrightarrow> advances a c"
  by (auto simp: advances_def)

locale safe_decoder =
  fixes dec :: "'a decoder"
  assumes dec_advances: "dec c = (r, x, c') \<Longrightarrow> advances c c'"
begin

lemma elements_advance: "decode_elements dec n c = (r, xs, c') \<Longrightarrow> advances c c'"
proof (induction n arbitrary: c r xs c')
  case 0
  then show ?case by simp
next
  case (Suc n)
  obtain r1 x c1 where d: "dec c = (r1, x, c1)"
    by (metis prod_cases3)
  with Suc.prems Suc.IH show ?case
    by (auto split: if_splits prod.splits intro: advances_trans dec_advances)
qed

end

lemma get_advances: "get n f i c = (r, x, c') \<Longrightarrow> advances c c'"
  by (auto simp: get_def advances_def split: if_splits)

interpretation Byte_safe: safe_decoder Byte_decodeBinary
  by unfold_locales (simp add: Byte_decodeBinary_def get_advances)

interpretation UInt16_safe: safe_decoder UInt16_decodeBinary
  by unfold_locales (simp add: UInt16_decodeBinary_def get_advances)

interpretation UInt32_safe: safe_decoder UInt32_decodeBinary
  by unfold_locales (simp add: UInt32_decodeBinary_def get_advances)

interpretation UInt64_safe: safe_decoder UInt64_decodeBinary
  by unfold_locales (simp add: UInt64_decodeBinary_def get_advances)

lemmas int_advances = Byte_safe.dec_advances UInt16_safe.dec_advances UInt32_safe.dec_advances
  UInt64_safe.dec_advances

context safe_decoder
begin

lemma array_advances: "Array_decodeBinary ov m rd dec c = (r, a, c') \<Longrightarrow> advances c c'"
proof -
  assume d: "Array_decodeBinary ov m rd dec c = (r, a, c')"
  obtain r1 l c1 where l: "UInt32_decodeBinary c = (r1, l, c1)"
    by (metis prod_cases3)
  obtain r2 xs c2 where e: "decode_elements dec (unat l) c1 = (r2, xs, c2)"
    by (metis prod_cases3)
  have "c' \<in> {c1, c2} \<or> (c' = c1\<lparr>dpos := dpos c1 + m * unat l\<rparr> \<and> dpos c1 + m * unat l \<le> length (dbuf c1))"
    using d l e by (auto simp: Array_decodeBinary_def Let_def split: if_splits)
  then have "advances c1 c'"
    using elements_advance [OF e] by (auto simp: advances_def)
  then show ?thesis
    using int_advances(3) [OF l] by (blast intro: advances_trans)
qed

end

interpretation String_safe: safe_decoder String_decodeBinary
  by unfold_locales (simp add: String_decodeBinary_def Byte_safe.array_advances)

interpretation Guid_safe: safe_decoder Guid_decodeBinary
  by unfold_locales
     (auto simp: Guid_decodeBinary_def advances_def split: prod.splits if_splits
        dest!: int_advances)

lemmas leaf_advances = int_advances String_safe.dec_advances Guid_safe.dec_advances

interpretation NodeId_safe: safe_decoder NodeId_decodeBinary
  by unfold_locales
     (auto simp: NodeId_decodeBinary_def Let_def split: prod.splits if_splits
        dest!: leaf_advances intro: advances_trans)

interpretation ExpandedNodeId_safe: safe_decoder ExpandedNodeId_decodeBinary
  by unfold_locales
     (auto simp: ExpandedNodeId_decodeBinary_def Let_def split: prod.splits if_splits
        dest!: leaf_advances NodeId_safe.dec_advances intro: advances_trans)

interpretation QualifiedName_safe: safe_decoder QualifiedName_decodeBinary
  by unfold_locales
     (auto simp: QualifiedName_decodeBinary_def split: prod.splits
        dest!: leaf_advances intro: advances_trans)

interpretation LocalizedText_safe: safe_decoder LocalizedText_decodeBinary
  by unfold_locales
     (auto simp: LocalizedText_decodeBinary_def split: prod.splits if_splits
        dest!: leaf_advances intro: advances_trans)

subsection \<open>Properties\<close>

text \<open>Decoding an ExpandedNodeId from arbitrary bytes never moves the position backwards or
  behind the end of the buffer, in the success and in every error case.\<close>

theorem ExpandedNodeId_decode_in_bounds:
  assumes "ExpandedNodeId_decodeBinary c = (r, x, c')" and "dpos c \<le> length (dbuf c)"
  shows "dbuf c' = dbuf c \<and> dpos c \<le> dpos c' \<and> dpos c' \<le> length (dbuf c)"
  using ExpandedNodeId_safe.dec_advances [OF assms(1)] assms(2) by (simp add: advances_def)

theorem ExpandedNodeId_decode_in_bounds_witness:
  "\<exists>r x c'. ExpandedNodeId_decodeBinary \<lparr>dbuf = [0xC3, 1, 0, 9, 0, 0, 0, 1], dpos = 0, ddepth = 0\<rparr> = (r, x, c')
     \<and> dpos c' \<le> 8"
proof -
  let ?c = "\<lparr>dbuf = [0xC3, 1, 0, 9, 0, 0, 0, 1], dpos = 0, ddepth = 0\<rparr> :: dctx"
  obtain r x c' where d: "ExpandedNodeId_decodeBinary ?c = (r, x, c')"
    by (metis prod_cases3)
  then show ?thesis
    using ExpandedNodeId_decode_in_bounds [OF d] by auto
qed

end
