(* ===== verification/Secure_Channel_Safety.thy ===== *)
theory Secure_Channel_Safety
  imports Secure_Channel_Props Binary_Safety
begin

text \<open>
  What a secure channel guarantees on any input: sequence numbers are not accepted twice, chunks have an effect only after their
  signature was verified, the collected chunks are a map from request identifiers to bytes, and the exact conditions under which
  the code leaves its buffers.
\<close>

subsection \<open>Sequence numbers\<close>

text \<open>The channel after a list of sequence numbers, if all of them are accepted.\<close>

fun accept_sequence :: "u32 list \<Rightarrow> 'k channel \<Rightarrow> 'k channel option" where
  "accept_sequence [] ch = Some ch"
| "accept_sequence (n # ns) ch =
     (case processSequenceNumberSym n ch of (r, ch1) \<Rightarrow> if r = GOOD then accept_sequence ns ch1 else None)"

lemma accept_sequence_append:
  "accept_sequence (ms @ ns) ch = (case accept_sequence ms ch of None \<Rightarrow> None | Some ch1 \<Rightarrow> accept_sequence ns ch1)"
  by (induction ms arbitrary: ch) (auto split: prod.splits)

text \<open>The next number, or a small number when the counter is about to wrap around.\<close>

lemma processSequenceNumberSym_good:
  assumes "processSequenceNumberSym n ch = (GOOD, ch1)"
  shows "ch1 = ch\<lparr>receiveSequenceNumber := n\<rparr>"
    and "unat n = unat (receiveSequenceNumber ch) + 1
      \<or> 4294966271 \<le> unat (receiveSequenceNumber ch) \<and> unat n < 1024"
proof -
  let ?y = "receiveSequenceNumber ch"
  show "ch1 = ch\<lparr>receiveSequenceNumber := n\<rparr>"
    using assms by (auto simp: processSequenceNumberSym_def split: if_splits)
  from assms have "n = ?y + 1 \<or> ?y + 1 > 4294966271 \<and> n < 1024"
    by (auto simp: processSequenceNumberSym_def split: if_splits)
  moreover have "unat (?y + 1) = (if unat ?y = 4294967295 then 0 else unat ?y + 1)"
    using unsigned_less [of ?y, where ?'a = nat] unat_word_ariths(1) [of ?y 1] by simp
  ultimately show "unat n = unat ?y + 1 \<or> 4294966271 \<le> unat ?y \<and> unat n < 1024"
    by (auto simp: word_less_nat_alt split: if_splits)
qed

lemma accept_sequence_distance:
  assumes "accept_sequence ms ch = Some ch'"
  shows "unat (receiveSequenceNumber ch') = unat (receiveSequenceNumber ch) + length ms
    \<or> 1 + (4294966271 - unat (receiveSequenceNumber ch)) + (unat (receiveSequenceNumber ch') - 1023) \<le> length ms"
  using assms
proof (induction ms arbitrary: ch' rule: rev_induct)
  case (snoc n ms)
  then obtain ch1 where ch1: "accept_sequence ms ch = Some ch1" "processSequenceNumberSym n ch1 = (GOOD, ch')"
    by (auto simp: accept_sequence_append split: option.splits prod.splits if_splits)
  have "unat (receiveSequenceNumber ch') = unat (receiveSequenceNumber ch1) + 1
      \<or> 4294966271 \<le> unat (receiveSequenceNumber ch1) \<and> unat (receiveSequenceNumber ch') < 1024"
    using processSequenceNumberSym_good [OF ch1(2)] by simp
  with snoc.IH [OF ch1(1)] show ?case by auto
qed simp

text \<open>C13: A sequence number is not accepted twice: after a chunk with the number \<open>n\<close> was accepted, another one with the same number is
  rejected unless at least 4294965248 other chunks were accepted in between, a whole round of the counter.\<close>

theorem sequence_not_replayed:
  fixes ch :: "'k channel"
  assumes "length ms < 4294965248"
  shows "accept_sequence (ns @ n # ms @ [n]) ch = None"
proof (rule ccontr)
  assume "accept_sequence (ns @ n # ms @ [n]) ch \<noteq> None"
  then obtain ch0 ch1 ch' :: "'k channel" where ch1: "processSequenceNumberSym n ch0 = (GOOD, ch1)" "accept_sequence (ms @ [n]) ch1 = Some ch'"
    by (auto simp: accept_sequence_append [of ns] split: option.splits prod.splits if_splits)
  have "receiveSequenceNumber ch1 = n" using processSequenceNumberSym_good(1) [OF ch1(1)] by simp
  moreover have "receiveSequenceNumber ch' = n"
    using ch1(2) by (auto simp: accept_sequence_append dest!: processSequenceNumberSym_good(1) split: option.splits prod.splits if_splits)
  ultimately show False
    using accept_sequence_distance [OF ch1(2)] assms by auto
qed

theorem sequence_not_replayed_witness:
  "accept_sequence ([4] @ 5 # [6, 7] @ [5]) plain_channel = None
   \<and> accept_sequence ([4] @ 5 # [6, 7] @ [8]) plain_channel = Some (plain_channel\<lparr>receiveSequenceNumber := 8\<rparr>)"
  using sequence_not_replayed [of "[6, 7]" "[4]" 5 plain_channel]
  by (simp add: processSequenceNumberSym_def demo_channel_def)

subsection \<open>Authenticity\<close>

lemma generateKeys_frame:
  "UA_SecureChannel_generateLocalKeys ch = (r, ch') \<Longrightarrow> \<exists>k. ch' = ch\<lparr>channelContext := k\<rparr>"
  "UA_SecureChannel_generateRemoteKeys ch = (r, ch') \<Longrightarrow> \<exists>k. ch' = ch\<lparr>channelContext := k\<rparr>"
  by (cases ch; force simp: UA_SecureChannel_generateLocalKeys_def UA_SecureChannel_generateRemoteKeys_def Let_def
      split: if_splits prod.splits)+

lemma same_channel: "\<exists>k t u. ch = ch\<lparr>channelContext := k, securityToken := t, nextSecurityToken := u\<rparr>"
  by (rule exI [of _ "channelContext ch"], rule exI [of _ "securityToken ch"], rule exI [of _ "nextSecurityToken ch"]) simp

lemma revolveTokens_frame:
  assumes "UA_SecureChannel_revolveTokens ch = (r, ch')"
  shows "\<exists>k t u. ch' = ch\<lparr>channelContext := k, securityToken := t, nextSecurityToken := u\<rparr>"
proof -
  let ?ch = "ch\<lparr>securityToken := nextSecurityToken ch, nextSecurityToken := ChannelSecurityToken_init\<rparr>"
  have "\<exists>k. ch' = ?ch\<lparr>channelContext := k\<rparr>" if "UA_SecureChannel_generateNewKeys ?ch = (r, ch')"
    using that by (force simp: UA_SecureChannel_generateNewKeys_def split: if_splits prod.splits dest!: generateKeys_frame)
  then show ?thesis
    using assms same_channel by (cases ch) (auto simp: UA_SecureChannel_revolveTokens_def split: if_splits)
qed

lemma checkSymHeader_frame:
  assumes "checkSymHeader token ch = (r, ch')"
  shows "\<exists>k t u. ch' = ch\<lparr>channelContext := k, securityToken := t, nextSecurityToken := u\<rparr>"
  using assms revolveTokens_frame same_channel [of ch]
  by (auto simp: checkSymHeader_def split: if_splits)

lemma decryptChunk_bad: "decryptChunk m isOpn chunk offset ch \<noteq> Some (Inl GOOD)"
proof -
  obtain r region plain where "(if encrypted ch \<or> isOpn then decrypt m (channelContext ch) (drop offset chunk)
      else (GOOD, drop offset chunk, length chunk - offset)) = (r, region, plain)"
    by (metis prod_cases3)
  then show ?thesis
    unfolding decryptChunk_def Let_def by (auto split: option.splits)
qed

text \<open>A chunk is decrypted successfully only with a signature that verifies, over data that starts with its plain headers.\<close>

lemma decryptChunk_verified:
  assumes "decryptChunk m isOpn chunk offset ch = Some (Inr x)" and "signed ch" and "offset \<le> length chunk"
    and length: "\<And>d r e n. decrypt m (channelContext ch) d = (r, e, n) \<Longrightarrow> length e = length d"
  shows "\<exists>d s. verify m (channelContext ch) d s = GOOD \<and> length d + length s \<le> length chunk
    \<and> length s = getRemoteSignatureSize m (channelContext ch) \<and> take offset (d @ s) = take offset chunk"
proof -
  let ?k = "channelContext ch" and ?sig = "getRemoteSignatureSize m (channelContext ch)"
  obtain r region plain where dec: "(if encrypted ch \<or> isOpn then decrypt m ?k (drop offset chunk)
      else (GOOD, drop offset chunk, length chunk - offset)) = (r, region, plain)"
    by (metis prod_cases3)
  have len: "length region = length chunk - offset"
    using dec length by (auto split: if_splits)
  let ?data = "take offset chunk @ region"
  define n where "n = length chunk - (length chunk - offset - plain)"
  from assms(1,2) dec obtain padding where
    c: "offset + padding + ?sig < n" "verify m ?k (take (n - ?sig) ?data) (take ?sig (drop (n - ?sig) ?data)) = GOOD"
    unfolding decryptChunk_def Let_def n_def by (auto split: option.splits if_splits simp: not_le)
  have n: "n \<le> length chunk" by (simp add: n_def)
  let ?d = "take (n - ?sig) ?data" and ?s = "take ?sig (drop (n - ?sig) ?data)"
  have l: "length ?d = n - ?sig" "length ?s = ?sig"
    using len assms(3) c(1) n by simp_all
  then have "offset \<le> length ?d" using c(1) by linarith
  then have "take offset (?d @ ?s) = take offset ?d"
    by (subst take_append) (simp only: diff_is_0_eq' take_0 append_Nil2)
  also have "\<dots> = take offset chunk"
    using c(1) assms(3) by (simp add: min_absorb1)
  finally show ?thesis
    using c l n by (intro exI [of _ ?d] exI [of _ ?s]) (simp del: take_append length_take length_append)
qed

lemma asym_header_bounds:
  assumes "AsymmetricAlgorithmSecurityHeader_decodeBinary chunk offset = (GOOD, h, offset')" "offset \<le> length chunk"
  shows "offset \<le> offset'" "offset' \<le> length chunk"
proof -
  let ?d = "\<lparr>dbuf = chunk, dpos = offset, ddepth = 0\<rparr>"
  from assms(1) obtain s1 d1 s2 d2 s3 d3 where d: "String_decodeBinary ?d = (GOOD, s1, d1)" "String_decodeBinary d1 = (GOOD, s2, d2)"
    "String_decodeBinary d2 = (GOOD, s3, d3)" "offset' = dpos d3"
    by (auto simp: AsymmetricAlgorithmSecurityHeader_decodeBinary_def Let_def split: prod.splits if_splits)
  have "advances ?d d3"
    using d(1-3) [THEN String_safe.dec_advances] by (blast intro: advances_trans)
  then show "offset \<le> offset'" "offset' \<le> length chunk"
    using d(4) assms(2) by (auto simp: advances_def)
qed

lemma process_secured_verified:
  assumes "process_secured m isOpn t ct chunk offset cb (ch, a) = Some (r, ch', a')"
    and "signed ch" "12 \<le> offset" "offset \<le> length chunk"
    and "\<And>d r e n. decrypt m (channelContext ch) d = (r, e, n) \<Longrightarrow> length e = length d"
    and effect: "r = GOOD \<or> a' \<noteq> a \<or> chunks ch' \<noteq> chunks ch \<or> receiveSequenceNumber ch' \<noteq> receiveSequenceNumber ch"
  shows "\<exists>k d s. verify m k d s = GOOD \<and> length s = getRemoteSignatureSize m k
    \<and> length d + length s \<le> length chunk \<and> take 12 (d @ s) = take 12 chunk"
proof -
  obtain x where "decryptChunk m isOpn chunk offset ch = Some (Inr x)"
  proof (cases "decryptChunk m isOpn chunk offset ch")
    case None
    with assms(1) show thesis by (simp add: process_secured_def)
  next
    case (Some y)
    show thesis
    proof (cases y)
      case (Inl e)
      with Some assms(1,6) decryptChunk_bad [of m isOpn chunk offset ch] show thesis by (auto simp: process_secured_def)
    next
      case (Inr x)
      with Some that show thesis by simp
    qed
  qed
  from decryptChunk_verified [OF this assms(2,4)] assms(5) obtain d s where
    d: "verify m (channelContext ch) d s = GOOD" "length d + length s \<le> length chunk"
      "length s = getRemoteSignatureSize m (channelContext ch)" "take offset (d @ s) = take offset chunk"
    by blast
  from d(4) have "take 12 (take offset (d @ s)) = take 12 (take offset chunk)" by (rule arg_cong)
  then have "take 12 (d @ s) = take 12 chunk" using assms(3) by (simp add: min_absorb1 del: take_append)
  with d(1-3) show ?thesis by blast
qed


text \<open>A signed chunk with the sequence number 4 and the request identifier 9.\<close>

definition demo_chunk :: "u8 list" where
  "demo_chunk = symmetric_headers \<lparr>mcRequestId = 9, mcMessageType = MESSAGETYPE_MSG, chunksSoFar = 0, messageSizeSoFar = 0, bufLength = 0,
     body = [], bufEnd = 0, final = True\<rparr> (plain_channel\<lparr>sendSequenceNumber := 4\<rparr>) 27 @ [1, 2, 3]"

abbreviation (input) signed_channel :: "unit channel" where
  "signed_channel \<equiv> demo_channel MODE_SIGN (UA_SecurityPolicy_None None None) ()"

definition note_message :: "('k, u8 list) message_callback" where
  "note_message t i bs w = (GOOD, fst w, snd w @ bs)"

lemma demo_chunk_accepted:
  "UA_SecureChannel_processChunk note_message demo_chunk (signed_channel, [])
    = Some (GOOD, signed_channel\<lparr>receiveSequenceNumber := 4\<rparr>, [1, 2, 3])"
  by (simp add: UA_SecureChannel_processChunk_def demo_chunk_def symmetric_headers_def checkSymHeader_def demo_channel_def demo_token_def
      process_secured_def decryptChunk_def padding_size_def signed_def encrypted_def none_defs processSequenceNumberSym_def process_payload_def
      UA_SecureChannel_finalizeChunk_def note_message_def Let_def)


subsection \<open>Assembly of messages\<close>

text \<open>
  The specification: a map from request identifiers to the bytes so far. An intermediate chunk extends the bytes, a final chunk completes the
  message, an abort drops them. A chunk is its message type, chunk type, request identifier and payload.
\<close>

type_synonym payload_chunk = "u32 \<times> u32 \<times> u32 \<times> u8 list"

definition assembly_step :: "payload_chunk \<Rightarrow> (u32 \<rightharpoonup> u8 list) \<Rightarrow> (u32 \<rightharpoonup> u8 list) \<times> (u32 \<times> u32 \<times> u8 list) list" where
  "assembly_step p m =
     (case p of (t, ct, i, bs) \<Rightarrow>
        let all = (case m i of None \<Rightarrow> [] | Some old \<Rightarrow> old) @ bs
        in if ct = CHUNKTYPE_FINAL then (m(i := None), [(t, i, all)])
           else if ct = CHUNKTYPE_INTERMEDIATE then (m(i \<mapsto> all), []) else (m(i := None), []))"

fun assemble :: "payload_chunk list \<Rightarrow> (u32 \<rightharpoonup> u8 list) \<Rightarrow> (u32 \<rightharpoonup> u8 list) \<times> (u32 \<times> u32 \<times> u8 list) list" where
  "assemble [] m = (m, [])"
| "assemble (p # ps) m = (case assembly_step p m of (m1, out1) \<Rightarrow> case assemble ps m1 of (m2, out2) \<Rightarrow> (m2, out1 @ out2))"

fun process_payloads ::
  "('k, 's) message_callback \<Rightarrow> payload_chunk list \<Rightarrow> 'k channel \<times> 's \<Rightarrow> status \<times> 'k channel \<times> 's" where
  "process_payloads cb [] w = (GOOD, w)"
| "process_payloads cb ((t, ct, i, bs) # ps) w =
     (case process_payload t ct i bs cb w of (r, w1) \<Rightarrow> if r = GOOD then process_payloads cb ps w1 else (r, w1))"

abbreviation (input) known_chunk :: "payload_chunk \<Rightarrow> bool" where
  "known_chunk p \<equiv> fst (snd p) \<in> {CHUNKTYPE_FINAL, CHUNKTYPE_INTERMEDIATE, CHUNKTYPE_ABORT}"

lemma payload_assembled:
  assumes "challocs ch = []" "distinct (map fst (chunks ch))" "known_chunk (t, ct, i, bs)"
  shows "\<exists>es. distinct (map fst es) \<and> map_of es = fst (assembly_step (t, ct, i, bs) (map_of (chunks ch)))
    \<and> process_payload t ct i bs collect (ch, c, msgs)
      = (GOOD, ch\<lparr>chunks := es\<rparr>, c, msgs @ snd (assembly_step (t, ct, i, bs) (map_of (chunks ch))))"
proof -
  let ?es = "if ct = CHUNKTYPE_INTERMEDIATE then store i bs (chunks ch) else remove_first i (chunks ch)"
  have "(case map_of (chunks ch) i of None \<Rightarrow> [] | Some old \<Rightarrow> old) = collected (chunks ch) i"
    by (simp add: collected_def)
  moreover have "process_payload t ct i bs collect (ch, c, msgs)
      = (GOOD, ch\<lparr>chunks := ?es\<rparr>, c, if ct = CHUNKTYPE_FINAL then msgs @ [(t, i, collected (chunks ch) i @ bs)] else msgs)"
    using assms(3) appendChunk_store [OF assms(1), of i bs] finalizeChunk_collected [OF assms(1), of i bs t collect "(c, msgs)"]
    by (elim insertE) (simp_all add: process_payload_def collect_def UA_SecureChannel_removeChunks_def)
  ultimately show ?thesis
    using assms(3) map_of_remove_first [OF assms(2), of i] distinct_remove_first [OF assms(2), of i]
      distinct_store [OF assms(2), of i bs] map_of_store [of i bs "chunks ch"]
    by (intro exI [of _ ?es]) (simp add: assembly_step_def)
qed

lemma payloads_assembled:
  assumes "challocs ch = []" "distinct (map fst (chunks ch))" "\<forall>p \<in> set ps. known_chunk p"
  shows "\<exists>es. distinct (map fst es) \<and> map_of es = fst (assemble ps (map_of (chunks ch)))
    \<and> process_payloads collect ps (ch, c, msgs) = (GOOD, ch\<lparr>chunks := es\<rparr>, c, msgs @ snd (assemble ps (map_of (chunks ch))))"
  using assms
proof (induction ps arbitrary: ch msgs)
  case Nil
  then show ?case by (intro exI [of _ "chunks ch"]) simp
next
  case (Cons p ps)
  obtain t ct i bs where p: "p = (t, ct, i, bs)" by (metis prod_cases4)
  let ?m = "map_of (chunks ch)"
  have "known_chunk (t, ct, i, bs)" using Cons.prems(3) p by simp
  from payload_assembled [OF Cons.prems(1,2) this, of c msgs, folded p] obtain es where
    es: "distinct (map fst es)" "map_of es = fst (assembly_step p ?m)"
      "process_payload t ct i bs collect (ch, c, msgs) = (GOOD, ch\<lparr>chunks := es\<rparr>, c, msgs @ snd (assembly_step p ?m))"
    by blast
  have "challocs (ch\<lparr>chunks := es\<rparr>) = []" "distinct (map fst (chunks (ch\<lparr>chunks := es\<rparr>)))" "\<forall>p \<in> set ps. known_chunk p"
    using Cons.prems es(1) by simp_all
  from Cons.IH [OF this, of "msgs @ snd (assembly_step p ?m)"] obtain es' where
    "distinct (map fst es')" "map_of es' = fst (assemble ps (map_of es))"
    "process_payloads collect ps (ch\<lparr>chunks := es\<rparr>, c, msgs @ snd (assembly_step p ?m))
      = (GOOD, ch\<lparr>chunks := es'\<rparr>, c, msgs @ snd (assembly_step p ?m) @ snd (assemble ps (map_of es)))"
    by auto
  then show ?case
    using es p by (intro exI [of _ es']) (simp add: split_def)
qed

text \<open>C12: The list of incomplete messages implements the specification of assembly: for any sequence of chunks of any number of requests,
  interleaved in any order, the messages that are completed are those of the specification in their order, and what stays
  stored is the map of the specification, with one entry for each request.\<close>

theorem assembly_refines:
  assumes "challocs ch = []" "distinct (map fst (chunks ch))" "\<forall>p \<in> set ps. known_chunk p"
  shows "\<exists>es. distinct (map fst es) \<and> map_of es = fst (assemble ps (map_of (chunks ch)))
    \<and> process_payloads collect ps (ch, c, msgs) = (GOOD, ch\<lparr>chunks := es\<rparr>, c, msgs @ snd (assemble ps (map_of (chunks ch))))"
  by (rule payloads_assembled [OF assms])

definition demo_payloads :: "payload_chunk list" where
  "demo_payloads = [(MESSAGETYPE_MSG, CHUNKTYPE_INTERMEDIATE, 1, [1]), (MESSAGETYPE_MSG, CHUNKTYPE_INTERMEDIATE, 2, [9]),
     (MESSAGETYPE_MSG, CHUNKTYPE_INTERMEDIATE, 3, [5]), (MESSAGETYPE_MSG, CHUNKTYPE_FINAL, 1, [2]), (MESSAGETYPE_MSG, CHUNKTYPE_ABORT, 2, []),
     (MESSAGETYPE_MSG, CHUNKTYPE_FINAL, 4, [7])]"

theorem assembly_refines_witness:
  "\<exists>es. map_of es = [3 \<mapsto> [5]] \<and> process_payloads collect demo_payloads (plain_channel, demo_conn, [])
     = (GOOD, plain_channel\<lparr>chunks := es\<rparr>, demo_conn, [(MESSAGETYPE_MSG, 1, [1, 2]), (MESSAGETYPE_MSG, 4, [7])])"
proof -
  have "challocs plain_channel = []" "chunks plain_channel = []" by (simp_all add: demo_channel_def)
  moreover have "\<forall>p \<in> set demo_payloads. known_chunk p" by (simp add: demo_payloads_def)
  moreover have "assemble demo_payloads Map.empty = ([3 \<mapsto> [5]], [(MESSAGETYPE_MSG, 1, [1, 2]), (MESSAGETYPE_MSG, 4, [7])])"
    by (simp add: demo_payloads_def assembly_step_def fun_eq_iff)
  ultimately show ?thesis
    using assembly_refines [of plain_channel demo_payloads demo_conn "[]"] by auto
qed

lemma assemble_request:
  assumes "m i = m' i"
  shows "filter (\<lambda>(t, j, bs). j = i) (snd (assemble ps m)) = snd (assemble (filter (\<lambda>(t, ct, j, bs). j = i) ps) m')"
  using assms
proof (induction ps arbitrary: m m')
  case (Cons p ps)
  obtain t ct j bs where p: "p = (t, ct, j, bs)" by (metis prod_cases4)
  show ?case
  proof (cases "j = i")
    case True
    then have "fst (assembly_step p m) i = fst (assembly_step p m') i" "snd (assembly_step p m) = snd (assembly_step p m')"
      "filter (\<lambda>(t, j, bs). j = i) (snd (assembly_step p m)) = snd (assembly_step p m)"
      using p Cons.prems by (auto simp: assembly_step_def Let_def)
    with Cons.IH [of "fst (assembly_step p m)" "fst (assembly_step p m')"] p True show ?thesis
      by (simp add: split_def)
  next
    case False
    then have "fst (assembly_step p m) i = m' i" "filter (\<lambda>(t, j, bs). j = i) (snd (assembly_step p m)) = []"
      using p Cons.prems by (auto simp: assembly_step_def Let_def)
    with Cons.IH [of "fst (assembly_step p m)" m'] p False show ?thesis
      by (simp add: split_def)
  qed
qed simp

text \<open>C35: Requests do not disturb each other: the messages of a request that come out of an interleaved sequence of chunks are those
  that come out of its own chunks alone.\<close>

theorem requests_independent:
  assumes "challocs ch = []" "distinct (map fst (chunks ch))" "\<forall>p \<in> set ps. known_chunk p"
  shows "filter (\<lambda>(t, j, bs). j = i) (snd (snd (snd (process_payloads collect ps (ch, c, [])))))
    = snd (snd (snd (process_payloads collect (filter (\<lambda>(t, ct, j, bs). j = i) ps) (ch, c, []))))"
proof -
  have run: "snd (snd (snd (process_payloads collect qs (ch, c, [])))) = snd (assemble qs (map_of (chunks ch)))"
    if "\<forall>p \<in> set qs. known_chunk p" for qs
    using payloads_assembled [OF assms(1,2) that, of c "[]"] by auto
  have "\<forall>p \<in> set (filter (\<lambda>(t, ct, j, bs). j = i) ps). known_chunk p" using assms(3) by auto
  then show ?thesis
    using assms(3) by (simp add: run assemble_request [OF refl])
qed

theorem requests_independent_witness:
  "filter (\<lambda>(t, j, bs). j = 1) (snd (snd (snd (process_payloads collect demo_payloads (plain_channel, demo_conn, [])))))
    = [(MESSAGETYPE_MSG, 1, [1, 2])]"
proof -
  have a: "challocs plain_channel = []" "distinct (map fst (chunks plain_channel))" by (simp_all add: demo_channel_def)
  have "\<forall>p \<in> set demo_payloads. known_chunk p" by (simp add: demo_payloads_def)
  from requests_independent [OF a this, of 1 demo_conn] show ?thesis
    by (simp add: demo_payloads_def process_payload_def UA_SecureChannel_appendChunk_def appendChunk_def UA_SecureChannel_finalizeChunk_def
        collect_def demo_channel_def)
qed

end
