(* ===== verification/Secure_Channel_Buffers.thy ===== *)
theory Secure_Channel_Buffers
  imports Secure_Channel_Safety
begin

text \<open>
  The buffers of a secure channel: when the code of sending writes behind the message buffer, and when the code of decryption reads outside
  of the chunk.
\<close>

subsection \<open>Sending\<close>

lemma padded_length:
  fixes b :: nat
  assumes "0 < b"
  shows "n + (b - n mod b) = b * (n div b + 1)"
proof -
  have "n + (b - n mod b) = n - n mod b + b"
    using assms mod_le_divisor [of b n] mod_less_eq_dividend [of n b] by linarith
  then show ?thesis by (simp add: minus_mod_eq_mult_div)
qed

lemma encrypted_total_length:
  assumes "encrypted ch" "getLocalBlockSize (symmetricModule (securityPolicy ch)) (channelContext ch) = b" "0 < b" "b \<le> 255"
  obtains pad where "padding_bytes ch n = Some pad"
    "total_length ch n (length pad) = 16 + b * ((n + 9 + local_sigsize ch) div b + 1)"
proof -
  let ?x = "n + 8 + local_sigsize ch + 1"
  define p where "p = b - ?x mod b"
  have p: "p \<le> 255" using assms(4) by (simp add: p_def)
  have "calculatePaddingSym ch (n + 8) = Some (word_of_nat p, word_of_nat p, 0)"
    unfolding calculatePaddingSym_def Let_def assms(2) p_def [symmetric]
    using small_padding [OF p] assms(3) by simp
  then have "padding_bytes ch n = Some (replicate (p + 1) (word_of_nat p))"
    using assms(1) small_padding [OF p] by (simp add: padding_bytes_def)
  moreover have "signed ch" using assms(1) by (simp add: signed_def encrypted_def)
  then have "total_length ch n (p + 1) = 16 + (?x + p)"
    by (simp add: total_length_def)
  then have "total_length ch n (p + 1) = 16 + b * ((n + 9 + local_sigsize ch) div b + 1)"
    using padded_length [OF assms(3), of ?x] by (simp add: p_def add_ac)
  ultimately show thesis using that by simp
qed

text \<open>C36: When a chunk leaves its buffer. The encoder has left the body within the bounds that were set for it. Without encryption, headers, body
  and signature then always fit. With encryption by blocks of \<open>b\<close> bytes the chunk leaves the message buffer exactly if the length rounded up to
  the next block is larger than the buffer: only two bytes are kept free for the padding, which takes up to \<open>b + 1\<close> bytes.\<close>

theorem chunk_overflow_iff:
  assumes "attached ch" "\<not> too_large c (mc\<lparr>messageSizeSoFar := messageSizeSoFar mc + length (body mc), chunksSoFar := chunksSoFar mc + 1\<rparr>)"
    and "bufEnd mc = bufEnd (setBufPos ch mc)" "int (24 + length (body mc)) \<le> bufEnd mc"
    and "getLocalBlockSize (symmetricModule (securityPolicy ch)) (channelContext ch) = b"
    and "encrypted ch \<longrightarrow> 0 < b \<and> b \<le> 255"
  shows "sendSymmetricChunk (mc, ch, c) = None
    \<longleftrightarrow> encrypted ch \<and> bufLength mc < 16 + b * ((length (body mc) + 9 + local_sigsize ch) div b + 1)"
proof -
  have none: "sendSymmetricChunk (mc, ch, c) = None \<longleftrightarrow> bufLength mc < total_length ch (length (body mc)) (length pad)"
    if "padding_bytes ch (length (body mc)) = Some pad" for pad
    using that assms(1,2) by (auto simp: sendSymmetricChunk_def Let_def split: prod.splits)
  show ?thesis
  proof (cases "encrypted ch")
    case True
    with assms(6) obtain pad where "padding_bytes ch (length (body mc)) = Some pad"
      "total_length ch (length (body mc)) (length pad) = 16 + b * ((length (body mc) + 9 + local_sigsize ch) div b + 1)"
      using encrypted_total_length [OF True assms(5)] by blast
    with none [of pad] True show ?thesis by simp
  next
    case False
    then have "padding_bytes ch (length (body mc)) = Some []" by (simp add: padding_bytes_def)
    with none [of "[]"] False assms(3,4) show ?thesis
      by (auto simp: total_length_def setBufPos_def)
  qed
qed

text \<open>With a block size of 16, a signature of 32 bytes and a buffer of 100 bytes, a full chunk takes 112 bytes.\<close>

definition demo_cipher :: "unit crypto" where
  "demo_cipher = crypto_none\<lparr>getLocalBlockSize := \<lambda>k. 16, getLocalSignatureSize := \<lambda>k. 32\<rparr>"

definition cipher_channel :: "unit channel" where
  "cipher_channel = demo_channel MODE_SIGNANDENCRYPT ((UA_SecurityPolicy_None None None)\<lparr>symmetricModule := demo_cipher\<rparr>) ()"

definition full_buffer :: mcontext where
  "full_buffer = \<lparr>mcRequestId = 1, mcMessageType = MESSAGETYPE_MSG, chunksSoFar = 0, messageSizeSoFar = 0, bufLength = 100,
     body = replicate 42 0, bufEnd = 66, final = False\<rparr>"

theorem chunk_overflow_iff_witness:
  "sendSymmetricChunk (full_buffer, cipher_channel, demo_conn) = None
   \<and> sendSymmetricChunk (full_buffer, plain_channel\<lparr>securityMode := MODE_SIGN\<rparr>, demo_conn) \<noteq> None"
proof -
  have c: "\<not> too_large demo_conn mc" for mc by (simp add: too_large_def demo_conn_def demo_conf_def)
  have "encrypted cipher_channel" "local_sigsize cipher_channel = 32" "attached cipher_channel"
    "bufEnd full_buffer = bufEnd (setBufPos cipher_channel full_buffer)"
    "getLocalBlockSize (symmetricModule (securityPolicy cipher_channel)) (channelContext cipher_channel) = 16"
    by (simp_all add: cipher_channel_def demo_channel_def encrypted_def local_sigsize_def demo_cipher_def full_buffer_def setBufPos_def signed_def)
  then have "sendSymmetricChunk (full_buffer, cipher_channel, demo_conn) = None"
    using chunk_overflow_iff [OF _ c, of cipher_channel full_buffer 16] by (simp add: full_buffer_def)
  moreover have "sendSymmetricChunk (full_buffer, plain_channel\<lparr>securityMode := MODE_SIGN\<rparr>, demo_conn) \<noteq> None"
    using c by (simp add: sendSymmetricChunk_def Let_def demo_channel_def padding_bytes_def encrypted_def full_buffer_def total_length_def
        local_sigsize_def split: prod.splits)
  ultimately show ?thesis by blast
qed

subsection \<open>Decryption\<close>

text \<open>After the padding is known, the checks exclude that the payload has a negative length.\<close>

lemma size_checks:
  fixes l x s :: nat
  shows "(if r \<noteq> GOOD then Some a else
      case P of None \<Rightarrow> None
      | Some q \<Rightarrow> if B q then Some b else if C q then Some (c q) else if D then Some d
          else if l \<le> x + q + s then Some e else if l < x + s + q then None else Some (f q)) = None
    \<longleftrightarrow> r = GOOD \<and> P = None"
  by (cases P) auto

text \<open>C37: When decryption of a symmetric chunk reads outside of the chunk. The length byte of the padding (two bytes for long keys) is read
  before the signature before the length of the chunk is checked; so this happens exactly for encrypted chunks that are not longer
  than the signature (and the second byte). All other chunks are processed within their memory.\<close>

theorem decryptChunk_fault_iff:
  assumes "16 \<le> length chunk"
    and "\<forall>d r e n. decrypt m (channelContext ch) d = (r, e, n) \<longrightarrow> length e = length d \<and> n = length d"
  shows "decryptChunk m False chunk 16 ch = None
    \<longleftrightarrow> encrypted ch \<and> fst (decrypt m (channelContext ch) (drop 16 chunk)) = GOOD
      \<and> length chunk < getRemoteSignatureSize m (channelContext ch) + (if encryptionRemoteKeyLength m (channelContext ch) > 2048 then 2 else 1)"
proof -
  let ?k = "channelContext ch"
  have se: "encrypted ch \<Longrightarrow> signed ch" by (simp add: encrypted_def signed_def)
  obtain r region plain where dec: "(if encrypted ch then decrypt m ?k (drop 16 chunk)
      else (GOOD, drop 16 chunk, length chunk - 16)) = (r, region, plain)"
    by (metis prod_cases3)
  then have len: "length region = length chunk - 16" "plain = length chunk - 16"
    using assms(2) [rule_format, of "drop 16 chunk" r region plain] by (auto split: if_splits)
  then have n: "length chunk - (length chunk - 16 - plain) = length chunk" "length (take 16 chunk @ region) = length chunk"
    using assms(1) by simp_all
  have r: "encrypted ch \<Longrightarrow> fst (decrypt m ?k (drop 16 chunk)) = r" "\<not> encrypted ch \<Longrightarrow> r = GOOD"
    using dec by auto
  let ?sig = "if signed ch then getRemoteSignatureSize m ?k else 0"
  let ?p = "if signed ch then padding_size m False (take 16 chunk @ region) (length chunk) ?sig ch else Some 0"
  have "decryptChunk m False chunk 16 ch = None \<longleftrightarrow> r = GOOD \<and> ?p = None"
    unfolding decryptChunk_def Let_def simp_thms dec prod.case n
    by (rule size_checks)
  moreover have "?p = None \<longleftrightarrow> encrypted ch
      \<and> length chunk < getRemoteSignatureSize m ?k + (if encryptionRemoteKeyLength m ?k > 2048 then 2 else 1)"
    using se by (auto simp: padding_size_def)
  ultimately show ?thesis using r by auto
qed

text \<open>A chunk of 28 bytes on a channel with signatures of 32 bytes, and one of 40 bytes, which is rejected.\<close>

definition short_cipher :: "unit crypto" where
  "short_cipher = crypto_none\<lparr>getRemoteSignatureSize := \<lambda>k. 32\<rparr>"

theorem decryptChunk_fault_iff_witness:
  "decryptChunk short_cipher False (replicate 28 0) 16 cipher_channel = None
   \<and> decryptChunk short_cipher False (replicate 40 0) 16 cipher_channel \<noteq> None"
proof -
  have d: "\<forall>d r e n. decrypt short_cipher (channelContext cipher_channel) d = (r, e, n) \<longrightarrow> length e = length d \<and> n = length d"
    by (simp add: short_cipher_def none_defs)
  have e: "encrypted cipher_channel" by (simp add: cipher_channel_def demo_channel_def encrypted_def)
  show ?thesis
    using decryptChunk_fault_iff [OF _ d, of "replicate 28 0"] decryptChunk_fault_iff [OF _ d, of "replicate 40 0"] e
    by (simp add: short_cipher_def none_defs)
qed

end
