(* ===== verification/Connection_Props.thy ===== *)
theory Connection_Props
  imports Secure_Channel_Props
begin

text \<open>
  The properties of connections: the packets of the transport do not matter, the bytes that are kept are bounded, waiting for a chunk
  keeps its deadline, and what happens with malformed packets and without memory.
\<close>

subsection \<open>Packets\<close>

context message_handler
begin

lemmas any_packets = chunks.packets_concat
lemmas any_stored = chunks.processChunks_stored_ok

end

text \<open>C10: The packets of the transport do not matter: for a message callback that does not touch the stored bytes, a stream of bytes that arrives in packets of any sizes is
  processed as if it had arrived in one piece, with the same status, the same connection, channel and application state.\<close>

theorem packets_independent:
  assumes "\<forall>t i bs ch c a r ch' c' a'. cb t i bs (ch, c, a) = (r, ch', c', a')
      \<longrightarrow> incompleteMessage c' = incompleteMessage c \<and> (callocs c = [] \<longrightarrow> callocs c' = [])"
    and "callocs (fst w) = []" "packets \<noteq> []"
  shows "receive_packets (processCompleteChunk cb) packets w = UA_Connection_processChunks (processCompleteChunk cb) (concat packets) w"
proof -
  have "message_handler cb" by unfold_locales (use assms(1) in blast)+
  from message_handler.any_packets [OF this assms(2)] assms(3) show ?thesis
    by (cases packets) simp_all
qed

lemma collect_keeps:
  "\<forall>t i bs (ch :: 'k channel) c a r ch' c' a'. collect t i bs (ch, c, a) = (r, ch', c', a')
      \<longrightarrow> incompleteMessage c' = incompleteMessage c \<and> (callocs c = [] \<longrightarrow> callocs c' = [])"
  by (simp add: collect_def)

theorem packets_independent_witness:
  "receive_packets (processCompleteChunk collect) [[77, 83], [71], [70, 0]] (demo_conn, Some (plain_channel, []))
    = (GOOD, demo_conn\<lparr>incompleteMessage := [77, 83, 71, 70, 0]\<rparr>, Some (plain_channel, []))"
proof -
  have c: "callocs (fst (demo_conn, Some (plain_channel, []))) = []" "incompleteMessage demo_conn = []"
    by (simp_all add: demo_conn_def)
  show ?thesis
    using packets_independent [OF collect_keeps c(1), of "[[77, 83], [71], [70, 0]]"] c
    by (simp add: UA_Connection_processChunks_def processChunks_loop.simps processChunk_short bufferIncompleteChunk_def
        del: receive_packets.simps)
qed

text \<open>C39: The bytes that are kept between packets are bounded, for any packet and any state: they are less than a receive buffer (or less than a
  message header, if the buffer is smaller), so a peer cannot make a connection collect memory.\<close>

theorem stored_bytes_bounded:
  assumes "\<forall>t i bs ch c a r ch' c' a'. cb t i bs (ch, c, a) = (r, ch', c', a')
      \<longrightarrow> incompleteMessage c' = incompleteMessage c \<and> (callocs c = [] \<longrightarrow> callocs c' = [])"
    and "UA_Connection_processChunks (processCompleteChunk cb) packet w = (r, w')"
  shows "length (incompleteMessage (fst w')) < max 8 (unat (recvBufferSize (localConf (fst w'))))"
proof -
  have "message_handler cb" by unfold_locales (use assms(1) in blast)+
  from message_handler.any_stored [OF this assms(2)] show ?thesis
    by (simp add: stored_ok_def)
qed

theorem stored_bytes_bounded_witness:
  "\<exists>r w'. UA_Connection_processChunks (processCompleteChunk collect) (replicate 300 77) (demo_conn, Some (plain_channel, [])) = (r, w')
    \<and> length (incompleteMessage (fst w')) < max 8 (unat (recvBufferSize (localConf (fst w'))))"
proof -
  obtain r w' where "UA_Connection_processChunks (processCompleteChunk collect) (replicate 300 77) (demo_conn, Some (plain_channel, [])) = (r, w')"
    by (cases "UA_Connection_processChunks (processCompleteChunk collect) (replicate 300 77) (demo_conn, Some (plain_channel, []))")
  with stored_bytes_bounded [OF collect_keeps this] show ?thesis by blast
qed

subsection \<open>Waiting\<close>

text \<open>C40: Waiting for a chunk keeps its deadline: every call of \<open>recv\<close> gets a timeout of at least one and at most the given number of milliseconds, and
  waits no longer than a millisecond beyond the deadline.\<close>

theorem receive_deadline:
  assumes "UA_Connection_receiveChunksBlocking cb timeout now evs w = Some (r, ts, w')"
    and "1 \<le> timeout" "sorted (now # map clock evs)"
  shows "list_all (\<lambda>(t, s). 1 \<le> t \<and> t \<le> timeout
      \<and> s + int (unat t) * DATETIME_MSEC < now + int (unat timeout) * DATETIME_MSEC + DATETIME_MSEC) (zip ts (now # map clock evs))"
  unfolding list_all_iff
  using receive_blocking_timeouts [OF assms(1) [unfolded UA_Connection_receiveChunksBlocking_def], of now] assms(2,3) by simp

abbreviation (input) demo_events :: "(status \<times> u8 list \<times> int) list" where
  "demo_events \<equiv> [(GOOD, [], 15000), (GOOD, [1, 2, 3], 42000), (GOOD, [], 60000)]"

theorem receive_deadline_witness:
  "UA_Connection_receiveChunksBlocking (\<lambda>chunk w. (GOOD, w)) 5 0 demo_events (demo_conn, ())
     = Some (GOODNONCRITICALTIMEOUT, [5, 4, 1], demo_conn\<lparr>incompleteMessage := [1, 2, 3]\<rparr>, False, ())
   \<and> list_all (\<lambda>(t, s). 1 \<le> t \<and> t \<le> 5 \<and> s + int (unat t) * DATETIME_MSEC < 60000) (zip [5 :: u32, 4, 1] (0 # map clock demo_events))"
proof -
  have "UA_Connection_receiveChunksBlocking (\<lambda>chunk w. (GOOD, w)) 5 0 demo_events (demo_conn, ())
      = Some (GOODNONCRITICALTIMEOUT, [5, 4, 1], demo_conn\<lparr>incompleteMessage := [1, 2, 3]\<rparr>, False, ())"
    by (simp add: UA_Connection_receiveChunksBlocking_def UA_Connection_processChunks_def processChunks_loop.simps processChunk_short
        prependIncompleteChunk_def bufferIncompleteChunk_def conn_alloc_def demo_conn_def remaining_timeout_def)
  from this receive_deadline [OF this] show ?thesis by simp
qed

subsection \<open>Malformed packets and lack of memory\<close>

text \<open>A malformed packet is dropped without an error: when the header of a packet is rejected before a chunk was complete, blocking receive
  ignores the error of the processing and waits for the next packet, in the same state.\<close>

theorem malformed_packet_dropped:
  assumes "8 \<le> length packet" "header_check packet (recvBufferSize (localConf (fst w))) \<noteq> GOOD"
    and "incompleteMessage (fst w) = []" and "now' < now + int (unat timeout) * DATETIME_MSEC"
  shows "UA_Connection_receiveChunksBlocking cb timeout now ((GOOD, packet, now') # evs) w
    = map_option (\<lambda>(r, ts, w'). (r, timeout # ts, w'))
        (receive_blocking cb (now + int (unat timeout) * DATETIME_MSEC) (remaining_timeout (now + int (unat timeout) * DATETIME_MSEC) now') evs
           (fst w, False, snd w))"
  unfolding UA_Connection_receiveChunksBlocking_def
  by (rule receive_blocking_drops_bad_header) (use assms in simp_all)

theorem malformed_packet_dropped_witness:
  "header_check (replicate 16 0) 64 = BADTCPMESSAGETYPEINVALID
   \<and> UA_Connection_receiveChunksBlocking (\<lambda>chunk w. (GOOD, w)) 5 0 [(GOOD, replicate 16 0, 10000), (BADCONNECTIONCLOSED, [], 20000)] (demo_conn, ())
     = Some (BADCONNECTIONCLOSED, [5, 4], demo_conn, False, ())"
proof -
  have h: "header_check (replicate 16 0) 64 = BADTCPMESSAGETYPEINVALID"
    by (simp add: header_check_def known_type_def)
  have c: "recvBufferSize (localConf demo_conn) = 64" "incompleteMessage demo_conn = []" by (simp_all add: demo_conn_def demo_conf_def)
  with h malformed_packet_dropped [of "replicate 16 0" "(demo_conn, ())" 10000 0 5 "\<lambda>chunk w. (GOOD, w)" "[(BADCONNECTIONCLOSED, [], 20000)]"]
  show ?thesis by (simp add: remaining_timeout_def)
qed

text \<open>Bytes are lost silently when there is no memory to keep them: the start of a chunk that comes in a packet of its own is dropped, and the status is
  GOOD, since the result of storing it is not looked at.\<close>

theorem bytes_lost_without_memory:
  assumes "incompleteMessage (fst w) = []" "0 < length packet" "length packet < 8" "callocs (fst w) = False # as"
  shows "UA_Connection_processChunks cb packet w = (GOOD, (fst w)\<lparr>callocs := as\<rparr>, snd w)"
  by (rule buffer_without_memory [OF assms])

theorem bytes_lost_without_memory_witness:
  "UA_Connection_processChunks (processCompleteChunk collect) [77, 83] (demo_conn\<lparr>callocs := [False]\<rparr>, Some (plain_channel, []))
    = (GOOD, demo_conn, Some (plain_channel, []))"
  using bytes_lost_without_memory [of "(demo_conn\<lparr>callocs := [False]\<rparr>, Some (plain_channel, []))" "[77, 83]" "[]"]
  by (simp add: demo_conn_def)

end
