(* ===== verification/Subscription.thy ===== *)
theory Subscription
  imports Binary_Generic
begin

text \<open>
  Subscriptions and their monitored items: src/src/server/ua_subscription.c, the notification queues of
  src/src/server/ua_subscription_datachange.c, the publish request queue of src/src/server/ua_session.c and the services on them
  in src/src/server/ua_services_subscription.c, in the default build without UA_ENABLE_SUBSCRIPTIONS_EVENTS.

  MonitoredItems, Notifications and Subscriptions have addresses (\<open>ptr\<close>), because a Notification is linked into two
  queues at the same time. The linked lists are lists of addresses in their order. Counters keep their width of 32 bits.
  Results of allocations are answers in the list \<open>allocs\<close> of the session (an empty list means that memory is available).
  Responses that are sent are appended to \<open>sent\<close>; times and log messages are left out. The functions of the timer
  component that (un)register callbacks are reduced to their flag.
\<close>

type_synonym ptr = nat

abbreviation (input) BADSUBSCRIPTIONIDINVALID :: status where "BADSUBSCRIPTIONIDINVALID \<equiv> 0x80280000"
abbreviation (input) BADMONITOREDITEMIDINVALID :: status where "BADMONITOREDITEMIDINVALID \<equiv> 0x80420000"
abbreviation (input) BADTOOMANYSUBSCRIPTIONS :: status where "BADTOOMANYSUBSCRIPTIONS \<equiv> 0x80770000"
abbreviation (input) BADTOOMANYPUBLISHREQUESTS :: status where "BADTOOMANYPUBLISHREQUESTS \<equiv> 0x80780000"
abbreviation (input) BADNOSUBSCRIPTION :: status where "BADNOSUBSCRIPTION \<equiv> 0x80790000"
abbreviation (input) BADSEQUENCENUMBERUNKNOWN :: status where "BADSEQUENCENUMBERUNKNOWN \<equiv> 0x807A0000"
abbreviation (input) BADMESSAGENOTAVAILABLE :: status where "BADMESSAGENOTAVAILABLE \<equiv> 0x807B0000"

subsection \<open>State\<close>

datatype monitored_item_type = CHANGENOTIFY | STATUSNOTIFY | EVENTNOTIFY

text \<open>
  Doubles are kept as their 64 bits. The filter is a union in the code: a data change filter with its trigger, deadband type
  and deadband value, or an event filter (whose content is not used in this build).
\<close>

record data_change_filter =
  filterTrigger :: u32
  deadbandType :: u32
  deadbandValue :: u64

datatype monitoring_filter = DataChangeFilter data_change_filter | EventFilter

record notification =
  nmon :: ptr
  nvalue :: datavalue

record monitored_item =
  monitoredItemId :: u32
  clientHandle :: u32
  monitoredItemType :: monitored_item_type
  monitoringMode :: u32
  attributeId :: u32
  samplingInterval :: u64
  maxQueueSize :: u32
  discardOldest :: bool
  queue :: "ptr list"
  queueSize :: u32
  sampleCallbackIsRegistered :: bool
  lastSampledValue :: ustring
  lastValue :: variant
  monFilter :: monitoring_filter

text \<open>The content of a NotificationMessage: the client handles and values of its DataChangeNotification.\<close>

record notification_message =
  msgSequenceNumber :: u32
  changes :: "(u32 \<times> datavalue) list"

datatype subscription_state = NORMAL | LATE | KEEPALIVE

record subscription =
  subscriptionId :: u32
  lifeTimeCount :: u32
  maxKeepAliveCount :: u32
  publishingInterval :: u64
  notificationsPerPublish :: u32
  publishingEnabled :: bool
  priority :: u32
  substate :: subscription_state
  sequenceNumber :: u32
  currentKeepAliveCount :: u32
  currentLifetimeCount :: u32
  publishCallbackIsRegistered :: bool
  lastMonitoredItemId :: u32
  monitoredItems :: "ptr list"
  monitoredItemsSize :: u32
  notificationQueue :: "ptr list"
  notificationQueueSize :: u32
  dataChangeNotifications :: u32
  eventNotifications :: u32
  statusChangeNotifications :: u32
  readyNotifications :: u32
  retransmissionQueue :: "notification_message list"
  retransmissionQueueSize :: u32
  mons :: "ptr \<Rightarrow> monitored_item option"
  notifs :: "ptr \<Rightarrow> notification option"

definition mon_at :: "subscription \<Rightarrow> ptr \<Rightarrow> monitored_item" where
  "mon_at s m = the (mons s m)"

definition notif_at :: "subscription \<Rightarrow> ptr \<Rightarrow> notification" where
  "notif_at s n = the (notifs s n)"

definition set_mon :: "ptr \<Rightarrow> monitored_item \<Rightarrow> subscription \<Rightarrow> subscription" where
  "set_mon m x s = s\<lparr>mons := (mons s)(m \<mapsto> x)\<rparr>"

definition set_notif :: "ptr \<Rightarrow> notification \<Rightarrow> subscription \<Rightarrow> subscription" where
  "set_notif n x s = s\<lparr>notifs := (notifs s)(n \<mapsto> x)\<rparr>"

subsection \<open>The queues of notifications\<close>

definition count_type :: "monitored_item_type \<Rightarrow> (u32 \<Rightarrow> u32) \<Rightarrow> subscription \<Rightarrow> subscription" where
  "count_type t f s =
     (case t of
        CHANGENOTIFY \<Rightarrow> s\<lparr>dataChangeNotifications := f (dataChangeNotifications s)\<rparr>
      | EVENTNOTIFY \<Rightarrow> s\<lparr>eventNotifications := f (eventNotifications s)\<rparr>
      | STATUSNOTIFY \<Rightarrow> s\<lparr>statusChangeNotifications := f (statusChangeNotifications s)\<rparr>)"

definition UA_Notification_delete :: "ptr \<Rightarrow> ptr \<Rightarrow> subscription \<Rightarrow> subscription" where
  "UA_Notification_delete m n s =
     (let s1 = count_type (monitoredItemType (mon_at s m)) (\<lambda>k. k - 1) s;
          mon = mon_at s1 m;
          s2 = set_mon m (mon\<lparr>queue := remove1 n (queue mon), queueSize := queueSize mon - 1\<rparr>) s1
      in s2\<lparr>notificationQueue := remove1 n (notificationQueue s2),
            notificationQueueSize := notificationQueueSize s2 - 1,
            notifs := (notifs s2)(n := None)\<rparr>)"

fun insert_after :: "'a \<Rightarrow> 'a \<Rightarrow> 'a list \<Rightarrow> 'a list" where
  "insert_after d a [] = []"
| "insert_after d a (x # xs) = (if x = d then x # a # xs else x # insert_after d a xs)"

text \<open>
  The notification to delete and the one that takes its place in the global queue. The code asserts that
  there are two notifications.
\<close>

definition overflow_victim :: "monitored_item \<Rightarrow> (ptr \<times> ptr) option" where
  "overflow_victim mon =
     (if discardOldest mon
      then (case queue mon of del # after_del # _ \<Rightarrow> Some (del, after_del) | _ \<Rightarrow> None)
      else (case rev (queue mon) of after_del # del # _ \<Rightarrow> Some (del, after_del) | _ \<Rightarrow> None))"

definition move_behind :: "ptr \<Rightarrow> ptr \<Rightarrow> subscription \<Rightarrow> subscription" where
  "move_behind del after_del s =
     s\<lparr>notificationQueue := insert_after del after_del (remove1 after_del (notificationQueue s))\<rparr>"

lemma queueSize_delete:
  "queueSize (mon_at (UA_Notification_delete m n s) m) = queueSize (mon_at s m) - 1"
  by (simp add: UA_Notification_delete_def Let_def mon_at_def set_mon_def count_type_def split: monitored_item_type.split)

lemma mon_at_move_behind [simp]: "mon_at (move_behind d a s) m = mon_at s m"
  by (simp add: mon_at_def move_behind_def)

function overflow_loop :: "ptr \<Rightarrow> subscription \<Rightarrow> subscription" where
  "overflow_loop m s =
     (if queueSize (mon_at s m) > maxQueueSize (mon_at s m) then
        (case overflow_victim (mon_at s m) of
           None \<Rightarrow> s
         | Some (del, after_del) \<Rightarrow> overflow_loop m (UA_Notification_delete m del (move_behind del after_del s)))
      else s)"
  by pat_completeness auto
termination
proof (relation "measure (\<lambda>(m, s). unat (queueSize (mon_at s m)))", goal_cases)
  case 1
  show ?case by simp
next
  case (2 m s x del after_del)
  then have "queueSize (mon_at s m) \<noteq> 0"
    by auto
  then show ?case
    by (simp add: queueSize_delete unat_minus_one unat_gt_0)
qed

declare overflow_loop.simps [simp del]

definition INFOBITS :: u32 where
  "INFOBITS = 0x400 OR 0x80"

definition mark_overflow :: "ptr \<Rightarrow> subscription \<Rightarrow> subscription" where
  "mark_overflow m s =
     (let mon = mon_at s m in
      if monitoredItemType mon \<noteq> CHANGENOTIFY \<or> queue mon = [] then s
      else
        (let n = (if discardOldest mon then hd (queue mon) else last (queue mon));
             x = notif_at s n;
             v = nvalue x;
             st = (if maxQueueSize mon > 1
                   then Some ((case dvStatus v of None \<Rightarrow> 0 | Some st \<Rightarrow> st) OR INFOBITS)
                   else map_option (\<lambda>st. st AND NOT INFOBITS) (dvStatus v))
         in set_notif n (x\<lparr>nvalue := DataValue (dvValue v) st (dvSourceTimestamp v) (dvSourcePicoseconds v)
              (dvServerTimestamp v) (dvServerPicoseconds v)\<rparr>) s))"

definition MonitoredItem_ensureQueueSpace :: "ptr \<Rightarrow> subscription \<Rightarrow> subscription" where
  "MonitoredItem_ensureQueueSpace m s =
     (if queueSize (mon_at s m) \<le> maxQueueSize (mon_at s m) then s else mark_overflow m (overflow_loop m s))"

text \<open>The notification \<open>x\<close> is allocated at \<open>n\<close> by the caller.\<close>

definition enqueue_both :: "ptr \<Rightarrow> ptr \<Rightarrow> notification \<Rightarrow> subscription \<Rightarrow> subscription" where
  "enqueue_both m n x s =
     (let mon = mon_at s m;
          s1 = set_mon m (mon\<lparr>queue := queue mon @ [n], queueSize := queueSize mon + 1\<rparr>) (set_notif n x s)
      in count_type (monitoredItemType mon) (\<lambda>k. k + 1)
           (s1\<lparr>notificationQueue := notificationQueue s1 @ [n], notificationQueueSize := notificationQueueSize s1 + 1\<rparr>))"

definition UA_Notification_enqueue :: "ptr \<Rightarrow> ptr \<Rightarrow> notification \<Rightarrow> subscription \<Rightarrow> subscription" where
  "UA_Notification_enqueue m n x s = MonitoredItem_ensureQueueSpace m (enqueue_both m n x s)"

subsection \<open>Monitored items\<close>

fun delete_all :: "ptr \<Rightarrow> ptr list \<Rightarrow> subscription \<Rightarrow> subscription" where
  "delete_all m [] s = s"
| "delete_all m (n # ns) s = delete_all m ns (UA_Notification_delete m n s)"

definition UA_MonitoredItem_delete :: "ptr \<Rightarrow> subscription \<Rightarrow> subscription" where
  "UA_MonitoredItem_delete m s =
     (let mon = mon_at s m;
          s1 = (if monitoredItemType mon = CHANGENOTIFY
                then set_mon m (mon\<lparr>sampleCallbackIsRegistered := False\<rparr>) s else s);
          s2 = delete_all m (queue (mon_at s1 m)) s1
      in s2\<lparr>mons := (mons s2)(m := None)\<rparr>)"

definition UA_Subscription_getMonitoredItem :: "u32 \<Rightarrow> subscription \<Rightarrow> ptr option" where
  "UA_Subscription_getMonitoredItem mid s = find (\<lambda>m. monitoredItemId (mon_at s m) = mid) (monitoredItems s)"

definition UA_Subscription_deleteMonitoredItem :: "u32 \<Rightarrow> subscription \<Rightarrow> status \<times> subscription" where
  "UA_Subscription_deleteMonitoredItem mid s =
     (case find (\<lambda>m. monitoredItemId (mon_at s m) = mid) (monitoredItems s) of
        None \<Rightarrow> (BADMONITOREDITEMIDINVALID, s)
      | Some m \<Rightarrow>
          (GOOD, UA_MonitoredItem_delete m
             (s\<lparr>monitoredItems := remove1 m (monitoredItems s), monitoredItemsSize := monitoredItemsSize s - 1\<rparr>)))"

definition UA_Subscription_addMonitoredItem :: "ptr \<Rightarrow> monitored_item \<Rightarrow> subscription \<Rightarrow> subscription" where
  "UA_Subscription_addMonitoredItem m mon s =
     s\<lparr>monitoredItemsSize := monitoredItemsSize s + 1, monitoredItems := m # monitoredItems s, mons := (mons s)(m \<mapsto> mon)\<rparr>"

fun delete_items :: "ptr list \<Rightarrow> subscription \<Rightarrow> subscription" where
  "delete_items [] s = s"
| "delete_items (m # ms) s =
     delete_items ms (UA_MonitoredItem_delete m (s\<lparr>monitoredItems := remove1 m (monitoredItems s)\<rparr>))"

subsection \<open>Retransmission\<close>

record server_config =
  maxRetransmissionQueueSize :: u32
  cfgMaxNotificationsPerPublish :: u32
  maxSubscriptionsPerSession :: u32
  maxPublishReqPerSession :: u32
  publishingIntervalLimits :: "u64 \<times> u64"
  keepAliveCountLimits :: "u32 \<times> u32"
  lifeTimeCountLimits :: "u32 \<times> u32"
  maxMonitoredItemsPerCall :: u32
  samplingIntervalLimits :: "u64 \<times> u64"
  queueSizeLimits :: "u32 \<times> u32"

text \<open>New messages are put at the head of the queue, the oldest one is at its tail.\<close>

definition UA_Subscription_addRetransmissionMessage ::
  "server_config \<Rightarrow> notification_message \<Rightarrow> subscription \<Rightarrow> subscription" where
  "UA_Subscription_addRetransmissionMessage cfg entry s =
     (let s1 = (if maxRetransmissionQueueSize cfg > 0 \<and> retransmissionQueueSize s \<ge> maxRetransmissionQueueSize cfg
                then s\<lparr>retransmissionQueue := butlast (retransmissionQueue s),
                       retransmissionQueueSize := retransmissionQueueSize s - 1\<rparr>
                else s)
      in s1\<lparr>retransmissionQueue := entry # retransmissionQueue s1, retransmissionQueueSize := retransmissionQueueSize s1 + 1\<rparr>)"

definition UA_Subscription_removeRetransmissionMessage :: "u32 \<Rightarrow> subscription \<Rightarrow> status \<times> subscription" where
  "UA_Subscription_removeRetransmissionMessage seqnr s =
     (case find (\<lambda>e. msgSequenceNumber e = seqnr) (retransmissionQueue s) of
        None \<Rightarrow> (BADSEQUENCENUMBERUNKNOWN, s)
      | Some e \<Rightarrow> (GOOD, s\<lparr>retransmissionQueue := remove1 e (retransmissionQueue s),
                          retransmissionQueueSize := retransmissionQueueSize s - 1\<rparr>))"

subsection \<open>Publishing\<close>

text \<open>
  The loop of \<open>prepareNotificationMessage\<close>: \<open>todo\<close> is the rest of the queue, \<open>k\<close> the number of notifications that
  may still be moved. Without events only data changes are moved.
\<close>

fun prepare_loop :: "ptr list \<Rightarrow> nat \<Rightarrow> subscription \<Rightarrow> (u32 \<times> datavalue) list \<times> subscription" where
  "prepare_loop [] k s = ([], s)"
| "prepare_loop (n # todo) k s =
     (if k = 0 then ([], s)
      else
        (let m = nmon (notif_at s n) in
         if monitoredItemType (mon_at s m) = CHANGENOTIFY then
           (let (xs, s') = prepare_loop todo (k - 1) (UA_Notification_delete m n s)
            in ((clientHandle (mon_at s m), nvalue (notif_at s n)) # xs, s'))
         else prepare_loop todo k s))"

definition UA_Subscription_nextSequenceNumber :: "u32 \<Rightarrow> u32" where
  "UA_Subscription_nextSequenceNumber n = (if n + 1 = 0 then 1 else n + 1)"

record publish_response =
  respRequestId :: u32
  respRequestHandle :: u32
  serviceResult :: status
  respSubscriptionId :: u32
  moreNotifications :: bool
  notificationMessage :: notification_message
  availableSequenceNumbers :: "u32 list"
  results :: "status list"

text \<open>A queued publish request: the response with the results of the acknowledgements filled in.\<close>

record publish_entry =
  requestId :: u32
  requestHandle :: u32
  ackResults :: "status list"

record session =
  serverSubscriptions :: "ptr list"
  subs :: "ptr \<Rightarrow> subscription option"
  numSubscriptions :: u32
  lastSubscriptionId :: u32
  lastSeenSubscriptionId :: u32
  responseQueue :: "publish_entry list"
  numPublishReq :: u32
  channelOpen :: bool
  sent :: "publish_response list"
  allocs :: "bool list"

definition sub_at :: "session \<Rightarrow> ptr \<Rightarrow> subscription" where
  "sub_at w p = the (subs w p)"

definition set_sub :: "ptr \<Rightarrow> subscription \<Rightarrow> session \<Rightarrow> session" where
  "set_sub p s w = w\<lparr>subs := (subs w)(p \<mapsto> s)\<rparr>"

definition alloc :: "session \<Rightarrow> bool \<times> session" where
  "alloc w = (case allocs w of [] \<Rightarrow> (True, w) | b # bs \<Rightarrow> (b, w\<lparr>allocs := bs\<rparr>))"

text \<open>Several allocations, up to the first one that fails.\<close>

fun alloc_all :: "nat \<Rightarrow> session \<Rightarrow> bool \<times> session" where
  "alloc_all 0 w = (True, w)"
| "alloc_all (Suc k) w = (case alloc w of (False, w1) \<Rightarrow> (False, w1) | (True, w1) \<Rightarrow> alloc_all k w1)"

definition UA_Session_dequeuePublishReq :: "session \<Rightarrow> publish_entry option \<times> session" where
  "UA_Session_dequeuePublishReq w =
     (case responseQueue w of
        [] \<Rightarrow> (None, w)
      | e # es \<Rightarrow> (Some e, w\<lparr>responseQueue := es, numPublishReq := numPublishReq w - 1\<rparr>))"

definition UA_Session_queuePublishReq :: "publish_entry \<Rightarrow> bool \<Rightarrow> session \<Rightarrow> session" where
  "UA_Session_queuePublishReq e head w =
     w\<lparr>responseQueue := (if head then e # responseQueue w else responseQueue w @ [e]), numPublishReq := numPublishReq w + 1\<rparr>"

definition UA_Session_getSubscriptionById :: "u32 \<Rightarrow> session \<Rightarrow> ptr option" where
  "UA_Session_getSubscriptionById sid w = find (\<lambda>p. subscriptionId (sub_at w p) = sid) (serverSubscriptions w)"

text \<open>
  The timer answers with an error when it has no memory. A failure to remove the publish callback is ignored when a subscription
  is deleted.
\<close>

definition Subscription_registerPublishCallback :: "ptr \<Rightarrow> session \<Rightarrow> status \<times> session" where
  "Subscription_registerPublishCallback p w =
     (if publishCallbackIsRegistered (sub_at w p) then (GOOD, w)
      else (case alloc w of
              (False, w1) \<Rightarrow> (BADOUTOFMEMORY, w1)
            | (True, w1) \<Rightarrow> (GOOD, set_sub p ((sub_at w1 p)\<lparr>publishCallbackIsRegistered := True\<rparr>) w1)))"

definition Subscription_unregisterPublishCallback :: "ptr \<Rightarrow> session \<Rightarrow> status \<times> session" where
  "Subscription_unregisterPublishCallback p w =
     (if \<not> publishCallbackIsRegistered (sub_at w p) then (GOOD, w)
      else (case alloc w of
              (False, w1) \<Rightarrow> (BADOUTOFMEMORY, w1)
            | (True, w1) \<Rightarrow> (GOOD, set_sub p ((sub_at w1 p)\<lparr>publishCallbackIsRegistered := False\<rparr>) w1)))"

definition UA_Subscription_deleteMembers :: "ptr \<Rightarrow> session \<Rightarrow> session" where
  "UA_Subscription_deleteMembers p w =
     (let w1 = snd (Subscription_unregisterPublishCallback p w);
          s1 = delete_items (monitoredItems (sub_at w1 p)) (sub_at w1 p)
      in set_sub p (s1\<lparr>monitoredItemsSize := 0, retransmissionQueue := [], retransmissionQueueSize := 0\<rparr>) w1)"

definition UA_Session_deleteSubscription :: "u32 \<Rightarrow> session \<Rightarrow> status \<times> session" where
  "UA_Session_deleteSubscription sid w =
     (case UA_Session_getSubscriptionById sid w of
        None \<Rightarrow> (BADSUBSCRIPTIONIDINVALID, w)
      | Some p \<Rightarrow>
          (let w1 = UA_Subscription_deleteMembers p w;
               (ok, w2) = alloc w1
           in if \<not> ok then (BADOUTOFMEMORY, w2)
              else (GOOD, w2\<lparr>serverSubscriptions := remove1 p (serverSubscriptions w2), numSubscriptions := numSubscriptions w2 - 1\<rparr>)))"

text \<open>
  The array of extension objects is allocated, and the DataChangeNotification and its array if there are data changes.
  \<open>monitoredItemsSize\<close> of the DataChangeNotification is set to the number of elements in the end.
\<close>

definition prepareNotificationMessage :: "ptr \<Rightarrow> u32 \<Rightarrow> session \<Rightarrow> status \<times> (u32 \<times> datavalue) list \<times> session" where
  "prepareNotificationMessage p notifications w =
     (case alloc_all (if dataChangeNotifications (sub_at w p) > 0 then 3 else 1) w of
        (False, w1) \<Rightarrow> (BADOUTOFMEMORY, [], w1)
      | (True, w1) \<Rightarrow>
          (let (xs, s) = prepare_loop (notificationQueue (sub_at w1 p)) (unat notifications) (sub_at w1 p)
           in (GOOD, xs, set_sub p s w1)))"

text \<open>The number of notifications for the next response and whether there are more.\<close>

definition ready_notifications :: "subscription \<Rightarrow> u32" where
  "ready_notifications s =
     (if readyNotifications s > notificationQueueSize s then notificationQueueSize s else readyNotifications s)"

definition publish_count :: "subscription \<Rightarrow> u32 \<times> bool" where
  "publish_count s =
     (let n = (if publishingEnabled s then readyNotifications s else 0)
      in if n > notificationsPerPublish s then (notificationsPerPublish s, True) else (n, False))"

definition late :: "ptr \<Rightarrow> publish_entry option \<Rightarrow> session \<Rightarrow> session" where
  "late p pre w =
     (let w1 = set_sub p ((sub_at w p)\<lparr>substate := LATE\<rparr>) w
      in case pre of None \<Rightarrow> w1 | Some e \<Rightarrow> UA_Session_queuePublishReq e True w1)"

text \<open>Behind the point of no return: the message \<open>xs\<close> with \<open>notifications\<close> is sent for the request \<open>e\<close>.\<close>

definition send_response ::
  "server_config \<Rightarrow> ptr \<Rightarrow> publish_entry \<Rightarrow> u32 \<Rightarrow> bool \<Rightarrow> (u32 \<times> datavalue) list \<Rightarrow> session \<Rightarrow> session" where
  "send_response cfg p e notifications again xs w =
     (let s = sub_at w p;
          s1 = s\<lparr>readyNotifications := readyNotifications s - notifications\<rparr>;
          msg = \<lparr>msgSequenceNumber = UA_Subscription_nextSequenceNumber (sequenceNumber s1), changes = xs\<rparr>;
          s2 = (if notifications > 0
                then UA_Subscription_addRetransmissionMessage cfg msg (s1\<lparr>sequenceNumber := msgSequenceNumber msg\<rparr>)
                else s1);
          resp = \<lparr>respRequestId = requestId e, respRequestHandle = requestHandle e, serviceResult = GOOD, respSubscriptionId = subscriptionId s2,
                  moreNotifications = again, notificationMessage = msg,
                  availableSequenceNumbers = map msgSequenceNumber (retransmissionQueue s2), results = ackResults e\<rparr>
      in (set_sub p (s2\<lparr>substate := NORMAL, currentKeepAliveCount := 0\<rparr>) w)\<lparr>sent := sent w @ [resp]\<rparr>)"

text \<open>
  The first part of \<open>UA_Subscription_publish\<close>: a request is taken from the queue, or the lifetime counter runs. \<open>None\<close>
  as the second result means that the subscription has expired.
\<close>

definition publish_request :: "ptr \<Rightarrow> session \<Rightarrow> publish_entry option \<times> session option" where
  "publish_request p w =
     (case UA_Session_dequeuePublishReq w of
        (Some e, w1) \<Rightarrow> (Some e, Some (set_sub p ((sub_at w1 p)\<lparr>currentLifetimeCount := 0\<rparr>) w1))
      | (None, w1) \<Rightarrow>
          (let s = (sub_at w1 p)\<lparr>currentLifetimeCount := currentLifetimeCount (sub_at w1 p) + 1\<rparr>
           in if currentLifetimeCount s > lifeTimeCount s then (None, None)
              else (None, Some (set_sub p s w1))))"

definition expire :: "ptr \<Rightarrow> session \<Rightarrow> session" where
  "expire p w =
     (let s = (sub_at w p)\<lparr>currentLifetimeCount := currentLifetimeCount (sub_at w p) + 1\<rparr>
      in snd (UA_Session_deleteSubscription (subscriptionId s) (set_sub p s w)))"

text \<open>The number of notifications to send, whether there are more, and the keep alive counter.\<close>

definition count_notifications :: "ptr \<Rightarrow> session \<Rightarrow> u32 \<times> bool \<times> session" where
  "count_notifications p w =
     (let s1 = (sub_at w p)\<lparr>readyNotifications := ready_notifications (sub_at w p)\<rparr>;
          (notifications, again) = publish_count s1;
          s2 = (if notifications = 0 then s1\<lparr>currentKeepAliveCount := currentKeepAliveCount s1 + 1\<rparr> else s1)
      in (notifications, again, set_sub p s2 w))"

text \<open>The rest of the body. The result tells whether the function calls itself again.\<close>

definition respond :: "server_config \<Rightarrow> ptr \<Rightarrow> publish_entry option \<Rightarrow> u32 \<Rightarrow> bool \<Rightarrow> session \<Rightarrow> bool \<times> session" where
  "respond cfg p pre notifications again w =
     (if notifications = 0 \<and> currentKeepAliveCount (sub_at w p) < maxKeepAliveCount (sub_at w p)
      then (False, case pre of None \<Rightarrow> w | Some e \<Rightarrow> UA_Session_queuePublishReq e True w)
      else
        (case pre of
           None \<Rightarrow> (False, late p None w)
         | Some e \<Rightarrow>
             if \<not> channelOpen w then (False, late p (Some e) w)
             else if notifications = 0 then (again, send_response cfg p e 0 again [] w)
             else
               (case alloc w of
                  (False, w1) \<Rightarrow> (False, late p (Some e) w1)
                | (True, w1) \<Rightarrow>
                    (let (r, xs, w2) = prepareNotificationMessage p notifications w1
                     in if r \<noteq> GOOD then (False, late p (Some e) w2)
                        else (again, send_response cfg p e notifications again xs w2)))))"

definition publish_once :: "server_config \<Rightarrow> ptr \<Rightarrow> session \<Rightarrow> bool \<times> session" where
  "publish_once cfg p w =
     (case publish_request p w of
        (_, None) \<Rightarrow> (False, expire p w)
      | (pre, Some w1) \<Rightarrow> (let (notifications, again, w2) = count_notifications p w1 in respond cfg p pre notifications again w2))"

lemma alloc_only: "alloc w = (b, w') \<Longrightarrow> \<exists>as. w' = w\<lparr>allocs := as\<rparr>"
  by (cases w) (auto simp: alloc_def split: list.splits)

lemma alloc_all_only: "alloc_all k w = (b, w') \<Longrightarrow> \<exists>as. w' = w\<lparr>allocs := as\<rparr>"
proof (induction k arbitrary: w)
  case 0
  then show ?case by (cases w) auto
next
  case (Suc k)
  obtain c w1 where c: "alloc w = (c, w1)" by fastforce
  then obtain as where w1: "w1 = w\<lparr>allocs := as\<rparr>"
    using alloc_only by blast
  show ?case
  proof (cases c)
    case True
    with Suc.prems c have "alloc_all k w1 = (b, w')" by simp
    from Suc.IH [OF this] w1 show ?thesis by auto
  next
    case False
    with Suc.prems c w1 show ?thesis by auto
  qed
qed

lemma prepareNotificationMessage_queue: "prepareNotificationMessage p n w = (r, xs, w') \<Longrightarrow> responseQueue w' = responseQueue w"
  by (auto simp: prepareNotificationMessage_def set_sub_def Let_def simp del: alloc_all.simps dest!: alloc_all_only
      split: prod.splits bool.splits)

lemma respond_queue: "respond cfg p (Some e) n again w = (True, w') \<Longrightarrow> responseQueue w' = responseQueue w"
  by (auto simp: respond_def Let_def send_response_def set_sub_def dest!: prepareNotificationMessage_queue alloc_only
      split: prod.splits if_splits bool.splits)

lemma respond_none: "fst (respond cfg p None n again w) = False"
  by (simp add: respond_def)

lemma publish_once_again:
  assumes "publish_once cfg p w = (True, w')"
  shows "length (responseQueue w') < length (responseQueue w)"
proof (cases "responseQueue w")
  case Nil
  with assms show ?thesis
    using respond_none [of cfg p]
    by (auto simp: publish_once_def publish_request_def UA_Session_dequeuePublishReq_def Let_def split: if_splits prod.splits)
      (metis fst_conv)
next
  case (Cons e es)
  with assms show ?thesis
    by (auto simp: publish_once_def publish_request_def UA_Session_dequeuePublishReq_def count_notifications_def Let_def set_sub_def
        dest!: respond_queue split: prod.splits)
qed

function UA_Subscription_publish :: "server_config \<Rightarrow> ptr \<Rightarrow> session \<Rightarrow> session" where
  "UA_Subscription_publish cfg p w =
     (let (again, w1) = publish_once cfg p w in if again then UA_Subscription_publish cfg p w1 else w1)"
  by pat_completeness auto
termination
  by (relation "measure (\<lambda>(cfg, p, w). length (responseQueue w))") (auto dest: publish_once_again sym)

declare UA_Subscription_publish.simps [simp del]

definition publishCallback :: "server_config \<Rightarrow> ptr \<Rightarrow> session \<Rightarrow> session" where
  "publishCallback cfg p w =
     UA_Subscription_publish cfg p
       (set_sub p ((sub_at w p)\<lparr>readyNotifications := notificationQueueSize (sub_at w p)\<rparr>) w)"

end
