(* ===== verification/Subscription_Queue.thy ===== *)
theory Subscription_Queue
  imports Subscription
begin

text \<open>
  The invariant of the notification queues of a subscription and the abstract queue that every monitored item
  implements. \<open>sub_wf\<close> says that the queue of an item is the part of the global queue that belongs to it, that
  no notification is leaked or dangling and that all counters are right (modulo their width); \<open>sub_inv\<close> adds the bound of the
  queues. The abstract queue (\<open>bounded_enqueue\<close>) is a list of values with a capacity.
\<close>

subsection \<open>Lists\<close>

lemma filter_insert_after: "\<not> P a \<Longrightarrow> filter P (insert_after d a xs) = filter P xs"
  by (induction xs) auto

lemma filter_insert_after_in: "P d \<Longrightarrow> P a \<Longrightarrow> filter P (insert_after d a xs) = insert_after d a (filter P xs)"
  by (induction xs) auto

lemma insert_after_append: "d \<notin> set xs \<Longrightarrow> insert_after d a (xs @ d # ys) = xs @ d # a # ys"
  by (induction xs) auto

lemma set_insert_after: "set (insert_after d a xs) = (if d \<in> set xs then insert a (set xs) else set xs)"
  by (induction xs) auto

lemma distinct_insert_after: "distinct xs \<Longrightarrow> a \<notin> set xs \<Longrightarrow> distinct (insert_after d a xs)"
  by (induction xs) (auto simp: set_insert_after)

lemma length_insert_after: "length (insert_after d a xs) = (if d \<in> set xs then Suc (length xs) else length xs)"
  by (induction xs) auto

lemma length_filter_insert_after:
  "d \<in> set xs \<Longrightarrow> length (filter P (insert_after d a xs)) = length (filter P xs) + of_bool (P a)"
  by (induction xs) auto

lemma length_filter_remove1: "x \<in> set xs \<Longrightarrow> length (filter P (remove1 x xs)) + of_bool (P x) = length (filter P xs)"
  by (induction xs) auto

text \<open>
  The place of the first element that is not in \<open>P\<close> stays the same when another one is removed, when an element is
  inserted behind one of them, and when the first one is replaced by an element inserted behind it.
\<close>

lemma takeWhile_remove1: "filter (\<lambda>x. \<not> P x) xs = y # ys \<Longrightarrow> a \<noteq> y \<Longrightarrow> \<not> P a \<Longrightarrow> takeWhile P (remove1 a xs) = takeWhile P xs"
  by (induction xs) (auto split: if_splits)

lemma takeWhile_insert_after: "\<not> P d \<Longrightarrow> takeWhile P (insert_after d a xs) = takeWhile P xs"
  by (induction xs) auto

lemma takeWhile_replace:
  "\<not> P d \<Longrightarrow> \<not> P a \<Longrightarrow> filter (\<lambda>x. \<not> P x) xs = d # ys \<Longrightarrow> takeWhile P (remove1 d (insert_after d a xs)) = takeWhile P xs"
  by (induction xs) (auto split: if_splits)

lemma of_nat_pred: "Suc a = b \<Longrightarrow> of_nat b - 1 = (of_nat a :: 'a::len word)"
  by auto

subsection \<open>The invariant\<close>

definition owner :: "subscription \<Rightarrow> ptr \<Rightarrow> ptr" where
  "owner s n = nmon (notif_at s n)"

definition kind :: "subscription \<Rightarrow> ptr \<Rightarrow> monitored_item_type" where
  "kind s n = monitoredItemType (mon_at s (owner s n))"

definition num_kind :: "subscription \<Rightarrow> monitored_item_type \<Rightarrow> nat" where
  "num_kind s t = length (filter (\<lambda>n. kind s n = t) (notificationQueue s))"

definition queues_ok :: "subscription \<Rightarrow> bool" where
  "queues_ok s \<longleftrightarrow> distinct (notificationQueue s) \<and> length (notificationQueue s) < 2 ^ 32
     \<and> (\<forall>n. notifs s n \<noteq> None \<longleftrightarrow> n \<in> set (notificationQueue s))
     \<and> (\<forall>n \<in> set (notificationQueue s). owner s n \<in> set (monitoredItems s))
     \<and> distinct (monitoredItems s) \<and> (\<forall>m. mons s m \<noteq> None \<longleftrightarrow> m \<in> set (monitoredItems s))
     \<and> (\<forall>m \<in> set (monitoredItems s). queue (mon_at s m) = filter (\<lambda>n. owner s n = m) (notificationQueue s)
          \<and> queueSize (mon_at s m) = of_nat (length (queue (mon_at s m))))"

definition counters_ok :: "subscription \<Rightarrow> bool" where
  "counters_ok s \<longleftrightarrow> notificationQueueSize s = of_nat (length (notificationQueue s))
     \<and> dataChangeNotifications s = of_nat (num_kind s CHANGENOTIFY)
     \<and> eventNotifications s = of_nat (num_kind s EVENTNOTIFY)
     \<and> statusChangeNotifications s = of_nat (num_kind s STATUSNOTIFY)"

definition sub_wf :: "subscription \<Rightarrow> bool" where
  "sub_wf s \<longleftrightarrow> queues_ok s \<and> counters_ok s"

definition sub_inv :: "subscription \<Rightarrow> bool" where
  "sub_inv s \<longleftrightarrow> sub_wf s \<and>
     (\<forall>m \<in> set (monitoredItems s). 1 \<le> maxQueueSize (mon_at s m) \<and> length (queue (mon_at s m)) \<le> unat (maxQueueSize (mon_at s m)))"

subsection \<open>Deleting a notification\<close>

lemma delete_sel [simp]:
  "monitoredItems (UA_Notification_delete m n s) = monitoredItems s"
  "notificationQueue (UA_Notification_delete m n s) = remove1 n (notificationQueue s)"
  "notificationQueueSize (UA_Notification_delete m n s) = notificationQueueSize s - 1"
  "notifs (UA_Notification_delete m n s) = (notifs s)(n := None)"
  "mons (UA_Notification_delete m n s) = (mons s)(m \<mapsto> (mon_at s m)\<lparr>queue := remove1 n (queue (mon_at s m)),
     queueSize := queueSize (mon_at s m) - 1\<rparr>)"
  by (simp_all add: UA_Notification_delete_def Let_def set_mon_def count_type_def mon_at_def split: monitored_item_type.split)

lemma delete_counters [simp]:
  "dataChangeNotifications (UA_Notification_delete m n s)
     = (if monitoredItemType (mon_at s m) = CHANGENOTIFY then dataChangeNotifications s - 1 else dataChangeNotifications s)"
  "eventNotifications (UA_Notification_delete m n s)
     = (if monitoredItemType (mon_at s m) = EVENTNOTIFY then eventNotifications s - 1 else eventNotifications s)"
  "statusChangeNotifications (UA_Notification_delete m n s)
     = (if monitoredItemType (mon_at s m) = STATUSNOTIFY then statusChangeNotifications s - 1 else statusChangeNotifications s)"
  by (simp_all add: UA_Notification_delete_def Let_def set_mon_def count_type_def mon_at_def split: monitored_item_type.split)

lemma mon_at_delete:
  "mon_at (UA_Notification_delete m n s) k = (if k = m then (mon_at s m)\<lparr>queue := remove1 n (queue (mon_at s m)),
     queueSize := queueSize (mon_at s m) - 1\<rparr> else mon_at s k)"
  by (simp add: mon_at_def [of "UA_Notification_delete m n s"]) (simp add: mon_at_def)

lemma owner_delete [simp]: "k \<noteq> n \<Longrightarrow> owner (UA_Notification_delete m n s) k = owner s k"
  by (simp add: owner_def notif_at_def)

lemma kind_delete [simp]: "k \<noteq> n \<Longrightarrow> kind (UA_Notification_delete m n s) k = kind s k"
  by (simp add: kind_def mon_at_delete)

lemma num_kind_delete:
  assumes "distinct (notificationQueue s)" "n \<in> set (notificationQueue s)"
  shows "num_kind (UA_Notification_delete m n s) t + of_bool (kind s n = t) = num_kind s t"
proof -
  have "filter (\<lambda>k. kind (UA_Notification_delete m n s) k = t) (remove1 n (notificationQueue s))
      = filter (\<lambda>k. kind s k = t) (remove1 n (notificationQueue s))"
    using assms(1) by (intro filter_cong) auto
  then show ?thesis
    using length_filter_remove1 [OF assms(2), of "\<lambda>k. kind s k = t"] by (simp add: num_kind_def)
qed

lemma queues_ok_delete:
  assumes "queues_ok s" "n \<in> set (notificationQueue s)" "m = owner s n"
  shows "queues_ok (UA_Notification_delete m n s)"
proof -
  let ?s = "UA_Notification_delete m n s"
  have q: "distinct (notificationQueue s)" "m \<in> set (monitoredItems s)"
    using assms by (auto simp: queues_ok_def)
  have flt: "filter (\<lambda>k. owner ?s k = l) (remove1 n (notificationQueue s)) = remove1 n (filter (\<lambda>k. owner s k = l) (notificationQueue s))" for l
    using q(1) by (subst filter_remove1 [symmetric], intro filter_cong) auto
  have "queue (mon_at ?s l) = filter (\<lambda>k. owner ?s k = l) (notificationQueue ?s) \<and> queueSize (mon_at ?s l) = of_nat (length (queue (mon_at ?s l)))"
    if "l \<in> set (monitoredItems s)" for l
  proof (cases "l = m")
    case True
    have "n \<in> set (filter (\<lambda>k. owner s k = m) (notificationQueue s))"
      using assms by simp
    then have "length (remove1 n (filter (\<lambda>k. owner s k = m) (notificationQueue s))) + 1 = length (filter (\<lambda>k. owner s k = m) (notificationQueue s))"
      by (metis One_nat_def Suc_pred add.commute length_pos_if_in_set length_remove1 plus_1_eq_Suc)
    then have "of_nat (length (filter (\<lambda>k. owner s k = m) (notificationQueue s))) - 1
        = (of_nat (length (remove1 n (filter (\<lambda>k. owner s k = m) (notificationQueue s)))) :: u32)"
      by (metis add_diff_cancel_right' of_nat_1 of_nat_add)
    with True q assms(1) show ?thesis
      by (simp add: mon_at_delete flt queues_ok_def)
  next
    case False
    have "remove1 n (filter (\<lambda>k. owner s k = l) (notificationQueue s)) = filter (\<lambda>k. owner s k = l) (notificationQueue s)"
      using False assms(3) by (intro remove1_idem) auto
    with False that assms(1) show ?thesis
      by (simp add: mon_at_delete flt queues_ok_def)
  qed
  moreover have "length (remove1 n (notificationQueue s)) < 2 ^ 32"
    using assms(1) by (auto simp: queues_ok_def length_remove1)
  ultimately show ?thesis
    using assms q by (auto simp: queues_ok_def)
qed

lemma counters_ok_delete:
  assumes "counters_ok s" "distinct (notificationQueue s)" "n \<in> set (notificationQueue s)" "m = owner s n"
  shows "counters_ok (UA_Notification_delete m n s)"
proof -
  have k: "monitoredItemType (mon_at s m) = kind s n"
    using assms(4) by (simp add: kind_def)
  have c: "of_nat (num_kind s t) - (if kind s n = t then 1 else 0 :: u32) = of_nat (num_kind (UA_Notification_delete m n s) t)" for t
    using num_kind_delete [OF assms(2,3), of m t] of_nat_pred [of _ "num_kind s t"]
    by (cases "kind s n = t") simp_all
  have "of_nat (length (notificationQueue s)) - (1 :: u32) = of_nat (length (remove1 n (notificationQueue s)))"
    using length_pos_if_in_set [OF assms(3)] by (intro of_nat_pred) (simp add: length_remove1 assms(3))
  then show ?thesis
    using assms(1) c [of CHANGENOTIFY] c [of EVENTNOTIFY] c [of STATUSNOTIFY] by (simp add: counters_ok_def k split: if_splits)
qed

lemma sub_wf_delete:
  assumes "sub_wf s" "n \<in> set (notificationQueue s)" "m = owner s n"
  shows "sub_wf (UA_Notification_delete m n s)"
  using assms by (auto simp: sub_wf_def queues_ok_delete intro!: counters_ok_delete) (simp add: queues_ok_def)

subsection \<open>Adding a notification\<close>

lemma enqueue_sel [simp]:
  "monitoredItems (enqueue_both m n x s) = monitoredItems s"
  "notificationQueue (enqueue_both m n x s) = notificationQueue s @ [n]"
  "notificationQueueSize (enqueue_both m n x s) = notificationQueueSize s + 1"
  "notifs (enqueue_both m n x s) = (notifs s)(n \<mapsto> x)"
  "mons (enqueue_both m n x s) = (mons s)(m \<mapsto> (mon_at s m)\<lparr>queue := queue (mon_at s m) @ [n], queueSize := queueSize (mon_at s m) + 1\<rparr>)"
  "dataChangeNotifications (enqueue_both m n x s)
     = (if monitoredItemType (mon_at s m) = CHANGENOTIFY then dataChangeNotifications s + 1 else dataChangeNotifications s)"
  "eventNotifications (enqueue_both m n x s)
     = (if monitoredItemType (mon_at s m) = EVENTNOTIFY then eventNotifications s + 1 else eventNotifications s)"
  "statusChangeNotifications (enqueue_both m n x s)
     = (if monitoredItemType (mon_at s m) = STATUSNOTIFY then statusChangeNotifications s + 1 else statusChangeNotifications s)"
  by (simp_all add: enqueue_both_def Let_def set_mon_def set_notif_def count_type_def split: monitored_item_type.split)

lemma mon_at_enqueue:
  "mon_at (enqueue_both m n x s) k
     = (if k = m then (mon_at s m)\<lparr>queue := queue (mon_at s m) @ [n], queueSize := queueSize (mon_at s m) + 1\<rparr> else mon_at s k)"
  by (simp add: mon_at_def [of "enqueue_both m n x s"]) (simp add: mon_at_def)

lemma owner_enqueue [simp]: "owner (enqueue_both m n x s) k = (if k = n then nmon x else owner s k)"
  by (simp add: owner_def notif_at_def)

lemma kind_enqueue [simp]: "kind (enqueue_both m n x s) k = (if k = n then monitoredItemType (mon_at s (nmon x)) else kind s k)"
  by (simp add: kind_def mon_at_enqueue)

lemma fresh_notification: "queues_ok s \<Longrightarrow> notifs s n = None \<Longrightarrow> n \<notin> set (notificationQueue s)"
  unfolding queues_ok_def by blast

lemma num_kind_enqueue:
  assumes "n \<notin> set (notificationQueue s)"
  shows "num_kind (enqueue_both m n x s) t = num_kind s t + of_bool (monitoredItemType (mon_at s (nmon x)) = t)"
proof -
  have "filter (\<lambda>k. kind (enqueue_both m n x s) k = t) (notificationQueue s) = filter (\<lambda>k. kind s k = t) (notificationQueue s)"
    using assms by (intro filter_cong) auto
  then show ?thesis by (simp add: num_kind_def)
qed

lemma sub_wf_enqueue:
  assumes "sub_wf s" "m \<in> set (monitoredItems s)" "notifs s n = None" "nmon x = m" "length (notificationQueue s) + 1 < 2 ^ 32"
  shows "sub_wf (enqueue_both m n x s)"
proof -
  have q: "queues_ok s" and c: "counters_ok s"
    using assms(1) by (auto simp: sub_wf_def)
  note fr = fresh_notification [OF q assms(3)]
  have flt: "filter (\<lambda>k. owner (enqueue_both m n x s) k = l) (notificationQueue s) = filter (\<lambda>k. owner s k = l) (notificationQueue s)" for l
    using fr by (intro filter_cong) auto
  have "queues_ok (enqueue_both m n x s)"
    using q fr assms(2-5) by (auto simp: queues_ok_def mon_at_enqueue flt simp del: owner_enqueue) (auto simp: owner_def notif_at_def)
  moreover have "counters_ok (enqueue_both m n x s)"
    using c assms(4) by (auto simp: counters_ok_def num_kind_enqueue [OF fr])
  ultimately show ?thesis
    by (simp add: sub_wf_def)
qed

subsection \<open>One step of the overflow loop\<close>

lemma move_sel [simp]:
  "monitoredItems (move_behind d a s) = monitoredItems s"
  "notificationQueue (move_behind d a s) = insert_after d a (remove1 a (notificationQueue s))"
  "notifs (move_behind d a s) = notifs s" "mons (move_behind d a s) = mons s"
  "owner (move_behind d a s) = owner s" "kind (move_behind d a s) = kind s" "notif_at (move_behind d a s) = notif_at s"
  by (simp_all add: move_behind_def owner_def kind_def notif_at_def fun_eq_iff mon_at_def)

lemma victim_split:
  assumes "overflow_victim mon = Some (d, a)"
  shows "\<exists>xs ys. queue mon = xs @ d # a # ys \<and> (discardOldest mon \<longrightarrow> xs = []) \<and> (\<not> discardOldest mon \<longrightarrow> ys = [])"
proof (cases "discardOldest mon")
  case True
  with assms show ?thesis
    by (auto simp: overflow_victim_def split: list.splits)
next
  case False
  with assms obtain zs where "rev (queue mon) = a # d # zs"
    by (auto simp: overflow_victim_def split: list.splits)
  then have "queue mon = rev zs @ d # a # []"
    by (simp add: rev_swap)
  with False show ?thesis by blast
qed

lemma victim_exists: "2 \<le> length (queue mon) \<Longrightarrow> \<exists>d a. overflow_victim mon = Some (d, a)"
proof -
  assume len: "2 \<le> length (queue mon)"
  obtain x y zs where "queue mon = x # y # zs"
    using len by (metis Suc_le_length_iff numeral_2_eq_2)
  moreover obtain x' y' zs' where "rev (queue mon) = x' # y' # zs'"
    using len by (metis Suc_le_length_iff length_rev numeral_2_eq_2)
  ultimately show ?thesis
    by (simp add: overflow_victim_def)
qed

lemma sub_wf_move:
  assumes wf: "sub_wf s" and m: "m \<in> set (monitoredItems s)" and v: "queue (mon_at s m) = xs @ d # a # ys"
  shows "sub_wf (move_behind d a s)"
proof -
  have q: "queues_ok s" and c: "counters_ok s"
    using wf by (auto simp: sub_wf_def)
  let ?nq = "notificationQueue s" and ?nq' = "insert_after d a (remove1 a (notificationQueue s))"
  have d: "distinct ?nq" and qm: "xs @ d # a # ys = filter (\<lambda>n. owner s n = m) ?nq"
    using q m v by (auto simp: queues_ok_def)
  have "d \<in> set (filter (\<lambda>n. owner s n = m) ?nq)" "a \<in> set (filter (\<lambda>n. owner s n = m) ?nq)"
    unfolding qm [symmetric] by simp_all
  then have in_q: "d \<in> set ?nq" "a \<in> set ?nq" "owner s d = m" "owner s a = m"
    by simp_all
  have dxs: "distinct (xs @ d # a # ys)"
    using d qm by simp
  then have da: "d \<noteq> a" "d \<notin> set xs" by auto
  have flt: "filter (\<lambda>n. owner s n = l) ?nq' = filter (\<lambda>n. owner s n = l) ?nq" for l
  proof (cases "l = m")
    case True
    have "filter (\<lambda>n. owner s n = m) (remove1 a ?nq) = xs @ d # ys"
      using dxs by (simp add: filter_remove1 qm [symmetric] remove1_append)
    then show ?thesis
      using True in_q da qm by (simp add: filter_insert_after_in insert_after_append)
  next
    case False
    then show ?thesis
      using in_q by (simp add: filter_insert_after filter_remove1 remove1_idem)
  qed
  have dr: "d \<in> set (remove1 a ?nq)"
    using in_q da d by simp
  have len: "length ?nq' = length ?nq"
    using dr in_q(2) length_pos_if_in_set [OF in_q(2)] by (simp add: length_insert_after length_remove1)
  have st: "set ?nq' = set ?nq"
    using dr in_q d by (auto simp: set_insert_after)
  have "num_kind (move_behind d a s) t = num_kind s t" for t
    using length_filter_insert_after [OF dr, of "\<lambda>n. kind s n = t" a] length_filter_remove1 [OF in_q(2), of "\<lambda>n. kind s n = t"]
    by (simp add: num_kind_def)
  then have "counters_ok (move_behind d a s)"
    using c len by (simp add: counters_ok_def) (simp add: move_behind_def)
  moreover have "distinct ?nq'"
    using d by (intro distinct_insert_after) auto
  then have "queues_ok (move_behind d a s)"
    using q len by (simp add: queues_ok_def flt st)
  ultimately show ?thesis
    by (simp add: sub_wf_def)
qed

text \<open>The abstract effect on the queue of the item: one element less.\<close>

definition bounded :: "nat \<Rightarrow> bool \<Rightarrow> 'a list \<Rightarrow> 'a list" where
  "bounded k oldest q =
     (if length q \<le> k then q else if oldest then drop (length q - k) q else take (k - 1) q @ [last q])"

lemma bounded_step:
  assumes "k < length (xs @ d # a # ys)" "1 \<le> k" "oldest \<longrightarrow> xs = []" "\<not> oldest \<longrightarrow> ys = []"
  shows "bounded k oldest (xs @ d # a # ys) = bounded k oldest (xs @ a # ys)"
proof (cases oldest)
  case True
  with assms have "length (d # a # ys) - k = Suc (length (a # ys) - k)" by simp
  with True assms show ?thesis
    by (auto simp: bounded_def not_le)
next
  case False
  with assms show ?thesis
    by (auto simp: bounded_def not_le)
qed

lemma length_bounded: "1 \<le> k \<Longrightarrow> length (bounded k oldest q) \<le> k"
  by (auto simp: bounded_def)

lemma map_bounded: "1 \<le> k \<Longrightarrow> map f (bounded k oldest q) = bounded k oldest (map f q)"
  by (auto simp: bounded_def drop_map take_map) (metis last_map length_0_conv not_le zero_le)

lemma bounded_nonempty: "1 \<le> k \<Longrightarrow> q \<noteq> [] \<Longrightarrow> bounded k oldest q \<noteq> []"
  by (auto simp: bounded_def)

lemma queue_length:
  assumes "sub_wf s" "m \<in> set (monitoredItems s)"
  shows "queueSize (mon_at s m) > k \<longleftrightarrow> length (queue (mon_at s m)) > unat k"
proof -
  have "length (queue (mon_at s m)) < 2 ^ 32" "queueSize (mon_at s m) = of_nat (length (queue (mon_at s m)))"
    using assms le_less_trans [OF length_filter_le] by (auto simp: sub_wf_def queues_ok_def)
  then show ?thesis
    by (simp add: word_less_nat_alt unsigned_of_nat take_bit_nat_eq_self)
qed

text \<open>What an operation on the queue of \<open>m\<close> leaves alone.\<close>

definition keeps_others :: "ptr \<Rightarrow> subscription \<Rightarrow> subscription \<Rightarrow> bool" where
  "keeps_others m s s' \<longleftrightarrow> monitoredItems s' = monitoredItems s \<and> (\<forall>l. l \<noteq> m \<longrightarrow> mon_at s' l = mon_at s l)
     \<and> monitoredItemType (mon_at s' m) = monitoredItemType (mon_at s m)
     \<and> maxQueueSize (mon_at s' m) = maxQueueSize (mon_at s m) \<and> discardOldest (mon_at s' m) = discardOldest (mon_at s m)
     \<and> set (notificationQueue s') \<subseteq> set (notificationQueue s)
     \<and> (\<forall>n \<in> set (notificationQueue s'). owner s' n = owner s n)
     \<and> filter (\<lambda>n. owner s n \<noteq> m) (notificationQueue s') = filter (\<lambda>n. owner s n \<noteq> m) (notificationQueue s)
     \<and> takeWhile (\<lambda>n. owner s n \<noteq> m) (notificationQueue s') = takeWhile (\<lambda>n. owner s n \<noteq> m) (notificationQueue s)"

lemma keeps_others_refl [simp]: "keeps_others m s s"
  by (simp add: keeps_others_def)

lemma keeps_others_trans:
  assumes "keeps_others m s1 s2" "keeps_others m s2 s3"
  shows "keeps_others m s1 s3"
proof -
  have o: "owner s2 n = owner s1 n" if "n \<in> set (notificationQueue s2)" for n
    using assms(1) that by (auto simp: keeps_others_def)
  have sub: "set (notificationQueue s3) \<subseteq> set (notificationQueue s2)"
    using assms(2) by (simp add: keeps_others_def)
  have "filter (\<lambda>n. owner s1 n \<noteq> m) xs = filter (\<lambda>n. owner s2 n \<noteq> m) xs" if "set xs \<subseteq> set (notificationQueue s2)" for xs
    using that o by (intro filter_cong) auto
  moreover have "takeWhile (\<lambda>n. owner s1 n \<noteq> m) xs = takeWhile (\<lambda>n. owner s2 n \<noteq> m) xs" if "set xs \<subseteq> set (notificationQueue s2)" for xs
    using that o by (intro takeWhile_cong) auto
  ultimately show ?thesis
    using assms sub o by (auto simp: keeps_others_def)
qed

lemma overflow_step:
  assumes wf: "sub_wf s" and m: "m \<in> set (monitoredItems s)" and v: "queue (mon_at s m) = xs @ d # a # ys"
  defines "s' \<equiv> UA_Notification_delete m d (move_behind d a s)"
  shows "sub_wf s'" "keeps_others m s s'" "queue (mon_at s' m) = xs @ a # ys"
    "\<forall>n \<in> set (notificationQueue s'). notifs s' n = notifs s n"
proof -
  have q: "queues_ok s"
    using wf by (simp add: sub_wf_def)
  have qm: "xs @ d # a # ys = filter (\<lambda>n. owner s n = m) (notificationQueue s)" and dq: "distinct (notificationQueue s)"
    using q m v by (auto simp: queues_ok_def)
  have "d \<in> set (filter (\<lambda>n. owner s n = m) (notificationQueue s))" "a \<in> set (filter (\<lambda>n. owner s n = m) (notificationQueue s))"
    unfolding qm [symmetric] by simp_all
  then have in_q: "d \<in> set (notificationQueue s)" "a \<in> set (notificationQueue s)" "owner s d = m" "owner s a = m"
    by simp_all
  have dxs: "distinct (xs @ d # a # ys)"
    using dq qm by simp
  then have dr: "d \<in> set (remove1 a (notificationQueue s))"
    using in_q dq by auto
  let ?mv = "insert_after d a (remove1 a (notificationQueue s))"
  have nq: "notificationQueue s' = remove1 d ?mv"
    by (simp add: s'_def)
  have dmv: "distinct ?mv" "set ?mv = set (notificationQueue s)"
    using dq in_q dr by (auto intro!: distinct_insert_after simp: set_insert_after)
  show "sub_wf s'"
    unfolding s'_def using in_q dmv by (intro sub_wf_delete sub_wf_move [OF wf m v]) simp_all
  show "queue (mon_at s' m) = xs @ a # ys"
    using dxs by (simp add: s'_def mon_at_delete v remove1_append)
  show nt: "\<forall>n \<in> set (notificationQueue s'). notifs s' n = notifs s n"
    using set_remove1_eq [OF dmv(1), of d] by (simp add: nq) (simp add: s'_def)
  have flt: "filter (\<lambda>n. owner s n \<noteq> m) (remove1 d ?mv) = filter (\<lambda>n. owner s n \<noteq> m) (notificationQueue s)"
    using in_q by (simp add: filter_remove1 filter_insert_after remove1_idem)
  have fm: "filter (\<lambda>n. \<not> owner s n \<noteq> m) (remove1 a (notificationQueue s)) = xs @ d # ys"
    using dxs by (simp add: filter_remove1 qm [symmetric] remove1_append)
  have fm': "filter (\<lambda>n. \<not> owner s n \<noteq> m) ?mv = xs @ d # a # ys"
    using in_q dxs fm by (simp add: filter_insert_after_in insert_after_append)
  have "takeWhile (\<lambda>n. owner s n \<noteq> m) (remove1 d ?mv) = takeWhile (\<lambda>n. owner s n \<noteq> m) (remove1 a (notificationQueue s))"
  proof (cases xs)
    case Nil
    then show ?thesis
      using takeWhile_replace [of "\<lambda>n. owner s n \<noteq> m" d a] in_q fm by simp
  next
    case (Cons y zs)
    have "takeWhile (\<lambda>n. owner s n \<noteq> m) (remove1 d ?mv) = takeWhile (\<lambda>n. owner s n \<noteq> m) ?mv"
      using fm' Cons dxs in_q by (intro takeWhile_remove1) auto
    then show ?thesis
      using in_q by (simp add: takeWhile_insert_after)
  qed
  moreover have "takeWhile (\<lambda>n. owner s n \<noteq> m) (remove1 a (notificationQueue s)) = takeWhile (\<lambda>n. owner s n \<noteq> m) (notificationQueue s)"
    using qm [symmetric] dxs in_q takeWhile_remove1 [of "\<lambda>n. owner s n \<noteq> m" "notificationQueue s" _ _ a] by (cases xs) auto
  moreover have "\<forall>n \<in> set (notificationQueue s'). owner s' n = owner s n"
    using nt by (simp add: owner_def notif_at_def)
  moreover have "set (notificationQueue s') \<subseteq> set (notificationQueue s)"
    using dmv by (auto simp: nq dest: notin_set_remove1)
  moreover have "mon_at s' l = mon_at s l" if "l \<noteq> m" for l
    using that by (simp add: s'_def mon_at_delete)
  ultimately show "keeps_others m s s'"
    using flt by (simp add: keeps_others_def nq) (simp add: s'_def mon_at_delete)
qed

lemma overflow_loop_spec:
  assumes "sub_wf s" "m \<in> set (monitoredItems s)" "1 \<le> unat (maxQueueSize (mon_at s m))"
  shows "sub_wf (overflow_loop m s) \<and> keeps_others m s (overflow_loop m s)
    \<and> queue (mon_at (overflow_loop m s) m)
        = bounded (unat (maxQueueSize (mon_at s m))) (discardOldest (mon_at s m)) (queue (mon_at s m))
    \<and> (\<forall>n \<in> set (notificationQueue (overflow_loop m s)). notifs (overflow_loop m s) n = notifs s n)"
  using assms
proof (induction m s rule: overflow_loop.induct)
  case (1 m s)
  note len = queue_length [OF 1(2,3), of "maxQueueSize (mon_at s m)"]
  show ?case
  proof (cases "queueSize (mon_at s m) > maxQueueSize (mon_at s m)")
    case False
    then show ?thesis
      using 1(2) len by (simp add: overflow_loop.simps [of m s] bounded_def)
  next
    case True
    then obtain d a where v: "overflow_victim (mon_at s m) = Some (d, a)"
      using victim_exists [of "mon_at s m"] len 1(4) by fastforce
    then obtain xs ys where x: "queue (mon_at s m) = xs @ d # a # ys"
      "discardOldest (mon_at s m) \<longrightarrow> xs = []" "\<not> discardOldest (mon_at s m) \<longrightarrow> ys = []"
      using victim_split by blast
    let ?s = "UA_Notification_delete m d (move_behind d a s)"
    note st = overflow_step [OF 1(2,3) x(1)]
    have eq: "overflow_loop m s = overflow_loop m ?s"
      using True v by (simp add: overflow_loop.simps [of m s])
    have k: "monitoredItems ?s = monitoredItems s" "maxQueueSize (mon_at ?s m) = maxQueueSize (mon_at s m)"
      "discardOldest (mon_at ?s m) = discardOldest (mon_at s m)"
      using st(2) by (simp_all add: keeps_others_def)
    have IH: "sub_wf (overflow_loop m ?s) \<and> keeps_others m ?s (overflow_loop m ?s)
        \<and> queue (mon_at (overflow_loop m ?s) m)
            = bounded (unat (maxQueueSize (mon_at s m))) (discardOldest (mon_at s m)) (xs @ a # ys)
        \<and> (\<forall>n \<in> set (notificationQueue (overflow_loop m ?s)). notifs (overflow_loop m ?s) n = notifs ?s n)"
      using 1(1) [OF True v, of d a] st(1,3) k 1(3,4) by simp
    have b: "bounded (unat (maxQueueSize (mon_at s m))) (discardOldest (mon_at s m)) (queue (mon_at s m))
        = bounded (unat (maxQueueSize (mon_at s m))) (discardOldest (mon_at s m)) (xs @ a # ys)"
      unfolding x(1) using True len 1(4) x by (intro bounded_step) auto
    have "set (notificationQueue (overflow_loop m ?s)) \<subseteq> set (notificationQueue ?s)"
      using IH by (simp add: keeps_others_def)
    then show ?thesis
      unfolding eq b using IH st(2,4) keeps_others_trans by (metis subsetD)
  qed
qed

subsection \<open>The info bits\<close>

text \<open>The value of a notification is replaced, its MonitoredItem stays the same.\<close>

lemma set_notif_sel [simp]:
  "monitoredItems (set_notif n x s) = monitoredItems s" "mons (set_notif n x s) = mons s" "mon_at (set_notif n x s) = mon_at s"
  "notificationQueue (set_notif n x s) = notificationQueue s" "notificationQueueSize (set_notif n x s) = notificationQueueSize s"
  "dataChangeNotifications (set_notif n x s) = dataChangeNotifications s"
  "eventNotifications (set_notif n x s) = eventNotifications s"
  "statusChangeNotifications (set_notif n x s) = statusChangeNotifications s"
  "notifs (set_notif n x s) = (notifs s)(n \<mapsto> x)"
  by (simp_all add: set_notif_def mon_at_def fun_eq_iff)

lemma owner_set_notif: "nmon x = owner s n \<Longrightarrow> owner (set_notif n x s) = owner s"
  by (auto simp: owner_def notif_at_def fun_eq_iff)

lemma kind_set_notif: "nmon x = owner s n \<Longrightarrow> kind (set_notif n x s) = kind s"
  by (auto simp: kind_def owner_set_notif fun_eq_iff)

lemma sub_wf_set_notif:
  assumes "sub_wf s" "n \<in> set (notificationQueue s)" "nmon x = owner s n"
  shows "sub_wf (set_notif n x s)"
proof -
  have "num_kind (set_notif n x s) = num_kind s"
    using assms(3) by (simp add: num_kind_def kind_set_notif fun_eq_iff)
  then show ?thesis
    using assms by (auto simp: sub_wf_def queues_ok_def counters_ok_def owner_set_notif)
qed

definition info_bits :: "nat \<Rightarrow> datavalue \<Rightarrow> datavalue" where
  "info_bits k v = DataValue (dvValue v)
     (if 1 < k then Some ((case dvStatus v of None \<Rightarrow> 0 | Some st \<Rightarrow> st) OR INFOBITS)
      else map_option (\<lambda>st. st AND NOT INFOBITS) (dvStatus v))
     (dvSourceTimestamp v) (dvSourcePicoseconds v) (dvServerTimestamp v) (dvServerPicoseconds v)"

definition marker :: "bool \<Rightarrow> 'a list \<Rightarrow> 'a" where
  "marker oldest q = (if oldest then hd q else last q)"

definition mark :: "nat \<Rightarrow> bool \<Rightarrow> datavalue list \<Rightarrow> datavalue list" where
  "mark k oldest q = (if oldest then q[0 := info_bits k (hd q)] else q[length q - 1 := info_bits k (last q)])"

definition queue_values :: "subscription \<Rightarrow> ptr \<Rightarrow> datavalue list" where
  "queue_values s m = map (\<lambda>n. nvalue (notif_at s n)) (queue (mon_at s m))"

lemma marker_in: "q \<noteq> [] \<Longrightarrow> marker oldest q \<in> set q"
  by (simp add: marker_def)

lemma mark_overflow_eq:
  "queue (mon_at s m) \<noteq> [] \<Longrightarrow> monitoredItemType (mon_at s m) = CHANGENOTIFY \<Longrightarrow>
   mark_overflow m s = (let n = marker (discardOldest (mon_at s m)) (queue (mon_at s m)) in
     set_notif n ((notif_at s n)\<lparr>nvalue := info_bits (unat (maxQueueSize (mon_at s m))) (nvalue (notif_at s n))\<rparr>) s)"
  by (simp add: mark_overflow_def Let_def marker_def info_bits_def word_less_nat_alt)

lemma mark_overflow_other: "monitoredItemType (mon_at s m) \<noteq> CHANGENOTIFY \<Longrightarrow> mark_overflow m s = s"
  by (simp add: mark_overflow_def Let_def)

lemma map_marker:
  assumes "distinct q" "q \<noteq> []"
  shows "map (f(marker oldest q := info_bits k (f (marker oldest q)))) q = mark k oldest (map f q)"
proof (cases oldest)
  case True
  with assms show ?thesis
    by (cases q) (auto simp: marker_def mark_def)
next
  case False
  with assms show ?thesis
    by (cases q rule: rev_cases) (auto simp: marker_def mark_def list_update_append)
qed

lemma in_own_queue:
  assumes "sub_wf s" "m \<in> set (monitoredItems s)" "n \<in> set (queue (mon_at s m))"
  shows "n \<in> set (notificationQueue s)" "owner s n = m"
  using assms by (auto simp: sub_wf_def queues_ok_def)

lemma distinct_own_queue: "sub_wf s \<Longrightarrow> m \<in> set (monitoredItems s) \<Longrightarrow> distinct (queue (mon_at s m))"
  by (simp add: sub_wf_def queues_ok_def)

lemma mark_overflow_spec:
  assumes "sub_wf s" "m \<in> set (monitoredItems s)" "queue (mon_at s m) \<noteq> []"
  shows "sub_wf (mark_overflow m s)" "keeps_others m s (mark_overflow m s)" "mon_at (mark_overflow m s) = mon_at s"
    "notificationQueue (mark_overflow m s) = notificationQueue s"
    "\<forall>n. owner s n \<noteq> m \<longrightarrow> notifs (mark_overflow m s) n = notifs s n"
    "queue_values (mark_overflow m s) m = (if monitoredItemType (mon_at s m) = CHANGENOTIFY
       then mark (unat (maxQueueSize (mon_at s m))) (discardOldest (mon_at s m)) (queue_values s m) else queue_values s m)"
proof -
  let ?n = "marker (discardOldest (mon_at s m)) (queue (mon_at s m))"
  let ?x = "(notif_at s ?n)\<lparr>nvalue := info_bits (unat (maxQueueSize (mon_at s m))) (nvalue (notif_at s ?n))\<rparr>"
  note n = in_own_queue [OF assms(1,2) marker_in [OF assms(3)]]
  have x: "nmon ?x = owner s ?n"
    by (simp add: owner_def)
  have eq: "mark_overflow m s = (if monitoredItemType (mon_at s m) = CHANGENOTIFY then set_notif ?n ?x s else s)"
    using assms(3) by (simp add: mark_overflow_eq mark_overflow_other Let_def)
  show "sub_wf (mark_overflow m s)"
    using assms(1) n x by (simp add: eq sub_wf_set_notif)
  show "mon_at (mark_overflow m s) = mon_at s" "notificationQueue (mark_overflow m s) = notificationQueue s"
    by (simp_all add: eq)
  show "keeps_others m s (mark_overflow m s)"
    by (simp add: eq keeps_others_def owner_set_notif [OF x])
  show "\<forall>n. owner s n \<noteq> m \<longrightarrow> notifs (mark_overflow m s) n = notifs s n"
    using n by (auto simp: eq)
  have "(\<lambda>n. nvalue (notif_at (set_notif ?n ?x s) n)) = (\<lambda>n. nvalue (notif_at s n))
      (?n := info_bits (unat (maxQueueSize (mon_at s m))) (nvalue (notif_at s ?n)))"
    by (auto simp: notif_at_def)
  then show "queue_values (mark_overflow m s) m = (if monitoredItemType (mon_at s m) = CHANGENOTIFY
       then mark (unat (maxQueueSize (mon_at s m))) (discardOldest (mon_at s m)) (queue_values s m) else queue_values s m)"
    using map_marker [OF distinct_own_queue [OF assms(1,2)] assms(3), of "\<lambda>n. nvalue (notif_at s n)"]
    by (simp add: eq queue_values_def)
qed

end
