(* ===== verification/Subscription_Enqueue.thy ===== *)
theory Subscription_Enqueue
  imports Subscription_Queue
begin

text \<open>
  The operations on the queues of a subscription keep the invariant \<open>sub_inv\<close>, and \<open>UA_Notification_enqueue\<close>
  implements a bounded queue of values. The state machine \<open>sub_step\<close> collects everything that the server does with the
  queues of one subscription.
\<close>

subsection \<open>Enqueueing\<close>

lemma ensure_spec:
  assumes wf: "sub_wf s" and m: "m \<in> set (monitoredItems s)" and k: "1 \<le> unat (maxQueueSize (mon_at s m))"
  defines "s' \<equiv> MonitoredItem_ensureQueueSpace m s" and "b \<equiv> bounded (unat (maxQueueSize (mon_at s m))) (discardOldest (mon_at s m))"
    and "b' \<equiv> bounded (unat (maxQueueSize (mon_at s m))) (discardOldest (mon_at s m))"
  shows "sub_wf s'" "keeps_others m s s'" "queue (mon_at s' m) = b (queue (mon_at s m))"
    "\<forall>n \<in> set (notificationQueue s'). owner s n \<noteq> m \<longrightarrow> notifs s' n = notifs s n"
    "queue_values s' m =
       (if unat (maxQueueSize (mon_at s m)) < length (queue_values s m) \<and> monitoredItemType (mon_at s m) = CHANGENOTIFY
        then mark (unat (maxQueueSize (mon_at s m))) (discardOldest (mon_at s m)) (b' (queue_values s m))
        else b' (queue_values s m))"
proof -
  note len = queue_length [OF wf m, of "maxQueueSize (mon_at s m)"]
  let ?o = "overflow_loop m s"
  note lp = overflow_loop_spec [OF wf m k, THEN conjunct1]
    overflow_loop_spec [OF wf m k, THEN conjunct2, THEN conjunct1]
    overflow_loop_spec [OF wf m k, THEN conjunct2, THEN conjunct2, THEN conjunct1]
    overflow_loop_spec [OF wf m k, THEN conjunct2, THEN conjunct2, THEN conjunct2]
  have mo: "m \<in> set (monitoredItems ?o)"
    using lp(2) m by (simp add: keeps_others_def)
  have sel: "maxQueueSize (mon_at ?o m) = maxQueueSize (mon_at s m)" "discardOldest (mon_at ?o m) = discardOldest (mon_at s m)"
    "monitoredItemType (mon_at ?o m) = monitoredItemType (mon_at s m)"
    using lp(2) by (simp_all add: keeps_others_def)
  have own: "owner ?o n = owner s n" if "n \<in> set (notificationQueue ?o)" for n
    using lp(2) that by (simp add: keeps_others_def)
  have vals: "queue_values ?o m = b' (queue_values s m)"
  proof -
    have "notif_at ?o n = notif_at s n" if "n \<in> set (queue (mon_at ?o m))" for n
      using lp(4) in_own_queue(1) [OF lp(1) mo that] by (simp add: notif_at_def)
    then have "queue_values ?o m = map (\<lambda>n. nvalue (notif_at s n)) (queue (mon_at ?o m))"
      unfolding queue_values_def by simp
    then show ?thesis
      by (simp only: lp(3) map_bounded [OF k] queue_values_def [of s] b'_def)
  qed
  have "sub_wf s' \<and> keeps_others m s s' \<and> queue (mon_at s' m) = b (queue (mon_at s m))
     \<and> (\<forall>n \<in> set (notificationQueue s'). owner s n \<noteq> m \<longrightarrow> notifs s' n = notifs s n) \<and> queue_values s' m =
       (if unat (maxQueueSize (mon_at s m)) < length (queue_values s m) \<and> monitoredItemType (mon_at s m) = CHANGENOTIFY
        then mark (unat (maxQueueSize (mon_at s m))) (discardOldest (mon_at s m)) (b' (queue_values s m))
        else b' (queue_values s m))"
  proof (cases "queueSize (mon_at s m) > maxQueueSize (mon_at s m)")
    case False
    then have "queueSize (mon_at s m) \<le> maxQueueSize (mon_at s m)"
      by (simp add: not_less)
    with False show ?thesis
      using wf len by (simp add: s'_def b_def b'_def MonitoredItem_ensureQueueSpace_def bounded_def queue_values_def)
  next
    case True
    have ne: "queue (mon_at ?o m) \<noteq> []"
      using bounded_nonempty [OF k, of "queue (mon_at s m)"] True len unfolding lp(3) by fastforce
    note mk = mark_overflow_spec [OF lp(1) mo ne]
    have s': "s' = mark_overflow m ?o"
      using True by (simp add: s'_def MonitoredItem_ensureQueueSpace_def)
    have "\<forall>n \<in> set (notificationQueue s'). owner s n \<noteq> m \<longrightarrow> notifs s' n = notifs s n"
      using mk(4,5) lp(4) own by (simp add: s')
    moreover have "keeps_others m s s'"
      unfolding s' by (rule keeps_others_trans [OF lp(2) mk(2)])
    ultimately show ?thesis
      using mk True len lp(3) by (simp add: s' sel vals b_def) (simp add: queue_values_def)
  qed
  then show "sub_wf s'" "keeps_others m s s'" "queue (mon_at s' m) = b (queue (mon_at s m))"
    "\<forall>n \<in> set (notificationQueue s'). owner s n \<noteq> m \<longrightarrow> notifs s' n = notifs s n"
    "queue_values s' m =
       (if unat (maxQueueSize (mon_at s m)) < length (queue_values s m) \<and> monitoredItemType (mon_at s m) = CHANGENOTIFY
        then mark (unat (maxQueueSize (mon_at s m))) (discardOldest (mon_at s m)) (b' (queue_values s m))
        else b' (queue_values s m))"
    by blast+
qed

text \<open>
  The specification of a queue of at most \<open>k\<close> values. A full queue loses its oldest value, or the one before the new
  value; for data changes the value next to the gap carries the overflow bits.
\<close>

definition enqueue_spec :: "nat \<Rightarrow> bool \<Rightarrow> bool \<Rightarrow> datavalue list \<Rightarrow> datavalue \<Rightarrow> datavalue list" where
  "enqueue_spec k oldest data q v =
     (if length q < k then q @ [v]
      else (let q' = (if oldest then tl q @ [v] else butlast q @ [v]) in if data then mark k oldest q' else q'))"

lemma bounded_append:
  assumes "length q \<le> k" "1 \<le> k"
  shows "bounded k oldest (q @ [v]) = (if length q < k then q @ [v] else if oldest then tl q @ [v] else butlast q @ [v])"
  using assms by (auto simp: bounded_def butlast_conv_take drop_Suc not_less dest!: le_antisym)

definition ahead :: "subscription \<Rightarrow> ptr \<Rightarrow> ptr list" where
  "ahead s m = takeWhile (\<lambda>n. owner s n \<noteq> m) (notificationQueue s)"

lemma sub_inv_ensure:
  assumes "sub_wf s" "m \<in> set (monitoredItems s)" "\<forall>l \<in> set (monitoredItems s). 1 \<le> maxQueueSize (mon_at s l)"
    "\<forall>l \<in> set (monitoredItems s) - {m}. length (queue (mon_at s l)) \<le> unat (maxQueueSize (mon_at s l))"
  shows "sub_inv (MonitoredItem_ensureQueueSpace m s)"
proof -
  have k: "1 \<le> unat (maxQueueSize (mon_at s m))"
    using assms(2,3) by (metis One_nat_def unat_1 word_le_nat_alt)
  note e = ensure_spec [OF assms(1,2) k]
  show ?thesis
    unfolding sub_inv_def
  proof (intro conjI ballI, goal_cases)
    case 1
    show ?case by (rule e(1))
  next
    case (2 l)
    then have "l \<in> set (monitoredItems s)"
      using e(2) by (simp add: keeps_others_def)
    with assms(3) e(2) show ?case
      by (cases "l = m") (simp_all add: keeps_others_def)
  next
    case (3 l)
    then have l: "l \<in> set (monitoredItems s)"
      using e(2) by (simp add: keeps_others_def)
    show ?case
    proof (cases "l = m")
      case True
      then show ?thesis
        using e(2,3) length_bounded [OF k] by (simp add: keeps_others_def)
    next
      case False
      then show ?thesis
        using l e(2) assms(4) by (simp add: keeps_others_def)
    qed
  qed
qed

lemma sub_inv_enqueue:
  assumes "sub_inv s" "m \<in> set (monitoredItems s)" "notifs s n = None" "nmon x = m" "length (notificationQueue s) + 1 < 2 ^ 32"
  shows "sub_inv (UA_Notification_enqueue m n x s)"
  unfolding UA_Notification_enqueue_def
  using assms by (intro sub_inv_ensure) (auto simp: sub_inv_def mon_at_enqueue intro: sub_wf_enqueue)

lemma enqueue_values:
  assumes "sub_inv s" "m \<in> set (monitoredItems s)" "notifs s n = None" "nmon x = m" "length (notificationQueue s) + 1 < 2 ^ 32"
  shows "queue_values (UA_Notification_enqueue m n x s) m
     = enqueue_spec (unat (maxQueueSize (mon_at s m))) (discardOldest (mon_at s m)) (monitoredItemType (mon_at s m) = CHANGENOTIFY)
         (queue_values s m) (nvalue x)"
proof -
  have wf: "sub_wf s" and le: "length (queue (mon_at s m)) \<le> unat (maxQueueSize (mon_at s m))"
    and k0: "1 \<le> maxQueueSize (mon_at s m)"
    using assms(1,2) by (auto simp: sub_inv_def)
  have k: "1 \<le> unat (maxQueueSize (mon_at s m))"
    using k0 by (metis One_nat_def unat_1 word_le_nat_alt)
  let ?e = "enqueue_both m n x s"
  note we = sub_wf_enqueue [OF wf assms(2-5)]
  have "notif_at ?e l = notif_at s l" if "l \<in> set (queue (mon_at s m))" for l
  proof -
    have "l \<noteq> n"
      using in_own_queue [OF wf assms(2) that] wf assms(3) fresh_notification by (auto simp: sub_wf_def)
    then show ?thesis by (simp add: notif_at_def)
  qed
  then have ve: "queue_values ?e m = queue_values s m @ [nvalue x]"
    by (simp add: queue_values_def mon_at_enqueue) (simp add: notif_at_def)
  have le': "length (queue_values s m) \<le> unat (maxQueueSize (mon_at s m))"
    using le by (simp add: queue_values_def)
  have m: "m \<in> set (monitoredItems ?e)" and ke: "1 \<le> unat (maxQueueSize (mon_at ?e m))"
    using assms(2) k by (simp_all add: mon_at_enqueue)
  show ?thesis
    using ensure_spec(5) [OF we m ke] le'
    by (simp add: ve mon_at_enqueue UA_Notification_enqueue_def bounded_append [OF le' k] enqueue_spec_def Let_def)
qed

lemma enqueue_others:
  assumes "sub_inv s" "m \<in> set (monitoredItems s)" "notifs s n = None" "nmon x = m" "length (notificationQueue s) + 1 < 2 ^ 32"
  defines "s' \<equiv> UA_Notification_enqueue m n x s"
  shows "l \<in> set (monitoredItems s) \<Longrightarrow> l \<noteq> m \<Longrightarrow> mon_at s' l = mon_at s l \<and> queue_values s' l = queue_values s l"
    "ahead s' m = ahead s m"
    "filter (\<lambda>k. owner s k \<noteq> m \<and> k \<noteq> n) (notificationQueue s') = filter (\<lambda>k. owner s k \<noteq> m) (notificationQueue s)"
proof -
  have wf: "sub_wf s" and k0: "1 \<le> maxQueueSize (mon_at s m)"
    using assms(1,2) by (auto simp: sub_inv_def)
  let ?e = "enqueue_both m n x s"
  note we = sub_wf_enqueue [OF wf assms(2-5)]
  have n: "n \<notin> set (notificationQueue s)"
    using wf assms(3) fresh_notification by (auto simp: sub_wf_def)
  have "1 \<le> unat (maxQueueSize (mon_at ?e m))"
    using k0 by (simp add: mon_at_enqueue) (metis One_nat_def unat_1 word_le_nat_alt)
  then have "keeps_others m ?e s'" and other: "\<forall>k \<in> set (notificationQueue s'). owner ?e k \<noteq> m \<longrightarrow> notifs s' k = notifs ?e k"
    and ws: "sub_wf s'"
    using ensure_spec(1,2,4) [OF we] assms(2) by (simp_all add: s'_def UA_Notification_enqueue_def)
  note ke = this(1)
  have oe: "owner ?e k = owner s k" if "k \<in> set (notificationQueue s)" for k
    using that n by auto
  show "mon_at s' l = mon_at s l \<and> queue_values s' l = queue_values s l" if l: "l \<in> set (monitoredItems s)" "l \<noteq> m"
  proof -
    have ml: "mon_at s' l = mon_at s l"
      using ke l by (simp add: keeps_others_def mon_at_enqueue)
    have "notif_at s' k = notif_at s k" if k: "k \<in> set (queue (mon_at s l))" for k
    proof -
      have ks: "k \<in> set (notificationQueue s)" "owner s k = l"
        using in_own_queue [OF wf l(1) k] by auto
      have "l \<in> set (monitoredItems s')"
        using ke l by (simp add: keeps_others_def)
      then have "k \<in> set (notificationQueue s')"
        using in_own_queue [OF ws] k ml by auto
      moreover have "k \<noteq> n"
        using ks n by auto
      ultimately show ?thesis
        using other ks l by (simp add: notif_at_def)
    qed
    then show ?thesis
      using ml by (simp add: queue_values_def)
  qed
  have tw: "takeWhile (\<lambda>k. owner ?e k \<noteq> m) (notificationQueue s @ [n]) = ahead s m"
    unfolding ahead_def using assms(4) n by (subst takeWhile_tail) (auto intro!: takeWhile_cong)
  have "\<forall>k \<in> set (notificationQueue s'). owner s' k = owner ?e k"
    using ke unfolding keeps_others_def by blast
  then have "ahead s' m = takeWhile (\<lambda>k. owner ?e k \<noteq> m) (notificationQueue s')"
    unfolding ahead_def by (intro takeWhile_cong) simp_all
  then show "ahead s' m = ahead s m"
    using ke tw by (simp add: keeps_others_def)
  have "filter (\<lambda>k. owner s k \<noteq> m \<and> k \<noteq> n) (notificationQueue s') = filter (\<lambda>k. owner ?e k \<noteq> m) (notificationQueue s')"
    using assms(4) by (intro filter_cong) auto
  also have "\<dots> = filter (\<lambda>k. owner ?e k \<noteq> m) (notificationQueue s @ [n])"
    using ke by (simp add: keeps_others_def)
  also have "\<dots> = filter (\<lambda>k. owner s k \<noteq> m) (notificationQueue s)"
    using assms(4) n by simp (intro filter_cong, auto)
  finally show "filter (\<lambda>k. owner s k \<noteq> m \<and> k \<noteq> n) (notificationQueue s') = filter (\<lambda>k. owner s k \<noteq> m) (notificationQueue s)" .
qed

end
