(* ===== verification/Subscription_Deliver.thy ===== *)
theory Subscription_Deliver
  imports Subscription_Enqueue
begin

text \<open>
  Removing notifications: the loop of \<open>prepareNotificationMessage\<close> moves the oldest data changes into the
  message, in order and without loss; deleting a MonitoredItem or its queue leaves the other items alone.
\<close>

subsection \<open>The static part of the monitored items\<close>

definition static_mon :: "monitored_item \<Rightarrow> monitored_item" where
  "static_mon x = x\<lparr>queue := [], queueSize := 0\<rparr>"

definition same_items :: "subscription \<Rightarrow> subscription \<Rightarrow> bool" where
  "same_items s s' \<longleftrightarrow> monitoredItems s' = monitoredItems s \<and> (\<forall>m. static_mon (mon_at s' m) = static_mon (mon_at s m))"

lemma static_monD:
  assumes "static_mon x = static_mon y"
  shows "clientHandle x = clientHandle y" "monitoredItemType x = monitoredItemType y" "maxQueueSize x = maxQueueSize y"
    "discardOldest x = discardOldest y" "monitoredItemId x = monitoredItemId y"
proof -
  have "clientHandle (static_mon x) = clientHandle (static_mon y)" "monitoredItemType (static_mon x) = monitoredItemType (static_mon y)"
    "maxQueueSize (static_mon x) = maxQueueSize (static_mon y)" "discardOldest (static_mon x) = discardOldest (static_mon y)"
    "monitoredItemId (static_mon x) = monitoredItemId (static_mon y)"
    using assms by simp_all
  then show "clientHandle x = clientHandle y" "monitoredItemType x = monitoredItemType y" "maxQueueSize x = maxQueueSize y"
    "discardOldest x = discardOldest y" "monitoredItemId x = monitoredItemId y"
    by (simp_all add: static_mon_def)
qed

lemma same_items_refl [simp]: "same_items s s"
  by (simp add: same_items_def)

lemma same_items_trans: "same_items s s1 \<Longrightarrow> same_items s1 s2 \<Longrightarrow> same_items s s2"
  by (simp add: same_items_def)

lemma same_items_delete [simp]: "same_items s (UA_Notification_delete m n s)"
  by (simp add: same_items_def mon_at_delete static_mon_def)

lemma delete_counts_items [simp]: "monitoredItemsSize (UA_Notification_delete m n s) = monitoredItemsSize s"
  by (simp add: UA_Notification_delete_def Let_def set_mon_def count_type_def split: monitored_item_type.split)

subsection \<open>The loop of prepareNotificationMessage\<close>

definition is_data :: "subscription \<Rightarrow> ptr \<Rightarrow> bool" where
  "is_data s n \<longleftrightarrow> kind s n = CHANGENOTIFY"

definition content :: "subscription \<Rightarrow> ptr \<Rightarrow> u32 \<times> datavalue" where
  "content s n = (clientHandle (mon_at s (owner s n)), nvalue (notif_at s n))"

lemma is_data_delete [simp]: "n \<noteq> k \<Longrightarrow> is_data (UA_Notification_delete m k s) n = is_data s n"
  by (simp add: is_data_def)

lemma content_delete [simp]: "n \<noteq> k \<Longrightarrow> content (UA_Notification_delete m k s) n = content s n"
  by (auto simp: content_def mon_at_delete notif_at_def)

definition delivered :: "nat \<Rightarrow> subscription \<Rightarrow> ptr list \<Rightarrow> ptr list" where
  "delivered k s todo = take k (filter (is_data s) todo)"

lemma delivered_subset: "set (delivered k s todo) \<subseteq> set todo"
  by (auto simp: delivered_def dest: in_set_takeD)

lemma prepare_loop_spec:
  assumes "sub_wf s" "distinct todo" "set todo \<subseteq> set (notificationQueue s)" "prepare_loop todo k s = (xs, s')"
  shows "xs = map (content s) (delivered k s todo) \<and> sub_wf s' \<and> same_items s s'
    \<and> notificationQueue s' = filter (\<lambda>n. n \<notin> set (delivered k s todo)) (notificationQueue s)
    \<and> (\<forall>n. n \<notin> set (delivered k s todo) \<longrightarrow> notifs s' n = notifs s n)
    \<and> monitoredItemsSize s' = monitoredItemsSize s"
  using assms
proof (induction todo arbitrary: k s xs)
  case Nil
  then show ?case by (simp add: delivered_def)
next
  case (Cons n todo)
  show ?case
  proof (cases "k = 0")
    case True
    with Cons.prems show ?thesis by (simp add: delivered_def)
  next
    case k: False
    show ?thesis
    proof (cases "is_data s n")
      case False
      then have "prepare_loop todo k s = (xs, s')"
        using Cons.prems(4) k by (simp add: is_data_def kind_def owner_def Let_def)
      from Cons.IH [OF Cons.prems(1) _ _ this] Cons.prems(2,3) False show ?thesis
        by (simp add: delivered_def)
    next
      case True
      let ?s = "UA_Notification_delete (owner s n) n s"
      obtain ys where ys: "prepare_loop todo (k - 1) ?s = (ys, s')" "xs = content s n # ys"
        using Cons.prems(4) k True by (auto simp: is_data_def kind_def owner_def content_def Let_def split: prod.splits)
      have wf: "sub_wf ?s"
        using Cons.prems(1,3) by (simp add: sub_wf_delete)
      have dq: "distinct (notificationQueue s)"
        using Cons.prems(1) by (simp add: sub_wf_def queues_ok_def)
      have sub: "set todo \<subseteq> set (notificationQueue ?s)"
        using Cons.prems(2,3) dq by auto
      have "is_data ?s l = is_data s l" if "l \<in> set todo" for l
        using that Cons.prems(2) by (intro is_data_delete) auto
      then have "filter (is_data ?s) todo = filter (is_data s) todo"
        by (intro filter_cong) simp_all
      then have d: "delivered (k - 1) ?s todo = delivered (k - 1) s todo" "n \<notin> set (delivered (k - 1) s todo)"
        using Cons.prems(2) delivered_subset [of "k - 1" s todo] by (auto simp: delivered_def)
      have dn: "delivered k s (n # todo) = n # delivered (k - 1) s todo"
        using True k by (cases k) (simp_all add: delivered_def)
      have c: "map (content ?s) (delivered (k - 1) s todo) = map (content s) (delivered (k - 1) s todo)"
        using d(2) by (intro map_cong refl content_delete) metis
      have f: "filter (\<lambda>l. l \<notin> set (delivered (k - 1) s todo)) (remove1 n (notificationQueue s))
          = filter (\<lambda>l. l \<notin> set (delivered k s (n # todo))) (notificationQueue s)"
        unfolding dn distinct_remove1_removeAll [OF dq] removeAll_filter_not_eq by (auto intro!: filter_cong)
      from Cons.IH [OF wf _ sub ys(1)] Cons.prems(2)
      have ih: "ys = map (content s) (delivered (k - 1) s todo)" "sub_wf s'" "same_items ?s s'"
        "notificationQueue s' = filter (\<lambda>l. l \<notin> set (delivered k s (n # todo))) (notificationQueue s)"
        "\<forall>l. l \<notin> set (delivered (k - 1) s todo) \<longrightarrow> notifs s' l = notifs ?s l" "monitoredItemsSize s' = monitoredItemsSize s"
        by (simp_all add: d c f del: One_nat_def)
      have "same_items s s'"
        using same_items_trans [OF same_items_delete ih(3)] .
      then show ?thesis
        using ih ys(2) by (simp add: dn)
    qed
  qed
qed

lemma sub_inv_prepare:
  assumes "sub_inv s" "prepare_loop (notificationQueue s) k s = (xs, s')"
  shows "sub_inv s'"
proof -
  have wf: "sub_wf s" "distinct (notificationQueue s)"
    using assms(1) by (simp_all add: sub_inv_def sub_wf_def queues_ok_def)
  note sp = prepare_loop_spec [OF wf subset_refl assms(2)]
  let ?del = "delivered k s (notificationQueue s)"
  show ?thesis
    unfolding sub_inv_def
  proof (intro conjI ballI, goal_cases)
    case 1
    show ?case using sp by blast
  next
    case (2 m)
    then show ?case
      using sp assms(1) static_monD(3) unfolding sub_inv_def same_items_def by metis
  next
    case (3 m)
    then have m: "m \<in> set (monitoredItems s)" "m \<in> set (monitoredItems s')"
      using sp by (auto simp: same_items_def)
    have own: "owner s' n = owner s n" if "n \<notin> set ?del" for n
      using sp that by (simp add: owner_def notif_at_def)
    have "queue (mon_at s' m) = filter (\<lambda>n. owner s' n = m) (filter (\<lambda>n. n \<notin> set ?del) (notificationQueue s))"
      using sp m by (auto simp: sub_wf_def queues_ok_def)
    also have "\<dots> = filter (\<lambda>n. owner s n = m) (filter (\<lambda>n. n \<notin> set ?del) (notificationQueue s))"
      using own by (intro filter_cong) auto
    also have "\<dots> = filter (\<lambda>n. n \<notin> set ?del) (queue (mon_at s m))"
      using wf m by (auto simp: sub_wf_def queues_ok_def conj_commute)
    finally have "length (queue (mon_at s' m)) \<le> length (queue (mon_at s m))"
      by simp
    moreover have "maxQueueSize (mon_at s' m) = maxQueueSize (mon_at s m)"
      using sp static_monD(3) unfolding same_items_def by metis
    ultimately show ?case
      using assms(1) m unfolding sub_inv_def by fastforce
  qed
qed

subsection \<open>Deleting all notifications of an item\<close>

lemma sub_inv_delete:
  assumes "sub_inv s" "n \<in> set (notificationQueue s)" "m = owner s n"
  shows "sub_inv (UA_Notification_delete m n s)"
  using assms length_remove1 [of n "queue (mon_at s m)"]
  by (auto simp: sub_inv_def sub_wf_delete mon_at_delete split: if_splits)

lemma delete_all_spec:
  assumes "sub_inv s" "m \<in> set (monitoredItems s)"
  shows "sub_inv (delete_all m (queue (mon_at s m)) s) \<and> same_items s (delete_all m (queue (mon_at s m)) s)
    \<and> queue (mon_at (delete_all m (queue (mon_at s m)) s) m) = []
    \<and> notificationQueue (delete_all m (queue (mon_at s m)) s) = filter (\<lambda>n. owner s n \<noteq> m) (notificationQueue s)
    \<and> (\<forall>n. owner s n \<noteq> m \<longrightarrow> notifs (delete_all m (queue (mon_at s m)) s) n = notifs s n)
    \<and> monitoredItemsSize (delete_all m (queue (mon_at s m)) s) = monitoredItemsSize s"
  using assms
proof (induction "queue (mon_at s m)" arbitrary: s)
  case Nil
  then have "filter (\<lambda>n. owner s n = m) (notificationQueue s) = []"
    by (auto simp: sub_inv_def sub_wf_def queues_ok_def)
  then have "filter (\<lambda>n. owner s n \<noteq> m) (notificationQueue s) = notificationQueue s"
    by (simp add: filter_empty_conv filter_id_conv)
  with Nil show ?case by (simp flip: Nil.hyps)
next
  case (Cons n ns)
  let ?s = "UA_Notification_delete m n s"
  have wf: "sub_wf s" "distinct (notificationQueue s)"
    using Cons.prems by (simp_all add: sub_inv_def sub_wf_def queues_ok_def)
  have n: "n \<in> set (notificationQueue s)" "owner s n = m"
    using in_own_queue [OF wf(1) Cons.prems(2), of n] by (simp_all flip: Cons.hyps(2))
  have inv: "sub_inv ?s"
    using Cons.prems n by (intro sub_inv_delete) simp_all
  have q: "queue (mon_at ?s m) = ns"
    by (simp add: mon_at_delete flip: Cons.hyps(2))
  have flt: "filter (\<lambda>l. owner ?s l \<noteq> m) (remove1 n (notificationQueue s)) = filter (\<lambda>l. owner s l \<noteq> m) (notificationQueue s)"
  proof -
    have "filter (\<lambda>l. owner ?s l \<noteq> m) (remove1 n (notificationQueue s)) = filter (\<lambda>l. owner s l \<noteq> m) (remove1 n (notificationQueue s))"
      using wf(2) by (intro filter_cong) auto
    then show ?thesis
      using n(2) by (simp add: filter_remove1 remove1_idem)
  qed
  have o: "owner s l \<noteq> m \<Longrightarrow> l \<noteq> n \<and> owner ?s l \<noteq> m" for l
    using n(2) owner_delete [of l n m s] by (cases "l = n") simp_all
  have "delete_all m (queue (mon_at s m)) s = delete_all m ns ?s"
    by (simp flip: Cons.hyps(2))
  moreover note Cons.hyps(1) [OF q [symmetric] inv]
  ultimately show ?case
    using Cons.prems(2) o same_items_trans [OF same_items_delete, of m n s] flt by (simp add: q)
qed

end
