(* ===== verification/Subscription_Services.thy ===== *)
theory Subscription_Services
  imports Subscription
begin

text \<open>
  The services on subscriptions: src/src/server/ua_services_subscription.c, \<open>UA_Subscription_new\<close>,
  \<open>UA_Subscription_reachedPublishReqLimit\<close> and \<open>UA_Subscription_answerPublishRequestsNoSubscription\<close> of
  src/src/server/ua_subscription.c, \<open>UA_Session_addSubscription\<close> of src/src/server/ua_session.c and
  \<open>UA_Server_processServiceOperations\<close> of src/src/server/ua_server_utils.c. A service returns the results
  that the code writes into the response. Creating MonitoredItems and sampling are not part of the model.
\<close>

abbreviation (input) BADNOTHINGTODO :: status where "BADNOTHINGTODO \<equiv> 0x800F0000"
abbreviation (input) BADTOOMANYOPERATIONS :: status where "BADTOOMANYOPERATIONS \<equiv> 0x80100000"
abbreviation (input) BADTIMESTAMPSTORETURNINVALID :: status where "BADTIMESTAMPSTORETURNINVALID \<equiv> 0x802B0000"
abbreviation (input) BADMONITORINGMODEINVALID :: status where "BADMONITORINGMODEINVALID \<equiv> 0x80410000"
abbreviation (input) BADMONITOREDITEMFILTERINVALID :: status where "BADMONITOREDITEMFILTERINVALID \<equiv> 0x80430000"
abbreviation (input) BADMONITOREDITEMFILTERUNSUPPORTED :: status where "BADMONITOREDITEMFILTERUNSUPPORTED \<equiv> 0x80440000"
abbreviation (input) BADFILTERNOTALLOWED :: status where "BADFILTERNOTALLOWED \<equiv> 0x80450000"

subsection \<open>Comparison of doubles\<close>

text \<open>
  A double is compared through its bits: NaN is unordered, the sign bit mirrors the magnitude and both zeros are equal.
\<close>

definition double_nan :: "u64 \<Rightarrow> bool" where
  "double_nan d \<longleftrightarrow> d AND 0x7FF0000000000000 = 0x7FF0000000000000 \<and> d AND 0x000FFFFFFFFFFFFF \<noteq> 0"

definition double_key :: "u64 \<Rightarrow> int" where
  "double_key d = (let k = uint (d AND 0x7FFFFFFFFFFFFFFF) in if bit d 63 then - k else k)"

definition double_less :: "u64 \<Rightarrow> u64 \<Rightarrow> bool" where
  "double_less a b \<longleftrightarrow> \<not> double_nan a \<and> \<not> double_nan b \<and> double_key a < double_key b"

text \<open>The macro \<open>UA_BOUNDEDVALUE_SETWBOUNDS\<close> for an ordering.\<close>

definition BOUNDEDVALUE_SETWBOUNDS :: "('a \<Rightarrow> 'a \<Rightarrow> bool) \<Rightarrow> 'a \<times> 'a \<Rightarrow> 'a \<Rightarrow> 'a" where
  "BOUNDEDVALUE_SETWBOUNDS lt bounds src =
     (if lt (snd bounds) src then snd bounds else if lt src (fst bounds) then fst bounds else src)"

subsection \<open>Operations\<close>

fun operations :: "('a \<Rightarrow> session \<Rightarrow> 'b \<times> session) \<Rightarrow> 'a list \<Rightarrow> session \<Rightarrow> 'b list \<times> session" where
  "operations f [] w = ([], w)"
| "operations f (x # xs) w = (let (r, w1) = f x w; (rs, w2) = operations f xs w1 in (r # rs, w2))"

definition UA_Server_processServiceOperations ::
  "('a \<Rightarrow> session \<Rightarrow> 'b \<times> session) \<Rightarrow> 'a list \<Rightarrow> session \<Rightarrow> status \<times> 'b list \<times> session" where
  "UA_Server_processServiceOperations f xs w =
     (if xs = [] then (BADNOTHINGTODO, [], w)
      else (case alloc w of
              (False, w1) \<Rightarrow> (BADOUTOFMEMORY, [], w1)
            | (True, w1) \<Rightarrow> (let (rs, w2) = operations f xs w1 in (GOOD, rs, w2))))"

subsection \<open>Creating and changing subscriptions\<close>

text \<open>\<open>UA_Subscription_new\<close> zeroes all members.\<close>

definition UA_Subscription_new :: "u32 \<Rightarrow> subscription" where
  "UA_Subscription_new sid =
     \<lparr>subscriptionId = sid, lifeTimeCount = 0, maxKeepAliveCount = 0, publishingInterval = 0, notificationsPerPublish = 0,
      publishingEnabled = False, priority = 0, substate = NORMAL, sequenceNumber = 0, currentKeepAliveCount = 0,
      currentLifetimeCount = 0, publishCallbackIsRegistered = False, lastMonitoredItemId = 0, monitoredItems = [],
      monitoredItemsSize = 0, notificationQueue = [], notificationQueueSize = 0, dataChangeNotifications = 0,
      eventNotifications = 0, statusChangeNotifications = 0, readyNotifications = 0, retransmissionQueue = [],
      retransmissionQueueSize = 0, mons = Map.empty, notifs = Map.empty\<rparr>"

definition UA_Session_addSubscription :: "ptr \<Rightarrow> session \<Rightarrow> session" where
  "UA_Session_addSubscription p w =
     (set_sub p ((sub_at w p)\<lparr>subscriptionId := lastSubscriptionId w + 1\<rparr>) w)
       \<lparr>lastSubscriptionId := lastSubscriptionId w + 1, serverSubscriptions := p # serverSubscriptions w,
        numSubscriptions := numSubscriptions w + 1\<rparr>"

record subscription_request =
  requestedPublishingInterval :: u64
  requestedLifetimeCount :: u32
  requestedMaxKeepAliveCount :: u32
  maxNotificationsPerPublish :: u32
  requestedPriority :: u8

definition settings :: "server_config \<Rightarrow> subscription_request \<Rightarrow> subscription \<Rightarrow> subscription" where
  "settings cfg rq s =
     (let interval = (if double_nan (requestedPublishingInterval rq) then fst (publishingIntervalLimits cfg)
                      else BOUNDEDVALUE_SETWBOUNDS double_less (publishingIntervalLimits cfg) (requestedPublishingInterval rq));
          keepAlive = BOUNDEDVALUE_SETWBOUNDS (<) (keepAliveCountLimits cfg) (requestedMaxKeepAliveCount rq);
          lifeTime = BOUNDEDVALUE_SETWBOUNDS (<) (lifeTimeCountLimits cfg) (requestedLifetimeCount rq)
      in s\<lparr>publishingInterval := interval, maxKeepAliveCount := keepAlive,
           lifeTimeCount := (if lifeTime < 3 * keepAlive then 3 * keepAlive else lifeTime),
           notificationsPerPublish :=
             (if maxNotificationsPerPublish rq = 0 \<or> maxNotificationsPerPublish rq > cfgMaxNotificationsPerPublish cfg
              then cfgMaxNotificationsPerPublish cfg else maxNotificationsPerPublish rq),
           priority := ucast (requestedPriority rq)\<rparr>)"

definition setSubscriptionSettings :: "server_config \<Rightarrow> subscription_request \<Rightarrow> ptr \<Rightarrow> session \<Rightarrow> session" where
  "setSubscriptionSettings cfg rq p w =
     (let w1 = snd (Subscription_unregisterPublishCallback p w);
          w2 = set_sub p (settings cfg rq (sub_at w1 p)) w1
      in snd (Subscription_registerPublishCallback p w2))"

record subscription_response =
  rspResult :: status
  rspSubscriptionId :: u32
  revisedPublishingInterval :: u64
  revisedLifetimeCount :: u32
  revisedMaxKeepAliveCount :: u32

definition failed_response :: "status \<Rightarrow> subscription_response" where
  "failed_response r = \<lparr>rspResult = r, rspSubscriptionId = 0, revisedPublishingInterval = 0, revisedLifetimeCount = 0,
     revisedMaxKeepAliveCount = 0\<rparr>"

definition settings_response :: "u32 \<Rightarrow> subscription \<Rightarrow> subscription_response" where
  "settings_response sid s = \<lparr>rspResult = GOOD, rspSubscriptionId = sid, revisedPublishingInterval = publishingInterval s,
     revisedLifetimeCount = lifeTimeCount s, revisedMaxKeepAliveCount = maxKeepAliveCount s\<rparr>"

text \<open>\<open>p\<close> is the address at which the subscription is allocated.\<close>

definition Service_CreateSubscription ::
  "server_config \<Rightarrow> bool \<Rightarrow> subscription_request \<Rightarrow> ptr \<Rightarrow> session \<Rightarrow> subscription_response \<times> session" where
  "Service_CreateSubscription cfg enabled rq p w =
     (if maxSubscriptionsPerSession cfg \<noteq> 0 \<and> numPublishReq w \<ge> maxSubscriptionsPerSession cfg
      then (failed_response BADTOOMANYSUBSCRIPTIONS, w)
      else
        (case alloc w of
           (False, w1) \<Rightarrow> (failed_response BADOUTOFMEMORY, w1)
         | (True, w1) \<Rightarrow>
             (let w2 = UA_Session_addSubscription p (set_sub p (UA_Subscription_new 0) w1);
                  w3 = set_sub p ((sub_at w2 p)\<lparr>publishingEnabled := enabled\<rparr>) w2;
                  w4 = setSubscriptionSettings cfg rq p w3;
                  s = (sub_at w4 p)\<lparr>currentKeepAliveCount := maxKeepAliveCount (sub_at w4 p)\<rparr>
              in (settings_response (subscriptionId s) s, set_sub p s w4))))"

definition Service_ModifySubscription ::
  "server_config \<Rightarrow> u32 \<Rightarrow> subscription_request \<Rightarrow> session \<Rightarrow> subscription_response \<times> session" where
  "Service_ModifySubscription cfg sid rq w =
     (case UA_Session_getSubscriptionById sid w of
        None \<Rightarrow> (failed_response BADSUBSCRIPTIONIDINVALID, w)
      | Some p \<Rightarrow>
          (let w1 = setSubscriptionSettings cfg rq p w;
               s = (sub_at w1 p)\<lparr>currentLifetimeCount := 0\<rparr>
           in (settings_response 0 s, set_sub p s w1)))"

definition Operation_SetPublishingMode :: "bool \<Rightarrow> u32 \<Rightarrow> session \<Rightarrow> status \<times> session" where
  "Operation_SetPublishingMode enabled sid w =
     (case UA_Session_getSubscriptionById sid w of
        None \<Rightarrow> (BADSUBSCRIPTIONIDINVALID, w)
      | Some p \<Rightarrow> (GOOD, set_sub p ((sub_at w p)\<lparr>currentLifetimeCount := 0, publishingEnabled := enabled\<rparr>) w))"

definition Service_SetPublishingMode :: "bool \<Rightarrow> u32 list \<Rightarrow> session \<Rightarrow> status \<times> status list \<times> session" where
  "Service_SetPublishingMode enabled = UA_Server_processServiceOperations (Operation_SetPublishingMode enabled)"

subsection \<open>Changing monitored items\<close>

datatype request_filter = FilterNotDecoded | FilterDataChange data_change_filter | FilterEvent | FilterOther

record monitoring_parameters =
  parClientHandle :: u32
  parSamplingInterval :: u64
  parFilter :: request_filter
  parQueueSize :: u32
  parDiscardOldest :: bool

definition isDataTypeNumeric :: "typeref \<Rightarrow> bool" where
  "isDataTypeNumeric t \<longleftrightarrow> (case t of Ns0 i \<Rightarrow> 1 \<le> i \<and> i \<le> 10 | Custom i \<Rightarrow> False)"

fun variant_type :: "variant \<Rightarrow> typeref option" where
  "variant_type VarEmpty = None"
| "variant_type (VarScalar t v) = Some t"
| "variant_type (VarArray t vs ds) = Some t"

text \<open>The filter that is stored, or the error.\<close>

definition checked_filter :: "typeref option \<Rightarrow> request_filter \<Rightarrow> monitored_item \<Rightarrow> status + monitoring_filter" where
  "checked_filter dataType f mon =
     (case f of
        FilterNotDecoded \<Rightarrow> Inr (DataChangeFilter \<lparr>filterTrigger = 1, deadbandType = 0, deadbandValue = 0\<rparr>)
      | FilterDataChange d \<Rightarrow>
          (let t = (case variant_type (lastValue mon) of None \<Rightarrow> dataType | Some t \<Rightarrow> Some t)
           in if deadbandType d = 2 then Inl BADMONITOREDITEMFILTERUNSUPPORTED
              else (case t of
                      None \<Rightarrow> Inl BADFILTERNOTALLOWED
                    | Some t \<Rightarrow> if isDataTypeNumeric t then Inr (DataChangeFilter d) else Inl BADFILTERNOTALLOWED))
      | FilterEvent \<Rightarrow> Inr EventFilter
      | FilterOther \<Rightarrow> Inl BADMONITOREDITEMFILTERINVALID)"

definition ATTRIBUTEID_EVENTNOTIFIER :: u32 where "ATTRIBUTEID_EVENTNOTIFIER = 12"
definition ATTRIBUTEID_VALUE :: u32 where "ATTRIBUTEID_VALUE = 13"

definition item_type :: "u32 \<Rightarrow> monitored_item_type" where
  "item_type a = (if a = ATTRIBUTEID_VALUE then CHANGENOTIFY else if a = ATTRIBUTEID_EVENTNOTIFIER then EVENTNOTIFY else CHANGENOTIFY)"

text \<open>
  \<open>minInterval\<close> is the minimum sampling interval of the monitored variable in the node store, if it is a variable.
  10000.0 is the double \<open>0x40C3880000000000\<close>.
\<close>

definition requested_interval :: "u64 option \<Rightarrow> monitoring_parameters \<Rightarrow> monitored_item \<Rightarrow> u64" where
  "requested_interval minInterval par mon =
     (if attributeId mon = ATTRIBUTEID_VALUE then
        (case minInterval of
           None \<Rightarrow> parSamplingInterval par
         | Some k \<Rightarrow> if double_less (parSamplingInterval par) k then k else parSamplingInterval par)
      else if attributeId mon = ATTRIBUTEID_EVENTNOTIFIER then 0x40C3880000000000
      else parSamplingInterval par)"

definition UA_MonitoredItem_registerSampleCallback :: "ptr \<Rightarrow> ptr \<Rightarrow> session \<Rightarrow> status \<times> session" where
  "UA_MonitoredItem_registerSampleCallback p m w =
     (let s = sub_at w p; mon = mon_at s m in
      if sampleCallbackIsRegistered mon \<or> monitoredItemType mon \<noteq> CHANGENOTIFY then (GOOD, w)
      else (case alloc w of
              (False, w1) \<Rightarrow> (BADOUTOFMEMORY, w1)
            | (True, w1) \<Rightarrow> (GOOD, set_sub p (set_mon m (mon\<lparr>sampleCallbackIsRegistered := True\<rparr>) s) w1)))"

definition UA_MonitoredItem_unregisterSampleCallback :: "ptr \<Rightarrow> ptr \<Rightarrow> session \<Rightarrow> status \<times> session" where
  "UA_MonitoredItem_unregisterSampleCallback p m w =
     (let s = sub_at w p; mon = mon_at s m in
      if \<not> sampleCallbackIsRegistered mon then (GOOD, w)
      else (case alloc w of
              (ok, w1) \<Rightarrow> (if ok then GOOD else BADOUTOFMEMORY,
                 set_sub p (set_mon m (mon\<lparr>sampleCallbackIsRegistered := False\<rparr>) s) w1)))"

definition MONITORINGMODE_REPORTING :: u32 where "MONITORINGMODE_REPORTING = 2"

definition item_settings ::
  "server_config \<Rightarrow> u64 option \<Rightarrow> u32 \<Rightarrow> monitoring_parameters \<Rightarrow> monitoring_filter \<Rightarrow> monitored_item \<Rightarrow> monitored_item" where
  "item_settings cfg minInterval mode par f mon =
     (let i = requested_interval minInterval par mon
      in mon\<lparr>monFilter := f, monitoringMode := mode, clientHandle := parClientHandle par,
             monitoredItemType := item_type (attributeId mon),
             samplingInterval := (if double_nan i then fst (samplingIntervalLimits cfg)
                                  else BOUNDEDVALUE_SETWBOUNDS double_less (samplingIntervalLimits cfg) i),
             maxQueueSize := BOUNDEDVALUE_SETWBOUNDS (<) (queueSizeLimits cfg) (parQueueSize par),
             discardOldest := parDiscardOldest par\<rparr>)"

definition setMonitoredItemSettings ::
  "server_config \<Rightarrow> u64 option \<Rightarrow> u32 \<Rightarrow> monitoring_parameters \<Rightarrow> typeref option \<Rightarrow> ptr \<Rightarrow> ptr \<Rightarrow> session \<Rightarrow> status \<times> session" where
  "setMonitoredItemSettings cfg minInterval mode par dataType p m w =
     (case checked_filter dataType (parFilter par) (mon_at (sub_at w p) m) of
        Inl r \<Rightarrow> (r, w)
      | Inr f \<Rightarrow>
          (let w1 = snd (UA_MonitoredItem_unregisterSampleCallback p m w);
               s = sub_at w1 p;
               w2 = set_sub p (set_mon m (item_settings cfg minInterval mode par f (mon_at s m)) s) w1
           in (GOOD, if mode = MONITORINGMODE_REPORTING then snd (UA_MonitoredItem_registerSampleCallback p m w2) else w2)))"

text \<open>The result carries the status, the revised sampling interval and the revised queue size.\<close>

definition Operation_ModifyMonitoredItem ::
  "server_config \<Rightarrow> (ptr \<Rightarrow> u64 option) \<Rightarrow> ptr \<Rightarrow> u32 \<times> monitoring_parameters \<Rightarrow> session \<Rightarrow> (status \<times> u64 \<times> u32) \<times> session" where
  "Operation_ModifyMonitoredItem cfg minInterval p rq w =
     (case UA_Subscription_getMonitoredItem (fst rq) (sub_at w p) of
        None \<Rightarrow> ((BADMONITOREDITEMIDINVALID, 0, 0), w)
      | Some m \<Rightarrow>
          (case setMonitoredItemSettings cfg (minInterval m) (monitoringMode (mon_at (sub_at w p) m)) (snd rq) None p m w of
             (r, w1) \<Rightarrow>
               if r \<noteq> GOOD then ((r, 0, 0), w1)
               else (let s = sub_at w1 p
                     in ((GOOD, samplingInterval (mon_at s m), maxQueueSize (mon_at s m)),
                         set_sub p (MonitoredItem_ensureQueueSpace m s) w1))))"

definition reset_lifetime :: "ptr \<Rightarrow> session \<Rightarrow> session" where
  "reset_lifetime p w = set_sub p ((sub_at w p)\<lparr>currentLifetimeCount := 0\<rparr>) w"

text \<open>\<open>timestamps\<close> is the enumeration TimestampsToReturn of the request, whose last value (Neither) is 3.\<close>

definition Service_ModifyMonitoredItems ::
  "server_config \<Rightarrow> (ptr \<Rightarrow> u64 option) \<Rightarrow> u32 \<Rightarrow> u32 \<Rightarrow> (u32 \<times> monitoring_parameters) list \<Rightarrow> session
     \<Rightarrow> status \<times> (status \<times> u64 \<times> u32) list \<times> session" where
  "Service_ModifyMonitoredItems cfg minInterval timestamps sid rqs w =
     (if maxMonitoredItemsPerCall cfg \<noteq> 0 \<and> length rqs > unat (maxMonitoredItemsPerCall cfg) then (BADTOOMANYOPERATIONS, [], w)
      else if timestamps > 3 then (BADTIMESTAMPSTORETURNINVALID, [], w)
      else (case UA_Session_getSubscriptionById sid w of
              None \<Rightarrow> (BADSUBSCRIPTIONIDINVALID, [], w)
            | Some p \<Rightarrow> UA_Server_processServiceOperations (Operation_ModifyMonitoredItem cfg minInterval p) rqs (reset_lifetime p w)))"

definition Operation_SetMonitoringMode :: "ptr \<Rightarrow> u32 \<Rightarrow> u32 \<Rightarrow> session \<Rightarrow> status \<times> session" where
  "Operation_SetMonitoringMode p mode mid w =
     (case UA_Subscription_getMonitoredItem mid (sub_at w p) of
        None \<Rightarrow> (BADMONITOREDITEMIDINVALID, w)
      | Some m \<Rightarrow>
          (let s = sub_at w p; mon = mon_at s m in
           if monitoredItemType mon \<noteq> CHANGENOTIFY \<and> monitoredItemType mon \<noteq> EVENTNOTIFY then (BADNOTIMPLEMENTED, w)
           else if mode > MONITORINGMODE_REPORTING then (BADMONITORINGMODEINVALID, w)
           else if monitoringMode mon = mode then (GOOD, w)
           else
             (let w1 = set_sub p (set_mon m (mon\<lparr>monitoringMode := mode\<rparr>) s) w in
              if mode = MONITORINGMODE_REPORTING then (GOOD, snd (UA_MonitoredItem_registerSampleCallback p m w1))
              else
                (let w2 = snd (UA_MonitoredItem_unregisterSampleCallback p m w1);
                     s2 = delete_all m (queue (mon_at (sub_at w2 p) m)) (sub_at w2 p)
                 in (GOOD, set_sub p (set_mon m ((mon_at s2 m)\<lparr>lastSampledValue := None, lastValue := VarEmpty\<rparr>) s2) w2)))))"

definition Service_SetMonitoringMode :: "server_config \<Rightarrow> u32 \<Rightarrow> u32 \<Rightarrow> u32 list \<Rightarrow> session \<Rightarrow> status \<times> status list \<times> session" where
  "Service_SetMonitoringMode cfg sid mode mids w =
     (if maxMonitoredItemsPerCall cfg \<noteq> 0 \<and> length mids > unat (maxMonitoredItemsPerCall cfg) then (BADTOOMANYOPERATIONS, [], w)
      else (case UA_Session_getSubscriptionById sid w of
              None \<Rightarrow> (BADSUBSCRIPTIONIDINVALID, [], w)
            | Some p \<Rightarrow> UA_Server_processServiceOperations (Operation_SetMonitoringMode p mode) mids (reset_lifetime p w)))"

definition Operation_DeleteMonitoredItem :: "ptr \<Rightarrow> u32 \<Rightarrow> session \<Rightarrow> status \<times> session" where
  "Operation_DeleteMonitoredItem p mid w =
     (let (r, s) = UA_Subscription_deleteMonitoredItem mid (sub_at w p) in (r, set_sub p s w))"

definition Service_DeleteMonitoredItems :: "server_config \<Rightarrow> u32 \<Rightarrow> u32 list \<Rightarrow> session \<Rightarrow> status \<times> status list \<times> session" where
  "Service_DeleteMonitoredItems cfg sid mids w =
     (if maxMonitoredItemsPerCall cfg \<noteq> 0 \<and> length mids > unat (maxMonitoredItemsPerCall cfg) then (BADTOOMANYOPERATIONS, [], w)
      else (case UA_Session_getSubscriptionById sid w of
              None \<Rightarrow> (BADSUBSCRIPTIONIDINVALID, [], w)
            | Some p \<Rightarrow> UA_Server_processServiceOperations (Operation_DeleteMonitoredItem p) mids (reset_lifetime p w)))"

subsection \<open>Publish\<close>

text \<open>A message without notifications that reports an error for a request.\<close>

definition error_response :: "u32 \<Rightarrow> u32 \<Rightarrow> status \<Rightarrow> status list \<Rightarrow> publish_response" where
  "error_response rid handle r rs =
     \<lparr>respRequestId = rid, respRequestHandle = handle, serviceResult = r, respSubscriptionId = 0, moreNotifications = False,
      notificationMessage = \<lparr>msgSequenceNumber = 0, changes = []\<rparr>, availableSequenceNumbers = [], results = rs\<rparr>"

definition send :: "publish_response \<Rightarrow> session \<Rightarrow> session" where
  "send r w = w\<lparr>sent := sent w @ [r]\<rparr>"

definition subscriptionSendError :: "u32 \<Rightarrow> u32 \<Rightarrow> status \<Rightarrow> session \<Rightarrow> session" where
  "subscriptionSendError handle rid err w = send (error_response rid handle err []) w"

definition UA_Subscription_reachedPublishReqLimit :: "session \<Rightarrow> bool \<times> session" where
  "UA_Subscription_reachedPublishReqLimit w =
     (case UA_Session_dequeuePublishReq w of
        (None, w1) \<Rightarrow> (False, w1)
      | (Some e, w1) \<Rightarrow>
          (True, send (error_response (requestId e) (requestHandle e) BADTOOMANYPUBLISHREQUESTS (ackResults e)) w1))"

function answer_loop :: "session \<Rightarrow> session" where
  "answer_loop w =
     (case UA_Session_dequeuePublishReq w of
        (None, w1) \<Rightarrow> w1
      | (Some e, w1) \<Rightarrow> answer_loop (send (error_response (requestId e) (requestHandle e) BADNOSUBSCRIPTION (ackResults e)) w1))"
  by pat_completeness auto
termination
  by (relation "measure (\<lambda>w. length (responseQueue w))") (auto simp: UA_Session_dequeuePublishReq_def send_def split: list.splits)

declare answer_loop.simps [simp del]

definition UA_Subscription_answerPublishRequestsNoSubscription :: "session \<Rightarrow> session" where
  "UA_Subscription_answerPublishRequestsNoSubscription w = (if serverSubscriptions w \<noteq> [] then w else answer_loop w)"

fun acknowledge :: "(u32 \<times> u32) list \<Rightarrow> session \<Rightarrow> status list \<times> session" where
  "acknowledge [] w = ([], w)"
| "acknowledge ((sid, seqnr) # acks) w =
     (case UA_Session_getSubscriptionById sid w of
        None \<Rightarrow> (let (rs, w1) = acknowledge acks w in (BADSUBSCRIPTIONIDINVALID # rs, w1))
      | Some p \<Rightarrow>
          (let (r, s) = UA_Subscription_removeRetransmissionMessage seqnr (sub_at w p);
               (rs, w1) = acknowledge acks (set_sub p s w)
           in (r # rs, w1)))"

text \<open>
  The order in which the subscriptions are searched for a late one: behind the one that was served last, and then from the
  start; from the start only if that one is not in the list or is the last of the list.
\<close>

fun behind :: "u32 \<Rightarrow> session \<Rightarrow> ptr list \<Rightarrow> ptr list" where
  "behind sid w [] = []"
| "behind sid w (p # ps) = (if subscriptionId (sub_at w p) = sid then ps else behind sid w ps)"

definition search_order :: "session \<Rightarrow> ptr list" where
  "search_order w =
     (let ps = (if lastSeenSubscriptionId w > 0 then behind (lastSeenSubscriptionId w) w (serverSubscriptions w) else [])
      in ps @ serverSubscriptions w)"

definition is_late :: "session \<Rightarrow> ptr \<Rightarrow> bool" where
  "is_late w p \<longleftrightarrow> substate (sub_at w p) = LATE"

definition serve_late :: "server_config \<Rightarrow> session \<Rightarrow> session" where
  "serve_late cfg w =
     (case find (is_late w) (search_order w) of
        None \<Rightarrow> w\<lparr>lastSeenSubscriptionId := 0\<rparr>
      | Some p \<Rightarrow> UA_Subscription_publish cfg p (w\<lparr>lastSeenSubscriptionId := subscriptionId (sub_at w p)\<rparr>))"

record publish_request_t =
  pubRequestHandle :: u32
  acknowledgements :: "(u32 \<times> u32) list"

text \<open>The part of \<open>Service_Publish\<close> behind the check of the number of requests.\<close>

definition accept_publish :: "server_config \<Rightarrow> publish_request_t \<Rightarrow> u32 \<Rightarrow> session \<Rightarrow> session" where
  "accept_publish cfg rq rid w =
     (case alloc w of
        (False, w1) \<Rightarrow> subscriptionSendError rid (pubRequestHandle rq) BADOUTOFMEMORY w1
      | (True, w1) \<Rightarrow>
          (case (if acknowledgements rq = [] then (True, w1) else alloc w1) of
             (False, w2) \<Rightarrow> subscriptionSendError rid (pubRequestHandle rq) BADOUTOFMEMORY w2
           | (True, w2) \<Rightarrow>
               (let (rs, w3) = acknowledge (acknowledgements rq) w2;
                    e = \<lparr>requestId = rid, requestHandle = pubRequestHandle rq, ackResults = rs\<rparr>
                in serve_late cfg (UA_Session_queuePublishReq e False w3))))"

definition Service_Publish :: "server_config \<Rightarrow> publish_request_t \<Rightarrow> u32 \<Rightarrow> session \<Rightarrow> session" where
  "Service_Publish cfg rq rid w =
     (if serverSubscriptions w = [] then subscriptionSendError (pubRequestHandle rq) rid BADNOSUBSCRIPTION w
      else if maxPublishReqPerSession cfg \<noteq> 0 \<and> numPublishReq w \<ge> maxPublishReqPerSession cfg then
        (case UA_Subscription_reachedPublishReqLimit w of
           (False, w1) \<Rightarrow> subscriptionSendError rid (pubRequestHandle rq) BADINTERNALERROR w1
         | (True, w1) \<Rightarrow> accept_publish cfg rq rid w1)
      else accept_publish cfg rq rid w)"

subsection \<open>Deleting subscriptions, republishing\<close>

definition Service_DeleteSubscriptions :: "u32 list \<Rightarrow> session \<Rightarrow> status \<times> status list \<times> session" where
  "Service_DeleteSubscriptions sids w =
     (let (r, rs, w1) = UA_Server_processServiceOperations UA_Session_deleteSubscription sids w
      in (r, rs, if serverSubscriptions w1 \<noteq> [] then w1 else UA_Subscription_answerPublishRequestsNoSubscription w1))"

text \<open>The copy of the message needs memory.\<close>

definition Service_Republish :: "u32 \<Rightarrow> u32 \<Rightarrow> session \<Rightarrow> status \<times> notification_message option \<times> session" where
  "Service_Republish sid seqnr w =
     (case UA_Session_getSubscriptionById sid w of
        None \<Rightarrow> (BADSUBSCRIPTIONIDINVALID, None, w)
      | Some p \<Rightarrow>
          (let w1 = reset_lifetime p w in
           case find (\<lambda>e. msgSequenceNumber e = seqnr) (retransmissionQueue (sub_at w1 p)) of
             None \<Rightarrow> (BADMESSAGENOTAVAILABLE, None, w1)
           | Some e \<Rightarrow>
               (case alloc w1 of
                  (False, w2) \<Rightarrow> (BADOUTOFMEMORY, None, w2)
                | (True, w2) \<Rightarrow> (GOOD, Some e, w2))))"

end
