(* ===== verification/Subscription_Invariant.thy ===== *)
theory Subscription_Invariant
  imports Subscription_Deliver Subscription_Services
begin

text \<open>
  The invariant of a session with its subscriptions. \<open>sub_good\<close> is the invariant of one subscription: its notification queues
  (\<open>sub_inv\<close>), the number and types of its items and its retransmission queue. \<open>session_inv\<close> holds it for all subscriptions of
  a session and adds the counters of the session. Every service and callback keeps it; the locale \<open>session_invariant\<close> lifts
  what one operation keeps to a service with a list of operations.
\<close>

subsection \<open>One subscription\<close>

definition items_ok :: "subscription \<Rightarrow> bool" where
  "items_ok s \<longleftrightarrow> monitoredItemsSize s = of_nat (length (monitoredItems s))
     \<and> (\<forall>m \<in> set (monitoredItems s). monitoredItemType (mon_at s m) = item_type (attributeId (mon_at s m)))"

definition retransmission_ok :: "server_config \<Rightarrow> subscription \<Rightarrow> bool" where
  "retransmission_ok cfg s \<longleftrightarrow> retransmissionQueueSize s = of_nat (length (retransmissionQueue s))
     \<and> (maxRetransmissionQueueSize cfg > 0 \<longrightarrow> length (retransmissionQueue s) \<le> unat (maxRetransmissionQueueSize cfg))"

definition sub_good :: "server_config \<Rightarrow> subscription \<Rightarrow> bool" where
  "sub_good cfg s \<longleftrightarrow> sub_inv s \<and> items_ok s \<and> retransmission_ok cfg s"

text \<open>The members of a subscription that the invariant reads.\<close>

definition same_core :: "subscription \<Rightarrow> subscription \<Rightarrow> bool" where
  "same_core s s' \<longleftrightarrow> monitoredItems s' = monitoredItems s \<and> monitoredItemsSize s' = monitoredItemsSize s \<and> mons s' = mons s
     \<and> notificationQueue s' = notificationQueue s \<and> notificationQueueSize s' = notificationQueueSize s
     \<and> dataChangeNotifications s' = dataChangeNotifications s \<and> eventNotifications s' = eventNotifications s
     \<and> statusChangeNotifications s' = statusChangeNotifications s \<and> notifs s' = notifs s"

lemma sub_inv_core:
  assumes "same_core s s'"
  shows "sub_inv s' = sub_inv s"
proof -
  have "mon_at s' = mon_at s" "owner s' = owner s"
    using assms by (simp_all add: same_core_def mon_at_def owner_def notif_at_def fun_eq_iff)
  then have "kind s' = kind s"
    by (simp add: kind_def fun_eq_iff)
  then have "num_kind s' = num_kind s"
    using assms by (simp add: num_kind_def same_core_def fun_eq_iff)
  with \<open>mon_at s' = mon_at s\<close> \<open>owner s' = owner s\<close> show ?thesis
    using assms by (simp add: sub_inv_def sub_wf_def queues_ok_def counters_ok_def same_core_def)
qed

lemma sub_good_core:
  assumes "same_core s s'" "retransmissionQueue s' = retransmissionQueue s" "retransmissionQueueSize s' = retransmissionQueueSize s"
  shows "sub_good cfg s' = sub_good cfg s"
  using assms sub_inv_core [OF assms(1)]
  by (simp add: sub_good_def items_ok_def retransmission_ok_def) (simp add: same_core_def mon_at_def)

lemma sub_good_updates [simp]:
  "sub_good cfg (s\<lparr>currentLifetimeCount := a\<rparr>) = sub_good cfg s"
  "sub_good cfg (s\<lparr>currentKeepAliveCount := a\<rparr>) = sub_good cfg s"
  "sub_good cfg (s\<lparr>publishCallbackIsRegistered := c\<rparr>) = sub_good cfg s"
  "sub_good cfg (s\<lparr>publishingEnabled := c\<rparr>) = sub_good cfg s"
  "sub_good cfg (s\<lparr>readyNotifications := a\<rparr>) = sub_good cfg s"
  "sub_good cfg (s\<lparr>sequenceNumber := a\<rparr>) = sub_good cfg s"
  "sub_good cfg (s\<lparr>substate := t\<rparr>) = sub_good cfg s"
  "sub_good cfg (s\<lparr>subscriptionId := a\<rparr>) = sub_good cfg s"
  "sub_good cfg (settings cfg' rq s) = sub_good cfg s"
  by (rule sub_good_core; simp add: same_core_def settings_def Let_def)+

lemma sub_good_new [simp]: "sub_good cfg (UA_Subscription_new sid)"
  by (simp add: sub_good_def items_ok_def retransmission_ok_def sub_inv_def sub_wf_def queues_ok_def counters_ok_def num_kind_def
      UA_Subscription_new_def)

subsection \<open>Changing the settings of an item\<close>

lemma set_mon_sel [simp]:
  "monitoredItems (set_mon m x s) = monitoredItems s" "monitoredItemsSize (set_mon m x s) = monitoredItemsSize s"
  "mons (set_mon m x s) = (mons s)(m \<mapsto> x)" "notificationQueue (set_mon m x s) = notificationQueue s"
  "notificationQueueSize (set_mon m x s) = notificationQueueSize s" "notifs (set_mon m x s) = notifs s"
  "dataChangeNotifications (set_mon m x s) = dataChangeNotifications s" "eventNotifications (set_mon m x s) = eventNotifications s"
  "statusChangeNotifications (set_mon m x s) = statusChangeNotifications s" "owner (set_mon m x s) = owner s"
  "retransmissionQueue (set_mon m x s) = retransmissionQueue s" "retransmissionQueueSize (set_mon m x s) = retransmissionQueueSize s"
  by (simp_all add: set_mon_def owner_def notif_at_def fun_eq_iff)

lemma mon_at_set_mon: "mon_at (set_mon m x s) l = (if l = m then x else mon_at s l)"
  by (simp add: mon_at_def set_mon_def)

lemma sub_wf_set_mon:
  assumes "sub_wf s" "m \<in> set (monitoredItems s)" "queue x = queue (mon_at s m)" "queueSize x = queueSize (mon_at s m)"
    "monitoredItemType x = monitoredItemType (mon_at s m)"
  shows "sub_wf (set_mon m x s)"
proof -
  have "kind (set_mon m x s) = kind s"
    using assms(5) by (simp add: kind_def mon_at_set_mon fun_eq_iff)
  then have "num_kind (set_mon m x s) = num_kind s"
    by (simp add: num_kind_def fun_eq_iff)
  then show ?thesis
    using assms by (auto simp: sub_wf_def queues_ok_def counters_ok_def mon_at_set_mon)
qed

lemma sub_good_set_mon:
  assumes "sub_good cfg s" "m \<in> set (monitoredItems s)" "queue x = queue (mon_at s m)" "queueSize x = queueSize (mon_at s m)"
    "monitoredItemType x = monitoredItemType (mon_at s m)" "maxQueueSize x = maxQueueSize (mon_at s m)"
    "attributeId x = attributeId (mon_at s m)"
  shows "sub_good cfg (set_mon m x s)"
  using assms sub_wf_set_mon [of s m x]
  by (auto simp: sub_good_def sub_inv_def items_ok_def retransmission_ok_def mon_at_set_mon)

lemma ensure_other_sel [simp]:
  "retransmissionQueue (MonitoredItem_ensureQueueSpace m s) = retransmissionQueue s
   \<and> retransmissionQueueSize (MonitoredItem_ensureQueueSpace m s) = retransmissionQueueSize s
   \<and> monitoredItemsSize (MonitoredItem_ensureQueueSpace m s) = monitoredItemsSize s
   \<and> attributeId (mon_at (MonitoredItem_ensureQueueSpace m s) l) = attributeId (mon_at s l)"
proof -
  let ?P = "\<lambda>s s'. retransmissionQueue s' = retransmissionQueue s \<and> retransmissionQueueSize s' = retransmissionQueueSize s
    \<and> monitoredItemsSize s' = monitoredItemsSize s \<and> attributeId (mon_at s' l) = attributeId (mon_at s l)"
  have del: "?P s (UA_Notification_delete m n s)" for m n s
    by (simp add: mon_at_delete)
      (simp add: UA_Notification_delete_def Let_def set_mon_def count_type_def mon_at_def split: monitored_item_type.split)
  have mv: "?P s (move_behind d a s)" for d a s
    by (simp add: move_behind_def mon_at_def)
  have step: "?P s (UA_Notification_delete m d (move_behind d a s))" for m d a s
    using del [of m d "move_behind d a s"] mv [of d a s] by (simp del: mon_at_move_behind)
  have loop: "?P s (overflow_loop m s)" for m s
  proof (induction m s rule: overflow_loop.induct)
    case (1 m s)
    show ?case
    proof (cases "overflow_victim (mon_at s m)")
      case None
      then show ?thesis by (simp add: overflow_loop.simps [of m s])
    next
      case (Some v)
      obtain d a where v: "v = (d, a)" by fastforce
      show ?thesis
      proof (cases "queueSize (mon_at s m) > maxQueueSize (mon_at s m)")
        case True
        then show ?thesis
          using 1 [OF True Some v [symmetric]] step [of m d a s] by (simp add: overflow_loop.simps [of m s] Some v)
      qed (simp add: overflow_loop.simps [of m s])
    qed
  qed
  have "?P s (mark_overflow m s)" for s
    by (simp add: mark_overflow_def Let_def set_notif_def mon_at_def)
  from this [of "overflow_loop m s"] loop [of m s] show ?thesis
    by (simp add: MonitoredItem_ensureQueueSpace_def)
qed

lemma sub_good_ensure:
  assumes "sub_wf s" "items_ok s" "retransmission_ok cfg s" "m \<in> set (monitoredItems s)"
    "\<forall>l \<in> set (monitoredItems s). 1 \<le> maxQueueSize (mon_at s l)"
    "\<forall>l \<in> set (monitoredItems s) - {m}. length (queue (mon_at s l)) \<le> unat (maxQueueSize (mon_at s l))"
  shows "sub_good cfg (MonitoredItem_ensureQueueSpace m s)"
proof -
  let ?s = "MonitoredItem_ensureQueueSpace m s"
  have "1 \<le> unat (maxQueueSize (mon_at s m))"
    using assms(4,5) by (metis One_nat_def unat_1 word_le_nat_alt)
  note e = ensure_spec(2) [OF assms(1,4) this]
  have "monitoredItemType (mon_at ?s l) = monitoredItemType (mon_at s l)" for l
    using e by (cases "l = m") (simp_all add: keeps_others_def)
  then show ?thesis
    using assms(2,3) e sub_inv_ensure [OF assms(1,4-6)]
    by (simp add: sub_good_def items_ok_def retransmission_ok_def keeps_others_def)
qed

lemma sub_good_modify:
  assumes "sub_good cfg s" "m \<in> set (monitoredItems s)" "queue x = queue (mon_at s m)" "queueSize x = queueSize (mon_at s m)"
    "monitoredItemType x = item_type (attributeId x)" "attributeId x = attributeId (mon_at s m)" "1 \<le> maxQueueSize x"
  shows "sub_good cfg (MonitoredItem_ensureQueueSpace m (set_mon m x s))"
proof -
  have "monitoredItemType x = monitoredItemType (mon_at s m)"
    using assms by (simp add: sub_good_def items_ok_def)
  with assms show ?thesis
    by (intro sub_good_ensure)
      (auto simp: sub_good_def sub_inv_def items_ok_def retransmission_ok_def mon_at_set_mon intro: sub_wf_set_mon)
qed

lemma sub_good_enqueue:
  assumes "sub_good cfg s" "m \<in> set (monitoredItems s)" "notifs s n = None" "nmon x = m" "length (notificationQueue s) + 1 < 2 ^ 32"
  shows "sub_good cfg (UA_Notification_enqueue m n x s)"
proof -
  have "monitoredItemsSize (enqueue_both m n x s) = monitoredItemsSize s"
    "retransmissionQueue (enqueue_both m n x s) = retransmissionQueue s"
    "retransmissionQueueSize (enqueue_both m n x s) = retransmissionQueueSize s"
    by (simp_all add: enqueue_both_def Let_def set_mon_def set_notif_def count_type_def split: monitored_item_type.split)
  then show ?thesis
    unfolding UA_Notification_enqueue_def using assms
    by (intro sub_good_ensure)
      (auto simp: sub_good_def sub_inv_def items_ok_def retransmission_ok_def mon_at_enqueue intro: sub_wf_enqueue)
qed

subsection \<open>Removing notifications and items\<close>

lemma static_attribute:
  assumes "static_mon x = static_mon y"
  shows "attributeId x = attributeId y"
  using arg_cong [OF assms, of attributeId] by (simp add: static_mon_def)

lemma items_ok_same:
  assumes "items_ok s" "same_items s s'" "monitoredItemsSize s' = monitoredItemsSize s"
  shows "items_ok s'"
  using assms static_monD(2) static_attribute unfolding items_ok_def same_items_def by metis

lemma delete_retransmission [simp]:
  "retransmissionQueue (UA_Notification_delete m n s) = retransmissionQueue s"
  "retransmissionQueueSize (UA_Notification_delete m n s) = retransmissionQueueSize s"
  by (simp_all add: UA_Notification_delete_def Let_def set_mon_def count_type_def split: monitored_item_type.split)

lemma delete_all_retransmission [simp]:
  "retransmissionQueue (delete_all m ns s) = retransmissionQueue s"
  "retransmissionQueueSize (delete_all m ns s) = retransmissionQueueSize s"
  by (induction ns arbitrary: s) simp_all

lemma prepare_retransmission [simp]:
  "prepare_loop todo k s = (xs, s') \<Longrightarrow> retransmissionQueue s' = retransmissionQueue s \<and> retransmissionQueueSize s' = retransmissionQueueSize s"
  by (induction todo k s arbitrary: xs rule: prepare_loop.induct) (auto simp: Let_def split: if_splits prod.splits)

lemma sub_good_prepare:
  assumes "sub_good cfg s" "prepare_loop (notificationQueue s) k s = (xs, s')"
  shows "sub_good cfg s'"
proof -
  have "sub_wf s" "distinct (notificationQueue s)"
    using assms(1) by (simp_all add: sub_good_def sub_inv_def sub_wf_def queues_ok_def)
  note sp = prepare_loop_spec [OF this subset_refl assms(2)]
  show ?thesis
    using assms sub_inv_prepare [OF _ assms(2)] items_ok_same [of s s'] sp
    by (auto simp: sub_good_def retransmission_ok_def)
qed

lemma sub_good_delete_all:
  assumes "sub_good cfg s" "m \<in> set (monitoredItems s)"
  shows "sub_good cfg (delete_all m (queue (mon_at s m)) s)"
  using assms delete_all_spec [of s m] items_ok_same [of s "delete_all m (queue (mon_at s m)) s"]
  by (auto simp: sub_good_def retransmission_ok_def)

text \<open>The list of items is not read while the notifications of an item are deleted.\<close>

lemma delete_monitoredItems:
  "UA_Notification_delete m n (s\<lparr>monitoredItems := ms, monitoredItemsSize := k\<rparr>)
     = (UA_Notification_delete m n s)\<lparr>monitoredItems := ms, monitoredItemsSize := k\<rparr>"
  by (simp add: UA_Notification_delete_def Let_def set_mon_def count_type_def mon_at_def split: monitored_item_type.split)

lemma delete_all_monitoredItems:
  "delete_all m ns (s\<lparr>monitoredItems := ms, monitoredItemsSize := k\<rparr>) = (delete_all m ns s)\<lparr>monitoredItems := ms, monitoredItemsSize := k\<rparr>"
  by (induction ns arbitrary: s) (simp_all add: delete_monitoredItems)

lemma sub_good_drop_item:
  assumes "sub_good cfg s" "m \<in> set (monitoredItems s)" "queue (mon_at s m) = []"
  defines "s' \<equiv> s\<lparr>monitoredItems := remove1 m (monitoredItems s), monitoredItemsSize := monitoredItemsSize s - 1,
    mons := (mons s)(m := None)\<rparr>"
  shows "sub_good cfg s'"
proof -
  have inv: "queues_ok s" "counters_ok s"
    using assms(1) by (simp_all add: sub_good_def sub_inv_def sub_wf_def)
  have d: "distinct (monitoredItems s)"
    using inv(1) by (simp add: queues_ok_def)
  have sel: "monitoredItems s' = remove1 m (monitoredItems s)" "monitoredItemsSize s' = monitoredItemsSize s - 1"
    "mons s' = (mons s)(m := None)" "notificationQueue s' = notificationQueue s" "notificationQueueSize s' = notificationQueueSize s"
    "dataChangeNotifications s' = dataChangeNotifications s" "eventNotifications s' = eventNotifications s"
    "statusChangeNotifications s' = statusChangeNotifications s" "notifs s' = notifs s"
    "retransmissionQueue s' = retransmissionQueue s" "retransmissionQueueSize s' = retransmissionQueueSize s"
    by (simp_all add: s'_def)
  have own: "owner s' = owner s"
    by (simp add: owner_def notif_at_def sel fun_eq_iff)
  have mon: "mon_at s' l = mon_at s l" if "l \<noteq> m" for l
    using that by (simp add: mon_at_def sel)
  have no: "owner s n \<noteq> m" if "n \<in> set (notificationQueue s)" for n
  proof
    assume "owner s n = m"
    then have "n \<in> set (queue (mon_at s m))"
      using that inv(1) assms(2) by (simp add: queues_ok_def)
    then show False using assms(3) by simp
  qed
  then have "kind s' n = kind s n" if "n \<in> set (notificationQueue s)" for n
    using that mon by (simp add: kind_def own)
  then have "num_kind s' t = num_kind s t" for t
    unfolding num_kind_def sel by (intro arg_cong [where f = length] filter_cong) simp_all
  then have "counters_ok s'"
    using inv(2) by (simp add: counters_ok_def sel)
  moreover have "queues_ok s'"
    using inv(1) d no by (auto simp: queues_ok_def own sel mon)
  moreover have "monitoredItemsSize s - 1 = of_nat (length (remove1 m (monitoredItems s)))"
    using assms(1,2) length_pos_if_in_set [OF assms(2)]
    by (auto simp: sub_good_def items_ok_def length_remove1 intro!: of_nat_pred)
  ultimately show ?thesis
    using assms(1) d by (auto simp: sub_good_def sub_inv_def sub_wf_def items_ok_def retransmission_ok_def mon sel)
qed

lemma UA_MonitoredItem_delete_eq:
  assumes "sub_good cfg s" "m \<in> set (monitoredItems s)"
  shows "\<exists>s'. UA_MonitoredItem_delete m (s\<lparr>monitoredItems := ms, monitoredItemsSize := k\<rparr>)
      = s'\<lparr>monitoredItems := ms, monitoredItemsSize := k, mons := (mons s')(m := None)\<rparr>
    \<and> sub_good cfg s' \<and> monitoredItems s' = monitoredItems s \<and> monitoredItemsSize s' = monitoredItemsSize s
    \<and> queue (mon_at s' m) = [] \<and> (\<forall>l. l \<noteq> m \<longrightarrow> static_mon (mon_at s' l) = static_mon (mon_at s l))
    \<and> notificationQueue s' = filter (\<lambda>n. owner s n \<noteq> m) (notificationQueue s)"
proof -
  define s1 where "s1 = (if monitoredItemType (mon_at s m) = CHANGENOTIFY
    then set_mon m ((mon_at s m)\<lparr>sampleCallbackIsRegistered := False\<rparr>) s else s)"
  have g1: "sub_good cfg s1"
    unfolding s1_def using assms by (simp add: sub_good_set_mon)
  have m1: "m \<in> set (monitoredItems s1)" "monitoredItems s1 = monitoredItems s" "monitoredItemsSize s1 = monitoredItemsSize s"
    "owner s1 = owner s" "notificationQueue s1 = notificationQueue s"
    using assms(2) by (simp_all add: s1_def)
  have st: "\<forall>l. l \<noteq> m \<longrightarrow> mon_at s1 l = mon_at s l"
    by (simp add: s1_def mon_at_set_mon)
  define s' where "s' = delete_all m (queue (mon_at s1 m)) s1"
  note d = delete_all_spec [of s1 m, folded s'_def]
  let ?S = "s\<lparr>monitoredItems := ms, monitoredItemsSize := k\<rparr>"
  have c: "(if monitoredItemType (mon_at ?S m) = CHANGENOTIFY then set_mon m ((mon_at ?S m)\<lparr>sampleCallbackIsRegistered := False\<rparr>) ?S else ?S)
      = s1\<lparr>monitoredItems := ms, monitoredItemsSize := k\<rparr>"
    by (simp add: s1_def mon_at_def set_mon_def)
  have q: "mon_at (s1\<lparr>monitoredItems := ms, monitoredItemsSize := k\<rparr>) m = mon_at s1 m"
    by (simp add: mon_at_def)
  have "UA_MonitoredItem_delete m (s\<lparr>monitoredItems := ms, monitoredItemsSize := k\<rparr>)
      = s'\<lparr>monitoredItems := ms, monitoredItemsSize := k, mons := (mons s')(m := None)\<rparr>"
    unfolding UA_MonitoredItem_delete_def Let_def c q s'_def by (simp add: delete_all_monitoredItems)
  moreover have "sub_good cfg s'"
    unfolding s'_def using g1 m1 by (intro sub_good_delete_all)
  ultimately show ?thesis
    using d g1 m1 st by (intro exI [of _ s']) (simp add: sub_good_def same_items_def)
qed

lemma sub_good_deleteMonitoredItem:
  assumes "sub_good cfg s"
  shows "sub_good cfg (snd (UA_Subscription_deleteMonitoredItem mid s))"
proof (cases "find (\<lambda>m. monitoredItemId (mon_at s m) = mid) (monitoredItems s)")
  case None
  with assms show ?thesis by (simp add: UA_Subscription_deleteMonitoredItem_def)
next
  case (Some m)
  then have m: "m \<in> set (monitoredItems s)"
    by (auto simp: find_Some_iff)
  from UA_MonitoredItem_delete_eq [OF assms m, where ms = "remove1 m (monitoredItems s)" and k = "monitoredItemsSize s - 1"]
  obtain s' where s': "UA_MonitoredItem_delete m (s\<lparr>monitoredItems := remove1 m (monitoredItems s), monitoredItemsSize := monitoredItemsSize s - 1\<rparr>)
      = s'\<lparr>monitoredItems := remove1 m (monitoredItems s), monitoredItemsSize := monitoredItemsSize s - 1, mons := (mons s')(m := None)\<rparr>"
    "sub_good cfg s'" "monitoredItems s' = monitoredItems s" "monitoredItemsSize s' = monitoredItemsSize s" "queue (mon_at s' m) = []"
    by blast
  then show ?thesis
    using sub_good_drop_item [OF s'(2), of m] m Some by (simp add: UA_Subscription_deleteMonitoredItem_def)
qed

lemma sub_good_add_item:
  assumes "sub_good cfg s" "m \<notin> set (monitoredItems s)" "queue x = []" "queueSize x = 0" "1 \<le> maxQueueSize x"
    "monitoredItemType x = item_type (attributeId x)"
  shows "sub_good cfg (UA_Subscription_addMonitoredItem m x s)"
proof -
  let ?s = "UA_Subscription_addMonitoredItem m x s"
  have inv: "queues_ok s" "counters_ok s"
    using assms(1) by (simp_all add: sub_good_def sub_inv_def sub_wf_def)
  have sel: "monitoredItems ?s = m # monitoredItems s" "monitoredItemsSize ?s = monitoredItemsSize s + 1"
    "mons ?s = (mons s)(m \<mapsto> x)" "notificationQueue ?s = notificationQueue s" "notificationQueueSize ?s = notificationQueueSize s"
    "dataChangeNotifications ?s = dataChangeNotifications s" "eventNotifications ?s = eventNotifications s"
    "statusChangeNotifications ?s = statusChangeNotifications s" "notifs ?s = notifs s"
    "retransmissionQueue ?s = retransmissionQueue s" "retransmissionQueueSize ?s = retransmissionQueueSize s"
    by (simp_all add: UA_Subscription_addMonitoredItem_def)
  have own: "owner ?s = owner s"
    by (simp add: owner_def notif_at_def sel fun_eq_iff)
  have mon: "mon_at ?s l = (if l = m then x else mon_at s l)" for l
    by (simp add: mon_at_def sel)
  have no: "owner s n \<noteq> m" if "n \<in> set (notificationQueue s)" for n
    using that inv(1) assms(2) by (auto simp: queues_ok_def)
  then have "num_kind ?s t = num_kind s t" for t
    unfolding num_kind_def by (auto simp: kind_def own mon sel intro!: arg_cong [where f = length] filter_cong)
  then have "counters_ok ?s"
    using inv(2) by (simp add: counters_ok_def sel)
  moreover have "queues_ok ?s"
    using inv(1) assms(2-4) no by (auto simp: queues_ok_def sel own mon filter_empty_conv)
  ultimately show ?thesis
    using assms by (auto simp: sub_good_def sub_inv_def sub_wf_def items_ok_def retransmission_ok_def sel mon)
qed

end
