(* ===== verification/Subscription_Steps.thy ===== *)
theory Subscription_Steps
  imports Subscription_Session
begin

text \<open>
  Publishing, the services and the state machine of a session keep the invariant.
\<close>

subsection \<open>Publishing\<close>

lemma good_addRetransmission:
  assumes "sub_good cfg s"
  shows "sub_good cfg (UA_Subscription_addRetransmissionMessage cfg e s)"
proof -
  let ?s = "UA_Subscription_addRetransmissionMessage cfg e s"
  have core: "same_core s ?s"
    by (simp add: UA_Subscription_addRetransmissionMessage_def same_core_def Let_def)
  have r: "retransmissionQueueSize s = of_nat (length (retransmissionQueue s))"
    and bnd: "maxRetransmissionQueueSize cfg > 0 \<Longrightarrow> length (retransmissionQueue s) \<le> unat (maxRetransmissionQueueSize cfg)"
    using assms by (simp_all add: sub_good_def retransmission_ok_def)
  have "retransmission_ok cfg ?s"
  proof (cases "maxRetransmissionQueueSize cfg > 0")
    case False
    then show ?thesis
      using r by (simp add: retransmission_ok_def UA_Subscription_addRetransmissionMessage_def Let_def)
  next
    case True
    note le = bnd [OF True]
    have "unat (maxRetransmissionQueueSize cfg) < 2 ^ 32"
      by (rule order.strict_trans2 [OF unsigned_less]) simp
    with le have n: "unat (of_nat (length (retransmissionQueue s)) :: u32) = length (retransmissionQueue s)"
      by (simp add: unsigned_of_nat take_bit_nat_eq_self)
    then have ge: "retransmissionQueueSize s \<ge> maxRetransmissionQueueSize cfg
        \<longleftrightarrow> length (retransmissionQueue s) = unat (maxRetransmissionQueueSize cfg)"
      using le by (auto simp: r word_le_nat_alt)
    have pos: "0 < unat (maxRetransmissionQueueSize cfg)"
      using True by (simp add: word_less_nat_alt)
    show ?thesis
      using True le ge pos by (auto simp: retransmission_ok_def UA_Subscription_addRetransmissionMessage_def Let_def r)
  qed
  moreover have "sub_inv ?s" "items_ok ?s"
    using assms sub_inv_core [OF core] core by (simp_all add: sub_good_def items_ok_def mon_at_def same_core_def)
  ultimately show ?thesis
    by (simp add: sub_good_def)
qed

lemma live_late:
  assumes "live_inv cfg p w"
  shows "live_inv cfg p (late p pre w)"
proof -
  have "live_inv cfg p (set_sub p ((sub_at w p)\<lparr>substate := LATE\<rparr>) w)"
    using assms by (simp add: live_set_sub live_sub)
  then show ?thesis
    by (simp add: late_def Let_def live_queue split: option.split)
qed

lemma live_send_response: "live_inv cfg p w \<Longrightarrow> live_inv cfg p (send_response cfg p e n again xs w)"
  by (simp add: send_response_def Let_def live_set_sub live_sub good_addRetransmission)

lemma live_prepare:
  assumes "live_inv cfg p w" "prepareNotificationMessage p n w = (r, xs, w')"
  shows "live_inv cfg p w'"
proof (cases "alloc_all (if dataChangeNotifications (sub_at w p) > 0 then 3 else 1) w")
  case (Pair b w1)
  then have w1: "live_inv cfg p w1"
    using li.inv_alloc_all [OF assms(1)] by blast
  obtain ys s where l: "prepare_loop (notificationQueue (sub_at w1 p)) (unat n) (sub_at w1 p) = (ys, s)"
    by fastforce
  show ?thesis
    using assms(2) Pair w1 sub_good_prepare [OF live_sub [OF w1] l]
    by (cases b) (auto simp: prepareNotificationMessage_def l live_set_sub simp del: alloc_all.simps)
qed

lemma live_request:
  assumes "live_inv cfg p w" "publish_request p w = (pre, Some w1)"
  shows "live_inv cfg p w1"
proof (cases "UA_Session_dequeuePublishReq w")
  case (Pair r w0)
  then have "live_inv cfg p w0"
    by (rule live_dequeue [OF assms(1)])
  with assms(2) Pair show ?thesis
    by (cases r) (auto simp: publish_request_def Let_def live_set_sub live_sub split: if_splits)
qed

lemma expire_inv: "live_inv cfg p w \<Longrightarrow> session_inv cfg (expire p w)"
  by (auto simp: expire_def Let_def live_sub intro!: deleteSubscription_inv live_session [OF live_set_sub])

lemma live_respond:
  assumes "live_inv cfg p w"
  shows "live_inv cfg p (snd (respond cfg p pre n again w))"
proof -
  obtain b w1 where a: "alloc w = (b, w1)" by fastforce
  then have l1: "live_inv cfg p w1"
    by (rule li.inv_alloc [OF assms])
  obtain r xs w2 where pm: "prepareNotificationMessage p n w1 = (r, xs, w2)" by (metis prod_cases3)
  then have l2: "live_inv cfg p w2"
    by (rule live_prepare [OF l1])
  show ?thesis
    by (simp add: respond_def a pm assms l1 l2 live_late live_send_response live_queue split: option.split bool.split)
qed

lemma live_count:
  assumes "live_inv cfg p w" "count_notifications p w = (n, again, w')"
  shows "live_inv cfg p w'"
  using assms by (auto simp: count_notifications_def Let_def live_set_sub live_sub split: prod.splits)

lemma publish_once_inv:
  assumes "live_inv cfg p w" "publish_once cfg p w = (again, w')"
  shows "session_inv cfg w'" "again \<Longrightarrow> live_inv cfg p w'"
proof -
  obtain pre o1 where rq: "publish_request p w = (pre, o1)" by fastforce
  have "session_inv cfg w' \<and> (again \<longrightarrow> live_inv cfg p w')"
  proof (cases o1)
    case None
    with rq expire_inv [OF assms(1)] assms(2) show ?thesis by (simp add: publish_once_def)
  next
    case (Some w1)
    obtain n more_n w2 where c: "count_notifications p w1 = (n, more_n, w2)" by (metis prod_cases3)
    have "live_inv cfg p w2"
      using live_count [OF live_request [OF assms(1)] c] rq Some by simp
    from live_respond [OF this, of pre n more_n] show ?thesis
      using assms(2) by (simp add: publish_once_def rq Some c live_session)
  qed
  then show "session_inv cfg w'" "again \<Longrightarrow> live_inv cfg p w'"
    by blast+
qed

lemma publish_inv: "live_inv cfg p w \<Longrightarrow> session_inv cfg (UA_Subscription_publish cfg p w)"
proof (induction cfg p w rule: UA_Subscription_publish.induct)
  case (1 cfg p w)
  obtain again w1 where o: "publish_once cfg p w = (again, w1)" by fastforce
  show ?case
    using 1 publish_once_inv [OF 1(2) o] o by (cases again) (simp_all add: UA_Subscription_publish.simps [of cfg p w])
qed

lemma publishCallback_inv: "live_inv cfg p w \<Longrightarrow> session_inv cfg (publishCallback cfg p w)"
  by (simp add: publishCallback_def publish_inv live_set_sub live_sub)

subsection \<open>The services\<close>

lemma live_settings: "live_inv cfg p w \<Longrightarrow> live_inv cfg p (setSubscriptionSettings cfg' rq p w)"
  by (simp add: setSubscriptionSettings_def Let_def live_register live_unregister live_set_sub live_sub)

lemma create_inv:
  assumes "session_inv cfg w" "p \<notin> set (serverSubscriptions w)"
  shows "session_inv cfg (snd (Service_CreateSubscription cfg enabled rq p w))"
proof (cases "alloc w")
  case (Pair b w1)
  then have w1: "session_inv cfg w1" "serverSubscriptions w1 = serverSubscriptions w"
    using si.inv_alloc [OF assms(1)] alloc_only [OF Pair] by auto
  define w2 where "w2 = UA_Session_addSubscription p (set_sub p (UA_Subscription_new 0) w1)"
  have "live_inv cfg p w2"
    using w1 assms(2) by (auto simp: w2_def UA_Session_addSubscription_def live_inv_def session_inv_def sub_at_def set_sub_def)
  then have l3: "live_inv cfg p (setSubscriptionSettings cfg rq p (set_sub p ((sub_at w2 p)\<lparr>publishingEnabled := enabled\<rparr>) w2))"
    by (simp add: live_settings live_set_sub live_sub)
  then show ?thesis
    using Pair assms(1) w1 live_session [OF live_set_sub [OF l3]] live_sub [OF l3]
    by (simp add: Service_CreateSubscription_def Let_def flip: w2_def split: bool.split)
qed

lemma modify_inv:
  assumes "session_inv cfg w"
  shows "session_inv cfg (snd (Service_ModifySubscription cfg sid rq w))"
  using assms getSubscription_live [OF assms, of sid]
  by (auto simp: Service_ModifySubscription_def Let_def split: option.split
      intro!: live_session [OF live_set_sub] live_settings live_sub)

lemma publishingMode_inv: "session_inv cfg w \<Longrightarrow> session_inv cfg (snd (snd (Service_SetPublishingMode enabled sids w)))"
  unfolding Service_SetPublishingMode_def
proof (rule si.inv_service, goal_cases)
  case (1 sid w)
  then show ?case
    using getSubscription_live [OF 1(2), of sid]
    by (auto simp: Operation_SetPublishingMode_def live_sub split: option.split intro!: live_session [OF live_set_sub])
qed

lemma answer_loop_inv: "session_inv cfg w \<Longrightarrow> session_inv cfg (answer_loop w)"
proof (induction w rule: answer_loop.induct)
  case (1 w)
  obtain r w1 where d: "UA_Session_dequeuePublishReq w = (r, w1)" by fastforce
  have "session_inv cfg w1"
    using dequeue_inv [OF 1(2) d] by simp
  then show ?case
    using 1 d by (cases r) (simp_all add: answer_loop.simps [of w] send_def)
qed

lemma deleteSubscriptions_inv:
  assumes "session_inv cfg w"
  shows "session_inv cfg (snd (snd (Service_DeleteSubscriptions sids w)))"
proof -
  obtain r rs w1 where w1: "UA_Server_processServiceOperations UA_Session_deleteSubscription sids w = (r, rs, w1)"
    by (metis prod_cases3)
  have "session_inv cfg (snd (snd (UA_Server_processServiceOperations UA_Session_deleteSubscription sids w)))"
    using assms by (intro si.inv_service deleteSubscription_inv)
  then show ?thesis
    using answer_loop_inv [of cfg w1]
    by (simp add: Service_DeleteSubscriptions_def UA_Subscription_answerPublishRequestsNoSubscription_def w1)
qed

lemma republish_inv:
  assumes "session_inv cfg w"
  shows "session_inv cfg (snd (snd (Service_Republish sid seqnr w)))"
proof (cases "UA_Session_getSubscriptionById sid w")
  case (Some p)
  then have l: "live_inv cfg p (reset_lifetime p w)"
    by (intro live_reset getSubscription_live [OF assms])
  obtain b w2 where a: "alloc (reset_lifetime p w) = (b, w2)" by fastforce
  have "session_inv cfg w2"
    using li.inv_alloc [OF l a] live_session by blast
  then show ?thesis
    using Some a l by (auto simp: Service_Republish_def Let_def live_session split: option.splits bool.splits)
qed (simp add: assms Service_Republish_def)

lemma good_removeRetransmission:
  assumes "sub_good cfg s" "UA_Subscription_removeRetransmissionMessage k s = (r, s')"
  shows "sub_good cfg s'"
proof (cases "find (\<lambda>e. msgSequenceNumber e = k) (retransmissionQueue s)")
  case None
  then show ?thesis
    using assms by (simp add: UA_Subscription_removeRetransmissionMessage_def)
next
  case (Some e)
  then have e: "e \<in> set (retransmissionQueue s)"
    by (auto simp: find_Some_iff)
  have s': "s' = s\<lparr>retransmissionQueue := remove1 e (retransmissionQueue s), retransmissionQueueSize := retransmissionQueueSize s - 1\<rparr>"
    using assms(2) Some by (simp add: UA_Subscription_removeRetransmissionMessage_def)
  have core: "same_core s s'"
    by (simp add: s' same_core_def)
  have "retransmission_ok cfg s'"
    using assms(1) e length_pos_if_in_set [OF e]
    by (auto simp: s' sub_good_def retransmission_ok_def length_remove1 intro!: of_nat_pred)
  then show ?thesis
    using assms(1) sub_inv_core [OF core] core by (simp add: sub_good_def items_ok_def mon_at_def same_core_def)
qed

lemma acknowledge_inv:
  "session_inv cfg w \<Longrightarrow> acknowledge acks w = (rs, w') \<Longrightarrow> session_inv cfg w' \<and> serverSubscriptions w' = serverSubscriptions w"
proof (induction acks w arbitrary: rs w' rule: acknowledge.induct)
  case (2 sid k acks w)
  show ?case
  proof (cases "UA_Session_getSubscriptionById sid w")
    case None
    then show ?thesis
      using 2 by (auto split: prod.splits)
  next
    case (Some p)
    obtain r s where r: "UA_Subscription_removeRetransmissionMessage k (sub_at w p) = (r, s)" by fastforce
    have l: "live_inv cfg p w"
      by (rule getSubscription_live [OF 2(3) Some])
    then have "session_inv cfg (set_sub p s w)"
      using good_removeRetransmission [OF live_sub r] live_set_sub live_session by blast
    note IH = 2(2) [OF Some r [symmetric] refl this]
    obtain rs2 w2 where w2: "acknowledge acks (set_sub p s w) = (rs2, w2)" by fastforce
    then show ?thesis
      using IH [OF w2] 2(4) Some r by simp
  qed
qed simp

lemma serve_late_inv:
  assumes "session_inv cfg w"
  shows "session_inv cfg (serve_late cfg w)"
proof (cases "find (is_late w) (search_order w)")
  case (Some p)
  have sub: "set (behind k w ps) \<subseteq> set ps" for k ps
    by (induction ps) auto
  have "p \<in> set (search_order w)"
    using Some by (auto simp: find_Some_iff)
  then have "p \<in> set (serverSubscriptions w)"
    using sub by (auto simp: search_order_def Let_def split: if_splits)
  with assms have "live_inv cfg p w" by (simp add: live_inv_def)
  then show ?thesis
    using Some by (simp add: serve_late_def publish_inv)
qed (simp add: assms serve_late_def)

lemma accept_publish_inv:
  assumes "session_inv cfg w"
  shows "session_inv cfg (accept_publish cfg rq rid w)"
proof -
  obtain b w1 where a: "alloc w = (b, w1)" by fastforce
  have i1: "session_inv cfg w1"
    by (rule si.inv_alloc [OF assms a])
  obtain c w2 where c: "(if acknowledgements rq = [] then (True, w1) else alloc w1) = (c, w2)" by fastforce
  have i2: "session_inv cfg w2"
    using c i1 si.inv_alloc [OF i1] by (auto split: if_splits)
  obtain rs w3 where k: "acknowledge (acknowledgements rq) w2 = (rs, w3)" by fastforce
  have "session_inv cfg w3"
    using acknowledge_inv [OF i2 k] by simp
  then have "session_inv cfg (UA_Session_queuePublishReq e False w3)" for e
    by (simp add: session_inv_def UA_Session_queuePublishReq_def sub_at_def)
  then show ?thesis
    unfolding accept_publish_def a prod.case c k
    using i1 i2 by (auto simp: Let_def subscriptionSendError_def send_def serve_late_inv split: bool.split)
qed

lemma publish_service_inv:
  assumes "session_inv cfg w"
  shows "session_inv cfg (Service_Publish cfg rq rid w)"
proof -
  obtain r w1 where d: "UA_Session_dequeuePublishReq w = (r, w1)" by fastforce
  have "session_inv cfg w1"
    using dequeue_inv [OF assms d] by simp
  then show ?thesis
    using assms accept_publish_inv
    by (auto simp: Service_Publish_def UA_Subscription_reachedPublishReqLimit_def d subscriptionSendError_def send_def split: option.split)
qed

subsection \<open>The services on monitored items\<close>

lemma getMonitoredItem_in: "UA_Subscription_getMonitoredItem mid s = Some m \<Longrightarrow> m \<in> set (monitoredItems s)"
  by (auto simp: UA_Subscription_getMonitoredItem_def find_Some_iff)

lemma live_set_mon:
  assumes "live_inv cfg p w" "m \<in> set (monitoredItems (sub_at w p))" "queue x = queue (mon_at (sub_at w p) m)"
    "queueSize x = queueSize (mon_at (sub_at w p) m)" "monitoredItemType x = monitoredItemType (mon_at (sub_at w p) m)"
    "maxQueueSize x = maxQueueSize (mon_at (sub_at w p) m)" "attributeId x = attributeId (mon_at (sub_at w p) m)"
  shows "live_inv cfg p (set_sub p (set_mon m x (sub_at w p)) w)"
  using assms live_sub [OF assms(1)] by (intro live_set_sub sub_good_set_mon)

text \<open>Registering and unregistering the sample callback only changes the flag.\<close>

definition flag_only :: "ptr \<Rightarrow> ptr \<Rightarrow> session \<Rightarrow> session \<Rightarrow> bool" where
  "flag_only p m w w' \<longleftrightarrow> (\<exists>as f. w' = (set_sub p (set_mon m ((mon_at (sub_at w p) m)\<lparr>sampleCallbackIsRegistered := f\<rparr>) (sub_at w p)) w)\<lparr>allocs := as\<rparr>)
     \<or> (\<exists>as. w' = w\<lparr>allocs := as\<rparr>)"

lemma register_flag: "flag_only p m w (snd (UA_MonitoredItem_registerSampleCallback p m w))"
proof (cases "alloc w")
  case (Pair b w1)
  then obtain as where "w1 = w\<lparr>allocs := as\<rparr>" using alloc_only by blast
  then show ?thesis
    using Pair allocs_id [of w] by (cases b) (auto simp: UA_MonitoredItem_registerSampleCallback_def flag_only_def Let_def set_sub_allocs)
qed

lemma unregister_flag: "flag_only p m w (snd (UA_MonitoredItem_unregisterSampleCallback p m w))"
proof (cases "alloc w")
  case (Pair b w1)
  then obtain as where "w1 = w\<lparr>allocs := as\<rparr>" using alloc_only by blast
  then show ?thesis
    using Pair allocs_id [of w] by (auto simp: UA_MonitoredItem_unregisterSampleCallback_def flag_only_def Let_def set_sub_allocs)
qed

lemma live_flag:
  assumes "live_inv cfg p w" "m \<in> set (monitoredItems (sub_at w p))" "flag_only p m w w'"
  shows "live_inv cfg p w'" "m \<in> set (monitoredItems (sub_at w' p))"
  using assms by (auto simp: flag_only_def sub_at_set_sub intro!: li.inv_allocs live_set_mon)

lemma flag_mon:
  assumes "flag_only p m w w'"
  shows "\<exists>f. mon_at (sub_at w' p) m = (mon_at (sub_at w p) m)\<lparr>sampleCallbackIsRegistered := f\<rparr>"
proof -
  have "\<exists>f. x = x\<lparr>sampleCallbackIsRegistered := f\<rparr>" for x
    by (cases x) auto
  then show ?thesis
    using assms by (auto simp: flag_only_def sub_at_set_sub mon_at_set_mon)
qed

lemma bounded_queueSize:
  assumes "1 \<le> fst lim" "fst lim \<le> snd lim"
  shows "1 \<le> BOUNDEDVALUE_SETWBOUNDS (<) lim (k :: u32)"
  using assms by (auto simp: BOUNDEDVALUE_SETWBOUNDS_def not_less intro: order_trans)

text \<open>
  After the new settings of an item, which may have more notifications than its new queue size, the queue is cut.
\<close>

lemma good_cut:
  assumes "sub_good cfg s" "m \<in> set (monitoredItems s)" "1 \<le> fst (queueSizeLimits cfg)" "fst (queueSizeLimits cfg) \<le> snd (queueSizeLimits cfg)"
    "flag_only p m (set_sub p (set_mon m (item_settings cfg i mode par f (mon_at s m)) s) w) w'"
  shows "sub_good cfg (MonitoredItem_ensureQueueSpace m (sub_at w' p))"
proof -
  let ?x = "item_settings cfg i mode par f (mon_at s m)"
  obtain y where y: "sub_at w' p = set_mon m y s" "y = ?x \<or> (\<exists>b. y = ?x\<lparr>sampleCallbackIsRegistered := b\<rparr>)"
    using assms(5) by (auto simp: flag_only_def sub_at_set_sub mon_at_set_mon) (auto simp: set_mon_def)
  have "1 \<le> maxQueueSize ?x"
    using bounded_queueSize assms(3,4) by (simp add: item_settings_def Let_def)
  then show ?thesis
    unfolding y(1) using assms(1,2) y(2) by (intro sub_good_modify) (auto simp: item_settings_def Let_def)
qed

lemma modify_item_inv:
  assumes "live_inv cfg p w" "1 \<le> fst (queueSizeLimits cfg)" "fst (queueSizeLimits cfg) \<le> snd (queueSizeLimits cfg)"
  shows "live_inv cfg p (snd (Operation_ModifyMonitoredItem cfg minInterval p rq w))"
proof (cases "UA_Subscription_getMonitoredItem (fst rq) (sub_at w p)")
  case None
  with assms(1) show ?thesis by (simp add: Operation_ModifyMonitoredItem_def)
next
  case (Some m)
  note m = getMonitoredItem_in [OF Some]
  define w1 where "w1 = snd (UA_MonitoredItem_unregisterSampleCallback p m w)"
  have l1: "live_inv cfg p w1" "m \<in> set (monitoredItems (sub_at w1 p))"
    unfolding w1_def by (rule live_flag [OF assms(1) m unregister_flag])+
  let ?mode = "monitoringMode (mon_at (sub_at w p) m)"
  show ?thesis
  proof (cases "checked_filter None (parFilter (snd rq)) (mon_at (sub_at w p) m)")
    case (Inl r)
    then have "r \<noteq> GOOD"
      by (auto simp: checked_filter_def Let_def split: request_filter.splits if_splits option.splits)
    with Inl Some assms(1) show ?thesis
      by (simp add: Operation_ModifyMonitoredItem_def setMonitoredItemSettings_def)
  next
    case (Inr f)
    define w2 where "w2 = set_sub p (set_mon m (item_settings cfg (minInterval m) ?mode (snd rq) f (mon_at (sub_at w1 p) m)) (sub_at w1 p)) w1"
    define w3 where "w3 = (if ?mode = MONITORINGMODE_REPORTING then snd (UA_MonitoredItem_registerSampleCallback p m w2) else w2)"
    have f3: "flag_only p m w2 w3"
      using register_flag allocs_id [of w2] by (auto simp: w3_def flag_only_def)
    have good: "sub_good cfg (MonitoredItem_ensureQueueSpace m (sub_at w3 p))"
      using good_cut [OF live_sub [OF l1(1)] l1(2) assms(2,3) f3 [unfolded w2_def]] .
    obtain as s where w3: "w3 = (set_sub p s w1)\<lparr>allocs := as\<rparr>"
      using f3 by (auto simp: flag_only_def w2_def)
    have "live_inv cfg p (set_sub p t w3)" if "sub_good cfg t" for t
      using that li.inv_allocs [OF live_set_sub [OF l1(1) that], of as] by (simp add: w3 set_sub_allocs)
    then have "live_inv cfg p (set_sub p (MonitoredItem_ensureQueueSpace m (sub_at w3 p)) w3)"
      using good by blast
    moreover have "setMonitoredItemSettings cfg (minInterval m) ?mode (snd rq) None p m w = (GOOD, w3)"
      by (simp add: setMonitoredItemSettings_def Inr Let_def w3_def w2_def w1_def)
    ultimately show ?thesis
      using Some by (simp add: Operation_ModifyMonitoredItem_def Let_def)
  qed
qed

lemma monitoringMode_inv:
  assumes "live_inv cfg p w"
  shows "live_inv cfg p (snd (Operation_SetMonitoringMode p mode mid w))"
proof (cases "UA_Subscription_getMonitoredItem mid (sub_at w p)")
  case None
  with assms show ?thesis by (simp add: Operation_SetMonitoringMode_def)
next
  case (Some m)
  note m = getMonitoredItem_in [OF Some]
  define w1 where "w1 = set_sub p (set_mon m ((mon_at (sub_at w p) m)\<lparr>monitoringMode := mode\<rparr>) (sub_at w p)) w"
  have l1: "live_inv cfg p w1" "m \<in> set (monitoredItems (sub_at w1 p))"
    using m assms by (simp_all add: w1_def live_set_mon sub_at_set_sub)
  have r: "live_inv cfg p (snd (UA_MonitoredItem_registerSampleCallback p m w1))"
    by (rule live_flag(1) [OF l1 register_flag])
  define w2 where "w2 = snd (UA_MonitoredItem_unregisterSampleCallback p m w1)"
  have l2: "live_inv cfg p w2" "m \<in> set (monitoredItems (sub_at w2 p))"
    unfolding w2_def by (rule live_flag [OF l1 unregister_flag])+
  define s2 where "s2 = delete_all m (queue (mon_at (sub_at w2 p) m)) (sub_at w2 p)"
  have g2: "sub_good cfg s2"
    unfolding s2_def by (rule sub_good_delete_all [OF live_sub [OF l2(1)] l2(2)])
  have "m \<in> set (monitoredItems s2)"
    using delete_all_spec [of "sub_at w2 p" m] live_sub [OF l2(1)] l2(2) by (simp add: s2_def sub_good_def same_items_def)
  then have "live_inv cfg p (set_sub p (set_mon m ((mon_at s2 m)\<lparr>lastSampledValue := None, lastValue := VarEmpty\<rparr>) s2) w2)"
    using g2 by (intro live_set_sub [OF l2(1)] sub_good_set_mon) simp_all
  then show ?thesis
    using Some assms r by (simp add: Operation_SetMonitoringMode_def Let_def flip: w1_def w2_def s2_def)
qed

lemma delete_item_inv: "live_inv cfg p w \<Longrightarrow> live_inv cfg p (snd (Operation_DeleteMonitoredItem p mid w))"
  using sub_good_deleteMonitoredItem [OF live_sub, of cfg p w mid]
  by (auto simp: Operation_DeleteMonitoredItem_def Let_def split: prod.splits intro!: live_set_sub)

lemma item_service_inv:
  assumes "session_inv cfg w" "\<And>p x w. live_inv cfg p w \<Longrightarrow> live_inv cfg p (snd (f p x w))"
    "UA_Session_getSubscriptionById sid w = Some p"
  shows "session_inv cfg (snd (snd (UA_Server_processServiceOperations (f p) xs (reset_lifetime p w))))"
  using live_session [OF li.inv_service [of cfg p "f p", OF assms(2) live_reset [OF getSubscription_live [OF assms(1,3)]]]] .

lemma modify_items_inv:
  assumes "session_inv cfg w" "1 \<le> fst (queueSizeLimits cfg)" "fst (queueSizeLimits cfg) \<le> snd (queueSizeLimits cfg)"
  shows "session_inv cfg (snd (snd (Service_ModifyMonitoredItems cfg mi ts sid rqs w)))"
  using assms
  by (auto simp: Service_ModifyMonitoredItems_def split: option.split
      intro!: item_service_inv [where f = "Operation_ModifyMonitoredItem cfg mi"] modify_item_inv)

lemma set_mode_inv: "session_inv cfg w \<Longrightarrow> session_inv cfg (snd (snd (Service_SetMonitoringMode cfg sid mode mids w)))"
  by (auto simp: Service_SetMonitoringMode_def split: option.split
      intro!: item_service_inv [where f = "\<lambda>p. Operation_SetMonitoringMode p mode"] monitoringMode_inv)

lemma delete_items_inv: "session_inv cfg w \<Longrightarrow> session_inv cfg (snd (snd (Service_DeleteMonitoredItems cfg sid mids w)))"
  by (auto simp: Service_DeleteMonitoredItems_def split: option.split
      intro!: item_service_inv [where f = Operation_DeleteMonitoredItem] delete_item_inv)

subsection \<open>The state machine\<close>

definition session_init :: "bool \<Rightarrow> bool list \<Rightarrow> session" where
  "session_init open_channel as =
     \<lparr>serverSubscriptions = [], subs = Map.empty, numSubscriptions = 0, lastSubscriptionId = 0, lastSeenSubscriptionId = 0,
      responseQueue = [], numPublishReq = 0, channelOpen = open_channel, sent = [], allocs = as\<rparr>"

inductive session_step :: "server_config \<Rightarrow> session \<Rightarrow> session \<Rightarrow> bool" for cfg where
  create: "p \<notin> set (serverSubscriptions w) \<Longrightarrow> session_step cfg w (snd (Service_CreateSubscription cfg enabled rq p w))"
| modify: "session_step cfg w (snd (Service_ModifySubscription cfg sid rq w))"
| publishing_mode: "session_step cfg w (snd (snd (Service_SetPublishingMode enabled sids w)))"
| delete: "session_step cfg w (snd (snd (Service_DeleteSubscriptions sids w)))"
| publish: "session_step cfg w (Service_Publish cfg prq rid w)"
| republish: "session_step cfg w (snd (snd (Service_Republish sid seqnr w)))"
| callback: "p \<in> set (serverSubscriptions w) \<Longrightarrow> session_step cfg w (publishCallback cfg p w)"
| modify_items: "session_step cfg w (snd (snd (Service_ModifyMonitoredItems cfg mi ts sid rqs w)))"
| monitoring_mode: "session_step cfg w (snd (snd (Service_SetMonitoringMode cfg sid mode mids w)))"
| delete_items: "session_step cfg w (snd (snd (Service_DeleteMonitoredItems cfg sid mids w)))"
| new_item: "p \<in> set (serverSubscriptions w) \<Longrightarrow> m \<notin> set (monitoredItems (sub_at w p)) \<Longrightarrow> queue x = [] \<Longrightarrow> queueSize x = 0 \<Longrightarrow>
    1 \<le> maxQueueSize x \<Longrightarrow> monitoredItemType x = item_type (attributeId x) \<Longrightarrow>
    session_step cfg w (set_sub p (UA_Subscription_addMonitoredItem m x (sub_at w p)) w)"
| sample: "p \<in> set (serverSubscriptions w) \<Longrightarrow> m \<in> set (monitoredItems (sub_at w p)) \<Longrightarrow> notifs (sub_at w p) n = None \<Longrightarrow>
    nmon x = m \<Longrightarrow> length (notificationQueue (sub_at w p)) + 1 < 2 ^ 32 \<Longrightarrow>
    session_step cfg w (set_sub p (UA_Notification_enqueue m n x (sub_at w p)) w)"
| channel: "session_step cfg w (w\<lparr>channelOpen := b\<rparr>)"

inductive reachable :: "server_config \<Rightarrow> session \<Rightarrow> bool" for cfg where
  init: "reachable cfg (session_init b as)"
| step: "reachable cfg w \<Longrightarrow> session_step cfg w w' \<Longrightarrow> reachable cfg w'"

lemmas service_invs = create_inv modify_inv publishingMode_inv deleteSubscriptions_inv publish_service_inv republish_inv
  publishCallback_inv modify_items_inv set_mode_inv delete_items_inv

lemma session_step_inv:
  assumes "session_step cfg w w'" "session_inv cfg w" "1 \<le> fst (queueSizeLimits cfg)" "fst (queueSizeLimits cfg) \<le> snd (queueSizeLimits cfg)"
  shows "session_inv cfg w'"
  using assms
proof (cases rule: session_step.cases)
  case (new_item p m x)
  then have "live_inv cfg p w" using assms(2) by (simp add: live_inv_def)
  then show ?thesis
    using new_item live_session [OF live_set_sub] sub_good_add_item [OF live_sub] by blast
next
  case (sample p m n x)
  then have "live_inv cfg p w" using assms(2) by (simp add: live_inv_def)
  then show ?thesis
    using sample live_session [OF live_set_sub] sub_good_enqueue [OF live_sub] by blast
next
  case (channel b)
  then show ?thesis using assms(2) by (simp add: session_inv_def sub_at_def)
next
  case (callback p)
  then show ?thesis using assms(2) by (simp add: publishCallback_inv live_inv_def)
qed (use assms in \<open>simp_all add: service_invs\<close>)

end
