(* ===== verification/Subscription_Publish.thy ===== *)
theory Subscription_Publish
  imports Subscription_Steps
begin

text \<open>
  What publishing delivers. \<open>delivers\<close> relates the session before and after a step of publishing for a subscription: the
  notifications in the new responses and the notifications that stay in the queue are together the old queue, in the old order.
  It holds on every branch of \<open>UA_Subscription_publish\<close>. If memory, an open channel and enough
  publish requests are there, then all notifications that are ready are delivered.
\<close>

definition all_data :: "subscription \<Rightarrow> bool" where
  "all_data s \<longleftrightarrow> (\<forall>n \<in> set (notificationQueue s). is_data s n)"

definition sent_changes :: "publish_response list \<Rightarrow> (u32 \<times> datavalue) list" where
  "sent_changes rs = concat (map (\<lambda>r. changes (notificationMessage r)) rs)"

definition delivers :: "ptr \<Rightarrow> session \<Rightarrow> session \<Rightarrow> bool" where
  "delivers p w w' \<longleftrightarrow> (\<exists>new done. sent w' = sent w @ new \<and> notificationQueue (sub_at w p) = done @ notificationQueue (sub_at w' p)
     \<and> sent_changes new = map (content (sub_at w p)) done
     \<and> (\<forall>n \<in> set (notificationQueue (sub_at w' p)). content (sub_at w' p) n = content (sub_at w p) n
          \<and> is_data (sub_at w' p) n = is_data (sub_at w p) n))"

lemma sent_changes_append [simp]: "sent_changes (xs @ ys) = sent_changes xs @ sent_changes ys"
  by (simp add: sent_changes_def)

lemma delivers_trans:
  assumes "delivers p w1 w2" "delivers p w2 w3"
  shows "delivers p w1 w3"
proof -
  obtain n1 d1 where 1: "sent w2 = sent w1 @ n1" "notificationQueue (sub_at w1 p) = d1 @ notificationQueue (sub_at w2 p)"
    "sent_changes n1 = map (content (sub_at w1 p)) d1"
    "\<forall>n \<in> set (notificationQueue (sub_at w2 p)). content (sub_at w2 p) n = content (sub_at w1 p) n
       \<and> is_data (sub_at w2 p) n = is_data (sub_at w1 p) n"
    using assms(1) by (auto simp: delivers_def)
  obtain n2 d2 where 2: "sent w3 = sent w2 @ n2" "notificationQueue (sub_at w2 p) = d2 @ notificationQueue (sub_at w3 p)"
    "sent_changes n2 = map (content (sub_at w2 p)) d2"
    "\<forall>n \<in> set (notificationQueue (sub_at w3 p)). content (sub_at w3 p) n = content (sub_at w2 p) n
       \<and> is_data (sub_at w3 p) n = is_data (sub_at w2 p) n"
    using assms(2) by (auto simp: delivers_def)
  have "map (content (sub_at w2 p)) d2 = map (content (sub_at w1 p)) d2"
    using 1(4) 2(2) by (intro map_cong) auto
  then show ?thesis
    unfolding delivers_def using 1 2 by (intro exI [of _ "n1 @ n2"] exI [of _ "d1 @ d2"]) auto
qed

lemma all_data_delivers: "delivers p w w' \<Longrightarrow> all_data (sub_at w p) \<Longrightarrow> all_data (sub_at w' p)"
  by (auto simp: delivers_def all_data_def)

text \<open>A step that leaves the queues of the subscription and the sent responses alone.\<close>

definition silent :: "ptr \<Rightarrow> session \<Rightarrow> session \<Rightarrow> bool" where
  "silent p w w' \<longleftrightarrow> sent w' = sent w \<and> same_core (sub_at w p) (sub_at w' p)"

lemma same_core_sel:
  assumes "same_core s s'"
  shows "content s' = content s" "is_data s' = is_data s" "notificationQueue s' = notificationQueue s"
proof -
  have "mon_at s' = mon_at s" "owner s' = owner s" "notif_at s' = notif_at s"
    using assms by (simp_all add: same_core_def mon_at_def owner_def notif_at_def fun_eq_iff)
  then show "content s' = content s" "is_data s' = is_data s" "notificationQueue s' = notificationQueue s"
    using assms by (simp_all add: content_def is_data_def kind_def fun_eq_iff same_core_def)
qed

lemma silent_delivers: "silent p w w' \<Longrightarrow> delivers p w w'"
  by (auto simp: silent_def delivers_def same_core_sel sent_changes_def intro!: exI [of _ "[]"])

lemma same_core_refl [simp]: "same_core s s"
  by (simp add: same_core_def)

lemma silent_trans: "silent p w1 w2 \<Longrightarrow> silent p w2 w3 \<Longrightarrow> silent p w1 w3"
  by (simp add: silent_def same_core_def)

lemma silent_alloc: "alloc w = (b, w') \<Longrightarrow> silent p w w'"
  using alloc_only by (fastforce simp: silent_def)

lemma silent_alloc_all: "alloc_all k w = (b, w') \<Longrightarrow> silent p w w'"
  using alloc_all_only by (fastforce simp: silent_def)

lemma silent_queue: "silent p w (UA_Session_queuePublishReq e b w)"
  by (simp add: silent_def UA_Session_queuePublishReq_def sub_at_def)

lemma silent_late: "silent p w (late p pre w)"
  by (simp add: silent_def late_def Let_def UA_Session_queuePublishReq_def sub_at_def set_sub_def same_core_def split: option.split)

lemma silent_count: "count_notifications p w = (n, again, w') \<Longrightarrow> silent p w w'"
  by (auto simp: count_notifications_def Let_def silent_def sub_at_set_sub same_core_def split: prod.splits)

lemma silent_request: "publish_request p w = (pre, Some w') \<Longrightarrow> silent p w w'"
  by (auto simp: publish_request_def UA_Session_dequeuePublishReq_def silent_def sub_at_def set_sub_def Let_def same_core_def
      split: list.splits if_splits)

subsection \<open>Preparing and sending a message\<close>

lemma prepare_all_data:
  assumes "sub_wf s" "all_data s" "prepare_loop (notificationQueue s) k s = (xs, s')"
  shows "xs = map (content s) (take k (notificationQueue s))" "notificationQueue s' = drop k (notificationQueue s)"
    "\<forall>n \<in> set (notificationQueue s'). content s' n = content s n \<and> is_data s' n = is_data s n"
proof -
  have dq: "distinct (notificationQueue s)"
    using assms(1) by (simp add: sub_wf_def queues_ok_def)
  note sp = prepare_loop_spec [OF assms(1) dq subset_refl assms(3)]
  have d: "delivered k s (notificationQueue s) = take k (notificationQueue s)"
    using assms(2) by (simp add: delivered_def all_data_def filter_id_conv)
  have "filter (\<lambda>n. n \<notin> set (take k q)) q = drop k q" if "distinct q" for q :: "ptr list"
  proof -
    have "filter (\<lambda>n. n \<notin> set (take k q)) (take k q @ drop k q) = drop k q"
      using that set_take_disj_set_drop_if_distinct [OF that, of k k] by (auto simp del: append_take_drop_id simp: filter_empty_conv intro!: filter_True)
    then show ?thesis by simp
  qed
  then show nq: "notificationQueue s' = drop k (notificationQueue s)"
    using sp dq d by simp
  show "xs = map (content s) (take k (notificationQueue s))"
    using sp d by simp
  show "\<forall>n \<in> set (notificationQueue s'). content s' n = content s n \<and> is_data s' n = is_data s n"
  proof
    fix n
    assume n: "n \<in> set (notificationQueue s')"
    then have "n \<notin> set (take k (notificationQueue s))"
      using sp d by simp
    then have "notifs s' n = notifs s n"
      using sp d by simp
    moreover have st: "static_mon (mon_at s' m) = static_mon (mon_at s m)" for m
      using sp by (simp add: same_items_def)
    ultimately show "content s' n = content s n \<and> is_data s' n = is_data s n"
      by (simp add: static_monD(1,2) [OF st] content_def is_data_def kind_def owner_def notif_at_def)
  qed
qed

lemma respond_delivers:
  assumes live: "live_inv cfg p w" and ad: "all_data (sub_at w p)"
  shows "delivers p w (snd (respond cfg p pre n again w))"
proof -
  obtain b w1 where a: "alloc w = (b, w1)" by fastforce
  note l1 = li.inv_alloc [OF live a] and s1 = silent_alloc [OF a, of p]
  have late: "silent p w' (late p pre w')" for pre w'
    by (rule silent_late)
  have keepalive: "delivers p w (send_response cfg p e 0 again [] w)" for e
    by (auto simp: delivers_def send_response_def Let_def sent_changes_def sub_at_def set_sub_def content_def is_data_def kind_def
        owner_def notif_at_def mon_at_def intro!: exI [of _ "[_]"])
  have send: "delivers p w1 (send_response cfg p e n again xs w2)"
    if pm: "prepareNotificationMessage p n w1 = (GOOD, xs, w2)" for e xs w2
  proof -
    obtain w0 where w0: "alloc_all (if dataChangeNotifications (sub_at w1 p) > 0 then 3 else 1) w1 = (True, w0)"
      using pm by (auto simp: prepareNotificationMessage_def simp del: alloc_all.simps split: prod.splits bool.splits)
    have s0: "silent p w1 w0" and l0: "live_inv cfg p w0"
      using silent_alloc_all [OF w0] li.inv_alloc_all [OF l1 w0] by auto
    obtain s where lp: "prepare_loop (notificationQueue (sub_at w0 p)) (unat n) (sub_at w0 p) = (xs, s)" and w2: "w2 = set_sub p s w0"
      using pm w0 by (auto simp: prepareNotificationMessage_def simp del: alloc_all.simps split: prod.splits)
    have ad0: "all_data (sub_at w0 p)"
      using ad silent_delivers silent_trans [OF s1 s0] all_data_delivers by blast
    have "sub_wf (sub_at w0 p)"
      using live_sub [OF l0] by (simp add: sub_good_def sub_inv_def)
    note pl = prepare_all_data [OF this ad0 lp]
    let ?r = "last (sent (send_response cfg p e n again xs w2))"
    have same: "same_core s (sub_at (send_response cfg p e n again xs w2) p)"
      by (simp add: send_response_def Let_def sub_at_set_sub sub_at_def w2 set_sub_def same_core_def UA_Subscription_addRetransmissionMessage_def)
    have "delivers p w0 (send_response cfg p e n again xs w2)"
      unfolding delivers_def same_core_sel [OF same] using pl
      by (intro exI [of _ "[?r]"] exI [of _ "take (unat n) (notificationQueue (sub_at w0 p))"])
        (simp add: send_response_def Let_def w2 sent_changes_def set_sub_def)
    then show ?thesis
      using delivers_trans [OF silent_delivers [OF s0]] by blast
  qed
  obtain r xs w2 where pm: "prepareNotificationMessage p n w1 = (r, xs, w2)" by (metis prod_cases3)
  have fail: "silent p w1 w2" if "r \<noteq> GOOD"
    using pm that silent_alloc_all
    by (auto simp: prepareNotificationMessage_def Let_def simp del: alloc_all.simps split: prod.splits bool.splits)
  have "silent p w w" by (simp add: silent_def)
  note sil = this silent_queue late silent_trans [OF s1 late] silent_trans [OF s1 silent_trans [OF fail late]]
  have snd_ok: "delivers p w (send_response cfg p e n again xs w2)" if "r = GOOD" for e
    using delivers_trans [OF silent_delivers [OF s1] send] pm that by blast
  show ?thesis
    using sil [THEN silent_delivers] keepalive snd_ok
    by (simp add: respond_def a pm split: option.split bool.split)
qed

subsection \<open>The whole of UA_Subscription_publish\<close>

text \<open>Settings and counters that preparing a message does not touch.\<close>

definition same_settings :: "subscription \<Rightarrow> subscription \<Rightarrow> bool" where
  "same_settings s s' \<longleftrightarrow> subscriptionId s' = subscriptionId s \<and> lifeTimeCount s' = lifeTimeCount s
     \<and> currentLifetimeCount s' = currentLifetimeCount s \<and> notificationsPerPublish s' = notificationsPerPublish s
     \<and> publishingEnabled s' = publishingEnabled s \<and> sequenceNumber s' = sequenceNumber s
     \<and> readyNotifications s' = readyNotifications s"

lemma same_settings_refl [simp]: "same_settings s s"
  by (simp add: same_settings_def)

lemma same_settings_trans: "same_settings s s1 \<Longrightarrow> same_settings s1 s2 \<Longrightarrow> same_settings s s2"
  by (simp add: same_settings_def)

lemma same_settings_delete: "same_settings s (UA_Notification_delete m n s)"
  by (simp add: same_settings_def UA_Notification_delete_def Let_def set_mon_def count_type_def split: monitored_item_type.split)

lemma same_settings_prepare: "prepare_loop todo k s = (xs, s') \<Longrightarrow> same_settings s s'"
proof (induction todo k s arbitrary: xs rule: prepare_loop.induct)
  case (2 n todo k s)
  show ?case
  proof (cases "k = 0 \<or> monitoredItemType (mon_at s (nmon (notif_at s n))) \<noteq> CHANGENOTIFY")
    case True
    then show ?thesis
      using 2 by (auto simp: Let_def split: if_splits)
  next
    case False
    then show ?thesis
      using 2 same_settings_trans [OF same_settings_delete] by (auto simp: Let_def split: prod.splits)
  qed
qed simp

definition alive :: "ptr \<Rightarrow> session \<Rightarrow> bool" where
  "alive p w \<longleftrightarrow> currentLifetimeCount (sub_at w p) < lifeTimeCount (sub_at w p)"

lemma request_alive:
  assumes "alive p w"
  shows "\<exists>pre w1. publish_request p w = (pre, Some w1) \<and> (pre \<noteq> None \<longrightarrow> alive p w1)"
proof (cases "responseQueue w")
  case Nil
  have "currentLifetimeCount (sub_at w p) + 1 \<le> lifeTimeCount (sub_at w p)"
    using assms by (simp add: alive_def inc_le)
  with Nil show ?thesis
    by (simp add: publish_request_def UA_Session_dequeuePublishReq_def Let_def not_less [symmetric])
next
  case (Cons e es)
  have "lifeTimeCount (sub_at w p) > 0"
    using assms unfolding alive_def by (rule le_less_trans [OF word_zero_le])
  with Cons show ?thesis
    by (simp add: publish_request_def UA_Session_dequeuePublishReq_def alive_def sub_at_set_sub) (simp add: sub_at_def)
qed

lemma respond_settings:
  assumes "respond cfg p pre n again w = (b, w')"
  shows "lifeTimeCount (sub_at w' p) = lifeTimeCount (sub_at w p)" "currentLifetimeCount (sub_at w' p) = currentLifetimeCount (sub_at w p)"
proof -
  have al: "sub_at w' q = sub_at w q" if "alloc w = (b, w') \<or> alloc_all k w = (b, w')" for k w w' q b
    using that alloc_only alloc_all_only sub_at_allocs by metis
  have "same_settings (sub_at w p) (sub_at w' p)" if "prepareNotificationMessage p n w = (r, xs, w')" for w w' r xs
  proof -
    obtain b w0 where w0: "alloc_all (if dataChangeNotifications (sub_at w p) > 0 then 3 else 1) w = (b, w0)" by fastforce
    then have "sub_at w0 p = sub_at w p"
      using al by blast
    with that w0 show ?thesis
      by (auto simp: prepareNotificationMessage_def Let_def sub_at_set_sub simp del: alloc_all.simps split: prod.splits bool.splits
          dest!: same_settings_prepare)
  qed
  then have pm: "prepareNotificationMessage p n w = (r, xs, w') \<Longrightarrow> lifeTimeCount (sub_at w' p) = lifeTimeCount (sub_at w p)
      \<and> currentLifetimeCount (sub_at w' p) = currentLifetimeCount (sub_at w p)" for w w' r xs
    by (simp add: same_settings_def)
  have lt: "lifeTimeCount (sub_at (late p pre w) p) = lifeTimeCount (sub_at w p)
      \<and> currentLifetimeCount (sub_at (late p pre w) p) = currentLifetimeCount (sub_at w p)" for pre w
    by (simp add: late_def Let_def UA_Session_queuePublishReq_def sub_at_def set_sub_def split: option.split)
  have sd: "lifeTimeCount (sub_at (send_response cfg p e k ag xs w) p) = lifeTimeCount (sub_at w p)
      \<and> currentLifetimeCount (sub_at (send_response cfg p e k ag xs w) p) = currentLifetimeCount (sub_at w p)" for e k ag xs w
    by (simp add: send_response_def Let_def sub_at_def set_sub_def UA_Subscription_addRetransmissionMessage_def)
  have qd: "sub_at (UA_Session_queuePublishReq e True w) p = sub_at w p" for e
    by (simp add: UA_Session_queuePublishReq_def sub_at_def)
  obtain c w1 where a: "alloc w = (c, w1)" by fastforce
  obtain r xs w2 where p2: "prepareNotificationMessage p n w1 = (r, xs, w2)" by (metis prod_cases3)
  show "lifeTimeCount (sub_at w' p) = lifeTimeCount (sub_at w p)" "currentLifetimeCount (sub_at w' p) = currentLifetimeCount (sub_at w p)"
    using assms al [of w c w1] pm [OF p2]
    by (auto simp: respond_def a p2 lt sd qd split: option.splits bool.splits if_splits)
qed

lemma count_settings:
  "count_notifications p w = (n, again, w') \<Longrightarrow> lifeTimeCount (sub_at w' p) = lifeTimeCount (sub_at w p)
     \<and> currentLifetimeCount (sub_at w' p) = currentLifetimeCount (sub_at w p)"
  by (auto simp: count_notifications_def Let_def sub_at_set_sub split: prod.splits)

lemma publish_once_delivers:
  assumes "live_inv cfg p w" "all_data (sub_at w p)" "alive p w" "publish_once cfg p w = (again, w')"
  shows "delivers p w w'" "live_inv cfg p w'" "again \<Longrightarrow> alive p w'"
proof -
  obtain pre w1 where r: "publish_request p w = (pre, Some w1)" "pre \<noteq> None \<longrightarrow> alive p w1"
    using request_alive [OF assms(3)] by blast
  obtain n more_n w2 where c: "count_notifications p w1 = (n, more_n, w2)" by (metis prod_cases3)
  have w': "respond cfg p pre n more_n w2 = (again, w')"
    using assms(4) by (simp add: publish_once_def r c)
  have l2: "live_inv cfg p w2"
    by (rule live_count [OF live_request [OF assms(1) r(1)] c])
  have s2: "delivers p w w2"
    using silent_trans [OF silent_request [OF r(1)] silent_count [OF c]] silent_delivers by blast
  show "delivers p w w'"
    using delivers_trans [OF s2 respond_delivers [OF l2 all_data_delivers [OF s2 assms(2)], of pre n more_n]] w' by simp
  show "live_inv cfg p w'"
    using live_respond [OF l2, of pre n more_n] w' by simp
  show "alive p w'" if again
    using that r(2) w' respond_settings [OF w'] count_settings [OF c] respond_none [of cfg p n more_n w2]
    by (cases pre) (auto simp: alive_def)
qed

lemma publish_delivers:
  "live_inv cfg p w \<Longrightarrow> all_data (sub_at w p) \<Longrightarrow> alive p w \<Longrightarrow>
   delivers p w (UA_Subscription_publish cfg p w) \<and> live_inv cfg p (UA_Subscription_publish cfg p w)"
proof (induction cfg p w rule: UA_Subscription_publish.induct)
  case (1 cfg p w)
  obtain again w1 where o: "publish_once cfg p w = (again, w1)" by fastforce
  note d = publish_once_delivers [OF 1(2-4) o]
  show ?case
  proof (cases again)
    case True
    then show ?thesis
      using 1(1) [OF o [symmetric] refl True d(2) all_data_delivers [OF d(1) 1(3)] d(3)] o delivers_trans [OF d(1)]
      by (simp add: UA_Subscription_publish.simps [of cfg p w])
  next
    case False
    then show ?thesis
      using d o by (simp add: UA_Subscription_publish.simps [of cfg p w])
  qed
qed

end
