(* ===== verification/Subscription_Liveness.thy ===== *)
theory Subscription_Liveness
  imports Subscription_Publish
begin

text \<open>
  One run of publishing with a publish request, an open channel, memory and notifications that are ready, and by
  induction the delivery of all ready notifications.
\<close>

lemma alloc_ok: "allocs w = [] \<Longrightarrow> alloc w = (True, w)"
  by (simp add: alloc_def)

lemma alloc_all_ok: "allocs w = [] \<Longrightarrow> alloc_all k w = (True, w)"
  by (induction k) (simp_all add: alloc_ok)

definition can_publish :: "server_config \<Rightarrow> ptr \<Rightarrow> session \<Rightarrow> bool" where
  "can_publish cfg p w \<longleftrightarrow> live_inv cfg p w \<and> all_data (sub_at w p) \<and> channelOpen w \<and> allocs w = []
     \<and> publishingEnabled (sub_at w p) \<and> notificationsPerPublish (sub_at w p) \<noteq> 0"

definition published :: "ptr \<Rightarrow> nat \<Rightarrow> publish_response list \<Rightarrow> session \<Rightarrow> session \<Rightarrow> bool" where
  "published p k new w w' \<longleftrightarrow> sent w' = sent w @ new
     \<and> map respRequestId new = map requestId (take (length new) (responseQueue w))
     \<and> responseQueue w' = drop (length new) (responseQueue w)
     \<and> sent_changes new = map (content (sub_at w p)) (take k (notificationQueue (sub_at w p)))
     \<and> notificationQueue (sub_at w' p) = drop k (notificationQueue (sub_at w p))
     \<and> (\<forall>n \<in> set (notificationQueue (sub_at w' p)). content (sub_at w' p) n = content (sub_at w p) n)
     \<and> (\<forall>i < length new. msgSequenceNumber (notificationMessage (new ! i))
          = (UA_Subscription_nextSequenceNumber ^^ Suc i) (sequenceNumber (sub_at w p)))
     \<and> sequenceNumber (sub_at w' p) = (UA_Subscription_nextSequenceNumber ^^ length new) (sequenceNumber (sub_at w p))"

lemma published_step:
  assumes "published p k [r] w w1" "published p l rs w1 w2" "responseQueue w \<noteq> []"
  shows "published p (k + l) (r # rs) w w2"
proof -
  note p1 = assms(1) [unfolded published_def] and p2 = assms(2) [unfolded published_def]
  have q: "notificationQueue (sub_at w1 p) = drop k (notificationQueue (sub_at w p))"
    and c: "\<forall>n \<in> set (notificationQueue (sub_at w1 p)). content (sub_at w1 p) n = content (sub_at w p) n"
    and sq: "sequenceNumber (sub_at w1 p) = UA_Subscription_nextSequenceNumber (sequenceNumber (sub_at w p))"
    using p1 by simp_all
  obtain e es where rq: "responseQueue w = e # es" "responseQueue w1 = es" "respRequestId r = requestId e"
    using p1 assms(3) by (auto simp: neq_Nil_conv)
  have "sent_changes (r # rs) = sent_changes [r] @ sent_changes rs"
    by (simp add: sent_changes_def)
  also have "\<dots> = map (content (sub_at w p)) (take k (notificationQueue (sub_at w p)))
      @ map (content (sub_at w p)) (take l (drop k (notificationQueue (sub_at w p))))"
  proof -
    have "map (content (sub_at w1 p)) (take l (notificationQueue (sub_at w1 p))) = map (content (sub_at w p)) (take l (notificationQueue (sub_at w1 p)))"
      using c in_set_takeD by (intro map_cong) fastforce+
    moreover have "sent_changes [r] = map (content (sub_at w p)) (take k (notificationQueue (sub_at w p)))"
      "sent_changes rs = map (content (sub_at w1 p)) (take l (notificationQueue (sub_at w1 p)))"
      using p1 p2 by blast+
    ultimately show ?thesis
      by (simp add: q)
  qed
  finally have "sent_changes (r # rs) = map (content (sub_at w p)) (take (k + l) (notificationQueue (sub_at w p)))"
    by (simp add: take_add)
  moreover have "\<forall>n \<in> set (notificationQueue (sub_at w2 p)). content (sub_at w2 p) n = content (sub_at w p) n"
  proof
    fix n
    assume n: "n \<in> set (notificationQueue (sub_at w2 p))"
    then have "n \<in> set (notificationQueue (sub_at w1 p))"
      using p2 by (auto dest: in_set_dropD)
    then have "content (sub_at w1 p) n = content (sub_at w p) n"
      using c by blast
    moreover have "content (sub_at w2 p) n = content (sub_at w1 p) n"
      using p2 n by blast
    ultimately show "content (sub_at w2 p) n = content (sub_at w p) n" by simp
  qed
  moreover have "msgSequenceNumber (notificationMessage ((r # rs) ! i)) = (UA_Subscription_nextSequenceNumber ^^ Suc i) (sequenceNumber (sub_at w p))"
    if "i < length (r # rs)" for i
  proof (cases i)
    case 0
    then show ?thesis using p1 by simp
  next
    case (Suc j)
    with that have "msgSequenceNumber (notificationMessage (rs ! j)) = (UA_Subscription_nextSequenceNumber ^^ Suc j) (sequenceNumber (sub_at w1 p))"
      using p2 by simp
    with Suc show ?thesis by (simp add: sq funpow_swap1)
  qed
  ultimately show ?thesis
    using p1 p2 rq by (simp add: published_def q sq funpow_swap1 add.commute [of l k])
qed

lemma queue_size_length:
  assumes "sub_good cfg s"
  shows "unat (notificationQueueSize s) = length (notificationQueue s)"
proof -
  have "notificationQueueSize s = of_nat (length (notificationQueue s))" "length (notificationQueue s) < 2 ^ 32"
    using assms by (simp_all add: sub_good_def sub_inv_def sub_wf_def queues_ok_def counters_ok_def)
  then show ?thesis
    by (simp add: unsigned_of_nat take_bit_nat_eq_self)
qed

lemma publish_once_ready:
  assumes can: "can_publish cfg p w" and rq: "responseQueue w = e # es" and r0: "ready_notifications (sub_at w p) \<noteq> 0"
  defines "R \<equiv> ready_notifications (sub_at w p)" and "P \<equiv> notificationsPerPublish (sub_at w p)"
  shows "\<exists>resp w'. publish_once cfg p w = (P < R, w') \<and> published p (unat (min R P)) [resp] w w' \<and> can_publish cfg p w'
    \<and> notificationsPerPublish (sub_at w' p) = P \<and> ready_notifications (sub_at w' p) = R - min R P"
proof -
  let ?s = "sub_at w p"
  define s1 where "s1 = ?s\<lparr>currentLifetimeCount := 0, readyNotifications := R\<rparr>"
  define w1 where "w1 = set_sub p s1 (w\<lparr>responseQueue := es, numPublishReq := numPublishReq w - 1\<rparr>)"
  define k where "k = min R P"
  have live: "live_inv cfg p w" and ad: "all_data ?s" and op: "channelOpen w" "allocs w = []"
    and en: "publishingEnabled ?s" "P \<noteq> 0"
    using can by (simp_all add: can_publish_def P_def)
  have k0: "k \<noteq> 0"
    using r0 en(2) by (simp add: k_def min_def R_def)
  have pc: "publish_count s1 = (k, P < R)"
    using en by (cases "P < R") (auto simp: publish_count_def s1_def k_def min_def P_def [symmetric] not_less)
  have rn: "ready_notifications (?s\<lparr>currentLifetimeCount := 0\<rparr>) = R"
    by (simp add: ready_notifications_def R_def)
  obtain w0 where w0: "publish_request p w = (Some e, Some w0)" "w0 = set_sub p (?s\<lparr>currentLifetimeCount := 0\<rparr>) (w\<lparr>responseQueue := es, numPublishReq := numPublishReq w - 1\<rparr>)"
    using rq by (simp add: publish_request_def UA_Session_dequeuePublishReq_def sub_at_def)
  have c: "count_notifications p w0 = (k, P < R, w1)"
    using pc k0 by (simp add: count_notifications_def w0(2) sub_at_set_sub rn w1_def s1_def)
  have l1: "live_inv cfg p w1"
    by (rule live_count [OF live_request [OF live w0(1)] c])
  have al1: "allocs w1 = []" and ch1: "channelOpen w1"
    using op by (simp_all add: w1_def)
  have sub1: "sub_at w1 p = s1"
    by (simp add: w1_def sub_at_set_sub)
  obtain xs s2 where lp: "prepare_loop (notificationQueue s1) (unat k) s1 = (xs, s2)" by fastforce
  have core: "same_core ?s s1"
    by (simp add: s1_def same_core_def)
  have wf1: "sub_wf s1"
    using live_sub [OF l1] by (simp add: sub1 sub_good_def sub_inv_def)
  have ad1: "all_data s1"
    using ad same_core_sel [OF core] by (simp add: all_data_def)
  note pl = prepare_all_data [OF wf1 ad1 lp, unfolded same_core_sel [OF core]]
  note st = same_settings_prepare [OF lp]
  define w2 where "w2 = set_sub p s2 w1"
  have pm: "prepareNotificationMessage p k w1 = (GOOD, xs, w2)"
    by (simp add: prepareNotificationMessage_def alloc_all_ok [OF al1] sub1 lp w2_def del: alloc_all.simps)
  define w' where "w' = send_response cfg p e k (P < R) xs w2"
  have res: "respond cfg p (Some e) k (P < R) w1 = (P < R, w')"
    using k0 ch1 by (simp add: respond_def alloc_ok [OF al1] pm w'_def)
  then have o: "publish_once cfg p w = (P < R, w')"
    by (simp add: publish_once_def w0(1) c)
  have l': "live_inv cfg p w'"
    using live_respond [OF l1, of "Some e" k "P < R"] res by simp
  have s': "same_core s2 (sub_at w' p)" "sequenceNumber (sub_at w' p) = UA_Subscription_nextSequenceNumber (sequenceNumber ?s)"
    "readyNotifications (sub_at w' p) = R - k" "publishingEnabled (sub_at w' p)" "notificationsPerPublish (sub_at w' p) = P"
    "channelOpen w'" "allocs w' = []"
    using st k0 op en
    by (simp_all add: w'_def w2_def w1_def send_response_def Let_def sub_at_def set_sub_def same_core_def same_settings_def s1_def
        P_def UA_Subscription_addRetransmissionMessage_def word_neq_0_conv [symmetric] word_gt_0)
  have "published p (unat k) [last (sent w')] w w'"
    using pl s'(2) rq st k0 unfolding published_def same_core_sel [OF s'(1)]
    by (simp add: w'_def w2_def w1_def send_response_def Let_def sent_changes_def set_sub_def sub_at_def s1_def same_settings_def)
  moreover have "can_publish cfg p w'"
    using l' s' en(2) ad1 pl by (auto simp: can_publish_def all_data_def same_core_sel [OF s'(1)] same_core_sel [OF core] dest: in_set_dropD)
  moreover have "ready_notifications (sub_at w' p) = R - k"
  proof -
    have "R \<le> notificationQueueSize ?s"
      by (auto simp: R_def ready_notifications_def)
    moreover have "k \<le> R"
      by (simp add: k_def)
    ultimately have "unat (R - k) + unat k \<le> length (notificationQueue ?s)"
      using queue_size_length [OF live_sub [OF live]] unat_sub [of k R] by (simp add: word_le_nat_alt)
    moreover have "length (notificationQueue (sub_at w' p)) = length (notificationQueue ?s) - unat k"
      using pl by (simp add: same_core_sel [OF s'(1)])
    ultimately have "R - k \<le> notificationQueueSize (sub_at w' p)"
      using queue_size_length [OF live_sub [OF l']] by (simp add: word_le_nat_alt)
    then show ?thesis
      using s'(3) by (auto simp: ready_notifications_def)
  qed
  ultimately show ?thesis
    using o s'(5) by (auto simp: k_def)
qed

text \<open>The number of responses that are needed for \<open>r\<close> notifications.\<close>

definition responses_needed :: "nat \<Rightarrow> nat \<Rightarrow> nat" where
  "responses_needed r per = (r + per - 1) div per"

lemma responses_needed_step: "0 < per \<Longrightarrow> per < r \<Longrightarrow> responses_needed r per = Suc (responses_needed (r - per) per)"
proof -
  assume "0 < per" "per < r"
  then have "r + per - 1 = per + (r - per + per - 1)" by simp
  with \<open>0 < per\<close> show ?thesis
    unfolding responses_needed_def by (metis div_add_self1 add.commute plus_1_eq_Suc less_numeral_extra(3))
qed

lemma responses_needed_1: "0 < r \<Longrightarrow> r \<le> per \<Longrightarrow> responses_needed r per = 1"
  by (simp add: responses_needed_def div_nat_eqI)

lemma publish_all:
  assumes "can_publish cfg p w" "ready_notifications (sub_at w p) \<noteq> 0"
    "responses_needed (unat (ready_notifications (sub_at w p))) (unat (notificationsPerPublish (sub_at w p))) \<le> length (responseQueue w)"
  shows "\<exists>new. published p (unat (ready_notifications (sub_at w p))) new w (UA_Subscription_publish cfg p w)
    \<and> length new = responses_needed (unat (ready_notifications (sub_at w p))) (unat (notificationsPerPublish (sub_at w p)))
    \<and> can_publish cfg p (UA_Subscription_publish cfg p w)"
  using assms
proof (induction "length (responseQueue w)" arbitrary: w rule: less_induct)
  case less
  let ?R = "ready_notifications (sub_at w p)" and ?P = "notificationsPerPublish (sub_at w p)"
  have R: "0 < unat ?R" and P: "0 < unat ?P"
    using less.prems(1,2) by (simp_all add: can_publish_def unat_gt_0)
  then have "responses_needed (unat ?R) (unat ?P) \<noteq> 0"
    by (simp add: responses_needed_def div_eq_0_iff)
  then obtain e es where q: "responseQueue w = e # es"
    using less.prems(3) by (cases "responseQueue w") auto
  obtain resp w1 where s: "publish_once cfg p w = (?P < ?R, w1)" "published p (unat (min ?R ?P)) [resp] w w1" "can_publish cfg p w1"
    "notificationsPerPublish (sub_at w1 p) = ?P" "ready_notifications (sub_at w1 p) = ?R - min ?R ?P"
    using publish_once_ready [OF less.prems(1) q less.prems(2)] by blast
  have q1: "responseQueue w1 = es"
    using s(2) q by (simp add: published_def)
  show ?case
  proof (cases "?P < ?R")
    case False
    then have le: "unat ?R \<le> unat ?P" "min ?R ?P = ?R"
      by (simp_all add: not_less word_le_nat_alt min_def)
    then show ?thesis
      using s False responses_needed_1 [OF R le(1)]
      by (intro exI [of _ "[resp]"]) (simp add: UA_Subscription_publish.simps [of cfg p w])
  next
    case True
    have lt: "unat ?P < unat ?R"
      using True by (simp add: word_less_nat_alt)
    have r1: "ready_notifications (sub_at w1 p) = ?R - ?P" "unat (?R - ?P) = unat ?R - unat ?P" "?R - ?P \<noteq> 0"
      using s(5) True lt by (simp_all add: min_absorb2 unat_sub word_le_nat_alt)
    have need: "responses_needed (unat (ready_notifications (sub_at w1 p))) (unat (notificationsPerPublish (sub_at w1 p))) \<le> length es"
      using less.prems(3) responses_needed_step [OF P lt] q r1 s(4) by simp
    obtain new where new: "published p (unat (?R - ?P)) new w1 (UA_Subscription_publish cfg p w1)"
      "length new = responses_needed (unat ?R - unat ?P) (unat ?P)" "can_publish cfg p (UA_Subscription_publish cfg p w1)"
      using less.hyps [of w1, OF _ s(3)] q q1 need r1 s(4) by auto
    have "published p (unat ?P + unat (?R - ?P)) (resp # new) w (UA_Subscription_publish cfg p w1)"
      using published_step [OF s(2), of "unat (?R - ?P)" new] new(1) q True by (simp add: min_absorb2 less_imp_le)
    then show ?thesis
      using s(1) True new(2,3) r1(2) lt responses_needed_step [OF P lt]
      by (intro exI [of _ "resp # new"]) (simp add: UA_Subscription_publish.simps [of cfg p w])
  qed
qed

end
