(* ===== verification/Subscription_Requests.thy ===== *)
theory Subscription_Requests
  imports Subscription_Liveness "HOL-Library.Multiset"
begin

text \<open>
  Accounting of publish requests: the requests that wait in the queue of the session together with those that were answered.
  Publishing moves requests between the two and never loses or duplicates one.
\<close>

definition requests :: "session \<Rightarrow> u32 multiset" where
  "requests w = mset (map requestId (responseQueue w)) + mset (map respRequestId (sent w))"

definition entry_ids :: "publish_entry option \<Rightarrow> u32 multiset" where
  "entry_ids pre = (case pre of None \<Rightarrow> {#} | Some e \<Rightarrow> {#requestId e#})"

interpretation ri: session_invariant "\<lambda>w. requests w = R" for R
  by unfold_locales (simp add: requests_def)

lemma requests_set_sub [simp]: "requests (set_sub p s w) = requests w"
  by (simp add: requests_def)

lemma requests_alloc: "alloc w = (b, w') \<Longrightarrow> requests w' = requests w"
  using ri.inv_alloc by blast

lemma requests_dequeue: "UA_Session_dequeuePublishReq w = (pre, w') \<Longrightarrow> requests w = requests w' + entry_ids pre"
  by (auto simp: UA_Session_dequeuePublishReq_def requests_def entry_ids_def split: list.splits)

lemma requests_queue [simp]: "requests (UA_Session_queuePublishReq e b w) = requests w + {#requestId e#}"
  by (simp add: requests_def UA_Session_queuePublishReq_def)

lemma requests_late [simp]: "requests (late p pre w) = requests w + entry_ids pre"
  by (simp add: late_def Let_def entry_ids_def split: option.split)

lemma requests_send [simp]: "requests (send r w) = requests w + {#respRequestId r#}"
  by (simp add: send_def requests_def)

lemma requests_send_response [simp]: "requests (send_response cfg p e n again xs w) = requests w + {#requestId e#}"
  by (simp add: send_response_def Let_def requests_def)

lemma requests_prepare: "prepareNotificationMessage p n w = (r, xs, w') \<Longrightarrow> requests w' = requests w"
  using ri.inv_alloc_all
  by (fastforce simp: prepareNotificationMessage_def Let_def simp del: alloc_all.simps split: prod.splits bool.splits)

lemma requests_respond: "requests (snd (respond cfg p pre n again w)) = requests w + entry_ids pre"
proof -
  obtain b w1 where a: "alloc w = (b, w1)" by fastforce
  obtain r xs w2 where pm: "prepareNotificationMessage p n w1 = (r, xs, w2)" by (metis prod_cases3)
  show ?thesis
    using requests_alloc [OF a] requests_prepare [OF pm]
    by (auto simp: respond_def a pm entry_ids_def split: option.split bool.split)
qed

lemma requests_request:
  "publish_request p w = (pre, Some w1) \<Longrightarrow> requests w = requests w1 + entry_ids pre"
  using requests_dequeue
  by (fastforce simp: publish_request_def Let_def entry_ids_def split: prod.splits option.splits if_splits)

lemma requests_delete: "requests (snd (UA_Session_deleteSubscription sid w)) = requests w"
proof -
  have "requests (UA_Subscription_deleteMembers p w) = requests w" for p
    using requests_alloc
    by (auto simp: UA_Subscription_deleteMembers_def Subscription_unregisterPublishCallback_def Let_def split: prod.splits bool.splits)
  moreover have "requests (w\<lparr>serverSubscriptions := ps, numSubscriptions := k\<rparr>) = requests w" for w ps k
    by (simp add: requests_def)
  ultimately show ?thesis
    using requests_alloc
    by (fastforce simp: UA_Session_deleteSubscription_def Let_def split: option.splits prod.splits)
qed

lemma requests_expire: "requests (expire p w) = requests w"
  by (simp add: expire_def Let_def requests_delete)

lemma requests_count: "count_notifications p w = (n, again, w') \<Longrightarrow> requests w' = requests w"
  by (auto simp: count_notifications_def Let_def split: prod.splits)

lemma requests_once: "publish_once cfg p w = (again, w') \<Longrightarrow> requests w' = requests w"
proof -
  assume o: "publish_once cfg p w = (again, w')"
  obtain pre o1 where r: "publish_request p w = (pre, o1)" by fastforce
  show ?thesis
  proof (cases o1)
    case None
    with o r show ?thesis by (auto simp: publish_once_def requests_expire)
  next
    case (Some w1)
    obtain n more_n w2 where c: "count_notifications p w1 = (n, more_n, w2)" by (metis prod_cases3)
    have "respond cfg p pre n more_n w2 = (again, w')"
      using o by (simp add: publish_once_def r Some c)
    then show ?thesis
      using requests_respond [of cfg p pre n more_n w2] requests_count [OF c] requests_request [of p w pre w1] r Some by simp
  qed
qed

lemma requests_publish: "requests (UA_Subscription_publish cfg p w) = requests w"
proof (induction cfg p w rule: UA_Subscription_publish.induct)
  case (1 cfg p w)
  obtain again w1 where o: "publish_once cfg p w = (again, w1)" by fastforce
  show ?case
    using 1 [OF o [symmetric] refl] requests_once [OF o] o by (cases again) (simp_all add: UA_Subscription_publish.simps [of cfg p w])
qed

lemma requests_callback: "requests (publishCallback cfg p w) = requests w"
  by (simp add: publishCallback_def requests_publish)

lemma requests_lastSeen [simp]: "requests (w\<lparr>lastSeenSubscriptionId := k\<rparr>) = requests w"
  by (simp add: requests_def)

lemma requests_serve_late: "requests (serve_late cfg w) = requests w"
  by (simp add: serve_late_def requests_publish split: option.split)

lemma requests_acknowledge: "acknowledge acks w = (rs, w') \<Longrightarrow> requests w' = requests w"
proof (induction acks w arbitrary: rs w' rule: acknowledge.induct)
  case (2 sid k acks w)
  then show ?case
    by (auto simp: Let_def split: option.splits prod.splits)
qed simp

lemma requests_accept:
  assumes "allocs w = [] \<or> pubRequestHandle rq = rid"
  shows "requests (accept_publish cfg rq rid w) = requests w + {#rid#}"
proof -
  obtain b w1 where a: "alloc w = (b, w1)" by fastforce
  obtain c w2 where c: "(if acknowledgements rq = [] then (True, w1) else alloc w1) = (c, w2)" by fastforce
  obtain rs w3 where k: "acknowledge (acknowledgements rq) w2 = (rs, w3)" by fastforce
  have "requests w3 = requests w"
    using requests_alloc [OF a] requests_alloc [of w1 c w2] requests_acknowledge [OF k] c by (auto split: if_splits)
  moreover have "requests w2 = requests w" "requests w1 = requests w"
    using requests_alloc [OF a] requests_alloc [of w1 c w2] c by (auto split: if_splits)
  moreover have "b \<and> c" if "allocs w = []"
    using that a c by (auto simp: alloc_def split: if_splits list.splits)
  ultimately show ?thesis
    unfolding accept_publish_def a prod.case c k using assms
    by (auto simp: Let_def subscriptionSendError_def error_response_def requests_serve_late split: bool.split)
qed

lemma requests_service:
  assumes "session_inv cfg w" "allocs w = [] \<or> pubRequestHandle rq = rid"
  shows "requests (Service_Publish cfg rq rid w) = requests w + {#rid#}"
proof -
  obtain pre w1 where d: "UA_Session_dequeuePublishReq w = (pre, w1)" by fastforce
  have a1: "allocs w1 = allocs w"
    using d by (auto simp: UA_Session_dequeuePublishReq_def split: list.splits)
  show ?thesis
  proof (cases "serverSubscriptions w = [] \<or> \<not> (maxPublishReqPerSession cfg \<noteq> 0 \<and> numPublishReq w \<ge> maxPublishReqPerSession cfg)")
    case True
    then show ?thesis
      using requests_accept [OF assms(2), of cfg] by (auto simp: Service_Publish_def subscriptionSendError_def error_response_def)
  next
    case False
    have "responseQueue w \<noteq> []"
      using False assms(1) by (auto simp: session_inv_def)
    then obtain e where e: "pre = Some e"
      using d by (auto simp: UA_Session_dequeuePublishReq_def split: list.splits)
    define w2 where "w2 = send (error_response (requestId e) (requestHandle e) BADTOOMANYPUBLISHREQUESTS (ackResults e)) w1"
    have "requests w2 = requests w" "allocs w2 = allocs w"
      using requests_dequeue [OF d] a1 by (simp_all add: w2_def error_response_def entry_ids_def e) (simp add: send_def)
    then show ?thesis
      using False assms(2) requests_accept [of w2 rq rid cfg]
      by (simp add: Service_Publish_def UA_Subscription_reachedPublishReqLimit_def d e flip: w2_def)
  qed
qed

end
