(* ===== verification/Subscription_Props.thy ===== *)
theory Subscription_Props
  imports Subscription_Requests
begin

text \<open>
  The properties of subscriptions and of the publish requests of a session, and a concrete session on which their hypotheses hold.
\<close>

subsection \<open>A concrete session\<close>

definition ex_cfg :: server_config where
  "ex_cfg = \<lparr>maxRetransmissionQueueSize = 2, cfgMaxNotificationsPerPublish = 1000, maxSubscriptionsPerSession = 0,
     maxPublishReqPerSession = 0, publishingIntervalLimits = (0, 0x40C3880000000000), keepAliveCountLimits = (1, 100),
     lifeTimeCountLimits = (3, 15000), maxMonitoredItemsPerCall = 0, samplingIntervalLimits = (0, 0x40C3880000000000),
     queueSizeLimits = (1, 100)\<rparr>"

definition ex_value :: "u32 \<Rightarrow> datavalue" where
  "ex_value st = DataValue None (Some st) None None None None"

definition ex_item :: "ptr list \<Rightarrow> monitored_item" where
  "ex_item q = \<lparr>monitoredItemId = 1, clientHandle = 7, monitoredItemType = CHANGENOTIFY, monitoringMode = 2, attributeId = 13,
     samplingInterval = 0, maxQueueSize = 3, discardOldest = True, queue = q, queueSize = of_nat (length q),
     sampleCallbackIsRegistered = True, lastSampledValue = None, lastValue = VarEmpty,
     monFilter = DataChangeFilter \<lparr>filterTrigger = 1, deadbandType = 0, deadbandValue = 0\<rparr>\<rparr>"

text \<open>One item at address 5 with the notifications at 10, 11 and 12, two of which fit into a message.\<close>

definition ex_sub :: subscription where
  "ex_sub = (UA_Subscription_new 1)\<lparr>lifeTimeCount := 30, maxKeepAliveCount := 10, notificationsPerPublish := 2,
     publishingEnabled := True, monitoredItems := [5], monitoredItemsSize := 1, notificationQueue := [10, 11, 12],
     notificationQueueSize := 3, dataChangeNotifications := 3, readyNotifications := 3,
     mons := [5 \<mapsto> ex_item [10, 11, 12]],
     notifs := [10 \<mapsto> \<lparr>nmon = 5, nvalue = ex_value 0\<rparr>, 11 \<mapsto> \<lparr>nmon = 5, nvalue = ex_value 1\<rparr>, 12 \<mapsto> \<lparr>nmon = 5, nvalue = ex_value 2\<rparr>]\<rparr>"

definition ex_session :: session where
  "ex_session = (session_init True [])\<lparr>serverSubscriptions := [20], subs := [20 \<mapsto> ex_sub], numSubscriptions := 1, lastSubscriptionId := 1,
     responseQueue := [\<lparr>requestId = 100, requestHandle = 1, ackResults = []\<rparr>, \<lparr>requestId = 101, requestHandle = 2, ackResults = []\<rparr>],
     numPublishReq := 2\<rparr>"

lemma ex_sub_inv: "sub_inv ex_sub"
  by (auto simp: sub_inv_def sub_wf_def queues_ok_def counters_ok_def num_kind_def kind_def owner_def notif_at_def mon_at_def
      ex_sub_def ex_item_def UA_Subscription_new_def)

lemma ex_sub_good: "sub_good ex_cfg ex_sub"
  using ex_sub_inv
  by (simp add: sub_good_def items_ok_def retransmission_ok_def mon_at_def item_type_def ATTRIBUTEID_VALUE_def ex_sub_def ex_item_def
      UA_Subscription_new_def)

lemma ex_sub_at: "sub_at ex_session 20 = ex_sub"
  by (simp add: sub_at_def ex_session_def)

lemma ex_session_inv: "session_inv ex_cfg ex_session"
  using ex_sub_good ex_sub_at by (simp add: session_inv_def) (simp add: ex_session_def session_init_def)

lemma ex_session_live: "live_inv ex_cfg 20 ex_session"
  using ex_session_inv by (simp add: live_inv_def) (simp add: ex_session_def)

lemma ex_all_data: "all_data ex_sub"
  by (simp add: all_data_def is_data_def kind_def owner_def notif_at_def mon_at_def ex_sub_def ex_item_def)

subsection \<open>The notification queue of an item\<close>

text \<open>C6: A notification that is enqueued reaches the queue of its monitored item like a bounded queue of values: a full queue loses
  its oldest value (or the one before the new value if discardOldest is off), and a data change next to the gap carries
  the overflow bits. The settings and values of all other items stay the same.\<close>

theorem enqueue_refines_bounded_queue:
  assumes "sub_inv s" "m \<in> set (monitoredItems s)" "notifs s n = None" "nmon x = m" "length (notificationQueue s) + 1 < 2 ^ 32"
  shows "queue_values (UA_Notification_enqueue m n x s) m
      = enqueue_spec (unat (maxQueueSize (mon_at s m))) (discardOldest (mon_at s m)) (monitoredItemType (mon_at s m) = CHANGENOTIFY)
          (queue_values s m) (nvalue x)
    \<and> (\<forall>l \<in> set (monitoredItems s) - {m}. mon_at (UA_Notification_enqueue m n x s) l = mon_at s l
         \<and> queue_values (UA_Notification_enqueue m n x s) l = queue_values s l)"
  using enqueue_values [OF assms] enqueue_others(1) [OF assms] by blast

theorem enqueue_refines_bounded_queue_witness:
  "queue_values (UA_Notification_enqueue 5 13 \<lparr>nmon = 5, nvalue = ex_value 3\<rparr> ex_sub) 5
     = [ex_value 0x481, ex_value 2, ex_value 3]"
proof -
  have "queue_values (UA_Notification_enqueue 5 13 \<lparr>nmon = 5, nvalue = ex_value 3\<rparr> ex_sub) 5
      = enqueue_spec (unat (maxQueueSize (mon_at ex_sub 5))) (discardOldest (mon_at ex_sub 5)) (monitoredItemType (mon_at ex_sub 5) = CHANGENOTIFY)
          (queue_values ex_sub 5) (ex_value 3)"
    using enqueue_refines_bounded_queue [of ex_sub 5 13 "\<lparr>nmon = 5, nvalue = ex_value 3\<rparr>"] ex_sub_inv
    by (simp add: ex_sub_def)
  then show ?thesis
    by (simp add: queue_values_def enqueue_spec_def mark_def info_bits_def mon_at_def notif_at_def ex_sub_def ex_item_def ex_value_def INFOBITS_def)
qed

text \<open>C33: An item does not lose its place in the global queue of the subscription when its own queue overflows: the notifications of
  other items in front of it are the same as before, and the order of all notifications of other items is kept.\<close>

theorem enqueue_keeps_place:
  assumes "sub_inv s" "m \<in> set (monitoredItems s)" "notifs s n = None" "nmon x = m" "length (notificationQueue s) + 1 < 2 ^ 32"
  shows "ahead (UA_Notification_enqueue m n x s) m = ahead s m
    \<and> filter (\<lambda>k. owner s k \<noteq> m \<and> k \<noteq> n) (notificationQueue (UA_Notification_enqueue m n x s))
        = filter (\<lambda>k. owner s k \<noteq> m) (notificationQueue s)"
  using enqueue_others(2,3) [OF assms] by blast

theorem enqueue_keeps_place_witness:
  "ahead (UA_Notification_enqueue 5 13 \<lparr>nmon = 5, nvalue = ex_value 3\<rparr> ex_sub) 5 = []"
proof -
  have "ahead (UA_Notification_enqueue 5 13 \<lparr>nmon = 5, nvalue = ex_value 3\<rparr> ex_sub) 5 = ahead ex_sub 5"
    using enqueue_keeps_place [of ex_sub 5 13 "\<lparr>nmon = 5, nvalue = ex_value 3\<rparr>"] ex_sub_inv by (simp add: ex_sub_def)
  then show ?thesis
    by (simp add: ahead_def owner_def notif_at_def ex_sub_def)
qed

subsection \<open>The invariant of a session\<close>

text \<open>C7: In every state that a session reaches through its services, the publish callback and the sampling of values,
  every subscription is consistent: each item's queue is exactly its share of the global queue and within its bound,
  no notification is leaked, and all counters (notifications by type, items, retransmission messages, subscriptions,
  publish requests) have the right values, as long as the lower limit of the queue size is at least 1.\<close>

theorem reachable_session_inv:
  assumes "reachable cfg w" "1 \<le> fst (queueSizeLimits cfg)" "fst (queueSizeLimits cfg) \<le> snd (queueSizeLimits cfg)"
  shows "session_inv cfg w"
  using assms(1)
proof (induction rule: reachable.induct)
  case (init b as)
  show ?case by (simp add: session_inv_def session_init_def)
next
  case (step w w')
  then show ?case using session_step_inv assms(2,3) by blast
qed

theorem reachable_session_inv_witness:
  "session_inv ex_cfg (publishCallback ex_cfg 3 (snd (Service_CreateSubscription ex_cfg True
     \<lparr>requestedPublishingInterval = 0, requestedLifetimeCount = 0, requestedMaxKeepAliveCount = 0, maxNotificationsPerPublish = 0,
      requestedPriority = 0\<rparr> 3 (session_init True []))))"
proof -
  let ?w = "snd (Service_CreateSubscription ex_cfg True
     \<lparr>requestedPublishingInterval = 0, requestedLifetimeCount = 0, requestedMaxKeepAliveCount = 0, maxNotificationsPerPublish = 0,
      requestedPriority = 0\<rparr> 3 (session_init True []))"
  have "reachable ex_cfg ?w"
    by (rule reachable.step [OF reachable.init], rule session_step.create) (simp add: session_init_def)
  moreover have "3 \<in> set (serverSubscriptions ?w)"
    by (simp add: Service_CreateSubscription_def ex_cfg_def session_init_def alloc_def Let_def UA_Session_addSubscription_def
        setSubscriptionSettings_def Subscription_unregisterPublishCallback_def Subscription_registerPublishCallback_def sub_at_set_sub
        settings_def UA_Subscription_new_def sub_at_def set_sub_def)
  ultimately have "reachable ex_cfg (publishCallback ex_cfg 3 ?w)"
    by (blast intro: reachable.step session_step.callback)
  then show ?thesis
    by (rule reachable_session_inv) (simp_all add: ex_cfg_def)
qed

subsection \<open>Publishing\<close>





subsection \<open>Publish requests\<close>





end
