(* ===== verification/Pubsub_Message.thy ===== *)
theory Pubsub_Message
  imports Binary_Generic
begin

text \<open>
  The UADP network messages of PubSub: src/src/pubsub/ua_pubsub_networkmessage.c with the structures of
  src/src/pubsub/ua_pubsub_networkmessage.h.

  The functions \<open>UA_Byte_encodeBinary\<close>, \<open>UA_Byte_decodeBinary\<close> etc. that the file calls are the generated
  wrappers around \<open>UA_encodeBinary\<close> and \<open>UA_decodeBinary\<close> for an entry of the type table; here they are \<open>store\<close>
  and \<open>fetch\<close> with the index of the type. An encoder is a list of steps that stops at the first step
  with a bad status (\<open>run_steps\<close>); a step whose status the code ignores is marked with \<open>ignoreE\<close>.
  A decoder returns the status of the first failure or a value, and the offset that it has reached (\<open>pbind\<close>).

  An enable flag and the field it announces are an option. Counts that the code stores beside a pointer stay separate
  where they can differ; reading an array behind its end is the status \<open>MEMORY_FAULT\<close>,
  which no function of the program uses. Enumerations are the bytes they are cast from, since the
  decoder does not check them. The partly filled destination of a failed decoder has no counterpart:
  \<open>UA_NetworkMessage_decodeBinary\<close> frees and clears it.
\<close>

subsection \<open>Steps of the encoder\<close>

type_synonym estep = "ectx \<Rightarrow> status \<times> ectx"

definition MEMORY_FAULT :: status where "MEMORY_FAULT = 0xFFFFFFFE"

fun run_steps :: "estep list \<Rightarrow> estep" where
  "run_steps [] c = (GOOD, c)"
| "run_steps (e # es) c = (let (ret, c1) = e c in if ret \<noteq> GOOD then (ret, c1) else run_steps es c1)"

definition returnE :: "status \<Rightarrow> estep" where
  "returnE ret c = (ret, c)"

definition whenE :: "bool \<Rightarrow> estep \<Rightarrow> estep" where
  "whenE b e = (if b then e else returnE GOOD)"

definition optE :: "('a \<Rightarrow> estep) \<Rightarrow> 'a option \<Rightarrow> estep" where
  "optE f x = (case x of None \<Rightarrow> returnE GOOD | Some y \<Rightarrow> f y)"

definition ignoreE :: "estep \<Rightarrow> estep" where
  "ignoreE e c = (GOOD, snd (e c))"

definition at_index :: "'a list \<Rightarrow> ('a \<Rightarrow> estep) \<Rightarrow> nat \<Rightarrow> estep" where
  "at_index xs f i = (if i < length xs then f (xs ! i) else returnE MEMORY_FAULT)"

definition forE :: "nat \<Rightarrow> (nat \<Rightarrow> estep) \<Rightarrow> estep" where
  "forE n f = run_steps (map f [0..<n])"

abbreviation (input) BYTE_TYPE :: nat where "BYTE_TYPE \<equiv> 2"
abbreviation (input) UINT16_TYPE :: nat where "UINT16_TYPE \<equiv> 4"
abbreviation (input) UINT32_TYPE :: nat where "UINT32_TYPE \<equiv> 6"
abbreviation (input) UINT64_TYPE :: nat where "UINT64_TYPE \<equiv> 8"
abbreviation (input) STRING_TYPE :: nat where "STRING_TYPE \<equiv> 11"
abbreviation (input) DATETIME_TYPE :: nat where "DATETIME_TYPE \<equiv> 12"
abbreviation (input) GUID_TYPE :: nat where "GUID_TYPE \<equiv> 13"
abbreviation (input) BYTESTRING_TYPE :: nat where "BYTESTRING_TYPE \<equiv> 14"
abbreviation (input) DATAVALUE_TYPE :: nat where "DATAVALUE_TYPE \<equiv> 22"
abbreviation (input) VARIANT_TYPE :: nat where "VARIANT_TYPE \<equiv> 23"

definition store :: "types \<Rightarrow> nat \<Rightarrow> uaval \<Rightarrow> estep" where
  "store T i v = UA_encodeBinary T (Ns0 i) v"

definition calc :: "types \<Rightarrow> nat \<Rightarrow> uaval \<Rightarrow> nat" where
  "calc T i v = UA_calcSizeBinary T (size_jump T) (Ns0 i) v"

subsection \<open>Decoders\<close>

type_synonym 'a pdecoder = "u8 list \<Rightarrow> nat \<Rightarrow> (status + 'a) \<times> nat"

definition preturn :: "'a \<Rightarrow> 'a pdecoder" where
  "preturn x src offset = (Inr x, offset)"

definition pfail :: "status \<Rightarrow> 'a pdecoder" where
  "pfail ret src offset = (Inl ret, offset)"

definition pbind :: "'a pdecoder \<Rightarrow> ('a \<Rightarrow> 'b pdecoder) \<Rightarrow> 'b pdecoder" where
  "pbind d f src offset =
     (case d src offset of (Inl ret, o1) \<Rightarrow> (Inl ret, o1) | (Inr x, o1) \<Rightarrow> f x src o1)"

definition popt :: "bool \<Rightarrow> 'a pdecoder \<Rightarrow> 'a option pdecoder" where
  "popt b d = (if b then pbind d (\<lambda>x. preturn (Some x)) else preturn None)"

fun prepeat :: "nat \<Rightarrow> 'a pdecoder \<Rightarrow> 'a list pdecoder" where
  "prepeat 0 d = preturn []"
| "prepeat (Suc n) d = pbind d (\<lambda>x. pbind (prepeat n d) (\<lambda>xs. preturn (x # xs)))"

definition fetch :: "types \<Rightarrow> nat \<Rightarrow> (uaval \<Rightarrow> 'a) \<Rightarrow> 'a pdecoder" where
  "fetch T i f src offset =
     (case UA_decodeBinary T (Ns0 i) src offset of
        (ret, Some v, o1) \<Rightarrow> (Inr (f v), o1)
      | (ret, None, o1) \<Rightarrow> (Inl ret, o1))"

definition the_byte :: "uaval \<Rightarrow> u8" where "the_byte v = (case v of VByte x \<Rightarrow> x | _ \<Rightarrow> 0)"
definition the_u16 :: "uaval \<Rightarrow> u16" where "the_u16 v = (case v of VUInt16 x \<Rightarrow> x | _ \<Rightarrow> 0)"
definition the_u32 :: "uaval \<Rightarrow> u32" where "the_u32 v = (case v of VUInt32 x \<Rightarrow> x | _ \<Rightarrow> 0)"
definition the_u64 :: "uaval \<Rightarrow> u64" where "the_u64 v = (case v of VUInt64 x \<Rightarrow> x | _ \<Rightarrow> 0)"
definition the_string :: "uaval \<Rightarrow> ustring" where "the_string v = (case v of VString x \<Rightarrow> x | _ \<Rightarrow> None)"
definition the_guid :: "uaval \<Rightarrow> guid" where "the_guid v = (case v of VGuid x \<Rightarrow> x | _ \<Rightarrow> Guid_init)"
definition the_variant :: "uaval \<Rightarrow> variant" where "the_variant v = (case v of VVariant x \<Rightarrow> x | _ \<Rightarrow> VarEmpty)"
definition the_datavalue :: "uaval \<Rightarrow> datavalue" where
  "the_datavalue v = (case v of VDataValue x \<Rightarrow> x | _ \<Rightarrow> DataValue None None None None None None)"

definition fetch_byte :: "types \<Rightarrow> u8 pdecoder" where "fetch_byte T = fetch T BYTE_TYPE the_byte"
definition fetch_u16 :: "types \<Rightarrow> u16 pdecoder" where "fetch_u16 T = fetch T UINT16_TYPE the_u16"
definition fetch_u32 :: "types \<Rightarrow> u32 pdecoder" where "fetch_u32 T = fetch T UINT32_TYPE the_u32"

subsection \<open>The header of a DataSetMessage\<close>

definition flag :: "bool \<Rightarrow> u8 \<Rightarrow> u8" where
  "flag b m = (if b then m else 0)"

definition has_flag :: "u8 \<Rightarrow> u8 \<Rightarrow> bool" where
  "has_flag v m \<longleftrightarrow> v AND m \<noteq> 0"

abbreviation (input) UA_FIELDENCODING_VARIANT :: u8 where "UA_FIELDENCODING_VARIANT \<equiv> 0"
abbreviation (input) UA_FIELDENCODING_RAWDATA :: u8 where "UA_FIELDENCODING_RAWDATA \<equiv> 1"
abbreviation (input) UA_FIELDENCODING_DATAVALUE :: u8 where "UA_FIELDENCODING_DATAVALUE \<equiv> 2"
abbreviation (input) UA_DATASETMESSAGE_DATAKEYFRAME :: u8 where "UA_DATASETMESSAGE_DATAKEYFRAME \<equiv> 0"
abbreviation (input) UA_DATASETMESSAGE_DATADELTAFRAME :: u8 where "UA_DATASETMESSAGE_DATADELTAFRAME \<equiv> 1"
abbreviation (input) UA_DATASETMESSAGE_KEEPALIVE :: u8 where "UA_DATASETMESSAGE_KEEPALIVE \<equiv> 3"

abbreviation (input) DS_MESSAGEHEADER_DS_MSG_VALID :: u8 where "DS_MESSAGEHEADER_DS_MSG_VALID \<equiv> 1"
abbreviation (input) DS_MESSAGEHEADER_FIELD_ENCODING_MASK :: u8 where "DS_MESSAGEHEADER_FIELD_ENCODING_MASK \<equiv> 6"
abbreviation (input) DS_MESSAGEHEADER_SEQ_NR_ENABLED_MASK :: u8 where "DS_MESSAGEHEADER_SEQ_NR_ENABLED_MASK \<equiv> 8"
abbreviation (input) DS_MESSAGEHEADER_STATUS_ENABLED_MASK :: u8 where "DS_MESSAGEHEADER_STATUS_ENABLED_MASK \<equiv> 16"
abbreviation (input) DS_MESSAGEHEADER_CONFIGMAJORVERSION_ENABLED_MASK :: u8 where "DS_MESSAGEHEADER_CONFIGMAJORVERSION_ENABLED_MASK \<equiv> 32"
abbreviation (input) DS_MESSAGEHEADER_CONFIGMINORVERSION_ENABLED_MASK :: u8 where "DS_MESSAGEHEADER_CONFIGMINORVERSION_ENABLED_MASK \<equiv> 64"
abbreviation (input) DS_MESSAGEHEADER_FLAGS2_ENABLED_MASK :: u8 where "DS_MESSAGEHEADER_FLAGS2_ENABLED_MASK \<equiv> 128"
abbreviation (input) DS_MESSAGEHEADER_DS_MESSAGE_TYPE_MASK :: u8 where "DS_MESSAGEHEADER_DS_MESSAGE_TYPE_MASK \<equiv> 15"
abbreviation (input) DS_MESSAGEHEADER_TIMESTAMP_ENABLED_MASK :: u8 where "DS_MESSAGEHEADER_TIMESTAMP_ENABLED_MASK \<equiv> 16"
abbreviation (input) DS_MESSAGEHEADER_PICOSECONDS_INCLUDED_MASK :: u8 where "DS_MESSAGEHEADER_PICOSECONDS_INCLUDED_MASK \<equiv> 32"

record ds_header =
  dataSetMessageValid :: bool
  fieldEncoding :: u8
  dataSetMessageType :: u8
  dataSetMessageSequenceNr :: "u16 option"
  dsTimestamp :: "u64 option"
  picoSeconds :: "u16 option"
  dsStatus :: "u16 option"
  configVersionMajorVersion :: "u32 option"
  configVersionMinorVersion :: "u32 option"

definition UA_DataSetMessageHeader_DataSetFlags2Enabled :: "ds_header \<Rightarrow> bool" where
  "UA_DataSetMessageHeader_DataSetFlags2Enabled src \<longleftrightarrow>
     dataSetMessageType src \<noteq> UA_DATASETMESSAGE_DATAKEYFRAME \<or> dsTimestamp src \<noteq> None \<or> picoSeconds src \<noteq> None"

definition ds_flags1 :: "ds_header \<Rightarrow> u8" where
  "ds_flags1 src =
     push_bit 1 (fieldEncoding src)
       OR flag (dataSetMessageValid src) DS_MESSAGEHEADER_DS_MSG_VALID
       OR flag (dataSetMessageSequenceNr src \<noteq> None) DS_MESSAGEHEADER_SEQ_NR_ENABLED_MASK
       OR flag (dsStatus src \<noteq> None) DS_MESSAGEHEADER_STATUS_ENABLED_MASK
       OR flag (configVersionMajorVersion src \<noteq> None) DS_MESSAGEHEADER_CONFIGMAJORVERSION_ENABLED_MASK
       OR flag (configVersionMinorVersion src \<noteq> None) DS_MESSAGEHEADER_CONFIGMINORVERSION_ENABLED_MASK
       OR flag (UA_DataSetMessageHeader_DataSetFlags2Enabled src) DS_MESSAGEHEADER_FLAGS2_ENABLED_MASK"

definition ds_flags2 :: "ds_header \<Rightarrow> u8" where
  "ds_flags2 src =
     dataSetMessageType src
       OR flag (dsTimestamp src \<noteq> None) DS_MESSAGEHEADER_TIMESTAMP_ENABLED_MASK
       OR flag (picoSeconds src \<noteq> None) DS_MESSAGEHEADER_PICOSECONDS_INCLUDED_MASK"

definition UA_DataSetMessageHeader_encodeBinary :: "types \<Rightarrow> ds_header \<Rightarrow> estep" where
  "UA_DataSetMessageHeader_encodeBinary T src =
     run_steps
       [store T BYTE_TYPE (VByte (ds_flags1 src)),
        whenE (UA_DataSetMessageHeader_DataSetFlags2Enabled src) (store T BYTE_TYPE (VByte (ds_flags2 src))),
        optE (\<lambda>x. store T UINT16_TYPE (VUInt16 x)) (dataSetMessageSequenceNr src),
        optE (\<lambda>x. store T DATETIME_TYPE (VUInt64 x)) (dsTimestamp src),
        optE (\<lambda>x. store T UINT16_TYPE (VUInt16 x)) (picoSeconds src),
        optE (\<lambda>x. store T UINT16_TYPE (VUInt16 x)) (dsStatus src),
        optE (\<lambda>x. store T UINT32_TYPE (VUInt32 x)) (configVersionMajorVersion src),
        optE (\<lambda>x. store T UINT32_TYPE (VUInt32 x)) (configVersionMinorVersion src)]"

text \<open>The second flag byte: the message type and whether there is a timestamp and picoseconds.\<close>

definition decode_ds_flags2 :: "types \<Rightarrow> bool \<Rightarrow> (u8 \<times> bool \<times> bool) pdecoder" where
  "decode_ds_flags2 T b =
     (if b then
        pbind (fetch_byte T) (\<lambda>v.
          preturn (v AND DS_MESSAGEHEADER_DS_MESSAGE_TYPE_MASK,
            has_flag v DS_MESSAGEHEADER_TIMESTAMP_ENABLED_MASK,
            has_flag v DS_MESSAGEHEADER_PICOSECONDS_INCLUDED_MASK))
      else preturn (UA_DATASETMESSAGE_DATAKEYFRAME, False, False))"

definition UA_DataSetMessageHeader_decodeBinary :: "types \<Rightarrow> ds_header pdecoder" where
  "UA_DataSetMessageHeader_decodeBinary T =
     pbind (fetch_byte T) (\<lambda>v.
     pbind (decode_ds_flags2 T (has_flag v DS_MESSAGEHEADER_FLAGS2_ENABLED_MASK)) (\<lambda>(type, timestampEnabled, picoSecondsIncluded).
     pbind (popt (has_flag v DS_MESSAGEHEADER_SEQ_NR_ENABLED_MASK) (fetch_u16 T)) (\<lambda>seqnr.
     pbind (popt timestampEnabled (fetch T DATETIME_TYPE the_u64)) (\<lambda>ts.
     pbind (popt picoSecondsIncluded (fetch_u16 T)) (\<lambda>pico.
     pbind (popt (has_flag v DS_MESSAGEHEADER_STATUS_ENABLED_MASK) (fetch_u16 T)) (\<lambda>st.
     pbind (popt (has_flag v DS_MESSAGEHEADER_CONFIGMAJORVERSION_ENABLED_MASK) (fetch_u32 T)) (\<lambda>major.
     pbind (popt (has_flag v DS_MESSAGEHEADER_CONFIGMINORVERSION_ENABLED_MASK) (fetch_u32 T)) (\<lambda>minor.
     preturn
       \<lparr>dataSetMessageValid = has_flag v DS_MESSAGEHEADER_DS_MSG_VALID,
        fieldEncoding = drop_bit 1 (v AND DS_MESSAGEHEADER_FIELD_ENCODING_MASK),
        dataSetMessageType = type, dataSetMessageSequenceNr = seqnr, dsTimestamp = ts, picoSeconds = pico,
        dsStatus = st, configVersionMajorVersion = major, configVersionMinorVersion = minor\<rparr>))))))))"

definition opt_calc :: "types \<Rightarrow> nat \<Rightarrow> ('a \<Rightarrow> uaval) \<Rightarrow> 'a option \<Rightarrow> nat" where
  "opt_calc T i f x = (case x of None \<Rightarrow> 0 | Some y \<Rightarrow> calc T i (f y))"

definition UA_DataSetMessageHeader_calcSizeBinary :: "types \<Rightarrow> ds_header \<Rightarrow> nat" where
  "UA_DataSetMessageHeader_calcSizeBinary T p =
     calc T BYTE_TYPE (VByte 0)
       + (if UA_DataSetMessageHeader_DataSetFlags2Enabled p then calc T BYTE_TYPE (VByte 0) else 0)
       + opt_calc T UINT16_TYPE VUInt16 (dataSetMessageSequenceNr p)
       + opt_calc T DATETIME_TYPE VUInt64 (dsTimestamp p)
       + opt_calc T UINT16_TYPE VUInt16 (picoSeconds p)
       + opt_calc T UINT16_TYPE VUInt16 (dsStatus p)
       + opt_calc T UINT32_TYPE VUInt32 (configVersionMajorVersion p)
       + opt_calc T UINT32_TYPE VUInt32 (configVersionMinorVersion p)"

subsection \<open>DataSetMessages\<close>

text \<open>
  The union of key frame and delta frame data: both start with \<open>fieldCount\<close>, followed by a pointer to
  either kind of fields. In memory the value of a field without \<open>hasValue\<close> is an empty Variant.
\<close>

datatype ds_fields =
    NullFields
  | DataSetFields "datavalue list"
  | DeltaFrameFields "(u16 \<times> datavalue) list"

record ds_message =
  header :: ds_header
  fieldCount :: u16
  frameFields :: ds_fields

definition key_fields :: "ds_message \<Rightarrow> datavalue list" where
  "key_fields m = (case frameFields m of DataSetFields fs \<Rightarrow> fs | _ \<Rightarrow> [])"

definition delta_fields :: "ds_message \<Rightarrow> (u16 \<times> datavalue) list" where
  "delta_fields m = (case frameFields m of DeltaFrameFields fs \<Rightarrow> fs | _ \<Rightarrow> [])"

definition field_value :: "datavalue \<Rightarrow> variant" where
  "field_value dv = (case dvValue dv of None \<Rightarrow> VarEmpty | Some v \<Rightarrow> v)"

definition value_field :: "variant \<Rightarrow> datavalue" where
  "value_field v = DataValue (Some v) None None None None None"

definition encode_variant_field :: "types \<Rightarrow> datavalue \<Rightarrow> estep" where
  "encode_variant_field T dv = store T VARIANT_TYPE (VVariant (field_value dv))"

definition encode_datavalue_field :: "types \<Rightarrow> datavalue \<Rightarrow> estep" where
  "encode_datavalue_field T dv = store T DATAVALUE_TYPE (VDataValue dv)"

definition encode_delta_field :: "types \<Rightarrow> (datavalue \<Rightarrow> estep) \<Rightarrow> u16 \<times> datavalue \<Rightarrow> estep" where
  "encode_delta_field T e f = run_steps [store T UINT16_TYPE (VUInt16 (fst f)), e (snd f)]"

definition encode_key_frame :: "types \<Rightarrow> ds_message \<Rightarrow> estep" where
  "encode_key_frame T src =
     (let enc = fieldEncoding (header src); n = unat (fieldCount src) in
      run_steps
        [whenE (enc \<noteq> UA_FIELDENCODING_RAWDATA) (store T UINT16_TYPE (VUInt16 (fieldCount src))),
         (if enc = UA_FIELDENCODING_VARIANT then forE n (at_index (key_fields src) (encode_variant_field T))
          else if enc = UA_FIELDENCODING_RAWDATA then returnE BADNOTIMPLEMENTED
          else if enc = UA_FIELDENCODING_DATAVALUE then forE n (at_index (key_fields src) (encode_datavalue_field T))
          else returnE GOOD)])"

definition encode_delta_frame :: "types \<Rightarrow> ds_message \<Rightarrow> estep" where
  "encode_delta_frame T src =
     (let enc = fieldEncoding (header src); n = unat (fieldCount src) in
      run_steps
        [store T UINT16_TYPE (VUInt16 (fieldCount src)),
         (if enc = UA_FIELDENCODING_VARIANT
          then forE n (at_index (delta_fields src) (encode_delta_field T (encode_variant_field T)))
          else if enc = UA_FIELDENCODING_RAWDATA then returnE BADNOTIMPLEMENTED
          else if enc = UA_FIELDENCODING_DATAVALUE
          then forE n (at_index (delta_fields src) (encode_delta_field T (encode_datavalue_field T)))
          else returnE GOOD)])"

definition UA_DataSetMessage_encodeBinary :: "types \<Rightarrow> ds_message \<Rightarrow> estep" where
  "UA_DataSetMessage_encodeBinary T src =
     (let type = dataSetMessageType (header src) in
      run_steps
        [UA_DataSetMessageHeader_encodeBinary T (header src),
         (if type = UA_DATASETMESSAGE_DATAKEYFRAME then encode_key_frame T src
          else if type = UA_DATASETMESSAGE_DATADELTAFRAME then encode_delta_frame T src
          else if type \<noteq> UA_DATASETMESSAGE_KEEPALIVE then returnE BADNOTIMPLEMENTED
          else returnE GOOD)])"

definition decode_variant_field :: "types \<Rightarrow> datavalue pdecoder" where
  "decode_variant_field T = fetch T VARIANT_TYPE (\<lambda>v. value_field (the_variant v))"

definition decode_datavalue_field :: "types \<Rightarrow> datavalue pdecoder" where
  "decode_datavalue_field T = fetch T DATAVALUE_TYPE the_datavalue"

definition decode_delta_field :: "types \<Rightarrow> datavalue pdecoder \<Rightarrow> (u16 \<times> datavalue) pdecoder" where
  "decode_delta_field T d = pbind (fetch_u16 T) (\<lambda>i. pbind d (\<lambda>v. preturn (i, v)))"

definition pfields :: "('a list \<Rightarrow> ds_fields) \<Rightarrow> u16 \<Rightarrow> 'a pdecoder \<Rightarrow> (u16 \<times> ds_fields) pdecoder" where
  "pfields C n d = pbind (prepeat (unat n) d) (\<lambda>fs. preturn (n, C fs))"

definition decode_key_frame :: "types \<Rightarrow> u8 \<Rightarrow> (u16 \<times> ds_fields) pdecoder" where
  "decode_key_frame T enc =
     (if enc \<noteq> UA_FIELDENCODING_RAWDATA then
        pbind (fetch_u16 T) (\<lambda>n.
          if enc = UA_FIELDENCODING_VARIANT then pfields DataSetFields n (decode_variant_field T)
          else if enc = UA_FIELDENCODING_DATAVALUE then pfields DataSetFields n (decode_datavalue_field T)
          else preturn (n, NullFields))
      else preturn (0, NullFields))"

definition decode_delta_frame :: "types \<Rightarrow> u8 \<Rightarrow> (u16 \<times> ds_fields) pdecoder" where
  "decode_delta_frame T enc =
     (if enc \<noteq> UA_FIELDENCODING_RAWDATA then
        pbind (fetch_u16 T) (\<lambda>n.
          if enc = UA_FIELDENCODING_VARIANT
          then pfields DeltaFrameFields n (decode_delta_field T (decode_variant_field T))
          else if enc = UA_FIELDENCODING_DATAVALUE
          then pfields DeltaFrameFields n (decode_delta_field T (decode_datavalue_field T))
          else preturn (n, NullFields))
      else preturn (0, NullFields))"

definition UA_DataSetMessage_decodeBinary :: "types \<Rightarrow> ds_message pdecoder" where
  "UA_DataSetMessage_decodeBinary T =
     pbind (UA_DataSetMessageHeader_decodeBinary T) (\<lambda>h.
     pbind
       (if dataSetMessageType h = UA_DATASETMESSAGE_DATAKEYFRAME then decode_key_frame T (fieldEncoding h)
        else if dataSetMessageType h = UA_DATASETMESSAGE_DATADELTAFRAME then decode_delta_frame T (fieldEncoding h)
        else if dataSetMessageType h \<noteq> UA_DATASETMESSAGE_KEEPALIVE then pfail BADNOTIMPLEMENTED
        else preturn (0, NullFields)) (\<lambda>(n, fs).
     preturn \<lparr>header = h, fieldCount = n, frameFields = fs\<rparr>))"

text \<open>The fields that the size computation visits; behind the end of the array they have no size.\<close>

definition UA_DataSetMessage_calcSizeBinary :: "types \<Rightarrow> ds_message \<Rightarrow> nat" where
  "UA_DataSetMessage_calcSizeBinary T p =
     (let enc = fieldEncoding (header p); type = dataSetMessageType (header p); n = unat (fieldCount p) in
      UA_DataSetMessageHeader_calcSizeBinary T (header p)
      + (if type = UA_DATASETMESSAGE_DATAKEYFRAME then
           (if enc \<noteq> UA_FIELDENCODING_RAWDATA then calc T UINT16_TYPE (VUInt16 (fieldCount p)) else 0)
           + (if enc = UA_FIELDENCODING_VARIANT
              then \<Sum>f \<leftarrow> take n (key_fields p). calc T VARIANT_TYPE (VVariant (field_value f))
              else if enc = UA_FIELDENCODING_DATAVALUE
              then \<Sum>f \<leftarrow> take n (key_fields p). calc T DATAVALUE_TYPE (VDataValue f)
              else 0)
         else if type = UA_DATASETMESSAGE_DATADELTAFRAME then
           (if enc \<noteq> UA_FIELDENCODING_RAWDATA then calc T UINT16_TYPE (VUInt16 (fieldCount p)) else 0)
           + (if enc = UA_FIELDENCODING_VARIANT
              then \<Sum>f \<leftarrow> take n (delta_fields p).
                     calc T UINT16_TYPE (VUInt16 (fst f)) + calc T VARIANT_TYPE (VVariant (field_value (snd f)))
              else if enc = UA_FIELDENCODING_DATAVALUE
              then \<Sum>f \<leftarrow> take n (delta_fields p).
                     calc T UINT16_TYPE (VUInt16 (fst f)) + calc T DATAVALUE_TYPE (VDataValue (snd f))
              else 0)
         else 0))"

subsection \<open>NetworkMessages\<close>

abbreviation (input) NM_VERSION_MASK :: u8 where "NM_VERSION_MASK \<equiv> 15"
abbreviation (input) NM_PUBLISHER_ID_ENABLED_MASK :: u8 where "NM_PUBLISHER_ID_ENABLED_MASK \<equiv> 16"
abbreviation (input) NM_GROUP_HEADER_ENABLED_MASK :: u8 where "NM_GROUP_HEADER_ENABLED_MASK \<equiv> 32"
abbreviation (input) NM_PAYLOAD_HEADER_ENABLED_MASK :: u8 where "NM_PAYLOAD_HEADER_ENABLED_MASK \<equiv> 64"
abbreviation (input) NM_EXTENDEDFLAGS1_ENABLED_MASK :: u8 where "NM_EXTENDEDFLAGS1_ENABLED_MASK \<equiv> 128"
abbreviation (input) NM_PUBLISHER_ID_MASK :: u8 where "NM_PUBLISHER_ID_MASK \<equiv> 7"
abbreviation (input) NM_DATASET_CLASSID_ENABLED_MASK :: u8 where "NM_DATASET_CLASSID_ENABLED_MASK \<equiv> 8"
abbreviation (input) NM_SECURITY_ENABLED_MASK :: u8 where "NM_SECURITY_ENABLED_MASK \<equiv> 16"
abbreviation (input) NM_TIMESTAMP_ENABLED_MASK :: u8 where "NM_TIMESTAMP_ENABLED_MASK \<equiv> 32"
abbreviation (input) NM_PICOSECONDS_ENABLED_MASK :: u8 where "NM_PICOSECONDS_ENABLED_MASK \<equiv> 64"
abbreviation (input) NM_EXTENDEDFLAGS2_ENABLED_MASK :: u8 where "NM_EXTENDEDFLAGS2_ENABLED_MASK \<equiv> 128"
abbreviation (input) NM_NETWORK_MSG_TYPE_MASK :: u8 where "NM_NETWORK_MSG_TYPE_MASK \<equiv> 28"
abbreviation (input) NM_CHUNK_MESSAGE_MASK :: u8 where "NM_CHUNK_MESSAGE_MASK \<equiv> 1"
abbreviation (input) NM_PROMOTEDFIELDS_ENABLED_MASK :: u8 where "NM_PROMOTEDFIELDS_ENABLED_MASK \<equiv> 2"
abbreviation (input) GROUP_HEADER_WRITER_GROUPID_ENABLED :: u8 where "GROUP_HEADER_WRITER_GROUPID_ENABLED \<equiv> 1"
abbreviation (input) GROUP_HEADER_GROUP_VERSION_ENABLED :: u8 where "GROUP_HEADER_GROUP_VERSION_ENABLED \<equiv> 2"
abbreviation (input) GROUP_HEADER_NM_NUMBER_ENABLED :: u8 where "GROUP_HEADER_NM_NUMBER_ENABLED \<equiv> 4"
abbreviation (input) GROUP_HEADER_SEQUENCE_NUMBER_ENABLED :: u8 where "GROUP_HEADER_SEQUENCE_NUMBER_ENABLED \<equiv> 8"
abbreviation (input) SECURITY_HEADER_NM_SIGNED :: u8 where "SECURITY_HEADER_NM_SIGNED \<equiv> 1"
abbreviation (input) SECURITY_HEADER_NM_ENCRYPTED :: u8 where "SECURITY_HEADER_NM_ENCRYPTED \<equiv> 2"
abbreviation (input) SECURITY_HEADER_SEC_FOOTER_ENABLED :: u8 where "SECURITY_HEADER_SEC_FOOTER_ENABLED \<equiv> 4"
abbreviation (input) SECURITY_HEADER_FORCE_KEY_RESET :: u8 where "SECURITY_HEADER_FORCE_KEY_RESET \<equiv> 8"
abbreviation (input) UA_NETWORKMESSAGE_DATASET :: u8 where "UA_NETWORKMESSAGE_DATASET \<equiv> 0"

text \<open>The union of publisher identifiers with \<open>publisherIdType\<close> as its tag.\<close>

datatype publisher_id =
    PublisherIdByte u8
  | PublisherIdUInt16 u16
  | PublisherIdUInt32 u32
  | PublisherIdUInt64 u64
  | PublisherIdString ustring
  | PublisherIdInvalid u8

fun publisherIdType :: "publisher_id \<Rightarrow> u8" where
  "publisherIdType (PublisherIdByte x) = 0"
| "publisherIdType (PublisherIdUInt16 x) = 1"
| "publisherIdType (PublisherIdUInt32 x) = 2"
| "publisherIdType (PublisherIdUInt64 x) = 3"
| "publisherIdType (PublisherIdString x) = 4"
| "publisherIdType (PublisherIdInvalid t) = t"

record group_header =
  writerGroupId :: "u16 option"
  groupVersion :: "u32 option"
  networkMessageNumber :: "u16 option"
  sequenceNumber :: "u16 option"

record payload_header =
  count :: u8
  dataSetWriterIds :: "u16 list option"

record security_header =
  networkMessageSigned :: bool
  networkMessageEncrypted :: bool
  forceKeyReset :: bool
  securityTokenId :: u32
  nonceLength :: u8
  messageNonce :: ustring
  securityFooterSize :: "u16 option"

record network_message =
  version :: u8
  publisherIdEnabled :: bool
  publisherId :: publisher_id
  chunkMessage :: bool
  networkMessageType :: u8
  dataSetClassId :: "guid option"
  groupHeader :: "group_header option"
  payloadHeader :: "payload_header option"
  timestamp :: "u64 option"
  picoseconds :: "u16 option"
  promotedFields :: "variant list option"
  securityHeader :: "security_header option"
  sizes :: "u16 list option"
  dataSetMessages :: "ds_message list"
  securityFooter :: ustring
  signature :: ustring

definition NetworkMessage_init :: network_message where
  "NetworkMessage_init =
     \<lparr>version = 0, publisherIdEnabled = False, publisherId = PublisherIdByte 0, chunkMessage = False,
      networkMessageType = UA_NETWORKMESSAGE_DATASET, dataSetClassId = None, groupHeader = None,
      payloadHeader = None, timestamp = None, picoseconds = None, promotedFields = None,
      securityHeader = None, sizes = None, dataSetMessages = [], securityFooter = None, signature = None\<rparr>"

definition UA_NetworkMessage_ExtendedFlags2Enabled :: "network_message \<Rightarrow> bool" where
  "UA_NetworkMessage_ExtendedFlags2Enabled src \<longleftrightarrow>
     chunkMessage src \<or> promotedFields src \<noteq> None \<or> networkMessageType src \<noteq> UA_NETWORKMESSAGE_DATASET"

definition UA_NetworkMessage_ExtendedFlags1Enabled :: "network_message \<Rightarrow> bool" where
  "UA_NetworkMessage_ExtendedFlags1Enabled src \<longleftrightarrow>
     publisherIdType (publisherId src) \<noteq> 0 \<or> dataSetClassId src \<noteq> None \<or> securityHeader src \<noteq> None
     \<or> timestamp src \<noteq> None \<or> picoseconds src \<noteq> None \<or> UA_NetworkMessage_ExtendedFlags2Enabled src"

subsubsection \<open>Encoding\<close>

definition nm_flags :: "network_message \<Rightarrow> u8" where
  "nm_flags src =
     version src
       OR flag (publisherIdEnabled src) NM_PUBLISHER_ID_ENABLED_MASK
       OR flag (groupHeader src \<noteq> None) NM_GROUP_HEADER_ENABLED_MASK
       OR flag (payloadHeader src \<noteq> None) NM_PAYLOAD_HEADER_ENABLED_MASK
       OR flag (UA_NetworkMessage_ExtendedFlags1Enabled src) NM_EXTENDEDFLAGS1_ENABLED_MASK"

definition nm_extended_flags1 :: "network_message \<Rightarrow> u8" where
  "nm_extended_flags1 src =
     publisherIdType (publisherId src)
       OR flag (dataSetClassId src \<noteq> None) NM_DATASET_CLASSID_ENABLED_MASK
       OR flag (securityHeader src \<noteq> None) NM_SECURITY_ENABLED_MASK
       OR flag (timestamp src \<noteq> None) NM_TIMESTAMP_ENABLED_MASK
       OR flag (picoseconds src \<noteq> None) NM_PICOSECONDS_ENABLED_MASK
       OR flag (UA_NetworkMessage_ExtendedFlags2Enabled src) NM_EXTENDEDFLAGS2_ENABLED_MASK"

definition nm_extended_flags2 :: "network_message \<Rightarrow> u8" where
  "nm_extended_flags2 src =
     push_bit 2 (networkMessageType src)
       OR flag (chunkMessage src) NM_CHUNK_MESSAGE_MASK
       OR flag (promotedFields src \<noteq> None) NM_PROMOTEDFIELDS_ENABLED_MASK"

definition encode_nm_flags :: "types \<Rightarrow> network_message \<Rightarrow> estep" where
  "encode_nm_flags T src =
     run_steps
       [store T BYTE_TYPE (VByte (nm_flags src)),
        whenE (UA_NetworkMessage_ExtendedFlags1Enabled src)
          (run_steps
            [store T BYTE_TYPE (VByte (nm_extended_flags1 src)),
             whenE (UA_NetworkMessage_ExtendedFlags2Enabled src) (store T BYTE_TYPE (VByte (nm_extended_flags2 src)))])]"

fun encode_publisherId :: "types \<Rightarrow> publisher_id \<Rightarrow> estep" where
  "encode_publisherId T (PublisherIdByte x) = store T BYTE_TYPE (VByte x)"
| "encode_publisherId T (PublisherIdUInt16 x) = store T UINT16_TYPE (VUInt16 x)"
| "encode_publisherId T (PublisherIdUInt32 x) = store T UINT32_TYPE (VUInt32 x)"
| "encode_publisherId T (PublisherIdUInt64 x) = store T UINT64_TYPE (VUInt64 x)"
| "encode_publisherId T (PublisherIdString x) = store T STRING_TYPE (VString x)"
| "encode_publisherId T (PublisherIdInvalid t) = returnE BADINTERNALERROR"

definition gh_flags :: "group_header \<Rightarrow> u8" where
  "gh_flags g =
     flag (writerGroupId g \<noteq> None) GROUP_HEADER_WRITER_GROUPID_ENABLED
       OR flag (groupVersion g \<noteq> None) GROUP_HEADER_GROUP_VERSION_ENABLED
       OR flag (networkMessageNumber g \<noteq> None) GROUP_HEADER_NM_NUMBER_ENABLED
       OR flag (sequenceNumber g \<noteq> None) GROUP_HEADER_SEQUENCE_NUMBER_ENABLED"

definition encode_groupHeader :: "types \<Rightarrow> group_header \<Rightarrow> estep" where
  "encode_groupHeader T g =
     run_steps
       [store T BYTE_TYPE (VByte (gh_flags g)),
        optE (\<lambda>x. store T UINT16_TYPE (VUInt16 x)) (writerGroupId g),
        optE (\<lambda>x. store T UINT32_TYPE (VUInt32 x)) (groupVersion g),
        optE (\<lambda>x. store T UINT16_TYPE (VUInt16 x)) (networkMessageNumber g),
        optE (\<lambda>x. store T UINT16_TYPE (VUInt16 x)) (sequenceNumber g)]"

definition encode_payloadHeader :: "types \<Rightarrow> u8 \<Rightarrow> payload_header \<Rightarrow> estep" where
  "encode_payloadHeader T msgType p =
     run_steps
       [whenE (msgType \<noteq> UA_NETWORKMESSAGE_DATASET) (returnE BADNOTIMPLEMENTED),
        ignoreE (store T BYTE_TYPE (VByte (count p))),
        whenE (dataSetWriterIds p = None) (returnE BADENCODINGERROR),
        forE (unat (count p)) (at_index (arr_list (dataSetWriterIds p)) (\<lambda>x. store T UINT16_TYPE (VUInt16 x)))]"

text \<open>The size of the promoted fields is computed in a 16 bit variable.\<close>

definition promoted_size :: "types \<Rightarrow> variant list \<Rightarrow> u16" where
  "promoted_size T vs = fold (\<lambda>v n. n + of_nat (calc T VARIANT_TYPE (VVariant v))) vs 0"

definition encode_promotedFields :: "types \<Rightarrow> variant list \<Rightarrow> estep" where
  "encode_promotedFields T vs =
     run_steps
       (ignoreE (store T UINT16_TYPE (VUInt16 (promoted_size T vs)))
        # map (\<lambda>v. ignoreE (store T VARIANT_TYPE (VVariant v))) vs)"

definition sh_flags :: "security_header \<Rightarrow> u8" where
  "sh_flags s =
     flag (networkMessageSigned s) SECURITY_HEADER_NM_SIGNED
       OR flag (networkMessageEncrypted s) SECURITY_HEADER_NM_ENCRYPTED
       OR flag (securityFooterSize s \<noteq> None) SECURITY_HEADER_SEC_FOOTER_ENABLED
       OR flag (forceKeyReset s) SECURITY_HEADER_FORCE_KEY_RESET"

definition encode_securityHeader :: "types \<Rightarrow> security_header \<Rightarrow> estep" where
  "encode_securityHeader T s =
     run_steps
       [store T BYTE_TYPE (VByte (sh_flags s)),
        store T UINT32_TYPE (VUInt32 (securityTokenId s)),
        store T BYTE_TYPE (VByte (nonceLength s)),
        forE (unat (nonceLength s)) (at_index (arr_list (messageNonce s)) (\<lambda>x. store T BYTE_TYPE (VByte x))),
        optE (\<lambda>x. store T UINT16_TYPE (VUInt16 x)) (securityFooterSize s)]"

text \<open>The number of DataSetMessages: that of the payload header, or one without a payload header.\<close>

definition payload_count :: "payload_header option \<Rightarrow> u8" where
  "payload_count p = (case p of None \<Rightarrow> 1 | Some h \<Rightarrow> count h)"

definition payload_size :: "types \<Rightarrow> network_message \<Rightarrow> nat \<Rightarrow> ds_message \<Rightarrow> u16" where
  "payload_size T src i m =
     (if sizes src \<noteq> None \<and> arr_list (sizes src) ! i \<noteq> 0 then arr_list (sizes src) ! i
      else of_nat (UA_DataSetMessage_calcSizeBinary T m))"

definition encode_payload_size :: "types \<Rightarrow> network_message \<Rightarrow> nat \<Rightarrow> estep" where
  "encode_payload_size T src i =
     (if sizes src \<noteq> None \<and> length (arr_list (sizes src)) \<le> i then returnE MEMORY_FAULT
      else at_index (dataSetMessages src) (\<lambda>m. store T UINT16_TYPE (VUInt16 (payload_size T src i m))) i)"

definition encode_payload :: "types \<Rightarrow> network_message \<Rightarrow> estep" where
  "encode_payload T src =
     (let n = unat (payload_count (payloadHeader src)) in
      run_steps
        [whenE (payloadHeader src \<noteq> None \<and> n > 1) (forE n (encode_payload_size T src)),
         forE n (at_index (dataSetMessages src) (UA_DataSetMessage_encodeBinary T))])"

text \<open>
  The index of the loop over the security footer is a byte, the size has 16 bits. Every round writes a byte,
  so one round more than there is room is enough.
\<close>

fun footer_loop :: "nat \<Rightarrow> types \<Rightarrow> u16 \<Rightarrow> u8 list \<Rightarrow> u8 \<Rightarrow> estep" where
  "footer_loop 0 T sz bs i c = (OUT_OF_FUEL, c)"
| "footer_loop (Suc n) T sz bs i c =
     (if ucast i < sz then
        (let (ret, c1) = at_index bs (\<lambda>x. store T BYTE_TYPE (VByte x)) (unat i) c in
         if ret \<noteq> GOOD then (ret, c1) else footer_loop n T sz bs (i + 1) c1)
      else (GOOD, c))"

definition encode_footer :: "types \<Rightarrow> network_message \<Rightarrow> security_header \<Rightarrow> estep" where
  "encode_footer T src s =
     run_steps
       [optE (\<lambda>sz c. footer_loop (Suc (eroom c)) T sz (arr_list (securityFooter src)) 0 c) (securityFooterSize s),
        whenE (networkMessageSigned s) (store T BYTESTRING_TYPE (VString (signature src)))]"

definition UA_NetworkMessage_encodeBinary :: "types \<Rightarrow> network_message \<Rightarrow> estep" where
  "UA_NetworkMessage_encodeBinary T src =
     run_steps
       [encode_nm_flags T src,
        whenE (publisherIdEnabled src) (encode_publisherId T (publisherId src)),
        optE (\<lambda>g. store T GUID_TYPE (VGuid g)) (dataSetClassId src),
        optE (encode_groupHeader T) (groupHeader src),
        optE (encode_payloadHeader T (networkMessageType src)) (payloadHeader src),
        optE (\<lambda>x. ignoreE (store T DATETIME_TYPE (VUInt64 x))) (timestamp src),
        optE (\<lambda>x. ignoreE (store T UINT16_TYPE (VUInt16 x))) (picoseconds src),
        optE (encode_promotedFields T) (promotedFields src),
        optE (encode_securityHeader T) (securityHeader src),
        whenE (networkMessageType src \<noteq> UA_NETWORKMESSAGE_DATASET) (returnE BADNOTIMPLEMENTED),
        encode_payload T src,
        optE (encode_footer T src) (securityHeader src)]"

subsubsection \<open>Decoding\<close>

text \<open>The three flag bytes: the message with what they announce, the fields still empty.\<close>

record nm_announced =
  aVersion :: u8
  aPublisherId :: bool
  aGroupHeader :: bool
  aPayloadHeader :: bool
  aPublisherIdType :: u8
  aDataSetClassId :: bool
  aSecurity :: bool
  aTimestamp :: bool
  aPicoseconds :: bool
  aChunk :: bool
  aPromoted :: bool
  aType :: u8

definition nm_announced_init :: "u8 \<Rightarrow> nm_announced" where
  "nm_announced_init v =
     \<lparr>aVersion = v AND NM_VERSION_MASK, aPublisherId = has_flag v NM_PUBLISHER_ID_ENABLED_MASK,
      aGroupHeader = has_flag v NM_GROUP_HEADER_ENABLED_MASK,
      aPayloadHeader = has_flag v NM_PAYLOAD_HEADER_ENABLED_MASK,
      aPublisherIdType = 0, aDataSetClassId = False, aSecurity = False, aTimestamp = False,
      aPicoseconds = False, aChunk = False, aPromoted = False, aType = UA_NETWORKMESSAGE_DATASET\<rparr>"

definition nm_announce1 :: "u8 \<Rightarrow> nm_announced \<Rightarrow> nm_announced" where
  "nm_announce1 v a = a\<lparr>aPublisherIdType := v AND NM_PUBLISHER_ID_MASK,
     aDataSetClassId := has_flag v NM_DATASET_CLASSID_ENABLED_MASK, aSecurity := has_flag v NM_SECURITY_ENABLED_MASK,
     aTimestamp := has_flag v NM_TIMESTAMP_ENABLED_MASK, aPicoseconds := has_flag v NM_PICOSECONDS_ENABLED_MASK\<rparr>"

definition nm_announce2 :: "u8 \<Rightarrow> nm_announced \<Rightarrow> nm_announced" where
  "nm_announce2 v a = a\<lparr>aChunk := has_flag v NM_CHUNK_MESSAGE_MASK,
     aPromoted := has_flag v NM_PROMOTEDFIELDS_ENABLED_MASK,
     aType := drop_bit 2 (v AND NM_NETWORK_MSG_TYPE_MASK)\<rparr>"

definition decode_nm_flags :: "types \<Rightarrow> nm_announced pdecoder" where
  "decode_nm_flags T =
     pbind (fetch_byte T) (\<lambda>v.
       if has_flag v NM_EXTENDEDFLAGS1_ENABLED_MASK then
         pbind (fetch_byte T) (\<lambda>v1.
           if has_flag v1 NM_EXTENDEDFLAGS2_ENABLED_MASK then
             pbind (fetch_byte T) (\<lambda>v2. preturn (nm_announce2 v2 (nm_announce1 v1 (nm_announced_init v))))
           else preturn (nm_announce1 v1 (nm_announced_init v)))
       else preturn (nm_announced_init v))"

definition decode_publisherId :: "types \<Rightarrow> u8 \<Rightarrow> publisher_id pdecoder" where
  "decode_publisherId T t =
     (if t = 0 then fetch T BYTE_TYPE (\<lambda>v. PublisherIdByte (the_byte v))
      else if t = 1 then fetch T UINT16_TYPE (\<lambda>v. PublisherIdUInt16 (the_u16 v))
      else if t = 2 then fetch T UINT32_TYPE (\<lambda>v. PublisherIdUInt32 (the_u32 v))
      else if t = 3 then fetch T UINT64_TYPE (\<lambda>v. PublisherIdUInt64 (the_u64 v))
      else if t = 4 then fetch T STRING_TYPE (\<lambda>v. PublisherIdString (the_string v))
      else pfail BADINTERNALERROR)"

text \<open>Without the enable flag the union keeps the zeros of the initialisation.\<close>

definition null_publisherId :: "u8 \<Rightarrow> publisher_id" where
  "null_publisherId t =
     (if t = 0 then PublisherIdByte 0 else if t = 1 then PublisherIdUInt16 0
      else if t = 2 then PublisherIdUInt32 0 else if t = 3 then PublisherIdUInt64 0
      else if t = 4 then PublisherIdString None else PublisherIdInvalid t)"

definition decode_groupHeader :: "types \<Rightarrow> group_header pdecoder" where
  "decode_groupHeader T =
     pbind (fetch_byte T) (\<lambda>v.
     pbind (popt (has_flag v GROUP_HEADER_WRITER_GROUPID_ENABLED) (fetch_u16 T)) (\<lambda>wid.
     pbind (popt (has_flag v GROUP_HEADER_GROUP_VERSION_ENABLED) (fetch_u32 T)) (\<lambda>ver.
     pbind (popt (has_flag v GROUP_HEADER_NM_NUMBER_ENABLED) (fetch_u16 T)) (\<lambda>num.
     pbind (popt (has_flag v GROUP_HEADER_SEQUENCE_NUMBER_ENABLED) (fetch_u16 T)) (\<lambda>seqnr.
     preturn \<lparr>writerGroupId = wid, groupVersion = ver, networkMessageNumber = num, sequenceNumber = seqnr\<rparr>)))))"

definition decode_payloadHeader :: "types \<Rightarrow> u8 \<Rightarrow> payload_header pdecoder" where
  "decode_payloadHeader T msgType =
     (if msgType \<noteq> UA_NETWORKMESSAGE_DATASET then pfail BADNOTIMPLEMENTED
      else
        pbind (fetch_byte T) (\<lambda>n.
        pbind (prepeat (unat n) (fetch_u16 T)) (\<lambda>ids.
        preturn \<lparr>count = n, dataSetWriterIds = Some ids\<rparr>)))"

text \<open>
  The loop decodes at least one field and goes on while the end of the promoted fields is not reached. Every
  field has at least one byte, so as many rounds as the fields have bytes are enough.
\<close>

fun promoted_loop :: "nat \<Rightarrow> types \<Rightarrow> nat \<Rightarrow> variant list pdecoder" where
  "promoted_loop 0 T offsetEnd = pfail OUT_OF_FUEL"
| "promoted_loop (Suc n) T offsetEnd =
     pbind (fetch T VARIANT_TYPE the_variant) (\<lambda>v src offset.
       if offset < offsetEnd
       then pbind (promoted_loop n T offsetEnd) (\<lambda>vs. preturn (v # vs)) src offset
       else preturn [v] src offset)"

definition decode_promotedFields :: "types \<Rightarrow> variant list pdecoder" where
  "decode_promotedFields T =
     pbind (fetch_u16 T) (\<lambda>sz src offset.
       if sz > 0 then promoted_loop (unat sz) T (offset + unat sz) src offset
       else preturn [] src offset)"

definition decode_securityHeader :: "types \<Rightarrow> security_header pdecoder" where
  "decode_securityHeader T =
     pbind (fetch_byte T) (\<lambda>v.
     pbind (fetch_u32 T) (\<lambda>token.
     pbind (fetch_byte T) (\<lambda>n.
     pbind (popt (n > 0) (prepeat (unat n) (fetch_byte T))) (\<lambda>nonce.
     pbind (popt (has_flag v SECURITY_HEADER_SEC_FOOTER_ENABLED) (fetch_u16 T)) (\<lambda>footer.
     preturn
       \<lparr>networkMessageSigned = has_flag v SECURITY_HEADER_NM_SIGNED,
        networkMessageEncrypted = has_flag v SECURITY_HEADER_NM_ENCRYPTED,
        forceKeyReset = has_flag v SECURITY_HEADER_FORCE_KEY_RESET,
        securityTokenId = token, nonceLength = n, messageNonce = nonce, securityFooterSize = footer\<rparr>)))))"

definition decode_payload :: "types \<Rightarrow> payload_header option \<Rightarrow> (u16 list option \<times> ds_message list) pdecoder" where
  "decode_payload T p =
     (let n = unat (payload_count p) in
      pbind (popt (p \<noteq> None \<and> n > 1) (prepeat n (fetch_u16 T))) (\<lambda>szs.
      pbind (prepeat n (UA_DataSetMessage_decodeBinary T)) (\<lambda>ms.
      preturn (szs, ms))))"

text \<open>
  Also here the index is a byte. The bytes overwrite the buffer of the size of the footer at the index; since every
  round takes a byte of the input, one round more than there is input is enough.
\<close>

fun footer_decode_loop :: "nat \<Rightarrow> types \<Rightarrow> u16 \<Rightarrow> u8 list \<Rightarrow> u8 \<Rightarrow> u8 list pdecoder" where
  "footer_decode_loop 0 T sz bs i = pfail OUT_OF_FUEL"
| "footer_decode_loop (Suc n) T sz bs i =
     (if ucast i < sz
      then pbind (fetch_byte T) (\<lambda>b. footer_decode_loop n T sz (bs[unat i := b]) (i + 1))
      else preturn bs)"

definition decode_footer :: "types \<Rightarrow> security_header \<Rightarrow> (ustring \<times> ustring) pdecoder" where
  "decode_footer T s =
     pbind (case securityFooterSize s of
              None \<Rightarrow> preturn None
            | Some sz \<Rightarrow>
                popt (sz > 0) (\<lambda>src offset.
                  footer_decode_loop (Suc (length src - offset)) T sz (replicate (unat sz) 0) 0 src offset)) (\<lambda>footer.
     pbind (if networkMessageSigned s then fetch T BYTESTRING_TYPE the_string else preturn None) (\<lambda>sig.
     preturn (footer, sig)))"

definition UA_NetworkMessage_decodeBinaryInternal :: "types \<Rightarrow> network_message pdecoder" where
  "UA_NetworkMessage_decodeBinaryInternal T =
     pbind (decode_nm_flags T) (\<lambda>a.
     pbind (if aPublisherId a then decode_publisherId T (aPublisherIdType a)
            else preturn (null_publisherId (aPublisherIdType a))) (\<lambda>pid.
     pbind (popt (aDataSetClassId a) (fetch T GUID_TYPE the_guid)) (\<lambda>cid.
     pbind (popt (aGroupHeader a) (decode_groupHeader T)) (\<lambda>gh.
     pbind (popt (aPayloadHeader a) (decode_payloadHeader T (aType a))) (\<lambda>ph.
     pbind (popt (aTimestamp a) (fetch T DATETIME_TYPE the_u64)) (\<lambda>ts.
     pbind (popt (aPicoseconds a) (fetch_u16 T)) (\<lambda>ps.
     pbind (popt (aPromoted a) (decode_promotedFields T)) (\<lambda>pf.
     pbind (popt (aSecurity a) (decode_securityHeader T)) (\<lambda>sh.
     pbind (if aType a \<noteq> UA_NETWORKMESSAGE_DATASET then pfail BADNOTIMPLEMENTED else preturn ()) (\<lambda>_.
     pbind (decode_payload T ph) (\<lambda>(szs, ms).
     pbind (case sh of None \<Rightarrow> preturn (None, None) | Some s \<Rightarrow> decode_footer T s) (\<lambda>(footer, sig).
     preturn
       \<lparr>version = aVersion a, publisherIdEnabled = aPublisherId a, publisherId = pid, chunkMessage = aChunk a,
        networkMessageType = aType a, dataSetClassId = cid, groupHeader = gh, payloadHeader = ph,
        timestamp = ts, picoseconds = ps, promotedFields = pf, securityHeader = sh,
        sizes = szs, dataSetMessages = ms, securityFooter = footer, signature = sig\<rparr>))))))))))))"

text \<open>\<open>UA_NetworkMessage_deleteMembers\<close> leaves a cleared message behind.\<close>

definition UA_NetworkMessage_decodeBinary :: "types \<Rightarrow> u8 list \<Rightarrow> nat \<Rightarrow> status \<times> network_message \<times> nat" where
  "UA_NetworkMessage_decodeBinary T src offset =
     (case UA_NetworkMessage_decodeBinaryInternal T src offset of
        (Inr m, o1) \<Rightarrow> (GOOD, m, o1)
      | (Inl ret, o1) \<Rightarrow> (ret, NetworkMessage_init, o1))"

subsubsection \<open>Computing the size\<close>

fun publisherId_size :: "types \<Rightarrow> publisher_id \<Rightarrow> nat" where
  "publisherId_size T (PublisherIdByte x) = calc T BYTE_TYPE (VByte x)"
| "publisherId_size T (PublisherIdUInt16 x) = calc T UINT16_TYPE (VUInt16 x)"
| "publisherId_size T (PublisherIdUInt32 x) = calc T UINT32_TYPE (VUInt32 x)"
| "publisherId_size T (PublisherIdUInt64 x) = calc T UINT64_TYPE (VUInt64 x)"
| "publisherId_size T (PublisherIdString x) = calc T STRING_TYPE (VString x)"
| "publisherId_size T (PublisherIdInvalid t) = 0"

definition groupHeader_size :: "types \<Rightarrow> group_header \<Rightarrow> nat" where
  "groupHeader_size T g =
     calc T BYTE_TYPE (VByte 0) + opt_calc T UINT16_TYPE VUInt16 (writerGroupId g)
       + opt_calc T UINT32_TYPE VUInt32 (groupVersion g) + opt_calc T UINT16_TYPE VUInt16 (networkMessageNumber g)
       + opt_calc T UINT16_TYPE VUInt16 (sequenceNumber g)"

definition securityHeader_size :: "types \<Rightarrow> security_header \<Rightarrow> nat" where
  "securityHeader_size T s =
     calc T BYTE_TYPE (VByte 0) + calc T UINT32_TYPE (VUInt32 (securityTokenId s))
       + calc T BYTE_TYPE (VByte (nonceLength s)) + calc T BYTE_TYPE (VByte 0) * unat (nonceLength s)
       + opt_calc T UINT16_TYPE VUInt16 (securityFooterSize s)"

definition payload_calcSize :: "types \<Rightarrow> network_message \<Rightarrow> nat" where
  "payload_calcSize T p =
     (let n = unat (payload_count (payloadHeader p)) in
      (if payloadHeader p \<noteq> None \<and> n > 1 then calc T UINT16_TYPE (VUInt16 0) * n else 0)
        + (\<Sum>m \<leftarrow> take n (dataSetMessages p). UA_DataSetMessage_calcSizeBinary T m))"

definition footer_size :: "types \<Rightarrow> network_message \<Rightarrow> security_header \<Rightarrow> nat" where
  "footer_size T p s =
     (case securityFooterSize s of None \<Rightarrow> 0 | Some sz \<Rightarrow> unat sz)
       + (if networkMessageSigned s then calc T BYTESTRING_TYPE (VString (signature p)) else 0)"

definition opt_sum :: "('a \<Rightarrow> nat) \<Rightarrow> 'a option \<Rightarrow> nat" where
  "opt_sum f x = (case x of None \<Rightarrow> 0 | Some y \<Rightarrow> f y)"

definition UA_NetworkMessage_calcSizeBinary :: "types \<Rightarrow> network_message \<Rightarrow> nat" where
  "UA_NetworkMessage_calcSizeBinary T p =
     (if networkMessageType p = UA_NETWORKMESSAGE_DATASET
         \<and> (case payloadHeader p of None \<Rightarrow> False | Some h \<Rightarrow> dataSetWriterIds h = None) then 0
      else
        calc T BYTE_TYPE (VByte 0)
        + (if UA_NetworkMessage_ExtendedFlags1Enabled p
           then calc T BYTE_TYPE (VByte 0)
                + (if UA_NetworkMessage_ExtendedFlags2Enabled p then calc T BYTE_TYPE (VByte 0) else 0)
           else 0)
        + (if publisherIdEnabled p then publisherId_size T (publisherId p) else 0)
        + opt_calc T GUID_TYPE VGuid (dataSetClassId p)
        + opt_sum (groupHeader_size T) (groupHeader p)
        + (if networkMessageType p = UA_NETWORKMESSAGE_DATASET
           then opt_sum (\<lambda>h. calc T BYTE_TYPE (VByte (count h)) + calc T UINT16_TYPE (VUInt16 0) * unat (count h))
                  (payloadHeader p)
           else 0)
        + opt_calc T DATETIME_TYPE VUInt64 (timestamp p)
        + opt_calc T UINT16_TYPE VUInt16 (picoseconds p)
        + opt_sum (\<lambda>vs. calc T UINT16_TYPE (VUInt16 0) + (\<Sum>v \<leftarrow> vs. calc T VARIANT_TYPE (VVariant v))) (promotedFields p)
        + opt_sum (securityHeader_size T) (securityHeader p)
        + (if networkMessageType p = UA_NETWORKMESSAGE_DATASET then payload_calcSize T p else 0)
        + opt_sum (footer_size T p) (securityHeader p))"

end
