(* ===== verification/Binary_Generic_Safety.thy ===== *)
theory Binary_Generic_Safety
  imports Binary_Generic
begin

text \<open>
  The generic decoder on arbitrary input. Whatever the bytes and the type tables are, decoding ends: the
  recursion is bounded by the limit on the depth and the number of bytes, so the fuel of \<open>decode_jump\<close> is never used
  up. The position moves forward only and stays within the buffer up to four bytes, the length field of an
  ExtensionObject that the code skips without a check. \<open>sound\<close> states both for one decoder, from the
  contexts on which a decoder that it calls is sound; \<open>need\<close> is the measure of a context.
\<close>

subsection \<open>Sound results\<close>

definition status_ok :: "status \<Rightarrow> bool" where
  "status_ok r \<longleftrightarrow> r AND 0xFFFF = 0"

definition moves :: "dctx \<Rightarrow> dctx \<Rightarrow> bool" where
  "moves c c' \<longleftrightarrow> dbuf c' = dbuf c \<and> ddepth c' = ddepth c \<and> dpos c \<le> dpos c'
     \<and> dpos c' \<le> max (dpos c) (length (dbuf c) + 4)"

definition okres :: "dctx \<Rightarrow> status \<times> 'a \<times> dctx \<Rightarrow> bool" where
  "okres c res \<longleftrightarrow> status_ok (fst res) \<and> moves c (snd (snd res))"

definition need :: "dctx \<Rightarrow> nat" where
  "need c = (Suc UA_ENCODING_MAX_RECURSION - ddepth c) + (length (dbuf c) - dpos c)"

definition sound :: "nat \<Rightarrow> 'a decoder \<Rightarrow> bool" where
  "sound n d \<longleftrightarrow> (\<forall>c. need c < n \<longrightarrow> okres c (d c))"

named_theorems sound_rules "decoders that are sound on every context"

lemma status_ok_simps [simp]:
  "status_ok GOOD" "status_ok BADDECODINGERROR" "status_ok BADENCODINGERROR" "\<not> status_ok OUT_OF_FUEL"
  by (simp_all add: status_ok_def OUT_OF_FUEL_def)

lemma status_ok_OR [simp]: "status_ok (a OR b) \<longleftrightarrow> status_ok a \<and> status_ok b"
  by (simp add: status_ok_def bit_simps bit_eq_iff) blast

lemma moves_refl [simp]: "moves c c"
  by (simp add: moves_def)

lemma moves_trans: "moves a b \<Longrightarrow> moves b c \<Longrightarrow> moves a c"
  by (auto simp: moves_def max_def split: if_splits)

lemma moves_need: "moves c c' \<Longrightarrow> need c' \<le> need c"
  by (auto simp: moves_def need_def)

lemma sound_mono: "sound n d \<Longrightarrow> m \<le> n \<Longrightarrow> sound m d"
  by (simp add: sound_def)

lemma sound_get: "sound n (get k f i)"
  by (auto simp: sound_def okres_def get_def moves_def)

lemma okres_dmap [simp]: "okres c (dmap f d c) \<longleftrightarrow> okres c (d c)"
  by (simp add: okres_def dmap_def split_def Let_def)

lemma okres_stop [simp]: "okres c (r, x, c') \<longleftrightarrow> status_ok r \<and> moves c c'"
  by (simp add: okres_def)

lemma soundI: "(\<And>c. need c < n \<Longrightarrow> okres c (d c)) \<Longrightarrow> sound n d"
  by (simp add: sound_def)

text \<open>The form in which the results of the calls in a decoder are used.\<close>

lemma soundD: "sound n d \<Longrightarrow> d c = (r, x, c') \<Longrightarrow> need c < n \<Longrightarrow> status_ok r \<and> moves c c'"
  by (force simp: sound_def)

lemma need_less: "moves c c' \<Longrightarrow> need c < n \<Longrightarrow> need c' < n"
  using moves_need order_le_less_trans by blast

subsection \<open>Basic types\<close>

lemma sound_ints [sound_rules]:
  "sound n Boolean_decodeBinary" "sound n Byte_decodeBinary" "sound n UInt16_decodeBinary"
  "sound n UInt32_decodeBinary" "sound n UInt64_decodeBinary"
  by (simp_all add: Boolean_decodeBinary_def Byte_decodeBinary_def UInt16_decodeBinary_def UInt32_decodeBinary_def
      UInt64_decodeBinary_def sound_get)

lemma sound_elements:
  assumes "sound n d"
  shows "sound n (decode_elements d k)"
proof (induction k)
  case 0
  then show ?case by (simp add: sound_def)
next
  case (Suc k)
  show ?case
  proof (rule soundI)
    fix c :: dctx assume c: "need c < n"
    obtain r x c1 where d: "d c = (r, x, c1)" by (metis prod_cases3)
    obtain r2 xs c2 where e: "decode_elements d k c1 = (r2, xs, c2)" by (metis prod_cases3)
    show "okres c (decode_elements d (Suc k) c)"
      using d e soundD [OF assms d c] soundD [OF Suc e] need_less [OF _ c]
      by (auto intro: moves_trans)
  qed
qed

lemma sound_array:
  assumes "sound n d"
  shows "sound n (Array_decodeBinary ov m rd d)"
proof (rule soundI)
  fix c :: dctx assume c: "need c < n"
  obtain r l c1 where l: "UInt32_decodeBinary c = (r, l, c1)" by (metis prod_cases3)
  obtain r2 xs c2 where e: "decode_elements d (unat l) c1 = (r2, xs, c2)" by (metis prod_cases3)
  have 1: "status_ok r \<and> moves c c1"
    using soundD [OF sound_ints(4) l c] .
  then have 2: "status_ok r2 \<and> moves c1 c2"
    using soundD [OF sound_elements [OF assms] e] need_less [OF _ c] by blast
  have "moves c1 (c1\<lparr>dpos := p\<rparr>)" if "dpos c1 \<le> p" "p \<le> length (dbuf c1)" for p
    using that by (simp add: moves_def)
  with 1 2 show "okres c (Array_decodeBinary ov m rd d c)"
    by (auto simp: Array_decodeBinary_def l e Let_def intro: moves_trans)
qed

lemma sound_String [sound_rules]: "sound n String_decodeBinary"
  by (simp add: String_decodeBinary_def sound_array sound_rules)

lemma always_sound: "(\<And>n. sound n d) \<Longrightarrow> d c = (r, x, c') \<Longrightarrow> status_ok r \<and> moves c c'"
  using soundD [of "Suc (need c)" d c r x c'] by simp

lemma always_okres: "(\<And>n. sound n d) \<Longrightarrow> okres c (d c)"
proof -
  assume "\<And>n. sound n d"
  from this [of "Suc (need c)"] show ?thesis by (simp add: sound_def)
qed

lemmas leaf_run = always_sound [OF sound_ints(1)] always_sound [OF sound_ints(2)] always_sound [OF sound_ints(3)]
  always_sound [OF sound_ints(4)] always_sound [OF sound_ints(5)] always_sound [OF sound_String]

lemma sound_run: "(\<And>c r x c'. d c = (r, x, c') \<Longrightarrow> status_ok r \<and> moves c c') \<Longrightarrow> sound n d"
  by (auto simp: sound_def okres_def) (metis prod.collapse)+

lemma status_ok_internal [simp]: "status_ok BADINTERNALERROR"
  by (simp add: status_ok_def)

lemma moves_advance: "dpos c \<le> p \<Longrightarrow> p \<le> length (dbuf c) + 4 \<Longrightarrow> moves c (c\<lparr>dpos := p\<rparr>)"
  by (simp add: moves_def)

lemma sound_Guid [sound_rules]: "sound n Guid_decodeBinary"
  by (rule sound_run)
     (auto simp: Guid_decodeBinary_def split: prod.splits if_splits dest!: leaf_run
       intro: moves_trans intro!: moves_trans [OF _ moves_advance])

lemmas id_run = leaf_run always_sound [OF sound_Guid]

lemma sound_NodeId [sound_rules]: "sound n NodeId_decodeBinary"
  by (rule sound_run)
     (auto simp: NodeId_decodeBinary_def Let_def split: prod.splits if_splits dest!: id_run intro: moves_trans)

lemma sound_ExpandedNodeId [sound_rules]: "sound n ExpandedNodeId_decodeBinary"
  by (rule sound_run)
     (auto simp: ExpandedNodeId_decodeBinary_def Let_def split: prod.splits if_splits
       dest!: id_run always_sound [OF sound_NodeId] intro: moves_trans)

lemma sound_QualifiedName [sound_rules]: "sound n QualifiedName_decodeBinary"
  by (rule sound_run)
     (auto simp: QualifiedName_decodeBinary_def split: prod.splits dest!: id_run intro: moves_trans)

lemma sound_LocalizedText [sound_rules]: "sound n LocalizedText_decodeBinary"
  by (rule sound_run)
     (auto simp: LocalizedText_decodeBinary_def split: prod.splits if_splits dest!: id_run intro: moves_trans)

subsection \<open>Structures\<close>

lemma sound_dmap [sound_rules]: "sound n d \<Longrightarrow> sound n (dmap f d)"
  by (simp add: sound_def)

lemma sound_decode_array: "(\<And>r. sound n (dec r)) \<Longrightarrow> sound n (decode_array dec T r)"
  by (simp add: decode_array_def sound_array)

lemma sound_members:
  assumes "\<And>r. sound n (dec r)"
  shows "sound n (decode_members dec T r ms)"
proof (induction ms)
  case Nil
  then show ?case by (simp add: sound_def)
next
  case (Cons m ms)
  show ?case
  proof (rule soundI)
    fix c :: dctx assume c: "need c < n"
    let ?d = "if misArray m then dmap FArray (decode_array dec T (membertype r m)) else dmap FScalar (dec (membertype r m))"
    obtain r1 f c1 where d: "?d c = (r1, f, c1)" by (metis prod_cases3)
    obtain r2 fs c2 where e: "decode_members dec T r ms c1 = (r2, fs, c2)" by (metis prod_cases3)
    have "sound n ?d"
      using assms by (simp add: sound_dmap sound_decode_array)
    from soundD [OF this d c] soundD [OF Cons e] need_less [OF _ c] d e
    show "okres c (decode_members dec T r (m # ms) c)"
      by (auto intro: moves_trans split: if_splits)
  qed
qed

text \<open>One level deeper the measure is smaller.\<close>

lemma need_deeper: "ddepth c \<le> UA_ENCODING_MAX_RECURSION \<Longrightarrow> need c < Suc n \<Longrightarrow> need (c\<lparr>ddepth := Suc (ddepth c)\<rparr>) < n"
  by (simp add: need_def)

lemma moves_back: "moves (c\<lparr>ddepth := Suc (ddepth c)\<rparr>) c' \<Longrightarrow> moves c (c'\<lparr>ddepth := ddepth c' - Suc 0\<rparr>)"
  by (simp add: moves_def)

lemma sound_internal:
  assumes "\<And>r. sound n (dec r)"
  shows "sound (Suc n) (decodeBinaryInternal dec T r)"
proof (rule soundI)
  fix c :: dctx assume c: "need c < Suc n"
  show "okres c (decodeBinaryInternal dec T r c)"
  proof (cases "ddepth c > UA_ENCODING_MAX_RECURSION")
    case True
    then show ?thesis by (simp add: decodeBinaryInternal_def)
  next
    case False
    obtain r1 fs c1 where d: "decode_members dec T r (members (dtype_of T r)) (c\<lparr>ddepth := Suc (ddepth c)\<rparr>) = (r1, fs, c1)"
      by (metis prod_cases3)
    show ?thesis
      using soundD [OF sound_members [OF assms] d need_deeper [OF _ c]] False d
      by (simp add: decodeBinaryInternal_def moves_back)
  qed
qed

subsection \<open>ExtensionObjects, Variants, DataValues and diagnostic information\<close>

lemma Byte_good: "Byte_decodeBinary c = (GOOD, b, c') \<Longrightarrow> c' = c\<lparr>dpos := Suc (dpos c)\<rparr> \<and> dpos c < length (dbuf c)"
  by (auto simp: Byte_decodeBinary_def get_def split: if_splits)

text \<open>After a byte was read the measure is smaller, also behind the skipped length field.\<close>

lemma need_after_byte:
  assumes "Byte_decodeBinary c = (GOOD, b, c')" "need c < Suc n"
  shows "need c' < n" "need (c'\<lparr>dpos := dpos c' + 4\<rparr>) < n" "moves c' (c'\<lparr>dpos := dpos c' + 4\<rparr>)"
  using Byte_good [OF assms(1)] assms(2) by (auto simp: need_def moves_def)

lemma sound_eo_content:
  assumes "\<And>r. sound n (dec r)" "Byte_decodeBinary c0 = (GOOD, b, c)" "need c0 < Suc n"
  shows "okres c (ExtensionObject_decodeBinaryContent dec T tid c)"
proof (cases "UA_findDataTypeByBinaryInternal T tid")
  case None
  then show ?thesis
    by (simp add: ExtensionObject_decodeBinaryContent_def always_okres [OF sound_String])
next
  case (Some r)
  obtain r1 v c1 where d: "dec r (c\<lparr>dpos := dpos c + 4\<rparr>) = (r1, v, c1)" by (metis prod_cases3)
  show ?thesis
    using soundD [OF assms(1) d] need_after_byte [OF assms(2,3)] d Some
    by (auto simp: ExtensionObject_decodeBinaryContent_def dmap_def intro: moves_trans)
qed

lemma sound_ExtensionObject:
  assumes "\<And>r. sound n (dec r)"
  shows "sound (Suc n) (ExtensionObject_decodeBinary dec T)"
proof (rule soundI)
  fix c :: dctx assume c: "need c < Suc n"
  obtain r1 tid c1 where d1: "NodeId_decodeBinary c = (r1, tid, c1)" by (metis prod_cases3)
  obtain r2 b c2 where d2: "Byte_decodeBinary c1 = (r2, b, c2)" by (metis prod_cases3)
  have m: "status_ok r1" "moves c c1" "status_ok r2" "moves c1 c2"
    using always_sound [OF sound_NodeId d1] leaf_run(2) [OF d2] by auto
  have ct: "okres c2 (ExtensionObject_decodeBinaryContent dec T tid c2)" if "r2 = GOOD"
    using sound_eo_content [where dec = dec, OF assms] d2 that need_less [OF m(2) c] by simp
  have xml: "okres c2 (dmap (EoXml tid) String_decodeBinary c2)"
    by (simp add: always_okres [OF sound_String])
  have tr: "okres c res" if "okres c2 res" for res :: "status \<times> extobj \<times> dctx"
    using that m by (auto simp: okres_def intro: moves_trans)
  show "okres c (ExtensionObject_decodeBinary dec T c)"
    using m ct xml tr by (auto simp: ExtensionObject_decodeBinary_def d1 d2 intro: moves_trans)
qed

lemma okres_trans: "moves c c1 \<Longrightarrow> okres c1 res \<Longrightarrow> okres c res"
  by (auto simp: okres_def intro: moves_trans)

lemma moves_reset:
  fixes c :: dctx
  shows "dbuf c' = dbuf c \<Longrightarrow> ddepth c' = ddepth c \<Longrightarrow> c'\<lparr>dpos := dpos c\<rparr> = c"
  by (cases c; cases c') simp

lemma sound_Unwrap:
  assumes "\<And>r. sound n (dec r)"
  shows "sound n (Variant_decodeBinaryUnwrapExtensionObject dec T)"
proof (rule soundI)
  fix c :: dctx assume c: "need c < n"
  obtain r1 tid c1 where d1: "NodeId_decodeBinary c = (r1, tid, c1)" by (metis prod_cases3)
  obtain r2 b c2 where d2: "Byte_decodeBinary c1 = (r2, b, c2)" by (metis prod_cases3)
  have m: "status_ok r1" "moves c c1" "status_ok r2" "moves c1 c2"
    using always_sound [OF sound_NodeId d1] leaf_run(2) [OF d2] by auto
  have eo: "okres c (dmap f (dec q) (c2\<lparr>dpos := dpos c\<rparr>))" for f :: "uaval \<Rightarrow> variant" and q
  proof -
    have "c2\<lparr>dpos := dpos c\<rparr> = c"
      using m(2,4) by (intro moves_reset) (simp_all add: moves_def)
    then show ?thesis
      using assms c by (simp add: sound_def)
  qed
  have known: "okres c (dmap f (dec q) (c2\<lparr>dpos := dpos c2 + 4\<rparr>))" if "r2 = GOOD" for f :: "uaval \<Rightarrow> variant" and q
  proof -
    have "need (c2\<lparr>dpos := dpos c2 + 4\<rparr>) < n" "moves c2 (c2\<lparr>dpos := dpos c2 + 4\<rparr>)"
      using need_after_byte [of c1 b c2 n] d2 that need_less [OF m(2) c] by auto
    then show ?thesis
      using assms m by (intro okres_trans [of c "c2\<lparr>dpos := dpos c2 + 4\<rparr>"]) (auto simp: sound_def intro: moves_trans)
  qed
  show "okres c (Variant_decodeBinaryUnwrapExtensionObject dec T c)"
    using m eo known
    by (auto simp: Variant_decodeBinaryUnwrapExtensionObject_def d1 d2 intro: moves_trans split: option.split)
qed

lemma sound_Int32_array: "sound n (Int32_decode_array T)"
  by (simp add: Int32_decode_array_def sound_array sound_rules)

lemma Variant_after_byte:
  assumes "\<And>r. sound n (dec r)" and c: "need c < Suc n" and d1: "Byte_decodeBinary c = (r1, b, c1)"
  shows "okres c1 (Variant_decodeBinary dec T c)"
proof -
  have m: "status_ok r1" "moves c c1"
    using leaf_run(2) [OF d1] by auto
  let ?c = "c1\<lparr>ddepth := Suc (ddepth c1)\<rparr>"
  have scalar: "okres c1 (let (r, x, c3) = d ?c in (r, x, c3\<lparr>ddepth := ddepth c3 - Suc 0\<rparr>))"
    if "sound n d" "ddepth c1 \<le> UA_ENCODING_MAX_RECURSION" for d :: "variant decoder"
    using soundD [OF that(1), of ?c] need_deeper [OF that(2) need_less [OF m(2) c]] moves_back [of c1]
    by (cases "d ?c") auto
  have arr: "okres c1 (let (r2, a, c3) = decode_array dec T q ?c;
         (r3, dims, c4) = (if p then (let (rd, ds, cd) = Int32_decode_array T c3 in (r2 OR rd, ds, cd)) else (r2, None, c3))
       in (r3, VarArray q a dims, c4\<lparr>ddepth := ddepth c4 - Suc 0\<rparr>))"
    if "ddepth c1 \<le> UA_ENCODING_MAX_RECURSION" for q p
  proof -
    obtain r2 a c3 where a: "decode_array dec T q ?c = (r2, a, c3)" by (metis prod_cases3)
    obtain rd ds cd where d: "Int32_decode_array T c3 = (rd, ds, cd)" by (metis prod_cases3)
    have "status_ok r2 \<and> moves ?c c3"
      using soundD [OF sound_decode_array [OF assms(1)] a] need_deeper [OF that need_less [OF m(2) c]] by blast
    moreover have "status_ok rd \<and> moves c3 cd"
      using always_sound [OF sound_Int32_array d] .
    ultimately show ?thesis
      using a d moves_back [of c1] by (auto intro: moves_trans)
  qed
  note sc = scalar [OF sound_dmap [OF assms(1)], unfolded Let_def]
    scalar [OF sound_Unwrap [where dec = dec, OF assms(1)], unfolded Let_def]
  show "okres c1 (Variant_decodeBinary dec T c)"
  proof (cases "ddepth c1 \<le> UA_ENCODING_MAX_RECURSION")
    case True
    then show ?thesis
      unfolding Variant_decodeBinary_def Let_def
      using m sc [OF True] arr [OF True, unfolded Let_def] by (auto simp: d1 intro: okres_trans)
  next
    case False
    then show ?thesis
      using m by (auto simp: Variant_decodeBinary_def d1 Let_def intro: okres_trans)
  qed
qed

lemma sound_Variant:
  assumes "\<And>r. sound n (dec r)"
  shows "sound (Suc n) (Variant_decodeBinary dec T)"
proof (rule soundI)
  fix c :: dctx assume c: "need c < Suc n"
  obtain r1 b c1 where d1: "Byte_decodeBinary c = (r1, b, c1)" by (metis prod_cases3)
  then show "okres c (Variant_decodeBinary dec T c)"
    using leaf_run(2) [OF d1] Variant_after_byte [where dec = dec, OF assms c d1] by (auto intro: okres_trans)
qed

lemma decode_opt_run:
  assumes "decode_opt p d r c = (r', x, c')" "status_ok r" "okres c (d c)"
  shows "status_ok r' \<and> moves c c'"
  using assms by (cases "d c") (auto simp: decode_opt_def split: if_splits)

lemmas opt_run = decode_opt_run [where d = UInt16_decodeBinary, OF _ _ always_okres [OF sound_ints(3)]]
  decode_opt_run [where d = UInt32_decodeBinary, OF _ _ always_okres [OF sound_ints(4)]]
  decode_opt_run [where d = UInt64_decodeBinary, OF _ _ always_okres [OF sound_ints(5)]]
  decode_opt_run [where d = String_decodeBinary, OF _ _ always_okres [OF sound_String]]

lemma sound_DataValue:
  assumes "\<And>r. sound n (dec r)"
  shows "sound (Suc n) (DataValue_decodeBinary dec T)"
proof (rule soundI)
  fix c :: dctx assume c: "need c < Suc n"
  obtain r1 m c1 where d1: "Byte_decodeBinary c = (r1, m, c1)" by (metis prod_cases3)
  have m: "status_ok r1" "moves c c1"
    using leaf_run(2) [OF d1] by auto
  show "okres c (DataValue_decodeBinary dec T c)"
  proof (cases "r1 = GOOD \<and> ddepth c1 \<le> UA_ENCODING_MAX_RECURSION")
    case False
    then show ?thesis
      using m by (auto simp: DataValue_decodeBinary_def d1)
  next
    case True
    let ?c = "c1\<lparr>ddepth := Suc (ddepth c1)\<rparr>"
    obtain s1 x e1 where o1: "decode_opt (m AND 1 \<noteq> 0) (Variant_decodeBinary dec T) GOOD ?c = (s1, x, e1)" by (metis prod_cases3)
    obtain s2 x2 e2 where o2: "decode_opt (m AND 2 \<noteq> 0) UInt32_decodeBinary s1 e1 = (s2, x2, e2)" by (metis prod_cases3)
    obtain s3 x3 e3 where o3: "decode_opt (m AND 4 \<noteq> 0) UInt64_decodeBinary s2 e2 = (s3, x3, e3)" by (metis prod_cases3)
    obtain s4 x4 e4 where o4: "decode_opt (m AND 0x10 \<noteq> 0) UInt16_decodeBinary s3 e3 = (s4, x4, e4)" by (metis prod_cases3)
    obtain s5 x5 e5 where o5: "decode_opt (m AND 8 \<noteq> 0) UInt64_decodeBinary s4 e4 = (s5, x5, e5)" by (metis prod_cases3)
    obtain s6 x6 e6 where o6: "decode_opt (m AND 0x20 \<noteq> 0) UInt16_decodeBinary s5 e5 = (s6, x6, e6)" by (metis prod_cases3)
    have "need ?c < Suc n"
      using need_deeper [of c1 n] need_less [OF m(2) c] True by linarith
    then have "okres ?c (Variant_decodeBinary dec T ?c)"
      using sound_Variant [where dec = dec, OF assms] by (simp add: sound_def)
    note v = decode_opt_run [OF o1 status_ok_simps(1) this]
    note v2 = opt_run(2) [OF o2 conjunct1 [OF v]]
    note v3 = opt_run(3) [OF o3 conjunct1 [OF v2]]
    note v4 = opt_run(1) [OF o4 conjunct1 [OF v3]]
    note v5 = opt_run(3) [OF o5 conjunct1 [OF v4]]
    note v6 = opt_run(1) [OF o6 conjunct1 [OF v5]]
    have "moves ?c e6"
      using v v2 v3 v4 v5 v6 by (meson moves_trans)
    then have "moves c (e6\<lparr>ddepth := ddepth e6 - Suc 0\<rparr>)"
      using moves_back m(2) moves_trans by blast
    then show ?thesis
      using True v6 by (simp add: DataValue_decodeBinary_def d1 o1 o2 o3 o4 o5 o6 del: not_None_eq)
  qed
qed

lemma sound_DiagnosticInfo:
  assumes "\<And>r. sound n (dec r)"
  shows "sound (Suc n) (DiagnosticInfo_decodeBinary dec T)"
proof (rule soundI)
  fix c :: dctx assume c: "need c < Suc n"
  obtain r1 m c1 where d1: "Byte_decodeBinary c = (r1, m, c1)" by (metis prod_cases3)
  have m: "status_ok r1" "moves c c1"
    using leaf_run(2) [OF d1] by auto
  obtain s1 x1 e1 where o1: "decode_opt (m AND 1 \<noteq> 0) UInt32_decodeBinary GOOD c1 = (s1, x1, e1)" by (metis prod_cases3)
  obtain s2 x2 e2 where o2: "decode_opt (m AND 2 \<noteq> 0) UInt32_decodeBinary s1 e1 = (s2, x2, e2)" by (metis prod_cases3)
  obtain s3 x3 e3 where o3: "decode_opt (m AND 4 \<noteq> 0) UInt32_decodeBinary s2 e2 = (s3, x3, e3)" by (metis prod_cases3)
  obtain s4 x4 e4 where o4: "decode_opt (m AND 8 \<noteq> 0) UInt32_decodeBinary s3 e3 = (s4, x4, e4)" by (metis prod_cases3)
  obtain s5 x5 e5 where o5: "decode_opt (m AND 0x10 \<noteq> 0) String_decodeBinary s4 e4 = (s5, x5, e5)" by (metis prod_cases3)
  obtain s6 x6 e6 where o6: "decode_opt (m AND 0x20 \<noteq> 0) UInt32_decodeBinary s5 e5 = (s6, x6, e6)" by (metis prod_cases3)
  note v1 = opt_run(2) [OF o1 status_ok_simps(1)]
  note v2 = opt_run(2) [OF o2 conjunct1 [OF v1]]
  note v3 = opt_run(2) [OF o3 conjunct1 [OF v2]]
  note v4 = opt_run(2) [OF o4 conjunct1 [OF v3]]
  note v5 = opt_run(4) [OF o5 conjunct1 [OF v4]]
  note v6 = opt_run(2) [OF o6 conjunct1 [OF v5]]
  have e6: "moves c e6"
    using m v1 v2 v3 v4 v5 v6 by (meson moves_trans)
  obtain s7 x7 e7 where o7: "dec (Ns0 UA_TYPES_DIAGNOSTICINFO) (e6\<lparr>ddepth := Suc (ddepth e6)\<rparr>) = (s7, x7, e7)"
    by (metis prod_cases3)
  have inner: "status_ok s7 \<and> moves e6 (e7\<lparr>ddepth := ddepth e7 - Suc 0\<rparr>)" if "ddepth e6 \<le> UA_ENCODING_MAX_RECURSION"
    using soundD [OF assms o7 need_deeper [OF that need_less [OF e6 c]]] moves_back by blast
  show "okres c (DiagnosticInfo_decodeBinary dec T c)"
  proof (cases "r1 = GOOD \<and> m AND 0x40 \<noteq> 0 \<and> ddepth e6 \<le> UA_ENCODING_MAX_RECURSION")
    case True
    then have "moves c (e7\<lparr>ddepth := ddepth e7 - Suc 0\<rparr>)"
      using inner e6 moves_trans by blast
    then show ?thesis
      using True inner v6
      by (simp add: DiagnosticInfo_decodeBinary_def d1 o1 o2 o3 o4 o5 o6 o7)
  next
    case False
    then show ?thesis
      using m v6 e6
      by (auto simp: DiagnosticInfo_decodeBinary_def d1 o1 o2 o3 o4 o5 o6 Let_def)
  qed
qed

subsection \<open>The jump table\<close>

lemma nth_list_all: "list_all P xs \<Longrightarrow> i < length xs \<Longrightarrow> P (xs ! i)"
  by (simp add: list_all_length)

lemma sound_table:
  assumes "\<And>r. sound n (dec r)"
  shows "sound (Suc n) (decodeBinaryJumpTable dec T r ! decode_index t)"
proof (rule nth_list_all [where P = "sound (Suc n)"])
  show "list_all (sound (Suc n)) (decodeBinaryJumpTable dec T r)"
    unfolding decodeBinaryJumpTable_def
    by (simp add: sound_rules sound_internal sound_ExtensionObject sound_DataValue sound_Variant sound_DiagnosticInfo assms)
  show "decode_index t < length (decodeBinaryJumpTable dec T r)"
    by (simp add: decodeBinaryJumpTable_def decode_index_def UA_BUILTIN_TYPES_COUNT_def)
qed

lemma sound_jump: "sound n (decode_jump n T r)"
proof (induction n arbitrary: r)
  case 0
  then show ?case by (simp add: sound_def)
next
  case (Suc n)
  have "sound (Suc n) (decodeBinaryJumpTable (decode_jump n T) T r ! decode_index (dtype_of T r))"
    using Suc by (rule sound_table)
  then show ?case
    by (simp add: sound_def)
qed

text \<open>The initial context has less need than the fuel.\<close>

lemma decode_outcome:
  assumes "decodeBinaryInternal (decode_jump (decode_fuel src) T) T r \<lparr>dbuf = src, dpos = offset, ddepth = 0\<rparr> = (ret, v, c)"
  shows "status_ok ret" "moves \<lparr>dbuf = src, dpos = offset, ddepth = 0\<rparr> c"
  using soundD [OF sound_internal [OF sound_jump] assms]
  by (simp_all add: need_def decode_fuel_def)

subsection \<open>Properties\<close>

text \<open>C17: Decoding ends on every input, whatever the type tables, the type and the bytes are: the fuel of the
  model is never used up, so the status is one of the program.\<close>

theorem UA_decodeBinary_terminates: "fst (UA_decodeBinary T r src offset) \<noteq> OUT_OF_FUEL"
proof -
  obtain ret v c where d: "decodeBinaryInternal (decode_jump (decode_fuel src) T) T r
      \<lparr>dbuf = src, dpos = offset, ddepth = 0\<rparr> = (ret, v, c)"
    by (metis prod_cases3)
  then have "ret \<noteq> OUT_OF_FUEL"
    using decode_outcome(1) [OF d] by auto
  with d show ?thesis
    by (auto simp: UA_decodeBinary_def OUT_OF_FUEL_def)
qed

text \<open>C18: Decoding arbitrary bytes never moves the offset backwards, leaves it unchanged in the error case, and
  ends at most four bytes behind the buffer.\<close>

theorem UA_decodeBinary_bounds:
  assumes "UA_decodeBinary T r src offset = (ret, v, offset')" and "offset \<le> length src"
  shows "offset \<le> offset' \<and> offset' \<le> length src + 4 \<and> (ret \<noteq> GOOD \<longrightarrow> offset' = offset \<and> v = None)"
proof -
  obtain s x c where d: "decodeBinaryInternal (decode_jump (decode_fuel src) T) T r
      \<lparr>dbuf = src, dpos = offset, ddepth = 0\<rparr> = (s, x, c)"
    by (metis prod_cases3)
  then show ?thesis
    using assms decode_outcome(2) [OF d] by (auto simp: UA_decodeBinary_def moves_def split: if_splits)
qed

theorem UA_decodeBinary_bounds_witness:
  "\<exists>ret v n. UA_decodeBinary \<lparr>ns0types = [], customtypes = []\<rparr> (Ns0 77) [1, 2, 3] 1 = (ret, v, n) \<and> n \<le> 7"
proof -
  let ?u = "UA_decodeBinary \<lparr>ns0types = [], customtypes = []\<rparr> (Ns0 77) [1, 2, 3] 1"
  obtain ret v n where "?u = (ret, v, n)"
    by (metis prod_cases3)
  with UA_decodeBinary_bounds [OF this] show ?thesis
    by simp
qed

end
