(* ===== verification/Pubsub_Message_Correct.thy ===== *)
theory Pubsub_Message_Correct
  imports Pubsub_Message Binary_Generic_Correct Binary_Generic_Safety
begin

text \<open>
  The round trip of UADP messages. \<open>codec e d n x\<close> states that there are \<open>n\<close> bytes that the encoder \<open>e\<close>
  writes whenever they fit, and from which the decoder \<open>d\<close> gets \<open>x\<close>. The rules \<open>codec_step\<close> to
  \<open>codec_list\<close> follow the constructs of encoders and decoders, so that the proof for a part of a message
  walks through its steps. \<open>ds_codes\<close> and \<open>nm_codes\<close> relate a message and what is decoded from it.
\<close>

subsection \<open>Encoder and decoder step by step\<close>

definition pfits :: "estep \<Rightarrow> u8 list \<Rightarrow> bool" where
  "pfits e bs \<longleftrightarrow> (\<forall>c. edepth c = 0 \<longrightarrow> length bs \<le> eroom c \<longrightarrow> e c = (GOOD, emit bs c))"

definition starts :: "u8 list \<Rightarrow> nat \<Rightarrow> u8 list \<Rightarrow> bool" where
  "starts src offset bs \<longleftrightarrow> at \<lparr>dbuf = src, dpos = offset, ddepth = 0\<rparr> bs"

definition preads :: "'a pdecoder \<Rightarrow> u8 list \<Rightarrow> 'a \<Rightarrow> bool" where
  "preads d bs x \<longleftrightarrow> (\<forall>src offset. starts src offset bs \<longrightarrow> d src offset = (Inr x, offset + length bs))"

definition codec :: "estep \<Rightarrow> 'a pdecoder \<Rightarrow> nat \<Rightarrow> 'a \<Rightarrow> bool" where
  "codec e d n x \<longleftrightarrow> (\<exists>bs. pfits e bs \<and> preads d bs x \<and> length bs = n)"

lemma starts_Nil [simp]: "starts src offset []"
  by (simp add: starts_def)

lemma starts_append: "starts src offset (a @ b) \<longleftrightarrow> starts src offset a \<and> starts src (offset + length a) b"
  by (simp add: starts_def at_append skip_def)

lemma codecI: "pfits e bs \<Longrightarrow> preads d bs x \<Longrightarrow> length bs = n \<Longrightarrow> codec e d n x"
  by (auto simp: codec_def)

lemma pfits_Nil: "pfits (returnE GOOD) []" "pfits (run_steps []) []"
  by (simp_all add: pfits_def returnE_def)

lemma pfits_step: "pfits e b1 \<Longrightarrow> pfits (run_steps es) b2 \<Longrightarrow> pfits (run_steps (e # es)) (b1 @ b2)"
  by (simp add: pfits_def)

lemma pfits_ignore: "pfits e bs \<Longrightarrow> pfits (ignoreE e) bs"
  by (simp add: pfits_def ignoreE_def)

lemma preads_return: "preads (preturn x) [] x"
  by (simp add: preads_def preturn_def)

lemma preads_bind: "preads d b1 x \<Longrightarrow> preads (f x) b2 y \<Longrightarrow> preads (pbind d f) (b1 @ b2) y"
  by (simp add: preads_def pbind_def starts_append add.assoc)

lemma codec_nil: "codec (run_steps []) (preturn x) 0 x" "codec (returnE GOOD) (preturn x) 0 x"
  by (auto intro!: codecI [where bs = "[]"] pfits_Nil preads_return)

lemma codec_step:
  assumes "codec e d n x" "codec (run_steps es) (f x) m y"
  shows "codec (run_steps (e # es)) (pbind d f) (n + m) y"
proof -
  obtain b1 b2 where "pfits e b1" "preads d b1 x" "length b1 = n"
    "pfits (run_steps es) b2" "preads (f x) b2 y" "length b2 = m"
    using assms by (auto simp: codec_def)
  then show ?thesis
    by (intro codecI [where bs = "b1 @ b2"] pfits_step preads_bind) simp_all
qed

lemma codec_last: "codec e d n x \<Longrightarrow> codec (run_steps [e]) (pbind d (\<lambda>x. preturn (g x))) n (g x)"
  using codec_step [of e d n x "[]" "\<lambda>x. preturn (g x)" 0 "g x"] codec_nil(1) [of "g x"] by (simp del: run_steps.simps)

lemma codec_skip: "codec (run_steps es) d n x \<Longrightarrow> codec (run_steps (returnE GOOD # es)) d n x"
  by (simp add: codec_def pfits_def returnE_def)

lemma codec_pass: "codec (run_steps es) (f x) n y \<Longrightarrow> codec (run_steps es) (pbind (preturn x) f) n y"
  by (simp add: codec_def preads_def pbind_def preturn_def)

lemma codec_ignore: "codec e d n x \<Longrightarrow> codec (ignoreE e) d n x"
  by (auto simp: codec_def intro: pfits_ignore)

lemma codec_pmap: "codec e d n x \<Longrightarrow> codec e (pbind d (\<lambda>x. preturn (g x))) n (g x)"
  using preads_bind [OF _ preads_return, of d _ x g] by (fastforce simp: codec_def)

lemma codec_opt:
  assumes "rel_option R x x'" and "\<And>y y'. x = Some y \<Longrightarrow> R y y' \<Longrightarrow> codec (f y) d (n y) y'"
  shows "codec (optE f x) (popt (x \<noteq> None) d) (opt_sum n x) x'"
proof (cases x)
  case None
  with assms(1) show ?thesis by (simp add: optE_def popt_def opt_sum_def codec_nil)
next
  case (Some y)
  then obtain y' where "x' = Some y'" "R y y'"
    using assms(1) by (cases x') auto
  then show ?thesis
    using assms(2) [OF Some] Some by (simp add: optE_def popt_def opt_sum_def codec_pmap)
qed

lemma codec_when: "(b \<Longrightarrow> codec e d n x) \<Longrightarrow> codec (whenE b e) (if b then d else preturn y) (if b then n else 0) (if b then x else y)"
  by (simp add: whenE_def codec_nil)

lemma codec_list:
  assumes "list_all2 (\<lambda>x y. codec (f x) d (n x) y) xs ys"
  shows "codec (run_steps (map f xs)) (prepeat (length xs) d) (\<Sum>x \<leftarrow> xs. n x) ys"
  using assms
proof (induction xs ys rule: list_all2_induct)
  case Nil
  then show ?case by (simp add: codec_nil(1) del: run_steps.simps)
next
  case (Cons x xs y ys)
  have "codec (run_steps (map f xs)) (pbind (prepeat (length xs) d) (\<lambda>xs. preturn (y # xs))) (\<Sum>x \<leftarrow> xs. n x) (y # ys)"
    using codec_pmap [OF Cons.IH, of "(#) y"] by simp
  with codec_step [OF Cons.hyps(1), of "map f xs" "\<lambda>x. pbind (prepeat (length xs) d) (\<lambda>xs. preturn (x # xs))"]
  show ?case by (simp del: run_steps.simps)
qed

lemma forE_at_index: "forE (length xs) (at_index xs f) = run_steps (map f xs)"
proof -
  have "map (at_index xs f) [0..<length xs] = map f xs"
    by (rule nth_equalityI) (auto simp: at_index_def)
  then show ?thesis
    by (simp add: forE_def)
qed

lemma codec_for:
  "list_all2 (\<lambda>x y. codec (f x) d (n x) y) xs ys \<Longrightarrow> k = length xs \<Longrightarrow>
   codec (forE k (at_index xs f)) (prepeat k d) (\<Sum>x \<leftarrow> xs. n x) ys"
  by (simp add: forE_at_index codec_list)

subsection \<open>Values of the type tables\<close>

lemma codec_value:
  assumes "types_ok T" "codes T k (Ns0 i) v v'" "k \<le> UA_ENCODING_MAX_RECURSION"
  shows "codec (store T i v) (fetch T i f) (calc T i v) (f v')"
proof -
  obtain bs where bs: "length bs = calc T i v"
    and e: "fits (Suc k) (encodeBinaryInternal (encode_jump T) T (Ns0 i) v) bs"
    and d: "\<And>n. Suc k < n \<Longrightarrow> reads (Suc k) (decodeBinaryInternal (decode_jump n T) T (Ns0 i)) bs v'"
    using codes_internal [OF assms(1,2)] by (metis calc_def)
  show ?thesis
  proof (rule codecI [OF _ _ bs])
    show "pfits (store T i v) bs"
      unfolding pfits_def store_def UA_encodeBinary_def
      using assms(3) by (intro allI impI fitsD [OF e, THEN trans]) (simp_all add: emit_def)
    have "reads (Suc k) (decodeBinaryInternal (decode_jump (decode_fuel src) T) T (Ns0 i)) bs v'" for src
      using assms(3) by (intro d) (simp add: decode_fuel_def)
    then have "UA_decodeBinary T (Ns0 i) src offset = (GOOD, Some v', offset + length bs)" if "starts src offset bs" for src offset
      using that assms(3) by (simp add: UA_decodeBinary_def starts_def reads_def)
    then show "preads (fetch T i f) bs (f v')"
      by (simp add: preads_def fetch_def)
  qed
qed

lemma codec_basic:
  assumes "types_ok T" "basic_ok i v"
  shows "codec (store T i v) (fetch T i f) (calc T i v) (f v)"
  using codec_value [OF assms(1) basic [OF assms(2), of T 0]] by simp

lemma codec_ints:
  assumes "types_ok T"
  shows "codec (store T BYTE_TYPE (VByte x8)) (fetch_byte T) (calc T BYTE_TYPE (VByte x8)) x8"
    "codec (store T UINT16_TYPE (VUInt16 x16)) (fetch_u16 T) (calc T UINT16_TYPE (VUInt16 x16)) x16"
    "codec (store T UINT32_TYPE (VUInt32 x32)) (fetch_u32 T) (calc T UINT32_TYPE (VUInt32 x32)) x32"
    "codec (store T DATETIME_TYPE (VUInt64 x64)) (fetch T DATETIME_TYPE the_u64) (calc T DATETIME_TYPE (VUInt64 x64)) x64"
proof -
  have the: "the_byte (VByte x8) = x8" "the_u16 (VUInt16 x16) = x16" "the_u32 (VUInt32 x32) = x32" "the_u64 (VUInt64 x64) = x64"
    by (simp_all add: the_byte_def the_u16_def the_u32_def the_u64_def)
  note c = codec_basic [OF assms]
  show "codec (store T BYTE_TYPE (VByte x8)) (fetch_byte T) (calc T BYTE_TYPE (VByte x8)) x8"
    "codec (store T UINT16_TYPE (VUInt16 x16)) (fetch_u16 T) (calc T UINT16_TYPE (VUInt16 x16)) x16"
    "codec (store T UINT32_TYPE (VUInt32 x32)) (fetch_u32 T) (calc T UINT32_TYPE (VUInt32 x32)) x32"
    "codec (store T DATETIME_TYPE (VUInt64 x64)) (fetch T DATETIME_TYPE the_u64) (calc T DATETIME_TYPE (VUInt64 x64)) x64"
    using c [of 2 "VByte x8" the_byte] c [of 4 "VUInt16 x16" the_u16] c [of 6 "VUInt32 x32" the_u32]
      c [of 12 "VUInt64 x64" the_u64]
    by (simp_all add: the fetch_byte_def fetch_u16_def fetch_u32_def)
qed

text \<open>The sizes of integers do not depend on the value; the size computations pass arbitrary ones.\<close>

lemma calc_ints:
  assumes "types_ok T"
  shows "calc T BYTE_TYPE (VByte x8) = 1" "calc T UINT16_TYPE (VUInt16 x16) = 2" "calc T UINT32_TYPE (VUInt32 x32) = 4"
    "calc T DATETIME_TYPE (VUInt64 x64) = 8"
  using builtin_entry(1) [OF assms, of 2] builtin_entry(1) [OF assms, of 4] builtin_entry(1) [OF assms, of 6]
    builtin_entry(1) [OF assms, of 12]
  by (simp_all add: calc_def UA_calcSizeBinary_def UA_BUILTIN_TYPES_COUNT_def builtin_ok_def fixed_size_def
      fields_of_def membertype_def)

lemma codec_opt_ints:
  assumes "types_ok T"
  shows "codec (optE (\<lambda>x. store T UINT16_TYPE (VUInt16 x)) x16) (popt (x16 \<noteq> None) (fetch_u16 T)) (opt_calc T UINT16_TYPE VUInt16 x16) x16"
    "codec (optE (\<lambda>x. store T UINT32_TYPE (VUInt32 x)) x32) (popt (x32 \<noteq> None) (fetch_u32 T)) (opt_calc T UINT32_TYPE VUInt32 x32) x32"
    "codec (optE (\<lambda>x. store T DATETIME_TYPE (VUInt64 x)) x64) (popt (x64 \<noteq> None) (fetch T DATETIME_TYPE the_u64)) (opt_calc T DATETIME_TYPE VUInt64 x64) x64"
proof -
  have opt: "opt_calc T i f x = opt_sum (\<lambda>y. calc T i (f y)) x" for i and f :: "'a \<Rightarrow> uaval" and x
    by (simp add: opt_calc_def opt_sum_def)
  show "codec (optE (\<lambda>x. store T UINT16_TYPE (VUInt16 x)) x16) (popt (x16 \<noteq> None) (fetch_u16 T)) (opt_calc T UINT16_TYPE VUInt16 x16) x16"
    "codec (optE (\<lambda>x. store T UINT32_TYPE (VUInt32 x)) x32) (popt (x32 \<noteq> None) (fetch_u32 T)) (opt_calc T UINT32_TYPE VUInt32 x32) x32"
    "codec (optE (\<lambda>x. store T DATETIME_TYPE (VUInt64 x)) x64) (popt (x64 \<noteq> None) (fetch T DATETIME_TYPE the_u64)) (opt_calc T DATETIME_TYPE VUInt64 x64) x64"
    using codec_ints [OF assms] unfolding opt_calc_def opt_sum_def [symmetric]
    by (intro codec_opt [where R = "(=)"]; simp add: option.rel_eq)+
qed

subsection \<open>The header of a DataSetMessage\<close>

definition ds_header_ok :: "ds_header \<Rightarrow> bool" where
  "ds_header_ok h \<longleftrightarrow> fieldEncoding h < 4 \<and> dataSetMessageType h < 16"

lemma small_byte: "v < (4 :: u8) \<Longrightarrow> v = 0 \<or> v = 1 \<or> v = 2 \<or> v = 3"
  by (auto simp: word_less_nat_alt word_unat_eq_iff)

text \<open>What a decoder finds in a flag byte that was put together from a value and flags.\<close>

lemma has_flag_OR [simp]: "has_flag (a OR b) m \<longleftrightarrow> has_flag a m \<or> has_flag b m"
  by (auto simp: has_flag_def bit_eq_iff bit_simps)

lemma has_flag_flag: "has_flag (flag b m) k \<longleftrightarrow> b \<and> m AND k \<noteq> 0"
  by (simp add: has_flag_def flag_def)

lemma ds_flags1_bits:
  assumes "fieldEncoding h < 4"
  shows "has_flag (ds_flags1 h) 1 = dataSetMessageValid h"
    "has_flag (ds_flags1 h) 8 = (dataSetMessageSequenceNr h \<noteq> None)"
    "has_flag (ds_flags1 h) 16 = (dsStatus h \<noteq> None)"
    "has_flag (ds_flags1 h) 32 = (configVersionMajorVersion h \<noteq> None)"
    "has_flag (ds_flags1 h) 64 = (configVersionMinorVersion h \<noteq> None)"
    "has_flag (ds_flags1 h) 128 = UA_DataSetMessageHeader_DataSetFlags2Enabled h"
    "drop_bit 1 (ds_flags1 h AND 6) = fieldEncoding h"
proof -
  consider "fieldEncoding h = 0" | "fieldEncoding h = 1" | "fieldEncoding h = 2" | "fieldEncoding h = 3"
    using small_byte [OF assms] by blast
  note cs = this
  show "has_flag (ds_flags1 h) 1 = dataSetMessageValid h"
    "has_flag (ds_flags1 h) 8 = (dataSetMessageSequenceNr h \<noteq> None)"
    "has_flag (ds_flags1 h) 16 = (dsStatus h \<noteq> None)"
    "has_flag (ds_flags1 h) 32 = (configVersionMajorVersion h \<noteq> None)"
    "has_flag (ds_flags1 h) 64 = (configVersionMinorVersion h \<noteq> None)"
    "has_flag (ds_flags1 h) 128 = UA_DataSetMessageHeader_DataSetFlags2Enabled h"
    by (cases rule: cs; simp add: ds_flags1_def has_flag_flag; simp add: has_flag_def)+
  show "drop_bit 1 (ds_flags1 h AND 6) = fieldEncoding h"
    by (cases rule: cs) (simp_all add: ds_flags1_def flag_def bit.conj_disj_distrib2)
qed

lemma nibble_flags:
  assumes "v < (16 :: u8)"
  shows "\<not> has_flag v 16" "\<not> has_flag v 32" "\<not> has_flag v 64" "\<not> has_flag v 128" "v AND 15 = v"
proof -
  have "v = take_bit 4 v"
    using assms by (simp add: word_less_nat_alt word_unat_eq_iff unsigned_take_bit_eq take_bit_nat_eq_self)
  then have b: "\<not> bit v n" if "4 \<le> n" for n
    using that by (metis bit_take_bit_iff not_less)
  have "v AND 2 ^ n = 0" if "4 \<le> n" for n
    using b [OF that] by (auto intro!: bit_word_eqI simp: bit_simps)
  from this [of 4] this [of 5] this [of 6] this [of 7]
  show "\<not> has_flag v 16" "\<not> has_flag v 32" "\<not> has_flag v 64" "\<not> has_flag v 128"
    by (simp_all add: has_flag_def)
  show "v AND 15 = v"
    using \<open>v = take_bit 4 v\<close> by (simp add: take_bit_eq_mask mask_eq_exp_minus_1)
qed

lemma ds_flags2_bits:
  assumes "dataSetMessageType h < 16"
  shows "ds_flags2 h AND 15 = dataSetMessageType h"
    "has_flag (ds_flags2 h) 16 = (dsTimestamp h \<noteq> None)" "has_flag (ds_flags2 h) 32 = (picoSeconds h \<noteq> None)"
  using nibble_flags [OF assms]
  by (simp_all add: ds_flags2_def has_flag_flag) (simp add: flag_def bit.conj_disj_distrib2)

lemma codec_ds_flags2:
  assumes "types_ok T" "dataSetMessageType h < 16"
  shows "codec (whenE (UA_DataSetMessageHeader_DataSetFlags2Enabled h) (store T BYTE_TYPE (VByte (ds_flags2 h))))
    (decode_ds_flags2 T (UA_DataSetMessageHeader_DataSetFlags2Enabled h))
    (if UA_DataSetMessageHeader_DataSetFlags2Enabled h then calc T BYTE_TYPE (VByte 0) else 0)
    (dataSetMessageType h, dsTimestamp h \<noteq> None, picoSeconds h \<noteq> None)"
proof (cases "UA_DataSetMessageHeader_DataSetFlags2Enabled h")
  case True
  let ?g = "\<lambda>v :: u8. (v AND 15, has_flag v 16, has_flag v 32)"
  have "codec (store T BYTE_TYPE (VByte (ds_flags2 h))) (pbind (fetch_byte T) (\<lambda>v. preturn (?g v)))
      (calc T BYTE_TYPE (VByte (ds_flags2 h))) (?g (ds_flags2 h))"
    by (rule codec_pmap [OF codec_ints(1) [OF assms(1)]])
  with True show ?thesis
    by (simp only: whenE_def decode_ds_flags2_def calc_ints(1) [OF assms(1)] ds_flags2_bits [OF assms(2)] if_True)
next
  case False
  then show ?thesis
    by (simp add: whenE_def decode_ds_flags2_def codec_nil UA_DataSetMessageHeader_DataSetFlags2Enabled_def)
qed

lemma codec_ds_header:
  assumes T: "types_ok T" and h: "ds_header_ok h"
  shows "codec (UA_DataSetMessageHeader_encodeBinary T h) (UA_DataSetMessageHeader_decodeBinary T)
    (UA_DataSetMessageHeader_calcSizeBinary T h) h"
proof -
  have f: "fieldEncoding h < 4" "dataSetMessageType h < 16"
    using h by (simp_all add: ds_header_ok_def)
  note bits = ds_flags1_bits [OF f(1)]
  have size: "calc T BYTE_TYPE (VByte 0) = calc T BYTE_TYPE (VByte (ds_flags1 h))"
    by (simp add: calc_ints [OF T])
  have "codec (UA_DataSetMessageHeader_encodeBinary T h) (UA_DataSetMessageHeader_decodeBinary T)
    (calc T BYTE_TYPE (VByte (ds_flags1 h))
       + ((if UA_DataSetMessageHeader_DataSetFlags2Enabled h then calc T BYTE_TYPE (VByte 0) else 0)
       + (opt_calc T UINT16_TYPE VUInt16 (dataSetMessageSequenceNr h)
       + (opt_calc T DATETIME_TYPE VUInt64 (dsTimestamp h)
       + (opt_calc T UINT16_TYPE VUInt16 (picoSeconds h)
       + (opt_calc T UINT16_TYPE VUInt16 (dsStatus h)
       + (opt_calc T UINT32_TYPE VUInt32 (configVersionMajorVersion h)
       + opt_calc T UINT32_TYPE VUInt32 (configVersionMinorVersion h)))))))) h"
    unfolding UA_DataSetMessageHeader_encodeBinary_def UA_DataSetMessageHeader_decodeBinary_def
    apply (rule codec_step [OF codec_ints(1) [OF T]])
    apply (simp only: bits)
    apply (rule codec_step [OF codec_ds_flags2 [OF T f(2)]], simp only: prod.case)
    apply (rule codec_step [OF codec_opt_ints(1) [OF T]])
    apply (rule codec_step [OF codec_opt_ints(3) [OF T]])
    apply (rule codec_step [OF codec_opt_ints(1) [OF T]])
    apply (rule codec_step [OF codec_opt_ints(1) [OF T]])
    apply (rule codec_step [OF codec_opt_ints(2) [OF T]])
    apply (rule codec_last [OF codec_opt_ints(2) [OF T], THEN back_subst [where P = "codec _ _ _"]])
    apply simp
    done
  then show ?thesis
    by (simp only: UA_DataSetMessageHeader_calcSizeBinary_def size add.assoc)
qed

subsection \<open>DataSetMessages\<close>

definition variant_field_codes :: "types \<Rightarrow> datavalue \<Rightarrow> datavalue \<Rightarrow> bool" where
  "variant_field_codes T f f' \<longleftrightarrow>
     (\<exists>v. codes T UA_ENCODING_MAX_RECURSION (Ns0 VARIANT_TYPE) (VVariant (field_value f)) (VVariant v) \<and> f' = value_field v)"

definition datavalue_field_codes :: "types \<Rightarrow> datavalue \<Rightarrow> datavalue \<Rightarrow> bool" where
  "datavalue_field_codes T f f' \<longleftrightarrow>
     codes T UA_ENCODING_MAX_RECURSION (Ns0 DATAVALUE_TYPE) (VDataValue f) (VDataValue f')"

text \<open>A field in the encoding of the header: Variants lose everything but the value.\<close>

definition field_codes :: "types \<Rightarrow> u8 \<Rightarrow> datavalue \<Rightarrow> datavalue \<Rightarrow> bool" where
  "field_codes T enc = (if enc = UA_FIELDENCODING_VARIANT then variant_field_codes T else datavalue_field_codes T)"

definition delta_codes :: "types \<Rightarrow> u8 \<Rightarrow> u16 \<times> datavalue \<Rightarrow> u16 \<times> datavalue \<Rightarrow> bool" where
  "delta_codes T enc f f' \<longleftrightarrow> fst f' = fst f \<and> field_codes T enc (snd f) (snd f')"

text \<open>
  A DataSetMessage that can be sent, and what is received: a keep-alive message without content, a message with
  an unknown field encoding with the number of fields only, and key and delta frames with all fields.
\<close>

inductive ds_codes :: "types \<Rightarrow> ds_message \<Rightarrow> ds_message \<Rightarrow> bool" for T where
  keep_alive: "ds_header_ok h \<Longrightarrow> dataSetMessageType h = UA_DATASETMESSAGE_KEEPALIVE \<Longrightarrow>
    ds_codes T \<lparr>header = h, fieldCount = n, frameFields = fs\<rparr> \<lparr>header = h, fieldCount = 0, frameFields = NullFields\<rparr>"
| no_fields: "ds_header_ok h \<Longrightarrow>
    dataSetMessageType h \<in> {UA_DATASETMESSAGE_DATAKEYFRAME, UA_DATASETMESSAGE_DATADELTAFRAME} \<Longrightarrow> fieldEncoding h = 3 \<Longrightarrow>
    ds_codes T \<lparr>header = h, fieldCount = n, frameFields = fs\<rparr> \<lparr>header = h, fieldCount = n, frameFields = NullFields\<rparr>"
| key_frame: "ds_header_ok h \<Longrightarrow> dataSetMessageType h = UA_DATASETMESSAGE_DATAKEYFRAME \<Longrightarrow>
    fieldEncoding h \<in> {UA_FIELDENCODING_VARIANT, UA_FIELDENCODING_DATAVALUE} \<Longrightarrow>
    unat n = length fs \<Longrightarrow> list_all2 (field_codes T (fieldEncoding h)) fs fs' \<Longrightarrow>
    ds_codes T \<lparr>header = h, fieldCount = n, frameFields = DataSetFields fs\<rparr>
      \<lparr>header = h, fieldCount = n, frameFields = DataSetFields fs'\<rparr>"
| delta_frame: "ds_header_ok h \<Longrightarrow> dataSetMessageType h = UA_DATASETMESSAGE_DATADELTAFRAME \<Longrightarrow>
    fieldEncoding h \<in> {UA_FIELDENCODING_VARIANT, UA_FIELDENCODING_DATAVALUE} \<Longrightarrow>
    unat n = length fs \<Longrightarrow> list_all2 (delta_codes T (fieldEncoding h)) fs fs' \<Longrightarrow>
    ds_codes T \<lparr>header = h, fieldCount = n, frameFields = DeltaFrameFields fs\<rparr>
      \<lparr>header = h, fieldCount = n, frameFields = DeltaFrameFields fs'\<rparr>"

lemma codec_variant_field:
  assumes "types_ok T" "variant_field_codes T f f'"
  shows "codec (encode_variant_field T f) (decode_variant_field T) (calc T VARIANT_TYPE (VVariant (field_value f))) f'"
proof -
  obtain v where "codes T UA_ENCODING_MAX_RECURSION (Ns0 VARIANT_TYPE) (VVariant (field_value f)) (VVariant v)" "f' = value_field v"
    using assms(2) by (auto simp: variant_field_codes_def)
  then show ?thesis
    using codec_value [OF assms(1), of _ VARIANT_TYPE "VVariant (field_value f)" "VVariant v" "\<lambda>v. value_field (the_variant v)"]
    by (auto simp: encode_variant_field_def decode_variant_field_def the_variant_def)
qed

lemma codec_datavalue_field:
  assumes "types_ok T" "datavalue_field_codes T f f'"
  shows "codec (encode_datavalue_field T f) (decode_datavalue_field T) (calc T DATAVALUE_TYPE (VDataValue f)) f'"
  using codec_value [OF assms(1), of _ DATAVALUE_TYPE "VDataValue f" "VDataValue f'" the_datavalue] assms(2)
  by (auto simp: encode_datavalue_field_def decode_datavalue_field_def the_datavalue_def datavalue_field_codes_def)

lemma codec_delta_field:
  assumes "types_ok T" "codec (e (snd f)) d n (snd f')" "fst f' = fst f"
  shows "codec (encode_delta_field T e f) (decode_delta_field T d) (calc T UINT16_TYPE (VUInt16 (fst f)) + n) f'"
proof -
  have "codec (run_steps [e (snd f)]) (pbind d (\<lambda>v. preturn (fst f, v))) n (fst f, snd f')"
    by (rule codec_last [OF assms(2)])
  from codec_step [OF codec_ints(2) [OF assms(1), of "fst f"], of "[e (snd f)]" "\<lambda>i. pbind d (\<lambda>v. preturn (i, v))", OF this]
  show ?thesis
    using assms(3) by (simp add: encode_delta_field_def decode_delta_field_def prod_eq_iff del: run_steps.simps)
       (metis prod.collapse)
qed

lemma codec_fields:
  assumes T: "types_ok T" and "list_all2 (\<lambda>x y. codec (f x) d (n x) y) xs ys" "unat k = length xs"
  shows "codec (run_steps [store T UINT16_TYPE (VUInt16 k), forE (unat k) (at_index xs f)])
    (pbind (fetch_u16 T) (\<lambda>k. pfields C k d)) (calc T UINT16_TYPE (VUInt16 k) + (\<Sum>x \<leftarrow> xs. n x)) (k, C ys)"
proof (rule codec_step [OF codec_ints(2) [OF T]])
  show "codec (run_steps [forE (unat k) (at_index xs f)]) (pfields C k d) (\<Sum>x \<leftarrow> xs. n x) (k, C ys)"
    unfolding pfields_def using codec_for [OF assms(2,3)] by (rule codec_last)
qed

lemma codec_ds_frame:
  assumes T: "types_ok T" and h: "ds_header_ok (header m)" and "codec e (d (header m)) n (k, fs)"
  shows "codec (run_steps [UA_DataSetMessageHeader_encodeBinary T (header m), e])
    (pbind (UA_DataSetMessageHeader_decodeBinary T)
      (\<lambda>h. pbind (d h) (\<lambda>(n, fs). preturn \<lparr>header = h, fieldCount = n, frameFields = fs\<rparr>)))
    (UA_DataSetMessageHeader_calcSizeBinary T (header m) + n) \<lparr>header = header m, fieldCount = k, frameFields = fs\<rparr>"
proof (rule codec_step [OF codec_ds_header [OF T h]])
  show "codec (run_steps [e]) (pbind (d (header m)) (\<lambda>(n, fs). preturn \<lparr>header = header m, fieldCount = n, frameFields = fs\<rparr>))
     n \<lparr>header = header m, fieldCount = k, frameFields = fs\<rparr>"
    using codec_last [OF assms(3), of "\<lambda>(n, fs). \<lparr>header = header m, fieldCount = n, frameFields = fs\<rparr>"]
    by (simp add: case_prod_unfold del: run_steps.simps)
qed

lemma codec_key_frame:
  assumes T: "types_ok T" and m: "unat (fieldCount m) = length fs" "frameFields m = DataSetFields fs"
    and e: "fieldEncoding (header m) = UA_FIELDENCODING_VARIANT \<or> fieldEncoding (header m) = UA_FIELDENCODING_DATAVALUE"
    and fs: "list_all2 (field_codes T (fieldEncoding (header m))) fs fs'"
  shows "codec (encode_key_frame T m) (decode_key_frame T (fieldEncoding (header m)))
    (calc T UINT16_TYPE (VUInt16 (fieldCount m)) +
      (if fieldEncoding (header m) = UA_FIELDENCODING_VARIANT then \<Sum>f \<leftarrow> fs. calc T VARIANT_TYPE (VVariant (field_value f))
       else \<Sum>f \<leftarrow> fs. calc T DATAVALUE_TYPE (VDataValue f)))
    (fieldCount m, DataSetFields fs')"
  using e
proof
  assume e: "fieldEncoding (header m) = UA_FIELDENCODING_VARIANT"
  have "list_all2 (\<lambda>x y. codec (encode_variant_field T x) (decode_variant_field T) (calc T VARIANT_TYPE (VVariant (field_value x))) y) fs fs'"
    using fs e by (intro list_all2_mono [OF fs]) (simp add: field_codes_def codec_variant_field [OF T])
  note codec_fields [OF T this m(1), of DataSetFields]
  with e show ?thesis
    by (simp add: encode_key_frame_def decode_key_frame_def key_fields_def m whenE_def del: run_steps.simps)
next
  assume e: "fieldEncoding (header m) = UA_FIELDENCODING_DATAVALUE"
  have "list_all2 (\<lambda>x y. codec (encode_datavalue_field T x) (decode_datavalue_field T) (calc T DATAVALUE_TYPE (VDataValue x)) y) fs fs'"
    using fs e by (intro list_all2_mono [OF fs]) (simp add: field_codes_def codec_datavalue_field [OF T])
  note codec_fields [OF T this m(1), of DataSetFields]
  with e show ?thesis
    by (simp add: encode_key_frame_def decode_key_frame_def key_fields_def m whenE_def del: run_steps.simps)
qed

lemma codec_delta_frame:
  assumes T: "types_ok T" and m: "unat (fieldCount m) = length fs" "frameFields m = DeltaFrameFields fs"
    and e: "fieldEncoding (header m) = UA_FIELDENCODING_VARIANT \<or> fieldEncoding (header m) = UA_FIELDENCODING_DATAVALUE"
    and fs: "list_all2 (delta_codes T (fieldEncoding (header m))) fs fs'"
  shows "codec (encode_delta_frame T m) (decode_delta_frame T (fieldEncoding (header m)))
    (calc T UINT16_TYPE (VUInt16 (fieldCount m)) +
      (if fieldEncoding (header m) = UA_FIELDENCODING_VARIANT
       then \<Sum>f \<leftarrow> fs. calc T UINT16_TYPE (VUInt16 (fst f)) + calc T VARIANT_TYPE (VVariant (field_value (snd f)))
       else \<Sum>f \<leftarrow> fs. calc T UINT16_TYPE (VUInt16 (fst f)) + calc T DATAVALUE_TYPE (VDataValue (snd f))))
    (fieldCount m, DeltaFrameFields fs')"
  using e
proof
  assume e: "fieldEncoding (header m) = UA_FIELDENCODING_VARIANT"
  have "list_all2 (\<lambda>x y. codec (encode_delta_field T (encode_variant_field T) x) (decode_delta_field T (decode_variant_field T))
      (calc T UINT16_TYPE (VUInt16 (fst x)) + calc T VARIANT_TYPE (VVariant (field_value (snd x)))) y) fs fs'"
    using e by (intro list_all2_mono [OF fs] codec_delta_field [OF T] codec_variant_field [OF T])
      (simp_all add: delta_codes_def field_codes_def)
  note codec_fields [OF T this m(1), of DeltaFrameFields]
  with e show ?thesis
    by (simp add: encode_delta_frame_def decode_delta_frame_def delta_fields_def m del: run_steps.simps)
next
  assume e: "fieldEncoding (header m) = UA_FIELDENCODING_DATAVALUE"
  have "list_all2 (\<lambda>x y. codec (encode_delta_field T (encode_datavalue_field T) x) (decode_delta_field T (decode_datavalue_field T))
      (calc T UINT16_TYPE (VUInt16 (fst x)) + calc T DATAVALUE_TYPE (VDataValue (snd x))) y) fs fs'"
    using e by (intro list_all2_mono [OF fs] codec_delta_field [OF T] codec_datavalue_field [OF T])
      (simp_all add: delta_codes_def field_codes_def)
  note codec_fields [OF T this m(1), of DeltaFrameFields]
  with e show ?thesis
    by (simp add: encode_delta_frame_def decode_delta_frame_def delta_fields_def m del: run_steps.simps)
qed

lemma codec_no_fields:
  assumes T: "types_ok T" and e: "fieldEncoding (header m) = 3"
  shows "codec (encode_key_frame T m) (decode_key_frame T 3) (calc T UINT16_TYPE (VUInt16 (fieldCount m))) (fieldCount m, NullFields)"
    "codec (encode_delta_frame T m) (decode_delta_frame T 3) (calc T UINT16_TYPE (VUInt16 (fieldCount m))) (fieldCount m, NullFields)"
proof -
  have "codec (run_steps [store T UINT16_TYPE (VUInt16 (fieldCount m)), returnE GOOD])
      (pbind (fetch_u16 T) (\<lambda>n. preturn (n, NullFields))) (calc T UINT16_TYPE (VUInt16 (fieldCount m)) + 0) (fieldCount m, NullFields)"
    by (rule codec_step [OF codec_ints(2) [OF T]]) (rule codec_skip, rule codec_nil)
  then show "codec (encode_key_frame T m) (decode_key_frame T 3) (calc T UINT16_TYPE (VUInt16 (fieldCount m))) (fieldCount m, NullFields)"
    "codec (encode_delta_frame T m) (decode_delta_frame T 3) (calc T UINT16_TYPE (VUInt16 (fieldCount m))) (fieldCount m, NullFields)"
    using e by (simp_all add: encode_key_frame_def decode_key_frame_def encode_delta_frame_def decode_delta_frame_def
        whenE_def del: run_steps.simps)
qed

text \<open>The content of a DataSetMessage behind its header.\<close>

definition content_steps :: "types \<Rightarrow> ds_message \<Rightarrow> estep" where
  "content_steps T m =
     (let type = dataSetMessageType (header m) in
      if type = UA_DATASETMESSAGE_DATAKEYFRAME then encode_key_frame T m
      else if type = UA_DATASETMESSAGE_DATADELTAFRAME then encode_delta_frame T m
      else if type \<noteq> UA_DATASETMESSAGE_KEEPALIVE then returnE BADNOTIMPLEMENTED
      else returnE GOOD)"

definition decode_content :: "types \<Rightarrow> ds_header \<Rightarrow> (u16 \<times> ds_fields) pdecoder" where
  "decode_content T h =
     (if dataSetMessageType h = UA_DATASETMESSAGE_DATAKEYFRAME then decode_key_frame T (fieldEncoding h)
      else if dataSetMessageType h = UA_DATASETMESSAGE_DATADELTAFRAME then decode_delta_frame T (fieldEncoding h)
      else if dataSetMessageType h \<noteq> UA_DATASETMESSAGE_KEEPALIVE then pfail BADNOTIMPLEMENTED
      else preturn (0, NullFields))"

lemma ds_codes_content:
  assumes T: "types_ok T" and m: "ds_codes T m m'"
  shows "ds_header_ok (header m) \<and> header m' = header m \<and>
    (\<exists>n. codec (content_steps T m) (decode_content T (header m)) n (fieldCount m', frameFields m') \<and>
      UA_DataSetMessage_calcSizeBinary T m = UA_DataSetMessageHeader_calcSizeBinary T (header m) + n)"
  using m
proof cases
  case (keep_alive h n fs)
  then show ?thesis
    by (auto simp: content_steps_def decode_content_def UA_DataSetMessage_calcSizeBinary_def codec_nil intro!: exI [of _ 0])
next
  case (no_fields h n fs)
  then show ?thesis
    using codec_no_fields [OF T, of m]
    by (auto simp: content_steps_def decode_content_def UA_DataSetMessage_calcSizeBinary_def intro!: exI)
next
  case (key_frame h n fs fs')
  then show ?thesis
    using codec_key_frame [OF T, of m fs fs']
    by (auto simp: content_steps_def decode_content_def UA_DataSetMessage_calcSizeBinary_def key_fields_def intro!: exI)
next
  case (delta_frame h n fs fs')
  then show ?thesis
    using codec_delta_frame [OF T, of m fs fs']
    by (auto simp: content_steps_def decode_content_def UA_DataSetMessage_calcSizeBinary_def delta_fields_def intro!: exI)
qed

lemma codec_ds_message:
  assumes T: "types_ok T" and m: "ds_codes T m m'"
  shows "codec (UA_DataSetMessage_encodeBinary T m) (UA_DataSetMessage_decodeBinary T) (UA_DataSetMessage_calcSizeBinary T m) m'"
proof -
  obtain n where h: "ds_header_ok (header m)" and eq: "header m' = header m"
    and c: "codec (content_steps T m) (decode_content T (header m)) n (fieldCount m', frameFields m')"
    and n: "UA_DataSetMessage_calcSizeBinary T m = UA_DataSetMessageHeader_calcSizeBinary T (header m) + n"
    using ds_codes_content [OF assms] by blast
  have m': "\<lparr>header = header m, fieldCount = fieldCount m', frameFields = frameFields m'\<rparr> = m'"
    using eq [symmetric] by simp
  show ?thesis
    using codec_ds_frame [where d = "decode_content T", OF T h c]
    unfolding UA_DataSetMessage_encodeBinary_def UA_DataSetMessage_decodeBinary_def n m' content_steps_def decode_content_def Let_def .
qed

end
