(* ===== verification/Pubsub_Network_Correct.thy ===== *)
theory Pubsub_Network_Correct
  imports Pubsub_Message_Correct
begin

text \<open>
  The round trip of NetworkMessages, part by part: flags, publisher identifier, group header, payload header,
  promoted fields, security header, payload and security footer.
\<close>

subsection \<open>Single bytes and Variants\<close>

lemma UA_decodeBinary_builtin:
  assumes "types_ok T" "i < UA_BUILTIN_TYPES_COUNT"
  obtains n where "length src + 21 < n" and
    "UA_decodeBinary T (Ns0 i) src offset =
      (let (ret, v, c) = (decodeBinaryJumpTable (decode_jump n T) T (Ns0 i) ! i) \<lparr>dbuf = src, dpos = offset, ddepth = 1\<rparr>
       in if ret = GOOD then (GOOD, Some v, dpos c) else (ret, None, offset))"
proof
  have e: "members (dtype_of T (Ns0 i)) = [\<lparr>memberTypeIndex = i, mpadding = 0, namespaceZero = True, misArray = False\<rparr>]"
    "builtin (dtype_of T (Ns0 i))" "decode_index (dtype_of T (Ns0 i)) = i"
    using builtin_entry [OF assms] by (simp_all add: builtin_ok_def)
  have f: "decode_fuel src = Suc (length src + 22)"
    by (simp add: decode_fuel_def UA_ENCODING_MAX_RECURSION_def)
  have j: "decode_jump (decode_fuel src) T (Ns0 i) = decodeBinaryJumpTable (decode_jump (length src + 22) T) T (Ns0 i) ! i"
    by (rule ext) (simp only: f decode_jump.simps e)
  show "UA_decodeBinary T (Ns0 i) src offset =
      (let (ret, v, c) = (decodeBinaryJumpTable (decode_jump (length src + 22) T) T (Ns0 i) ! i) \<lparr>dbuf = src, dpos = offset, ddepth = 1\<rparr>
       in if ret = GOOD then (GOOD, Some v, dpos c) else (ret, None, offset))"
    by (simp add: UA_decodeBinary_def decodeBinaryInternal_def e j membertype_def dmap_def value_of_def Let_def split_def)
qed simp

lemma fetch_byte_eq:
  assumes "types_ok T"
  shows "fetch_byte T src offset =
    (if offset < length src then (Inr (src ! offset), Suc offset) else (Inl BADDECODINGERROR, offset))"
proof -
  obtain n where "UA_decodeBinary T (Ns0 2) src offset =
      (let (ret, v, c) = (decodeBinaryJumpTable (decode_jump n T) T (Ns0 2) ! 2) \<lparr>dbuf = src, dpos = offset, ddepth = 1\<rparr>
       in if ret = GOOD then (GOOD, Some v, dpos c) else (ret, None, offset))"
    by (rule UA_decodeBinary_builtin [OF assms, of 2 src offset]) (simp_all add: UA_BUILTIN_TYPES_COUNT_def)
  then show ?thesis
    by (simp add: fetch_byte_def fetch_def decodeBinaryJumpTable_def dmap_def Byte_decodeBinary_def get_def the_byte_def
      hd_drop_conv_nth take_Suc_conv_app_nth)
qed

lemma fetch_u16_eq:
  assumes "types_ok T"
  shows "fetch_u16 T src offset =
    (if offset + 2 \<le> length src then (Inr (UA_decode16 (take 2 (drop offset src))), offset + 2) else (Inl BADDECODINGERROR, offset))"
proof -
  obtain n where "UA_decodeBinary T (Ns0 4) src offset =
      (let (ret, v, c) = (decodeBinaryJumpTable (decode_jump n T) T (Ns0 4) ! 4) \<lparr>dbuf = src, dpos = offset, ddepth = 1\<rparr>
       in if ret = GOOD then (GOOD, Some v, dpos c) else (ret, None, offset))"
    by (rule UA_decodeBinary_builtin [OF assms, of 4 src offset]) (simp_all add: UA_BUILTIN_TYPES_COUNT_def)
  then show ?thesis
    by (simp add: fetch_u16_def fetch_def decodeBinaryJumpTable_def dmap_def UInt16_decodeBinary_def get_def the_u16_def)
qed

lemma fetch_variant_progress:
  assumes T: "types_ok T" and "fetch T VARIANT_TYPE f src offset = (Inr x, o1)"
  shows "offset < o1"
proof -
  let ?c = "\<lparr>dbuf = src, dpos = offset, ddepth = 1\<rparr>"
  obtain n where n: "length src + 21 < n" "UA_decodeBinary T (Ns0 23) src offset =
      (let (ret, v, c) = (decodeBinaryJumpTable (decode_jump n T) T (Ns0 23) ! 23) ?c
       in if ret = GOOD then (GOOD, Some v, dpos c) else (ret, None, offset))"
    by (rule UA_decodeBinary_builtin [OF T, of 23 src offset]) (simp_all add: UA_BUILTIN_TYPES_COUNT_def)
  obtain r1 b c1 where d1: "Byte_decodeBinary ?c = (r1, b, c1)" by (metis prod_cases3)
  have "need ?c < Suc n"
    using n(1) by (simp add: need_def UA_ENCODING_MAX_RECURSION_def)
  then have ok: "okres c1 (Variant_decodeBinary (decode_jump n T) T ?c)"
    using Variant_after_byte [where dec = "decode_jump n T", OF sound_jump _ d1] by blast
  have v: "fst (Variant_decodeBinary (decode_jump n T) T ?c) = GOOD \<and> dpos (snd (snd (Variant_decodeBinary (decode_jump n T) T ?c))) = o1"
    using assms(2) n(2)
    by (simp add: fetch_def decodeBinaryJumpTable_def dmap_def split_def Let_def split: if_splits)
  then have "r1 = GOOD"
    using d1 by (auto simp: Variant_decodeBinary_def split: if_splits)
  with d1 have "dpos c1 = Suc offset"
    using Byte_good [of ?c b c1] by simp
  then show ?thesis
    using ok v by (auto simp: okres_def moves_def)
qed
lemma byte_entry:
  assumes "types_ok T"
  shows "members (dtype_of T (Ns0 2)) = [\<lparr>memberTypeIndex = 2, mpadding = 0, namespaceZero = True, misArray = False\<rparr>]"
    "builtin (dtype_of T (Ns0 2))" "memSize (dtype_of T (Ns0 2)) = 1"
  using builtin_entry(1) [OF assms, of 2] by (simp_all add: UA_BUILTIN_TYPES_COUNT_def builtin_ok_def fixed_size_def)

lemma store_byte:
  assumes "types_ok T" "edepth c = 0"
  shows "0 < eroom c \<Longrightarrow> store T BYTE_TYPE (VByte x) c = (GOOD, emit [x] c)"
    "eroom c = 0 \<Longrightarrow> escript c = None \<Longrightarrow> store T BYTE_TYPE (VByte x) c = (BADRESPONSETOOLARGE, c)"
  using assms(2)
  by (simp_all add: store_def UA_encodeBinary_def encodeBinaryInternal_def byte_entry [OF assms(1)] fields_of_def membertype_def
      Byte_encodeBinary_def put_def emit_def script_len_def exchangeBuffer_def)

subsection \<open>Flags\<close>

lemma octet_flags:
  assumes "v < (8 :: u8)"
  shows "\<not> has_flag v 8" "\<not> has_flag v 16" "\<not> has_flag v 32" "\<not> has_flag v 64" "\<not> has_flag v 128" "v AND 7 = v"
proof -
  have t: "v = take_bit 3 v"
    using assms by (simp add: word_less_nat_alt word_unat_eq_iff unsigned_take_bit_eq take_bit_nat_eq_self)
  then have b: "\<not> bit v n" if "3 \<le> n" for n
    using that by (metis bit_take_bit_iff not_less)
  have "v AND 2 ^ n = 0" if "3 \<le> n" for n
    using b [OF that] by (auto intro!: bit_word_eqI simp: bit_simps)
  from this [of 3] show "\<not> has_flag v 8"
    by (simp add: has_flag_def)
  have "v < 16"
    using assms by (rule order.strict_trans) simp
  then show "\<not> has_flag v 16" "\<not> has_flag v 32" "\<not> has_flag v 64" "\<not> has_flag v 128"
    by (rule nibble_flags)+
  show "v AND 7 = v"
    using t by (simp add: take_bit_eq_mask mask_eq_exp_minus_1)
qed

definition announced :: "network_message \<Rightarrow> nm_announced" where
  "announced m =
     \<lparr>aVersion = version m, aPublisherId = publisherIdEnabled m, aGroupHeader = (groupHeader m \<noteq> None),
      aPayloadHeader = (payloadHeader m \<noteq> None), aPublisherIdType = publisherIdType (publisherId m),
      aDataSetClassId = (dataSetClassId m \<noteq> None), aSecurity = (securityHeader m \<noteq> None),
      aTimestamp = (timestamp m \<noteq> None), aPicoseconds = (picoseconds m \<noteq> None), aChunk = chunkMessage m,
      aPromoted = (promotedFields m \<noteq> None), aType = networkMessageType m\<rparr>"

lemma nm_flags_bits:
  assumes "version m < 16"
  shows "nm_flags m AND 15 = version m" "has_flag (nm_flags m) 16 = publisherIdEnabled m"
    "has_flag (nm_flags m) 32 = (groupHeader m \<noteq> None)" "has_flag (nm_flags m) 64 = (payloadHeader m \<noteq> None)"
    "has_flag (nm_flags m) 128 = UA_NetworkMessage_ExtendedFlags1Enabled m"
  using nibble_flags [OF assms]
  by (simp_all add: nm_flags_def has_flag_flag) (simp add: flag_def bit.conj_disj_distrib2)

lemma nm_extended_flags1_bits:
  assumes "publisherIdType (publisherId m) < 8"
  shows "nm_extended_flags1 m AND 7 = publisherIdType (publisherId m)"
    "has_flag (nm_extended_flags1 m) 8 = (dataSetClassId m \<noteq> None)"
    "has_flag (nm_extended_flags1 m) 16 = (securityHeader m \<noteq> None)"
    "has_flag (nm_extended_flags1 m) 32 = (timestamp m \<noteq> None)"
    "has_flag (nm_extended_flags1 m) 64 = (picoseconds m \<noteq> None)"
    "has_flag (nm_extended_flags1 m) 128 = UA_NetworkMessage_ExtendedFlags2Enabled m"
  using octet_flags [OF assms]
  by (simp_all add: nm_extended_flags1_def has_flag_flag) (simp add: flag_def bit.conj_disj_distrib2)

lemma nm_extended_flags2_bits:
  assumes "networkMessageType m = UA_NETWORKMESSAGE_DATASET"
  shows "has_flag (nm_extended_flags2 m) 1 = chunkMessage m"
    "has_flag (nm_extended_flags2 m) 2 = (promotedFields m \<noteq> None)"
    "drop_bit 2 (nm_extended_flags2 m AND 28) = networkMessageType m"
  using assms
  by (simp_all add: nm_extended_flags2_def has_flag_flag)
     (simp_all add: has_flag_def flag_def bit.conj_disj_distrib2)

lemma announced_split:
  assumes "version m < 16" "publisherIdType (publisherId m) < 8" "networkMessageType m = UA_NETWORKMESSAGE_DATASET"
  shows "UA_NetworkMessage_ExtendedFlags2Enabled m \<Longrightarrow> announced m =
      nm_announce2 (nm_extended_flags2 m) (nm_announce1 (nm_extended_flags1 m) (nm_announced_init (nm_flags m)))"
    "\<not> UA_NetworkMessage_ExtendedFlags2Enabled m \<Longrightarrow> announced m =
      nm_announce1 (nm_extended_flags1 m) (nm_announced_init (nm_flags m))"
    "\<not> UA_NetworkMessage_ExtendedFlags1Enabled m \<Longrightarrow> announced m = nm_announced_init (nm_flags m)"
proof -
  note bits = nm_flags_bits [OF assms(1)] nm_extended_flags1_bits [OF assms(2)] nm_extended_flags2_bits [OF assms(3)] nm_extended_flags2_bits(3) [OF assms(3), simplified]
  note defs = announced_def nm_announced_init_def nm_announce1_def nm_announce2_def
  show "announced m = nm_announce2 (nm_extended_flags2 m) (nm_announce1 (nm_extended_flags1 m) (nm_announced_init (nm_flags m)))"
    using assms(3) by (simp add: defs bits del: not_None_eq)
  show "announced m = nm_announce1 (nm_extended_flags1 m) (nm_announced_init (nm_flags m))"
    if "\<not> UA_NetworkMessage_ExtendedFlags2Enabled m"
    using that by (simp add: defs bits UA_NetworkMessage_ExtendedFlags2Enabled_def del: not_None_eq)
  show "announced m = nm_announced_init (nm_flags m)" if "\<not> UA_NetworkMessage_ExtendedFlags1Enabled m"
    using that by (simp add: defs bits UA_NetworkMessage_ExtendedFlags1Enabled_def UA_NetworkMessage_ExtendedFlags2Enabled_def del: not_None_eq)
qed

definition nm_flags_size :: "types \<Rightarrow> network_message \<Rightarrow> nat" where
  "nm_flags_size T m =
     calc T BYTE_TYPE (VByte 0)
       + (if UA_NetworkMessage_ExtendedFlags1Enabled m
          then calc T BYTE_TYPE (VByte 0)
               + (if UA_NetworkMessage_ExtendedFlags2Enabled m then calc T BYTE_TYPE (VByte 0) else 0)
          else 0)"

lemma codec_byte_step:
  assumes "types_ok T" "codec (run_steps es) (f x) m y"
  shows "codec (run_steps (store T BYTE_TYPE (VByte x) # es)) (pbind (fetch_byte T) f) (calc T BYTE_TYPE (VByte 0) + m) y"
  using codec_step [of "store T BYTE_TYPE (VByte x)" "fetch_byte T" _ x es f m y, OF codec_ints(1) [OF assms(1)] assms(2)]
    calc_ints(1) [OF assms(1)] by metis

lemma codec_single: "codec e d n x \<Longrightarrow> codec (run_steps [e]) d n x"
  using pfits_step [OF _ pfits_Nil(2), of e] by (fastforce simp: codec_def)

lemma codec_nm_flags:
  assumes T: "types_ok T" and m: "version m < 16" "publisherIdType (publisherId m) < 8" "networkMessageType m = UA_NETWORKMESSAGE_DATASET"
  shows "codec (encode_nm_flags T m) (decode_nm_flags T) (nm_flags_size T m) (announced m)"
proof (cases "UA_NetworkMessage_ExtendedFlags1Enabled m")
  case False
  show ?thesis
    unfolding encode_nm_flags_def decode_nm_flags_def nm_flags_size_def
    by (rule codec_byte_step [OF T])
      (simp only: nm_flags_bits [OF m(1)] False if_False whenE_def announced_split(3) [OF m False] codec_skip codec_nil)
next
  case True
  have "codec (run_steps [store T BYTE_TYPE (VByte (nm_extended_flags1 m)),
      whenE (UA_NetworkMessage_ExtendedFlags2Enabled m) (store T BYTE_TYPE (VByte (nm_extended_flags2 m)))])
    (pbind (fetch_byte T) (\<lambda>v1. if has_flag v1 NM_EXTENDEDFLAGS2_ENABLED_MASK
       then pbind (fetch_byte T) (\<lambda>v2. preturn (nm_announce2 v2 (nm_announce1 v1 (nm_announced_init (nm_flags m)))))
       else preturn (nm_announce1 v1 (nm_announced_init (nm_flags m)))))
    (calc T BYTE_TYPE (VByte 0) + (if UA_NetworkMessage_ExtendedFlags2Enabled m then calc T BYTE_TYPE (VByte 0) else 0)) (announced m)"
  proof (rule codec_byte_step [OF T], cases "UA_NetworkMessage_ExtendedFlags2Enabled m")
    case True
    have "codec (run_steps [store T BYTE_TYPE (VByte (nm_extended_flags2 m))])
        (pbind (fetch_byte T) (\<lambda>v2. preturn (nm_announce2 v2 (nm_announce1 (nm_extended_flags1 m) (nm_announced_init (nm_flags m))))))
        (calc T BYTE_TYPE (VByte 0) + 0) (announced m)"
      by (rule codec_byte_step [OF T]) (simp only: announced_split(1) [OF m True] codec_nil)
    then show "codec (run_steps [whenE (UA_NetworkMessage_ExtendedFlags2Enabled m) (store T BYTE_TYPE (VByte (nm_extended_flags2 m)))])
        (if has_flag (nm_extended_flags1 m) NM_EXTENDEDFLAGS2_ENABLED_MASK
         then pbind (fetch_byte T) (\<lambda>v2. preturn (nm_announce2 v2 (nm_announce1 (nm_extended_flags1 m) (nm_announced_init (nm_flags m)))))
         else preturn (nm_announce1 (nm_extended_flags1 m) (nm_announced_init (nm_flags m))))
        (if UA_NetworkMessage_ExtendedFlags2Enabled m then calc T BYTE_TYPE (VByte 0) else 0) (announced m)"
      by (simp only: nm_extended_flags1_bits [OF m(2)] True if_True whenE_def add_0_right)
  next
    case False
    then show "codec (run_steps [whenE (UA_NetworkMessage_ExtendedFlags2Enabled m) (store T BYTE_TYPE (VByte (nm_extended_flags2 m)))])
        (if has_flag (nm_extended_flags1 m) NM_EXTENDEDFLAGS2_ENABLED_MASK
         then pbind (fetch_byte T) (\<lambda>v2. preturn (nm_announce2 v2 (nm_announce1 (nm_extended_flags1 m) (nm_announced_init (nm_flags m)))))
         else preturn (nm_announce1 (nm_extended_flags1 m) (nm_announced_init (nm_flags m))))
        (if UA_NetworkMessage_ExtendedFlags2Enabled m then calc T BYTE_TYPE (VByte 0) else 0) (announced m)"
      by (simp only: nm_extended_flags1_bits [OF m(2)] if_False whenE_def announced_split(2) [OF m False] codec_skip codec_nil)
  qed
  note inner = codec_single [OF this]
  show ?thesis
    unfolding encode_nm_flags_def decode_nm_flags_def nm_flags_size_def
    by (rule codec_byte_step [OF T]) (use inner in \<open>simp only: nm_flags_bits [OF m(1)] True if_True whenE_def\<close>)
qed

subsection \<open>Publisher identifier, group header and payload header\<close>

definition publisherId_ok :: "bool \<Rightarrow> publisher_id \<Rightarrow> bool" where
  "publisherId_ok enabled p \<longleftrightarrow> publisherIdType p < 8 \<and>
     (if enabled then (case p of PublisherIdInvalid _ \<Rightarrow> False | PublisherIdString s \<Rightarrow> string_ok s | _ \<Rightarrow> True)
      else p = null_publisherId (publisherIdType p))"

lemma codec_publisherId:
  assumes T: "types_ok T" and p: "publisherId_ok b p"
  shows "codec (whenE b (encode_publisherId T p))
    (if b then decode_publisherId T (publisherIdType p) else preturn (null_publisherId (publisherIdType p)))
    (if b then publisherId_size T p else 0) p"
proof (cases b)
  case False
  with p have "null_publisherId (publisherIdType p) = p"
    by (simp add: publisherId_ok_def)
  with False show ?thesis
    by (simp add: whenE_def codec_nil)
next
  case True
  with p show ?thesis
    using codec_basic [OF T, of 2 "VByte _" "\<lambda>v. PublisherIdByte (the_byte v)"]
      codec_basic [OF T, of 4 "VUInt16 _" "\<lambda>v. PublisherIdUInt16 (the_u16 v)"]
      codec_basic [OF T, of 6 "VUInt32 _" "\<lambda>v. PublisherIdUInt32 (the_u32 v)"]
      codec_basic [OF T, of 8 "VUInt64 _" "\<lambda>v. PublisherIdUInt64 (the_u64 v)"]
      codec_basic [OF T, of 11 "VString _" "\<lambda>v. PublisherIdString (the_string v)"]
    by (cases p) (auto simp: publisherId_ok_def whenE_def decode_publisherId_def the_byte_def the_u16_def the_u32_def
        the_u64_def the_string_def)
qed

lemma gh_flags_bits:
  "has_flag (gh_flags g) 1 = (writerGroupId g \<noteq> None)" "has_flag (gh_flags g) 2 = (groupVersion g \<noteq> None)"
  "has_flag (gh_flags g) 4 = (networkMessageNumber g \<noteq> None)" "has_flag (gh_flags g) 8 = (sequenceNumber g \<noteq> None)"
  by (simp_all add: gh_flags_def has_flag_flag)

lemma codec_groupHeader:
  assumes T: "types_ok T"
  shows "codec (encode_groupHeader T g) (decode_groupHeader T) (groupHeader_size T g) g"
proof -
  have "codec (encode_groupHeader T g) (decode_groupHeader T)
    (calc T BYTE_TYPE (VByte 0) + (opt_calc T UINT16_TYPE VUInt16 (writerGroupId g)
       + (opt_calc T UINT32_TYPE VUInt32 (groupVersion g) + (opt_calc T UINT16_TYPE VUInt16 (networkMessageNumber g)
       + opt_calc T UINT16_TYPE VUInt16 (sequenceNumber g))))) g"
    unfolding encode_groupHeader_def decode_groupHeader_def
    apply (rule codec_byte_step [OF T])
    apply (simp only: gh_flags_bits)
    apply (rule codec_step [OF codec_opt_ints(1) [OF T]])
    apply (rule codec_step [OF codec_opt_ints(2) [OF T]])
    apply (rule codec_step [OF codec_opt_ints(1) [OF T]])
    apply (rule codec_last [OF codec_opt_ints(1) [OF T], THEN back_subst [where P = "codec _ _ _"]])
    apply simp
    done
  then show ?thesis
    by (simp only: groupHeader_size_def add.assoc)
qed

definition payloadHeader_ok :: "payload_header \<Rightarrow> bool" where
  "payloadHeader_ok p \<longleftrightarrow> (case dataSetWriterIds p of None \<Rightarrow> False | Some ids \<Rightarrow> length ids = unat (count p))"

definition payloadHeader_size :: "types \<Rightarrow> payload_header \<Rightarrow> nat" where
  "payloadHeader_size T h = calc T BYTE_TYPE (VByte (count h)) + calc T UINT16_TYPE (VUInt16 0) * unat (count h)"

lemma codec_u16_list:
  assumes T: "types_ok T" and "k = length xs"
  shows "codec (forE k (at_index xs (\<lambda>x. store T UINT16_TYPE (VUInt16 x)))) (prepeat k (fetch_u16 T))
    (calc T UINT16_TYPE (VUInt16 0) * k) xs"
proof -
  have "list_all2 (\<lambda>x y. codec (store T UINT16_TYPE (VUInt16 x)) (fetch_u16 T) 2 y) xs xs"
    using codec_ints(2) [OF T] calc_ints(2) [OF T] by (auto simp: list_all2_same)
  from codec_for [OF this assms(2)] show ?thesis
    using assms(2) by (simp add: calc_ints [OF T] sum_list_triv mult.commute)
qed

lemma codec_payloadHeader:
  assumes T: "types_ok T" and p: "payloadHeader_ok p"
  shows "codec (encode_payloadHeader T UA_NETWORKMESSAGE_DATASET p) (decode_payloadHeader T UA_NETWORKMESSAGE_DATASET)
    (payloadHeader_size T p) p"
proof -
  obtain ids where ids: "dataSetWriterIds p = Some ids" "length ids = unat (count p)"
    using p by (auto simp: payloadHeader_ok_def split: option.splits)
  let ?e = "forE (unat (count p)) (at_index ids (\<lambda>x. store T UINT16_TYPE (VUInt16 x)))"
  let ?g = "\<lambda>n ids. \<lparr>count = n, dataSetWriterIds = Some ids\<rparr>"
  have p': "?g (count p) ids = p"
    using ids(1) by (cases p) simp
  have "codec (run_steps [?e]) (pbind (prepeat (unat (count p)) (fetch_u16 T)) (\<lambda>ids. preturn (?g (count p) ids)))
      (calc T UINT16_TYPE (VUInt16 0) * unat (count p)) (?g (count p) ids)"
    by (rule codec_last [OF codec_u16_list [OF T]]) (simp add: ids)
  then have "codec (run_steps [returnE GOOD, ?e]) (pbind (prepeat (unat (count p)) (fetch_u16 T)) (\<lambda>ids. preturn (?g (count p) ids)))
      (calc T UINT16_TYPE (VUInt16 0) * unat (count p)) p"
    using p' by (simp add: codec_skip del: run_steps.simps)
  note codec_step [where f = "\<lambda>n. pbind (prepeat (unat n) (fetch_u16 T)) (\<lambda>ids. preturn (?g n ids))",
    OF codec_ignore [OF codec_ints(1) [OF T]] this]
  then show ?thesis
    using ids(1) by (simp add: encode_payloadHeader_def decode_payloadHeader_def whenE_def payloadHeader_size_def codec_skip del: run_steps.simps)
qed

subsection \<open>Promoted fields\<close>

definition promoted_codes :: "types \<Rightarrow> variant list \<Rightarrow> variant list \<Rightarrow> bool" where
  "promoted_codes T vs vs' \<longleftrightarrow>
     list_all2 (\<lambda>v v'. codes T UA_ENCODING_MAX_RECURSION (Ns0 VARIANT_TYPE) (VVariant v) (VVariant v')) vs vs'
     \<and> (\<Sum>v \<leftarrow> vs. calc T VARIANT_TYPE (VVariant v)) < 65536"

definition promotedFields_size :: "types \<Rightarrow> variant list \<Rightarrow> nat" where
  "promotedFields_size T vs = calc T UINT16_TYPE (VUInt16 0) + (\<Sum>v \<leftarrow> vs. calc T VARIANT_TYPE (VVariant v))"

lemma promoted_size_eq:
  assumes "(\<Sum>v \<leftarrow> vs. calc T VARIANT_TYPE (VVariant v)) < 65536"
  shows "unat (promoted_size T vs) = (\<Sum>v \<leftarrow> vs. calc T VARIANT_TYPE (VVariant v))"
proof -
  have "fold (\<lambda>v n. n + of_nat (calc T VARIANT_TYPE (VVariant v))) vs k
      = k + (of_nat (\<Sum>v \<leftarrow> vs. calc T VARIANT_TYPE (VVariant v)) :: u16)" for k
    by (induction vs arbitrary: k) (simp_all add: add.assoc)
  then show ?thesis
    using assms by (simp add: promoted_size_def unsigned_of_nat take_bit_nat_eq_self)
qed

lemma promoted_loop_reads:
  assumes "list_all2 (\<lambda>bs v. preads (fetch T VARIANT_TYPE the_variant) bs v \<and> bs \<noteq> []) bss vs" "vs \<noteq> []"
    and "length (concat bss) \<le> n" "starts src offset (concat bss)"
  shows "promoted_loop n T (offset + length (concat bss)) src offset = (Inr vs, offset + length (concat bss))"
  using assms
proof (induction bss vs arbitrary: n offset rule: list_all2_induct)
  case Nil
  then show ?case by simp
next
  case (Cons bs bss v vs)
  obtain k where n: "n = Suc k"
    using Cons.hyps(1) Cons.prems(2) by (cases n) auto
  have f: "fetch T VARIANT_TYPE the_variant src offset = (Inr v, offset + length bs)"
    using Cons.hyps(1) Cons.prems(3) by (simp add: preads_def starts_append)
  show ?case
  proof (cases "vs = []")
    case True
    with Cons.hyps(2) show ?thesis
      by (simp add: n pbind_def f preturn_def)
  next
    case False
    then have "concat bss \<noteq> []"
      using Cons.hyps(2) by (cases vs) (auto simp: list_all2_Cons2)
    moreover have "0 < length bs"
      using Cons.hyps(1) by simp
    then have "length (concat bss) \<le> k"
      using Cons.prems(2) n by (simp only: concat.simps length_append)
    then have "promoted_loop k T (offset + length bs + length (concat bss)) src (offset + length bs)
        = (Inr vs, offset + length bs + length (concat bss))"
      using Cons.prems(3) False by (intro Cons.IH) (simp_all add: starts_append)
    ultimately show ?thesis
      by (simp add: n pbind_def f preturn_def add.assoc)
  qed
qed

lemma codec_promoted:
  assumes T: "types_ok T" and vs: "promoted_codes T vs vs'"
  shows "codec (encode_promotedFields T vs) (decode_promotedFields T) (promotedFields_size T vs) vs'"
proof -
  let ?sum = "\<Sum>v \<leftarrow> vs. calc T VARIANT_TYPE (VVariant v)"
  have "list_all2 (\<lambda>v v'. \<exists>bs. pfits (store T VARIANT_TYPE (VVariant v)) bs \<and> preads (fetch T VARIANT_TYPE the_variant) bs v'
      \<and> length bs = calc T VARIANT_TYPE (VVariant v)) vs vs'"
    using vs codec_value [OF T _ order_refl, of VARIANT_TYPE _ _ the_variant]
    unfolding promoted_codes_def codec_def by (fastforce simp: the_variant_def intro: list_all2_mono)
  then obtain bss where e: "pfits (run_steps (map (\<lambda>v. ignoreE (store T VARIANT_TYPE (VVariant v))) vs)) (concat bss)"
    and d: "list_all2 (preads (fetch T VARIANT_TYPE the_variant)) bss vs'" and l: "length (concat bss) = ?sum"
  proof (induction vs vs' arbitrary: thesis rule: list_all2_induct)
    case Nil
    from Nil.prems [of "[]"] show ?case by (simp add: pfits_def)
  next
    case (Cons v vs v' vs')
    then obtain bs where bs: "pfits (store T VARIANT_TYPE (VVariant v)) bs" "preads (fetch T VARIANT_TYPE the_variant) bs v'"
      "length bs = calc T VARIANT_TYPE (VVariant v)" by blast
    show ?case
    proof (rule Cons.IH)
      fix bss
      assume "pfits (run_steps (map (\<lambda>v. ignoreE (store T VARIANT_TYPE (VVariant v))) vs)) (concat bss)"
        "list_all2 (preads (fetch T VARIANT_TYPE the_variant)) bss vs'"
        "length (concat bss) = (\<Sum>v \<leftarrow> vs. calc T VARIANT_TYPE (VVariant v))"
      with bs pfits_step [OF pfits_ignore [OF bs(1)]] show ?case
        by (intro Cons.prems [of "bs # bss"]) (simp_all del: run_steps.simps)
    qed
  qed
  have ne: "bs \<noteq> []" if "preads (fetch T VARIANT_TYPE the_variant) bs v" for bs v
    using that fetch_variant_progress [OF T, of the_variant bs 0 v]
    by (fastforce simp: preads_def starts_def at_def)
  have d': "list_all2 (\<lambda>bs v. preads (fetch T VARIANT_TYPE the_variant) bs v \<and> bs \<noteq> []) bss vs'"
    using d by (rule list_all2_mono) (simp add: ne)
  let ?loop = "\<lambda>sz :: u16. \<lambda>src offset. if sz > 0 then promoted_loop (unat sz) T (offset + unat sz) src offset else preturn [] src offset"
  have sz: "unat (promoted_size T vs) = ?sum"
    using vs by (simp add: promoted_codes_def promoted_size_eq)
  have "preads (?loop (promoted_size T vs)) (concat bss) vs'"
  proof (cases "vs' = []")
    case True
    then have "bss = []" using d by simp
    moreover from this have "unat (promoted_size T vs) = 0" using l sz by simp
    ultimately show ?thesis using True by (simp add: preads_def preturn_def word_less_nat_alt)
  next
    case False
    then have "concat bss \<noteq> []" using d' by (cases vs') (auto simp: list_all2_Cons2)
    then have "promoted_size T vs > 0" using sz l by (simp add: word_less_nat_alt del: concat_eq_Nil_conv) (metis length_greater_0_conv)
    then show ?thesis
      using promoted_loop_reads [OF d' False] sz l by (simp add: preads_def)
  qed
  then have "codec (run_steps (map (\<lambda>v. ignoreE (store T VARIANT_TYPE (VVariant v))) vs)) (?loop (promoted_size T vs)) ?sum vs'"
    using e l by (intro codecI)
  from codec_step [where f = ?loop, OF codec_ignore [OF codec_ints(2) [OF T]] this] show ?thesis
    by (simp add: encode_promotedFields_def decode_promotedFields_def promotedFields_size_def calc_ints [OF T] del: run_steps.simps)
qed

subsection \<open>Security header and footer\<close>

definition securityHeader_ok :: "security_header \<Rightarrow> bool" where
  "securityHeader_ok s \<longleftrightarrow> arr_length (messageNonce s) = unat (nonceLength s) \<and> messageNonce s \<noteq> Some []"

lemma sh_flags_bits:
  "has_flag (sh_flags s) 1 = networkMessageSigned s" "has_flag (sh_flags s) 2 = networkMessageEncrypted s"
  "has_flag (sh_flags s) 4 = (securityFooterSize s \<noteq> None)" "has_flag (sh_flags s) 8 = forceKeyReset s"
  by (simp_all add: sh_flags_def has_flag_flag)

lemma codec_nonce:
  assumes T: "types_ok T" and s: "arr_length a = unat n" "a \<noteq> Some []"
  shows "codec (forE (unat n) (at_index (arr_list a) (\<lambda>x. store T BYTE_TYPE (VByte x)))) (popt (n > 0) (prepeat (unat n) (fetch_byte T)))
    (calc T BYTE_TYPE (VByte 0) * unat n) a"
proof (cases a)
  case None
  with s(1) have "n = 0" by (simp add: unat_eq_0)
  with None show ?thesis
    by (simp add: forE_def popt_def codec_nil(1) del: run_steps.simps)
next
  case (Some bs)
  have "list_all2 (\<lambda>x y. codec (store T BYTE_TYPE (VByte x)) (fetch_byte T) 1 y) bs bs"
    using codec_ints(1) [OF T] calc_ints(1) [OF T] by (auto simp: list_all2_same)
  from codec_for [OF this, of "unat n"] have "codec (forE (unat n) (at_index bs (\<lambda>x. store T BYTE_TYPE (VByte x))))
      (prepeat (unat n) (fetch_byte T)) (unat n) bs"
    using s(1) Some by (simp add: sum_list_triv)
  from codec_pmap [OF this, of Some] show ?thesis
    using s Some by (cases bs) (auto simp: popt_def calc_ints [OF T] word_less_nat_alt)
qed

lemma codec_securityHeader:
  assumes T: "types_ok T" and s: "securityHeader_ok s"
  shows "codec (encode_securityHeader T s) (decode_securityHeader T) (securityHeader_size T s) s"
proof -
  note nonce = codec_nonce [OF T, of "messageNonce s" "nonceLength s", OF
    conjunct1 [OF s [unfolded securityHeader_ok_def]] conjunct2 [OF s [unfolded securityHeader_ok_def]]]
  have "codec (encode_securityHeader T s) (decode_securityHeader T)
    (calc T BYTE_TYPE (VByte 0) + (calc T UINT32_TYPE (VUInt32 (securityTokenId s))
       + (calc T BYTE_TYPE (VByte 0) + (calc T BYTE_TYPE (VByte 0) * unat (nonceLength s)
       + opt_calc T UINT16_TYPE VUInt16 (securityFooterSize s))))) s"
    unfolding encode_securityHeader_def decode_securityHeader_def
    apply (rule codec_byte_step [OF T])
    apply (simp only: sh_flags_bits)
    apply (rule codec_step [OF codec_ints(3) [OF T]])
    apply (rule codec_byte_step [OF T])
    apply (rule codec_step [OF nonce])
    apply (rule codec_last [OF codec_opt_ints(1) [OF T], THEN back_subst [where P = "codec _ _ _"]])
    apply simp
    done
  then show ?thesis
    by (simp only: securityHeader_size_def add.assoc calc_ints(1) [OF T])
qed

text \<open>A footer of at most 255 bytes: the index of the loop does not wrap around.\<close>

lemma index_less: "i \<le> length bs \<Longrightarrow> length bs < 256 \<Longrightarrow> unat sz = length bs \<Longrightarrow>
    (ucast (of_nat i :: u8) < (sz :: u16)) = (i < length bs) \<and> (i < length bs \<longrightarrow> unat (of_nat i :: u8) = i)"
  by (simp add: word_less_nat_alt unsigned_ucast_eq unsigned_of_nat take_bit_nat_eq_self)

lemma footer_loop_writes:
  assumes T: "types_ok T" and sz: "unat sz = length bs" "length bs < 256"
    and "edepth c = 0" "i \<le> length bs" "length bs - i \<le> eroom c" "length bs - i < n"
  shows "footer_loop n T sz bs (of_nat i) c = (GOOD, emit (drop i bs) c)"
  using assms(4-)
proof (induction n arbitrary: i c)
  case 0
  then show ?case by simp
next
  case (Suc n)
  note ix = index_less [OF Suc.prems(2) sz(2,1)]
  show ?case
  proof (cases "i < length bs")
    case False
    with ix Suc.prems(2) show ?thesis by simp
  next
    case True
    have "store T BYTE_TYPE (VByte (bs ! i)) c = (GOOD, emit [bs ! i] c)"
      using True Suc.prems by (intro store_byte [OF T]) auto
    moreover have "footer_loop n T sz bs (of_nat (Suc i)) (emit [bs ! i] c) = (GOOD, emit (drop (Suc i) bs) (emit [bs ! i] c))"
      using True Suc.prems by (intro Suc.IH) auto
    ultimately show ?thesis
      using ix True by (simp add: at_index_def add.commute Cons_nth_drop_Suc)
  qed
qed

lemma footer_loop_reads:
  assumes T: "types_ok T" and sz: "unat sz = length bs" "length bs < 256"
    and "length acc = length bs" "take i acc = take i bs" "i \<le> length bs" "starts src offset (drop i bs)" "length bs - i < n"
  shows "footer_decode_loop n T sz acc (of_nat i) src offset = (Inr bs, offset + (length bs - i))"
  using assms(4-)
proof (induction n arbitrary: i acc offset)
  case 0
  then show ?case by simp
next
  case (Suc n)
  note ix = index_less [OF Suc.prems(3) sz(2,1)]
  show ?case
  proof (cases "i < length bs")
    case False
    with ix Suc.prems show ?thesis by (simp add: preturn_def)
  next
    case True
    have st: "starts src offset ([bs ! i] @ drop (Suc i) bs)"
      using Suc.prems(4) True by (simp add: Cons_nth_drop_Suc)
    then have f: "fetch_byte T src offset = (Inr (bs ! i), Suc offset)"
      using at_bound [of "\<lparr>dbuf = src, dpos = offset, ddepth = 0\<rparr>" "[bs ! i]"]
      by (auto simp: fetch_byte_eq [OF T] starts_append starts_def at_def nth_via_drop)
    have "footer_decode_loop n T sz (acc[i := bs ! i]) (of_nat (Suc i)) src (Suc offset) = (Inr bs, Suc offset + (length bs - Suc i))"
      using Suc.prems True st [unfolded starts_append] by (intro Suc.IH) (auto simp: take_Suc_conv_app_nth)
    then show ?thesis
      using ix True by (simp add: pbind_def f add.commute)
  qed
qed

definition footer_ok :: "network_message \<Rightarrow> security_header \<Rightarrow> bool" where
  "footer_ok m s \<longleftrightarrow>
     (case securityFooterSize s of
        None \<Rightarrow> securityFooter m = None
      | Some sz \<Rightarrow> sz < 256 \<and> arr_length (securityFooter m) = unat sz \<and> securityFooter m \<noteq> Some [])
     \<and> (if networkMessageSigned s then string_ok (signature m) else signature m = None)"

lemma codec_footer_bytes:
  assumes T: "types_ok T" and "sz < 256" "arr_length a = unat sz" "a \<noteq> Some []"
  shows "codec (\<lambda>c. footer_loop (Suc (eroom c)) T sz (arr_list a) 0 c)
    (popt (sz > 0) (\<lambda>src offset. footer_decode_loop (Suc (length src - offset)) T sz (replicate (unat sz) 0) 0 src offset))
    (unat sz) a"
proof (rule codecI)
  have l: "unat sz = length (arr_list a)" "length (arr_list a) < 256"
    using assms(2,3) by (simp_all add: arr_length_def word_less_nat_alt)
  then show "length (arr_list a) = unat sz" by simp
  show "pfits (\<lambda>c. footer_loop (Suc (eroom c)) T sz (arr_list a) 0 c) (arr_list a)"
    unfolding pfits_def
  proof (intro allI impI)
    fix c :: ectx assume "edepth c = 0" "length (arr_list a) \<le> eroom c"
    then show "footer_loop (Suc (eroom c)) T sz (arr_list a) 0 c = (GOOD, emit (arr_list a) c)"
      using footer_loop_writes [OF T l, of c 0 "Suc (eroom c)"] by simp
  qed
  show "preads (popt (sz > 0) (\<lambda>src offset. footer_decode_loop (Suc (length src - offset)) T sz (replicate (unat sz) 0) 0 src offset))
     (arr_list a) a"
  proof (cases a)
    case None
    with l have "sz = 0" by (simp add: unat_eq_0)
    with None show ?thesis by (simp add: popt_def preads_return)
  next
    case (Some bs)
    then have pos: "sz > 0" using assms(3,4) by (cases bs) (auto simp: word_less_nat_alt)
    have "preads (\<lambda>src offset. footer_decode_loop (Suc (length src - offset)) T sz (replicate (unat sz) 0) 0 src offset) bs bs"
      unfolding preads_def
    proof (intro allI impI)
      fix src offset assume st: "starts src offset bs"
      then have "length bs < Suc (length src - offset)"
        using at_bound [of "\<lparr>dbuf = src, dpos = offset, ddepth = 0\<rparr>" bs] by (cases "bs = []") (auto simp: starts_def)
      then show "footer_decode_loop (Suc (length src - offset)) T sz (replicate (unat sz) 0) 0 src offset = (Inr bs, offset + length bs)"
        using footer_loop_reads [OF T, of sz bs "replicate (unat sz) 0" 0 src offset] l Some st
        by (simp del: footer_decode_loop.simps)
    qed
    from preads_bind [OF this preads_return] Some pos show ?thesis
      by (simp add: popt_def)
  qed
qed

lemma codec_footer:
  assumes T: "types_ok T" and s: "footer_ok m s"
  shows "codec (encode_footer T m s) (decode_footer T s) (footer_size T m s) (securityFooter m, signature m)"
proof -
  let ?d = "case securityFooterSize s of
              None \<Rightarrow> preturn None
            | Some sz \<Rightarrow>
                popt (sz > 0) (\<lambda>src offset.
                  footer_decode_loop (Suc (length src - offset)) T sz (replicate (unat sz) 0) 0 src offset)"
  have f: "codec (optE (\<lambda>sz c. footer_loop (Suc (eroom c)) T sz (arr_list (securityFooter m)) 0 c) (securityFooterSize s)) ?d
      (case securityFooterSize s of None \<Rightarrow> 0 | Some sz \<Rightarrow> unat sz) (securityFooter m)"
  proof (cases "securityFooterSize s")
    case None
    with s show ?thesis by (simp add: footer_ok_def optE_def codec_nil)
  next
    case (Some sz)
    with s show ?thesis
      using codec_footer_bytes [OF T, of sz "securityFooter m"] by (simp add: footer_ok_def optE_def)
  qed
  have g: "codec (whenE (networkMessageSigned s) (store T BYTESTRING_TYPE (VString (signature m))))
      (if networkMessageSigned s then fetch T BYTESTRING_TYPE the_string else preturn None)
      (if networkMessageSigned s then calc T BYTESTRING_TYPE (VString (signature m)) else 0) (signature m)"
    using s codec_basic [OF T, of 14 "VString (signature m)" the_string]
    by (auto simp: footer_ok_def whenE_def codec_nil the_string_def)
  show ?thesis
    unfolding encode_footer_def decode_footer_def footer_size_def
    by (rule codec_step [OF f]) (rule codec_last [OF g])
qed

subsection \<open>The payload and the whole message\<close>

definition payload_sizes :: "types \<Rightarrow> network_message \<Rightarrow> u16 list option" where
  "payload_sizes T m =
     (let n = unat (payload_count (payloadHeader m)) in
      if payloadHeader m \<noteq> None \<and> n > 1
      then Some (map (\<lambda>i. payload_size T m i (dataSetMessages m ! i)) [0..<n]) else None)"

definition payload_ok :: "network_message \<Rightarrow> bool" where
  "payload_ok m \<longleftrightarrow> length (dataSetMessages m) = unat (payload_count (payloadHeader m))
     \<and> pred_option (\<lambda>szs. length szs = length (dataSetMessages m)) (sizes m)"

text \<open>A network message that can be sent, and the message that is received.\<close>

definition nm_codes :: "types \<Rightarrow> network_message \<Rightarrow> network_message \<Rightarrow> bool" where
  "nm_codes T m m' \<longleftrightarrow>
     version m < 16 \<and> networkMessageType m = UA_NETWORKMESSAGE_DATASET
     \<and> publisherId_ok (publisherIdEnabled m) (publisherId m)
     \<and> pred_option guid_ok (dataSetClassId m) \<and> pred_option payloadHeader_ok (payloadHeader m)
     \<and> pred_option securityHeader_ok (securityHeader m)
     \<and> (case securityHeader m of None \<Rightarrow> securityFooter m = None \<and> signature m = None | Some s \<Rightarrow> footer_ok m s)
     \<and> payload_ok m \<and> list_all2 (ds_codes T) (dataSetMessages m) (dataSetMessages m')
     \<and> rel_option (promoted_codes T) (promotedFields m) (promotedFields m')
     \<and> m' = m\<lparr>promotedFields := promotedFields m', sizes := payload_sizes T m, dataSetMessages := dataSetMessages m'\<rparr>"

lemma codec_payload_sizes:
  assumes T: "types_ok T" and m: "payload_ok m" "payloadHeader m \<noteq> None"
    and n: "n = unat (payload_count (payloadHeader m))"
  shows "codec (forE n (encode_payload_size T m)) (prepeat n (fetch_u16 T)) (calc T UINT16_TYPE (VUInt16 0) * n)
    (map (\<lambda>i. payload_size T m i (dataSetMessages m ! i)) [0..<n])"
proof -
  let ?s = "\<lambda>i. payload_size T m i (dataSetMessages m ! i)"
  have e: "encode_payload_size T m i = store T UINT16_TYPE (VUInt16 (?s i))" if "i < n" for i
    using that m n by (cases "sizes m") (simp_all add: encode_payload_size_def payload_ok_def at_index_def)
  have "list_all2 (\<lambda>i y. codec (encode_payload_size T m i) (fetch_u16 T) 2 y) [0..<n] (map ?s [0..<n])"
    using codec_ints(2) [OF T] calc_ints(2) [OF T] by (simp add: list.rel_map list_all2_same e)
  from codec_list [OF this] show ?thesis
    by (simp add: forE_def calc_ints [OF T] sum_list_triv mult.commute)
qed

lemma codec_payload:
  assumes T: "types_ok T" and m: "payload_ok m" and ms: "list_all2 (ds_codes T) (dataSetMessages m) ms'"
  shows "codec (encode_payload T m) (decode_payload T (payloadHeader m)) (payload_calcSize T m) (payload_sizes T m, ms')"
proof -
  let ?n = "unat (payload_count (payloadHeader m))"
  let ?b = "payloadHeader m \<noteq> None \<and> ?n > 1"
  have n: "?n = length (dataSetMessages m)"
    using m by (simp add: payload_ok_def)
  have sz: "codec (whenE ?b (forE ?n (encode_payload_size T m))) (popt ?b (prepeat ?n (fetch_u16 T)))
      (if ?b then calc T UINT16_TYPE (VUInt16 0) * ?n else 0) (payload_sizes T m)"
  proof (cases ?b)
    case True
    have "payloadHeader m \<noteq> None" using True by simp
    from codec_pmap [OF codec_payload_sizes [OF T m this refl], of Some] True show ?thesis
      by (simp only: whenE_def popt_def payload_sizes_def Let_def if_True simp_thms)
  next
    case False
    then show ?thesis
      by (simp only: whenE_def popt_def payload_sizes_def Let_def if_False codec_nil)
  qed
  have "list_all2 (\<lambda>x y. codec (UA_DataSetMessage_encodeBinary T x) (UA_DataSetMessage_decodeBinary T)
      (UA_DataSetMessage_calcSizeBinary T x) y) (dataSetMessages m) ms'"
    using ms by (rule list_all2_mono) (rule codec_ds_message [OF T])
  note ds = codec_for [OF this n]
  have t: "take ?n (dataSetMessages m) = dataSetMessages m"
    using n by simp
  show ?thesis
    unfolding encode_payload_def decode_payload_def payload_calcSize_def Let_def t
    by (rule codec_step [OF sz]) (rule codec_last [OF ds])
qed

lemma codec_opt_eq:
  assumes "\<And>y. x = Some y \<Longrightarrow> codec (f y) d (n y) y"
  shows "codec (optE f x) (popt (x \<noteq> None) d) (opt_sum n x) x"
  using assms by (intro codec_opt [where R = "(=)"]) (simp_all add: option.rel_eq)

lemma codec_nm_options:
  assumes T: "types_ok T"
  shows "pred_option guid_ok cid \<Longrightarrow> codec (optE (\<lambda>g. store T GUID_TYPE (VGuid g)) cid) (popt (cid \<noteq> None) (fetch T GUID_TYPE the_guid))
      (opt_calc T GUID_TYPE VGuid cid) cid"
    and "codec (optE (\<lambda>x. ignoreE (store T DATETIME_TYPE (VUInt64 x))) ts)
      (popt (ts \<noteq> None) (fetch T DATETIME_TYPE the_u64)) (opt_calc T DATETIME_TYPE VUInt64 ts) ts"
    and "codec (optE (\<lambda>x. ignoreE (store T UINT16_TYPE (VUInt16 x))) ps)
      (popt (ps \<noteq> None) (fetch_u16 T)) (opt_calc T UINT16_TYPE VUInt16 ps) ps"
proof -
  have "codec (store T GUID_TYPE (VGuid g)) (fetch T GUID_TYPE the_guid) (calc T GUID_TYPE (VGuid g)) g" if "guid_ok g" for g
    using that codec_basic [OF T, of 13 "VGuid g" the_guid] by (simp add: the_guid_def)
  then show "codec (optE (\<lambda>g. store T GUID_TYPE (VGuid g)) cid) (popt (cid \<noteq> None) (fetch T GUID_TYPE the_guid))
      (opt_calc T GUID_TYPE VGuid cid) cid" if "pred_option guid_ok cid"
    using that unfolding opt_calc_def opt_sum_def [symmetric] by (intro codec_opt_eq) simp
  show "codec (optE (\<lambda>x. ignoreE (store T DATETIME_TYPE (VUInt64 x))) ts)
      (popt (ts \<noteq> None) (fetch T DATETIME_TYPE the_u64)) (opt_calc T DATETIME_TYPE VUInt64 ts) ts"
    unfolding opt_calc_def opt_sum_def [symmetric] by (intro codec_opt_eq codec_ignore codec_ints(4) [OF T])
  show "codec (optE (\<lambda>x. ignoreE (store T UINT16_TYPE (VUInt16 x))) ps)
      (popt (ps \<noteq> None) (fetch_u16 T)) (opt_calc T UINT16_TYPE VUInt16 ps) ps"
    unfolding opt_calc_def opt_sum_def [symmetric] by (intro codec_opt_eq codec_ignore codec_ints(2) [OF T])
qed

lemma codec_nm_headers:
  assumes T: "types_ok T"
  shows "codec (optE (encode_groupHeader T) gh) (popt (gh \<noteq> None) (decode_groupHeader T)) (opt_sum (groupHeader_size T) gh) gh"
    and "pred_option payloadHeader_ok ph \<Longrightarrow> codec (optE (encode_payloadHeader T UA_NETWORKMESSAGE_DATASET) ph)
      (popt (ph \<noteq> None) (decode_payloadHeader T UA_NETWORKMESSAGE_DATASET)) (opt_sum (payloadHeader_size T) ph) ph"
    and "rel_option (promoted_codes T) pf pf' \<Longrightarrow> codec (optE (encode_promotedFields T) pf)
      (popt (pf \<noteq> None) (decode_promotedFields T)) (opt_sum (promotedFields_size T) pf) pf'"
    and "pred_option securityHeader_ok sh \<Longrightarrow> codec (optE (encode_securityHeader T) sh) (popt (sh \<noteq> None) (decode_securityHeader T))
      (opt_sum (securityHeader_size T) sh) sh"
  by (rule codec_opt_eq codec_opt, assumption?, (simp add: codec_groupHeader codec_payloadHeader codec_promoted codec_securityHeader T; fail))+

lemma codec_nm_footer:
  assumes T: "types_ok T" and "nm_codes T m m'"
  shows "codec (optE (encode_footer T m) (securityHeader m))
      (case securityHeader m of None \<Rightarrow> preturn (None, None) | Some s \<Rightarrow> decode_footer T s)
      (opt_sum (footer_size T m) (securityHeader m)) (securityFooter m, signature m)"
  using assms(2) codec_footer [OF T, of m]
  by (cases "securityHeader m") (simp_all add: nm_codes_def optE_def opt_sum_def codec_nil)

lemma codec_network_message:
  assumes T: "types_ok T" and m: "nm_codes T m m'"
  shows "codec (UA_NetworkMessage_encodeBinary T m) (UA_NetworkMessage_decodeBinaryInternal T)
    (UA_NetworkMessage_calcSizeBinary T m) m'"
proof -
  have type: "networkMessageType m = UA_NETWORKMESSAGE_DATASET" and flags: "version m < 16" "publisherIdType (publisherId m) < 8"
    and pid: "publisherId_ok (publisherIdEnabled m) (publisherId m)"
    and guid: "pred_option guid_ok (dataSetClassId m)" and ph: "pred_option payloadHeader_ok (payloadHeader m)"
    and sh: "pred_option securityHeader_ok (securityHeader m)"
    and pl: "payload_ok m" "list_all2 (ds_codes T) (dataSetMessages m) (dataSetMessages m')"
    and pf: "rel_option (promoted_codes T) (promotedFields m) (promotedFields m')"
    and m': "m' = m\<lparr>promotedFields := promotedFields m', sizes := payload_sizes T m, dataSetMessages := dataSetMessages m'\<rparr>"
    using m by (simp_all add: nm_codes_def publisherId_ok_def)
  have "codec (UA_NetworkMessage_encodeBinary T m) (UA_NetworkMessage_decodeBinaryInternal T)
     (nm_flags_size T m + ((if publisherIdEnabled m then publisherId_size T (publisherId m) else 0)
      + (opt_calc T GUID_TYPE VGuid (dataSetClassId m) + (opt_sum (groupHeader_size T) (groupHeader m)
      + (opt_sum (payloadHeader_size T) (payloadHeader m) + (opt_calc T DATETIME_TYPE VUInt64 (timestamp m)
      + (opt_calc T UINT16_TYPE VUInt16 (picoseconds m) + (opt_sum (promotedFields_size T) (promotedFields m)
      + (opt_sum (securityHeader_size T) (securityHeader m) + (payload_calcSize T m
      + opt_sum (footer_size T m) (securityHeader m))))))))))) m'"
    unfolding UA_NetworkMessage_encodeBinary_def UA_NetworkMessage_decodeBinaryInternal_def case_prod_unfold
    apply (rule codec_step [OF codec_nm_flags [OF T flags type]])
    apply (simp only: announced_def nm_announced.select_convs type)
    apply (rule codec_step [OF codec_publisherId [OF T pid]])
    apply (rule codec_step [OF codec_nm_options(1) [OF T guid]])
    apply (rule codec_step [OF codec_nm_headers(1) [OF T]])
    apply (rule codec_step [OF codec_nm_headers(2) [OF T ph]])
    apply (rule codec_step [OF codec_nm_options(2) [OF T]])
    apply (rule codec_step [OF codec_nm_options(3) [OF T]])
    apply (rule codec_step [OF codec_nm_headers(3) [OF T pf]])
    apply (rule codec_step [OF codec_nm_headers(4) [OF T sh]])
    apply (simp only: simp_thms if_False whenE_def)
    apply (rule codec_skip)
    apply (rule codec_pass)
    apply (rule codec_step [OF codec_payload [OF T pl]])
    apply (rule codec_last [OF codec_nm_footer [OF T m], THEN back_subst [where P = "codec _ _ _"]])
    apply (rule trans [OF _ m' [symmetric]])
    apply (simp add: type)
    done
  moreover have "\<not> (case payloadHeader m of None \<Rightarrow> False | Some h \<Rightarrow> dataSetWriterIds h = None)"
    using ph by (cases "payloadHeader m") (auto simp: payloadHeader_ok_def split: option.splits)
  moreover have "opt_sum (promotedFields_size T) (promotedFields m) = opt_sum (\<lambda>vs. calc T UINT16_TYPE (VUInt16 0)
      + (\<Sum>v \<leftarrow> vs. calc T VARIANT_TYPE (VVariant v))) (promotedFields m)"
    by (simp add: promotedFields_size_def opt_sum_def split: option.split)
  moreover have "opt_sum (payloadHeader_size T) (payloadHeader m) = opt_sum (\<lambda>h. calc T BYTE_TYPE (VByte (count h))
      + calc T UINT16_TYPE (VUInt16 0) * unat (count h)) (payloadHeader m)"
    by (simp add: payloadHeader_size_def opt_sum_def split: option.split)
  ultimately show ?thesis
    by (simp only: UA_NetworkMessage_calcSizeBinary_def type nm_flags_size_def add.assoc simp_thms if_False if_True)
qed

end
