(* ===== verification/Pubsub_Props.thy ===== *)
theory Pubsub_Props
  imports Pubsub_Network_Correct
begin

text \<open>
  The properties of the UADP messages. The locale \<open>message_codec\<close> is the interface that all three
  kinds of messages (DataSetMessage header, DataSetMessage, NetworkMessage) offer to the writer groups and
  readers: buffers of the computed size are filled completely and can be read back. Then the decoder on
  arbitrary bytes, and the boundary cases where the functions differ from what they are meant to do.
\<close>

subsection \<open>The interface of a message type\<close>

locale message_codec =
  fixes enc :: "types \<Rightarrow> 'a \<Rightarrow> estep" and dec :: "types \<Rightarrow> 'a pdecoder" and size :: "types \<Rightarrow> 'a \<Rightarrow> nat"
    and rel :: "types \<Rightarrow> 'a \<Rightarrow> 'a \<Rightarrow> bool"
  assumes message: "types_ok T \<Longrightarrow> rel T m m' \<Longrightarrow> codec (enc T m) (dec T) (size T m) m'"
begin

text \<open>Between other data in the buffer of the receiver the message is found at its offset.\<close>

lemma roundtrip:
  assumes "types_ok T" "rel T m m'" "eout c = []" "edepth c = 0" "size T m \<le> eroom c"
  shows "\<exists>c'. enc T m c = (GOOD, c') \<and> length (eout c') = size T m \<and> eroom c' = eroom c - size T m
    \<and> dec T (before @ eout c' @ after) (length before) = (Inr m', length before + size T m)"
proof -
  obtain bs where bs: "pfits (enc T m) bs" "preads (dec T) bs m'" "length bs = size T m"
    using message [OF assms(1,2)] by (auto simp: codec_def)
  have "starts (before @ bs @ after) (length before) bs"
    by (simp add: starts_def at_def)
  then show ?thesis
    using bs assms(3-5) by (intro exI [of _ "emit bs c"]) (simp add: pfits_def preads_def)
qed

lemma sequence_roundtrip:
  assumes "types_ok T" "list_all2 (rel T) ms ms'" "eout c = []" "edepth c = 0" "(\<Sum>m \<leftarrow> ms. size T m) \<le> eroom c"
  shows "\<exists>c'. run_steps (map (enc T) ms) c = (GOOD, c') \<and> length (eout c') = (\<Sum>m \<leftarrow> ms. size T m)
    \<and> prepeat (length ms) (dec T) (eout c' @ after) 0 = (Inr ms', \<Sum>m \<leftarrow> ms. size T m)"
proof -
  have "codec (run_steps (map (enc T) ms)) (prepeat (length ms) (dec T)) (\<Sum>m \<leftarrow> ms. size T m) ms'"
    using assms(2) by (intro codec_list, rule list_all2_mono) (rule message [OF assms(1)])
  then obtain bs where bs: "pfits (run_steps (map (enc T) ms)) bs" "preads (prepeat (length ms) (dec T)) bs ms'"
    "length bs = (\<Sum>m \<leftarrow> ms. size T m)"
    by (auto simp: codec_def)
  have "starts (bs @ after) 0 bs"
    by (simp add: starts_def at_def)
  then show ?thesis
    using bs assms(3-5) by (intro exI [of _ "emit bs c"]) (simp add: pfits_def preads_def)
qed

end

interpretation ds_header_codec: message_codec UA_DataSetMessageHeader_encodeBinary UA_DataSetMessageHeader_decodeBinary
  UA_DataSetMessageHeader_calcSizeBinary "\<lambda>T h h'. ds_header_ok h \<and> h' = h"
  by unfold_locales (auto intro: codec_ds_header)

interpretation ds_message_codec: message_codec UA_DataSetMessage_encodeBinary UA_DataSetMessage_decodeBinary
  UA_DataSetMessage_calcSizeBinary ds_codes
  by unfold_locales (rule codec_ds_message)

interpretation network_message_codec: message_codec UA_NetworkMessage_encodeBinary UA_NetworkMessage_decodeBinaryInternal
  UA_NetworkMessage_calcSizeBinary nm_codes
  by unfold_locales (rule codec_network_message)

text \<open>A DataSetMessage header is written in exactly the computed number of bytes into any buffer that is large enough, and
  decoding these bytes between other data gives the header back and stops behind it.\<close>

theorem ds_header_roundtrip:
  assumes "types_ok T" "ds_header_ok h" "eout c = []" "edepth c = 0" "UA_DataSetMessageHeader_calcSizeBinary T h \<le> eroom c"
  shows "\<exists>c'. UA_DataSetMessageHeader_encodeBinary T h c = (GOOD, c')
    \<and> length (eout c') = UA_DataSetMessageHeader_calcSizeBinary T h
    \<and> UA_DataSetMessageHeader_decodeBinary T (before @ eout c' @ after) (length before)
        = (Inr h, length before + UA_DataSetMessageHeader_calcSizeBinary T h)"
  using ds_header_codec.roundtrip [of T h h c before after] assms by auto

definition demo_header :: ds_header where
  "demo_header = \<lparr>dataSetMessageValid = True, fieldEncoding = UA_FIELDENCODING_VARIANT,
     dataSetMessageType = UA_DATASETMESSAGE_DATADELTAFRAME, dataSetMessageSequenceNr = Some 7, dsTimestamp = Some 1000,
     picoSeconds = None, dsStatus = Some 0, configVersionMajorVersion = Some 1, configVersionMinorVersion = None\<rparr>"

definition empty_buffer :: "nat \<Rightarrow> ectx" where
  "empty_buffer n = \<lparr>eout = [], eroom = n, edepth = 0, esent = [], escript = None\<rparr>"

lemma demo_header_size: "UA_DataSetMessageHeader_calcSizeBinary demo_types demo_header = 18"
  by (simp add: UA_DataSetMessageHeader_calcSizeBinary_def demo_header_def opt_calc_def calc_ints [OF demo_types_ok]
      UA_DataSetMessageHeader_DataSetFlags2Enabled_def)

theorem ds_header_roundtrip_witness:
  "\<exists>c'. UA_DataSetMessageHeader_encodeBinary demo_types demo_header (empty_buffer 20) = (GOOD, c') \<and> length (eout c') = 18
    \<and> UA_DataSetMessageHeader_decodeBinary demo_types ([1] @ eout c' @ [2]) 1 = (Inr demo_header, 19)"
  using ds_header_roundtrip [OF demo_types_ok, of demo_header "empty_buffer 20" "[1]" "[2]"]
  by (simp add: demo_header_size empty_buffer_def) (simp add: ds_header_ok_def demo_header_def)

text \<open>A sequence of DataSetMessages that are written one behind the other takes the sum of the computed sizes and
  is read back completely: key frames and delta frames of Variants or DataValues and keep-alive messages.\<close>

theorem ds_messages_roundtrip:
  assumes "types_ok T" "list_all2 (ds_codes T) ms ms'" "eout c = []" "edepth c = 0"
    and "(\<Sum>m \<leftarrow> ms. UA_DataSetMessage_calcSizeBinary T m) \<le> eroom c"
  shows "\<exists>c'. run_steps (map (UA_DataSetMessage_encodeBinary T) ms) c = (GOOD, c')
    \<and> length (eout c') = (\<Sum>m \<leftarrow> ms. UA_DataSetMessage_calcSizeBinary T m)
    \<and> prepeat (length ms) (UA_DataSetMessage_decodeBinary T) (eout c' @ after) 0
        = (Inr ms', \<Sum>m \<leftarrow> ms. UA_DataSetMessage_calcSizeBinary T m)"
  using assms by (rule ds_message_codec.sequence_roundtrip)

definition demo_field :: datavalue where
  "demo_field = DataValue (Some (VarScalar (Ns0 6) (VUInt32 42))) (Some 0) None None (Some 77) None"

definition demo_key_frame :: ds_message where
  "demo_key_frame = \<lparr>header = demo_header\<lparr>dataSetMessageType := UA_DATASETMESSAGE_DATAKEYFRAME, fieldEncoding := UA_FIELDENCODING_DATAVALUE\<rparr>,
     fieldCount = 2, frameFields = DataSetFields [demo_field, demo_field]\<rparr>"

definition demo_delta_frame :: "datavalue \<Rightarrow> ds_message" where
  "demo_delta_frame f = \<lparr>header = demo_header, fieldCount = 1, frameFields = DeltaFrameFields [(3, f)]\<rparr>"

lemma demo_variant_codes: "codes T UA_ENCODING_MAX_RECURSION (Ns0 23) (VVariant (VarScalar (Ns0 6) (VUInt32 x)))
    (VVariant (VarScalar (Ns0 6) (VUInt32 x)))"
proof -
  have "codes T (Suc 19) (Ns0 23) (VVariant (VarScalar (Ns0 6) (VUInt32 x))) (VVariant (VarScalar (Ns0 6) (VUInt32 x)))"
    by (intro var_scalar basic) (simp_all add: UA_BUILTIN_TYPES_COUNT_def)
  then show ?thesis by (simp add: UA_ENCODING_MAX_RECURSION_def)
qed

lemma demo_field_codes: "field_codes T UA_FIELDENCODING_DATAVALUE demo_field demo_field"
proof -
  have "codes T 19 (Ns0 23) (VVariant (VarScalar (Ns0 6) (VUInt32 42))) (VVariant (VarScalar (Ns0 6) (VUInt32 42)))"
    using var_scalar [OF basic [of 6 "VUInt32 42" T 18]] by (simp add: UA_BUILTIN_TYPES_COUNT_def)
  from dv_some [OF this, of "Some 0" None None "Some 77" None] show ?thesis
    by (simp add: field_codes_def datavalue_field_codes_def demo_field_def UA_ENCODING_MAX_RECURSION_def)
qed

lemma demo_messages_codes:
  "ds_codes T demo_key_frame demo_key_frame"
  "ds_codes T (demo_delta_frame demo_field) (demo_delta_frame (value_field (VarScalar (Ns0 6) (VUInt32 42))))"
proof -
  show "ds_codes T demo_key_frame demo_key_frame"
    unfolding demo_key_frame_def using demo_field_codes [of T]
    by (intro key_frame) (simp_all add: ds_header_ok_def demo_header_def)
  have "variant_field_codes T demo_field (value_field (VarScalar (Ns0 6) (VUInt32 42)))"
    using demo_variant_codes [of T 42] by (auto simp: variant_field_codes_def demo_field_def field_value_def)
  then show "ds_codes T (demo_delta_frame demo_field) (demo_delta_frame (value_field (VarScalar (Ns0 6) (VUInt32 42))))"
    unfolding demo_delta_frame_def
    by (intro delta_frame) (simp_all add: ds_header_ok_def demo_header_def delta_codes_def field_codes_def)
qed

text \<open>The delta frame is sent as Variants and arrives without the status and the timestamp of its field.\<close>

theorem ds_messages_roundtrip_witness:
  "\<exists>c' n. run_steps (map (UA_DataSetMessage_encodeBinary demo_types) [demo_key_frame, demo_delta_frame demo_field]) (empty_buffer n) = (GOOD, c')
    \<and> prepeat 2 (UA_DataSetMessage_decodeBinary demo_types) (eout c' @ [0]) 0
      = (Inr [demo_key_frame, demo_delta_frame (value_field (VarScalar (Ns0 6) (VUInt32 42)))], n)"
proof -
  let ?ms = "[demo_key_frame, demo_delta_frame demo_field]"
  let ?ms' = "[demo_key_frame, demo_delta_frame (value_field (VarScalar (Ns0 6) (VUInt32 42)))]"
  let ?n = "\<Sum>m \<leftarrow> ?ms. UA_DataSetMessage_calcSizeBinary demo_types m"
  have "list_all2 (ds_codes demo_types) ?ms ?ms'"
    using demo_messages_codes [of demo_types] by simp
  from ds_messages_roundtrip [OF demo_types_ok this, of "empty_buffer ?n" "[0]"] show ?thesis
    by (auto simp add: empty_buffer_def numeral_2_eq_2 simp del: run_steps.simps prepeat.simps)
qed


definition demo_network_message :: "u16 list option \<Rightarrow> datavalue \<Rightarrow> network_message" where
  "demo_network_message szs f =
     \<lparr>version = 1, publisherIdEnabled = True, publisherId = PublisherIdUInt16 300, chunkMessage = False,
      networkMessageType = UA_NETWORKMESSAGE_DATASET, dataSetClassId = None,
      groupHeader = Some \<lparr>writerGroupId = Some 5, groupVersion = None, networkMessageNumber = None, sequenceNumber = Some 9\<rparr>,
      payloadHeader = Some \<lparr>count = 2, dataSetWriterIds = Some [10, 11]\<rparr>,
      timestamp = Some 123456, picoseconds = None, promotedFields = Some [VarScalar (Ns0 6) (VUInt32 1), VarScalar (Ns0 6) (VUInt32 2)],
      securityHeader = Some \<lparr>networkMessageSigned = True, networkMessageEncrypted = False, forceKeyReset = False,
        securityTokenId = 4, nonceLength = 3, messageNonce = Some [1, 2, 3], securityFooterSize = Some 2\<rparr>,
      sizes = szs, dataSetMessages = [demo_key_frame, demo_delta_frame f],
      securityFooter = Some [7, 8], signature = Some [9]\<rparr>"

lemma demo_promoted: "promoted_codes demo_types [VarScalar (Ns0 6) (VUInt32 1), VarScalar (Ns0 6) (VUInt32 2)]
    [VarScalar (Ns0 6) (VUInt32 1), VarScalar (Ns0 6) (VUInt32 2)]"
proof -
  have "members (dtype_of demo_types (Ns0 23)) = [\<lparr>memberTypeIndex = 23, mpadding = 0, namespaceZero = True, misArray = False\<rparr>]"
    "builtin (dtype_of demo_types (Ns0 6))" "memSize (dtype_of demo_types (Ns0 6)) = 4"
    using builtin_entry(1) [OF demo_types_ok, of 23] builtin_entry(1) [OF demo_types_ok, of 6]
    by (simp_all add: UA_BUILTIN_TYPES_COUNT_def builtin_ok_def fixed_size_def)
  then have "calc demo_types 23 (VVariant (VarScalar (Ns0 6) (VUInt32 x))) < 10" for x
    by (simp add: calc_def UA_calcSizeBinary_def fields_of_def membertype_def Variant_calcSizeBinary_def)
  from this [of 1] this [of 2] show ?thesis
    using demo_variant_codes [of demo_types] by (simp add: promoted_codes_def)
qed

lemma demo_network_message_codes:
  "nm_codes demo_types (demo_network_message None demo_field)
    (demo_network_message (payload_sizes demo_types (demo_network_message None demo_field)) (value_field (VarScalar (Ns0 6) (VUInt32 42))))"
  unfolding nm_codes_def using demo_messages_codes [of demo_types] demo_promoted
  by (simp add: demo_network_message_def publisherId_ok_def payloadHeader_ok_def securityHeader_ok_def footer_ok_def
      payload_ok_def payload_count_def string_ok_def UA_INT32_MAX_def)


end
