(* ===== verification/Pubsub_Safety.thy ===== *)
theory Pubsub_Safety
  imports Pubsub_Props
begin

text \<open>
  The decoder of NetworkMessages on arbitrary bytes: it ends (the fuel of the two loops is never used up), moves
  the offset forward only (\<open>psound\<close>), and what it returns is well-formed (\<open>pyields\<close>): every
  count agrees with the array it belongs to. Then the cases in which encoding and decoding go wrong.
\<close>

subsection \<open>Termination and bounds\<close>

definition psound_at :: "'a pdecoder \<Rightarrow> u8 list \<Rightarrow> nat \<Rightarrow> bool" where
  "psound_at d src offset \<longleftrightarrow>
     (case d src offset of (r, o1) \<Rightarrow> offset \<le> o1 \<and> o1 \<le> max offset (length src + 4)
        \<and> (case r of Inl ret \<Rightarrow> status_ok ret \<and> ret \<noteq> GOOD | Inr _ \<Rightarrow> True))"

definition psound :: "'a pdecoder \<Rightarrow> bool" where
  "psound d \<longleftrightarrow> (\<forall>src offset. psound_at d src offset)"

named_theorems psound_intros "decoders of messages that are sound"

lemma psound_bind_at:
  assumes "psound_at d src offset" "\<And>x o1. d src offset = (Inr x, o1) \<Longrightarrow> psound_at (f x) src o1"
  shows "psound_at (pbind d f) src offset"
proof (cases "d src offset")
  case (Pair r o1)
  with assms show ?thesis
    by (cases r) (auto simp: psound_at_def pbind_def max_def split: if_splits)
qed

lemma psound_bind [psound_intros]: "psound d \<Longrightarrow> (\<And>x. psound (f x)) \<Longrightarrow> psound (pbind d f)"
  by (auto simp: psound_def intro!: psound_bind_at)

lemma psound_return [psound_intros]: "psound (preturn x)"
  by (simp add: psound_def psound_at_def preturn_def)

lemma psound_atD: "psound d \<Longrightarrow> psound_at d src offset"
  by (simp add: psound_def)

lemma psound_at_return [simp]: "psound_at (preturn x) src offset"
  by (rule psound_atD [OF psound_return])

lemma psound_at_eq: "d src offset = e src offset \<Longrightarrow> psound_at e src offset \<Longrightarrow> psound_at d src offset"
  by (simp add: psound_at_def)

lemma psound_fail: "status_ok r \<Longrightarrow> r \<noteq> GOOD \<Longrightarrow> psound (pfail r)"
  by (simp add: psound_def psound_at_def pfail_def)

lemma psound_codes [psound_intros]: "psound (pfail BADNOTIMPLEMENTED)" "psound (pfail BADINTERNALERROR)"
  by (rule psound_fail; simp add: status_ok_def)+

lemma psound_opt [psound_intros]: "psound d \<Longrightarrow> psound (popt b d)"
  by (simp add: popt_def psound_intros)

lemma psound_if [psound_intros]: "psound d \<Longrightarrow> psound e \<Longrightarrow> psound (if b then d else e)"
  by simp

lemma psound_repeat [psound_intros]: "psound d \<Longrightarrow> psound (prepeat n d)"
  by (induction n) (simp_all add: psound_intros)

lemma psound_fetch [psound_intros]: "psound (fetch T i f)"
  unfolding psound_def
proof (intro allI)
  fix src :: "u8 list" and offset :: nat
  obtain ret v c where d: "decodeBinaryInternal (decode_jump (decode_fuel src) T) T (Ns0 i)
      \<lparr>dbuf = src, dpos = offset, ddepth = 0\<rparr> = (ret, v, c)"
    by (metis prod_cases3)
  then show "psound_at (fetch T i f) src offset"
    using decode_outcome [OF d] by (auto simp: psound_at_def fetch_def UA_decodeBinary_def moves_def)
qed

lemma psound_fetch_ints [psound_intros]: "psound (fetch_byte T)" "psound (fetch_u16 T)" "psound (fetch_u32 T)"
  by (simp_all add: fetch_byte_def fetch_u16_def fetch_u32_def psound_intros)

lemma psound_ds_header [psound_intros]: "psound (UA_DataSetMessageHeader_decodeBinary T)"
  by (auto simp: UA_DataSetMessageHeader_decodeBinary_def decode_ds_flags2_def intro!: psound_intros)

lemma psound_ds_message [psound_intros]: "psound (UA_DataSetMessage_decodeBinary T)"
  by (auto simp: UA_DataSetMessage_decodeBinary_def decode_key_frame_def decode_delta_frame_def pfields_def decode_delta_field_def
      decode_variant_field_def decode_datavalue_field_def intro!: psound_intros)

text \<open>Every promoted field takes at least a byte, so the fuel of the loop is enough.\<close>

lemma psound_promoted_loop:
  assumes T: "types_ok T"
  shows "0 < n \<Longrightarrow> offsetEnd \<le> offset + n \<Longrightarrow> psound_at (promoted_loop n T offsetEnd) src offset"
proof (induction n arbitrary: offset)
  case 0
  then show ?case by simp
next
  case (Suc n)
  have f: "psound_at (fetch T VARIANT_TYPE the_variant) src offset"
    by (rule psound_atD [OF psound_fetch])
  show ?case
    unfolding promoted_loop.simps
  proof (rule psound_bind_at [OF f])
    fix v o1
    assume "fetch T VARIANT_TYPE the_variant src offset = (Inr v, o1)"
    then have "offset < o1" by (rule fetch_variant_progress [OF T])
    then have "psound_at (promoted_loop n T offsetEnd) src o1" if "o1 < offsetEnd"
      using that Suc.prems(2) by (intro Suc.IH) auto
    then have "psound_at (pbind (promoted_loop n T offsetEnd) (\<lambda>vs. preturn (v # vs))) src o1" if "o1 < offsetEnd"
      using that by (intro psound_bind_at) simp_all
    then show "psound_at (\<lambda>src offset. if offset < offsetEnd
        then pbind (promoted_loop n T offsetEnd) (\<lambda>vs. preturn (v # vs)) src offset else preturn [v] src offset) src o1"
      by (cases "o1 < offsetEnd")
        (rule psound_at_eq [of _ src o1 "pbind (promoted_loop n T offsetEnd) (\<lambda>vs. preturn (v # vs))"], simp_all,
         rule psound_at_eq [of _ src o1 "preturn [v]"], simp_all)
  qed
qed

lemma psound_promoted [psound_intros]:
  assumes "types_ok T"
  shows "psound (decode_promotedFields T)"
  unfolding decode_promotedFields_def
proof (rule psound_bind [OF psound_fetch_ints(2)])
  fix sz :: u16
  show "psound (\<lambda>src offset. if sz > 0 then promoted_loop (unat sz) T (offset + unat sz) src offset else preturn [] src offset)"
    using psound_promoted_loop [OF assms, of "unat sz"] psound_at_return [of "[]"]
    by (cases "sz > 0") (auto simp: psound_def psound_at_def preturn_def word_less_nat_alt)
qed

lemma psound_footer_loop:
  assumes T: "types_ok T"
  shows "length src - offset < n \<Longrightarrow> psound_at (footer_decode_loop n T sz bs i) src offset"
proof (induction n arbitrary: offset bs i)
  case 0
  then show ?case by simp
next
  case (Suc n)
  have "psound_at (pbind (fetch_byte T) (\<lambda>b. footer_decode_loop n T sz (bs[unat i := b]) (i + 1))) src offset"
  proof (rule psound_bind_at)
    show "psound_at (fetch_byte T) src offset"
      by (rule psound_atD [OF psound_fetch_ints(1)])
    show "psound_at (footer_decode_loop n T sz (bs[unat i := b]) (i + 1)) src o1"
      if "fetch_byte T src offset = (Inr b, o1)" for b o1
      using that Suc.prems by (intro Suc.IH) (auto simp: fetch_byte_eq [OF T] split: if_splits)
  qed
  then show ?case
    by simp
qed

lemma psound_footer [psound_intros]:
  assumes T: "types_ok T"
  shows "psound (decode_footer T s)"
proof -
  have "psound (\<lambda>src offset. footer_decode_loop (Suc (length src - offset)) T sz bs 0 src offset)" for sz bs
    using psound_footer_loop [OF T] by (simp only: psound_def psound_at_def) blast
  then show ?thesis
    unfolding decode_footer_def by (auto simp del: footer_decode_loop.simps intro!: psound_intros split: option.split)
qed

lemma psound_network_message:
  assumes "types_ok T"
  shows "psound (UA_NetworkMessage_decodeBinaryInternal T)"
  unfolding UA_NetworkMessage_decodeBinaryInternal_def
  using assms
  by (auto simp: decode_nm_flags_def decode_publisherId_def decode_groupHeader_def decode_payloadHeader_def decode_securityHeader_def
      decode_payload_def Let_def intro!: psound_intros split: option.split)





subsection \<open>Well-formedness of what is received\<close>

definition ds_wf :: "ds_message \<Rightarrow> bool" where
  "ds_wf m \<longleftrightarrow> ds_header_ok (header m) \<and>
     (case frameFields m of
        DataSetFields fs \<Rightarrow> dataSetMessageType (header m) = UA_DATASETMESSAGE_DATAKEYFRAME \<and> length fs = unat (fieldCount m)
      | DeltaFrameFields fs \<Rightarrow> dataSetMessageType (header m) = UA_DATASETMESSAGE_DATADELTAFRAME \<and> length fs = unat (fieldCount m)
      | NullFields \<Rightarrow> dataSetMessageType (header m) = UA_DATASETMESSAGE_KEEPALIVE
          \<or> fieldEncoding (header m) \<notin> {UA_FIELDENCODING_VARIANT, UA_FIELDENCODING_DATAVALUE})"

definition footer_wf :: "ustring \<Rightarrow> security_header \<Rightarrow> bool" where
  "footer_wf a s \<longleftrightarrow> (case securityFooterSize s of None \<Rightarrow> a = None | Some sz \<Rightarrow> arr_length a = unat sz)"

definition nm_wf :: "network_message \<Rightarrow> bool" where
  "nm_wf m \<longleftrightarrow> version m < 16 \<and> networkMessageType m = UA_NETWORKMESSAGE_DATASET \<and> publisherIdType (publisherId m) < 8
     \<and> pred_option payloadHeader_ok (payloadHeader m) \<and> pred_option securityHeader_ok (securityHeader m)
     \<and> pred_option (footer_wf (securityFooter m)) (securityHeader m)
     \<and> payload_ok m \<and> list_all ds_wf (dataSetMessages m)"

definition pyields :: "'a pdecoder \<Rightarrow> ('a \<Rightarrow> bool) \<Rightarrow> bool" where
  "pyields d P \<longleftrightarrow> (\<forall>src offset x o1. d src offset = (Inr x, o1) \<longrightarrow> P x)"

lemma pyields_bind: "pyields d P \<Longrightarrow> (\<And>x. P x \<Longrightarrow> pyields (f x) Q) \<Longrightarrow> pyields (pbind d f) Q"
  by (fastforce simp: pyields_def pbind_def split: prod.splits sum.splits)

lemma pyields_step: "(\<And>x. pyields (f x) Q) \<Longrightarrow> pyields (pbind d f) Q"
  by (rule pyields_bind [where P = "\<lambda>_. True"]) (simp_all add: pyields_def)

lemma pyields_return [simp]: "pyields (preturn x) P \<longleftrightarrow> P x"
  by (simp add: pyields_def preturn_def)

lemma pyields_fail [simp]: "pyields (pfail r) P"
  by (simp add: pyields_def pfail_def)

lemma pyields_opt: "pyields d P \<Longrightarrow> pyields (popt b d) (\<lambda>x. (x \<noteq> None) = b \<and> pred_option P x)"
  by (auto simp: popt_def intro: pyields_bind)

lemma pyields_repeat: "pyields d P \<Longrightarrow> pyields (prepeat n d) (\<lambda>xs. length xs = n \<and> list_all P xs)"
  by (induction n) (auto intro!: pyields_bind [where P = P] pyields_bind [where P = "\<lambda>xs. length xs = _ \<and> list_all P xs"])

lemma pyields_mono: "pyields d P \<Longrightarrow> (\<And>x. P x \<Longrightarrow> Q x) \<Longrightarrow> pyields d Q"
  by (auto simp: pyields_def)

lemma pyields_True [simp]: "pyields d (\<lambda>_. True)"
  by (simp add: pyields_def)

lemma and_bounds [simp]: "(v :: u8) AND 3 < 4" "v AND 7 < 8" "v AND 15 < 16"
  using word_and_le1 [of v 3] word_and_le1 [of v 7] word_and_le1 [of v 15]
  by (auto elim: order.strict_trans1)

lemma pyields_ds_header: "pyields (UA_DataSetMessageHeader_decodeBinary T) ds_header_ok"
proof -
  have t: "pyields (decode_ds_flags2 T b) (\<lambda>(t, _). t < 16)" for b
    by (auto simp: decode_ds_flags2_def intro!: pyields_step)
  show ?thesis
    unfolding UA_DataSetMessageHeader_decodeBinary_def
    by (rule pyields_step, rule pyields_bind [OF t]) (auto simp: ds_header_ok_def intro!: pyields_step)
qed

lemma pyields_ds_message: "pyields (UA_DataSetMessage_decodeBinary T) ds_wf"
proof -
  have fs: "pyields (pfields C n d) (\<lambda>(k, fs). k = n \<and> (\<exists>xs. fs = C xs \<and> length xs = unat n))" for n d and C :: "'a list \<Rightarrow> ds_fields"
    unfolding pfields_def by (rule pyields_bind [OF pyields_repeat [where P = "\<lambda>_. True"]]) auto
  have key: "pyields (decode_key_frame T e) (\<lambda>(n, fs). (\<exists>xs. fs = DataSetFields xs \<and> length xs = unat n) \<or> (fs = NullFields \<and> e \<notin> {0, 2}))" for e
    unfolding decode_key_frame_def by (auto intro!: pyields_step intro: pyields_mono [OF fs])
  have delta: "pyields (decode_delta_frame T e) (\<lambda>(n, fs). (\<exists>xs. fs = DeltaFrameFields xs \<and> length xs = unat n) \<or> (fs = NullFields \<and> e \<notin> {0, 2}))" for e
    unfolding decode_delta_frame_def by (auto intro!: pyields_step intro: pyields_mono [OF fs])
  show ?thesis
    unfolding UA_DataSetMessage_decodeBinary_def
  proof (rule pyields_bind [OF pyields_ds_header])
    fix h assume h: "ds_header_ok h"
    let ?ret = "\<lambda>(n, fs). preturn \<lparr>header = h, fieldCount = n, frameFields = fs\<rparr>"
    consider "dataSetMessageType h = 0" | "dataSetMessageType h = 1" | "dataSetMessageType h \<notin> {0, 1}" by auto
    then show "pyields (pbind (if dataSetMessageType h = UA_DATASETMESSAGE_DATAKEYFRAME then decode_key_frame T (fieldEncoding h)
        else if dataSetMessageType h = UA_DATASETMESSAGE_DATADELTAFRAME then decode_delta_frame T (fieldEncoding h)
        else if dataSetMessageType h \<noteq> UA_DATASETMESSAGE_KEEPALIVE then pfail BADNOTIMPLEMENTED
        else preturn (0, NullFields)) ?ret) ds_wf"
    proof cases
      case 1
      then show ?thesis using h by (auto simp: ds_wf_def intro!: pyields_bind [OF key])
    next
      case 2
      then show ?thesis using h by (auto simp: ds_wf_def intro!: pyields_bind [OF delta])
    next
      case 3
      then show ?thesis
        using h by (cases "dataSetMessageType h = 3") (auto simp: ds_wf_def pyields_def pbind_def preturn_def pfail_def)
    qed
  qed
qed

lemma pyields_payloadHeader: "pyields (decode_payloadHeader T t) payloadHeader_ok"
  by (auto simp: decode_payloadHeader_def payloadHeader_ok_def intro!: pyields_step pyields_bind [OF pyields_repeat [OF pyields_True]])

lemma pyields_securityHeader: "pyields (decode_securityHeader T) securityHeader_ok"
  unfolding decode_securityHeader_def
  by (rule pyields_step, rule pyields_step, rule pyields_step,
      rule pyields_bind [OF pyields_opt [OF pyields_repeat [OF pyields_True]]], rule pyields_step)
     (auto simp: securityHeader_ok_def word_less_nat_alt split: option.splits)

lemma footer_decode_loop_length: "pyields (footer_decode_loop n T sz bs i) (\<lambda>r. length r = length bs)"
proof (induction n arbitrary: bs i)
  case (Suc n)
  then show ?case by (auto intro!: pyields_step intro: pyields_mono [OF Suc])
qed simp

lemma pyields_footer: "pyields (decode_footer T s) (\<lambda>(a, _). footer_wf a s)"
proof -
  have l: "pyields (\<lambda>src offset. footer_decode_loop (Suc (length src - offset)) T sz (replicate (unat sz) 0) 0 src offset) (\<lambda>r. length r = unat sz)" for sz
    using footer_decode_loop_length [of "Suc (length src - offset)" T sz "replicate (unat sz) 0" 0 for src offset]
    by (auto simp: pyields_def simp del: footer_decode_loop.simps) fastforce
  have "pyields (case securityFooterSize s of None \<Rightarrow> preturn None | Some sz \<Rightarrow> popt (sz > 0)
      (\<lambda>src offset. footer_decode_loop (Suc (length src - offset)) T sz (replicate (unat sz) 0) 0 src offset)) (\<lambda>a. footer_wf a s)"
  proof (cases "securityFooterSize s")
    case (Some sz)
    have "footer_wf a s" if "(a \<noteq> None) = (sz > 0) \<and> pred_option (\<lambda>r. length r = unat sz) a" for a
      using that Some by (cases a) (auto simp: footer_wf_def word_less_nat_alt)
    then show ?thesis
      unfolding Some option.case by (rule pyields_mono [OF pyields_opt [OF l]])
  qed (simp add: footer_wf_def)
  then show ?thesis
    unfolding decode_footer_def by (rule pyields_bind) (auto intro!: pyields_step)
qed

lemma pyields_payload:
  "pyields (decode_payload T ph) (\<lambda>(szs, ms). length ms = unat (payload_count ph) \<and> list_all ds_wf ms
     \<and> pred_option (\<lambda>szs. length szs = length ms) szs)"
  unfolding decode_payload_def Let_def
  by (rule pyields_bind [OF pyields_opt [OF pyields_repeat [OF pyields_True]]], rule pyields_bind [OF pyields_repeat [OF pyields_ds_message]])
     (auto simp: option.pred_set)

lemma pyields_flags: "pyields (decode_nm_flags T) (\<lambda>a. aVersion a < 16 \<and> aPublisherIdType a < 8)"
  by (auto simp: decode_nm_flags_def nm_announced_init_def nm_announce1_def nm_announce2_def intro!: pyields_step)

lemma pyields_publisherId:
  assumes "t < 8"
  shows "pyields (if b then decode_publisherId T t else preturn (null_publisherId t)) (\<lambda>p. publisherIdType p < 8)"
  using assms
  by (auto simp: decode_publisherId_def null_publisherId_def pyields_def preturn_def fetch_def pfail_def split: prod.splits option.splits)

lemma pyields_dataset:
  "pyields (if t \<noteq> UA_NETWORKMESSAGE_DATASET then pfail BADNOTIMPLEMENTED else preturn ()) (\<lambda>_. t = UA_NETWORKMESSAGE_DATASET)"
  by simp

lemma pyields_opt_footer:
  "pyields (case sh of None \<Rightarrow> preturn (None, None) | Some s \<Rightarrow> decode_footer T s) (\<lambda>(a, _). pred_option (footer_wf a) sh)"
  using pyields_footer [of T] by (cases sh) auto

lemma pyields_network_message: "pyields (UA_NetworkMessage_decodeBinaryInternal T) nm_wf"
  unfolding UA_NetworkMessage_decodeBinaryInternal_def
  apply (rule pyields_bind [OF pyields_flags])
  apply (rule pyields_bind [OF pyields_publisherId], simp)
  apply (rule pyields_step, rule pyields_step)
  apply (rule pyields_bind [OF pyields_opt [OF pyields_payloadHeader]])
  apply (rule pyields_step, rule pyields_step, rule pyields_step)
  apply (rule pyields_bind [OF pyields_opt [OF pyields_securityHeader]])
  apply (rule pyields_bind [OF pyields_dataset])
  apply (rule pyields_bind [OF pyields_payload])
  apply (clarify, rule pyields_bind [OF pyields_opt_footer])
  apply (auto simp: nm_wf_def payload_ok_def)
  done



subsection \<open>Where encoding and decoding go wrong\<close>

lemma unat_byte: "unat (i :: u8) < 256"
  by (rule order.strict_trans2 [OF unsigned_less]) simp

lemma byte_index_less: "256 \<le> (sz :: u16) \<Longrightarrow> ucast (i :: u8) < sz"
proof -
  assume "256 \<le> sz"
  moreover have "unat (ucast i :: u16) < 256"
    using unat_byte [of i] by (simp add: unsigned_ucast_eq take_bit_nat_eq_self)
  ultimately show ?thesis
    by (simp add: word_less_nat_alt word_le_nat_alt)
qed

lemma footer_loop_full:
  assumes T: "types_ok T" and "256 \<le> sz" "256 \<le> length bs"
    and "edepth c = 0" "escript c = None" "eroom c < n"
  shows "\<exists>c'. footer_loop n T sz bs i c = (BADRESPONSETOOLARGE, c') \<and> eroom c' = 0"
  using assms(4-)
proof (induction n arbitrary: i c)
  case 0
  then show ?case by simp
next
  case (Suc n)
  have i: "unat i < length bs"
    using unat_byte [of i] assms(3) by simp
  show ?case
  proof (cases "eroom c = 0")
    case True
    with Suc.prems show ?thesis
      using store_byte(2) [OF T] i byte_index_less [OF assms(2)] by (auto simp: at_index_def)
  next
    case False
    then have "\<exists>c'. footer_loop n T sz bs (i + 1) (emit [bs ! unat i] c) = (BADRESPONSETOOLARGE, c') \<and> eroom c' = 0"
      using Suc.prems by (intro Suc.IH) auto
    moreover have "store T BYTE_TYPE (VByte (bs ! unat i)) c = (GOOD, emit [bs ! unat i] c)"
      using False Suc.prems by (intro store_byte(1) [OF T]) auto
    ultimately show ?thesis
      using i byte_index_less [OF assms(2)] by (auto simp: at_index_def)
  qed
qed

lemma footer_decode_loop_end:
  assumes T: "types_ok T" and "256 \<le> sz" and "length src - offset < n" "offset \<le> length src"
  shows "footer_decode_loop n T sz bs i src offset = (Inl BADDECODINGERROR, length src)"
  using assms(3,4)
proof (induction n arbitrary: bs i offset)
  case 0
  then show ?case by simp
next
  case (Suc n)
  then show ?case
    using byte_index_less [OF assms(2), of i] by (auto simp: pbind_def fetch_byte_eq [OF T])
qed

text \<open>A security footer of more than 255 bytes can neither be sent nor received, however large the buffers are, although its
  size has 16 bits: the byte that indexes the footer wraps around, the encoder fills the whole remaining buffer and fails, and
  the decoder reads to the end of the input and fails.\<close>

theorem large_footer_fails:
  assumes "types_ok T" "securityFooterSize s = Some sz" "256 \<le> sz" "arr_length (securityFooter m) = unat sz"
    and "edepth c = 0" "escript c = None" "offset \<le> length src"
  shows "(\<exists>c'. encode_footer T m s c = (BADRESPONSETOOLARGE, c') \<and> eroom c' = 0)
    \<and> decode_footer T s src offset = (Inl BADDECODINGERROR, length src)"
proof
  have "256 \<le> length (arr_list (securityFooter m))"
    using assms(3,4) by (simp add: arr_length_def word_le_nat_alt)
  from footer_loop_full [OF assms(1,3) this assms(5,6), of "Suc (eroom c)" 0]
  show "\<exists>c'. encode_footer T m s c = (BADRESPONSETOOLARGE, c') \<and> eroom c' = 0"
    using assms(2) by (auto simp: encode_footer_def optE_def simp del: footer_loop.simps)
  have "sz > 0"
    using assms(3) by (rule order.strict_trans2 [rotated]) simp
  then show "decode_footer T s src offset = (Inl BADDECODINGERROR, length src)"
    using footer_decode_loop_end [OF assms(1,3) lessI assms(7)] assms(2)
    by (simp add: decode_footer_def popt_def pbind_def del: footer_decode_loop.simps)
qed

theorem large_footer_fails_witness:
  "\<exists>c'. encode_footer demo_types (NetworkMessage_init\<lparr>securityFooter := Some (replicate 256 0)\<rparr>)
      \<lparr>networkMessageSigned = False, networkMessageEncrypted = False, forceKeyReset = False, securityTokenId = 0, nonceLength = 0,
       messageNonce = None, securityFooterSize = Some 256\<rparr> (empty_buffer 1000) = (BADRESPONSETOOLARGE, c')"
  using large_footer_fails [OF demo_types_ok, of "\<lparr>networkMessageSigned = False, networkMessageEncrypted = False, forceKeyReset = False,
      securityTokenId = 0, nonceLength = 0, messageNonce = None, securityFooterSize = Some 256\<rparr>" 256
      "NetworkMessage_init\<lparr>securityFooter := Some (replicate 256 0)\<rparr>" "empty_buffer 1000" 0 "[]"]
  by (auto simp: empty_buffer_def)

lemma store_datetime_full:
  assumes "types_ok T" "edepth c = 0" "escript c = None" "eroom c < 8"
  shows "store T DATETIME_TYPE (VUInt64 x) c = (BADRESPONSETOOLARGE, c)"
proof -
  have "members (dtype_of T (Ns0 12)) = [\<lparr>memberTypeIndex = 12, mpadding = 0, namespaceZero = True, misArray = False\<rparr>]"
    "memSize (dtype_of T (Ns0 12)) = 8"
    using builtin_entry(1) [OF assms(1), of 12] by (simp_all add: UA_BUILTIN_TYPES_COUNT_def builtin_ok_def fixed_size_def)
  then show ?thesis
    using assms(2-)
    by (simp add: store_def UA_encodeBinary_def encodeBinaryInternal_def fields_of_def membertype_def
        UInt64_encodeBinary_def put_def script_len_def exchangeBuffer_def)
qed

definition keep_alive_message :: network_message where
  "keep_alive_message = NetworkMessage_init\<lparr>timestamp := Some 1000, dataSetMessages :=
     [\<lparr>header = \<lparr>dataSetMessageValid = True, fieldEncoding = 0, dataSetMessageType = UA_DATASETMESSAGE_KEEPALIVE,
        dataSetMessageSequenceNr = None, dsTimestamp = None, picoSeconds = None, dsStatus = None,
        configVersionMajorVersion = None, configVersionMinorVersion = None\<rparr>, fieldCount = 0, frameFields = NullFields\<rparr>]\<rparr>"

text \<open>An error while the timestamp is written is lost: into a buffer of 4 bytes, a third of the computed size, a keep-alive message is
  encoded with the status \<open>GOOD\<close>, and the bytes announce a timestamp that they do not contain.\<close>

theorem timestamp_error_lost:
  "UA_NetworkMessage_calcSizeBinary demo_types keep_alive_message = 12
   \<and> UA_NetworkMessage_encodeBinary demo_types keep_alive_message (empty_buffer 4)
       = (GOOD, (empty_buffer 0)\<lparr>eout := [0x80, 0x20, 0x81, 3]\<rparr>)"
proof
  note T = demo_types_ok
  show "UA_NetworkMessage_calcSizeBinary demo_types keep_alive_message = 12"
    by (simp add: UA_NetworkMessage_calcSizeBinary_def keep_alive_message_def NetworkMessage_init_def calc_ints [OF T] opt_calc_def
        UA_NetworkMessage_ExtendedFlags1Enabled_def UA_NetworkMessage_ExtendedFlags2Enabled_def opt_sum_def payload_calcSize_def
        payload_count_def UA_DataSetMessage_calcSizeBinary_def UA_DataSetMessageHeader_calcSizeBinary_def
        UA_DataSetMessageHeader_DataSetFlags2Enabled_def)
  show "UA_NetworkMessage_encodeBinary demo_types keep_alive_message (empty_buffer 4)
       = (GOOD, (empty_buffer 0)\<lparr>eout := [0x80, 0x20, 0x81, 3]\<rparr>)"
    by (simp add: UA_NetworkMessage_encodeBinary_def keep_alive_message_def NetworkMessage_init_def encode_nm_flags_def nm_flags_def
        nm_extended_flags1_def UA_NetworkMessage_ExtendedFlags1Enabled_def UA_NetworkMessage_ExtendedFlags2Enabled_def flag_def
        whenE_def optE_def returnE_def store_byte [OF T] empty_buffer_def emit_def ignoreE_def store_datetime_full [OF T]
        encode_payload_def payload_count_def forE_def at_index_def UA_DataSetMessage_encodeBinary_def
        UA_DataSetMessageHeader_encodeBinary_def ds_flags1_def ds_flags2_def UA_DataSetMessageHeader_DataSetFlags2Enabled_def)
qed

end
