(* ===== verification/Binary_Generic_Limits.thy ===== *)
theory Binary_Generic_Limits
  imports Binary_Generic_Correct
begin

text \<open>
  Where the generic codec of \<open>Binary_Generic\<close> does not give a value back: the exceptions to the round trip of
  \<open>Binary_Generic_Correct\<close>, each shown on the model of the code.
\<close>

subsection \<open>Inner diagnostic information\<close>

definition empty_diag :: "diaginfo option \<Rightarrow> uaval" where
  "empty_diag inner = VDiagnosticInfo (DiagnosticInfo None None None None None None inner)"

lemma fits_inner_diag:
  assumes "types_ok T"
  shows "fits 2 (encodeBinaryInternal (encode_jump T) T (Ns0 24) (empty_diag (Some (DiagnosticInfo None None None None None None None)))) [0x20, 0]"
proof -
  let ?d = "VDiagnosticInfo (DiagnosticInfo None None None None None None None)"
  have "fits 0 (encode_jump T (Ns0 24) ?d) [0]"
    by (simp add: fits_def DiagnosticInfo_encodeBinary_def has_bit_def encode_direct_opt_def codec_fits)
  then have "fits 1 (encodeBinaryInternal (encode_jump T) T (Ns0 24) ?d) [0]"
    using fits_builtin_internal [OF assms diag_index(1), of ?d 0] by (simp add: fields_of_def)
  then have "fits 1 (encode_jump T (Ns0 24) (empty_diag (Some (DiagnosticInfo None None None None None None None)))) [0x20, 0]"
    by (simp add: fits_def empty_diag_def DiagnosticInfo_encodeBinary_def has_bit_def encode_direct_opt_def codec_fits
        UA_TYPES_DIAGNOSTICINFO_def)
  then show ?thesis
    using fits_builtin_internal [OF assms diag_index(1)] by (simp add: fields_of_def empty_diag_def numeral_2_eq_2)
qed

lemma internal_builtin:
  assumes "types_ok T" "i < UA_BUILTIN_TYPES_COUNT"
    and "\<And>n. (decodeBinaryJumpTable (decode_jump (Suc n) T) T (Ns0 i) ! i) \<lparr>dbuf = src, dpos = 0, ddepth = Suc 0\<rparr> = (ret, v, c)"
  shows "UA_decodeBinary T (Ns0 i) src 0 = (if ret = GOOD then (GOOD, Some v, dpos c) else (ret, None, 0))"
proof -
  have f: "decode_fuel src = Suc (Suc (UA_ENCODING_MAX_RECURSION + 1 + length src))"
    by (simp add: decode_fuel_def)
  show ?thesis
    using builtin_entry [OF assms(1,2)] assms(3)
    by (simp add: UA_decodeBinary_def decodeBinaryInternal_def builtin_ok_def membertype_def dmap_def f
        decode_jump.simps(2) [of "Suc _"] value_of_def)
qed



subsection \<open>Plausible arrays that are rejected\<close>



subsection \<open>Structures with a single member in Variants\<close>

text \<open>
  A type with a single member of a builtin type is taken for another name of the builtin type
  (\<open>is_alias\<close>), also when the member is an array. \<open>demo_bytes\<close> is such a type.
\<close>

definition demo_bytes :: types where
  "demo_bytes = demo_types\<lparr>ns0types := ns0types demo_types @
     [\<lparr>dtypeId = \<lparr>namespaceIndex = 0, nident = Numeric 400\<rparr>, memSize = 16,
       typeIndex = 26, builtin = False, overlayable = False, binaryEncodingId = 401,
       members = [\<lparr>memberTypeIndex = 2, mpadding = 0, namespaceZero = True, misArray = True\<rparr>]\<rparr>,
      \<lparr>dtypeId = \<lparr>namespaceIndex = 0, nident = Numeric 500\<rparr>, memSize = 0,
       typeIndex = 27, builtin = False, overlayable = False, binaryEncodingId = 501, members = []\<rparr>]\<rparr>"

lemma demo_bytes_dtype:
  "dtype_of demo_bytes (Ns0 26) = \<lparr>dtypeId = \<lparr>namespaceIndex = 0, nident = Numeric 400\<rparr>, memSize = 16,
       typeIndex = 26, builtin = False, overlayable = False, binaryEncodingId = 401,
       members = [\<lparr>memberTypeIndex = 2, mpadding = 0, namespaceZero = True, misArray = True\<rparr>]\<rparr>"
  "dtype_of demo_bytes (Ns0 27) = \<lparr>dtypeId = \<lparr>namespaceIndex = 0, nident = Numeric 500\<rparr>, memSize = 0,
       typeIndex = 27, builtin = False, overlayable = False, binaryEncodingId = 501, members = []\<rparr>"
  "i < 25 \<Longrightarrow> dtype_of demo_bytes (Ns0 i) = demo_builtin i"
  by (simp_all add: dtype_of_def demo_bytes_def demo_types_def nth_append)

lemma demo_bytes_ok: "types_ok demo_bytes"
  unfolding types_ok_def
proof (intro conjI allI impI)
  fix i assume i: "i < length (ns0types demo_bytes)"
  show "if i < UA_BUILTIN_TYPES_COUNT then builtin_ok i (ns0types demo_bytes ! i) else struct_ok demo_bytes (Ns0 i)"
  proof (cases "i < UA_BUILTIN_TYPES_COUNT")
    case True
    then show ?thesis
      using builtin_entry(1) [OF demo_types_ok True]
      by (simp add: demo_bytes_def demo_types_def dtype_of_def nth_append UA_BUILTIN_TYPES_COUNT_def)
  next
    case False
    then have "i = 25 \<or> i = 26 \<or> i = 27"
      using i by (auto simp: demo_bytes_def demo_types_def UA_BUILTIN_TYPES_COUNT_def)
    then show ?thesis
      using False by (elim disjE) (simp_all add: demo_bytes_dtype struct_ok_def dtype_of_def demo_bytes_def demo_types_def
          nth_append demo_struct_def UA_BUILTIN_TYPES_COUNT_def)
  qed
qed (simp_all add: demo_bytes_def demo_types_def UA_BUILTIN_TYPES_COUNT_def)

text \<open>A structure whose only member is an array of bytes is encoded in a Variant as if it were a single byte. The
  decoder takes the first byte of the length for the value and leaves the rest of the structure in the message, where
  the next field is read from it.\<close>

theorem Variant_alias_array:
  "\<exists>c'. UA_encodeBinary demo_bytes (Ns0 23)
       (VVariant (VarScalar (Ns0 26) (VStruct [FArray (Some [VByte 7, VByte 8])])))
       \<lparr>eout = [], eroom = 20, edepth = 0, esent = [], escript = None\<rparr> = (GOOD, c')
     \<and> eout c' = [3, 2, 0, 0, 0, 7, 8]
     \<and> UA_decodeBinary demo_bytes (Ns0 23) (eout c') 0 = (GOOD, Some (VVariant (VarScalar (Ns0 2) (VByte 2))), 2)"
proof -
  let ?T = demo_bytes and ?v = "VVariant (VarScalar (Ns0 26) (VStruct [FArray (Some [VByte 7, VByte 8])]))"
  have m: "fits 0 (encode_array (encode_jump ?T) ?T (Ns0 2) (Some [VByte 7, VByte 8])) (array_code (Some [VByte 7, VByte 8]) [[7], [8]])"
    unfolding encode_array_def
    by (intro array_code_fits) (simp_all add: fits_def codec_fits arr_length_def UA_INT32_MAX_def)
  have "fits 1 (encodeBinaryInternal (encode_jump ?T) ?T (Ns0 26) (VStruct [FArray (Some [VByte 7, VByte 8])]))
      (array_code (Some [VByte 7, VByte 8]) [[7], [8]])"
    unfolding One_nat_def using m
    by (intro fits_internal) (simp add: demo_bytes_dtype fields_of_def membertype_def fits_def)
  moreover have "array_code (Some [VByte 7, VByte 8]) [[7], [8]] = [2, 0, 0, 0, 7, 8]"
    by (simp add: array_code_def signed_length_def UA_encode32_def)
  ultimately have "fits 1 (encode_jump ?T (Ns0 23) ?v) [3, 2, 0, 0, 0, 7, 8]"
    by (simp add: fits_def Variant_encodeBinary_def codec_fits demo_bytes_dtype is_alias_def demo_builtin_def variant_typebits_def)
  then have "fits 2 (encodeBinaryInternal (encode_jump ?T) ?T (Ns0 23) ?v) [3, 2, 0, 0, 0, 7, 8]"
    using fits_builtin_internal [OF demo_bytes_ok var_index(1), of ?v 1] by (simp add: fields_of_def numeral_2_eq_2)
  then have "UA_encodeBinary ?T (Ns0 23) ?v \<lparr>eout = [], eroom = 20, edepth = 0, esent = [], escript = None\<rparr>
      = (GOOD, emit [3, 2, 0, 0, 0, 7, 8] \<lparr>eout = [], eroom = 20, edepth = 0, esent = [], escript = None\<rparr>)"
    by (simp add: UA_encodeBinary_def fits_def UA_ENCODING_MAX_RECURSION_def)
  moreover have "UA_decodeBinary ?T (Ns0 23) [3, 2, 0, 0, 0, 7, 8] 0 = (GOOD, Some (VVariant (VarScalar (Ns0 2) (VByte 2))), 2)"
    by (subst internal_builtin [OF demo_bytes_ok var_index(1)], simp_all add: jump_simps dmap_def Variant_decodeBinary_def Byte_decodeBinary_def get_def Let_def
         UA_TYPES_DIAGNOSTICINFO_def UA_TYPES_VARIANT_def UA_TYPES_EXTENSIONOBJECT_def UA_ENCODING_MAX_RECURSION_def
         decode_jump.simps demo_bytes_dtype demo_builtin_def decode_index_def) simp
  ultimately show ?thesis
    by simp
qed

subsection \<open>Skipping the length field\<close>

text \<open>The bound on the offset is sharp. An ExtensionObject whose type has no members ends the message directly
  behind the encoding byte; the decoder skips the missing length field, reports success and leaves the offset four
  bytes behind the end of the buffer.\<close>

theorem ExtensionObject_offset_beyond_end:
  "UA_decodeBinary demo_bytes (Ns0 21) [1, 0, 0xF5, 1, 1] 0
     = (GOOD, Some (VExtensionObject (EoDecoded (Some (Ns0 27)) (Some (VStruct [])))), 9)"
proof -
  let ?c = "\<lparr>dbuf = [1, 0, 0xF5, 1, 1], dpos = 0, ddepth = Suc 0\<rparr> :: dctx"
  let ?id = "\<lparr>namespaceIndex = 0, nident = Numeric 501\<rparr> :: nodeid"
  have n: "NodeId_decodeBinary ?c = (GOOD, ?id, ?c\<lparr>dpos := 4\<rparr>)"
    by (simp add: NodeId_decodeBinary_def Byte_decodeBinary_def UInt16_decodeBinary_def get_def Let_def)
  have f: "UA_findDataTypeByBinaryInternal demo_bytes ?id = Some (Ns0 27)"
    by (simp add: UA_findDataTypeByBinaryInternal_def demo_bytes_def demo_types_def upt_rec demo_builtin_def demo_struct_def)
  have "ExtensionObject_decodeBinary (decode_jump (Suc n) demo_bytes) demo_bytes ?c
      = (GOOD, EoDecoded (Some (Ns0 27)) (Some (VStruct [])), ?c\<lparr>dpos := 9\<rparr>)" for n
    by (simp add: ExtensionObject_decodeBinary_def n Byte_decodeBinary_def get_def ExtensionObject_decodeBinaryContent_def f
        dmap_def decode_jump.simps demo_bytes_dtype decode_index_def jump_simps decodeBinaryInternal_def value_of_def
        UA_ENCODING_MAX_RECURSION_def)
  then show ?thesis
    by (subst internal_builtin [OF demo_bytes_ok eo_index(1)], simp_all add: jump_simps dmap_def) simp
qed

end
