(* ===== verification/Timer_Queue.thy ===== *)
theory Timer_Queue
  imports Prelude
begin

text \<open>
  The multi-producer single-consumer queue of changes of the timer (src/src/ua_timer.c,
  \<open>enqueueChange\<close> and \<open>dequeueChange\<close>), at the level of its pointers. A node is the stub inside the
  timer structure or the address of an entry; \<open>sle_next\<close> holds the \<open>next\<close> fields of the nodes
  (that of the stub is \<open>changes_stub\<close>).

  A producer enqueues in two steps that other threads can interleave with: the atomic exchange of
  \<open>changes_head\<close> and the write of the \<open>next\<close> field of the previous head. The step relation \<open>qstep\<close>
  has them as separate events, so that between them the chain is broken at the previous head; the
  consumer's \<open>dequeueChange\<close> runs at any of these points. The invariant is the chain of nodes from the
  tail to the head in which a link is either written or pending.
\<close>

subsection \<open>State and operations\<close>

datatype qnode = Stub | Node nat

record mpsc =
  changes_head :: qnode
  changes_tail :: qnode
  sle_next :: "qnode \<Rightarrow> qnode option"

definition exchange_head :: "qnode \<Rightarrow> 'a mpsc_scheme \<Rightarrow> qnode \<times> 'a mpsc_scheme" where
  "exchange_head tc t = (changes_head t, t\<lparr>sle_next := (sle_next t)(tc := None), changes_head := tc\<rparr>)"

definition link_prev :: "qnode \<Rightarrow> qnode \<Rightarrow> 'a mpsc_scheme \<Rightarrow> 'a mpsc_scheme" where
  "link_prev prev tc t = t\<lparr>sle_next := (sle_next t)(prev := Some tc)\<rparr>"

definition enqueueChange :: "qnode \<Rightarrow> 'a mpsc_scheme \<Rightarrow> 'a mpsc_scheme" where
  "enqueueChange tc t = (let (prev, t1) = exchange_head tc t in link_prev prev tc t1)"

text \<open>The part of \<open>dequeueChange\<close> behind the stub, with the \<open>tail\<close> and \<open>next\<close> variables.\<close>

definition dequeue_from :: "qnode \<Rightarrow> qnode option \<Rightarrow> 'a mpsc_scheme \<Rightarrow> qnode option \<times> 'a mpsc_scheme" where
  "dequeue_from tail next t =
     (case next of
        Some n \<Rightarrow> (Some tail, t\<lparr>changes_tail := n\<rparr>)
      | None \<Rightarrow>
          if tail \<noteq> changes_head t then (None, t)
          else
            (let t1 = enqueueChange Stub t in
             case sle_next t1 tail of
               Some n \<Rightarrow> (Some tail, t1\<lparr>changes_tail := n\<rparr>)
             | None \<Rightarrow> (None, t1)))"

definition dequeueChange :: "'a mpsc_scheme \<Rightarrow> qnode option \<times> 'a mpsc_scheme" where
  "dequeueChange t =
     (let tail = changes_tail t; next = sle_next t tail in
      if tail = Stub then
        (case next of
           None \<Rightarrow> (None, t)
         | Some n \<Rightarrow> dequeue_from n (sle_next t n) (t\<lparr>changes_tail := n\<rparr>))
      else dequeue_from tail next t)"

subsection \<open>The chain of nodes\<close>

text \<open>
  \<open>P prev = Some tc\<close>: a producer has exchanged the head \<open>prev\<close> for \<open>tc\<close> and has yet to write the link.
  \<open>links\<close> is the chain with the pending links in place.
\<close>

type_synonym pending = "qnode \<Rightarrow> qnode option"

definition links :: "pending \<Rightarrow> 'a mpsc_scheme \<Rightarrow> qnode \<Rightarrow> qnode option" where
  "links P t a = (case P a of Some b \<Rightarrow> Some b | None \<Rightarrow> sle_next t a)"

definition queue_inv :: "pending \<Rightarrow> 'a mpsc_scheme \<Rightarrow> qnode list \<Rightarrow> bool" where
  "queue_inv P t ns \<longleftrightarrow> ns \<noteq> [] \<and> distinct ns \<and> hd ns = changes_tail t \<and> last ns = changes_head t
     \<and> successively (\<lambda>a b. links P t a = Some b) ns \<and> links P t (last ns) = None
     \<and> dom P \<subseteq> set ns \<and> (\<forall>a \<in> dom P. sle_next t a = None)"

definition queued :: "qnode list \<Rightarrow> qnode list" where
  "queued ns = filter (\<lambda>n. n \<noteq> Stub) ns"

lemma links_cong:
  "successively (\<lambda>a b. links P t a = Some b) ns \<Longrightarrow>
   (\<And>a. a \<in> set (butlast ns) \<Longrightarrow> links P' t' a = links P t a) \<Longrightarrow>
   successively (\<lambda>a b. links P' t' a = Some b) ns"
  by (induction ns rule: induct_list012) auto

lemma butlast_neq_last: "distinct ns \<Longrightarrow> a \<in> set (butlast ns) \<Longrightarrow> a \<noteq> last ns"
  by (cases ns rule: rev_cases) auto

lemma queued_simps [simp]:
  "queued [] = []" "queued (Stub # ns) = queued ns" "queued (Node a # ns) = Node a # queued ns"
  "n \<noteq> Stub \<Longrightarrow> queued (n # ns) = n # queued ns" "queued (ns @ ms) = queued ns @ queued ms"
  by (simp_all add: queued_def)

lemma exchange_head_inv:
  assumes inv: "queue_inv P t ns" and new: "tc \<notin> set ns" and ex: "exchange_head tc t = (prev, t')"
  shows "queue_inv (P(prev \<mapsto> tc)) t' (ns @ [tc])" and "prev = last ns" and "P prev = None"
proof -
  have t': "t' = t\<lparr>sle_next := (sle_next t)(tc := None), changes_head := tc\<rparr>" and prev: "prev = last ns"
    using ex inv by (auto simp: exchange_head_def queue_inv_def)
  have ne: "ns \<noteq> []" "last ns \<in> set ns"
    using inv last_in_set [of ns] by (simp_all add: queue_inv_def)
  have fresh: "P tc = None" and none: "P prev = None" "sle_next t prev = None"
    using inv new ne prev by (auto simp: queue_inv_def links_def split: option.splits)
  then show "prev = last ns" "P prev = None"
    using prev by simp_all
  have le: "links (P(prev \<mapsto> tc)) t' a = links P t a" if "a \<in> set (butlast ns)" for a
  proof -
    have "a \<noteq> last ns" "a \<noteq> tc"
      using that inv new butlast_neq_last [of ns a]
      by (auto simp: queue_inv_def dest: in_set_butlastD)
    then show ?thesis
      by (simp add: links_def t' prev split: option.split)
  qed
  have "successively (\<lambda>a b. links P t a = Some b) ns"
    using inv by (simp add: queue_inv_def)
  from this le have s: "successively (\<lambda>a b. links (P(prev \<mapsto> tc)) t' a = Some b) ns"
    by (rule links_cong)
  have l: "links (P(prev \<mapsto> tc)) t' (last ns) = Some tc" "links (P(prev \<mapsto> tc)) t' tc = None"
    using fresh new ne by (auto simp: links_def prev t')
  have "\<forall>a \<in> dom (P(prev \<mapsto> tc)). sle_next t' a = None"
    using inv none by (auto simp: queue_inv_def t')
  then show "queue_inv (P(prev \<mapsto> tc)) t' (ns @ [tc])"
    using inv ne new s l prev unfolding queue_inv_def
    by (auto simp: successively_append_iff t')
qed

lemma link_prev_inv:
  assumes inv: "queue_inv P t ns" and p: "P prev = Some tc"
  shows "queue_inv (P(prev := None)) (link_prev prev tc t) ns"
proof -
  have eq: "links (P(prev := None)) (link_prev prev tc t) = links P t"
    by (rule ext) (auto simp: links_def link_prev_def p split: option.split)
  show ?thesis
    using inv unfolding queue_inv_def eq by (auto simp: link_prev_def)
qed

text \<open>Without a producer in between, \<open>enqueueChange\<close> appends a node.\<close>

lemma enqueueChange_inv:
  assumes "queue_inv P t ns" and "tc \<notin> set ns"
  shows "queue_inv P (enqueueChange tc t) (ns @ [tc])"
proof -
  obtain prev t1 where e: "exchange_head tc t = (prev, t1)"
    by fastforce
  note x = exchange_head_inv [OF assms e]
  have "queue_inv ((P(prev \<mapsto> tc))(prev := None)) (link_prev prev tc t1) (ns @ [tc])"
    using x(1) by (rule link_prev_inv) simp
  then show ?thesis
    using x(3) by (simp add: enqueueChange_def e fun_upd_idem)
qed

text \<open>The consumer: what \<open>dequeueChange\<close> does to the chain.\<close>

lemma queue_inv_tail:
  assumes "queue_inv P t (a # b # r)" and "P a = None"
  shows "queue_inv P (t\<lparr>changes_tail := b\<rparr>) (b # r)" and "sle_next t a = Some b"
proof -
  have "links P (t\<lparr>changes_tail := b\<rparr>) = links P t"
    by (rule ext) (simp add: links_def split: option.split)
  then show "queue_inv P (t\<lparr>changes_tail := b\<rparr>) (b # r)"
    using assms by (auto simp: queue_inv_def dom_def)
  show "sle_next t a = Some b"
    using assms by (auto simp: queue_inv_def links_def)
qed

lemma queue_inv_next:
  assumes "queue_inv P t (a # r)"
  shows "sle_next t a = None \<longleftrightarrow> r = [] \<or> P a \<noteq> None"
    and "P a \<noteq> None \<Longrightarrow> r \<noteq> []"
  using assms by (cases r; auto simp: queue_inv_def links_def split: option.splits)+

lemma dequeue_from_inv:
  assumes inv: "queue_inv P t (a # r)" and "a \<noteq> Stub"
    and deq: "dequeue_from a (sle_next t a) t = (res, t')"
  shows "(res = None \<and> t' = t \<and> P a \<noteq> None)
    \<or> (res = Some a \<and> P a = None \<and> (\<exists>ns. queue_inv P t' ns \<and> queued ns = queued r))"
proof (cases "P a")
  case None
  show ?thesis
  proof (cases r)
    case Nil
    have n: "sle_next t a = None" and h: "a = changes_head t"
      using inv Nil None by (auto simp: queue_inv_def links_def)
    have "queue_inv P (enqueueChange Stub t) ([a] @ [Stub])"
      using inv Nil assms(2) by (intro enqueueChange_inv) auto
    note s = queue_inv_tail [OF this [simplified] None]
    show ?thesis
      using deq n h s None Nil by (auto simp: dequeue_from_def Let_def intro!: exI [of _ "[Stub]"])
  next
    case (Cons b r')
    note s = queue_inv_tail [OF inv [unfolded Cons] None]
    show ?thesis
      using deq s None Cons by (auto simp: dequeue_from_def)
  qed
next
  case (Some b)
  then have "sle_next t a = None" "r \<noteq> []"
    using queue_inv_next [OF inv] by simp_all
  moreover have "a \<noteq> changes_head t"
    using inv \<open>r \<noteq> []\<close> last_in_set [of r] by (auto simp: queue_inv_def)
  ultimately show ?thesis
    using deq Some by (simp add: dequeue_from_def)
qed

lemma dequeueChange_inv:
  assumes inv: "queue_inv P t ns" and deq: "dequeueChange t = (res, t')"
  shows "case res of
      None \<Rightarrow> (queued ns = [] \<or> (\<exists>a. P a \<noteq> None)) \<and> (\<exists>ns'. queue_inv P t' ns' \<and> queued ns' = queued ns)
    | Some a \<Rightarrow> \<exists>ns'. queue_inv P t' ns' \<and> queued ns = a # queued ns'"
proof -
  obtain a r where ns: "ns = a # r" and a: "a = changes_tail t"
    using inv by (cases ns) (auto simp: queue_inv_def)
  show ?thesis
  proof (cases "a = Stub")
    case False
    then show ?thesis
      using dequeue_from_inv [of P t a r res t'] inv deq ns a
      by (force simp: dequeueChange_def Let_def)
  next
    case True
    show ?thesis
    proof (cases "sle_next t a")
      case None
      then show ?thesis
        using queue_inv_next [of P t a r] inv deq ns a True by (auto simp: dequeueChange_def)
    next
      case (Some b)
      have P: "P a = None" and "r \<noteq> []"
        using queue_inv_next [of P t a r] inv ns Some by auto
      then obtain r' where r: "r = b # r'"
        using queue_inv_tail(2) [of P t a] inv ns Some by (cases r) auto
      have inv': "queue_inv P (t\<lparr>changes_tail := b\<rparr>) (b # r')"
        using queue_inv_tail(1) [of P t a b r'] inv ns r P by simp
      have "b \<noteq> Stub"
        using inv ns r True by (auto simp: queue_inv_def)
      moreover have "dequeue_from b (sle_next (t\<lparr>changes_tail := b\<rparr>) b) (t\<lparr>changes_tail := b\<rparr>) = (res, t')"
        using deq Some True a by (simp add: dequeueChange_def)
      ultimately show ?thesis
        using dequeue_from_inv [OF inv'] ns r True inv' by force
    qed
  qed
qed

subsection \<open>Interleavings of producers and the consumer\<close>

text \<open>
  The state of a run: the queue, the pending links, and two histories, the nodes in the order of
  their head exchanges and the nodes returned by \<open>dequeueChange\<close>. A producer enqueues an entry that is
  not in the queue (it was just allocated).
\<close>

record qrun =
  rqueue :: mpsc
  rpending :: pending
  renq :: "qnode list"
  rdeq :: "qnode list"

definition queue_init :: mpsc where
  "queue_init = \<lparr>changes_head = Stub, changes_tail = Stub, sle_next = (\<lambda>_. None)\<rparr>"

inductive qstep :: "qrun \<Rightarrow> qrun \<Rightarrow> bool" where
  step_exchange:
    "Node a \<notin> set (drop (length (rdeq s)) (renq s)) \<Longrightarrow>
     exchange_head (Node a) (rqueue s) = (prev, q) \<Longrightarrow>
     qstep s (s\<lparr>rqueue := q, rpending := (rpending s)(prev \<mapsto> Node a), renq := renq s @ [Node a]\<rparr>)"
| step_link:
    "rpending s prev = Some tc \<Longrightarrow>
     qstep s (s\<lparr>rqueue := link_prev prev tc (rqueue s), rpending := (rpending s)(prev := None)\<rparr>)"
| step_dequeue:
    "dequeueChange (rqueue s) = (res, q) \<Longrightarrow>
     qstep s (s\<lparr>rqueue := q, rdeq := (case res of None \<Rightarrow> rdeq s | Some a \<Rightarrow> rdeq s @ [a])\<rparr>)"

inductive qreachable :: "qrun \<Rightarrow> bool" where
  qreach_init: "qreachable \<lparr>rqueue = queue_init, rpending = (\<lambda>_. None), renq = [], rdeq = []\<rparr>"
| qreach_step: "qreachable s \<Longrightarrow> qstep s s' \<Longrightarrow> qreachable s'"

definition qrun_inv :: "qrun \<Rightarrow> bool" where
  "qrun_inv s \<longleftrightarrow> (\<exists>ns. queue_inv (rpending s) (rqueue s) ns \<and> renq s = rdeq s @ queued ns)"

lemma queue_inv_init: "queue_inv (\<lambda>_. None) queue_init [Stub]"
  by (simp add: queue_inv_def queue_init_def links_def)

lemma qstep_inv:
  assumes "qstep s s'" and "qrun_inv s"
  shows "qrun_inv s'"
proof -
  obtain ns where inv: "queue_inv (rpending s) (rqueue s) ns" and eq: "renq s = rdeq s @ queued ns"
    using assms(2) by (auto simp: qrun_inv_def)
  from assms(1) show ?thesis
  proof cases
    case (step_exchange a prev q)
    have "Node a \<notin> set ns"
      using step_exchange(2) eq by (auto simp: queued_def)
    from exchange_head_inv(1) [OF inv this step_exchange(3)] show ?thesis
      using eq step_exchange(1) by (auto simp: qrun_inv_def intro!: exI [of _ "ns @ [Node a]"])
  next
    case (step_link prev tc)
    from link_prev_inv [OF inv step_link(2)] show ?thesis
      using eq step_link(1) by (auto simp: qrun_inv_def)
  next
    case (step_dequeue res q)
    from dequeueChange_inv [OF inv step_dequeue(2)] show ?thesis
      using eq step_dequeue(1) by (auto simp: qrun_inv_def split: option.splits)
  qed
qed

lemma qreachable_inv: "qreachable s \<Longrightarrow> qrun_inv s"
proof (induction rule: qreachable.induct)
  case qreach_init
  show ?case
    using queue_inv_init by (auto simp: qrun_inv_def intro!: exI [of _ "[Stub]"])
qed (rule qstep_inv)

subsection \<open>Properties\<close>



end
