(* ===== verification/Timer.thy ===== *)
theory Timer
  imports Timer_Queue
begin

text \<open>
  The timer of src/src/ua_timer.c: repeated callbacks in a list that is sorted by the time of the
  next execution, changed only by the main loop, which first takes the changes of other threads
  out of the queue of theory \<open>Timer_Queue\<close>.

  The entries of the sorted list are values. The entries in the queue live in \<open>changes_mem\<close>, the
  part of the C heap they are allocated in; taking an entry out of the queue removes it there, since
  it is then either freed or moved to the sorted list. Timestamps (\<open>UA_DateTime\<close>, 100 ns) are
  integers: the C type has 64 bits and would overflow after 29000 years. Whether an allocation
  succeeds and the current time are arguments of the operations. A callback is a function pointer, a
  number with the two sentinels of the source; what it does with the timer while it runs are the calls
  \<open>timer_call\<close> that the parameter \<open>dispatch\<close> gives for it.
\<close>

subsection \<open>State\<close>

record timer_entry =
  nextTime :: int
  interval :: int
  entryId :: u64
  callback :: nat
  cbdata :: nat

record timer = mpsc +
  repeatedCallbacks :: "timer_entry list"
  changes_mem :: "nat \<Rightarrow> timer_entry option"
  malloc_next :: nat
  idCounter :: u64

definition REMOVE_SENTINEL :: nat where "REMOVE_SENTINEL = 0"
definition CHANGE_SENTINEL :: nat where "CHANGE_SENTINEL = 1"
definition UA_DATETIME_MSEC :: int where "UA_DATETIME_MSEC = 10000"
definition UA_DATETIME_SEC :: int where "UA_DATETIME_SEC = 10000000"
definition UA_INT64_MAX :: int where "UA_INT64_MAX = 9223372036854775807"

definition UA_Timer_init :: timer where
  "UA_Timer_init = \<lparr>changes_head = Stub, changes_tail = Stub, sle_next = (\<lambda>_. None),
     repeatedCallbacks = [], changes_mem = (\<lambda>_. None), malloc_next = 0, idCounter = 0\<rparr>"

subsection \<open>Requesting changes\<close>

text \<open>Allocation of an entry and its insertion into the queue.\<close>

definition submit :: "timer_entry \<Rightarrow> timer \<Rightarrow> timer" where
  "submit e t = enqueueChange (Node (malloc_next t))
     (t\<lparr>changes_mem := (changes_mem t)(malloc_next t \<mapsto> e), malloc_next := malloc_next t + 1\<rparr>)"

definition UA_Timer_addRepeatedCallback ::
  "bool \<Rightarrow> int \<Rightarrow> nat \<Rightarrow> nat \<Rightarrow> u32 \<Rightarrow> timer \<Rightarrow> status \<times> u64 option \<times> timer" where
  "UA_Timer_addRepeatedCallback malloc_ok now cb dat ivl t =
     (if cb = 0 then (BADINTERNALERROR, None, t)
      else if ivl < 5 then (BADINTERNALERROR, None, t)
      else if \<not> malloc_ok then (BADOUTOFMEMORY, None, t)
      else
        (let i = uint ivl * UA_DATETIME_MSEC;
             n = idCounter t + 1;
             tc = \<lparr>nextTime = now + i, interval = i, entryId = n, callback = cb, cbdata = dat\<rparr>
         in (GOOD, Some n, submit tc (t\<lparr>idCounter := n\<rparr>))))"

text \<open>The fields that the code leaves uninitialised are set to zero; they are never read.\<close>

definition UA_Timer_changeRepeatedCallbackInterval ::
  "bool \<Rightarrow> int \<Rightarrow> u64 \<Rightarrow> u32 \<Rightarrow> timer \<Rightarrow> status \<times> timer" where
  "UA_Timer_changeRepeatedCallbackInterval malloc_ok now cid ivl t =
     (if ivl < 5 then (BADINTERNALERROR, t)
      else if \<not> malloc_ok then (BADOUTOFMEMORY, t)
      else
        (let i = uint ivl * UA_DATETIME_MSEC in
         (GOOD, submit \<lparr>nextTime = now + i, interval = i, entryId = cid, callback = CHANGE_SENTINEL,
                         cbdata = 0\<rparr> t)))"

definition UA_Timer_removeRepeatedCallback :: "bool \<Rightarrow> u64 \<Rightarrow> timer \<Rightarrow> status \<times> timer" where
  "UA_Timer_removeRepeatedCallback malloc_ok cid t =
     (if \<not> malloc_ok then (BADOUTOFMEMORY, t)
      else (GOOD, submit \<lparr>nextTime = 0, interval = 0, entryId = cid, callback = REMOVE_SENTINEL,
                          cbdata = 0\<rparr> t))"

datatype timer_call =
    CallAdd bool int nat nat u32
  | CallChange bool int u64 u32
  | CallRemove bool u64

fun run_call :: "timer_call \<Rightarrow> timer \<Rightarrow> timer" where
  "run_call (CallAdd ok now cb dat ivl) t = snd (snd (UA_Timer_addRepeatedCallback ok now cb dat ivl t))"
| "run_call (CallChange ok now cid ivl) t = snd (UA_Timer_changeRepeatedCallbackInterval ok now cid ivl t)"
| "run_call (CallRemove ok cid) t = snd (UA_Timer_removeRepeatedCallback ok cid t)"

subsection \<open>Applying changes\<close>

text \<open>
  The loop over the list: the entry goes before the first entry that is not earlier; on the way its
  time is moved to that of an entry with the same interval less than a second earlier.
\<close>

fun addTimerCallbackEntry :: "timer_entry \<Rightarrow> timer_entry list \<Rightarrow> timer_entry list" where
  "addTimerCallbackEntry tc [] = [tc]"
| "addTimerCallbackEntry tc (x # xs) =
     (if nextTime x \<ge> nextTime tc then tc # x # xs
      else x # addTimerCallbackEntry
             (if interval x = interval tc \<and> nextTime x > nextTime tc - UA_DATETIME_SEC
              then tc\<lparr>nextTime := nextTime x\<rparr> else tc) xs)"

fun removeRepeatedCallback :: "u64 \<Rightarrow> timer_entry list \<Rightarrow> timer_entry list" where
  "removeRepeatedCallback cid [] = []"
| "removeRepeatedCallback cid (x # xs) =
     (if entryId x = cid then xs else x # removeRepeatedCallback cid xs)"

definition changeTimerCallbackEntryInterval ::
  "u64 \<Rightarrow> int \<Rightarrow> int \<Rightarrow> timer_entry list \<Rightarrow> timer_entry list" where
  "changeTimerCallbackEntryInterval cid ivl next xs =
     (case find (\<lambda>e. entryId e = cid) xs of
        None \<Rightarrow> xs
      | Some tc \<Rightarrow>
          addTimerCallbackEntry (tc\<lparr>interval := ivl, nextTime := next\<rparr>) (removeRepeatedCallback cid xs))"

definition apply_change :: "timer_entry \<Rightarrow> timer_entry list \<Rightarrow> timer_entry list" where
  "apply_change e xs =
     (if callback e = REMOVE_SENTINEL then removeRepeatedCallback (entryId e) xs
      else if callback e = CHANGE_SENTINEL
      then changeTimerCallbackEntryInterval (entryId e) (interval e) (nextTime e) xs
      else addTimerCallbackEntry e xs)"

text \<open>
  The loop of \<open>processChanges\<close>. The results \<open>None\<close> stand for a loop that does not end and for the
  access of an entry that is not allocated.
\<close>

partial_function (option) processChanges :: "timer \<Rightarrow> timer option" where
  "processChanges t =
     (case dequeueChange t of
        (None, t1) \<Rightarrow> Some t1
      | (Some Stub, t1) \<Rightarrow> None
      | (Some (Node a), t1) \<Rightarrow>
          (case changes_mem t1 a of
             None \<Rightarrow> None
           | Some e \<Rightarrow>
               processChanges (t1\<lparr>repeatedCallbacks := apply_change e (repeatedCallbacks t1),
                                  changes_mem := (changes_mem t1)(a := None)\<rparr>)))"

subsection \<open>Processing\<close>

text \<open>
  A position in the new list is the number of nodes up to it: \<open>0\<close> is the fake entry \<open>tmp_first\<close>, and
  \<open>k + 1\<close> the entry with index \<open>k\<close>.
\<close>

function find_prev :: "timer_entry list \<Rightarrow> int \<Rightarrow> nat \<Rightarrow> nat" where
  "find_prev xs tm prev =
     (if prev < length xs \<and> nextTime (xs ! prev) < tm then find_prev xs tm (Suc prev) else prev)"
  by pat_completeness auto
termination
  by (relation "measure (\<lambda>(xs, _, prev). length xs - prev)") auto

declare find_prev.simps [simp del]

definition node_time :: "int \<Rightarrow> timer_entry list \<Rightarrow> nat \<Rightarrow> int" where
  "node_time now xs k = (if k = 0 then now - 1 else nextTime (xs ! (k - 1)))"

definition reschedule :: "int \<Rightarrow> timer_entry \<Rightarrow> timer_entry" where
  "reschedule now tc =
     (let n = nextTime tc + interval tc in tc\<lparr>nextTime := (if n < now then now + 1 else n)\<rparr>)"

text \<open>
  The loop over the callbacks that are executed now: \<open>xs\<close> is the new sorted list behind
  \<open>tmp_first\<close>, \<open>ld\<close> the position of \<open>last_dispatched\<close>. \<open>None\<close> is a failed assertion.
\<close>

fun process_now ::
  "(nat \<Rightarrow> nat \<Rightarrow> timer_call list) \<Rightarrow> int \<Rightarrow> timer_entry list \<Rightarrow> timer_entry list \<Rightarrow> nat \<Rightarrow> timer \<Rightarrow>
   (timer_entry list \<times> timer) option" where
  "process_now dispatch now [] xs ld t = Some (xs, t)"
| "process_now dispatch now (tc # rest) xs ld t =
     (let t1 = fold run_call (dispatch (callback tc) (cbdata tc)) t;
          tc1 = reschedule now tc;
          tld = node_time now xs ld
      in if tld = nextTime tc1 then
           (if ld = 0 then None
            else process_now dispatch now rest (take ld xs @ tc1 # drop ld xs) ld t1)
         else
           (let p = find_prev xs (nextTime tc1) (if tld < nextTime tc1 then ld else 0) in
            process_now dispatch now rest (take p xs @ tc1 # drop p xs) (Suc p) t1))"

definition first_time :: "timer_entry list \<Rightarrow> int" where
  "first_time xs = (case xs of [] \<Rightarrow> UA_INT64_MAX | x # _ \<Rightarrow> nextTime x)"

text \<open>The result has the dispatched callbacks with their data, in order.\<close>

definition UA_Timer_process ::
  "(nat \<Rightarrow> nat \<Rightarrow> timer_call list) \<Rightarrow> int \<Rightarrow> timer \<Rightarrow> ((nat \<times> nat) list \<times> int \<times> timer) option" where
  "UA_Timer_process dispatch now t =
     Option.bind (processChanges t) (\<lambda>t1.
       let executedNow = takeWhile (\<lambda>e. nextTime e \<le> now) (repeatedCallbacks t1);
           after = dropWhile (\<lambda>e. nextTime e \<le> now) (repeatedCallbacks t1)
       in if executedNow = [] then Some ([], first_time after, t1)
          else
            Option.bind (process_now dispatch now executedNow after 0 t1) (\<lambda>(xs, t2).
            Option.bind (processChanges (t2\<lparr>repeatedCallbacks := xs\<rparr>)) (\<lambda>t3.
              Some (map (\<lambda>e. (callback e, cbdata e)) executedNow, first_time (repeatedCallbacks t3), t3))))"

definition UA_Timer_deleteMembers :: "timer \<Rightarrow> timer option" where
  "UA_Timer_deleteMembers t = map_option (\<lambda>t1. t1\<lparr>repeatedCallbacks := []\<rparr>) (processChanges t)"

end
