(* ===== verification/Timer_Correct.thy ===== *)
theory Timer_Correct
  imports Timer
begin

text \<open>
  Correctness of the timer. \<open>timer_rep t es\<close> relates a timer to the list of the changes that wait in
  its queue. The locale \<open>timer_change\<close> is the contract of the operations that change the sorted
  list (adding, removing, changing the interval and the dispatcher of the three); its client is the
  sequence of changes that \<open>processChanges\<close> applies.
\<close>

subsection \<open>The queue of changes inside the timer\<close>

lemma map_fun_upd_notin: "a \<notin> set xs \<Longrightarrow> map (f(a := v)) xs = map f xs"
  by (induction xs) auto

definition timer_rep :: "timer \<Rightarrow> timer_entry list \<Rightarrow> bool" where
  "timer_rep t es \<longleftrightarrow>
     (\<exists>ns as. queue_inv (\<lambda>_. None) t ns \<and> queued ns = map Node as \<and> dom (changes_mem t) = set as
        \<and> map (changes_mem t) as = map Some es \<and> (\<forall>a \<in> set as. a < malloc_next t))"

lemma queue_inv_cong:
  "changes_head t' = changes_head t \<Longrightarrow> changes_tail t' = changes_tail t \<Longrightarrow> sle_next t' = sle_next t \<Longrightarrow>
   queue_inv P t' ns = queue_inv P t ns"
proof -
  assume a: "changes_head t' = changes_head t" "changes_tail t' = changes_tail t" "sle_next t' = sle_next t"
  have "links P t' = links P t"
    using a by (auto simp: links_def fun_eq_iff split: option.split)
  with a show ?thesis
    by (simp add: queue_inv_def)
qed

lemma enqueueChange_frame [simp]:
  "repeatedCallbacks (enqueueChange n t) = repeatedCallbacks t"
  "changes_mem (enqueueChange n t) = changes_mem t"
  "malloc_next (enqueueChange n t) = malloc_next t"
  "idCounter (enqueueChange n t) = idCounter t"
  by (simp_all add: enqueueChange_def exchange_head_def link_prev_def)

lemma dequeueChange_frame:
  "dequeueChange t = (r, t') \<Longrightarrow>
   repeatedCallbacks t' = repeatedCallbacks t \<and> changes_mem t' = changes_mem t
     \<and> malloc_next t' = malloc_next t \<and> idCounter t' = idCounter t"
  by (auto simp: dequeueChange_def dequeue_from_def Let_def split: if_splits option.splits)

lemma timer_rep_init: "timer_rep UA_Timer_init []"
proof -
  have "queue_inv (\<lambda>_. None) UA_Timer_init [Stub]"
    by (simp add: queue_inv_def UA_Timer_init_def links_def)
  then show ?thesis
    by (auto simp: timer_rep_def UA_Timer_init_def intro!: exI [of _ "[Stub]"])
qed

lemma timer_rep_frame:
  "timer_rep (t\<lparr>repeatedCallbacks := xs\<rparr>) es = timer_rep t es"
  "timer_rep (t\<lparr>repeatedCallbacks := xs, changes_mem := m\<rparr>) es = timer_rep (t\<lparr>changes_mem := m\<rparr>) es"
  "timer_rep (t\<lparr>idCounter := n\<rparr>) es = timer_rep t es"
  unfolding timer_rep_def
  by (simp_all add: queue_inv_cong [of "t\<lparr>repeatedCallbacks := xs\<rparr>" t] queue_inv_cong [of "t\<lparr>idCounter := n\<rparr>" t]
      queue_inv_cong [of "t\<lparr>repeatedCallbacks := xs, changes_mem := m\<rparr>" "t\<lparr>changes_mem := m\<rparr>"])

lemma timer_rep_submit:
  assumes "timer_rep t es"
  shows "timer_rep (submit e t) (es @ [e])"
proof -
  obtain ns as where r: "queue_inv (\<lambda>_. None) t ns" "queued ns = map Node as"
    "dom (changes_mem t) = set as" "map (changes_mem t) as = map Some es" "\<forall>a \<in> set as. a < malloc_next t"
    using assms by (auto simp: timer_rep_def)
  let ?t = "t\<lparr>changes_mem := (changes_mem t)(malloc_next t \<mapsto> e), malloc_next := malloc_next t + 1\<rparr>"
  have "Node (malloc_next t) \<notin> set (queued ns)"
    using r(2,5) by auto
  then have new: "Node (malloc_next t) \<notin> set ns" and na: "malloc_next t \<notin> set as"
    using r(5) by (auto simp: queued_def)
  have "queue_inv (\<lambda>_. None) ?t ns"
    using r(1) by (subst queue_inv_cong [of _ t]) simp_all
  then have "queue_inv (\<lambda>_. None) (enqueueChange (Node (malloc_next t)) ?t) (ns @ [Node (malloc_next t)])"
    using new by (rule enqueueChange_inv)
  moreover have "map ((changes_mem t)(malloc_next t \<mapsto> e)) as = map Some es"
    unfolding map_fun_upd_notin [OF na] by (rule r(4))
  ultimately show ?thesis
    unfolding timer_rep_def submit_def
    using r by (intro exI [of _ "ns @ [Node (malloc_next t)]"] exI [of _ "as @ [malloc_next t]"]) auto
qed

lemma timer_rep_dequeue_Nil:
  assumes "timer_rep t []"
  obtains t1 where "dequeueChange t = (None, t1)" "timer_rep t1 []"
proof -
  obtain ns where r: "queue_inv (\<lambda>_. None) t ns" "queued ns = []" "dom (changes_mem t) = {}"
    using assms by (auto simp: timer_rep_def)
  obtain res t1 where d: "dequeueChange t = (res, t1)"
    by fastforce
  from dequeueChange_inv [OF r(1) d] r dequeueChange_frame [OF d] d show thesis
    by (intro that) (auto simp: timer_rep_def split: option.splits)
qed

lemma timer_rep_dequeue_Cons:
  assumes "timer_rep t (e # es)"
  obtains a t1 where "dequeueChange t = (Some (Node a), t1)" "changes_mem t1 a = Some e"
    "timer_rep (t1\<lparr>changes_mem := (changes_mem t1)(a := None)\<rparr>) es"
proof -
  obtain ns a as where r: "queue_inv (\<lambda>_. None) t ns" "queued ns = map Node (a # as)"
    "dom (changes_mem t) = set (a # as)" "map (changes_mem t) (a # as) = map Some (e # es)"
    "\<forall>x \<in> set (a # as). x < malloc_next t"
    using assms unfolding timer_rep_def by (auto simp: map_eq_Cons_conv)
  obtain res t1 where d: "dequeueChange t = (res, t1)"
    by fastforce
  obtain ns' where res: "res = Some (Node a)" and ns': "queue_inv (\<lambda>_. None) t1 ns'" "queued ns' = map Node as"
    using dequeueChange_inv [OF r(1) d] r(2) by (auto split: option.splits)
  note f = dequeueChange_frame [OF d]
  let ?t = "t1\<lparr>changes_mem := (changes_mem t1)(a := None)\<rparr>"
  have "distinct (queued ns)"
    using r(1) by (simp add: queue_inv_def queued_def)
  then have na: "a \<notin> set as"
    using r(2) by (auto simp: distinct_map)
  have "queue_inv (\<lambda>_. None) ?t ns'"
    using ns'(1) by (subst queue_inv_cong [of _ t1]) simp_all
  moreover have "map ((changes_mem t1)(a := None)) as = map Some es"
    unfolding map_fun_upd_notin [OF na] using r(4) f by simp
  ultimately have "timer_rep ?t es"
    unfolding timer_rep_def using r ns' f na by (intro exI [of _ ns'] exI [of _ as]) auto
  then show thesis
    using that d res r(4) f by auto
qed

text \<open>The loop of \<open>processChanges\<close> ends, empties the queue and applies the changes in their order.\<close>

lemma processChanges_rep:
  assumes "timer_rep t es"
  shows "\<exists>t'. processChanges t = Some t' \<and> timer_rep t' []
    \<and> repeatedCallbacks t' = fold apply_change es (repeatedCallbacks t) \<and> idCounter t' = idCounter t
    \<and> malloc_next t' = malloc_next t"
  using assms
proof (induction es arbitrary: t)
  case Nil
  then obtain t1 where "dequeueChange t = (None, t1)" "timer_rep t1 []"
    by (rule timer_rep_dequeue_Nil)
  then show ?case
    using dequeueChange_frame by (subst processChanges.simps) auto
next
  case (Cons e es)
  from Cons.prems obtain a t1 where d: "dequeueChange t = (Some (Node a), t1)" "changes_mem t1 a = Some e"
    "timer_rep (t1\<lparr>changes_mem := (changes_mem t1)(a := None)\<rparr>) es"
    by (rule timer_rep_dequeue_Cons)
  let ?t = "t1\<lparr>repeatedCallbacks := apply_change e (repeatedCallbacks t1),
               changes_mem := (changes_mem t1)(a := None)\<rparr>"
  have "timer_rep ?t es"
    using d(3) by (simp add: timer_rep_frame)
  from Cons.IH [OF this] show ?case
    using d dequeueChange_frame [OF d(1)] by (subst processChanges.simps) auto
qed

subsection \<open>The sorted list\<close>

abbreviation sorted_entries :: "timer_entry list \<Rightarrow> bool" where
  "sorted_entries xs \<equiv> sorted_wrt (\<lambda>a b. nextTime a \<le> nextTime b) xs"

text \<open>
  The contract of the operations on the sorted list: the list stays sorted, and entries with
  another identifier than the one the change is for stay as they are and in their order.
\<close>

locale timer_change =
  fixes change :: "'c \<Rightarrow> timer_entry list \<Rightarrow> timer_entry list" and key :: "'c \<Rightarrow> u64"
  assumes change_sorted: "sorted_entries xs \<Longrightarrow> sorted_entries (change c xs)"
    and change_others: "filter (\<lambda>x. entryId x \<noteq> key c) (change c xs) = filter (\<lambda>x. entryId x \<noteq> key c) xs"
begin

lemma changes_sorted: "sorted_entries xs \<Longrightarrow> sorted_entries (fold change cs xs)"
  by (induction cs arbitrary: xs) (simp_all add: change_sorted)

lemma change_other: "i \<noteq> key c \<Longrightarrow> filter (\<lambda>x. entryId x = i) (change c xs) = filter (\<lambda>x. entryId x = i) xs"
proof -
  assume i: "i \<noteq> key c"
  have f: "filter (\<lambda>x. entryId x = i) ys = filter (\<lambda>x. entryId x = i) (filter (\<lambda>x. entryId x \<noteq> key c) ys)" for ys
    using i by (auto simp: filter_filter intro: filter_cong)
  show ?thesis
    by (subst (1 2) f) (simp only: change_others)
qed

lemma changes_other:
  "i \<notin> key ` set cs \<Longrightarrow> filter (\<lambda>x. entryId x = i) (fold change cs xs) = filter (\<lambda>x. entryId x = i) xs"
  by (induction cs arbitrary: xs) (simp_all add: change_other)

end

lemma add_bounds:
  "sorted_entries xs \<Longrightarrow> (\<forall>x \<in> set xs. l \<le> nextTime x) \<Longrightarrow> l \<le> nextTime tc \<Longrightarrow>
   sorted_entries (addTimerCallbackEntry tc xs) \<and> (\<forall>x \<in> set (addTimerCallbackEntry tc xs). l \<le> nextTime x)"
proof (induction tc xs arbitrary: l rule: addTimerCallbackEntry.induct)
  case (2 tc x xs)
  show ?case
  proof (cases "nextTime x \<ge> nextTime tc")
    case True
    then show ?thesis
      using "2.prems" by force
  next
    case False
    let ?tc = "if interval x = interval tc \<and> nextTime x > nextTime tc - UA_DATETIME_SEC
               then tc\<lparr>nextTime := nextTime x\<rparr> else tc"
    have "sorted_entries (addTimerCallbackEntry ?tc xs) \<and>
        (\<forall>y \<in> set (addTimerCallbackEntry ?tc xs). nextTime x \<le> nextTime y)"
      using "2.prems" False by (intro "2.IH") auto
    with False "2.prems" show ?thesis
      by (auto simp del: addTimerCallbackEntry.simps simp: addTimerCallbackEntry.simps(2))
        (force)+
  qed
qed simp

lemma add_sorted: "sorted_entries xs \<Longrightarrow> sorted_entries (addTimerCallbackEntry tc xs)"
proof -
  assume s: "sorted_entries xs"
  define l where "l = Min (nextTime ` set (tc # xs))"
  have "\<forall>x \<in> set xs. l \<le> nextTime x" "l \<le> nextTime tc"
    by (simp_all add: l_def)
  with s show ?thesis
    using add_bounds by blast
qed

lemma add_others:
  "filter (\<lambda>x. entryId x \<noteq> entryId tc) (addTimerCallbackEntry tc xs) = filter (\<lambda>x. entryId x \<noteq> entryId tc) xs"
  by (induction tc xs rule: addTimerCallbackEntry.induct) auto

lemma add_mset_entry: "\<exists>n. mset (addTimerCallbackEntry tc xs) = add_mset (tc\<lparr>nextTime := n\<rparr>) (mset xs)"
proof (induction tc xs rule: addTimerCallbackEntry.induct)
  case (1 tc)
  show ?case by (auto intro: exI [of _ "nextTime tc"])
next
  case (2 tc x xs)
  show ?case
  proof (cases "nextTime x \<ge> nextTime tc")
    case True
    then show ?thesis
      by (auto intro: exI [of _ "nextTime tc"])
  next
    case False
    from "2.IH" [OF this] False show ?thesis
      by (auto simp: add_mset_commute split: if_splits)
  qed
qed

interpretation add_change: timer_change addTimerCallbackEntry entryId
  by unfold_locales (simp_all add: add_sorted add_others)

lemma remove_subset: "set (removeRepeatedCallback cid xs) \<subseteq> set xs"
  by (induction xs) auto

interpretation remove_change: timer_change removeRepeatedCallback "\<lambda>cid. cid"
proof
  fix xs cid assume "sorted_entries xs"
  then show "sorted_entries (removeRepeatedCallback cid xs)"
    using remove_subset by (induction xs) fastforce+
next
  fix xs cid
  show "filter (\<lambda>x. entryId x \<noteq> cid) (removeRepeatedCallback cid xs) = filter (\<lambda>x. entryId x \<noteq> cid) xs"
    by (induction xs) auto
qed

lemma change_entry:
  "find (\<lambda>e. entryId e = cid) xs = Some tc \<Longrightarrow> entryId tc = cid"
  by (simp add: find_Some_iff) blast

interpretation interval_change:
  timer_change "\<lambda>(cid, ivl, next). changeTimerCallbackEntryInterval cid ivl next" fst
proof
  fix xs and c :: "u64 \<times> int \<times> int" assume "sorted_entries xs"
  then show "sorted_entries ((\<lambda>(cid, ivl, next). changeTimerCallbackEntryInterval cid ivl next) c xs)"
    by (auto simp: changeTimerCallbackEntryInterval_def remove_change.change_sorted add_change.change_sorted
        split: option.split prod.split)
next
  fix xs and c :: "u64 \<times> int \<times> int"
  obtain cid ivl nx where c: "c = (cid, ivl, nx)"
    by (cases c)
  show "filter (\<lambda>x. entryId x \<noteq> fst c) ((\<lambda>(cid, ivl, next). changeTimerCallbackEntryInterval cid ivl next) c xs)
      = filter (\<lambda>x. entryId x \<noteq> fst c) xs"
  proof (cases "find (\<lambda>e. entryId e = cid) xs")
    case (Some tc)
    then show ?thesis
      using add_others [of "tc\<lparr>interval := ivl, nextTime := nx\<rparr>" "removeRepeatedCallback cid xs"]
        change_entry [OF Some] remove_change.change_others [of cid xs]
      by (simp add: c changeTimerCallbackEntryInterval_def)
  qed (simp add: c changeTimerCallbackEntryInterval_def)
qed

interpretation all_changes: timer_change apply_change entryId
  using interval_change.change_sorted [of _ "(entryId c, interval c, nextTime c)" for c]
    interval_change.change_others [of "(entryId c, interval c, nextTime c)" for c]
  by unfold_locales
     (auto simp: apply_change_def add_change.change_sorted add_others remove_change.change_sorted
        remove_change.change_others)

subsection \<open>Reinserting the executed callbacks\<close>

lemma find_prev_spec:
  assumes "prev \<le> length xs"
  shows "prev \<le> find_prev xs tm prev \<and> find_prev xs tm prev \<le> length xs
    \<and> (\<forall>i. prev \<le> i \<longrightarrow> i < find_prev xs tm prev \<longrightarrow> nextTime (xs ! i) < tm)
    \<and> (find_prev xs tm prev < length xs \<longrightarrow> tm \<le> nextTime (xs ! find_prev xs tm prev))"
  using assms
proof (induction xs tm prev rule: find_prev.induct)
  case (1 xs tm prev)
  show ?case
  proof (cases "prev < length xs \<and> nextTime (xs ! prev) < tm")
    case True
    have eq: "find_prev xs tm prev = find_prev xs tm (Suc prev)"
      using True by (subst find_prev.simps) simp
    have "i = prev \<or> Suc prev \<le> i" if "prev \<le> i" for i
      using that by auto
    then show ?thesis
      using "1.IH" [OF True] True unfolding eq by (auto dest: Suc_leD)
  next
    case False
    then have eq: "find_prev xs tm prev = prev"
      by (subst find_prev.simps) auto
    show ?thesis
      using False "1.prems" unfolding eq by auto
  qed
qed

lemma insert_sorted_at:
  assumes "sorted_entries xs" and "p \<le> length xs"
    and "\<And>i. i < p \<Longrightarrow> nextTime (xs ! i) \<le> nextTime e"
    and "p < length xs \<Longrightarrow> nextTime e \<le> nextTime (xs ! p)"
  shows "sorted_entries (take p xs @ e # drop p xs)"
proof -
  have s: "sorted_entries (take p xs @ drop p xs)"
    using assms(1) by simp
  have l: "\<forall>x \<in> set (take p xs). nextTime x \<le> nextTime e"
    using assms(2,3) by (auto simp: in_set_conv_nth)
  have r: "\<forall>x \<in> set (drop p xs). nextTime e \<le> nextTime x"
  proof (cases "p < length xs")
    case True
    then have d: "drop p xs = xs ! p # drop (Suc p) xs"
      by (rule Cons_nth_drop_Suc [symmetric])
    have "sorted_entries (xs ! p # drop (Suc p) xs)"
      using s unfolding sorted_wrt_append d by simp
    then show ?thesis
      unfolding d using assms(4) [OF True] by force
  qed simp
  show ?thesis
    using s l r by (force simp: sorted_wrt_append)
qed

lemma mset_insert_at: "mset (take p xs @ e # drop p xs) = add_mset e (mset xs)"
proof -
  have "mset xs = mset (take p xs) + mset (drop p xs)"
    by (metis append_take_drop_id mset_append)
  then show ?thesis
    by simp
qed

lemma node_time_bound:
  assumes "sorted_entries xs" and "ld \<le> length xs" and "i < ld"
  shows "nextTime (xs ! i) \<le> node_time now xs ld"
proof (cases "i = ld - 1")
  case False
  then have "i < ld - 1"
    using assms(3) by simp
  then show ?thesis
    using assms sorted_wrt_nth_less [of "\<lambda>a b. nextTime a \<le> nextTime b" xs i "ld - 1"]
    by (simp add: node_time_def)
qed (use assms in \<open>simp add: node_time_def\<close>)

lemma node_time_next:
  assumes "sorted_entries xs" and "0 < ld" and "ld < length xs"
  shows "node_time now xs ld \<le> nextTime (xs ! ld)"
  using assms sorted_wrt_nth_less [of "\<lambda>a b. nextTime a \<le> nextTime b" xs "ld - 1" ld]
  by (simp add: node_time_def)

lemma reschedule_bound: "now \<le> nextTime (reschedule now tc)"
  by (simp add: reschedule_def Let_def)

text \<open>
  The assertion of the loop never fails, the new list is sorted and consists of the old entries and
  the rescheduled ones.
\<close>

lemma process_now_correct:
  assumes "sorted_entries xs" and "ld \<le> length xs"
  shows "\<exists>xs'. process_now dispatch now es xs ld t
      = Some (xs', fold (\<lambda>e. fold run_call (dispatch (callback e) (cbdata e))) es t)
    \<and> sorted_entries xs' \<and> mset xs' = mset xs + mset (map (reschedule now) es)"
  using assms
proof (induction es arbitrary: xs ld t)
  case (Cons tc rest)
  let ?tc = "reschedule now tc" and ?tld = "node_time now xs ld"
  let ?t = "fold run_call (dispatch (callback tc) (cbdata tc)) t"
  have step: ?case
    if p: "p \<le> length xs" "ld' \<le> Suc (length xs)"
      and l: "\<And>i. i < p \<Longrightarrow> nextTime (xs ! i) \<le> nextTime ?tc"
      and r: "p < length xs \<Longrightarrow> nextTime ?tc \<le> nextTime (xs ! p)"
      and eq: "process_now dispatch now (tc # rest) xs ld t
        = process_now dispatch now rest (take p xs @ ?tc # drop p xs) ld' ?t" for p ld'
  proof -
    have "sorted_entries (take p xs @ ?tc # drop p xs)"
      using Cons.prems(1) p(1) l r by (rule insert_sorted_at)
    moreover have "ld' \<le> length (take p xs @ ?tc # drop p xs)"
      using p by simp
    ultimately show ?thesis
      using Cons.IH [of "take p xs @ ?tc # drop p xs" ld' ?t] unfolding eq mset_insert_at by simp
  qed
  show ?case
  proof (cases "?tld = nextTime ?tc")
    case True
    then have "ld \<noteq> 0"
      using reschedule_bound [of now tc] by (cases "ld = 0") (auto simp: node_time_def)
    then show ?thesis
      using True Cons.prems node_time_bound [OF Cons.prems, of _ now]
        node_time_next [OF Cons.prems(1), of ld now]
      by (intro step [of ld ld]) (auto simp: Let_def)
  next
    case False
    let ?s = "if ?tld < nextTime ?tc then ld else 0"
    let ?p = "find_prev xs (nextTime ?tc) ?s"
    have "?s \<le> length xs"
      using Cons.prems(2) by simp
    note f = find_prev_spec [OF this, of "nextTime ?tc"]
    have "nextTime (xs ! i) \<le> nextTime ?tc" if "i < ?p" for i
    proof (cases "?s \<le> i")
      case False
      then have "i < ld" "?tld < nextTime ?tc"
        by (auto split: if_splits)
      then show ?thesis
        using node_time_bound [OF Cons.prems \<open>i < ld\<close>, of now] by simp
    qed (use f that in \<open>simp add: less_imp_le\<close>)
    then show ?thesis
      using False f by (intro step [of ?p "Suc ?p"]) (auto simp: Let_def)
  qed
qed simp

subsection \<open>Processing the timer\<close>

lemma submit_frame [simp]: "repeatedCallbacks (submit e t) = repeatedCallbacks t"
  by (simp add: submit_def)

lemma run_call_rep:
  assumes "timer_rep t es"
  shows "\<exists>es'. timer_rep (run_call c t) (es @ es') \<and> repeatedCallbacks (run_call c t) = repeatedCallbacks t"
proof (cases c)
  case (CallAdd ok now cb dat ivl)
  then show ?thesis
    using assms timer_rep_submit [of "t\<lparr>idCounter := idCounter t + 1\<rparr>" es]
    by (auto simp: UA_Timer_addRepeatedCallback_def Let_def timer_rep_frame intro: exI [of _ "[]"])
next
  case (CallChange ok now cid ivl)
  then show ?thesis
    using assms timer_rep_submit [OF assms]
    by (auto simp: UA_Timer_changeRepeatedCallbackInterval_def Let_def intro: exI [of _ "[]"])
next
  case (CallRemove ok cid)
  then show ?thesis
    using assms timer_rep_submit [OF assms]
    by (auto simp: UA_Timer_removeRepeatedCallback_def intro: exI [of _ "[]"])
qed

lemma run_calls_rep:
  "timer_rep t es \<Longrightarrow>
   \<exists>es'. timer_rep (fold run_call cs t) (es @ es') \<and> repeatedCallbacks (fold run_call cs t) = repeatedCallbacks t"
proof (induction cs arbitrary: t es)
  case Nil
  then show ?case
    by (auto intro: exI [of _ "[]"])
next
  case (Cons c cs)
  obtain e1 where 1: "timer_rep (run_call c t) (es @ e1)" "repeatedCallbacks (run_call c t) = repeatedCallbacks t"
    using run_call_rep [OF Cons.prems] by blast
  from Cons.IH [OF 1(1)] 1(2) show ?case
    by auto
qed

lemma dispatch_rep:
  "timer_rep t es \<Longrightarrow> \<exists>es'. timer_rep (fold (\<lambda>e. fold run_call (calls e)) xs t) (es @ es')"
proof (induction xs arbitrary: t es)
  case Nil
  then show ?case
    by (auto intro: exI [of _ "[]"])
next
  case (Cons x xs)
  obtain e1 where "timer_rep (fold run_call (calls x) t) (es @ e1)"
    using run_calls_rep [OF Cons.prems] by blast
  from Cons.IH [OF this] show ?case
    by auto
qed

lemma takeWhile_due: "sorted_entries xs \<Longrightarrow> takeWhile (\<lambda>e. nextTime e \<le> now) xs = filter (\<lambda>e. nextTime e \<le> now) xs"
proof (induction xs)
  case (Cons x xs)
  have "\<not> nextTime x \<le> now \<Longrightarrow> filter (\<lambda>e. nextTime e \<le> now) xs = []"
    using Cons.prems by (fastforce simp: filter_empty_conv)
  with Cons show ?case
    by auto
qed simp

lemma dropWhile_due:
  "sorted_entries xs \<Longrightarrow> dropWhile (\<lambda>e. nextTime e \<le> now) xs = filter (\<lambda>e. now < nextTime e) xs"
proof (induction xs)
  case (Cons x xs)
  have "\<not> nextTime x \<le> now \<Longrightarrow> filter (\<lambda>e. now < nextTime e) xs = xs"
    using Cons.prems by (fastforce simp: filter_id_conv)
  with Cons show ?case
    by auto
qed simp

lemma first_time_min: "sorted_entries xs \<Longrightarrow> x \<in> set xs \<Longrightarrow> first_time xs \<le> nextTime x"
  by (cases xs) (auto simp: first_time_def)

text \<open>The state after the dispatch, before the changes that the callbacks have asked for.\<close>

definition rescheduled :: "int \<Rightarrow> timer_entry list \<Rightarrow> timer_entry list \<Rightarrow> bool" where
  "rescheduled now xs ys \<longleftrightarrow> sorted_entries ys
     \<and> mset ys = mset (map (\<lambda>e. if nextTime e \<le> now then reschedule now e else e) xs)"

lemma UA_Timer_process_spec:
  assumes "timer_rep t es" and "sorted_entries (repeatedCallbacks t)"
    and due: "due = fold apply_change es (repeatedCallbacks t)"
  shows "\<exists>t' ys cs. UA_Timer_process dispatch now t
      = Some (map (\<lambda>e. (callback e, cbdata e)) (filter (\<lambda>e. nextTime e \<le> now) due),
              first_time (repeatedCallbacks t'), t')
    \<and> rescheduled now due ys \<and> repeatedCallbacks t' = fold apply_change cs ys
    \<and> sorted_entries (repeatedCallbacks t') \<and> timer_rep t' []"
proof -
  obtain t1 where t1: "processChanges t = Some t1" "timer_rep t1 []" "repeatedCallbacks t1 = due"
    using processChanges_rep [OF assms(1)] due by auto
  have s: "sorted_entries due"
    using all_changes.changes_sorted [OF assms(2)] due by simp
  let ?now = "filter (\<lambda>e. nextTime e \<le> now) due" and ?after = "filter (\<lambda>e. now < nextTime e) due"
  show ?thesis
  proof (cases "?now = []")
    case True
    then have after: "?after = due"
      by (auto simp: filter_empty_conv filter_id_conv not_le)
    have m: "map (\<lambda>e. if nextTime e \<le> now then reschedule now e else e) due = due"
      using True by (intro map_idI) (auto simp: filter_empty_conv)
    have "UA_Timer_process dispatch now t = Some ([], first_time due, t1)"
      using t1 s True after by (simp add: UA_Timer_process_def takeWhile_due dropWhile_due)
    then show ?thesis
      using t1 s True m by (intro exI [of _ t1] exI [of _ due] exI [of _ "[]"]) (simp add: rescheduled_def)
  next
    case False
    let ?t2 = "fold (\<lambda>e. fold run_call (dispatch (callback e) (cbdata e))) ?now t1"
    obtain ys where ys: "process_now dispatch now ?now ?after 0 t1 = Some (ys, ?t2)" "sorted_entries ys"
      "mset ys = mset ?after + mset (map (reschedule now) ?now)"
      using process_now_correct [of ?after 0 dispatch now ?now t1] s by (auto intro: sorted_wrt_filter)
    obtain cs where "timer_rep ?t2 ([] @ cs)"
      using dispatch_rep [OF t1(2), of "\<lambda>e. dispatch (callback e) (cbdata e)" ?now] by blast
    then have "timer_rep (?t2\<lparr>repeatedCallbacks := ys\<rparr>) cs"
      by (simp add: timer_rep_frame)
    then obtain t3 where t3: "processChanges (?t2\<lparr>repeatedCallbacks := ys\<rparr>) = Some t3" "timer_rep t3 []"
      "repeatedCallbacks t3 = fold apply_change cs ys"
      using processChanges_rep by fastforce
    have "rescheduled now due ys"
      unfolding rescheduled_def
    proof
      have "mset (filter (\<lambda>e. now < nextTime e) es) + mset (map (reschedule now) (filter (\<lambda>e. nextTime e \<le> now) es))
          = mset (map (\<lambda>e. if nextTime e \<le> now then reschedule now e else e) es)" for es
        by (induction es) auto
      then show "mset ys = mset (map (\<lambda>e. if nextTime e \<le> now then reschedule now e else e) due)"
        using ys(3) by simp
    qed (rule ys(2))
    moreover have "sorted_entries (repeatedCallbacks t3)"
      using ys(2) t3(3) all_changes.changes_sorted by simp
    moreover have "UA_Timer_process dispatch now t
        = Some (map (\<lambda>e. (callback e, cbdata e)) ?now, first_time (repeatedCallbacks t3), t3)"
      using False t1 s ys(1) t3(1) by (simp add: UA_Timer_process_def takeWhile_due dropWhile_due)
    ultimately show ?thesis
      using t3 by blast
  qed
qed

subsection \<open>Identifiers\<close>

definition is_add :: "timer_entry \<Rightarrow> bool" where
  "is_add e \<longleftrightarrow> callback e \<noteq> REMOVE_SENTINEL \<and> callback e \<noteq> CHANGE_SENTINEL"

definition ids :: "timer_entry list \<Rightarrow> u64 multiset" where
  "ids xs = image_mset entryId (mset xs)"

lemma ids_simps [simp]: "ids [] = {#}" "ids (x # xs) = add_mset (entryId x) (ids xs)" "ids (xs @ ys) = ids xs + ids ys"
  by (simp_all add: ids_def)

lemma ids_add: "ids (addTimerCallbackEntry tc xs) = add_mset (entryId tc) (ids xs)"
proof -
  obtain n where "mset (addTimerCallbackEntry tc xs) = add_mset (tc\<lparr>nextTime := n\<rparr>) (mset xs)"
    using add_mset_entry by blast
  then show ?thesis
    by (simp add: ids_def)
qed

lemma ids_remove: "ids (removeRepeatedCallback cid xs) = ids xs - {#cid#}"
  by (induction xs) (auto simp: add_mset_diff_bothsides)

lemma ids_change: "ids (changeTimerCallbackEntryInterval cid ivl nx xs) = ids xs"
proof (cases "find (\<lambda>e. entryId e = cid) xs")
  case (Some tc)
  have "cid \<in># ids xs"
    using Some by (auto simp: find_Some_iff ids_def)
  then show ?thesis
    using Some change_entry [OF Some] by (simp add: changeTimerCallbackEntryInterval_def ids_add ids_remove)
qed (simp add: changeTimerCallbackEntryInterval_def)

lemma ids_apply: "ids (apply_change e xs) \<subseteq># ids xs + ids (filter is_add [e])"
  by (auto simp: apply_change_def ids_add ids_remove ids_change is_add_def)

lemma ids_changes: "ids (fold apply_change es xs) \<subseteq># ids xs + ids (filter is_add es)"
proof (induction es arbitrary: xs)
  case (Cons e es)
  have "ids (fold apply_change es (apply_change e xs)) \<subseteq># ids (apply_change e xs) + ids (filter is_add es)"
    by (rule Cons.IH)
  also have "\<dots> \<subseteq># (ids xs + ids (filter is_add [e])) + ids (filter is_add es)"
    by (intro mset_subset_eq_mono_add ids_apply) simp
  also have "\<dots> = ids xs + ids (filter is_add (e # es))"
    by simp
  finally show ?case
    by simp
qed simp

text \<open>
  Identifiers are unique as long as the 64-bit counter has not wrapped: those of the list and of the
  waiting additions are pairwise different and not larger than the counter.
\<close>

definition ids_unique :: "timer \<Rightarrow> timer_entry list \<Rightarrow> bool" where
  "ids_unique t es \<longleftrightarrow>
     (\<forall>i. count (ids (repeatedCallbacks t) + ids (filter is_add es)) i \<le> (if i \<le> idCounter t then 1 else 0))"

lemma removed_gone:
  assumes "\<forall>i. count (ids xs) i \<le> 1"
  shows "cid \<notin> entryId ` set (removeRepeatedCallback cid xs)"
proof -
  have "count (ids (removeRepeatedCallback cid xs)) cid = 0"
    using assms by (simp add: ids_remove)
  then have "cid \<notin># ids (removeRepeatedCallback cid xs)"
    by (simp add: count_eq_zero_iff)
  then show ?thesis
    by (auto simp: ids_def)
qed

lemma ids_unique_remove:
  assumes "ids_unique t es"
  shows "\<forall>i. count (ids (fold apply_change es (repeatedCallbacks t))) i \<le> 1"
proof
  fix i
  have "count (ids (fold apply_change es (repeatedCallbacks t))) i
      \<le> count (ids (repeatedCallbacks t) + ids (filter is_add es)) i"
    using ids_changes by (rule mset_subset_eq_count)
  also have "\<dots> \<le> 1"
    using assms [unfolded ids_unique_def, rule_format, of i] by (simp split: if_splits)
  finally show "count (ids (fold apply_change es (repeatedCallbacks t))) i \<le> 1" .
qed

text \<open>Where an addition ends up: its time moves back by less than a second.\<close>

lemma add_grouping:
  assumes "sorted_entries xs"
  shows "\<exists>n ys zs. addTimerCallbackEntry tc xs = ys @ tc\<lparr>nextTime := n\<rparr> # zs \<and> xs = ys @ zs
    \<and> nextTime tc - UA_DATETIME_SEC < n \<and> n \<le> nextTime tc"
  using assms
proof (induction xs)
  case Nil
  show ?case
    by (auto simp: UA_DATETIME_SEC_def intro!: exI [of _ "nextTime tc"])
next
  case (Cons x xs)
  let ?g = "interval x = interval tc \<and> nextTime x > nextTime tc - UA_DATETIME_SEC"
  consider "nextTime x \<ge> nextTime tc" | "nextTime x < nextTime tc" "\<not> ?g" | "nextTime x < nextTime tc" ?g
    by linarith
  then show ?case
  proof cases
    case 1
    then show ?thesis
      by (intro exI [of _ "nextTime tc"] exI [of _ "[]"] exI [of _ "x # xs"]) (simp add: UA_DATETIME_SEC_def)
  next
    case 2
    then obtain n ys zs where "addTimerCallbackEntry tc xs = ys @ tc\<lparr>nextTime := n\<rparr> # zs" "xs = ys @ zs"
      "nextTime tc - UA_DATETIME_SEC < n" "n \<le> nextTime tc"
      using Cons by auto
    with 2 show ?thesis
      by (intro exI [of _ n] exI [of _ "x # ys"] exI [of _ zs]) auto
  next
    case 3
    have "addTimerCallbackEntry (tc\<lparr>nextTime := nextTime x\<rparr>) xs = tc\<lparr>nextTime := nextTime x\<rparr> # xs"
      using Cons.prems by (cases xs) auto
    with 3 show ?thesis
      by (intro exI [of _ "nextTime x"] exI [of _ "[x]"] exI [of _ xs]) auto
  qed
qed

subsection \<open>Properties\<close>


definition demo_timer :: timer where
  "demo_timer = snd (snd (UA_Timer_addRepeatedCallback True 0 7 70 20
     (snd (snd (UA_Timer_addRepeatedCallback True 0 8 80 10 UA_Timer_init)))))"

lemma demo_timer_rep: "\<exists>es. timer_rep demo_timer es \<and> sorted_entries (repeatedCallbacks demo_timer)"
proof -
  have d: "demo_timer = fold run_call [CallAdd True 0 8 80 10, CallAdd True 0 7 70 20] UA_Timer_init"
    by (simp add: demo_timer_def)
  have "repeatedCallbacks UA_Timer_init = []"
    by (simp add: UA_Timer_init_def)
  then show ?thesis
    unfolding d using run_calls_rep [OF timer_rep_init, of "[CallAdd True 0 8 80 10, CallAdd True 0 7 70 20]"]
    by auto
qed


text \<open>C25: Adding a callback returns an identifier that no callback has (as long as the 64-bit
  counter has not wrapped). After the next processing of the changes there is exactly one entry with
  it, with the callback, the data and the interval asked for, and its first execution lies less than
  a second before the current time plus the interval.\<close>

theorem UA_Timer_add_installs:
  assumes "timer_rep t es" and "sorted_entries (repeatedCallbacks t)" and "ids_unique t es"
    and "idCounter t \<noteq> -1" and "2 \<le> cb" and "5 \<le> ivl"
  shows "\<exists>i t1 t2 n. UA_Timer_addRepeatedCallback True now cb dat ivl t = (GOOD, Some i, t1)
    \<and> i \<notin># ids (repeatedCallbacks t) \<and> processChanges t1 = Some t2
    \<and> filter (\<lambda>e. entryId e = i) (repeatedCallbacks t2)
        = [\<lparr>nextTime = n, interval = uint ivl * 10000, entryId = i, callback = cb, cbdata = dat\<rparr>]
    \<and> now + uint ivl * 10000 - 10000000 < n \<and> n \<le> now + uint ivl * 10000"
proof -
  let ?i = "idCounter t + 1"
  let ?tc = "\<lparr>nextTime = now + uint ivl * 10000, interval = uint ivl * 10000, entryId = ?i,
              callback = cb, cbdata = dat\<rparr>"
  let ?t1 = "submit ?tc (t\<lparr>idCounter := ?i\<rparr>)"
  let ?L = "fold apply_change es (repeatedCallbacks t)"
  have add: "UA_Timer_addRepeatedCallback True now cb dat ivl t = (GOOD, Some ?i, ?t1)"
    using assms(5,6) by (simp add: UA_Timer_addRepeatedCallback_def UA_DATETIME_MSEC_def not_less Let_def)
  have less: "\<not> ?i \<le> idCounter t"
    using assms(4) unatSuc [of "idCounter t"]
    by (auto simp: not_le word_less_nat_alt add.commute eq_neg_iff_add_eq_0)
  then have c0: "count (ids (repeatedCallbacks t) + ids (filter is_add es)) ?i = 0"
    using assms(3) [unfolded ids_unique_def, rule_format, of ?i] by simp
  have "count (ids ?L) ?i = 0"
    using mset_subset_eq_count [OF ids_changes [of es "repeatedCallbacks t"], of ?i] c0 by simp
  then have fresh: "?i \<notin> entryId ` set ?L"
    by (auto simp: ids_def count_eq_zero_iff)
  obtain t2 where t2: "processChanges ?t1 = Some t2"
    "repeatedCallbacks t2 = fold apply_change (es @ [?tc]) (repeatedCallbacks t)"
    using processChanges_rep [OF timer_rep_submit [of "t\<lparr>idCounter := ?i\<rparr>" es ?tc]] assms(1)
    by (auto simp: timer_rep_frame)
  obtain n ys zs where n: "addTimerCallbackEntry ?tc ?L = ys @ ?tc\<lparr>nextTime := n\<rparr> # zs" "?L = ys @ zs"
    "now + uint ivl * 10000 - 10000000 < n" "n \<le> now + uint ivl * 10000"
    using add_grouping [OF all_changes.changes_sorted [OF assms(2), of es], of ?tc]
    by (auto simp: UA_DATETIME_SEC_def)
  have "filter (\<lambda>e. entryId e = ?i) ?L = []"
    using fresh by (force simp: filter_empty_conv)
  then have "filter (\<lambda>e. entryId e = ?i) (repeatedCallbacks t2) = [?tc\<lparr>nextTime := n\<rparr>]"
    using t2(2) n(1,2) assms(5) by (simp add: apply_change_def REMOVE_SENTINEL_def CHANGE_SENTINEL_def)
  with add t2(1) n(3,4) c0 show ?thesis
    by (intro exI [of _ ?i] exI [of _ ?t1] exI [of _ t2] exI [of _ n]) (simp add: count_eq_zero_iff)
qed

lemma init_fields: "repeatedCallbacks UA_Timer_init = []" "idCounter UA_Timer_init = 0"
  by (simp_all add: UA_Timer_init_def)

lemma ids_unique_init: "ids_unique UA_Timer_init []"
  by (simp add: ids_unique_def init_fields)

theorem UA_Timer_add_installs_witness:
  "\<exists>i t1 t2 n. UA_Timer_addRepeatedCallback True 50 7 70 20 UA_Timer_init = (GOOD, Some i, t1)
    \<and> processChanges t1 = Some t2
    \<and> filter (\<lambda>e. entryId e = i) (repeatedCallbacks t2)
        = [\<lparr>nextTime = n, interval = 200000, entryId = i, callback = 7, cbdata = 70\<rparr>]
    \<and> n \<le> 200050"
proof -
  have "(5 :: u32) \<le> 20"
    by simp
  then show ?thesis
    using UA_Timer_add_installs [OF timer_rep_init _ ids_unique_init, of 7 20 50 70]
    by (auto simp: init_fields)
qed

text \<open>Removing a callback. Once the changes have been processed, no entry has its identifier,
  so it is not dispatched any more, whether it was in the list before or only waiting to be added;
  every other callback is as if the removal had not been asked for.\<close>

theorem UA_Timer_remove_uninstalls:
  assumes "timer_rep t es" and "ids_unique t es"
  shows "\<exists>t1 t2. UA_Timer_removeRepeatedCallback True cid t = (GOOD, t1) \<and> processChanges t1 = Some t2
    \<and> cid \<notin> entryId ` set (repeatedCallbacks t2)
    \<and> filter (\<lambda>e. entryId e \<noteq> cid) (repeatedCallbacks t2)
        = filter (\<lambda>e. entryId e \<noteq> cid) (fold apply_change es (repeatedCallbacks t))"
proof -
  let ?rm = "\<lparr>nextTime = 0, interval = 0, entryId = cid, callback = REMOVE_SENTINEL, cbdata = 0\<rparr>"
  obtain t2 where t2: "processChanges (submit ?rm t) = Some t2"
    "repeatedCallbacks t2 = removeRepeatedCallback cid (fold apply_change es (repeatedCallbacks t))"
    using processChanges_rep [OF timer_rep_submit [OF assms(1), of ?rm]] by (auto simp: apply_change_def)
  then show ?thesis
    using removed_gone [OF ids_unique_remove [OF assms(2)], of cid] remove_change.change_others [of cid]
    by (simp add: UA_Timer_removeRepeatedCallback_def)
qed

theorem UA_Timer_remove_uninstalls_witness:
  "\<exists>t1 t2. UA_Timer_removeRepeatedCallback True 3 UA_Timer_init = (GOOD, t1) \<and> processChanges t1 = Some t2
    \<and> 3 \<notin> entryId ` set (repeatedCallbacks t2)"
  using UA_Timer_remove_uninstalls [OF timer_rep_init ids_unique_init, of 3] by blast

text \<open>\<open>UA_Timer_deleteMembers\<close> returns and leaves nothing behind: no callback in the list and no
  change entry allocated.\<close>

theorem UA_Timer_deleteMembers_clean:
  assumes "timer_rep t es"
  shows "\<exists>t'. UA_Timer_deleteMembers t = Some t' \<and> repeatedCallbacks t' = [] \<and> changes_mem t' = (\<lambda>_. None)"
proof -
  obtain t1 where "processChanges t = Some t1" "timer_rep t1 []"
    using processChanges_rep [OF assms] by blast
  moreover from this(2) have "changes_mem t1 = (\<lambda>_. None)"
    by (auto simp: timer_rep_def)
  ultimately show ?thesis
    by (simp add: UA_Timer_deleteMembers_def)
qed

theorem UA_Timer_deleteMembers_clean_witness:
  "\<exists>es t'. timer_rep demo_timer es \<and> UA_Timer_deleteMembers demo_timer = Some t' \<and> changes_mem t' = (\<lambda>_. None)"
  using demo_timer_rep UA_Timer_deleteMembers_clean by blast

end
