(* ===== verification/Nodestore.thy ===== *)
theory Nodestore
  imports Types_Id
begin

text \<open>
  The default node store (src/plugins/ua_nodestore_default.c): a hash map from NodeIds to nodes with
  double hashing, tombstones for removed entries, resizing along a table of primes, and entries
  with reference counts that outlive their removal as long as somebody holds them.

  The entries live in a heap from addresses to \<open>nmentry\<close>; a slot of the table is NULL, the
  tombstone or the address of an entry. An entry that is freed is no longer in the heap; using
  it afterwards is an access to \<open>None\<close>. Of a node the map looks only at the NodeId and the node class; the
  rest is \<open>ninfo\<close>. Sizes and counts are natural numbers, with the wrap-around of the 32-bit
  expressions written out (\<open>u32nat\<close>); the probe index is 64 bits wide in the code and does not
  overflow. Whether an allocation or a copy succeeds is an argument of the operations. The critical
  sections make each operation atomic, so that the compare-and-exchange in it succeeds.
\<close>

subsection \<open>State\<close>

abbreviation (input) BADNODEIDUNKNOWN :: status where "BADNODEIDUNKNOWN \<equiv> 0x80340000"
abbreviation (input) BADNODEIDEXISTS :: status where "BADNODEIDEXISTS \<equiv> 0x805E0000"

record node =
  nodeId_of :: nodeid
  nodeClass :: nat
  ninfo :: nat

record nmentry =
  orig :: "nat option"
  refCount :: u16
  deleted :: bool
  enode :: node

datatype slot = Null | Tombstone | Entry nat

record nodemap =
  entries :: "slot list"
  nmsize :: nat
  nmcount :: nat
  sizePrimeIndex :: nat
  nmheap :: "nat \<Rightarrow> nmentry option"
  nmalloc :: nat

definition UA_NODEMAP_MINSIZE :: nat where "UA_NODEMAP_MINSIZE = 64"

definition u32nat :: "nat \<Rightarrow> nat" where "u32nat n = n mod 4294967296"

definition primes :: "nat list" where
  "primes =
     [7,         13,         31,         61,         127,         251,
      509,       1021,       2039,       4093,       8191,        16381,
      32749,     65521,      131071,     262139,     524287,      1048573,
      2097143,   4194301,    8388593,    16777213,   33554393,    67108859,
      134217689, 268435399,  536870909,  1073741789, 2147483647,  4294967291]"

definition mod_nm :: "nat \<Rightarrow> nat \<Rightarrow> nat" where "mod_nm h sz = h mod sz"
definition mod2 :: "nat \<Rightarrow> nat \<Rightarrow> nat" where "mod2 h sz = 1 + h mod (sz - 2)"

function higher_prime_loop :: "nat \<Rightarrow> nat \<Rightarrow> nat \<Rightarrow> nat" where
  "higher_prime_loop n low high =
     (if low < high then
        (let mid = low + (high - low) div 2 in
         if n > primes ! mid then higher_prime_loop n (mid + 1) high
         else higher_prime_loop n low mid)
      else low)"
  by pat_completeness auto
termination
  by (relation "measure (\<lambda>(n, low, high). high - low)") auto

declare higher_prime_loop.simps [simp del]

text \<open>The loop of the code runs while \<open>low != high\<close>; \<open>low\<close> never exceeds \<open>high\<close>.\<close>

definition higher_prime_index :: "nat \<Rightarrow> nat" where
  "higher_prime_index n = higher_prime_loop n 0 (length primes)"

subsection \<open>Probing\<close>

definition entry_of :: "nodemap \<Rightarrow> nat \<Rightarrow> nmentry" where
  "entry_of ns a =
     (case nmheap ns a of
        Some e \<Rightarrow> e
      | None \<Rightarrow> \<lparr>orig = None, refCount = 0, deleted = True,
                 enode = \<lparr>nodeId_of = NodeId_init, nodeClass = 0, ninfo = 0\<rparr>\<rparr>)"

definition slot_matches :: "nodemap \<Rightarrow> nodeid \<Rightarrow> slot \<Rightarrow> bool" where
  "slot_matches ns nid s =
     (case s of Entry a \<Rightarrow> UA_NodeId_equal (nodeId_of (enode (entry_of ns a))) nid | _ \<Rightarrow> False)"

definition is_free :: "slot \<Rightarrow> bool" where
  "is_free s \<longleftrightarrow> s = Null \<or> s = Tombstone"

definition next_idx :: "nat \<Rightarrow> nat \<Rightarrow> nat \<Rightarrow> nat" where
  "next_idx sz hash2 idx = (let i = idx + hash2 in if i \<ge> sz then i - sz else i)"

text \<open>
  The \<open>do ... while\<close> loops of the two searches, with fuel for the number of iterations. The result
  is \<open>None\<close> when the fuel is used up, and otherwise the index of the slot or \<open>None\<close> for NULL.
\<close>

fun find_free_loop :: "nat \<Rightarrow> nodemap \<Rightarrow> nodeid \<Rightarrow> nat \<Rightarrow> nat \<Rightarrow> nat \<Rightarrow> nat option \<Rightarrow> nat option option" where
  "find_free_loop 0 ns nid startIdx hash2 idx retval = None"
| "find_free_loop (Suc n) ns nid startIdx hash2 idx retval =
     (let entry = entries ns ! idx in
      if slot_matches ns nid entry then Some None
      else
        (let retval' = (if retval = None \<and> is_free entry then Some idx else retval);
             idx' = next_idx (nmsize ns) hash2 idx
         in if idx' \<noteq> startIdx \<and> entry \<noteq> Null
            then find_free_loop n ns nid startIdx hash2 idx' retval'
            else Some retval'))"

definition findFreeSlot :: "nodemap \<Rightarrow> nodeid \<Rightarrow> nat option option" where
  "findFreeSlot ns nid =
     (let h = unat (UA_NodeId_hash nid); size = nmsize ns; idx = mod_nm h size
      in find_free_loop size ns nid idx (mod2 h size) idx None)"

fun find_occupied_loop :: "nat \<Rightarrow> nodemap \<Rightarrow> nodeid \<Rightarrow> nat \<Rightarrow> nat \<Rightarrow> nat \<Rightarrow> nat option option" where
  "find_occupied_loop 0 ns nid startIdx hash2 idx = None"
| "find_occupied_loop (Suc n) ns nid startIdx hash2 idx =
     (let entry = entries ns ! idx in
      if slot_matches ns nid entry then Some (Some idx)
      else
        (let idx' = next_idx (nmsize ns) hash2 idx
         in if idx' \<noteq> startIdx \<and> entry \<noteq> Null
            then find_occupied_loop n ns nid startIdx hash2 idx'
            else Some None))"

definition findOccupiedSlot :: "nodemap \<Rightarrow> nodeid \<Rightarrow> nat option option" where
  "findOccupiedSlot ns nid =
     (let h = unat (UA_NodeId_hash nid); size = nmsize ns; idx = mod_nm h size
      in find_occupied_loop size ns nid idx (mod2 h size) idx)"

subsection \<open>Resizing\<close>

text \<open>
  Reinsertion of the old slots from index \<open>i\<close> on. \<open>None\<close> is a failed assertion (no slot) or a search
  that does not end.
\<close>

fun reinsert :: "slot list \<Rightarrow> nat \<Rightarrow> nat \<Rightarrow> nodemap \<Rightarrow> nodemap option" where
  "reinsert [] j cnt ns = Some ns"
| "reinsert (s # ss) j cnt ns =
     (if j < cnt then
        (case s of
           Entry a \<Rightarrow>
             (case findFreeSlot ns (nodeId_of (enode (entry_of ns a))) of
                Some (Some i) \<Rightarrow> reinsert ss (j + 1) cnt (ns\<lparr>entries := (entries ns)[i := Entry a]\<rparr>)
              | _ \<Rightarrow> None)
         | _ \<Rightarrow> reinsert ss j cnt ns)
      else Some ns)"

definition expand :: "bool \<Rightarrow> nodemap \<Rightarrow> (status \<times> nodemap) option" where
  "expand calloc_ok ns =
     (let osize = nmsize ns; count = nmcount ns in
      if u32nat (count * 2) < osize \<and> (u32nat (count * 8) > osize \<or> osize \<le> UA_NODEMAP_MINSIZE)
      then Some (GOOD, ns)
      else
        (let nindex = higher_prime_index (u32nat (count * 2)); nsize = primes ! nindex in
         if \<not> calloc_ok then Some (BADOUTOFMEMORY, ns)
         else
           map_option (\<lambda>ns'. (GOOD, ns'))
             (reinsert (entries ns) 0 count
               (ns\<lparr>entries := replicate nsize Null, nmsize := nsize, sizePrimeIndex := nindex\<rparr>))))"

subsection \<open>Entries\<close>

text \<open>The node classes are powers of two from 1 (object) to 128 (view).\<close>

definition valid_class :: "nat \<Rightarrow> bool" where
  "valid_class c \<longleftrightarrow> c \<in> {1, 2, 4, 8, 16, 32, 64, 128}"

definition newEntry :: "bool \<Rightarrow> nat \<Rightarrow> nodemap \<Rightarrow> nat option \<times> nodemap" where
  "newEntry calloc_ok cls ns =
     (if \<not> valid_class cls then (None, ns)
      else if \<not> calloc_ok then (None, ns)
      else
        (let a = nmalloc ns;
             e = \<lparr>orig = None, refCount = 0, deleted = False,
                  enode = \<lparr>nodeId_of = NodeId_init, nodeClass = cls, ninfo = 0\<rparr>\<rparr>
         in (Some a, ns\<lparr>nmheap := (nmheap ns)(a \<mapsto> e), nmalloc := a + 1\<rparr>)))"

definition deleteEntry :: "nat \<Rightarrow> nodemap \<Rightarrow> nodemap" where
  "deleteEntry a ns = ns\<lparr>nmheap := (nmheap ns)(a := None)\<rparr>"

definition cleanupEntry :: "nat \<Rightarrow> nodemap \<Rightarrow> nodemap" where
  "cleanupEntry a ns =
     (if deleted (entry_of ns a) \<and> refCount (entry_of ns a) = 0 then deleteEntry a ns else ns)"

definition set_entry :: "nat \<Rightarrow> nmentry \<Rightarrow> nodemap \<Rightarrow> nodemap" where
  "set_entry a e ns = ns\<lparr>nmheap := (nmheap ns)(a \<mapsto> e)\<rparr>"

definition mark_deleted :: "nat \<Rightarrow> nodemap \<Rightarrow> nodemap" where
  "mark_deleted a ns = set_entry a ((entry_of ns a)\<lparr>deleted := True\<rparr>) ns"

definition clearSlot :: "bool \<Rightarrow> nat \<Rightarrow> nodemap \<Rightarrow> (status \<times> nodemap) option" where
  "clearSlot calloc_ok i ns =
     (case entries ns ! i of
        Entry a \<Rightarrow>
          (let ns1 = cleanupEntry a (mark_deleted a (ns\<lparr>entries := (entries ns)[i := Tombstone]\<rparr>));
               ns2 = ns1\<lparr>nmcount := u32nat (nmcount ns1 + 4294967295)\<rparr>
           in if u32nat (nmcount ns2 * 8) < nmsize ns2 \<and> nmsize ns2 > 32
              then map_option (\<lambda>(_, ns3). (GOOD, ns3)) (expand calloc_ok ns2)
              else Some (GOOD, ns2))
      | _ \<Rightarrow> None)"

subsection \<open>Interface functions\<close>

definition UA_NodeMap_newNode :: "bool \<Rightarrow> nat \<Rightarrow> nodemap \<Rightarrow> nat option \<times> nodemap" where
  "UA_NodeMap_newNode calloc_ok cls ns = newEntry calloc_ok cls ns"

definition UA_NodeMap_deleteNode :: "nat \<Rightarrow> nodemap \<Rightarrow> nodemap" where
  "UA_NodeMap_deleteNode a ns = deleteEntry a ns"

definition UA_NodeMap_getNode :: "nodeid \<Rightarrow> nodemap \<Rightarrow> (nat option \<times> nodemap) option" where
  "UA_NodeMap_getNode nid ns =
     map_option (\<lambda>r. case r of
         None \<Rightarrow> (None, ns)
       | Some i \<Rightarrow>
           (case entries ns ! i of
              Entry a \<Rightarrow> (Some a, set_entry a ((entry_of ns a)\<lparr>refCount := refCount (entry_of ns a) + 1\<rparr>) ns)
            | _ \<Rightarrow> (None, ns)))
       (findOccupiedSlot ns nid)"

text \<open>The assertion \<open>refCount > 0\<close> fails with \<open>None\<close>.\<close>

definition UA_NodeMap_releaseNode :: "nat option \<Rightarrow> nodemap \<Rightarrow> nodemap option" where
  "UA_NodeMap_releaseNode n ns =
     (case n of
        None \<Rightarrow> Some ns
      | Some a \<Rightarrow>
          if refCount (entry_of ns a) = 0 then None
          else Some (cleanupEntry a
                 (set_entry a ((entry_of ns a)\<lparr>refCount := refCount (entry_of ns a) - 1\<rparr>) ns)))"

text \<open>\<open>copy_status\<close> is the result of \<open>UA_Node_copy\<close>.\<close>

definition UA_NodeMap_getNodeCopy ::
  "bool \<Rightarrow> status \<Rightarrow> nodeid \<Rightarrow> nodemap \<Rightarrow> (status \<times> nat option \<times> nodemap) option" where
  "UA_NodeMap_getNodeCopy calloc_ok copy_status nid ns =
     Option.bind (findOccupiedSlot ns nid) (\<lambda>r. case r of
         None \<Rightarrow> Some (BADNODEIDUNKNOWN, None, ns)
       | Some i \<Rightarrow>
           (case entries ns ! i of
              Entry a \<Rightarrow>
                (case newEntry calloc_ok (nodeClass (enode (entry_of ns a))) ns of
                   (None, ns1) \<Rightarrow> Some (BADOUTOFMEMORY, None, ns1)
                 | (Some b, ns1) \<Rightarrow>
                     if copy_status = GOOD
                     then Some (GOOD, Some b,
                            set_entry b ((entry_of ns1 b)\<lparr>enode := enode (entry_of ns a), orig := Some a\<rparr>) ns1)
                     else Some (copy_status, None, deleteEntry b ns1))
            | _ \<Rightarrow> None))"

definition UA_NodeMap_removeNode :: "bool \<Rightarrow> nodeid \<Rightarrow> nodemap \<Rightarrow> (status \<times> nodemap) option" where
  "UA_NodeMap_removeNode calloc_ok nid ns =
     Option.bind (findOccupiedSlot ns nid) (\<lambda>r. case r of
         Some i \<Rightarrow> clearSlot calloc_ok i ns
       | None \<Rightarrow> Some (BADNODEIDUNKNOWN, ns))"

text \<open>
  The choice of an identifier for a node with the numeric identifier zero. The identifier is a 64-bit
  variable, \<open>startId\<close> its first value as a 32-bit one; the fuel bounds the iterations.
\<close>

definition set_numeric :: "u32 \<Rightarrow> nat \<Rightarrow> nodemap \<Rightarrow> nodemap" where
  "set_numeric n a ns =
     (let e = entry_of ns a; nd = enode e in
      set_entry a (e\<lparr>enode := nd\<lparr>nodeId_of := (nodeId_of nd)\<lparr>nident := Numeric n\<rparr>\<rparr>\<rparr>) ns)"

fun random_id_loop :: "nat \<Rightarrow> nat \<Rightarrow> nat \<Rightarrow> nat \<Rightarrow> nat \<Rightarrow> nodemap \<Rightarrow> (nat option \<times> nodemap) option" where
  "random_id_loop 0 startId increase identifier a ns = None"
| "random_id_loop (Suc n) startId increase identifier a ns =
     (let ns1 = set_numeric (of_nat identifier) a ns in
      case findFreeSlot ns1 (nodeId_of (enode (entry_of ns1 a))) of
        None \<Rightarrow> None
      | Some (Some i) \<Rightarrow> Some (Some i, ns1)
      | Some None \<Rightarrow>
          (let identifier' = next_idx (nmsize ns) increase identifier
           in if u32nat identifier' \<noteq> startId then random_id_loop n startId increase identifier' a ns1
              else Some (None, ns1)))"

definition random_id_fuel :: "nodemap \<Rightarrow> nat" where
  "random_id_fuel ns = 50002 + 3 * nmsize ns"

definition select_slot :: "nat \<Rightarrow> nodemap \<Rightarrow> (nat option \<times> nodemap) option" where
  "select_slot a ns =
     (if nident (nodeId_of (enode (entry_of ns a))) = Numeric 0 then
        (let size = nmsize ns;
             identifier = mod_nm (u32nat (50000 + size + 1)) 4294967295;
             increase = mod2 (u32nat (nmcount ns + 1)) size
         in random_id_loop (random_id_fuel ns) identifier increase identifier a ns)
      else map_option (\<lambda>r. (r, ns)) (findFreeSlot ns (nodeId_of (enode (entry_of ns a)))))"

text \<open>
  \<open>node\<close> is given by the address of its entry. The copy of the NodeId for the caller happens when
  \<open>want_id\<close> is set and gives \<open>id_copy_status\<close>; the copied NodeId is the one of the entry.
\<close>

definition UA_NodeMap_insertNode ::
  "bool \<Rightarrow> bool \<Rightarrow> status \<Rightarrow> nat \<Rightarrow> nodemap \<Rightarrow> (status \<times> nodemap) option" where
  "UA_NodeMap_insertNode calloc_ok want_id id_copy_status a ns =
     Option.bind
       (if u32nat (nmsize ns * 3) \<le> u32nat (nmcount ns * 4) then expand calloc_ok ns else Some (GOOD, ns))
       (\<lambda>(ret, ns1).
         if ret \<noteq> GOOD then Some (BADINTERNALERROR, ns1)
         else Option.bind (select_slot a ns1) (\<lambda>(slot, ns2).
           case slot of
             None \<Rightarrow> Some (BADNODEIDEXISTS, deleteEntry a ns2)
           | Some i \<Rightarrow>
               if want_id \<and> id_copy_status \<noteq> GOOD then Some (id_copy_status, deleteEntry a ns2)
               else if \<not> is_free (entries ns2 ! i) then Some (BADNODEIDEXISTS, deleteEntry a ns2)
               else Some (GOOD, ns2\<lparr>entries := (entries ns2)[i := Entry a],
                                     nmcount := u32nat (nmcount ns2 + 1)\<rparr>)))"

definition UA_NodeMap_replaceNode :: "nat \<Rightarrow> nodemap \<Rightarrow> (status \<times> nodemap) option" where
  "UA_NodeMap_replaceNode b ns =
     Option.bind (findOccupiedSlot ns (nodeId_of (enode (entry_of ns b)))) (\<lambda>r. case r of
         None \<Rightarrow> Some (BADNODEIDUNKNOWN, ns)
       | Some i \<Rightarrow>
           (case entries ns ! i of
              Entry a \<Rightarrow>
                if Some a \<noteq> orig (entry_of ns b) then Some (BADINTERNALERROR, deleteEntry b ns)
                else Some (GOOD, cleanupEntry a
                       (mark_deleted a (ns\<lparr>entries := (entries ns)[i := Entry b]\<rparr>)))
            | _ \<Rightarrow> None))"

text \<open>The visitor acts on the whole map (it may insert and remove nodes itself).\<close>

fun iterate_loop :: "(nat \<Rightarrow> nodemap \<Rightarrow> nodemap) \<Rightarrow> nat \<Rightarrow> nat \<Rightarrow> nodemap \<Rightarrow> nodemap" where
  "iterate_loop visitor 0 i ns = ns"
| "iterate_loop visitor (Suc n) i ns =
     (if i < nmsize ns then
        iterate_loop visitor n (i + 1)
          (case entries ns ! i of
             Entry a \<Rightarrow>
               (let ns1 = set_entry a ((entry_of ns a)\<lparr>refCount := refCount (entry_of ns a) + 1\<rparr>) ns;
                    ns2 = visitor a ns1
                in cleanupEntry a (set_entry a ((entry_of ns2 a)\<lparr>refCount := refCount (entry_of ns2 a) - 1\<rparr>) ns2))
           | _ \<Rightarrow> ns)
      else ns)"

text \<open>The fuel bounds the iterations; the size of the table is enough for a visitor that does not
  resize it.\<close>

definition UA_NodeMap_iterate :: "nat \<Rightarrow> (nat \<Rightarrow> nodemap \<Rightarrow> nodemap) \<Rightarrow> nodemap \<Rightarrow> nodemap" where
  "UA_NodeMap_iterate fuel visitor ns = iterate_loop visitor fuel 0 ns"

fun delete_loop :: "slot list \<Rightarrow> nodemap \<Rightarrow> nodemap option" where
  "delete_loop [] ns = Some ns"
| "delete_loop (Entry a # ss) ns =
     (if refCount (entry_of ns a) = 0 then delete_loop ss (deleteEntry a ns) else None)"
| "delete_loop (_ # ss) ns = delete_loop ss ns"

definition UA_NodeMap_delete :: "nodemap \<Rightarrow> nodemap option" where
  "UA_NodeMap_delete ns = delete_loop (entries ns) ns"

definition UA_Nodestore_default_new :: "bool \<Rightarrow> bool \<Rightarrow> status \<times> nodemap option" where
  "UA_Nodestore_default_new malloc_ok calloc_ok =
     (if \<not> malloc_ok then (BADOUTOFMEMORY, None)
      else
        (let i = higher_prime_index UA_NODEMAP_MINSIZE; size = primes ! i in
         if \<not> calloc_ok then (BADOUTOFMEMORY, None)
         else (GOOD, Some \<lparr>entries = replicate size Null, nmsize = size, nmcount = 0, sizePrimeIndex = i,
                           nmheap = (\<lambda>_. None), nmalloc = 0\<rparr>)))"

end
