(* ===== verification/Nodestore_Probe.thy ===== *)
theory Nodestore_Probe
  imports Nodestore
begin

text \<open>
  Probing in the hash map of theory \<open>Nodestore\<close>. The sizes in the table of primes are prime
  (checked here for the first eighteen, tables with up to about a million slots), so the probe sequence of
  every identifier visits every slot of the table exactly once before it is back at the start. The two search
  loops therefore end, and are the searches \<open>scan_free\<close> and \<open>scan_occupied\<close> along that sequence.
\<close>

subsection \<open>The table of primes\<close>

definition prime_size :: "nat \<Rightarrow> bool" where
  "prime_size p \<longleftrightarrow> 1 < p \<and> (\<forall>d. 1 < d \<longrightarrow> d < p \<longrightarrow> \<not> d dvd p)"

function no_odd_divisor :: "int \<Rightarrow> int \<Rightarrow> int \<Rightarrow> bool" where
  "no_odd_divisor m d p = (if d > m then True else p mod d \<noteq> 0 \<and> no_odd_divisor m (d + 2) p)"
  by pat_completeness auto
termination
  by (relation "measure (\<lambda>(m, d, p). nat (m + 1 - d))") auto

declare no_odd_divisor.simps [simp del]

lemma no_odd_divisorD: "no_odd_divisor m d p \<Longrightarrow> d + 2 * int k \<le> m \<Longrightarrow> \<not> d + 2 * int k dvd p"
proof (induction m d p arbitrary: k rule: no_odd_divisor.induct)
  case (1 m d p)
  then have d: "d \<le> m" "p mod d \<noteq> 0" "no_odd_divisor m (d + 2) p"
    using no_odd_divisor.simps [of m d p] by (auto split: if_splits)
  show ?case
  proof (cases k)
    case 0
    then show ?thesis
      using d by (simp add: dvd_eq_mod_eq_0)
  next
    case (Suc k')
    then show ?thesis
      using "1.IH" [of k'] d "1.prems" by (simp add: algebra_simps)
  qed
qed

lemma prime_sizeI:
  assumes "odd p" and "1 < p" and "p < m * m" and "no_odd_divisor (int m) 3 (int p)"
  shows "prime_size p"
  unfolding prime_size_def
proof (intro conjI allI impI notI)
  fix d assume d: "1 < d" "d < p" "d dvd p"
  then obtain e where e: "p = d * e"
    by (auto elim: dvdE)
  have "1 < e"
    using e d by (cases e) auto
  have small: False if "1 < f" "f dvd p" "f \<le> m" for f
  proof -
    have "odd f"
      using assms(1) that(2) dvd_trans by blast
    then obtain j where j: "f = 2 * j + 1"
      by (auto elim: oddE)
    with that(1) obtain k where "j = Suc k"
      by (cases j) auto
    then have "int f = 3 + 2 * int k"
      using j by simp
    then show False
      using no_odd_divisorD [OF assms(4), of k] that by (metis int_dvd_int_iff of_nat_mono)
  qed
  have "d \<le> m \<or> e \<le> m"
    using e assms(3) mult_strict_mono [of m d m e] by (cases "m = 0") force+
  then show False
    using small [of d] small [of e] d(1,3) \<open>1 < e\<close> e by fastforce
qed (rule assms(2))

definition PRIME_LIMIT :: nat where
  "PRIME_LIMIT = 17"

lemma primes_prime:
  "prime_size 7"
  "prime_size 13"
  "prime_size 31"
  "prime_size 61"
  "prime_size 127"
  "prime_size 251"
  "prime_size 509"
  "prime_size 1021"
  "prime_size 2039"
  "prime_size 4093"
  "prime_size 8191"
  "prime_size 16381"
  "prime_size 32749"
  "prime_size 65521"
  "prime_size 131071"
  "prime_size 262139"
  "prime_size 524287"
  "prime_size 1048573"
proof -
  show "prime_size 7"
    by (rule prime_sizeI [of _ 3]) (simp_all, code_simp)
  show "prime_size 13"
    by (rule prime_sizeI [of _ 4]) (simp_all, code_simp)
  show "prime_size 31"
    by (rule prime_sizeI [of _ 6]) (simp_all, code_simp)
  show "prime_size 61"
    by (rule prime_sizeI [of _ 8]) (simp_all, code_simp)
  show "prime_size 127"
    by (rule prime_sizeI [of _ 12]) (simp_all, code_simp)
  show "prime_size 251"
    by (rule prime_sizeI [of _ 16]) (simp_all, code_simp)
  show "prime_size 509"
    by (rule prime_sizeI [of _ 23]) (simp_all, code_simp)
  show "prime_size 1021"
    by (rule prime_sizeI [of _ 32]) (simp_all, code_simp)
  show "prime_size 2039"
    by (rule prime_sizeI [of _ 46]) (simp_all, code_simp)
  show "prime_size 4093"
    by (rule prime_sizeI [of _ 64]) (simp_all, code_simp)
  show "prime_size 8191"
    by (rule prime_sizeI [of _ 91]) (simp_all, code_simp)
  show "prime_size 16381"
    by (rule prime_sizeI [of _ 128]) (simp_all, code_simp)
  show "prime_size 32749"
    by (rule prime_sizeI [of _ 181]) (simp_all, code_simp)
  show "prime_size 65521"
    by (rule prime_sizeI [of _ 256]) (simp_all, code_simp)
  show "prime_size 131071"
    by (rule prime_sizeI [of _ 363]) (simp_all, code_simp)
  show "prime_size 262139"
    by (rule prime_sizeI [of _ 512]) (simp_all, code_simp)
  show "prime_size 524287"
    by (rule prime_sizeI [of _ 725]) (simp_all, code_simp)
  show "prime_size 1048573"
    by (rule prime_sizeI [of _ 1024]) (simp_all, code_simp)
qed

lemma primes_prime_size: "i \<le> PRIME_LIMIT \<Longrightarrow> prime_size (primes ! i) \<and> 7 \<le> primes ! i"
proof -
  assume i: "i \<le> PRIME_LIMIT"
  have "list_all (\<lambda>p. prime_size p \<and> 7 \<le> p) (take 18 primes)"
    by (simp add: primes_def primes_prime)
  moreover have "i < length (take 18 primes)"
    using i by (simp add: PRIME_LIMIT_def primes_def)
  ultimately have "prime_size (take 18 primes ! i) \<and> 7 \<le> take 18 primes ! i"
    unfolding list_all_length by blast
  then show ?thesis
    using i by (simp add: PRIME_LIMIT_def)
qed

lemma primes_sorted: "sorted primes"
  by (simp add: primes_def)

lemma higher_prime_loop_spec:
  assumes "low \<le> high" and "high \<le> length primes"
    and "\<forall>j < low. primes ! j < n" and "high < length primes \<longrightarrow> n \<le> primes ! high"
  shows "let i = higher_prime_loop n low high in
    i \<le> high \<and> (\<forall>j < i. primes ! j < n) \<and> (i < length primes \<longrightarrow> n \<le> primes ! i)"
  using assms
proof (induction n low high rule: higher_prime_loop.induct)
  case (1 n low high)
  show ?case
  proof (cases "low < high")
    case True
    let ?mid = "low + (high - low) div 2"
    have mid: "low \<le> ?mid" "?mid < high" "?mid < length primes"
      using True "1.prems"(2) by linarith+
    show ?thesis
    proof (cases "n > primes ! ?mid")
      case gt: True
      have "primes ! j < n" if "j < ?mid + 1" for j
        using that gt mid sorted_nth_mono [OF primes_sorted, of j ?mid] by simp
      then show ?thesis
        using "1.IH"(1) [OF True refl gt] mid "1.prems" gt True
        by (subst higher_prime_loop.simps) (simp add: Let_def)
    next
      case False
      then show ?thesis
        using "1.IH"(2) [OF True refl False] mid "1.prems" True
        by (subst higher_prime_loop.simps) (auto simp: Let_def)
    qed
  next
    case False
    then show ?thesis
      using "1.prems" by (subst higher_prime_loop.simps) auto
  qed
qed

text \<open>\<open>higher_prime_index n\<close> is the index of the smallest prime of the table that is not below \<open>n\<close>.\<close>

lemma higher_prime_index_spec:
  "(\<forall>j < higher_prime_index n. primes ! j < n)
   \<and> (higher_prime_index n < length primes \<longrightarrow> n \<le> primes ! higher_prime_index n)"
  using higher_prime_loop_spec [of 0 "length primes" n] by (simp add: higher_prime_index_def Let_def)

lemma higher_prime_index_limit:
  assumes "n \<le> 1048573"
  shows "higher_prime_index n \<le> PRIME_LIMIT" and "n \<le> primes ! higher_prime_index n"
proof -
  show l: "higher_prime_index n \<le> PRIME_LIMIT"
  proof (rule ccontr)
    assume "\<not> higher_prime_index n \<le> PRIME_LIMIT"
    then have "primes ! 17 < n"
      using higher_prime_index_spec [of n] by (simp add: PRIME_LIMIT_def)
    then show False
      using assms by (simp add: primes_def)
  qed
  then show "n \<le> primes ! higher_prime_index n"
    using higher_prime_index_spec [of n] by (simp add: PRIME_LIMIT_def primes_def)
qed

subsection \<open>The probe sequence\<close>

definition probe :: "nat \<Rightarrow> nat \<Rightarrow> nat \<Rightarrow> nat \<Rightarrow> nat" where
  "probe sz s g k = (s + k * g) mod sz"

definition probe_seq :: "nat \<Rightarrow> nat \<Rightarrow> nat \<Rightarrow> nat list" where
  "probe_seq sz s g = map (probe sz s g) [0..<sz]"

lemma prime_coprime: "prime_size sz \<Longrightarrow> 0 < g \<Longrightarrow> g < sz \<Longrightarrow> coprime sz g"
proof -
  assume p: "prime_size sz" and g: "0 < g" "g < sz"
  have "gcd sz g dvd sz" "gcd sz g \<le> g" "0 < gcd sz g"
    using g by auto
  then have "gcd sz g = 1"
    using p g by (metis Suc_leI One_nat_def le_neq_implies_less order.strict_trans1 prime_size_def)
  then show "coprime sz g"
    by (simp add: coprime_iff_gcd_eq_1)
qed

lemma probe_inj:
  assumes "prime_size sz" and "0 < g" and "g < sz" and "j < sz" and "k < sz"
    and "probe sz s g j = probe sz s g k"
  shows "j = k"
proof -
  have cop: "coprime sz g"
    using assms by (intro prime_coprime)
  have le: "j = k" if "j \<le> k" "k < sz" "probe sz s g j = probe sz s g k" for j k
  proof -
    have "sz dvd (s + k * g) - (s + j * g)"
      using that by (intro mod_eq_dvd_iff_nat [THEN iffD1]) (auto simp: probe_def)
    then have "sz dvd (k - j) * g"
      by (simp add: diff_mult_distrib)
    then have "sz dvd k - j"
      using cop by (simp add: coprime_dvd_mult_left_iff)
    moreover have "k - j < sz"
      using that by simp
    ultimately have "k - j = 0"
      using nat_dvd_not_less by blast
    then show "j = k"
      using that by simp
  qed
  show ?thesis
    using le [of j k] le [of k j] assms(4,5,6) by (cases "j \<le> k") auto
qed

lemma probe_seq_distinct: "prime_size sz \<Longrightarrow> 0 < g \<Longrightarrow> g < sz \<Longrightarrow> distinct (probe_seq sz s g)"
  by (auto simp: probe_seq_def distinct_map inj_on_def intro: probe_inj)

lemma probe_seq_set:
  assumes "prime_size sz" and "0 < g" and "g < sz"
  shows "set (probe_seq sz s g) = {0..<sz}"
proof (rule card_subset_eq)
  show "set (probe_seq sz s g) \<subseteq> {0..<sz}"
    using assms by (auto simp: probe_seq_def probe_def)
  have "card (set (probe_seq sz s g)) = length (probe_seq sz s g)"
    by (rule distinct_card) (rule probe_seq_distinct [OF assms])
  then show "card (set (probe_seq sz s g)) = card {0..<sz}"
    by (simp add: probe_seq_def)
qed simp

lemma probe_next: "g < sz \<Longrightarrow> next_idx sz g (probe sz s g k) = probe sz s g (Suc k)"
proof -
  assume g: "g < sz"
  let ?i = "probe sz s g k"
  have i: "?i < sz"
    using g by (simp add: probe_def)
  have "next_idx sz g ?i = (?i + g) mod sz"
    using i g by (auto simp: next_idx_def Let_def mod_if)
  also have "\<dots> = probe sz s g (Suc k)"
    by (simp add: probe_def mod_add_right_eq algebra_simps)
  finally show ?thesis .
qed

lemma probe_back: "s < sz \<Longrightarrow> probe sz s g 0 = s \<and> probe sz s g sz = s"
  by (simp add: probe_def)

subsection \<open>The searches\<close>

text \<open>The slots in the order in which the searches for an identifier visit them.\<close>

definition slots_for :: "nodemap \<Rightarrow> nodeid \<Rightarrow> nat list" where
  "slots_for ns nid =
     (let h = unat (UA_NodeId_hash nid) in probe_seq (nmsize ns) (mod_nm h (nmsize ns)) (mod2 h (nmsize ns)))"

abbreviation nonnull :: "nodemap \<Rightarrow> nat \<Rightarrow> bool" where
  "nonnull ns i \<equiv> entries ns ! i \<noteq> Null"

abbreviation matches_at :: "nodemap \<Rightarrow> nodeid \<Rightarrow> nat \<Rightarrow> bool" where
  "matches_at ns nid i \<equiv> slot_matches ns nid (entries ns ! i)"

definition scan_occupied :: "nodemap \<Rightarrow> nodeid \<Rightarrow> nat list \<Rightarrow> nat option" where
  "scan_occupied ns nid ps = find (matches_at ns nid) (takeWhile (nonnull ns) ps)"

definition scan_free :: "nodemap \<Rightarrow> nodeid \<Rightarrow> nat list \<Rightarrow> nat option \<Rightarrow> nat option" where
  "scan_free ns nid ps ret =
     (if \<exists>i \<in> set (takeWhile (nonnull ns) ps). matches_at ns nid i then None
      else case ret of Some i \<Rightarrow> Some i | None \<Rightarrow> find (\<lambda>i. is_free (entries ns ! i)) ps)"

lemma slot_matches_Null [simp]: "\<not> slot_matches ns nid Null" "\<not> slot_matches ns nid Tombstone"
  by (simp_all add: slot_matches_def)

lemma is_free_simps [simp]: "is_free Null" "is_free Tombstone" "\<not> is_free (Entry a)"
  by (simp_all add: is_free_def)

lemma probe_start:
  assumes "prime_size sz" and "0 < g" and "g < sz" and "s < sz" and "k < sz"
  shows "probe sz s g (Suc k) = s \<longleftrightarrow> Suc k = sz"
proof (cases "Suc k = sz")
  case True
  then show ?thesis
    using probe_back [of s sz g] assms(4) by simp
next
  case False
  then have "Suc k < sz"
    using assms(5) by simp
  then show ?thesis
    using probe_inj [OF assms(1-3), of "Suc k" 0 s] probe_back [of s sz g] assms(4) by auto
qed

lemma find_occupied_loop_scan:
  assumes "prime_size (nmsize ns)" and "0 < g" and "g < nmsize ns" and "s < nmsize ns"
    and "k < nmsize ns" and "nmsize ns - k \<le> n"
  shows "find_occupied_loop n ns nid s g (probe (nmsize ns) s g k)
    = Some (scan_occupied ns nid (map (probe (nmsize ns) s g) [k..<nmsize ns]))"
  using assms(5,6)
proof (induction n arbitrary: k)
  case (Suc n)
  note st = probe_start [OF assms(1-4) Suc.prems(1)]
  have l: "[k..<nmsize ns] = k # [Suc k..<nmsize ns]"
    using Suc.prems(1) by (rule upt_conv_Cons)
  show ?case
  proof (cases "Suc k = nmsize ns")
    case True
    then show ?thesis
      using st l by (simp add: Let_def probe_next assms(3) scan_occupied_def)
  next
    case False
    then have "find_occupied_loop n ns nid s g (probe (nmsize ns) s g (Suc k))
        = Some (scan_occupied ns nid (map (probe (nmsize ns) s g) [Suc k..<nmsize ns]))"
      using Suc.prems by (intro Suc.IH) auto
    then show ?thesis
      using st l False by (auto simp: Let_def probe_next assms(3) scan_occupied_def)
  qed
qed simp

lemma find_free_loop_scan:
  assumes "prime_size (nmsize ns)" and "0 < g" and "g < nmsize ns" and "s < nmsize ns"
    and "k < nmsize ns" and "nmsize ns - k \<le> n"
  shows "find_free_loop n ns nid s g (probe (nmsize ns) s g k) ret
    = Some (scan_free ns nid (map (probe (nmsize ns) s g) [k..<nmsize ns]) ret)"
  using assms(5,6)
proof (induction n arbitrary: k ret)
  case (Suc n)
  note st = probe_start [OF assms(1-4) Suc.prems(1)]
  have l: "[k..<nmsize ns] = k # [Suc k..<nmsize ns]"
    using Suc.prems(1) by (rule upt_conv_Cons)
  show ?case
  proof (cases "Suc k = nmsize ns")
    case True
    then show ?thesis
      using st l by (auto simp: Let_def probe_next assms(3) scan_free_def is_free_def split: option.splits)
  next
    case False
    then have "find_free_loop n ns nid s g (probe (nmsize ns) s g (Suc k)) r
        = Some (scan_free ns nid (map (probe (nmsize ns) s g) [Suc k..<nmsize ns]) r)" for r
      using Suc.prems by (intro Suc.IH) auto
    then show ?thesis
      using st l False
      by (auto simp: Let_def probe_next assms(3) scan_free_def is_free_def split: option.splits)
  qed
qed simp

lemma mod2_bounds:
  assumes "7 \<le> sz"
  shows "0 < mod2 h sz" and "mod2 h sz < sz"
proof -
  have "h mod (sz - 2) < sz - 2"
    using assms by (intro mod_less_divisor) simp
  then show "0 < mod2 h sz" "mod2 h sz < sz"
    using assms unfolding mod2_def by linarith+
qed

text \<open>Both searches end, within as many iterations as the table has slots.\<close>

lemma search_scan:
  assumes "prime_size (nmsize ns)" and "7 \<le> nmsize ns"
  shows "findOccupiedSlot ns nid = Some (scan_occupied ns nid (slots_for ns nid))"
    and "findFreeSlot ns nid = Some (scan_free ns nid (slots_for ns nid) None)"
proof -
  let ?sz = "nmsize ns" and ?h = "unat (UA_NodeId_hash nid)"
  let ?s = "mod_nm ?h ?sz" and ?g = "mod2 ?h ?sz"
  note g = mod2_bounds [OF assms(2), of ?h]
  have s: "?s < ?sz"
    using assms(2) by (simp add: mod_nm_def)
  have st: "probe ?sz ?s ?g 0 = ?s"
    using probe_back s by blast
  have "find_occupied_loop ?sz ns nid ?s ?g (probe ?sz ?s ?g 0)
      = Some (scan_occupied ns nid (map (probe ?sz ?s ?g) [0..<?sz]))"
    using assms g s by (intro find_occupied_loop_scan) auto
  then show "findOccupiedSlot ns nid = Some (scan_occupied ns nid (slots_for ns nid))"
    by (simp add: findOccupiedSlot_def st slots_for_def probe_seq_def Let_def)
  have "find_free_loop ?sz ns nid ?s ?g (probe ?sz ?s ?g 0) None
      = Some (scan_free ns nid (map (probe ?sz ?s ?g) [0..<?sz]) None)"
    using assms g s by (intro find_free_loop_scan) auto
  then show "findFreeSlot ns nid = Some (scan_free ns nid (slots_for ns nid) None)"
    by (simp add: findFreeSlot_def st slots_for_def probe_seq_def Let_def)
qed

lemma slots_for_set:
  assumes "prime_size (nmsize ns)" and "7 \<le> nmsize ns"
  shows "set (slots_for ns nid) = {0..<nmsize ns}" and "distinct (slots_for ns nid)"
proof -
  note g = mod2_bounds [OF assms(2), of "unat (UA_NodeId_hash nid)"]
  show "set (slots_for ns nid) = {0..<nmsize ns}" "distinct (slots_for ns nid)"
    using probe_seq_set [OF assms(1) g] probe_seq_distinct [OF assms(1) g] by (simp_all add: slots_for_def Let_def)
qed

end
