(* ===== verification/Nodestore_Correct.thy ===== *)
theory Nodestore_Correct
  imports Nodestore_Probe
begin

text \<open>
  Correctness of the node store. \<open>nodemap_wf\<close> is the invariant of the hash map and \<open>store\<close> its abstraction,
  a map from keys (NodeIds up to null and empty strings) to the addresses of entries. Every operation
  keeps the invariant and does on \<open>store\<close> what a map does.
\<close>

subsection \<open>Invariant and abstraction\<close>

fun addr_list :: "slot list \<Rightarrow> nat list" where
  "addr_list [] = []"
| "addr_list (Entry a # ss) = a # addr_list ss"
| "addr_list (Null # ss) = addr_list ss"
| "addr_list (Tombstone # ss) = addr_list ss"

definition nid_at :: "nodemap \<Rightarrow> nat \<Rightarrow> nodeid" where
  "nid_at ns a = nodeId_of (enode (entry_of ns a))"

definition key_at :: "nodemap \<Rightarrow> nat \<Rightarrow> nodeid" where
  "key_at ns a = nodeid_key (nid_at ns a)"

definition table_wf :: "nodemap \<Rightarrow> bool" where
  "table_wf ns \<longleftrightarrow> length (entries ns) = nmsize ns \<and> prime_size (nmsize ns) \<and> 7 \<le> nmsize ns
     \<and> distinct (addr_list (entries ns)) \<and> inj_on (key_at ns) (set (addr_list (entries ns)))
     \<and> (\<forall>a \<in> set (addr_list (entries ns)). nmheap ns a \<noteq> None \<and> \<not> deleted (entry_of ns a))
     \<and> (\<forall>i < nmsize ns. \<forall>a. entries ns ! i = Entry a \<longrightarrow>
          i \<in> set (takeWhile (nonnull ns) (slots_for ns (nid_at ns a))))"

definition nodemap_wf :: "nodemap \<Rightarrow> bool" where
  "nodemap_wf ns \<longleftrightarrow> table_wf ns \<and> sizePrimeIndex ns \<le> PRIME_LIMIT
     \<and> nmsize ns = primes ! sizePrimeIndex ns \<and> nmcount ns = length (addr_list (entries ns))
     \<and> (\<forall>a. nmheap ns a \<noteq> None \<longrightarrow> a < nmalloc ns)"

definition store :: "nodemap \<Rightarrow> nodeid \<Rightarrow> nat option" where
  "store ns k = find (\<lambda>a. key_at ns a = k) (addr_list (entries ns))"

lemma addr_list_append [simp]: "addr_list (xs @ ys) = addr_list xs @ addr_list ys"
  by (induction xs rule: addr_list.induct) auto

lemma addr_list_set: "a \<in> set (addr_list ss) \<longleftrightarrow> (\<exists>i < length ss. ss ! i = Entry a)"
proof (induction ss rule: addr_list.induct)
  case (2 b ss)
  then show ?case by (auto simp: less_Suc_eq_0_disj)
next
  case (3 ss)
  then show ?case by (auto simp: less_Suc_eq_0_disj)
next
  case (4 ss)
  then show ?case by (auto simp: less_Suc_eq_0_disj)
qed simp

lemma addr_list_length: "length (addr_list ss) \<le> length ss"
  by (induction ss rule: addr_list.induct) auto

lemma free_slot_exists: "length (addr_list ss) < length ss \<Longrightarrow> \<exists>i < length ss. is_free (ss ! i)"
proof (induction ss rule: addr_list.induct)
  case (2 a ss)
  then show ?case by (auto simp: less_Suc_eq_0_disj)
qed auto

lemma addr_list_replicate [simp]: "addr_list (replicate n Null) = []"
  by (induction n) auto

lemma addr_list_update_free:
  assumes "i < length ss" and "is_free (ss ! i)"
  shows "mset (addr_list (ss[i := Entry a])) = add_mset a (mset (addr_list ss))"
proof -
  have ss: "ss = take i ss @ ss ! i # drop (Suc i) ss"
    using assms(1) by (rule id_take_nth_drop)
  have "addr_list (ss ! i # drop (Suc i) ss) = addr_list (drop (Suc i) ss)"
    using assms(2) by (auto simp: is_free_def)
  then have "mset (addr_list ss) = mset (addr_list (take i ss)) + mset (addr_list (drop (Suc i) ss))"
    by (subst ss) (simp del: append_take_drop_id)
  then show ?thesis
    using assms(1) by (simp add: upd_conv_take_nth_drop)
qed

lemma addr_list_update_entry:
  assumes "i < length ss" and "ss ! i = Entry a"
  shows "mset (addr_list ss) = add_mset a (mset (addr_list (ss[i := Tombstone])))"
    and "mset (addr_list (ss[i := Entry b])) = add_mset b (mset (addr_list (ss[i := Tombstone])))"
proof -
  have "mset (addr_list (ss[i := Tombstone, i := Entry x])) = add_mset x (mset (addr_list (ss[i := Tombstone])))" for x
    using assms(1) by (intro addr_list_update_free) auto
  from this [of a] this [of b] show "mset (addr_list ss) = add_mset a (mset (addr_list (ss[i := Tombstone])))"
    "mset (addr_list (ss[i := Entry b])) = add_mset b (mset (addr_list (ss[i := Tombstone])))"
    using list_update_id [of ss i] assms by simp_all
qed

lemma table_wfD:
  assumes "table_wf ns"
  shows "length (entries ns) = nmsize ns" "prime_size (nmsize ns)" "7 \<le> nmsize ns"
    "distinct (addr_list (entries ns))" "inj_on (key_at ns) (set (addr_list (entries ns)))"
    "a \<in> set (addr_list (entries ns)) \<Longrightarrow> nmheap ns a \<noteq> None \<and> \<not> deleted (entry_of ns a)"
    "i < nmsize ns \<Longrightarrow> entries ns ! i = Entry a \<Longrightarrow>
       i \<in> set (takeWhile (nonnull ns) (slots_for ns (nid_at ns a)))"
  using assms by (auto simp: table_wf_def)

lemma store_Some:
  assumes "table_wf ns"
  shows "store ns k = Some a \<longleftrightarrow> a \<in> set (addr_list (entries ns)) \<and> key_at ns a = k"
proof
  assume "store ns k = Some a"
  then show "a \<in> set (addr_list (entries ns)) \<and> key_at ns a = k"
    by (auto simp: store_def find_Some_iff)
next
  assume a: "a \<in> set (addr_list (entries ns)) \<and> key_at ns a = k"
  then obtain b where "store ns k = Some b"
    by (cases "store ns k") (auto simp: store_def find_None_iff)
  moreover from this have "b = a"
    using a table_wfD(5) [OF assms] by (auto simp: store_def find_Some_iff inj_on_def)
  ultimately show "store ns k = Some a"
    by simp
qed

lemma store_None: "store ns k = None \<longleftrightarrow> (\<forall>a \<in> set (addr_list (entries ns)). key_at ns a \<noteq> k)"
  by (auto simp: store_def find_None_iff)

lemma slot_matches_iff: "slot_matches ns nid s \<longleftrightarrow> (\<exists>a. s = Entry a \<and> key_at ns a = nodeid_key nid)"
  by (cases s) (auto simp: slot_matches_def nodeid_hash.equal_key key_at_def nid_at_def)

lemma slots_for_key: "nodeid_key n1 = nodeid_key n2 \<Longrightarrow> slots_for ns n1 = slots_for ns n2"
  using nodeid_hash.equal_hash [of n1 n2] by (simp add: nodeid_hash.equal_key slots_for_def)

subsection \<open>Searching\<close>

text \<open>An entry is always found where the search for its identifier stops.\<close>

lemma matching_in_prefix:
  assumes "table_wf ns"
  shows "(\<exists>i \<in> set (takeWhile (nonnull ns) (slots_for ns nid)). matches_at ns nid i)
    \<longleftrightarrow> store ns (nodeid_key nid) \<noteq> None"
proof
  assume "\<exists>i \<in> set (takeWhile (nonnull ns) (slots_for ns nid)). matches_at ns nid i"
  then obtain i a where i: "i \<in> set (slots_for ns nid)" "entries ns ! i = Entry a" "key_at ns a = nodeid_key nid"
    by (auto simp: slot_matches_iff dest: set_takeWhileD)
  then have "a \<in> set (addr_list (entries ns))"
    using slots_for_set(1) table_wfD(1-3) [OF assms] by (auto simp: addr_list_set)
  with i show "store ns (nodeid_key nid) \<noteq> None"
    by (auto simp: store_None)
next
  assume "store ns (nodeid_key nid) \<noteq> None"
  then obtain a where a: "a \<in> set (addr_list (entries ns))" "key_at ns a = nodeid_key nid"
    by (auto simp: store_None)
  then obtain i where i: "i < nmsize ns" "entries ns ! i = Entry a"
    using table_wfD(1) [OF assms] by (auto simp: addr_list_set)
  have "i \<in> set (takeWhile (nonnull ns) (slots_for ns nid))"
    using table_wfD(7) [OF assms i] a(2) slots_for_key by (metis key_at_def)
  with i a show "\<exists>i \<in> set (takeWhile (nonnull ns) (slots_for ns nid)). matches_at ns nid i"
    by (auto simp: slot_matches_iff)
qed

lemma findFreeSlot_taken:
  assumes "table_wf ns" and "store ns (nodeid_key nid) \<noteq> None"
  shows "findFreeSlot ns nid = Some None"
  using search_scan(2) [OF table_wfD(2,3) [OF assms(1)], of nid] matching_in_prefix [OF assms(1), of nid] assms(2)
  by (simp add: scan_free_def)

lemma findOccupiedSlot_store:
  assumes "table_wf ns"
  shows "case store ns (nodeid_key nid) of
      None \<Rightarrow> findOccupiedSlot ns nid = Some None
    | Some a \<Rightarrow> \<exists>i < nmsize ns. findOccupiedSlot ns nid = Some (Some i) \<and> entries ns ! i = Entry a"
proof (cases "store ns (nodeid_key nid)")
  case None
  then have "scan_occupied ns nid (slots_for ns nid) = None"
    using matching_in_prefix [OF assms, of nid] by (auto simp: scan_occupied_def find_None_iff)
  then show ?thesis
    using None search_scan(1) table_wfD(2,3) [OF assms] by simp
next
  case (Some a)
  then obtain i where i: "scan_occupied ns nid (slots_for ns nid) = Some i"
    using matching_in_prefix [OF assms, of nid]
    by (cases "scan_occupied ns nid (slots_for ns nid)") (auto simp: scan_occupied_def find_None_iff)
  then obtain b where b: "i \<in> set (slots_for ns nid)" "entries ns ! i = Entry b" "key_at ns b = nodeid_key nid"
    by (auto simp: scan_occupied_def find_Some_iff slot_matches_iff)
      (metis nth_mem set_takeWhileD)
  then have "i < nmsize ns" "b \<in> set (addr_list (entries ns))"
    using slots_for_set(1) table_wfD(1-3) [OF assms] by (auto simp: addr_list_set)
  moreover from this(2) have "b = a"
    using b(3) Some store_Some [OF assms, of "nodeid_key nid" b] by simp
  ultimately show ?thesis
    using Some i b(2) search_scan(1) table_wfD(2,3) [OF assms] by simp
qed

subsection \<open>Changing slots\<close>

lemma entries_update_simps [simp]:
  "entry_of (ns\<lparr>entries := es\<rparr>) a = entry_of ns a"
  "nid_at (ns\<lparr>entries := es\<rparr>) a = nid_at ns a"
  "key_at (ns\<lparr>entries := es\<rparr>) = key_at ns"
  "slots_for (ns\<lparr>entries := es\<rparr>) n = slots_for ns n"
  by (simp_all add: entry_of_def nid_at_def key_at_def slots_for_def fun_eq_iff)

lemma takeWhile_mono:
  "x \<in> set (takeWhile P xs) \<Longrightarrow> (\<And>y. y \<in> set xs \<Longrightarrow> P y \<Longrightarrow> Q y) \<Longrightarrow> x \<in> set (takeWhile Q xs)"
  by (induction xs) (auto split: if_splits)

lemma takeWhile_prefix: "(\<forall>x \<in> set xs. P x) \<Longrightarrow> P i \<Longrightarrow> i \<in> set (takeWhile P (xs @ i # ys))"
  by (induction xs) auto

lemma find_split: "find P xs = Some i \<Longrightarrow> \<exists>ys zs. xs = ys @ i # zs \<and> P i \<and> (\<forall>y \<in> set ys. \<not> P y)"
proof (induction xs)
  case (Cons x xs)
  show ?case
  proof (cases "P x")
    case True
    then show ?thesis
      using Cons.prems by (auto intro: exI [of _ "[]"])
  next
    case False
    then obtain ys zs where "xs = ys @ i # zs" "P i" "\<forall>y \<in> set ys. \<not> P y"
      using Cons by auto
    then show ?thesis
      using False by (intro exI [of _ "x # ys"] exI [of _ zs]) simp
  qed
qed simp

lemma mset_distinct_cons:
  assumes "mset xs = add_mset a (mset ys)"
  shows "set xs = insert a (set ys)" and "length xs = Suc (length ys)"
    and "distinct xs \<longleftrightarrow> a \<notin> set ys \<and> distinct ys"
proof -
  have m: "mset xs = mset (a # ys)"
    using assms by simp
  show "set xs = insert a (set ys)" "length xs = Suc (length ys)"
    using mset_eq_setD [OF m] mset_eq_length [OF m] by simp_all
  show "distinct xs \<longleftrightarrow> a \<notin> set ys \<and> distinct ys"
    using mset_eq_imp_distinct_iff [OF m] by simp
qed

lemma table_insert:
  assumes wf: "table_wf ns" and new: "store ns (key_at ns a) = None"
    and live: "nmheap ns a \<noteq> None" "\<not> deleted (entry_of ns a)"
    and room: "length (addr_list (entries ns)) < nmsize ns"
  obtains i where "i < nmsize ns" "findFreeSlot ns (nid_at ns a) = Some (Some i)" "is_free (entries ns ! i)"
    "table_wf (ns\<lparr>entries := (entries ns)[i := Entry a]\<rparr>)"
    "mset (addr_list ((entries ns)[i := Entry a])) = add_mset a (mset (addr_list (entries ns)))"
proof -
  note w = table_wfD [OF wf]
  note sl = slots_for_set [OF w(2,3), of "nid_at ns a"]
  let ?ps = "slots_for ns (nid_at ns a)"
  obtain j where "j < nmsize ns" "is_free (entries ns ! j)"
    using free_slot_exists [of "entries ns"] room w(1) by auto
  then obtain i where f: "find (\<lambda>i. is_free (entries ns ! i)) ?ps = Some i"
    using sl by (cases "find (\<lambda>i. is_free (entries ns ! i)) ?ps") (auto simp: find_None_iff)
  obtain xs ys where ps: "?ps = xs @ i # ys" "is_free (entries ns ! i)" "\<forall>x \<in> set xs. \<not> is_free (entries ns ! x)"
    using find_split [OF f] by blast
  have i: "i < nmsize ns"
    using ps(1) sl(1) by auto
  have free: "findFreeSlot ns (nid_at ns a) = Some (Some i)"
    using search_scan(2) [OF w(2,3), of "nid_at ns a"] f matching_in_prefix [OF wf, of "nid_at ns a"] new
    by (auto simp: scan_free_def key_at_def)
  let ?ns = "ns\<lparr>entries := (entries ns)[i := Entry a]\<rparr>"
  have m: "mset (addr_list ((entries ns)[i := Entry a])) = add_mset a (mset (addr_list (entries ns)))"
    using i w(1) ps(2) by (intro addr_list_update_free) auto
  note ad = mset_distinct_cons [OF m]
  have na: "a \<notin> set (addr_list (entries ns))"
    using new by (auto simp: store_None)
  have nonnull: "nonnull ns x \<Longrightarrow> nonnull ?ns x" if "x < nmsize ns" for x
    using that w(1) by (cases "x = i") auto
  have at_i: "i \<in> set (takeWhile (nonnull ?ns) ?ps)"
    unfolding ps(1)
  proof (rule takeWhile_prefix)
    show "\<forall>x \<in> set xs. nonnull ?ns x"
    proof
      fix x assume x: "x \<in> set xs"
      then have "x < nmsize ns"
        using ps(1) sl(1) by auto
      moreover have "nonnull ns x"
        using ps(3) x is_free_def by auto
      ultimately show "nonnull ?ns x"
        by (rule nonnull)
    qed
    show "nonnull ?ns i"
      using i w(1) by simp
  qed
  have at_k: "k \<in> set (takeWhile (nonnull ?ns) (slots_for ns (nid_at ns b)))"
    if "k < nmsize ns" "entries ns ! k = Entry b" for k b
    using w(7) [OF that] nonnull slots_for_set(1) [OF w(2,3)] by (auto intro: takeWhile_mono)
  have srch: "\<forall>k < nmsize ns. \<forall>b. entries ?ns ! k = Entry b \<longrightarrow>
      k \<in> set (takeWhile (nonnull ?ns) (slots_for ns (nid_at ns b)))"
  proof (intro allI impI)
    fix k b assume k: "k < nmsize ns" "entries ?ns ! k = Entry b"
    then show "k \<in> set (takeWhile (nonnull ?ns) (slots_for ns (nid_at ns b)))"
      using at_i at_k [of k b] w(1) by (cases "k = i") simp_all
  qed
  have "inj_on (key_at ns) (insert a (set (addr_list (entries ns))))"
    using w(5) new by (auto simp: inj_on_insert store_None)
  then have "table_wf ?ns"
    unfolding table_wf_def using w live srch na ad by simp
  then show thesis
    using that i free ps(2) m by blast
qed

text \<open>What the table sees of the heap: which entries are allocated, their mark and their NodeId.\<close>

definition heap_view :: "nodemap \<Rightarrow> nat \<Rightarrow> (bool \<times> nodeid) option" where
  "heap_view ns a = map_option (\<lambda>e. (deleted e, nodeId_of (enode e))) (nmheap ns a)"

lemma heap_view_entry:
  "nmheap ns a \<noteq> None \<longleftrightarrow> heap_view ns a \<noteq> None"
  "deleted (entry_of ns a) = (case heap_view ns a of None \<Rightarrow> True | Some v \<Rightarrow> fst v)"
  "nid_at ns a = (case heap_view ns a of None \<Rightarrow> NodeId_init | Some v \<Rightarrow> snd v)"
  by (auto simp: heap_view_def entry_of_def nid_at_def split: option.splits)

lemma table_wf_cong:
  assumes "entries ns' = entries ns" and "nmsize ns' = nmsize ns"
    and "\<And>a. a \<in> set (addr_list (entries ns)) \<Longrightarrow> heap_view ns' a = heap_view ns a"
  shows "table_wf ns' \<longleftrightarrow> table_wf ns" and "store ns' k = store ns k"
proof -
  have n: "nid_at ns' a = nid_at ns a" and k: "key_at ns' a = key_at ns a"
    and l: "(nmheap ns' a \<noteq> None \<and> \<not> deleted (entry_of ns' a)) = (nmheap ns a \<noteq> None \<and> \<not> deleted (entry_of ns a))"
    if "a \<in> set (addr_list (entries ns))" for a
    using assms(3) [OF that] by (simp_all only: heap_view_entry key_at_def)
  have sl: "slots_for ns' = slots_for ns"
    by (simp add: slots_for_def assms(2) fun_eq_iff)
  have "inj_on (key_at ns') (set (addr_list (entries ns))) = inj_on (key_at ns) (set (addr_list (entries ns)))"
    using k by (rule inj_on_cong)
  moreover have "(\<forall>i < nmsize ns. \<forall>a. entries ns ! i = Entry a \<longrightarrow>
        i \<in> set (takeWhile (nonnull ns) (slots_for ns (nid_at ns' a))))
     = (\<forall>i < nmsize ns. \<forall>a. entries ns ! i = Entry a \<longrightarrow>
        i \<in> set (takeWhile (nonnull ns) (slots_for ns (nid_at ns a))))" if "length (entries ns) = nmsize ns"
    using n that by (metis addr_list_set)
  ultimately show "table_wf ns' \<longleftrightarrow> table_wf ns"
    unfolding table_wf_def assms(1,2) sl using l by blast
  show "store ns' k = store ns k"
    unfolding store_def assms(1) using k by (intro find_cong) auto
qed

lemma table_remove:
  assumes wf: "table_wf ns" and i: "i < nmsize ns" "entries ns ! i = Entry a"
  shows "table_wf (ns\<lparr>entries := (entries ns)[i := Tombstone]\<rparr>)"
    and "mset (addr_list (entries ns)) = add_mset a (mset (addr_list ((entries ns)[i := Tombstone])))"
proof -
  note w = table_wfD [OF wf]
  let ?ns = "ns\<lparr>entries := (entries ns)[i := Tombstone]\<rparr>"
  show m: "mset (addr_list (entries ns)) = add_mset a (mset (addr_list ((entries ns)[i := Tombstone])))"
    using i w(1) by (intro addr_list_update_entry) auto
  note ad = mset_distinct_cons [OF m]
  have nonnull: "nonnull ?ns x" if "nonnull ns x" "x < nmsize ns" for x
    using that w(1) by (cases "x = i") auto
  have "\<forall>k < nmsize ns. \<forall>b. entries ?ns ! k = Entry b \<longrightarrow>
      k \<in> set (takeWhile (nonnull ?ns) (slots_for ns (nid_at ns b)))"
  proof (intro allI impI)
    fix k b assume k: "k < nmsize ns" "entries ?ns ! k = Entry b"
    then have "entries ns ! k = Entry b"
      using w(1) by (cases "k = i") auto
    with k(1) show "k \<in> set (takeWhile (nonnull ?ns) (slots_for ns (nid_at ns b)))"
      using w(7) [of k b] nonnull slots_for_set(1) [OF w(2,3)] by (auto intro: takeWhile_mono)
  qed
  moreover have "inj_on (key_at ns) (set (addr_list ((entries ns)[i := Tombstone])))"
    using w(5) ad(1) by (auto intro: inj_on_subset)
  ultimately show "table_wf ?ns"
    unfolding table_wf_def using w ad by auto
qed

text \<open>The map after a change of the set of addresses in the table.\<close>

lemma store_add:
  assumes "table_wf ns" and "table_wf ns'" and "set (addr_list (entries ns')) = insert a (set (addr_list (entries ns)))"
    and "\<And>b. b \<in> insert a (set (addr_list (entries ns))) \<Longrightarrow> key_at ns' b = key_at ns b"
    and "store ns (key_at ns a) = None"
  shows "store ns' = (store ns)(key_at ns a \<mapsto> a)"
proof
  fix k
  show "store ns' k = ((store ns)(key_at ns a \<mapsto> a)) k"
  proof (cases "k = key_at ns a")
    case True
    then show ?thesis
      using store_Some [OF assms(2), of k a] assms(3,4) by simp
  next
    case False
    have "store ns' k = Some b \<longleftrightarrow> store ns k = Some b" for b
      using store_Some [OF assms(1), of k b] store_Some [OF assms(2), of k b] assms(3,4) False by auto
    then show ?thesis
      using False by (metis fun_upd_other not_Some_eq)
  qed
qed

lemma store_remove:
  assumes "table_wf ns" and "table_wf ns'" and "set (addr_list (entries ns)) = insert a (set (addr_list (entries ns')))"
    and "a \<notin> set (addr_list (entries ns'))"
    and "\<And>b. b \<in> set (addr_list (entries ns')) \<Longrightarrow> key_at ns' b = key_at ns b"
  shows "store ns' = (store ns)(key_at ns a := None)"
proof
  fix k
  show "store ns' k = ((store ns)(key_at ns a := None)) k"
  proof (cases "k = key_at ns a")
    case True
    have "store ns k = Some a"
      using store_Some [OF assms(1), of k a] assms(3) True by simp
    then have "\<not> (b \<in> set (addr_list (entries ns')) \<and> key_at ns b = k)" for b
      using store_Some [OF assms(1), of k b] assms(3,4) by auto
    then show ?thesis
      using True assms(5) by (auto simp: store_None)
  next
    case False
    have "store ns' k = Some b \<longleftrightarrow> store ns k = Some b" for b
      using store_Some [OF assms(1), of k b] store_Some [OF assms(2), of k b] assms(3,5) False by auto
    then show ?thesis
      using False by (metis fun_upd_other not_Some_eq)
  qed
qed

subsection \<open>Resizing\<close>

lemma reinsert_spec:
  assumes "table_wf ns" and "distinct (addr_list ss)"
    and "set (addr_list ss) \<inter> set (addr_list (entries ns)) = {}"
    and "\<And>a. a \<in> set (addr_list ss) \<Longrightarrow> nmheap ns a \<noteq> None \<and> \<not> deleted (entry_of ns a)"
    and "inj_on (key_at ns) (set (addr_list ss) \<union> set (addr_list (entries ns)))"
    and "cnt = j + length (addr_list ss)"
    and "length (addr_list (entries ns)) + length (addr_list ss) \<le> nmsize ns"
  shows "\<exists>es. reinsert ss j cnt ns = Some (ns\<lparr>entries := es\<rparr>) \<and> table_wf (ns\<lparr>entries := es\<rparr>)
    \<and> mset (addr_list es) = mset (addr_list (entries ns)) + mset (addr_list ss)"
  using assms
proof (induction ss j cnt ns rule: reinsert.induct)
  case (1 j cnt ns)
  then show ?case
    by (intro exI [of _ "entries ns"]) simp
next
  case (2 s ss j cnt ns)
  show ?case
  proof (cases "j < cnt")
    case False
    then have "addr_list (s # ss) = []"
      using "2.prems"(6) by simp
    then show ?thesis
      using False "2.prems"(1) by (intro exI [of _ "entries ns"]) (simp del: addr_list.simps)
  next
    case True
    show ?thesis
    proof (cases s)
      case (Entry a)
      have new: "store ns (key_at ns a) = None"
        using "2.prems"(3,5) Entry by (auto simp: store_None inj_on_def)
      obtain i where i: "i < nmsize ns" "findFreeSlot ns (nid_at ns a) = Some (Some i)"
        "table_wf (ns\<lparr>entries := (entries ns)[i := Entry a]\<rparr>)"
        "mset (addr_list ((entries ns)[i := Entry a])) = add_mset a (mset (addr_list (entries ns)))"
        using "2.prems" Entry new by (elim table_insert [of ns a]) auto
      note ad = mset_distinct_cons [OF i(4)]
      have "\<exists>es. reinsert ss (j + 1) cnt (ns\<lparr>entries := (entries ns)[i := Entry a]\<rparr>)
          = Some (ns\<lparr>entries := (entries ns)[i := Entry a], entries := es\<rparr>)
        \<and> table_wf (ns\<lparr>entries := (entries ns)[i := Entry a], entries := es\<rparr>)
        \<and> mset (addr_list es) = mset (addr_list (entries (ns\<lparr>entries := (entries ns)[i := Entry a]\<rparr>))) + mset (addr_list ss)"
      proof (rule "2.IH"(3) [OF True Entry])
        show "findFreeSlot ns (nodeId_of (enode (entry_of ns a))) = Some (Some i)"
          using i(2) by (simp add: nid_at_def)
        show "inj_on (key_at (ns\<lparr>entries := (entries ns)[i := Entry a]\<rparr>))
            (set (addr_list ss) \<union> set (addr_list (entries (ns\<lparr>entries := (entries ns)[i := Entry a]\<rparr>))))"
          using "2.prems"(5) Entry ad(1) by (simp add: insert_commute)
      qed (use "2.prems" Entry i ad in auto)
      then show ?thesis
        using True Entry i(2,4) by (auto simp: nid_at_def)
    next
      case Null
      then show ?thesis
        using "2.IH"(1) [OF True Null] "2.prems" True by auto
    next
      case Tombstone
      then show ?thesis
        using "2.IH"(2) [OF True Tombstone] "2.prems" True by auto
    qed
  qed
qed

text \<open>
  The bound on the number of nodes keeps the table within the checked primes (and the 32-bit products far from
  overflow).
\<close>

definition MAX_NODES :: nat where
  "MAX_NODES = 524286"

lemma nodemap_wfD:
  assumes "nodemap_wf ns"
  shows "table_wf ns" "sizePrimeIndex ns \<le> PRIME_LIMIT" "nmsize ns = primes ! sizePrimeIndex ns"
    "nmcount ns = length (addr_list (entries ns))" "nmheap ns a \<noteq> None \<Longrightarrow> a < nmalloc ns"
  using assms by (auto simp: nodemap_wf_def)

lemma primes_bound: "i \<le> PRIME_LIMIT \<Longrightarrow> primes ! i \<le> 1048573"
  using sorted_nth_mono [OF primes_sorted, of i 17] by (simp add: PRIME_LIMIT_def primes_def)

lemma nodemap_count: "nodemap_wf ns \<Longrightarrow> nmcount ns \<le> nmsize ns \<and> nmsize ns \<le> 1048573"
  using primes_bound [of "sizePrimeIndex ns"] addr_list_length [of "entries ns"]
  by (simp add: nodemap_wf_def table_wf_def)

lemma u32_small: "nodemap_wf ns \<Longrightarrow>
    u32nat (nmcount ns * 2) = nmcount ns * 2 \<and> u32nat (nmcount ns * 4) = nmcount ns * 4
    \<and> u32nat (nmcount ns * 8) = nmcount ns * 8 \<and> u32nat (nmsize ns * 3) = nmsize ns * 3
    \<and> u32nat (nmcount ns + 1) = nmcount ns + 1"
  using nodemap_count [of ns] by (simp add: u32nat_def)

lemma expand_spec:
  assumes wf: "nodemap_wf ns" and max: "nmcount ns \<le> MAX_NODES"
  shows "\<exists>ret ns'. expand calloc_ok ns = Some (ret, ns') \<and> nodemap_wf ns' \<and> store ns' = store ns
    \<and> nmheap ns' = nmheap ns \<and> nmcount ns' = nmcount ns \<and> nmalloc ns' = nmalloc ns
    \<and> (ret = GOOD \<longrightarrow> nmcount ns < nmsize ns') \<and> (calloc_ok \<longrightarrow> ret = GOOD)"
proof -
  note w = nodemap_wfD [OF wf] and u = u32_small [OF wf]
  let ?keep = "nmcount ns * 2 < nmsize ns \<and> (nmcount ns * 8 > nmsize ns \<or> nmsize ns \<le> UA_NODEMAP_MINSIZE)"
  let ?i = "higher_prime_index (nmcount ns * 2)"
  let ?n = "primes ! ?i"
  define ns0 where "ns0 = ns\<lparr>entries := replicate ?n Null, nmsize := ?n, sizePrimeIndex := ?i\<rparr>"
  have i: "?i \<le> PRIME_LIMIT" "nmcount ns * 2 \<le> ?n"
    using higher_prime_index_limit [of "nmcount ns * 2"] max by (simp_all add: MAX_NODES_def)
  note p = primes_prime_size [OF i(1)]
  have f: "addr_list (entries ns0) = []" "nmsize ns0 = ?n" "nmheap ns0 = nmheap ns" "nmcount ns0 = nmcount ns"
    "nmalloc ns0 = nmalloc ns" "sizePrimeIndex ns0 = ?i" "entry_of ns0 = entry_of ns" "key_at ns0 = key_at ns"
    by (simp_all add: ns0_def entry_of_def key_at_def nid_at_def fun_eq_iff)
  have "table_wf ns0"
    using p by (simp add: table_wf_def ns0_def)
  then have "\<exists>es. reinsert (entries ns) 0 (nmcount ns) ns0 = Some (ns0\<lparr>entries := es\<rparr>)
      \<and> table_wf (ns0\<lparr>entries := es\<rparr>)
      \<and> mset (addr_list es) = mset (addr_list (entries ns0)) + mset (addr_list (entries ns))"
  proof (rule reinsert_spec)
    show "length (addr_list (entries ns0)) + length (addr_list (entries ns)) \<le> nmsize ns0"
      using i(2) w(4) by (simp add: f)
  qed (use table_wfD [OF w(1)] w(4) in \<open>simp_all add: f\<close>)
  then obtain es where es: "reinsert (entries ns) 0 (nmcount ns) ns0 = Some (ns0\<lparr>entries := es\<rparr>)"
    "table_wf (ns0\<lparr>entries := es\<rparr>)" "mset (addr_list es) = mset (addr_list (entries ns))"
    using f(1) by auto
  note sets = mset_eq_setD [OF es(3)] mset_eq_length [OF es(3)]
  have st: "store (ns0\<lparr>entries := es\<rparr>) = store ns"
  proof
    fix k
    have "store (ns0\<lparr>entries := es\<rparr>) k = Some b \<longleftrightarrow> store ns k = Some b" for b
      using store_Some [OF es(2), of k b] store_Some [OF w(1), of k b] sets(1) f(8) by simp
    then show "store (ns0\<lparr>entries := es\<rparr>) k = store ns k"
      by (metis not_Some_eq)
  qed
  have wf': "nodemap_wf (ns0\<lparr>entries := es\<rparr>)"
    using es(2) i(1) w(4,5) sets(2) f by (auto simp: nodemap_wf_def)
  show ?thesis
  proof (cases ?keep)
    case True
    then show ?thesis
      using wf u by (simp add: expand_def Let_def)
  next
    case False
    have "nmcount ns < ?n"
      using i(2) p by (cases "nmcount ns = 0") auto
    then show ?thesis
      using False wf wf' es(1) st u f
      by (cases calloc_ok) (simp_all add: expand_def Let_def ns0_def [symmetric])
  qed
qed

subsection \<open>Changes of the heap\<close>

lemma nodemap_wf_cong:
  assumes wf: "nodemap_wf ns" and "entries ns' = entries ns" and "nmsize ns' = nmsize ns"
    and "nmcount ns' = nmcount ns" and "sizePrimeIndex ns' = sizePrimeIndex ns"
    and "\<And>a. a \<in> set (addr_list (entries ns)) \<Longrightarrow> heap_view ns' a = heap_view ns a"
    and "\<And>a. nmheap ns' a \<noteq> None \<Longrightarrow> a < nmalloc ns'"
  shows "nodemap_wf ns'" and "store ns' = store ns"
proof -
  show "nodemap_wf ns'"
    using assms table_wf_cong(1) [of ns' ns] by (simp add: nodemap_wf_def)
  show "store ns' = store ns"
    using assms table_wf_cong(2) [of ns' ns] by auto
qed

lemma set_entry_wf:
  assumes wf: "nodemap_wf ns" and live: "nmheap ns a \<noteq> None"
    and "a \<in> set (addr_list (entries ns)) \<Longrightarrow>
      deleted e = deleted (entry_of ns a) \<and> nodeId_of (enode e) = nid_at ns a"
  shows "nodemap_wf (set_entry a e ns)" and "store (set_entry a e ns) = store ns"
proof -
  have v: "heap_view (set_entry a e ns) b = heap_view ns b" if "b \<in> set (addr_list (entries ns))" for b
    using assms(3) live that by (auto simp: heap_view_def set_entry_def entry_of_def nid_at_def)
  have "b < nmalloc (set_entry a e ns)" if "nmheap (set_entry a e ns) b \<noteq> None" for b
    using nodemap_wfD(5) [OF wf] live that by (auto simp: set_entry_def split: if_splits)
  with v show "nodemap_wf (set_entry a e ns)" "store (set_entry a e ns) = store ns"
    using nodemap_wf_cong [OF wf, of "set_entry a e ns"] by (simp_all add: set_entry_def)
qed

lemma deleteEntry_wf:
  assumes "nodemap_wf ns" and "a \<notin> set (addr_list (entries ns))"
  shows "nodemap_wf (deleteEntry a ns)" and "store (deleteEntry a ns) = store ns"
proof -
  have v: "heap_view (deleteEntry a ns) b = heap_view ns b" if "b \<in> set (addr_list (entries ns))" for b
    using assms(2) that by (auto simp: heap_view_def deleteEntry_def)
  have "b < nmalloc (deleteEntry a ns)" if "nmheap (deleteEntry a ns) b \<noteq> None" for b
    using nodemap_wfD(5) [OF assms(1)] that by (auto simp: deleteEntry_def split: if_splits)
  with v show "nodemap_wf (deleteEntry a ns)" "store (deleteEntry a ns) = store ns"
    using nodemap_wf_cong [OF assms(1), of "deleteEntry a ns"] by (simp_all add: deleteEntry_def)
qed

lemma cleanupEntry_wf:
  assumes "nodemap_wf ns" and "a \<in> set (addr_list (entries ns)) \<Longrightarrow> \<not> deleted (entry_of ns a)"
  shows "nodemap_wf (cleanupEntry a ns)" and "store (cleanupEntry a ns) = store ns"
  using assms deleteEntry_wf [of ns a] by (auto simp: cleanupEntry_def)

lemma heap_op_simps [simp]:
  "entries (deleteEntry a ns) = entries ns" "entries (cleanupEntry a ns) = entries ns"
  "entries (set_entry a e ns) = entries ns" "entries (mark_deleted a ns) = entries ns"
  "nmsize (deleteEntry a ns) = nmsize ns" "nmsize (cleanupEntry a ns) = nmsize ns"
  "nmsize (set_entry a e ns) = nmsize ns" "nmsize (mark_deleted a ns) = nmsize ns"
  "nmcount (deleteEntry a ns) = nmcount ns" "nmcount (cleanupEntry a ns) = nmcount ns"
  "nmcount (set_entry a e ns) = nmcount ns" "nmcount (mark_deleted a ns) = nmcount ns"
  by (simp_all add: deleteEntry_def cleanupEntry_def set_entry_def mark_deleted_def)

text \<open>What happens to the memory of an entry that leaves the table: it is freed unless somebody holds it.\<close>

definition retired :: "nmentry \<Rightarrow> nmentry option" where
  "retired e = (if refCount e = 0 then None else Some (e\<lparr>deleted := True\<rparr>))"

lemma retire_heap:
  assumes "nmheap ns a = Some e"
  shows "nmheap (cleanupEntry a (mark_deleted a (ns\<lparr>entries := es\<rparr>))) = (nmheap ns)(a := retired e)"
  using assms
  by (simp add: cleanupEntry_def mark_deleted_def set_entry_def deleteEntry_def entry_of_def retired_def)

subsection \<open>The operations\<close>

lemma table_address:
  assumes "table_wf ns" and "store ns k = Some a"
  obtains e where "nmheap ns a = Some e" "\<not> deleted e" "entry_of ns a = e" "a \<in> set (addr_list (entries ns))"
proof -
  have a: "a \<in> set (addr_list (entries ns))"
    using store_Some [OF assms(1)] assms(2) by simp
  then obtain e where "nmheap ns a = Some e" "\<not> deleted (entry_of ns a)"
    using table_wfD(6) [OF assms(1) a] by auto
  with a that show thesis
    by (simp add: entry_of_def)
qed

lemma getNode_spec:
  assumes wf: "nodemap_wf ns"
  shows "case store ns (nodeid_key nid) of
      None \<Rightarrow> UA_NodeMap_getNode nid ns = Some (None, ns)
    | Some a \<Rightarrow> \<exists>e ns'. UA_NodeMap_getNode nid ns = Some (Some a, ns') \<and> nodemap_wf ns' \<and> store ns' = store ns
        \<and> nmheap ns a = Some e \<and> nmheap ns' = (nmheap ns)(a \<mapsto> e\<lparr>refCount := refCount e + 1\<rparr>)"
proof (cases "store ns (nodeid_key nid)")
  case None
  then show ?thesis
    using findOccupiedSlot_store [OF nodemap_wfD(1) [OF wf], of nid] by (simp add: UA_NodeMap_getNode_def)
next
  case (Some a)
  from table_address [OF nodemap_wfD(1) [OF wf] this] obtain e where e: "nmheap ns a = Some e" "entry_of ns a = e"
    by metis
  let ?e = "e\<lparr>refCount := refCount e + 1\<rparr>"
  have "nodemap_wf (set_entry a ?e ns)" "store (set_entry a ?e ns) = store ns"
    using set_entry_wf [OF wf, of a ?e] e by (simp_all add: nid_at_def)
  with e Some findOccupiedSlot_store [OF nodemap_wfD(1) [OF wf], of nid] show ?thesis
    by (auto simp: UA_NodeMap_getNode_def set_entry_def)
qed

lemma clearSlot_spec:
  assumes wf: "nodemap_wf ns" and i: "i < nmsize ns" "entries ns ! i = Entry a" and e: "nmheap ns a = Some e"
  shows "\<exists>ns'. clearSlot calloc_ok i ns = Some (GOOD, ns') \<and> nodemap_wf ns'
    \<and> store ns' = (store ns)(key_at ns a := None) \<and> nmheap ns' = (nmheap ns)(a := retired e)"
proof -
  note w = nodemap_wfD [OF wf]
  let ?n0 = "ns\<lparr>entries := (entries ns)[i := Tombstone]\<rparr>"
  note r = table_remove [OF w(1) i]
  note ad = mset_distinct_cons [OF r(2)]
  have na: "a \<notin> set (addr_list (entries ?n0))"
    using ad(3) table_wfD(4) [OF w(1)] by simp
  define n1 where "n1 = (cleanupEntry a (mark_deleted a ?n0))\<lparr>nmcount := u32nat (nmcount ns + 4294967295)\<rparr>"
  have n1: "entries n1 = (entries ns)[i := Tombstone]" "nmsize n1 = nmsize ns" "nmheap n1 = (nmheap ns)(a := retired e)"
    "nmalloc n1 = nmalloc ns" "sizePrimeIndex n1 = sizePrimeIndex ns"
    using retire_heap [OF e, of "(entries ns)[i := Tombstone]"]
    by (simp_all add: n1_def cleanupEntry_def mark_deleted_def set_entry_def deleteEntry_def)
  have cnt: "nmcount ns = Suc (nmcount n1)"
  proof -
    have pos: "0 < nmcount ns"
      using w(4) ad(2) by simp
    then have "nmcount ns + 4294967295 = (nmcount ns - 1) + 4294967296"
      by simp
    moreover have "nmcount n1 = (nmcount ns + 4294967295) mod 4294967296"
      by (simp add: n1_def u32nat_def)
    ultimately have "nmcount n1 = ((nmcount ns - 1) + 4294967296) mod 4294967296"
      by (simp only:)
    then have "nmcount n1 = (nmcount ns - 1) mod 4294967296"
      by (simp only: mod_add_self2)
    moreover have "nmcount ns - 1 < 4294967296"
      using nodemap_count [OF wf] by linarith
    ultimately show ?thesis
      using pos by simp
  qed
  have view: "heap_view n1 b = heap_view ?n0 b" if "b \<in> set (addr_list (entries ?n0))" for b
    using that na by (auto simp: heap_view_def n1(3))
  have t1: "table_wf n1"
    using table_wf_cong(1) [of n1 ?n0] view r(1) n1 by simp
  have wf1: "nodemap_wf n1"
    using t1 w n1 cnt ad(2) e by (auto simp: nodemap_wf_def split: if_splits)
  have keys: "key_at n1 b = key_at ns b" if "b \<in> set (addr_list (entries n1))" for b
    using view [of b] that n1(1) by (simp add: key_at_def heap_view_entry(3)) (simp add: heap_view_def)
  have st: "store n1 = (store ns)(key_at ns a := None)"
    using w(1) t1 ad(1) na keys n1(1) by (intro store_remove) simp_all
  have eq: "clearSlot calloc_ok i ns = (if u32nat (nmcount n1 * 8) < nmsize n1 \<and> nmsize n1 > 32
      then map_option (\<lambda>(_, ns3). (GOOD, ns3)) (expand calloc_ok n1) else Some (GOOD, n1))"
    using i(2) by (simp add: clearSlot_def n1_def Let_def)
  have "nmcount n1 \<le> MAX_NODES" if "u32nat (nmcount n1 * 8) < nmsize n1"
    using that u32_small [OF wf1] nodemap_count [OF wf1] by (simp add: MAX_NODES_def)
  with expand_spec [OF wf1, of calloc_ok] show ?thesis
    unfolding eq using wf1 st n1(3) by auto
qed

lemma removeNode_spec:
  assumes wf: "nodemap_wf ns"
  shows "case store ns (nodeid_key nid) of
      None \<Rightarrow> UA_NodeMap_removeNode calloc_ok nid ns = Some (BADNODEIDUNKNOWN, ns)
    | Some a \<Rightarrow> \<exists>e ns'. UA_NodeMap_removeNode calloc_ok nid ns = Some (GOOD, ns') \<and> nodemap_wf ns'
        \<and> store ns' = (store ns)(nodeid_key nid := None)
        \<and> nmheap ns a = Some e \<and> nmheap ns' = (nmheap ns)(a := retired e)"
proof (cases "store ns (nodeid_key nid)")
  case None
  then show ?thesis
    using findOccupiedSlot_store [OF nodemap_wfD(1) [OF wf], of nid] by (simp add: UA_NodeMap_removeNode_def)
next
  case (Some a)
  note t = nodemap_wfD(1) [OF wf]
  obtain e where e: "nmheap ns a = Some e"
    using table_address [OF t Some] by metis
  obtain i where i: "i < nmsize ns" "findOccupiedSlot ns nid = Some (Some i)" "entries ns ! i = Entry a"
    using findOccupiedSlot_store [OF t, of nid] Some by auto
  have "key_at ns a = nodeid_key nid"
    using store_Some [OF t] Some by simp
  with clearSlot_spec [OF wf i(1,3) e, of calloc_ok] show ?thesis
    using Some e i(2) by (simp add: UA_NodeMap_removeNode_def)
qed

text \<open>An entry that is allocated and not in the table, as \<open>UA_NodeMap_newNode\<close> returns it.\<close>

definition fresh_entry :: "nodemap \<Rightarrow> nat \<Rightarrow> bool" where
  "fresh_entry ns a \<longleftrightarrow> a \<notin> set (addr_list (entries ns)) \<and> nmheap ns a \<noteq> None \<and> \<not> deleted (entry_of ns a)"

lemma insert_into_table:
  assumes wf: "nodemap_wf ns" and fr: "fresh_entry ns a"
    and room: "nmcount ns < nmsize ns" and new: "store ns (key_at ns a) = None"
  shows "\<exists>i. findFreeSlot ns (nid_at ns a) = Some (Some i) \<and> is_free (entries ns ! i)
    \<and> nodemap_wf (ns\<lparr>entries := (entries ns)[i := Entry a], nmcount := u32nat (nmcount ns + 1)\<rparr>)
    \<and> store (ns\<lparr>entries := (entries ns)[i := Entry a], nmcount := u32nat (nmcount ns + 1)\<rparr>)
        = (store ns)(key_at ns a \<mapsto> a)"
proof -
  note w = nodemap_wfD [OF wf]
  obtain i where i: "i < nmsize ns" "findFreeSlot ns (nid_at ns a) = Some (Some i)" "is_free (entries ns ! i)"
    "table_wf (ns\<lparr>entries := (entries ns)[i := Entry a]\<rparr>)"
    "mset (addr_list ((entries ns)[i := Entry a])) = add_mset a (mset (addr_list (entries ns)))"
    using table_insert [OF w(1) new] fr room w(4) by (auto simp: fresh_entry_def)
  let ?n0 = "ns\<lparr>entries := (entries ns)[i := Entry a]\<rparr>"
  let ?ns = "?n0\<lparr>nmcount := u32nat (nmcount ns + 1)\<rparr>"
  note ad = mset_distinct_cons [OF i(5)]
  have t: "table_wf ?ns = table_wf ?n0" "store ?ns = store ?n0"
    using table_wf_cong [of ?ns ?n0] by (auto simp: heap_view_def)
  have "u32nat (nmcount ns + 1) = nmcount ns + 1"
    using u32_small [OF wf] by simp
  then have wf': "nodemap_wf ?ns"
    using w i(4) t ad(2) by (simp add: nodemap_wf_def)
  have "store ?n0 = (store ns)(key_at ns a \<mapsto> a)"
    using w(1) i(4) ad(1) new by (intro store_add) simp_all
  with i wf' t show ?thesis
    by auto
qed

lemma insertNode_spec:
  assumes wf: "nodemap_wf ns" and fr: "fresh_entry ns a" and max: "nmcount ns \<le> MAX_NODES"
    and id: "nident (nid_at ns a) \<noteq> Numeric 0"
  shows "if store ns (key_at ns a) = None
    then \<exists>ns'. UA_NodeMap_insertNode True want_id GOOD a ns = Some (GOOD, ns') \<and> nodemap_wf ns'
      \<and> store ns' = (store ns)(key_at ns a \<mapsto> a) \<and> nmheap ns' = nmheap ns
    else \<exists>ns'. UA_NodeMap_insertNode True want_id GOOD a ns = Some (BADNODEIDEXISTS, ns') \<and> nodemap_wf ns'
      \<and> store ns' = store ns \<and> nmheap ns' = (nmheap ns)(a := None)"
proof -
  note w = nodemap_wfD [OF wf] and u = u32_small [OF wf]
  obtain n1 where n1: "(if u32nat (nmsize ns * 3) \<le> u32nat (nmcount ns * 4) then expand True ns else Some (GOOD, ns))
      = Some (GOOD, n1)" "nodemap_wf n1" "store n1 = store ns" "nmheap n1 = nmheap ns" "nmcount n1 = nmcount ns"
    "nmcount n1 < nmsize n1"
  proof (cases "u32nat (nmsize ns * 3) \<le> u32nat (nmcount ns * 4)")
    case True
    then show thesis
      using expand_spec [OF wf max, of True] that by auto
  next
    case False
    then have "nmcount ns < nmsize ns"
      using u by linarith
    with False wf that show thesis
      by simp
  qed
  have v: "entry_of n1 = entry_of ns" "nid_at n1 = nid_at ns" "key_at n1 = key_at ns"
    by (simp_all add: entry_of_def nid_at_def key_at_def n1(4) fun_eq_iff)
  have na: "a \<notin> set (addr_list (entries n1))"
  proof
    assume "a \<in> set (addr_list (entries n1))"
    then have "store n1 (key_at ns a) = Some a"
      using store_Some [OF nodemap_wfD(1) [OF n1(2)]] v(3) by simp
    then show False
      using n1(3) store_Some [OF w(1)] fr by (simp add: fresh_entry_def)
  qed
  then have fr1: "fresh_entry n1 a"
    using fr v n1(4) by (simp add: fresh_entry_def)
  have sel: "select_slot a n1 = map_option (\<lambda>r. (r, n1)) (findFreeSlot n1 (nid_at n1 a))"
    using id v(1,2) by (simp add: select_slot_def nid_at_def)
  show ?thesis
  proof (cases "store ns (key_at ns a) = None")
    case True
    obtain i where i: "findFreeSlot n1 (nid_at n1 a) = Some (Some i)" "is_free (entries n1 ! i)"
      "nodemap_wf (n1\<lparr>entries := (entries n1)[i := Entry a], nmcount := u32nat (nmcount n1 + 1)\<rparr>)"
      "store (n1\<lparr>entries := (entries n1)[i := Entry a], nmcount := u32nat (nmcount n1 + 1)\<rparr>)
        = (store n1)(key_at n1 a \<mapsto> a)"
      using insert_into_table [OF n1(2) fr1] n1(3,5,6) v(3) True by auto
    then show ?thesis
      using True n1 v(3) sel by (simp add: UA_NodeMap_insertNode_def)
  next
    case False
    then have "findFreeSlot n1 (nid_at n1 a) = Some None"
      using n1(3) v by (intro findFreeSlot_taken nodemap_wfD(1) n1(2)) (simp add: key_at_def)
    then show ?thesis
      using False n1 sel deleteEntry_wf [OF n1(2) na]
      by (simp add: UA_NodeMap_insertNode_def deleteEntry_def)
  qed
qed

lemma replace_slot:
  assumes wf: "nodemap_wf ns" and fr: "fresh_entry ns b" and i: "i < nmsize ns" "entries ns ! i = Entry a"
    and ka: "key_at ns a = key_at ns b"
    and n1: "entries n1 = (entries ns)[i := Entry b]" "nmsize n1 = nmsize ns" "nmcount n1 = nmcount ns"
      "nmheap n1 = (nmheap ns)(a := v)" "nmalloc n1 = nmalloc ns" "sizePrimeIndex n1 = sizePrimeIndex ns"
  shows "nodemap_wf n1 \<and> store n1 = (store ns)(key_at ns b \<mapsto> b)"
proof -
  note w = nodemap_wfD [OF wf] and t = table_wfD [OF nodemap_wfD(1) [OF wf]]
  let ?R = "addr_list ((entries ns)[i := Tombstone])"
  have ia: "i < length (entries ns)"
    using i t(1) by simp
  note old = mset_distinct_cons [OF addr_list_update_entry(1) [OF ia i(2)]]
    and new = mset_distinct_cons [OF addr_list_update_entry(2) [OF ia i(2), of b]]
  have a: "a \<in> set (addr_list (entries ns))" and nb: "b \<notin> set (addr_list (entries ns))"
    using old(1) fr by (auto simp: fresh_entry_def)
  have ab: "a \<noteq> b"
    using a nb by blast
  have R: "a \<notin> set ?R" "b \<notin> set ?R" "distinct ?R"
    using old t(4) nb by auto
  have same: "entry_of n1 x = entry_of ns x" "nid_at n1 x = nid_at ns x" "key_at n1 x = key_at ns x"
    "nmheap n1 x = nmheap ns x" if "x \<noteq> a" for x
    using that by (simp_all add: entry_of_def nid_at_def key_at_def n1(4))
  have sl: "slots_for n1 = slots_for ns"
    by (simp add: slots_for_def n1(2) fun_eq_iff)
  have "inj_on (key_at ns) (insert b (set ?R))"
    using t(5) old(1) R ka by (auto simp: inj_on_insert)
  moreover have "key_at n1 x = key_at ns x" if "x \<in> insert b (set ?R)" for x
    using same(3) [of x] that R(1) ab by auto
  ultimately have inj: "inj_on (key_at n1) (insert b (set ?R))"
    using inj_on_cong by blast
  have nonnull: "nonnull n1 x" if "nonnull ns x" "x < nmsize ns" for x
    using that t(1) n1(1) by (cases "x = i") auto
  have srch: "\<forall>k < nmsize ns. \<forall>c. entries n1 ! k = Entry c \<longrightarrow>
      k \<in> set (takeWhile (nonnull n1) (slots_for ns (nid_at n1 c)))"
  proof (intro allI impI)
    fix k c assume k: "k < nmsize ns" "entries n1 ! k = Entry c"
    obtain d where d: "entries ns ! k = Entry d" "slots_for ns (nid_at n1 c) = slots_for ns (nid_at ns d)"
    proof (cases "k = i")
      case True
      then have "c = b"
        using k n1(1) ia by simp
      then show thesis
        using that [of a] True i(2) ka same(2) [of b] ab slots_for_key [of "nid_at ns b" "nid_at ns a" ns]
        by (simp add: key_at_def)
    next
      case False
      then have "entries ns ! k = Entry c"
        using k n1(1) by simp
      moreover from this have "c \<noteq> a"
        using False i k(1) t(1) t(4) R(1) n1(1) k(2) by (metis addr_list_set length_list_update nth_list_update_neq)
      ultimately show thesis
        using that [of c] same(2) by simp
    qed
    have "k \<in> set (takeWhile (nonnull ns) (slots_for ns (nid_at ns d)))"
      using t(7) [OF k(1) d(1)] .
    then show "k \<in> set (takeWhile (nonnull n1) (slots_for ns (nid_at n1 c)))"
      unfolding d(2) using nonnull slots_for_set(1) [OF t(2,3)] by (auto intro: takeWhile_mono)
  qed
  have live: "\<forall>x \<in> insert b (set ?R). nmheap n1 x \<noteq> None \<and> \<not> deleted (entry_of n1 x)"
  proof
    fix x assume x: "x \<in> insert b (set ?R)"
    then have "x \<noteq> a"
      using R(1) ab by auto
    moreover have "nmheap ns x \<noteq> None \<and> \<not> deleted (entry_of ns x)"
      using t(6) [of x] old(1) fr x by (auto simp: fresh_entry_def)
    ultimately show "nmheap n1 x \<noteq> None \<and> \<not> deleted (entry_of n1 x)"
      using same by simp
  qed
  have tw: "table_wf n1"
    unfolding table_wf_def using t(1,2,3) n1(1,2) new R inj live srch sl by simp
  have "a < nmalloc ns"
    using t(6) [OF a] w(5) by blast
  then have "nodemap_wf n1"
    using tw w n1 new(2) old(2) by (auto simp: nodemap_wf_def split: if_splits)
  moreover have "store n1 = (store ns)(key_at ns b \<mapsto> b)"
  proof
    fix k
    have mem: "set (addr_list (entries n1)) = insert b (set ?R)" "set (addr_list (entries ns)) = insert a (set ?R)"
      using new(1) old(1) n1(1) by simp_all
    show "store n1 k = ((store ns)(key_at ns b \<mapsto> b)) k"
    proof (cases "k = key_at ns b")
      case True
      then show ?thesis
        using store_Some [OF tw, of k b] mem same(3) [of b] ab by simp
    next
      case False
      have "store n1 k = Some c \<longleftrightarrow> store ns k = Some c" for c
        using store_Some [OF tw, of k c] store_Some [OF w(1), of k c] mem same(3) [of c] same(3) [of b] R(1) False ka ab
        by (cases "c = a") auto
      then show ?thesis
        using False by (metis fun_upd_other not_Some_eq)
    qed
  qed
  ultimately show ?thesis ..
qed

lemma replaceNode_spec:
  assumes wf: "nodemap_wf ns" and fr: "fresh_entry ns b"
  shows "case store ns (key_at ns b) of
      None \<Rightarrow> UA_NodeMap_replaceNode b ns = Some (BADNODEIDUNKNOWN, ns)
    | Some a \<Rightarrow>
        (if orig (entry_of ns b) = Some a
         then \<exists>e ns'. UA_NodeMap_replaceNode b ns = Some (GOOD, ns') \<and> nodemap_wf ns'
           \<and> store ns' = (store ns)(key_at ns b \<mapsto> b)
           \<and> nmheap ns a = Some e \<and> nmheap ns' = (nmheap ns)(a := retired e)
         else \<exists>ns'. UA_NodeMap_replaceNode b ns = Some (BADINTERNALERROR, ns') \<and> nodemap_wf ns'
           \<and> store ns' = store ns \<and> nmheap ns' = (nmheap ns)(b := None))"
proof (cases "store ns (key_at ns b)")
  case None
  then show ?thesis
    using findOccupiedSlot_store [OF nodemap_wfD(1) [OF wf], of "nid_at ns b"]
    by (simp add: UA_NodeMap_replaceNode_def nid_at_def key_at_def)
next
  case (Some a)
  note w = nodemap_wfD [OF wf]
  obtain e where e: "nmheap ns a = Some e"
    using table_address [OF w(1) Some] by metis
  obtain i where i: "i < nmsize ns" "findOccupiedSlot ns (nid_at ns b) = Some (Some i)" "entries ns ! i = Entry a"
    using findOccupiedSlot_store [OF w(1), of "nid_at ns b"] Some by (auto simp: key_at_def)
  have ka: "key_at ns a = key_at ns b"
    using store_Some [OF w(1)] Some by simp
  have ab: "a \<noteq> b"
    using store_Some [OF w(1)] Some fr by (auto simp: fresh_entry_def)
  show ?thesis
  proof (cases "orig (entry_of ns b) = Some a")
    case False
    then show ?thesis
      using Some i deleteEntry_wf [OF wf, of b] fr
      by (simp add: UA_NodeMap_replaceNode_def nid_at_def fresh_entry_def) (auto simp: deleteEntry_def)
  next
    case True
    define n1 where "n1 = cleanupEntry a (mark_deleted a (ns\<lparr>entries := (entries ns)[i := Entry b]\<rparr>))"
    have n1: "entries n1 = (entries ns)[i := Entry b]" "nmsize n1 = nmsize ns" "nmcount n1 = nmcount ns"
      "nmheap n1 = (nmheap ns)(a := retired e)" "nmalloc n1 = nmalloc ns" "sizePrimeIndex n1 = sizePrimeIndex ns"
      using retire_heap [OF e, of "(entries ns)[i := Entry b]"]
      by (simp_all add: n1_def cleanupEntry_def mark_deleted_def set_entry_def deleteEntry_def)
    have "nodemap_wf n1 \<and> store n1 = (store ns)(key_at ns b \<mapsto> b)"
      using wf fr i(1,3) ka n1 by (rule replace_slot)
    then show ?thesis
      using Some True i e ab n1(4) by (simp add: UA_NodeMap_replaceNode_def nid_at_def n1_def)
  qed
qed

lemma newEntry_spec:
  assumes wf: "nodemap_wf ns" and "valid_class cls"
  shows "\<exists>a ns'. newEntry True cls ns = (Some a, ns') \<and> nodemap_wf ns' \<and> store ns' = store ns \<and> fresh_entry ns' a
    \<and> entries ns' = entries ns \<and> nmheap ns a = None \<and> nmcount ns' = nmcount ns \<and> nmsize ns' = nmsize ns
    \<and> nmheap ns' = (nmheap ns)(a \<mapsto> \<lparr>orig = None, refCount = 0, deleted = False,
        enode = \<lparr>nodeId_of = NodeId_init, nodeClass = cls, ninfo = 0\<rparr>\<rparr>)"
proof -
  let ?a = "nmalloc ns"
  obtain ns' where n: "newEntry True cls ns = (Some ?a, ns')"
    using assms(2) by (simp add: newEntry_def Let_def)
  have none: "nmheap ns ?a = None"
    using nodemap_wfD(5) [OF wf] by blast
  have na: "?a \<notin> set (addr_list (entries ns))"
    using none table_wfD(6) [OF nodemap_wfD(1) [OF wf]] by blast
  have f: "entries ns' = entries ns" "nmsize ns' = nmsize ns" "nmcount ns' = nmcount ns"
    "sizePrimeIndex ns' = sizePrimeIndex ns" "nmalloc ns' = ?a + 1"
    "nmheap ns' = (nmheap ns)(?a \<mapsto> \<lparr>orig = None, refCount = 0, deleted = False,
        enode = \<lparr>nodeId_of = NodeId_init, nodeClass = cls, ninfo = 0\<rparr>\<rparr>)"
    using n assms(2) by (auto simp: newEntry_def Let_def)
  have v: "heap_view ns' b = heap_view ns b" if "b \<in> set (addr_list (entries ns))" for b
    using that na by (auto simp: heap_view_def f(6))
  have "b < nmalloc ns'" if "nmheap ns' b \<noteq> None" for b
    using that nodemap_wfD(5) [OF wf, of b] by (auto simp: f less_Suc_eq split: if_splits)
  with v f nodemap_wf_cong [OF wf, of ns'] have "nodemap_wf ns'" "store ns' = store ns"
    by simp_all
  moreover have "fresh_entry ns' ?a"
    using na by (simp add: fresh_entry_def f entry_of_def)
  ultimately show ?thesis
    using n f none by (intro exI [of _ ?a] exI [of _ ns']) simp
qed

lemma getNodeCopy_spec:
  assumes wf: "nodemap_wf ns" and st: "store ns (nodeid_key nid) = Some a"
    and cls: "valid_class (nodeClass (enode (entry_of ns a)))"
  shows "\<exists>b ns'. UA_NodeMap_getNodeCopy True GOOD nid ns = Some (GOOD, Some b, ns') \<and> nodemap_wf ns'
    \<and> store ns' = store ns \<and> fresh_entry ns' b \<and> b \<noteq> a
    \<and> (\<exists>e. nmheap ns' = (nmheap ns)(b \<mapsto> e) \<and> enode e = enode (entry_of ns a) \<and> orig e = Some a \<and> refCount e = 0)
    \<and> key_at ns' b = key_at ns a"
proof -
  note t = nodemap_wfD(1) [OF wf]
  obtain i where i: "findOccupiedSlot ns nid = Some (Some i)" "entries ns ! i = Entry a"
    using findOccupiedSlot_store [OF t, of nid] st by auto
  obtain b n1 where n: "newEntry True (nodeClass (enode (entry_of ns a))) ns = (Some b, n1)" "nodemap_wf n1"
    "store n1 = store ns" "fresh_entry n1 b" "nmheap ns b = None" "entries n1 = entries ns"
    and h: "nmheap n1 = (nmheap ns)(b \<mapsto> \<lparr>orig = None, refCount = 0, deleted = False,
        enode = \<lparr>nodeId_of = NodeId_init, nodeClass = nodeClass (enode (entry_of ns a)), ninfo = 0\<rparr>\<rparr>)"
    using newEntry_spec [OF wf cls] by blast
  let ?e = "(entry_of n1 b)\<lparr>enode := enode (entry_of ns a), orig := Some a\<rparr>"
  have "nmheap ns a \<noteq> None"
    using table_address [OF t st] by (metis option.distinct(1))
  then have ba: "b \<noteq> a"
    using n(5) by blast
  have e: "entry_of n1 b = \<lparr>orig = None, refCount = 0, deleted = False,
        enode = \<lparr>nodeId_of = NodeId_init, nodeClass = nodeClass (enode (entry_of ns a)), ninfo = 0\<rparr>\<rparr>"
    by (simp add: entry_of_def h)
  have wf': "nodemap_wf (set_entry b ?e n1)" "store (set_entry b ?e n1) = store n1"
    using set_entry_wf [OF n(2), of b ?e] n(4) by (auto simp: fresh_entry_def)
  have "fresh_entry (set_entry b ?e n1) b" "key_at (set_entry b ?e n1) b = key_at ns a"
    using n(4) e by (simp_all add: fresh_entry_def set_entry_def entry_of_def key_at_def nid_at_def)
  with wf' n i ba e h show ?thesis
    by (intro exI [of _ b] exI [of _ "set_entry b ?e n1"])
       (simp add: UA_NodeMap_getNodeCopy_def, auto simp: set_entry_def)
qed

lemma releaseNode_spec:
  assumes wf: "nodemap_wf ns" and e: "nmheap ns a = Some e" "refCount e \<noteq> 0"
  shows "\<exists>ns'. UA_NodeMap_releaseNode (Some a) ns = Some ns' \<and> nodemap_wf ns' \<and> store ns' = store ns
    \<and> nmheap ns' = (nmheap ns)(a := (if deleted e \<and> refCount e = 1 then None else Some (e\<lparr>refCount := refCount e - 1\<rparr>)))"
proof -
  let ?e = "e\<lparr>refCount := refCount e - 1\<rparr>"
  have eo: "entry_of ns a = e"
    using e(1) by (simp add: entry_of_def)
  have w1: "nodemap_wf (set_entry a ?e ns)" "store (set_entry a ?e ns) = store ns"
    using set_entry_wf [OF wf, of a ?e] e eo by (simp_all add: nid_at_def)
  have "\<not> deleted (entry_of (set_entry a ?e ns) a)" if "a \<in> set (addr_list (entries ns))"
    using table_wfD(6) [OF nodemap_wfD(1) [OF wf] that] eo by (simp add: set_entry_def entry_of_def)
  then have "nodemap_wf (cleanupEntry a (set_entry a ?e ns))"
    "store (cleanupEntry a (set_entry a ?e ns)) = store ns"
    using cleanupEntry_wf [OF w1(1), of a] w1(2) by simp_all
  then show ?thesis
    using e eo
    by (simp add: UA_NodeMap_releaseNode_def)
       (auto simp: cleanupEntry_def set_entry_def deleteEntry_def entry_of_def)
qed

lemma default_new_spec:
  "\<exists>ns. UA_Nodestore_default_new True True = (GOOD, Some ns) \<and> nodemap_wf ns \<and> store ns = (\<lambda>_. None)
    \<and> nmheap ns = (\<lambda>_. None) \<and> nmcount ns = 0 \<and> nmsize ns = 127"
proof -
  have i: "higher_prime_index 64 = 4"
    by (simp add: higher_prime_index_def higher_prime_loop.simps primes_def)
  have p: "prime_size 127"
    using primes_prime_size [of 4] by (simp add: PRIME_LIMIT_def primes_def)
  have s: "primes ! 4 = 127"
    by (simp add: primes_def)
  let ?ns = "\<lparr>entries = replicate 127 Null, nmsize = 127, nmcount = 0, sizePrimeIndex = 4,
    nmheap = (\<lambda>_. None), nmalloc = 0\<rparr>"
  have "nodemap_wf ?ns"
    unfolding nodemap_wf_def table_wf_def using p s by (simp add: PRIME_LIMIT_def)
  then show ?thesis
    by (simp add: UA_Nodestore_default_new_def UA_NODEMAP_MINSIZE_def i s Let_def store_def fun_eq_iff)
qed

subsection \<open>The node store as a map\<close>

text \<open>
  The contract of a node store towards the server: \<open>get\<close>, \<open>insert\<close> and \<open>remove\<close> act like lookup,
  update and deletion of a map, and always return.
\<close>

locale node_map =
  fixes inv :: "'s \<Rightarrow> bool" and abs :: "'s \<Rightarrow> nodeid \<Rightarrow> nat option"
    and insertable :: "'s \<Rightarrow> nat \<Rightarrow> bool" and key :: "'s \<Rightarrow> nat \<Rightarrow> nodeid"
    and get :: "nodeid \<Rightarrow> 's \<Rightarrow> (nat option \<times> 's) option"
    and insert :: "nat \<Rightarrow> 's \<Rightarrow> (status \<times> 's) option" and remove :: "nodeid \<Rightarrow> 's \<Rightarrow> (status \<times> 's) option"
  assumes get_law: "inv s \<Longrightarrow> \<exists>s'. get nid s = Some (abs s (nodeid_key nid), s') \<and> inv s' \<and> abs s' = abs s"
    and insert_law: "inv s \<Longrightarrow> insertable s a \<Longrightarrow>
      (if abs s (key s a) = None
       then \<exists>s'. insert a s = Some (GOOD, s') \<and> inv s' \<and> abs s' = (abs s)(key s a \<mapsto> a)
       else \<exists>s'. insert a s = Some (BADNODEIDEXISTS, s') \<and> inv s' \<and> abs s' = abs s)"
    and remove_law: "inv s \<Longrightarrow>
      \<exists>s'. remove nid s = Some (if abs s (nodeid_key nid) = None then BADNODEIDUNKNOWN else GOOD, s')
        \<and> inv s' \<and> abs s' = (abs s)(nodeid_key nid := None)"
begin

lemma get_after_insert:
  assumes "inv s" and "insertable s a" and "abs s (key s a) = None"
  shows "\<exists>s1 s2. insert a s = Some (GOOD, s1)
    \<and> get nid s1 = Some (if nodeid_key nid = key s a then Some a else abs s (nodeid_key nid), s2)"
proof -
  obtain s1 where s1: "insert a s = Some (GOOD, s1)" "inv s1" "abs s1 = (abs s)(key s a \<mapsto> a)"
    using insert_law [OF assms(1,2)] assms(3) by auto
  from get_law [OF s1(2), of nid] s1 show ?thesis
    by auto
qed

lemma get_after_remove:
  assumes "inv s"
  shows "\<exists>r s1 s2. remove nid s = Some (r, s1)
    \<and> get nid' s1 = Some (if nodeid_key nid' = nodeid_key nid then None else abs s (nodeid_key nid'), s2)"
proof -
  obtain r s1 where s1: "remove nid s = Some (r, s1)" "inv s1" "abs s1 = (abs s)(nodeid_key nid := None)"
    using remove_law [OF assms, of nid] by blast
  from get_law [OF s1(2), of nid'] s1 show ?thesis
    by auto
qed

end

text \<open>
  An entry that can be inserted: allocated, not in the table, with an identifier of its own, while the
  number of nodes is within the checked limit.
\<close>

definition insertable :: "nodemap \<Rightarrow> nat \<Rightarrow> bool" where
  "insertable ns a \<longleftrightarrow> fresh_entry ns a \<and> nmcount ns \<le> MAX_NODES \<and> nident (nid_at ns a) \<noteq> Numeric 0"

interpretation nodestore: node_map nodemap_wf store insertable key_at UA_NodeMap_getNode
  "UA_NodeMap_insertNode True want_id GOOD" "UA_NodeMap_removeNode calloc_ok" for want_id calloc_ok
proof
  fix s nid assume wf: "nodemap_wf s"
  show "\<exists>s'. UA_NodeMap_getNode nid s = Some (store s (nodeid_key nid), s') \<and> nodemap_wf s' \<and> store s' = store s"
    using getNode_spec [OF wf, of nid] wf by (cases "store s (nodeid_key nid)") auto
  show "\<exists>s'. UA_NodeMap_removeNode calloc_ok nid s
      = Some (if store s (nodeid_key nid) = None then BADNODEIDUNKNOWN else GOOD, s')
      \<and> nodemap_wf s' \<and> store s' = (store s)(nodeid_key nid := None)"
    using removeNode_spec [OF wf, where nid = nid and calloc_ok = calloc_ok] wf by (cases "store s (nodeid_key nid)") (auto simp: fun_upd_idem)
next
  fix s a assume "nodemap_wf s" "insertable s a"
  then show "if store s (key_at s a) = None
    then \<exists>s'. UA_NodeMap_insertNode True want_id GOOD a s = Some (GOOD, s') \<and> nodemap_wf s'
       \<and> store s' = (store s)(key_at s a \<mapsto> a)
    else \<exists>s'. UA_NodeMap_insertNode True want_id GOOD a s = Some (BADNODEIDEXISTS, s') \<and> nodemap_wf s' \<and> store s' = store s"
    using insertNode_spec [of s a want_id] by (auto simp: insertable_def split: if_splits)
qed

end
