(* ===== verification/Nodestore_Random_Id.thy ===== *)
theory Nodestore_Random_Id
  imports Nodestore_Correct
begin

text \<open>
  Nodes without an identifier of their own: the loop of \<open>UA_NodeMap_insertNode\<close> that tries numeric
  identifiers until one is not used in the namespace. The tried identifiers first descend from \<open>50001 + size\<close>
  to below the size of the table and then run through all numbers below it; as there are fewer nodes
  than slots, one of them is free. The fuel \<open>random_id_fuel\<close> covers both phases.
\<close>

definition numeric_id :: "u16 \<Rightarrow> nat \<Rightarrow> nodeid" where
  "numeric_id N x = \<lparr>namespaceIndex = N, nident = Numeric (of_nat x)\<rparr>"

lemma numeric_id_key [simp]: "nodeid_key (numeric_id N x) = numeric_id N x"
  by (simp add: nodeid_key_def numeric_id_def)

text \<open>The states of the loop: only the NodeId of the new entry changes.\<close>

definition id_state :: "nodemap \<Rightarrow> nat \<Rightarrow> u16 \<Rightarrow> nodemap \<Rightarrow> bool" where
  "id_state ns0 a N ns \<longleftrightarrow> nodemap_wf ns \<and> fresh_entry ns a \<and> store ns = store ns0 \<and> nmsize ns = nmsize ns0
     \<and> nmcount ns = nmcount ns0 \<and> namespaceIndex (nid_at ns a) = N
     \<and> (\<forall>b. b \<noteq> a \<longrightarrow> nmheap ns b = nmheap ns0 b)"

definition id_found :: "nodemap \<Rightarrow> nat \<Rightarrow> u16 \<Rightarrow> (nat option \<times> nodemap) option \<Rightarrow> bool" where
  "id_found ns0 a N res \<longleftrightarrow>
     (\<exists>i ns x. res = Some (Some i, ns) \<and> id_state ns0 a N ns \<and> nid_at ns a = numeric_id N x
        \<and> store ns0 (numeric_id N x) = None \<and> findFreeSlot ns (nid_at ns a) = Some (Some i))"

lemma set_numeric_state:
  assumes "id_state ns0 a N ns"
  shows "id_state ns0 a N (set_numeric (of_nat x) a ns)"
    and "nid_at (set_numeric (of_nat x) a ns) a = numeric_id N x"
    and "key_at (set_numeric (of_nat x) a ns) a = numeric_id N x"
proof -
  note s = assms [unfolded id_state_def]
  obtain e where e: "nmheap ns a = Some e" "entry_of ns a = e" "\<not> deleted e" "a \<notin> set (addr_list (entries ns))"
    using s by (auto simp: fresh_entry_def entry_of_def)
  let ?e = "e\<lparr>enode := (enode e)\<lparr>nodeId_of := (nodeId_of (enode e))\<lparr>nident := Numeric (of_nat x)\<rparr>\<rparr>\<rparr>"
  have eq: "set_numeric (of_nat x) a ns = set_entry a ?e ns"
    by (simp add: set_numeric_def Let_def e)
  have w: "nodemap_wf (set_entry a ?e ns)" "store (set_entry a ?e ns) = store ns"
    using set_entry_wf [of ns a ?e] s e by simp_all
  show n: "nid_at (set_numeric (of_nat x) a ns) a = numeric_id N x"
    using s e by (auto simp: eq nid_at_def set_entry_def entry_of_def numeric_id_def)
  then show "key_at (set_numeric (of_nat x) a ns) a = numeric_id N x"
    by (simp add: key_at_def)
  show "id_state ns0 a N (set_numeric (of_nat x) a ns)"
    using w s e n unfolding id_state_def
    by (simp add: eq numeric_id_def) (simp add: fresh_entry_def set_entry_def entry_of_def)
qed

lemma id_found_now:
  assumes st: "id_state ns0 a N ns" and room: "nmcount ns0 < nmsize ns0" and "store ns0 (numeric_id N x) = None"
  shows "id_found ns0 a N (random_id_loop (Suc n) startId inc x a ns)"
proof -
  let ?ns = "set_numeric (of_nat x) a ns"
  note s = set_numeric_state [OF st, of x]
  note d = s(1) [unfolded id_state_def]
  obtain i where "findFreeSlot ?ns (nid_at ?ns a) = Some (Some i)"
    using insert_into_table [of ?ns a] d s(3) assms(2,3) by auto
  with s assms(3) show ?thesis
    by (auto simp: id_found_def Let_def nid_at_def)
qed

lemma id_taken_next:
  assumes st: "id_state ns0 a N ns" and "store ns0 (numeric_id N x) \<noteq> None"
    and "u32nat (next_idx (nmsize ns0) inc x) \<noteq> startId"
  shows "random_id_loop (Suc n) startId inc x a ns
    = random_id_loop n startId inc (next_idx (nmsize ns0) inc x) a (set_numeric (of_nat x) a ns)"
proof -
  let ?ns = "set_numeric (of_nat x) a ns"
  note s = set_numeric_state [OF st, of x]
  note d = s(1) [unfolded id_state_def]
  have t: "table_wf ?ns"
    using d nodemap_wfD(1) by blast
  have "store ?ns (nodeid_key (nid_at ?ns a)) \<noteq> None"
    unfolding s(2) using d assms(2) by simp
  with t have "findFreeSlot ?ns (nid_at ?ns a) = Some None"
    by (rule findFreeSlot_taken)
  then have free: "findFreeSlot ?ns (nodeId_of (enode (entry_of ?ns a))) = Some None"
    by (simp only: nid_at_def)
  have sz: "nmsize ns = nmsize ns0"
    using st by (simp add: id_state_def)
  show ?thesis
    unfolding random_id_loop.simps Let_def free sz using assms(3) by simp
qed

text \<open>Not all identifiers below the size of the table are taken.\<close>

lemma not_all_taken:
  assumes wf: "nodemap_wf ns0" and room: "nmcount ns0 < nmsize ns0"
  shows "\<exists>x < nmsize ns0. store ns0 (numeric_id N x) = None"
proof (rule ccontr)
  assume "\<not> (\<exists>x < nmsize ns0. store ns0 (numeric_id N x) = None)"
  then have taken: "\<exists>a. store ns0 (numeric_id N x) = Some a" if "x < nmsize ns0" for x
    using that by (cases "store ns0 (numeric_id N x)") auto
  let ?f = "\<lambda>x. the (store ns0 (numeric_id N x))"
  have f: "?f x \<in> set (addr_list (entries ns0)) \<and> key_at ns0 (?f x) = numeric_id N x" if x: "x < nmsize ns0" for x
  proof -
    obtain a where a: "store ns0 (numeric_id N x) = Some a"
      using taken [OF x] by blast
    then show ?thesis
      using store_Some [OF nodemap_wfD(1) [OF wf], of "numeric_id N x" a] by simp
  qed
  have "inj_on ?f {0..<nmsize ns0}"
  proof (rule inj_onI)
    fix x y assume xy: "x \<in> {0..<nmsize ns0}" "y \<in> {0..<nmsize ns0}" "?f x = ?f y"
    have "numeric_id N x = key_at ns0 (?f x)"
      using f [of x] xy(1) by (simp only: atLeastLessThan_iff)
    also have "\<dots> = key_at ns0 (?f y)"
      by (simp only: xy(3))
    also have "\<dots> = numeric_id N y"
      using f [of y] xy(2) by (simp only: atLeastLessThan_iff)
    finally have "(of_nat x :: u32) = of_nat y"
      by (simp add: numeric_id_def)
    moreover have "x < 4294967296" "y < 4294967296"
      using xy nodemap_count [OF wf] by auto
    ultimately show "x = y"
      by (simp add: word_of_nat_eq_iff take_bit_nat_eq_self)
  qed
  then have "card {0..<nmsize ns0} \<le> card (set (addr_list (entries ns0)))"
    using f by (intro card_inj_on_le [of ?f]) auto
  also have "\<dots> \<le> nmcount ns0"
    using nodemap_wfD(4) [OF wf] card_length by simp
  finally show False
    using room by simp
qed

lemma orbit_phase:
  assumes st: "id_state ns0 a N ns" and room: "nmcount ns0 < nmsize ns0" and wf: "nodemap_wf ns0"
    and inc: "0 < inc" "inc < nmsize ns0" and x: "x < nmsize ns0"
    and start: "nmsize ns0 \<le> startId" and j: "j \<le> nmsize ns0" and n: "nmsize ns0 - j < n"
    and taken: "\<forall>i < j. store ns0 (numeric_id N (probe (nmsize ns0) x inc i)) \<noteq> None"
  shows "id_found ns0 a N (random_id_loop n startId inc (probe (nmsize ns0) x inc j) a ns)"
  using st j n taken
proof (induction n arbitrary: j ns)
  case (Suc n)
  let ?p = "probe (nmsize ns0) x inc"
  note pr = table_wfD(2,3) [OF nodemap_wfD(1) [OF wf]]
  have lt: "?p i < nmsize ns0" for i
    using inc by (simp add: probe_def)
  have "j < nmsize ns0"
  proof (rule ccontr)
    assume "\<not> j < nmsize ns0"
    then have "store ns0 (numeric_id N y) \<noteq> None" if "y \<in> set (probe_seq (nmsize ns0) x inc)" for y
      using Suc.prems(4) that by (auto simp: probe_seq_def)
    moreover obtain y where "y < nmsize ns0" "store ns0 (numeric_id N y) = None"
      using not_all_taken [OF wf room] by blast
    ultimately show False
      using probe_seq_set [OF pr(1) inc, of x] by force
  qed
  show ?case
  proof (cases "store ns0 (numeric_id N (?p j)) = None")
    case True
    then show ?thesis
      using id_found_now [OF Suc.prems(1) room] by blast
  next
    case False
    have nx: "next_idx (nmsize ns0) inc (?p j) = ?p (Suc j)"
      using inc(2) by (rule probe_next)
    have "u32nat (?p (Suc j)) \<le> ?p (Suc j)"
      by (simp add: u32nat_def)
    then have "u32nat (?p (Suc j)) < startId"
      using lt [of "Suc j"] start by linarith
    then have eq: "random_id_loop (Suc n) startId inc (?p j) a ns
        = random_id_loop n startId inc (?p (Suc j)) a (set_numeric (of_nat (?p j)) a ns)"
      using id_taken_next [OF Suc.prems(1) False, of inc startId n] nx by simp
    show ?thesis
      unfolding eq
    proof (rule Suc.IH)
      show "id_state ns0 a N (set_numeric (of_nat (?p j)) a ns)"
        using Suc.prems(1) by (rule set_numeric_state(1))
      show "\<forall>i < Suc j. store ns0 (numeric_id N (?p i)) \<noteq> None"
        using Suc.prems(4) False by (simp add: less_Suc_eq)
    qed (use \<open>j < nmsize ns0\<close> Suc.prems in auto)
  qed
qed simp

lemma descent_phase:
  assumes st: "id_state ns0 a N ns" and room: "nmcount ns0 < nmsize ns0" and wf: "nodemap_wf ns0"
    and inc: "0 < inc" "inc < nmsize ns0" and start: "nmsize ns0 \<le> startId"
    and x: "x \<le> startId" "startId < 4294967296" and n: "x + nmsize ns0 < n"
  shows "id_found ns0 a N (random_id_loop n startId inc x a ns)"
  using st x(1) n
proof (induction x arbitrary: ns n rule: less_induct)
  case (less x)
  show ?case
  proof (cases "x < nmsize ns0")
    case True
    have "probe (nmsize ns0) x inc 0 = x"
      using True by (simp add: probe_def)
    then show ?thesis
      using orbit_phase [OF less.prems(1) room wf inc True start, of 0 n] less.prems(3) by simp
  next
    case False
    obtain m where m: "n = Suc m"
      using less.prems(3) by (cases n) auto
    show ?thesis
    proof (cases "store ns0 (numeric_id N x) = None")
      case True
      then show ?thesis
        unfolding m using id_found_now [OF less.prems(1) room] by blast
    next
      case taken: False
      let ?y = "next_idx (nmsize ns0) inc x"
      have y: "?y = x + inc - nmsize ns0" "?y < x"
        using False inc by (auto simp: next_idx_def Let_def)
      have "u32nat ?y \<le> ?y"
        by (simp add: u32nat_def)
      then have "u32nat ?y \<noteq> startId"
        using y(2) less.prems(2) by simp
      from id_taken_next [OF less.prems(1) taken this, of m] show ?thesis
        unfolding m using less.IH [OF y(2) set_numeric_state(1) [OF less.prems(1)]] less.prems(2,3) y m by simp
    qed
  qed
qed

lemma select_random_id:
  assumes wf: "nodemap_wf ns" and fr: "fresh_entry ns a" and room: "nmcount ns < nmsize ns"
    and id: "nident (nid_at ns a) = Numeric 0"
  shows "id_found ns a (namespaceIndex (nid_at ns a)) (select_slot a ns)"
proof -
  note c = nodemap_count [OF wf]
  have st: "id_state ns a (namespaceIndex (nid_at ns a)) ns"
    using wf fr by (simp add: id_state_def)
  let ?s = "50000 + nmsize ns + 1"
  have s: "mod_nm (u32nat ?s) 4294967295 = ?s"
    using c by (simp add: mod_nm_def u32nat_def)
  have "7 \<le> nmsize ns"
    using table_wfD(3) [OF nodemap_wfD(1) [OF wf]] .
  note inc = mod2_bounds [OF this, of "u32nat (nmcount ns + 1)"]
  have "id_found ns a (namespaceIndex (nid_at ns a))
      (random_id_loop (random_id_fuel ns) ?s (mod2 (u32nat (nmcount ns + 1)) (nmsize ns)) ?s a ns)"
    using st room wf inc c by (intro descent_phase) (auto simp: random_id_fuel_def)
  then show ?thesis
    using id s by (simp add: select_slot_def nid_at_def Let_def)
qed

end
