(* ===== verification/Nodestore_Props.thy ===== *)
theory Nodestore_Props
  imports Nodestore_Random_Id
begin

text \<open>
  The properties of the node store (theories \<open>Nodestore\<close> to \<open>Nodestore_Random_Id\<close>), with a small
  store for the witnesses that is built by the operations themselves.
\<close>

subsection \<open>A small store\<close>

text \<open>A new store with an allocated node that has got the NodeId \<open>n\<close> and can be inserted.\<close>

lemma demo_store:
  "\<exists>ns a. nodemap_wf ns \<and> fresh_entry ns a \<and> nid_at ns a = n \<and> store ns = (\<lambda>_. None) \<and> nmcount ns = 0
    \<and> refCount (entry_of ns a) = 0 \<and> nmsize ns = 127 \<and> nodeClass (enode (entry_of ns a)) = 1"
proof -
  obtain n0 where n0: "nodemap_wf n0" "store n0 = (\<lambda>_. None)" "nmcount n0 = 0" "nmsize n0 = 127"
    using default_new_spec by blast
  obtain a n1 where n1: "nodemap_wf n1" "store n1 = store n0" "fresh_entry n1 a" "nmcount n1 = nmcount n0"
    "nmsize n1 = nmsize n0" and h: "nmheap n1 = (nmheap n0)(a \<mapsto> \<lparr>orig = None, refCount = 0, deleted = False,
        enode = \<lparr>nodeId_of = NodeId_init, nodeClass = 1, ninfo = 0\<rparr>\<rparr>)"
    using newEntry_spec [OF n0(1), of 1] by (auto simp: valid_class_def)
  let ?e = "\<lparr>orig = None, refCount = 0, deleted = False, enode = \<lparr>nodeId_of = n, nodeClass = 1, ninfo = 0\<rparr>\<rparr>"
  let ?ns = "set_entry a ?e n1"
  have na: "a \<notin> set (addr_list (entries n1))"
    using n1(3) by (simp add: fresh_entry_def)
  have "nodemap_wf ?ns" "store ?ns = store n1"
    using set_entry_wf [OF n1(1), of a ?e] na h by simp_all
  moreover have "fresh_entry ?ns a" "nid_at ?ns a = n" "refCount (entry_of ?ns a) = 0" "nodeClass (enode (entry_of ?ns a)) = 1"
    using na by (simp_all add: fresh_entry_def nid_at_def set_entry_def entry_of_def)
  ultimately show ?thesis
    using n0 n1 by (intro exI [of _ ?ns] exI [of _ a]) simp
qed

subsection \<open>Properties\<close>

text \<open>C27: Inserting a node whose NodeId is not in the store succeeds (up to half a million nodes,
  including the resizing of the table on the way); afterwards a lookup of its NodeId finds it, and a lookup
  of any other NodeId finds what it found before.\<close>

theorem nodestore_get_after_insert:
  assumes "nodemap_wf ns" and "insertable ns a" and "store ns (key_at ns a) = None"
  shows "\<exists>s1 s2. UA_NodeMap_insertNode True want_id GOOD a ns = Some (GOOD, s1)
    \<and> UA_NodeMap_getNode nid s1
        = Some (if UA_NodeId_equal nid (nid_at ns a) then Some a else store ns (nodeid_key nid), s2)"
  using nodestore.get_after_insert [OF assms, of want_id nid]
  by (simp add: nodeid_hash.equal_key key_at_def)

theorem nodestore_get_after_insert_witness:
  "\<exists>ns a s1 s2. nid_at ns a = \<lparr>namespaceIndex = 1, nident = Numeric 7\<rparr>
    \<and> UA_NodeMap_insertNode True True GOOD a ns = Some (GOOD, s1)
    \<and> UA_NodeMap_getNode \<lparr>namespaceIndex = 1, nident = Numeric 7\<rparr> s1 = Some (Some a, s2)"
proof -
  obtain ns a where d: "nodemap_wf ns" "fresh_entry ns a" "nid_at ns a = \<lparr>namespaceIndex = 1, nident = Numeric 7\<rparr>"
    "store ns = (\<lambda>_. None)" "nmcount ns = 0"
    using demo_store [of "\<lparr>namespaceIndex = 1, nident = Numeric 7\<rparr>"] by auto
  have "insertable ns a" "store ns (key_at ns a) = None"
    using d by (simp_all add: insertable_def)
  from nodestore_get_after_insert [OF d(1) this, of True "\<lparr>namespaceIndex = 1, nident = Numeric 7\<rparr>"] d(3)
  show ?thesis
    by (auto simp: nodeid_hash.equal_refl)
qed

text \<open>C28: Removing a node always succeeds when its NodeId is in the store (also when the table
  shrinks or the allocation for that fails) and reports an unknown NodeId otherwise; afterwards a lookup of
  the NodeId fails and every other lookup is unchanged.\<close>

theorem nodestore_get_after_remove:
  assumes "nodemap_wf ns"
  shows "\<exists>s1 s2. UA_NodeMap_removeNode calloc_ok nid ns
        = Some (if store ns (nodeid_key nid) = None then BADNODEIDUNKNOWN else GOOD, s1)
    \<and> UA_NodeMap_getNode nid' s1
        = Some (if UA_NodeId_equal nid' nid then None else store ns (nodeid_key nid'), s2)"
proof -
  obtain s1 where "UA_NodeMap_removeNode calloc_ok nid ns
        = Some (if store ns (nodeid_key nid) = None then BADNODEIDUNKNOWN else GOOD, s1)"
    using nodestore.remove_law [OF assms, of calloc_ok nid] by blast
  with nodestore.get_after_remove [OF assms, of calloc_ok nid nid'] show ?thesis
    by (auto simp: nodeid_hash.equal_key)
qed

theorem nodestore_get_after_remove_witness:
  "\<exists>ns s1 s2. nodemap_wf ns
    \<and> UA_NodeMap_removeNode True \<lparr>namespaceIndex = 0, nident = Numeric 85\<rparr> ns = Some (BADNODEIDUNKNOWN, s1)
    \<and> UA_NodeMap_getNode \<lparr>namespaceIndex = 0, nident = Numeric 85\<rparr> s1 = Some (None, s2)"
proof -
  obtain ns where "nodemap_wf ns" "store ns = (\<lambda>_. None)"
    using default_new_spec by blast
  with nodestore_get_after_remove [of ns True "\<lparr>namespaceIndex = 0, nident = Numeric 85\<rparr>"
      "\<lparr>namespaceIndex = 0, nident = Numeric 85\<rparr>"] show ?thesis
    by auto
qed

text \<open>C29: A node that somebody holds survives its removal. After \<open>getNode\<close> and \<open>removeNode\<close> the
  node is no longer found, but its memory with the node stays allocated, marked as deleted; releasing the last
  reference frees it.\<close>

theorem held_node_survives_removal:
  assumes "nodemap_wf ns" and "store ns (nodeid_key nid) = Some a" and "refCount (entry_of ns a) = 0"
  shows "\<exists>n1 n2 n3 e. UA_NodeMap_getNode nid ns = Some (Some a, n1)
    \<and> UA_NodeMap_removeNode calloc_ok nid n1 = Some (GOOD, n2) \<and> store n2 (nodeid_key nid) = None
    \<and> nmheap n2 a = Some e \<and> enode e = enode (entry_of ns a) \<and> deleted e
    \<and> UA_NodeMap_releaseNode (Some a) n2 = Some n3 \<and> nmheap n3 a = None \<and> store n3 = store n2"
proof -
  obtain e n1 where n1: "UA_NodeMap_getNode nid ns = Some (Some a, n1)" "nodemap_wf n1" "store n1 = store ns"
    "nmheap ns a = Some e" "nmheap n1 = (nmheap ns)(a \<mapsto> e\<lparr>refCount := refCount e + 1\<rparr>)"
    using getNode_spec [OF assms(1), of nid] assms(2) by auto
  have e: "entry_of ns a = e" "refCount e = 0"
    using assms(3) n1(4) by (simp_all add: entry_of_def)
  obtain n2 where n2: "UA_NodeMap_removeNode calloc_ok nid n1 = Some (GOOD, n2)" "nodemap_wf n2"
    "store n2 = (store n1)(nodeid_key nid := None)" "nmheap n2 a = Some (e\<lparr>refCount := 1, deleted := True\<rparr>)"
    using removeNode_spec [OF n1(2), where nid = nid and calloc_ok = calloc_ok] assms(2) n1(3,5) e
    by (auto simp: retired_def)
  obtain n3 where "UA_NodeMap_releaseNode (Some a) n2 = Some n3" "store n3 = store n2" "nmheap n3 a = None"
    using releaseNode_spec [OF n2(2,4)] by auto
  with n1 n2 e show ?thesis
    by (intro exI [of _ n1] exI [of _ n2] exI [of _ n3] exI [of _ "e\<lparr>refCount := 1, deleted := True\<rparr>"]) simp
qed

theorem held_node_survives_removal_witness:
  "\<exists>ns a n1 n2 n3. UA_NodeMap_getNode \<lparr>namespaceIndex = 1, nident = Numeric 7\<rparr> ns = Some (Some a, n1)
    \<and> UA_NodeMap_removeNode True \<lparr>namespaceIndex = 1, nident = Numeric 7\<rparr> n1 = Some (GOOD, n2)
    \<and> nmheap n2 a \<noteq> None \<and> UA_NodeMap_releaseNode (Some a) n2 = Some n3 \<and> nmheap n3 a = None"
proof -
  let ?n = "\<lparr>namespaceIndex = 1, nident = Numeric 7\<rparr>"
  obtain ns a where d: "nodemap_wf ns" "fresh_entry ns a" "nid_at ns a = ?n" "store ns = (\<lambda>_. None)"
    "nmcount ns = 0" "refCount (entry_of ns a) = 0"
    using demo_store [of ?n] by auto
  obtain ns' where n: "nodemap_wf ns'" "store ns' = (store ns)(key_at ns a \<mapsto> a)" "nmheap ns' = nmheap ns"
    using insertNode_spec [OF d(1,2), of True] d by auto
  have "entry_of ns' a = entry_of ns a"
    by (simp add: entry_of_def n(3))
  moreover have "store ns' (nodeid_key ?n) = Some a"
    using n(2) d(3) by (simp add: key_at_def)
  ultimately show ?thesis
    using held_node_survives_removal [OF n(1), of ?n a True] d(6) by auto blast
qed

text \<open>C30: A changed copy of a node replaces the node exactly when the node was not changed since the
  copy was made; otherwise the store stays as it is, the copy is freed and the caller gets an error. The
  replaced entry is freed unless somebody holds it.\<close>

theorem nodestore_replace:
  assumes "nodemap_wf ns" and "fresh_entry ns b" and "store ns (key_at ns b) = Some a"
  shows "\<exists>r ns'. UA_NodeMap_replaceNode b ns = Some (r, ns') \<and> nodemap_wf ns'
    \<and> (if orig (entry_of ns b) = Some a
       then r = GOOD \<and> store ns' = (store ns)(key_at ns b \<mapsto> b)
         \<and> (nmheap ns' a = None \<longleftrightarrow> refCount (entry_of ns a) = 0)
       else r = BADINTERNALERROR \<and> store ns' = store ns \<and> nmheap ns' b = None)"
proof (cases "orig (entry_of ns b) = Some a")
  case True
  obtain e ns' where "UA_NodeMap_replaceNode b ns = Some (GOOD, ns')" "nodemap_wf ns'"
    "store ns' = (store ns)(key_at ns b \<mapsto> b)" "nmheap ns a = Some e" "nmheap ns' = (nmheap ns)(a := retired e)"
    using replaceNode_spec [OF assms(1,2)] assms(3) True by auto
  then show ?thesis
    using True by (simp add: retired_def entry_of_def)
next
  case False
  then show ?thesis
    using replaceNode_spec [OF assms(1,2)] assms(3) by auto
qed

theorem nodestore_replace_witness:
  "\<exists>ns b ns'. nodemap_wf ns \<and> UA_NodeMap_replaceNode b ns = Some (GOOD, ns')
    \<and> store ns' (key_at ns b) = Some b \<and> store ns (key_at ns b) \<noteq> Some b"
proof -
  let ?n = "\<lparr>namespaceIndex = 1, nident = Numeric 7\<rparr>"
  obtain ns a where d: "nodemap_wf ns" "fresh_entry ns a" "nid_at ns a = ?n" "store ns = (\<lambda>_. None)"
    "nmcount ns = 0" "nodeClass (enode (entry_of ns a)) = 1"
    using demo_store [of ?n] by auto
  obtain n1 where n1: "nodemap_wf n1" "store n1 = (store ns)(key_at ns a \<mapsto> a)" "nmheap n1 = nmheap ns"
    using insertNode_spec [OF d(1,2), of True] d by auto
  have e: "entry_of n1 a = entry_of ns a"
    by (simp add: entry_of_def n1(3))
  then have k: "key_at n1 a = ?n" "store n1 (nodeid_key ?n) = Some a"
    using d(3) n1(2) by (simp_all add: key_at_def nid_at_def nodeid_key_def)
  obtain b n2 e' where n2: "nodemap_wf n2" "store n2 = store n1" "fresh_entry n2 b" "b \<noteq> a"
    "nmheap n2 = (nmheap n1)(b \<mapsto> e')" "orig e' = Some a" "key_at n2 b = key_at n1 a"
    using getNodeCopy_spec [OF n1(1) k(2)] e d(6) by (auto simp: valid_class_def)
  have "store n2 (key_at n2 b) = Some a" "orig (entry_of n2 b) = Some a"
    using n2 k by (simp_all add: entry_of_def nodeid_key_def)
  moreover obtain ns' where "UA_NodeMap_replaceNode b n2 = Some (GOOD, ns')"
    "store ns' = (store n2)(key_at n2 b \<mapsto> b)"
    using nodestore_replace [OF n2(1,3) calculation(1)] calculation(2) by auto
  ultimately show ?thesis
    using n2(1,4) by (intro exI [of _ n2] exI [of _ b] exI [of _ ns']) simp
qed

text \<open>C31: A node without an identifier of its own (numeric identifier zero) is always inserted: the search
  for an identifier ends, and the node gets a numeric identifier that no node of its namespace had.\<close>

theorem nodestore_insert_random_id:
  assumes "nodemap_wf ns" and "fresh_entry ns a" and "nmcount ns * 4 < nmsize ns * 3"
    and "nident (nid_at ns a) = Numeric 0"
  shows "\<exists>ns' x. UA_NodeMap_insertNode True want_id GOOD a ns = Some (GOOD, ns') \<and> nodemap_wf ns'
    \<and> nid_at ns' a = \<lparr>namespaceIndex = namespaceIndex (nid_at ns a), nident = Numeric x\<rparr>
    \<and> store ns \<lparr>namespaceIndex = namespaceIndex (nid_at ns a), nident = Numeric x\<rparr> = None
    \<and> store ns' = (store ns)(\<lparr>namespaceIndex = namespaceIndex (nid_at ns a), nident = Numeric x\<rparr> \<mapsto> a)"
proof -
  let ?N = "namespaceIndex (nid_at ns a)"
  have room: "nmcount ns < nmsize ns" and no_expand: "\<not> u32nat (nmsize ns * 3) \<le> u32nat (nmcount ns * 4)"
    using assms(3) u32_small [OF assms(1)] by simp_all
  obtain i n2 x where f: "select_slot a ns = Some (Some i, n2)" "id_state ns a ?N n2" "nid_at n2 a = numeric_id ?N x"
    "store ns (numeric_id ?N x) = None" "findFreeSlot n2 (nid_at n2 a) = Some (Some i)"
    using select_random_id [OF assms(1,2) room assms(4)] by (auto simp: id_found_def)
  note st = f(2) [unfolded id_state_def]
  let ?ns = "n2\<lparr>entries := (entries n2)[i := Entry a], nmcount := u32nat (nmcount n2 + 1)\<rparr>"
  have k: "key_at n2 a = numeric_id ?N x"
    using f(3) by (simp add: key_at_def)
  have ins: "is_free (entries n2 ! i)" "nodemap_wf ?ns" "store ?ns = (store n2)(key_at n2 a \<mapsto> a)"
    using insert_into_table [of n2 a] st f(4,5) room k by auto
  have "UA_NodeMap_insertNode True want_id GOOD a ns = Some (GOOD, ?ns)"
    using no_expand f(1) ins(1) by (simp add: UA_NodeMap_insertNode_def)
  moreover have "nid_at ?ns a = numeric_id ?N x"
    using f(3) by (simp add: nid_at_def entry_of_def)
  ultimately show ?thesis
    using ins st k f(4) by (intro exI [of _ ?ns] exI [of _ "of_nat x"]) (simp add: numeric_id_def)
qed

theorem nodestore_insert_random_id_witness:
  "\<exists>ns a ns' x. nident (nid_at ns a) = Numeric 0
    \<and> UA_NodeMap_insertNode True True GOOD a ns = Some (GOOD, ns')
    \<and> store ns' \<lparr>namespaceIndex = 2, nident = Numeric x\<rparr> = Some a"
proof -
  obtain ns a where d: "nodemap_wf ns" "fresh_entry ns a" "nid_at ns a = \<lparr>namespaceIndex = 2, nident = Numeric 0\<rparr>"
    "nmcount ns = 0" "nmsize ns = 127"
    using demo_store [of "\<lparr>namespaceIndex = 2, nident = Numeric 0\<rparr>"] by auto
  have "nmcount ns * 4 < nmsize ns * 3" "nident (nid_at ns a) = Numeric 0"
    using d by simp_all
  moreover obtain ns' x where "UA_NodeMap_insertNode True True GOOD a ns = Some (GOOD, ns')"
    "store ns' = (store ns)(\<lparr>namespaceIndex = 2, nident = Numeric x\<rparr> \<mapsto> a)"
    using nodestore_insert_random_id [OF d(1,2) calculation, of True] d(3) by auto
  moreover from this(2) have "store ns' \<lparr>namespaceIndex = 2, nident = Numeric x\<rparr> = Some a"
    by simp
  ultimately show ?thesis
    by blast
qed

text \<open>C32: Resizing the hash map, in both directions, keeps every node where lookups find it and
  leaves room for at least one more node.\<close>

theorem nodestore_expand:
  assumes "nodemap_wf ns" and "nmcount ns \<le> MAX_NODES"
  shows "\<exists>ns'. expand True ns = Some (GOOD, ns') \<and> nodemap_wf ns' \<and> store ns' = store ns
    \<and> nmheap ns' = nmheap ns \<and> nmcount ns' < nmsize ns'"
  using expand_spec [OF assms, of True] by auto

theorem nodestore_expand_witness:
  "\<exists>ns ns'. nodemap_wf ns \<and> nmsize ns = 127 \<and> expand True ns = Some (GOOD, ns') \<and> nodemap_wf ns'"
proof -
  obtain ns where "nodemap_wf ns" "nmcount ns = 0" "nmsize ns = 127"
    using default_new_spec by blast
  with nodestore_expand [of ns] show ?thesis
    by (auto simp: MAX_NODES_def)
qed

end
