(* ===== verification/Spec2Isabelle.thy ===== *)
theory Spec2Isabelle
  imports Server_Safety Secure_Channel_Buffers Connection_Props Subscription_Props Pubsub_Safety Binary_Generic_Limits Binary_Generic_Safety Binary_Chunking Binary_Safety Timer_Correct Nodestore_Props Nodestore_Random_Id
begin

text \<open>
  A verification development for the open62541 OPC UA stack with PubSub (the sources under src/).

  \<^bold>\<open>The program.\<close> open62541 is a C library with an OPC UA server and client. A message is a structure that the binary codec
  (src/src/ua_types_encoding_binary.c) writes into the buffers of a secure channel, chunk by chunk; the server
  decodes requests with the same codec and dispatches them to services. The services work on nodes, which the node store
  (src/plugins/ua_nodestore_default.c) keeps in a hash map under their NodeIds (src/src/ua_types.c), and on the sessions
  and subscriptions of the clients (src/src/server/ua_session.c, ua_subscription.c). Everything that happens
  periodically (sampling, publishing) is a callback of the timer (src/src/ua_timer.c). PubSub sends the same
  builtin types in UADP network messages (src/src/pubsub/ua_pubsub_networkmessage.c).

  \<^bold>\<open>Theories and sources.\<close>

  \<^item> Prelude: words, status codes, OPC UA strings and arrays (None is the null array), little-endian bytes
  (\<open>UA_encode16\<close> to \<open>UA_decode64\<close>), generic lemmas.
  \<^item> Binary_Basic: the codec of the builtin types without nested content (ua_types_encoding_binary.c). The context \<open>ectx\<close>
  is the thread-local \<open>Ctx\<close> of the code: the bytes of the current buffer, the room left, the depth and the answers of the exchange
  callback; \<open>dctx\<close> is the input with an offset. Binary_Basic_Correct has the round trips, Binary_Chunking what
  is sent when the message is cut into chunks at any place, Binary_Safety the decoders on arbitrary bytes.
  \<^item> Binary_Generic: structures by type tables, ExtensionObject, Variant, DataValue, DiagnosticInfo, the jump tables and the
  interface functions. The type tables are generated and so a parameter (\<open>types\<close>); \<open>types_ok\<close> says what the generator promises.
  Binary_Generic_Correct has the round trip, Binary_Generic_Safety termination and bounds on arbitrary bytes and tables,
  Binary_Generic_Limits the cases in which a value is not given back.
  Binary_Generic_Chunking shows for whole structures what Binary_Chunking shows for single values.
  \<^item> Connection: the byte stream of a connection (src/src/ua_connection.c) with the send functions of src/plugins/ua_network_tcp.c. The
  answers of the socket and of the allocator are part of the state. Connection_Correct has the locales \<open>chunk_handler\<close> and \<open>memory_handler\<close>, the laws
  of a function that handles complete chunks, Connection_Props the properties.
  \<^item> Secure_Channel, _Send, _Receive: the secure channel (src/src/ua_securechannel.c): keys and tokens; chunks with padding, signature and encryption, sent
  from the callback of the encoder; decryption, sequence numbers and the assembly of messages. The functions of a security policy
  (src/include/ua_plugin_securitypolicy.h) are a parameter, the record \<open>policy\<close>; accesses outside of a buffer are the result \<open>None\<close>.
  Secure_Channel_Correct states the laws of the cryptography as the locale \<open>crypto_pair\<close> and shows that a chunk that was
  sent is received; Security_Policy_None has the policy of src/plugins/ua_securitypolicy_none.c, which interprets the locale. Secure_Channel_Message goes on to whole
  messages (locale \<open>message_handler\<close>), Secure_Channel_Progress shows that sending succeeds, Secure_Channel_Props, _Safety and _Buffers
  have the properties.
  \<^item> Server_Channels: the lists of channels and sessions of a server (src/src/server/ua_securechannel_manager.c, ua_session_manager.c, ua_session.c) with
  the delayed callbacks (ua_server_worker.c). Connections, channels and sessions point to each other, so the record \<open>server\<close> has a heap for each
  of them, and following a pointer to freed memory is the result \<open>None\<close>. Server_Services: the HEL and OPN messages, the channel and session services
  (ua_services_securechannel.c, ua_services_session.c) and the choice of the session for a request (\<open>processMSG\<close> of ua_server_binary.c). Server_Invariant,
  _Sessions and _Safety: the invariant \<open>server_ok\<close> (mutual pointers, counters, pending callbacks), operation by operation.
  \<^item> Pubsub_Message: encoding, decoding and size of NetworkMessages and DataSetMessages. Pubsub_Message_Correct and
  Pubsub_Network_Correct build the codec lemmas layer by layer, Pubsub_Props has the round trips through the locale
  \<open>message_codec\<close> and its interpretations, Pubsub_Safety termination, bounds and well-formedness on arbitrary bytes.
  \<^item> Timer_Queue, Timer, Timer_Correct: the lock-free multi-producer queue of changes with the pointers of the code and
  all interleavings of producers and the consumer; the sorted list of callbacks and the processing loop.
  \<^item> Types_Id: comparison and hash of identifiers (ua_types.c).
  \<^item> Nodestore and Nodestore_Probe, _Correct, _Random_Id, _Props: the hash map with double hashing and tombstones, entries with reference
  counts in a heap, copy and replace, resizing, the choice of random identifiers.
  \<^item> Subscription: the data of subscriptions, MonitoredItems and Notifications (ua_subscription.h), the queues
  (ua_subscription.c, ua_subscription_datachange.c), publishing and retransmission, and the publish request queue of a session
  (ua_session.c). A Notification is linked into the queue of its item and into the queue of the subscription, so
  it has an address and both queues are lists of addresses. Subscription_Services: the services of ua_services_subscription.c.
  \<^item> Subscription_Queue, _Enqueue, _Deliver: the invariant of the queues and what each operation does to them.
  Subscription_Invariant, _Session, _Steps: the invariant of a session and the state machine of its services; the locale
  \<open>session_invariant\<close> lifts an invariant of single operations to services with lists of operations. Subscription_Publish,
  _Liveness, _Requests: what publishing delivers. Subscription_Props: the properties.

  \<^bold>\<open>What is shown.\<close> Round trips of all codecs, with the computed size and over arbitrary chunk boundaries where the code keeps its
  own contract, and theorems for the values for which it does not. Decoders end on every input, with the offset
  at most four bytes behind the buffer (the exact bound of the code), and decoded messages are well-formed. The queue of the timer is
  first-in first-out in every interleaving; processing dispatches exactly what is due. The node store is a finite map:
  lookups after insertion, removal and replacement, nodes that are held survive. The queue of a MonitoredItem refines a
  bounded queue, sessions keep their invariant, publishing loses no notification and no request, and delivers all
  notifications when requests, memory and the channel allow it. A message that is sent over a secure channel in chunks arrives as a whole,
  however the transport cuts the stream; chunks have an effect only after their signature was verified, sequence numbers are not accepted twice,
  and the exact conditions are given under which padding leaves the send buffer and decryption reads outside of a chunk.

  \<^bold>\<open>Bounds and fuel.\<close> Encoding is structural on the value and the number of exchange answers (\<open>script_len\<close>). The
  generic decoder has the fuel 23 + the length of the input (\<open>decode_fuel\<close>), of which every nested call uses one: the depth is
  limited to \<open>UA_ENCODING_MAX_RECURSION\<close> and below it every element takes a byte; \<open>UA_decodeBinary_terminates\<close> shows that it
  is enough. The loop over promoted fields has as fuel their size in bytes, the loops over the security footer the room or the
  input plus one. Probing in the hash map has the size of the table as fuel, resizing and
  random identifiers likewise; all of them are proved to be enough. The overflow loop of a MonitoredItem ends by its queue size,
  publishing by the number of publish requests. Encoding into a secure channel is given the number of fresh buffers at hand; twice the length of the message
  is enough, since every second buffer takes a byte.

  \<^bold>\<open>Abstractions.\<close> Allocation succeeds in the codecs and the node store (the code there reports BADOUTOFMEMORY and undoes its work);
  in the timer, in subscriptions, connections, channels and the server the answers of the allocator are part of the state. The release of
  memory is modelled where it matters (node store, timer, Notifications, channels and sessions) and left out in the codecs. Floating point values are kept
  as bits. Times of responses, log messages and diagnostics are left out.

  \<^bold>\<open>Not modelled.\<close> The security policies with cryptography (calls into mbedTLS); the client; the network plugins except for sending
  and the event loop (sockets); the dispatch of requests by their type; the attribute, view, node management and method services and the namespace zero bootstrap;
  PubSub configuration; sampling with its deadband filter (floating point arithmetic), the creation of MonitoredItems, which reads a value
  through the attribute service, and events, which the default build disables; discovery and multicast DNS
  (a submodule that is not part of the sources).
\<close>

end
